(* ===== verification/Prelude.thy ===== *)
theory Prelude
  imports "HOL-Library.State_Monad" "HOL-Library.List_Lexorder" "HOL-Library.Char_ord"
begin

text \<open>
  The vocabulary every component shares.
  \<^item> Rust strings are UTF-8 byte sequences: a \<^typ>\<open>string\<close> is the list of its bytes, so
    \<open>len()\<close> is \<^const>\<open>length\<close> and the order of \<open>String\<close> is the lexicographic one.
  \<^item> A \<open>BTreeMap\<close> is the list of its entries in key order, with the operations the code
    uses; the locale \<open>ordered_map\<close> is what its clients rely on.
  \<^item> A handler of the host is a \<open>State_Monad\<close> computation; the locale \<open>frame\<close> carries a
    reflexive and transitive relation between the state before and after through every way
    the handlers are composed.
  \<^item> Unsigned integers are \<^typ>\<open>nat\<close> and \<open>i64\<close> is \<^typ>\<open>int\<close>; the casts that can wrap and
    the operations that saturate are written out here.
\<close>

section \<open>Rule collections\<close>

named_theorems frame_rules \<open>the composition rules of the interpreted frames\<close>
named_theorems run_simps \<open>what running the primitive handlers does\<close>

section \<open>Machine integers\<close>

definition u16_max :: nat where
  "u16_max = 65535"

definition u32_max :: nat where
  "u32_max = 4294967295"

definition u64_max :: nat where
  "u64_max = 18446744073709551615"

text \<open>\<open>x as i64\<close> on a \<open>u64\<close>: two's complement reinterpretation.\<close>

definition as_i64 :: "nat \<Rightarrow> int" where
  "as_i64 n = (if n < 2 ^ 63 then int n else int n - 2 ^ 64)"

definition saturating_mul_u64 :: "nat \<Rightarrow> nat \<Rightarrow> nat" where
  "saturating_mul_u64 a b = min (a * b) u64_max"

text \<open>A sum or product of \<open>u32\<close> values, which wraps in a release build.\<close>

definition wrap_u32 :: "nat \<Rightarrow> nat" where
  "wrap_u32 n = n mod 2 ^ 32"

lemma as_i64_small [simp]: "n < 2 ^ 63 \<Longrightarrow> as_i64 n = int n"
  by (simp add: as_i64_def)

lemma as_i64_numeral [simp]:
  "numeral k < (2 ^ 63 :: nat) \<Longrightarrow> as_i64 (numeral k) = numeral k"
  by (simp add: as_i64_def)

lemma as_i64_0 [simp]: "as_i64 0 = 0"
  by (simp add: as_i64_def)

lemma as_i64_1 [simp]: "as_i64 1 = 1" "as_i64 (Suc 0) = 1"
  by (simp_all add: as_i64_def)

lemma as_i64_negative: "2 ^ 63 \<le> n \<Longrightarrow> n < 2 ^ 64 \<Longrightarrow> as_i64 n < 0"
  by (simp add: as_i64_def)

lemma wrap_u32_small [simp]: "n < 2 ^ 32 \<Longrightarrow> wrap_u32 n = n"
  by (simp add: wrap_u32_def)

section \<open>Strings\<close>

definition is_ascii_digit :: "char \<Rightarrow> bool" where
  "is_ascii_digit c \<longleftrightarrow> CHR ''0'' \<le> c \<and> c \<le> CHR ''9''"

definition is_ascii_lowercase :: "char \<Rightarrow> bool" where
  "is_ascii_lowercase c \<longleftrightarrow> CHR ''a'' \<le> c \<and> c \<le> CHR ''z''"

definition is_ascii_uppercase :: "char \<Rightarrow> bool" where
  "is_ascii_uppercase c \<longleftrightarrow> CHR ''A'' \<le> c \<and> c \<le> CHR ''Z''"

definition is_ascii_alphabetic :: "char \<Rightarrow> bool" where
  "is_ascii_alphabetic c \<longleftrightarrow> is_ascii_lowercase c \<or> is_ascii_uppercase c"

definition is_ascii_alphanumeric :: "char \<Rightarrow> bool" where
  "is_ascii_alphanumeric c \<longleftrightarrow> is_ascii_alphabetic c \<or> is_ascii_digit c"

definition is_ascii_graphic :: "char \<Rightarrow> bool" where
  "is_ascii_graphic c \<longleftrightarrow> CHR ''!'' \<le> c \<and> c \<le> CHR ''~''"

lemmas char_class_defs =
  is_ascii_digit_def is_ascii_lowercase_def is_ascii_uppercase_def is_ascii_alphabetic_def
  is_ascii_alphanumeric_def is_ascii_graphic_def

text \<open>\<open>str::split\<close> on one character: always at least one piece.\<close>

fun split_on :: "'a \<Rightarrow> 'a list \<Rightarrow> 'a list list" where
  "split_on d [] = [[]]"
| "split_on d (c # cs) =
     (if c = d then [] # split_on d cs
      else case split_on d cs of
             [] \<Rightarrow> [[c]]
           | piece # pieces \<Rightarrow> (c # piece) # pieces)"

text \<open>\<open>[T]::join\<close> with a one-character separator.\<close>

fun join_with :: "'a \<Rightarrow> 'a list list \<Rightarrow> 'a list" where
  "join_with d [] = []"
| "join_with d [p] = p"
| "join_with d (p # q # ps) = p @ d # join_with d (q # ps)"

text \<open>\<open>str::split_once\<close>.\<close>

fun split_once :: "'a \<Rightarrow> 'a list \<Rightarrow> ('a list \<times> 'a list) option" where
  "split_once d [] = None"
| "split_once d (c # cs) =
     (if c = d then Some ([], cs)
      else map_option (\<lambda>(a, b). (c # a, b)) (split_once d cs))"

text \<open>Decimal printing, as \<open>format!\<close> prints an unsigned integer.\<close>

definition digit_char :: "nat \<Rightarrow> char" where
  "digit_char d = char_of (48 + d)"

fun show_nat :: "nat \<Rightarrow> string" where
  "show_nat n = (if n < 10 then [digit_char n] else show_nat (n div 10) @ [digit_char (n mod 10)])"

declare show_nat.simps [simp del]

definition show_int :: "int \<Rightarrow> string" where
  "show_int i = (if i < 0 then CHR ''-'' # show_nat (nat (- i)) else show_nat (nat i))"

lemma split_on_nonempty [simp]: "split_on d cs \<noteq> []"
  by (induction cs) (auto split: list.splits)

lemma join_split_on [simp]: "join_with d (split_on d cs) = cs"
proof (induction cs)
  case Nil
  then show ?case by simp
next
  case (Cons c cs)
  obtain p ps where "split_on d cs = p # ps"
    by (cases "split_on d cs") auto
  with Cons show ?case
    by (cases ps) auto
qed

lemma split_on_no_delim: "p \<in> set (split_on d cs) \<Longrightarrow> d \<notin> set p"
proof (induction cs arbitrary: p)
  case Nil
  then show ?case by simp
next
  case (Cons c cs)
  obtain q qs where q: "split_on d cs = q # qs"
    by (cases "split_on d cs") auto
  show ?case
  proof (cases "c = d")
    case True
    with Cons show ?thesis by auto
  next
    case False
    with Cons.prems q have "p = c # q \<or> p \<in> set qs" by auto
    with False Cons.IH q show ?thesis by auto
  qed
qed

lemma split_on_delim_free [simp]: "d \<notin> set p \<Longrightarrow> split_on d p = [p]"
  by (induction p) auto

lemma split_on_append: "d \<notin> set p \<Longrightarrow> split_on d (p @ d # cs) = p # split_on d cs"
  by (induction p) auto

lemma split_join [simp]:
  "ps \<noteq> [] \<Longrightarrow> \<forall>p \<in> set ps. d \<notin> set p \<Longrightarrow> split_on d (join_with d ps) = ps"
proof (induction d ps rule: join_with.induct)
  case (3 d p q ps)
  then show ?case by (simp add: split_on_append)
qed auto

lemma split_once_Some: "split_once d cs = Some (a, b) \<Longrightarrow> cs = a @ d # b \<and> d \<notin> set a"
  by (induction cs arbitrary: a) (auto split: if_splits)

lemma split_once_None: "split_once d cs = None \<longleftrightarrow> d \<notin> set cs"
  by (induction cs) auto

lemma digit_char_inj: "a < 10 \<Longrightarrow> b < 10 \<Longrightarrow> digit_char a = digit_char b \<longleftrightarrow> a = b"
  by (simp add: digit_char_def)

lemma show_nat_nonempty [simp]: "show_nat n \<noteq> []" "[] \<noteq> show_nat n"
  by (subst show_nat.simps, simp)+

lemma is_ascii_digit_digit_char [simp]: "d < 10 \<Longrightarrow> is_ascii_digit (digit_char d)"
  by (simp add: is_ascii_digit_def digit_char_def less_eq_char_def)

lemma show_nat_digits: "\<forall>c \<in> set (show_nat n). is_ascii_digit c"
proof (induction n rule: show_nat.induct)
  case (1 n)
  show ?case
  proof (cases "n < 10")
    case True
    then show ?thesis by (subst show_nat.simps) simp
  next
    case False
    with "1.IH" have "\<forall>c \<in> set (show_nat (n div 10)). is_ascii_digit c" by simp
    with False show ?thesis by (subst show_nat.simps) auto
  qed
qed

lemma show_nat_inject [simp]: "show_nat m = show_nat n \<longleftrightarrow> m = n"
proof (induction m arbitrary: n rule: show_nat.induct)
  case (1 m)
  show ?case
  proof (cases "m < 10")
    case m: True
    then show ?thesis
      by (subst show_nat.simps, subst show_nat.simps [of n]) (auto simp: digit_char_inj)
  next
    case m: False
    show ?thesis
    proof (cases "n < 10")
      case True
      with m show ?thesis
        by (subst show_nat.simps, subst show_nat.simps [of n]) auto
    next
      case False
      have "show_nat m = show_nat n \<longleftrightarrow> m div 10 = n div 10 \<and> m mod 10 = n mod 10"
        using m False "1.IH" [of "n div 10"]
        by (subst show_nat.simps, subst show_nat.simps [of n]) (simp add: digit_char_inj)
      also have "\<dots> \<longleftrightarrow> m = n"
        by (metis mult_div_mod_eq)
      finally show ?thesis .
    qed
  qed
qed

section \<open>Ordered maps\<close>

text \<open>What a component that keeps a map relies on.\<close>

locale ordered_map =
  fixes empty :: 'm
    and insert :: "'k \<Rightarrow> 'v \<Rightarrow> 'm \<Rightarrow> 'm"
    and remove :: "'k \<Rightarrow> 'm \<Rightarrow> 'm"
    and get :: "'m \<Rightarrow> 'k \<Rightarrow> 'v option"
    and invar :: "'m \<Rightarrow> bool"
  assumes get_empty: "get empty k = None"
    and get_insert: "get (insert k v m) k' = (if k' = k then Some v else get m k')"
    and get_remove: "get (remove k m) k' = (if k' = k then None else get m k')"
    and invar_empty: "invar empty"
    and invar_insert: "invar m \<Longrightarrow> invar (insert k v m)"
    and invar_remove: "invar m \<Longrightarrow> invar (remove k m)"
begin

definition collect :: "('k \<times> 'v) list \<Rightarrow> 'm" where
  "collect kvs = fold (\<lambda>(k, v). insert k v) kvs empty"

lemma get_insert_same: "get (insert k v m) k = Some v"
  by (simp add: get_insert)

lemma get_insert_other: "k' \<noteq> k \<Longrightarrow> get (insert k v m) k' = get m k'"
  by (simp add: get_insert)

lemma get_remove_insert: "get (remove k (insert k v m)) k' = get (remove k m) k'"
  by (simp add: get_insert get_remove)

lemma get_fold_insert:
  "get (fold (\<lambda>(k, v). insert k v) kvs m) k = (case map_of (rev kvs) k of None \<Rightarrow> get m k | Some v \<Rightarrow> Some v)"
  by (induction kvs arbitrary: m) (auto simp: get_insert map_add_def split: option.splits)

text \<open>Collecting an iterator keeps the last value given for a key.\<close>

lemma get_collect: "get (collect kvs) k = map_of (rev kvs) k"
  by (simp add: collect_def get_fold_insert get_empty split: option.splits)

lemma invar_fold_insert: "invar m \<Longrightarrow> invar (fold (\<lambda>(k, v). insert k v) kvs m)"
  by (induction kvs arbitrary: m) (auto simp: invar_insert)

lemma invar_collect: "invar (collect kvs)"
  by (simp add: collect_def invar_fold_insert invar_empty)

end

type_synonym ('k, 'v) btree = "('k \<times> 'v) list"

fun bt_insert :: "'k::linorder \<Rightarrow> 'v \<Rightarrow> ('k, 'v) btree \<Rightarrow> ('k, 'v) btree" where
  "bt_insert k v [] = [(k, v)]"
| "bt_insert k v ((a, b) # m) =
     (if k < a then (k, v) # (a, b) # m
      else if a < k then (a, b) # bt_insert k v m
      else (k, v) # m)"

definition bt_remove :: "'k \<Rightarrow> ('k, 'v) btree \<Rightarrow> ('k, 'v) btree" where
  "bt_remove k m = filter (\<lambda>(a, _). a \<noteq> k) m"

text \<open>\<open>get_mut\<close> followed by a change in place.\<close>

definition bt_modify :: "'k \<Rightarrow> ('v \<Rightarrow> 'v) \<Rightarrow> ('k, 'v) btree \<Rightarrow> ('k, 'v) btree" where
  "bt_modify k f m = map (\<lambda>(a, b). (a, if a = k then f b else b)) m"

definition bt_keys :: "('k, 'v) btree \<Rightarrow> 'k list" where
  "bt_keys m = map fst m"

definition bt_values :: "('k, 'v) btree \<Rightarrow> 'v list" where
  "bt_values m = map snd m"

definition bt_wf :: "('k::linorder, 'v) btree \<Rightarrow> bool" where
  "bt_wf m \<longleftrightarrow> sorted_wrt (<) (map fst m)"

definition bt_collect :: "('k::linorder \<times> 'v) list \<Rightarrow> ('k, 'v) btree" where
  "bt_collect kvs = fold (\<lambda>(k, v). bt_insert k v) kvs []"

lemma map_of_bt_insert [simp]: "map_of (bt_insert k v m) = (map_of m)(k \<mapsto> v)"
  by (induction m) (auto simp: fun_eq_iff)

lemma map_of_bt_remove [simp]: "map_of (bt_remove k m) = (map_of m)(k := None)"
  by (induction m) (auto simp: bt_remove_def fun_eq_iff)

lemma map_of_bt_modify [simp]:
  "map_of (bt_modify k f m) = (map_of m)(k := map_option f (map_of m k))"
  by (induction m) (auto simp: bt_modify_def fun_eq_iff)

lemma set_keys_bt_insert [simp]: "fst ` set (bt_insert k v m) = insert k (fst ` set m)"
  by (induction k v m rule: bt_insert.induct) (simp_all add: insert_commute antisym_conv3)

lemma keys_bt_modify [simp]: "map fst (bt_modify k f m) = map fst m"
  by (simp add: bt_modify_def case_prod_beta comp_def)

lemma bt_wf_Nil [simp]: "bt_wf []"
  by (simp add: bt_wf_def)

lemma bt_wf_Cons: "bt_wf ((k, v) # m) \<longleftrightarrow> (\<forall>a \<in> fst ` set m. k < a) \<and> bt_wf m"
  by (simp add: bt_wf_def)

lemma bt_wf_insert [simp]: "bt_wf m \<Longrightarrow> bt_wf (bt_insert k v m)"
proof (induction m)
  case Nil
  then show ?case by (simp add: bt_wf_def)
next
  case (Cons e m)
  obtain a b where e: "e = (a, b)" by (cases e)
  with Cons show ?case
    by (auto simp: bt_wf_Cons simp flip: set_map dest: less_trans)
       (auto intro: less_trans)
qed

lemma bt_wf_remove [simp]: "bt_wf m \<Longrightarrow> bt_wf (bt_remove k m)"
  by (induction m) (auto simp: bt_remove_def bt_wf_Cons)

lemma bt_wf_filter: "bt_wf m \<Longrightarrow> bt_wf (filter P m)"
  by (induction m) (auto simp: bt_wf_Cons)

lemma bt_wf_modify [simp]: "bt_wf (bt_modify k f m) \<longleftrightarrow> bt_wf m"
  by (simp add: bt_wf_def)

lemma bt_wf_distinct: "bt_wf m \<Longrightarrow> distinct (map fst m)"
  by (simp add: bt_wf_def strict_sorted_iff)

lemma bt_wf_map_of: "bt_wf m \<Longrightarrow> map_of m k = Some v \<longleftrightarrow> (k, v) \<in> set m"
  by (meson bt_wf_distinct map_of_eq_Some_iff)

interpretation bt: ordered_map "[]" bt_insert bt_remove map_of bt_wf
  by unfold_locales auto

lemma bt_collect_eq: "bt_collect = bt.collect"
  by (simp add: fun_eq_iff bt_collect_def bt.collect_def)

lemma bt_wf_collect [simp]: "bt_wf (bt_collect kvs)"
  by (simp add: bt_collect_eq bt.invar_collect)

lemma map_of_bt_collect [simp]: "map_of (bt_collect kvs) = map_of (rev kvs)"
  by (simp add: fun_eq_iff bt_collect_eq bt.get_collect)

lemma length_bt_insert:
  "bt_wf m \<Longrightarrow> map_of m k = None \<Longrightarrow> length (bt_insert k v m) = Suc (length m)"
  by (induction k v m rule: bt_insert.induct) (auto simp: bt_wf_Cons split: if_splits)

lemma length_bt_insert_le: "length (bt_insert k v m) \<le> Suc (length m)"
  by (induction k v m rule: bt_insert.induct) auto

lemma set_bt_insert_subset: "set (bt_insert k v m) \<subseteq> insert (k, v) (set m)"
  by (induction k v m rule: bt_insert.induct) auto

lemma map_of_filter_wf:
  "bt_wf m \<Longrightarrow> map_of (filter (\<lambda>(k, v). P k v) m) k = (case map_of m k of Some v \<Rightarrow> if P k v then Some v else None | None \<Rightarrow> None)"
proof (induction m)
  case (Cons entry m)
  then have "map_of m (fst entry) = None"
    by (cases entry) (auto simp: bt_wf_Cons map_of_eq_None_iff)
  with Cons show ?case by (cases entry) (auto simp: bt_wf_Cons)
qed simp

section \<open>Handlers\<close>

type_synonym ('s, 'a) handler = "('s, 'a) state"

definition gets :: "('s \<Rightarrow> 'a) \<Rightarrow> ('s, 'a) handler" where
  "gets f = State (\<lambda>s. (f s, s))"

definition modify :: "('s \<Rightarrow> 's) \<Rightarrow> ('s, unit) handler" where
  "modify f = State (\<lambda>s. ((), f s))"

definition do_when :: "bool \<Rightarrow> ('s, unit) handler \<Rightarrow> ('s, unit) handler" where
  "do_when b m = (if b then m else State_Monad.return ())"

text \<open>A \<open>for\<close> loop over a list, for its effects.\<close>

fun for_each :: "'a list \<Rightarrow> ('a \<Rightarrow> ('s, unit) handler) \<Rightarrow> ('s, unit) handler" where
  "for_each [] f = State_Monad.return ()"
| "for_each (x # xs) f = do { f x; for_each xs f }"

abbreviation "done_with \<equiv> State_Monad.return"

definition final :: "('s, 'a) handler \<Rightarrow> 's \<Rightarrow> 's" where
  "final m s = snd (run_state m s)"

definition result :: "('s, 'a) handler \<Rightarrow> 's \<Rightarrow> 'a" where
  "result m s = fst (run_state m s)"

lemma run_gets [simp, run_simps]: "run_state (gets f) s = (f s, s)"
  by (simp add: gets_def)

lemma run_modify [simp, run_simps]: "run_state (modify f) s = ((), f s)"
  by (simp add: modify_def)

lemma final_return [simp]: "final (State_Monad.return a) s = s"
  by (simp add: final_def)

lemma result_return [simp]: "result (State_Monad.return a) s = a"
  by (simp add: result_def)

lemma final_bind [simp]: "final (State_Monad.bind m f) s = final (f (result m s)) (final m s)"
  by (simp add: final_def result_def case_prod_beta)

lemma result_bind [simp]: "result (State_Monad.bind m f) s = result (f (result m s)) (final m s)"
  by (simp add: final_def result_def case_prod_beta)

lemma final_gets [simp]: "final (gets f) s = s"
  by (simp add: final_def)

lemma result_gets [simp]: "result (gets f) s = f s"
  by (simp add: result_def)

lemma final_modify [simp]: "final (modify f) s = f s"
  by (simp add: final_def)

lemma final_do_when: "final (do_when b m) s = (if b then final m s else s)"
  by (simp add: do_when_def)

lemma final_if: "final (if b then m else n) s = (if b then final m s else final n s)"
  by simp

lemma result_if: "result (if b then m else n) s = (if b then result m s else result n s)"
  by simp

text \<open>
  A relation between the state before a handler and the state after it, reflexive and
  transitive, is kept by a composition when its parts keep it. An invariant \<open>I\<close> is the
  relation \<open>\<lambda>s t. I s \<longrightarrow> I t\<close>.
\<close>

locale frame =
  fixes R :: "'s \<Rightarrow> 's \<Rightarrow> bool"
  assumes R_refl: "R s s"
    and R_trans: "R s t \<Longrightarrow> R t u \<Longrightarrow> R s u"
begin

definition keeps :: "('s, 'a) handler \<Rightarrow> bool" where
  "keeps m \<longleftrightarrow> (\<forall>s. R s (final m s))"

lemma keepsI: "(\<And>s. R s (final m s)) \<Longrightarrow> keeps m"
  by (simp add: keeps_def)

lemma keepsD: "keeps m \<Longrightarrow> R s (final m s)"
  by (simp add: keeps_def)

lemma keeps_return [frame_rules]: "keeps (State_Monad.return a)"
  by (simp add: keeps_def R_refl)

lemma keeps_gets [frame_rules]: "keeps (gets f)"
  by (simp add: keeps_def R_refl)

lemma keeps_bind [frame_rules]: "keeps m \<Longrightarrow> (\<And>a. keeps (f a)) \<Longrightarrow> keeps (State_Monad.bind m f)"
  by (auto simp: keeps_def intro: R_trans)

text \<open>What is known of a result in every state may be used after it.\<close>

lemma keeps_bind_with:
  "(\<And>s. P (result m s)) \<Longrightarrow> keeps m \<Longrightarrow> (\<And>a. P a \<Longrightarrow> keeps (f a)) \<Longrightarrow>
     keeps (State_Monad.bind m f)"
  by (auto simp: keeps_def intro: R_trans)

lemma keeps_modify: "(\<And>s. R s (f s)) \<Longrightarrow> keeps (modify f)"
  by (simp add: keeps_def)

lemma keeps_if [frame_rules]: "(b \<Longrightarrow> keeps m) \<Longrightarrow> (\<not> b \<Longrightarrow> keeps n) \<Longrightarrow> keeps (if b then m else n)"
  by simp

lemma keeps_do_when [frame_rules]: "(b \<Longrightarrow> keeps m) \<Longrightarrow> keeps (do_when b m)"
  by (simp add: do_when_def keeps_return)

lemma keeps_option [frame_rules]:
  "(x = None \<Longrightarrow> keeps m) \<Longrightarrow> (\<And>a. x = Some a \<Longrightarrow> keeps (f a)) \<Longrightarrow>
     keeps (case x of None \<Rightarrow> m | Some a \<Rightarrow> f a)"
  by (cases x) auto

lemma keeps_sum [frame_rules]:
  "(\<And>a. x = Inl a \<Longrightarrow> keeps (f a)) \<Longrightarrow> (\<And>b. x = Inr b \<Longrightarrow> keeps (g b)) \<Longrightarrow>
     keeps (case x of Inl a \<Rightarrow> f a | Inr b \<Rightarrow> g b)"
  by (cases x) auto

lemma keeps_prod [frame_rules]:
  "(\<And>a b. x = (a, b) \<Longrightarrow> keeps (f a b)) \<Longrightarrow> keeps (case x of (a, b) \<Rightarrow> f a b)"
  by (cases x) auto

lemma keeps_let [frame_rules]: "keeps (f x) \<Longrightarrow> keeps (let a = x in f a)"
  by simp

lemma keeps_for_each [frame_rules]: "(\<And>x. x \<in> set xs \<Longrightarrow> keeps (f x)) \<Longrightarrow> keeps (for_each xs f)"
  by (induction xs) (auto intro: keeps_return keeps_bind)

end

end
