(* ===== verification/Wire.thy ===== *)
theory Wire
  imports Prelude
begin

text \<open>
  The validated strings and numbers of the documents (\<open>crates/protocol/src/wire.rs\<close>): the
  predicate behind each newtype, \<open>parse\<close> as the \<open>validated_string!\<close> macro makes it, the
  ports and the truncation of state messages. What follows the definitions shows what a value
  that passed its check is known to be.
\<close>

section \<open>Values and the errors of refusing one\<close>

type_synonym app_id = string
type_synonym deployment_id = string
type_synonym host_id = string
type_synonym volume_id = string
type_synonym checkpoint_id = string
type_synonym export_id = string
type_synonym sha256_digest = string
type_synonym port_name = string
type_synonym timestamp = string
type_synonym hostname = string
type_synonym ipv4_address = string
type_synonym object_key = string
type_synonym revision = string
type_synonym state_message = string
type_synonym http_port = nat
type_synonym host_port = nat
type_synonym guest_port = nat

datatype invalid_value = InvalidValue string

definition invalid_new :: "string \<Rightarrow> string \<Rightarrow> invalid_value" where
  "invalid_new what rule = InvalidValue (what @ '' is not '' @ rule)"

definition validated_parse ::
  "string \<Rightarrow> string \<Rightarrow> (string \<Rightarrow> bool) \<Rightarrow> string \<Rightarrow> invalid_value + string" where
  "validated_parse what rule check value =
     (if check value then Inr value else Inl (invalid_new what rule))"

section \<open>The checks\<close>

definition MAX_PORT_NAME_LENGTH :: nat where
  "MAX_PORT_NAME_LENGTH = 16"

definition is_port_name :: "string \<Rightarrow> bool" where
  "is_port_name value =
     (case value of
        [] \<Rightarrow> False
      | first # chars \<Rightarrow>
          is_ascii_lowercase first \<and> length value \<le> MAX_PORT_NAME_LENGTH \<and>
          list_all (\<lambda>c. is_ascii_lowercase c \<or> is_ascii_digit c \<or> c = CHR ''-'') chars)"

definition MAX_IDENTIFIER_LENGTH :: nat where
  "MAX_IDENTIFIER_LENGTH = 63"

definition is_identifier :: "string \<Rightarrow> bool" where
  "is_identifier value =
     (case value of
        [] \<Rightarrow> False
      | first # chars \<Rightarrow>
          is_ascii_alphanumeric first \<and> length value \<le> MAX_IDENTIFIER_LENGTH \<and>
          list_all (\<lambda>c. is_ascii_alphanumeric c \<or> c = CHR ''_'' \<or> c = CHR ''-'') chars)"

definition identifier_parse :: "string \<Rightarrow> string \<Rightarrow> invalid_value + string" where
  "identifier_parse name = validated_parse name ''an identifier'' is_identifier"

definition SHA256_HEX_LENGTH :: nat where
  "SHA256_HEX_LENGTH = 64"

definition is_sha256_hex :: "string \<Rightarrow> bool" where
  "is_sha256_hex value \<longleftrightarrow>
     length value = SHA256_HEX_LENGTH \<and>
     list_all (\<lambda>c. is_ascii_digit c \<or> CHR ''a'' \<le> c \<and> c \<le> CHR ''f'') value"

definition MAX_TIMESTAMP_LENGTH :: nat where
  "MAX_TIMESTAMP_LENGTH = 35"

text \<open>\<open>bytes.get(a..b)\<close> holding only digits, and \<open>bytes.get(i) == Some(&c)\<close>.\<close>

definition digits_at :: "string \<Rightarrow> nat \<Rightarrow> nat \<Rightarrow> bool" where
  "digits_at bytes a b \<longleftrightarrow>
     a \<le> b \<and> b \<le> length bytes \<and> list_all is_ascii_digit (take (b - a) (drop a bytes))"

definition byte_at :: "string \<Rightarrow> nat \<Rightarrow> char \<Rightarrow> bool" where
  "byte_at bytes i c \<longleftrightarrow> i < length bytes \<and> bytes ! i = c"

definition is_timestamp :: "string \<Rightarrow> bool" where
  "is_timestamp value =
     (if length value > MAX_TIMESTAMP_LENGTH then False
      else if \<not> (digits_at value 0 4 \<and> byte_at value 4 CHR ''-'' \<and>
                 digits_at value 5 7 \<and> byte_at value 7 CHR ''-'' \<and>
                 digits_at value 8 10 \<and> byte_at value 10 CHR ''T'' \<and>
                 digits_at value 11 13 \<and> byte_at value 13 CHR '':'' \<and>
                 digits_at value 14 16 \<and> byte_at value 16 CHR '':'' \<and>
                 digits_at value 17 19) then False
      else
        let fraction = length (takeWhile is_ascii_digit (drop 20 value));
            dotted = byte_at value 19 CHR ''.'';
            cursor = (if dotted then 20 + fraction else 19)
        in if dotted \<and> (fraction = 0 \<or> fraction > 9) then False
           else if byte_at value cursor CHR ''Z'' then cursor + 1 = length value
           else if byte_at value cursor CHR ''+'' \<or> byte_at value cursor CHR ''-''
             then digits_at value (cursor + 1) (cursor + 3) \<and> byte_at value (cursor + 3) CHR '':'' \<and>
                  digits_at value (cursor + 4) (cursor + 6) \<and> cursor + 6 = length value
           else False)"

definition MAX_DNS_LABEL_LENGTH :: nat where
  "MAX_DNS_LABEL_LENGTH = 63"

definition is_dns_label :: "string \<Rightarrow> bool" where
  "is_dns_label value =
     (if value = [] \<or> length value > MAX_DNS_LABEL_LENGTH then False
      else
        let edge = (\<lambda>b. is_ascii_lowercase b \<or> is_ascii_digit b);
            inner = (\<lambda>b. is_ascii_lowercase b \<or> is_ascii_digit b \<or> b = CHR ''-'')
        in edge (hd value) \<and> edge (last value) \<and> list_all inner value)"

definition MAX_HOSTNAME_LENGTH :: nat where
  "MAX_HOSTNAME_LENGTH = 253"

definition is_hostname :: "string \<Rightarrow> bool" where
  "is_hostname value \<longleftrightarrow>
     length value \<le> MAX_HOSTNAME_LENGTH \<and>
     (let labels = split_on CHR ''.'' value in length labels \<ge> 2 \<and> list_all is_dns_label labels)"

text \<open>
  \<open>str::parse\<close> for an unsigned integer of the standard library: an optional plus sign, then
  at least one digit, then no overflow.
\<close>

definition digit_value :: "char \<Rightarrow> nat" where
  "digit_value c = of_char c - 48"

definition digits_value :: "string \<Rightarrow> nat" where
  "digits_value cs = foldl (\<lambda>acc c. 10 * acc + digit_value c) 0 cs"

definition parse_unsigned :: "nat \<Rightarrow> string \<Rightarrow> nat option" where
  "parse_unsigned maximum s =
     (let digits = (case s of c # cs \<Rightarrow> if c = CHR ''+'' then cs else s | [] \<Rightarrow> s)
      in if digits \<noteq> [] \<and> list_all is_ascii_digit digits \<and> digits_value digits \<le> maximum
         then Some (digits_value digits) else None)"

definition parse_u8 :: "string \<Rightarrow> nat option" where
  "parse_u8 = parse_unsigned 255"

definition MAX_IPV4_LENGTH :: nat where
  "MAX_IPV4_LENGTH = 15"

definition is_ipv4 :: "string \<Rightarrow> bool" where
  "is_ipv4 value \<longleftrightarrow>
     length value \<le> MAX_IPV4_LENGTH \<and>
     length (split_on CHR ''.'' value) = 4 \<and>
     list_all (\<lambda>octet. octet \<noteq> [] \<and> length octet \<le> 3 \<and> parse_u8 octet \<noteq> None)
       (split_on CHR ''.'' value) \<and>
     list_all (\<lambda>octet. octet = ''0'' \<or> \<not> (octet \<noteq> [] \<and> hd octet = CHR ''0''))
       (split_on CHR ''.'' value)"

definition MAX_OBJECT_KEY_LENGTH :: nat where
  "MAX_OBJECT_KEY_LENGTH = 1024"

definition is_object_key :: "string \<Rightarrow> bool" where
  "is_object_key value \<longleftrightarrow> value \<noteq> [] \<and> length value \<le> MAX_OBJECT_KEY_LENGTH"

definition MAX_REVISION_LENGTH :: nat where
  "MAX_REVISION_LENGTH = 128"

definition is_revision :: "string \<Rightarrow> bool" where
  "is_revision value \<longleftrightarrow>
     value \<noteq> [] \<and> length value \<le> MAX_REVISION_LENGTH \<and> list_all is_ascii_graphic value"

section \<open>State messages\<close>

text \<open>
  \<open>char_indices\<close> steps from one leading byte to the next: a byte of the form \<open>10xxxxxx\<close>
  continues the character before it.
\<close>

definition is_utf8_continuation :: "char \<Rightarrow> bool" where
  "is_utf8_continuation c \<longleftrightarrow> 128 \<le> (of_char c :: nat) \<and> (of_char c :: nat) < 192"

fun nth_char_index :: "nat \<Rightarrow> nat \<Rightarrow> string \<Rightarrow> nat option" where
  "nth_char_index n i [] = None"
| "nth_char_index n i (c # cs) =
     (if is_utf8_continuation c then nth_char_index n (Suc i) cs
      else if n = 0 then Some i
      else nth_char_index (n - 1) (Suc i) cs)"

definition truncate_chars :: "string \<Rightarrow> nat \<Rightarrow> string" where
  "truncate_chars value max_chars =
     (case nth_char_index max_chars 0 value of
        Some index \<Rightarrow> take index value
      | None \<Rightarrow> value)"

definition MAX_STATE_MESSAGE_LENGTH :: nat where
  "MAX_STATE_MESSAGE_LENGTH = 512"

definition state_message_new :: "string \<Rightarrow> state_message" where
  "state_message_new message = truncate_chars message MAX_STATE_MESSAGE_LENGTH"

section \<open>Ports and secrets\<close>

definition port_new :: "nat \<Rightarrow> invalid_value + nat" where
  "port_new port = (if port = 0 then Inl (InvalidValue []) else Inr port)"

definition port_try_from :: "string \<Rightarrow> nat \<Rightarrow> invalid_value + nat" where
  "port_try_from name value =
     (if value \<le> u16_max \<and> value > 0 then Inr value
      else Inl (invalid_new name ''a port between 1 and 65535''))"

definition DEFAULT_HTTP_PORT :: http_port where
  "DEFAULT_HTTP_PORT = 3000"

definition MAX_SECRET_LENGTH :: nat where
  "MAX_SECRET_LENGTH = 32768"

definition secret_parse :: "string \<Rightarrow> invalid_value + string" where
  "secret_parse value =
     (if length value > MAX_SECRET_LENGTH
      then Inl (invalid_new ''secret'' ''within the length limit'')
      else Inr value)"

section \<open>What a checked value is\<close>

lemma validated_parse_Inr [simp]:
  "validated_parse what rule check value = Inr v \<longleftrightarrow> check value \<and> v = value"
  by (auto simp: validated_parse_def)

lemma is_dns_label_no_dot: "is_dns_label l \<Longrightarrow> CHR ''.'' \<notin> set l"
  by (auto simp: is_dns_label_def Let_def list_all_iff char_class_defs less_eq_char_def
      split: if_splits)

lemma digits_value_snoc: "digits_value (cs @ [c]) = 10 * digits_value cs + digit_value c"
  by (simp add: digits_value_def)

lemma digit_value_digit_char [simp]: "d < 10 \<Longrightarrow> digit_value (digit_char d) = d"
  by (simp add: digit_value_def digit_char_def)

lemma digits_value_show_nat [simp]: "digits_value (show_nat n) = n"
proof (induction n rule: show_nat.induct)
  case (1 n)
  show ?case
  proof (cases "n < 10")
    case True
    then show ?thesis by (subst show_nat.simps) (simp add: digits_value_def)
  next
    case False
    with "1.IH" have "digits_value (show_nat (n div 10)) = n div 10" by simp
    with False show ?thesis by (subst show_nat.simps) (simp add: digits_value_snoc)
  qed
qed

lemma is_ascii_digit_not_plus: "is_ascii_digit c \<Longrightarrow> c \<noteq> CHR ''+''"
  by (auto simp: is_ascii_digit_def less_eq_char_def)

text \<open>Printing an unsigned integer and parsing it back.\<close>

lemma parse_unsigned_show_nat: "n \<le> maximum \<Longrightarrow> parse_unsigned maximum (show_nat n) = Some n"
proof -
  assume le: "n \<le> maximum"
  obtain c cs where cs: "show_nat n = c # cs"
    by (cases "show_nat n") auto
  have digits: "list_all is_ascii_digit (show_nat n)"
    using show_nat_digits by (simp add: list_all_iff)
  with cs have "c \<noteq> CHR ''+''"
    by (auto dest: is_ascii_digit_not_plus)
  with cs digits le digits_value_show_nat [of n] show ?thesis
    by (simp add: parse_unsigned_def)
qed

lemma show_nat_no_dot: "CHR ''.'' \<notin> set (show_nat n)"
proof
  assume "CHR ''.'' \<in> set (show_nat n)"
  then have "is_ascii_digit CHR ''.''"
    using show_nat_digits by blast
  then show False
    by (simp add: is_ascii_digit_def less_eq_char_def)
qed

lemma show_nat_length3: "n < 256 \<Longrightarrow> length (show_nat n) \<le> 3"
  by (subst show_nat.simps, subst show_nat.simps, subst show_nat.simps) auto

lemma digit_char_0: "digit_char 0 = CHR ''0''"
  by code_simp

lemma show_nat_leading_zero: "hd (show_nat n) = CHR ''0'' \<Longrightarrow> n = 0"
proof (induction n rule: show_nat.induct)
  case (1 n)
  show ?case
  proof (cases "n < 10")
    case True
    with "1.prems" digit_char_inj [of n 0] show ?thesis
      by (simp add: show_nat.simps [of n] digit_char_0)
  next
    case False
    with "1.prems" have "hd (show_nat (n div 10)) = CHR ''0''"
      by (simp add: show_nat.simps [of n])
    with False "1.IH" have "n div 10 = 0" by simp
    with False show ?thesis by simp
  qed
qed

definition dotted_quad :: "nat \<Rightarrow> nat \<Rightarrow> nat \<Rightarrow> nat \<Rightarrow> string" where
  "dotted_quad a b c d = join_with CHR ''.'' [show_nat a, show_nat b, show_nat c, show_nat d]"

lemma split_dotted_quad [simp]:
  "split_on CHR ''.'' (dotted_quad a b c d) = [show_nat a, show_nat b, show_nat c, show_nat d]"
  unfolding dotted_quad_def by (rule split_join) (auto simp: show_nat_no_dot)

lemma is_ipv4_dotted_quad:
  assumes "a < 256" "b < 256" "c < 256" "d < 256"
  shows "is_ipv4 (dotted_quad a b c d)"
proof -
  have octet: "show_nat n \<noteq> [] \<and> length (show_nat n) \<le> 3 \<and> parse_u8 (show_nat n) \<noteq> None \<and>
      (show_nat n = ''0'' \<or> hd (show_nat n) \<noteq> CHR ''0'')" if "n < 256" for n
  proof -
    have "show_nat n = ''0''" if "n = 0"
      using that by (subst show_nat.simps) (simp add: digit_char_0)
    with that show ?thesis
      using show_nat_length3 [of n] show_nat_leading_zero [of n] parse_unsigned_show_nat [of n 255]
      by (auto simp: parse_u8_def)
  qed
  have len: "length (show_nat a) \<le> 3" "length (show_nat b) \<le> 3"
      "length (show_nat c) \<le> 3" "length (show_nat d) \<le> 3"
    using assms show_nat_length3 by auto
  have "length (dotted_quad a b c d) \<le> MAX_IPV4_LENGTH"
    using len by (simp add: dotted_quad_def MAX_IPV4_LENGTH_def)
  with octet [OF assms(1)] octet [OF assms(2)] octet [OF assms(3)] octet [OF assms(4)] show ?thesis
    by (simp add: is_ipv4_def)
qed

section \<open>Truncation counts characters\<close>

definition char_count :: "string \<Rightarrow> nat" where
  "char_count s = length (filter (\<lambda>c. \<not> is_utf8_continuation c) s)"

lemma nth_char_index_Some:
  "nth_char_index n i s = Some j \<Longrightarrow> i \<le> j \<and> j - i < length s \<and> char_count (take (j - i) s) = n"
proof (induction n i s rule: nth_char_index.induct)
  case (1 n i)
  then show ?case by simp
next
  case (2 n i c cs)
  show ?case
  proof (cases "is_utf8_continuation c \<or> n \<noteq> 0")
    case False
    with "2.prems" show ?thesis by (auto simp: char_count_def)
  next
    case True
    with 2 have "Suc i \<le> j \<and> j - Suc i < length cs \<and>
        char_count (take (j - Suc i) cs) = (if is_utf8_continuation c then n else n - 1)"
      by (auto split: if_splits)
    moreover from this have "j - i = Suc (j - Suc i)" by arith
    ultimately show ?thesis
      using True by (auto simp: char_count_def)
  qed
qed

lemma nth_char_index_None: "nth_char_index n i s = None \<longleftrightarrow> char_count s \<le> n"
  by (induction n i s rule: nth_char_index.induct) (auto simp: char_count_def split: if_splits)

lemma truncate_chars_short: "char_count s \<le> n \<Longrightarrow> truncate_chars s n = s"
  using nth_char_index_None [of n 0 s] by (simp add: truncate_chars_def)

lemma truncate_chars_long: "n < char_count s \<Longrightarrow> char_count (truncate_chars s n) = n"
proof -
  assume "n < char_count s"
  with nth_char_index_None [of n 0 s] obtain j where "nth_char_index n 0 s = Some j"
    by (cases "nth_char_index n 0 s") auto
  with nth_char_index_Some [OF this] show ?thesis
    by (simp add: truncate_chars_def)
qed

lemma truncate_chars_prefix: "\<exists>rest. s = truncate_chars s n @ rest"
  by (auto simp: truncate_chars_def split: option.splits) (metis append_take_drop_id)

text \<open>
  A state message is never longer than 512 characters, counted as characters and not as
  bytes; it is a prefix of what was said, and a message that fits is kept whole.
\<close>

lemma state_message_bounded:
  "char_count (state_message_new s) = min (char_count s) MAX_STATE_MESSAGE_LENGTH \<and>
   (\<exists>rest. s = state_message_new s @ rest) \<and>
   state_message_new (state_message_new s) = state_message_new s"
proof (cases "char_count s \<le> MAX_STATE_MESSAGE_LENGTH")
  case True
  then show ?thesis
    by (simp add: state_message_new_def truncate_chars_short)
next
  case False
  then have n: "char_count (state_message_new s) = MAX_STATE_MESSAGE_LENGTH"
    by (simp add: state_message_new_def truncate_chars_long)
  then have "state_message_new (state_message_new s) = state_message_new s"
    by (simp add: state_message_new_def truncate_chars_short)
  with n False truncate_chars_prefix [of s MAX_STATE_MESSAGE_LENGTH] show ?thesis
    by (simp add: state_message_new_def)
qed

text \<open>
  The check on an IPv4 address takes every dotted quad of four octets, as the slot layout
  prints them, but it also takes octets written with a plus sign, because the octet parser of
  the standard library does: \<open>+1.2.3.4\<close> passes although it is no address.
\<close>

lemma ipv4_check_takes_quads_and_plus_signs:
  "(\<forall>a b c d. a < 256 \<and> b < 256 \<and> c < 256 \<and> d < 256 \<longrightarrow> is_ipv4 (dotted_quad a b c d)) \<and>
   is_ipv4 ''+1.2.3.4''"
  using is_ipv4_dotted_quad
  by (auto simp: is_ipv4_def MAX_IPV4_LENGTH_def parse_u8_def parse_unsigned_def
      is_ascii_digit_def less_eq_char_def digits_value_def digit_value_def)

end
