(* ===== verification/Domain.thy ===== *)
theory Domain
  imports Wire Complex_Main
begin

text \<open>
  The data model of the documents: \<open>crates/protocol/src/domain.rs\<close>, \<open>access.rs\<close> and
  \<open>control.rs\<close>. Structs are records whose fields carry a prefix for their struct, enums are
  datatypes, and each \<open>TryFrom\<close> or \<open>parse\<close> that can refuse is a function into a sum.
  A document is read once and refused whole, so what these functions let through is what
  every other component may rely on.
\<close>

section \<open>Environments and runtime values\<close>

definition ENVIRONMENT_RESERVED_NAME :: string where
  "ENVIRONMENT_RESERVED_NAME = ''__proto__''"

definition is_environment_name :: "string \<Rightarrow> bool" where
  "is_environment_name name \<longleftrightarrow>
     name \<noteq> ENVIRONMENT_RESERVED_NAME \<and>
     (case name of
        [] \<Rightarrow> False
      | first # chars \<Rightarrow>
          (is_ascii_alphabetic first \<or> first = CHR ''_'') \<and>
          list_all (\<lambda>c. is_ascii_alphanumeric c \<or> c = CHR ''_'') chars)"

definition RUNTIME_VALUE_PREFIX :: string where
  "RUNTIME_VALUE_PREFIX = ''NIBRUN_''"

definition RUNTIME_VALUE_NAMES :: "string list" where
  "RUNTIME_VALUE_NAMES = [''NIBRUN_HOSTNAME'', ''NIBRUN_HTTP_PORT'']"

definition is_name_character :: "char \<Rightarrow> bool" where
  "is_name_character c \<longleftrightarrow> is_ascii_alphanumeric c \<or> c = CHR ''_''"

text \<open>\<open>value.match_indices("${")\<close>: each opening with its index and what follows it.\<close>

fun openings :: "nat \<Rightarrow> string \<Rightarrow> (nat \<times> string) list" where
  "openings i [] = []"
| "openings i [c] = []"
| "openings i (c # d # cs) =
     (if c = CHR ''$'' \<and> d = CHR ''{'' then (i, cs) # openings (i + 2) cs
      else openings (Suc i) (d # cs))"

definition runtime_reference :: "nat \<times> string \<Rightarrow> ((nat \<times> nat) \<times> string) option" where
  "runtime_reference opening =
     (case opening of (start, rest) \<Rightarrow>
        if take (length RUNTIME_VALUE_PREFIX) rest \<noteq> RUNTIME_VALUE_PREFIX then None
        else
          let end_ix = length (takeWhile is_name_character rest)
          in if end_ix = length rest then None
             else if rest ! end_ix \<noteq> CHR ''}'' then None
             else Some ((start, start + 2 + end_ix + 1), take end_ix rest))"

definition runtime_references :: "string \<Rightarrow> ((nat \<times> nat) \<times> string) list" where
  "runtime_references value = List.map_filter runtime_reference (openings 0 value)"

definition names_offered_runtime_values :: "string \<Rightarrow> bool" where
  "names_offered_runtime_values value =
     list_all (\<lambda>(_, name). name \<in> set RUNTIME_VALUE_NAMES) (runtime_references value)"

type_synonym tenant_value = string

definition tenant_value_parse :: "string \<Rightarrow> invalid_value + tenant_value" where
  "tenant_value_parse value =
     (case secret_parse value of
        Inl e \<Rightarrow> Inl e
      | Inr secret \<Rightarrow>
          if \<not> names_offered_runtime_values secret
          then Inl (InvalidValue ''a tenant value names a runtime value the guest does not offer'')
          else Inr secret)"

type_synonym tenant_environment = "(string, tenant_value) btree"

definition tenant_environment_try_from ::
  "(string, tenant_value) btree \<Rightarrow> invalid_value + tenant_environment" where
  "tenant_environment_try_from value =
     (case find (\<lambda>name. \<not> is_environment_name name) (bt_keys value) of
        Some name \<Rightarrow> Inl (InvalidValue (name @ '' is not an environment variable name''))
      | None \<Rightarrow> Inr value)"

definition MAX_ARGUMENTS :: nat where
  "MAX_ARGUMENTS = 64"

definition MAX_ARGUMENT_LENGTH :: nat where
  "MAX_ARGUMENT_LENGTH = 4096"

definition tenant_arguments_try_from :: "string list \<Rightarrow> invalid_value + string list" where
  "tenant_arguments_try_from value =
     (if length value > MAX_ARGUMENTS then Inl (InvalidValue ''too many arguments'')
      else if \<not> list_all (\<lambda>argument. length argument \<le> MAX_ARGUMENT_LENGTH) value
        then Inl (InvalidValue ''an argument is too long'')
      else Inr value)"

section \<open>Guest paths\<close>

definition MAX_GUEST_PATH_LENGTH :: nat where
  "MAX_GUEST_PATH_LENGTH = 4096"

definition is_guest_path_char :: "char \<Rightarrow> bool" where
  "is_guest_path_char c \<longleftrightarrow>
     c \<notin> {CHR ''/'', CHR 0x5C, CHR 0x22, CHR 0x27} \<and> (of_char c :: nat) > 31"

definition is_guest_path :: "string \<Rightarrow> bool" where
  "is_guest_path path =
     (if length path > MAX_GUEST_PATH_LENGTH \<or> \<not> (path \<noteq> [] \<and> hd path = CHR ''/'') then False
      else if path = ''/'' then True
      else list_all
             (\<lambda>segment. segment \<noteq> [] \<and> segment \<noteq> ''.'' \<and> segment \<noteq> ''..'' \<and>
                list_all is_guest_path_char segment)
             (split_on CHR ''/'' (tl path)))"

definition INIT_PATH :: string where
  "INIT_PATH = ''/sbin/init''"

definition is_executable_path :: "string \<Rightarrow> bool" where
  "is_executable_path path \<longleftrightarrow> is_guest_path path \<and> path \<noteq> ''/'' \<and> path \<noteq> INIT_PATH"

section \<open>An app's configuration\<close>

datatype app_hostname_kind = PlatformHostname | CustomHostname

record app_hostname =
  ah_hostname :: hostname
  ah_kind :: app_hostname_kind

record instance_port =
  ip_name :: port_name
  ip_guest_port :: guest_port

record command =
  cmd_program :: string
  cmd_args :: "string list"
  cmd_working_directory :: string
  cmd_environment :: tenant_environment

record instance_resources =
  res_vcpu_count :: nat
  res_memory_mib :: nat

definition DEFAULT_INSTANCE_RESOURCES :: instance_resources where
  "DEFAULT_INSTANCE_RESOURCES = \<lparr>res_vcpu_count = 1, res_memory_mib = 256\<rparr>"

record probe =
  pr_interval_ms :: nat
  pr_timeout_ms :: nat
  pr_grace_period_ms :: nat
  pr_healthy_threshold :: nat
  pr_unhealthy_threshold :: nat

datatype health_check = Http string probe | Tcp probe | BootCompleted

definition OF_THE_MICROVM :: probe where
  "OF_THE_MICROVM = \<lparr>pr_interval_ms = 5000, pr_timeout_ms = 2000, pr_grace_period_ms = 30000,
     pr_healthy_threshold = 1, pr_unhealthy_threshold = 1\<rparr>"

fun probes_a_port :: "health_check \<Rightarrow> bool" where
  "probes_a_port BootCompleted = False"
| "probes_a_port _ = True"

fun probe_of :: "health_check \<Rightarrow> probe" where
  "probe_of (Http path p) = p"
| "probe_of (Tcp p) = p"
| "probe_of BootCompleted = OF_THE_MICROVM"

fun health_check_kind :: "health_check \<Rightarrow> string" where
  "health_check_kind (Http path p) = ''http''"
| "health_check_kind (Tcp p) = ''tcp''"
| "health_check_kind BootCompleted = ''boot-completed''"

record restart_policy =
  rp_max_restarts :: nat
  rp_initial_backoff_ms :: nat
  rp_max_backoff_ms :: nat
  rp_backoff_factor :: real
  rp_reset_after_ms :: nat

definition DEFAULT_RESTART_POLICY :: restart_policy where
  "DEFAULT_RESTART_POLICY = \<lparr>rp_max_restarts = 5, rp_initial_backoff_ms = 500,
     rp_max_backoff_ms = 30000, rp_backoff_factor = 2, rp_reset_after_ms = 60000\<rparr>"

record app_config =
  ac_http_port :: http_port
  ac_ports :: "instance_port list"
  ac_command :: command
  ac_resources :: instance_resources
  ac_health_check :: health_check
  ac_restart_policy :: restart_policy

definition HTTP_PORT_NAME :: string where
  "HTTP_PORT_NAME = ''http''"

definition all_ports :: "app_config \<Rightarrow> instance_port list" where
  "all_ports config =
     \<lparr>ip_name = HTTP_PORT_NAME, ip_guest_port = ac_http_port config\<rparr> # ac_ports config"

datatype ports_invalid = DuplicateName string | DuplicateGuestPort nat

fun ports_invalid_message :: "ports_invalid \<Rightarrow> string" where
  "ports_invalid_message (DuplicateName name) =
     name @ '' is named twice, and each port is reached by its own name''"
| "ports_invalid_message (DuplicateGuestPort port) =
     ''guest port '' @ show_nat port @ '' is claimed twice, and one port cannot answer two ways''"

fun validate_port_list ::
  "string set \<Rightarrow> nat set \<Rightarrow> instance_port list \<Rightarrow> ports_invalid + unit" where
  "validate_port_list names guest_ports [] = Inr ()"
| "validate_port_list names guest_ports (port # ports) =
     (if ip_name port \<in> names then Inl (DuplicateName (ip_name port))
      else if ip_guest_port port \<in> guest_ports then Inl (DuplicateGuestPort (ip_guest_port port))
      else validate_port_list (insert (ip_name port) names)
             (insert (ip_guest_port port) guest_ports) ports)"

definition validate_ports :: "app_config \<Rightarrow> ports_invalid + unit" where
  "validate_ports config = validate_port_list {} {} (all_ports config)"

section \<open>When an instance sleeps\<close>

definition MIN_IDLE_TIMEOUT_MS :: nat where
  "MIN_IDLE_TIMEOUT_MS = 60000"

definition MAX_IDLE_TIMEOUT_MS :: nat where
  "MAX_IDLE_TIMEOUT_MS = 86400000"

definition idle_timeout_try_from :: "nat \<Rightarrow> invalid_value + nat" where
  "idle_timeout_try_from value =
     (if MIN_IDLE_TIMEOUT_MS \<le> value \<and> value \<le> MAX_IDLE_TIMEOUT_MS then Inr value
      else Inl (InvalidValue ''idleTimeoutMs is out of range''))"

definition MIN_MAX_LIFETIME_MS :: nat where
  "MIN_MAX_LIFETIME_MS = 60000"

definition MAX_MAX_LIFETIME_MS :: nat where
  "MAX_MAX_LIFETIME_MS = 604800000"

definition max_lifetime_try_from :: "nat \<Rightarrow> invalid_value + nat" where
  "max_lifetime_try_from value =
     (if MIN_MAX_LIFETIME_MS \<le> value \<and> value \<le> MAX_MAX_LIFETIME_MS then Inr value
      else Inl (InvalidValue ''ttlMs is out of range''))"

datatype sleep_policy = Never | TrafficIdle nat | MaxLifetime nat

record activation_policy =
  ap_sleep_when :: sleep_policy

definition DEFAULT_IDLE_TIMEOUT_MS :: nat where
  "DEFAULT_IDLE_TIMEOUT_MS = 300000"

section \<open>Access\<close>

datatype jwt_token_format = JwtRaw | JwtBearer
datatype jwt_algorithm = RS256 | ES256 | EdDSA
datatype jwt_public_keys = Pem "string list" | Jwks string

record jwt_token_source =
  jts_header :: string
  jts_format :: jwt_token_format

record jwt_access_policy =
  jwt_token :: jwt_token_source
  jwt_issuer :: string
  jwt_audiences :: "string list"
  jwt_algorithm :: jwt_algorithm
  jwt_public_keys :: jwt_public_keys

datatype access_policy = PublicAccess | JwtAccess jwt_access_policy

section \<open>Layers\<close>

record stored_object =
  so_digest :: sha256_digest
  so_object_key :: object_key

datatype oci_source = Archive stored_object | Registry string sha256_digest

datatype desired_layer =
    Oci oci_source
  | Filesystem stored_object
  | Executable stored_object string

fun layer_digest :: "desired_layer \<Rightarrow> sha256_digest" where
  "layer_digest (Oci (Registry repository digest)) = digest"
| "layer_digest (Oci (Archive object)) = so_digest object"
| "layer_digest (Filesystem object) = so_digest object"
| "layer_digest (Executable object path) = so_digest object"

fun layer_stored_object :: "desired_layer \<Rightarrow> stored_object option" where
  "layer_stored_object (Oci (Registry repository digest)) = None"
| "layer_stored_object (Oci (Archive object)) = Some object"
| "layer_stored_object (Filesystem object) = Some object"
| "layer_stored_object (Executable object path) = Some object"

text \<open>The fields of an OCI source as they are read; exactly one of the last two names it.\<close>

definition oci_source_deserialize ::
  "sha256_digest \<Rightarrow> object_key option \<Rightarrow> string option \<Rightarrow> string + oci_source" where
  "oci_source_deserialize digest object_key repository =
     (case (object_key, repository) of
        (Some key, None) \<Rightarrow> Inr (Archive \<lparr>so_digest = digest, so_object_key = key\<rparr>)
      | (None, Some repo) \<Rightarrow> Inr (Registry repo digest)
      | _ \<Rightarrow> Inl ''an OCI layer names exactly one of objectKey or repository'')"

definition MAX_OCI_REPOSITORY_LENGTH :: nat where
  "MAX_OCI_REPOSITORY_LENGTH = 255"

definition oci_alphanumeric :: "char \<Rightarrow> bool" where
  "oci_alphanumeric b \<longleftrightarrow> is_ascii_lowercase b \<or> is_ascii_digit b"

definition oci_registry_host :: "string \<Rightarrow> string option" where
  "oci_registry_host registry =
     (case split_once CHR '':'' registry of
        Some (host, port) \<Rightarrow>
          if port \<noteq> [] \<and> length port \<le> 5 \<and> list_all is_ascii_digit port then Some host else None
      | None \<Rightarrow> Some registry)"

definition is_oci_repository :: "string \<Rightarrow> bool" where
  "is_oci_repository value =
     (case split_once CHR ''/'' value of
        None \<Rightarrow> False
      | Some (registry, repository) \<Rightarrow>
          (case oci_registry_host registry of
             None \<Rightarrow> False
           | Some host \<Rightarrow>
               length value \<le> MAX_OCI_REPOSITORY_LENGTH \<and>
               (host = ''localhost'' \<or> CHR ''.'' \<in> set host) \<and>
               list_all (\<lambda>part. part \<noteq> [] \<and> list_all oci_alphanumeric part)
                 (concat (map (split_on CHR ''-'') (split_on CHR ''.'' host))) \<and>
               list_all (\<lambda>part. part \<noteq> [] \<and> oci_alphanumeric (hd part) \<and>
                   oci_alphanumeric (last part) \<and>
                   list_all (\<lambda>b. oci_alphanumeric b \<or> b \<in> {CHR ''.'', CHR ''_'', CHR ''-''}) part)
                 (split_on CHR ''/'' repository)))"

section \<open>The desired document\<close>

datatype desired_instance_state = DesiredRunning | DesiredOnRequest | DesiredStopped

fun desired_state_str :: "desired_instance_state \<Rightarrow> string" where
  "desired_state_str DesiredRunning = ''running''"
| "desired_state_str DesiredOnRequest = ''on-request''"
| "desired_state_str DesiredStopped = ''stopped''"

datatype desired_presence = Present | Absent

definition MAX_LAYERS :: nat where
  "MAX_LAYERS = 8"

record desired_instance =
  di_app_id :: app_id
  di_deployment_id :: deployment_id
  di_volume_id :: volume_id
  di_desired_state :: desired_instance_state
  di_idle_timeout_ms :: "nat option"
  di_activation :: "activation_policy option"
  di_layers :: "desired_layer list"
  di_config :: app_config
  di_hostnames :: "app_hostname list"
  di_access :: access_policy

definition activation_of :: "desired_instance \<Rightarrow> activation_policy" where
  "activation_of d =
     (case di_activation d of
        Some policy \<Rightarrow> policy
      | None \<Rightarrow>
          \<lparr>ap_sleep_when =
             (case di_desired_state d of
                DesiredOnRequest \<Rightarrow>
                  TrafficIdle (case di_idle_timeout_ms d of
                    Some t \<Rightarrow> t | None \<Rightarrow> DEFAULT_IDLE_TIMEOUT_MS)
              | DesiredRunning \<Rightarrow> Never
              | DesiredStopped \<Rightarrow> Never)\<rparr>)"

text \<open>
  \<open>TryFrom<DesiredInstanceFields>\<close>: the fields as they were read have the same names and
  types as the instance they become.
\<close>

definition desired_instance_try_from :: "desired_instance \<Rightarrow> invalid_value + desired_instance" where
  "desired_instance_try_from given =
     (if di_activation given \<noteq> None \<and> di_idle_timeout_ms given \<noteq> None
        then Inl (InvalidValue ''activation and idleTimeoutMs both say when an instance sleeps; name one'')
      else if (case di_activation given of
                 Some policy \<Rightarrow>
                   di_desired_state given \<noteq> DesiredOnRequest \<and> ap_sleep_when policy \<noteq> Never
               | None \<Rightarrow> False)
        then Inl (InvalidValue ''only an on-request instance may name a sleepWhen other than never, because nothing would wake it again'')
      else if di_layers given = []
        then Inl (InvalidValue ''an instance names at least one layer, because a microVM boots from something'')
      else if length (di_layers given) > MAX_LAYERS
        then Inl (InvalidValue (''an instance names at most '' @ show_nat MAX_LAYERS @
               '' layers, because a microVM has that many drives to give them''))
      else Inr given)"

record initial_contents =
  ic_object :: stored_object
  ic_destination_path :: string

record desired_volume =
  dv_volume_id :: volume_id
  dv_app_id :: app_id
  dv_size_bytes :: nat
  dv_desired_state :: desired_presence
  dv_initial_contents :: "initial_contents option"

record desired_checkpoint =
  dc_checkpoint_id :: checkpoint_id
  dc_volume_id :: volume_id
  dc_desired_state :: desired_presence

record desired_export =
  de_export_id :: export_id
  de_app_id :: app_id
  de_volume_id :: volume_id
  de_object_key :: object_key
  de_environment :: "tenant_environment option"
  de_desired_state :: desired_presence

record host_desired_state =
  hd_host_id :: host_id
  hd_revision :: revision
  hd_volumes :: "desired_volume list"
  hd_instances :: "desired_instance list"
  hd_checkpoints :: "desired_checkpoint list"
  hd_exports :: "desired_export list"

section \<open>What a host reports\<close>

datatype instance_state =
    IsPending | IsStarting | IsRunning | IsUnhealthy | IsStopping | IsStopped | IsIdle | IsFailed

definition INSTANCE_STATES :: "instance_state list" where
  "INSTANCE_STATES =
     [IsPending, IsStarting, IsRunning, IsUnhealthy, IsStopping, IsStopped, IsIdle, IsFailed]"

fun instance_state_str :: "instance_state \<Rightarrow> string" where
  "instance_state_str IsPending = ''pending''"
| "instance_state_str IsStarting = ''starting''"
| "instance_state_str IsRunning = ''running''"
| "instance_state_str IsUnhealthy = ''unhealthy''"
| "instance_state_str IsStopping = ''stopping''"
| "instance_state_str IsStopped = ''stopped''"
| "instance_state_str IsIdle = ''idle''"
| "instance_state_str IsFailed = ''failed''"

datatype volume_state = VolPending | VolReady | VolDetached | VolDeleted | VolFailed
datatype checkpoint_state = CkPending | CkReady | CkDeleted | CkFailed
datatype export_state = ExPending | ExPreparing | ExReady | ExFailed | ExExpired

record host_capacity =
  hc_vcpu_count :: nat
  hc_memory_mib :: nat
  hc_cache_bytes :: nat

record compute_usage =
  cu_memory_total_bytes :: nat
  cu_memory_used_bytes :: nat
  cu_cpu_share :: "real option"
  cu_measured_at :: timestamp

record usage_meters =
  um_running_ms :: nat
  um_idle_ms :: nat
  um_cpu_ms :: nat
  um_rx_bytes :: nat
  um_tx_bytes :: nat
  um_disk_provisioned_mib_seconds :: nat
  um_disk_used_mib_seconds :: nat

record filesystem_usage =
  fu_total_bytes :: nat
  fu_used_bytes :: nat
  fu_measured_at :: timestamp

datatype tenant_log_stream = Stdout | Stderr

datatype tenant_exit = ExitCode int | ExitSignal int

fun tenant_exit_status :: "tenant_exit \<Rightarrow> int" where
  "tenant_exit_status (ExitCode code) = code"
| "tenant_exit_status (ExitSignal signal) = 128 + signal"

record tenant_restart =
  tr_attempt :: nat
  tr_budget :: nat
  tr_exit :: tenant_exit
  tr_reason :: state_message
  tr_backoff_ms :: nat

record reported_restart =
  rr_at :: timestamp
  rr_restart :: tenant_restart

record reported_volume =
  rv_volume_id :: volume_id
  rv_app_id :: app_id
  rv_state :: volume_state
  rv_size_bytes :: nat
  rv_usage :: "filesystem_usage option"
  rv_storage_prefix :: "object_key option"
  rv_device_path :: "string option"
  rv_message :: "state_message option"

record reported_checkpoint =
  rc_checkpoint_id :: checkpoint_id
  rc_volume_id :: volume_id
  rc_state :: checkpoint_state
  rc_reference :: "state_message option"
  rc_ready_at :: "timestamp option"
  rc_message :: "state_message option"

record reported_export =
  re_export_id :: export_id
  re_checkpoint_id :: "checkpoint_id option"
  re_state :: export_state
  re_size_bytes :: "nat option"
  re_ready_at :: "timestamp option"
  re_message :: "state_message option"

section \<open>What a document that was taken up is\<close>

subsection \<open>Ports\<close>

lemma validate_port_list_ok:
  "validate_port_list names guest_ports ports = Inr () \<longleftrightarrow>
     distinct (map ip_name ports) \<and> distinct (map ip_guest_port ports) \<and>
     set (map ip_name ports) \<inter> names = {} \<and> set (map ip_guest_port ports) \<inter> guest_ports = {}"
  by (induction names guest_ports ports rule: validate_port_list.induct) auto

lemma validate_port_list_error:
  "validate_port_list names guest_ports ports = Inl e \<Longrightarrow>
     (case e of
        DuplicateName n \<Rightarrow> n \<in> names \<and> n \<in> ip_name ` set ports \<or> \<not> distinct (map ip_name ports)
      | DuplicateGuestPort g \<Rightarrow>
          g \<in> guest_ports \<and> g \<in> ip_guest_port ` set ports \<or> \<not> distinct (map ip_guest_port ports))"
proof (induction names guest_ports ports rule: validate_port_list.induct)
  case (1 names guest_ports)
  then show ?case by simp
next
  case (2 names guest_ports port ports)
  show ?case
  proof (cases "ip_name port \<in> names \<or> ip_guest_port port \<in> guest_ports")
    case True
    with "2.prems" show ?thesis by (auto split: if_splits)
  next
    case False
    with 2 show ?thesis by (cases e) (simp_all, blast+)
  qed
qed

text \<open>
  The ports of an app pass exactly when no two of them, the HTTP one included, share a
  name or a guest port, and a refusal names the kind of clash there is.
\<close>

lemma validate_ports_decides_clashes:
  "(validate_ports config = Inr () \<longleftrightarrow>
      distinct (map ip_name (all_ports config)) \<and> distinct (map ip_guest_port (all_ports config))) \<and>
   (\<forall>n. validate_ports config = Inl (DuplicateName n) \<longrightarrow> \<not> distinct (map ip_name (all_ports config))) \<and>
   (\<forall>g. validate_ports config = Inl (DuplicateGuestPort g) \<longrightarrow>
      \<not> distinct (map ip_guest_port (all_ports config)))"
  unfolding validate_ports_def
  using validate_port_list_ok [of "{}" "{}" "all_ports config"]
    validate_port_list_error [of "{}" "{}" "all_ports config"]
  by (fastforce split: ports_invalid.splits)

definition sample_config :: app_config where
  "sample_config =
     \<lparr>ac_http_port = 3000, ac_ports = [\<lparr>ip_name = ''ssh'', ip_guest_port = 22\<rparr>],
      ac_command = \<lparr>cmd_program = ''/bin/app'', cmd_args = [], cmd_working_directory = ''/data'',
                     cmd_environment = []\<rparr>,
      ac_resources = DEFAULT_INSTANCE_RESOURCES,
      ac_health_check = Tcp OF_THE_MICROVM,
      ac_restart_policy = DEFAULT_RESTART_POLICY\<rparr>"

subsection \<open>Guest paths stay under the root\<close>

text \<open>
  Resolving a path the way a filesystem walks it: a dot stays, two dots leave the directory,
  an empty component is skipped.
\<close>

fun walk :: "string list \<Rightarrow> string list \<Rightarrow> string list option" where
  "walk here [] = Some here"
| "walk here (s # ss) =
     (if s = [] \<or> s = ''.'' then walk here ss
      else if s = ''..'' then (case here of [] \<Rightarrow> None | _ # up \<Rightarrow> walk up ss)
      else walk (s # here) ss)"

definition resolves_to :: "string \<Rightarrow> string list option" where
  "resolves_to path = map_option rev (walk [] (split_on CHR ''/'' path))"

lemma walk_plain:
  "\<forall>s \<in> set ss. s \<noteq> [] \<and> s \<noteq> ''.'' \<and> s \<noteq> ''..'' \<Longrightarrow> walk here ss = Some (rev ss @ here)"
  by (induction ss arbitrary: here) auto

lemma is_guest_path_segments:
  assumes "is_guest_path path" and "path \<noteq> ''/''"
  shows "path = CHR ''/'' # tl path \<and>
         (\<forall>s \<in> set (split_on CHR ''/'' (tl path)). s \<noteq> [] \<and> s \<noteq> ''.'' \<and> s \<noteq> ''..'')"
  using assms by (cases path) (auto simp: is_guest_path_def list_all_iff split: if_splits)

text \<open>
  A guest path that passes its check names exactly the entry its components spell: no
  component is empty, a dot or two dots, so resolving it never steps above the root and joining
  the components gives the path back.
\<close>

lemma guest_path_never_escapes:
  assumes "is_guest_path path" and "path \<noteq> ''/''"
  shows "resolves_to path = Some (split_on CHR ''/'' (tl path)) \<and>
         path = CHR ''/'' # join_with CHR ''/'' (split_on CHR ''/'' (tl path)) \<and>
         length path \<le> MAX_GUEST_PATH_LENGTH"
proof -
  have path: "path = CHR ''/'' # tl path"
    and plain: "\<forall>s \<in> set (split_on CHR ''/'' (tl path)). s \<noteq> [] \<and> s \<noteq> ''.'' \<and> s \<noteq> ''..''"
    using is_guest_path_segments [OF assms] by auto
  have "split_on CHR ''/'' path = [] # split_on CHR ''/'' (tl path)"
    by (subst path) simp
  with walk_plain [OF plain] have "resolves_to path = Some (split_on CHR ''/'' (tl path))"
    by (simp add: resolves_to_def)
  moreover have "length path \<le> MAX_GUEST_PATH_LENGTH"
    using assms(1) by (simp add: is_guest_path_def split: if_splits)
  ultimately show ?thesis
    using path by simp
qed

subsection \<open>Runtime references\<close>

lemma openings_complete:
  "v = a @ CHR ''$'' # CHR ''{'' # rest \<Longrightarrow> (i + length a, rest) \<in> set (openings i v)"
proof (induction i v arbitrary: a rule: openings.induct)
  case (1 i)
  then show ?case by simp
next
  case (2 i c)
  then show ?case by (cases a) auto
next
  case (3 i c d cs)
  show ?case
  proof (cases "c = CHR ''$'' \<and> d = CHR ''{''")
    case True
    show ?thesis
    proof (cases a)
      case Nil
      with "3.prems" True show ?thesis by simp
    next
      case (Cons a1 a')
      with "3.prems" True obtain a'' where a'': "a' = CHR ''{'' # a''"
        by (cases a') auto
      with "3.prems" Cons True have "cs = a'' @ CHR ''$'' # CHR ''{'' # rest" by simp
      with "3.IH"(1) [OF True this] Cons a'' True show ?thesis by simp
    qed
  next
    case False
    with "3.prems" obtain a1 a' where a: "a = a1 # a'"
      by (cases a) auto
    with "3.prems" have "d # cs = a' @ CHR ''$'' # CHR ''{'' # rest" by simp
    from "3.IH"(2) [OF False this] have "(Suc i + length a', rest) \<in> set (openings (Suc i) (d # cs))" .
    moreover have "openings i (c # d # cs) = openings (Suc i) (d # cs)"
      using False by auto
    ultimately show ?thesis
      using a by simp
  qed
qed

lemma tenant_value_parse_Inr:
  "tenant_value_parse v = Inr w \<longleftrightarrow>
     w = v \<and> length v \<le> MAX_SECRET_LENGTH \<and> names_offered_runtime_values v"
  by (auto simp: tenant_value_parse_def secret_parse_def split: if_splits)

text \<open>
  A tenant value that was taken up names no runtime value the guest does not fill in: of
  every complete reference in it with the reserved prefix, wherever it stands, the name is one
  of the offered ones.
\<close>

lemma tenant_value_references_offered:
  assumes "tenant_value_parse v = Inr w"
    and "v = before @ ''${'' @ name @ CHR ''}'' # after"
    and "take (length RUNTIME_VALUE_PREFIX) name = RUNTIME_VALUE_PREFIX"
    and "list_all is_name_character name"
  shows "name \<in> set RUNTIME_VALUE_NAMES"
proof -
  let ?rest = "name @ CHR ''}'' # after"
  have opened: "(length before, ?rest) \<in> set (openings 0 v)"
    using openings_complete [of v before ?rest 0] assms(2) by simp
  have len: "length RUNTIME_VALUE_PREFIX \<le> length name"
    using assms(3) by (metis length_take min.cobounded2 min.commute)
  have "takeWhile is_name_character ?rest = name"
    using assms(4)
    by (simp add: takeWhile_append2 list_all_iff is_name_character_def char_class_defs less_eq_char_def)
  with assms(3) len have "runtime_reference (length before, ?rest) =
      Some ((length before, length before + 2 + length name + 1), name)"
    by (simp add: runtime_reference_def Let_def)
  with opened have "((length before, length before + 2 + length name + 1), name)
      \<in> set (runtime_references v)"
    by (force simp: runtime_references_def map_filter_def)
  with assms(1) show ?thesis
    by (fastforce simp: tenant_value_parse_Inr names_offered_runtime_values_def list_all_iff)
qed

subsection \<open>Sleeping policies\<close>

text \<open>
  Of every instance the host takes up, only an on-request one runs under a policy that
  can put it to sleep, so nothing is put down that no request would wake; and it names between
  one and eight layers.
\<close>

lemma only_on_request_instances_sleep:
  assumes "desired_instance_try_from given = Inr d"
  shows "d = given \<and>
         (ap_sleep_when (activation_of d) \<noteq> Never \<longrightarrow> di_desired_state d = DesiredOnRequest) \<and>
         1 \<le> length (di_layers d) \<and> length (di_layers d) \<le> MAX_LAYERS"
  using assms
  by (auto simp: desired_instance_try_from_def activation_of_def Suc_le_eq
      split: if_splits option.splits desired_instance_state.splits)

definition sample_instance :: desired_instance where
  "sample_instance =
     \<lparr>di_app_id = ''app-1'', di_deployment_id = ''dep-1'', di_volume_id = ''vol-1'',
      di_desired_state = DesiredOnRequest, di_idle_timeout_ms = Some 60000, di_activation = None,
      di_layers = [Filesystem \<lparr>so_digest = [], so_object_key = ''k''\<rparr>],
      di_config = sample_config, di_hostnames = [], di_access = PublicAccess\<rparr>"

end
