(* ===== verification/Backoff.thy ===== *)
theory Backoff
  imports Domain
begin

text \<open>
  Restart backoff (\<open>crates/nibrunnerd/src/domain/backoff.rs\<close>): the delay before an attempt,
  the window the attempts are counted in, and when the next attempt may be made. The delay is
  computed in \<open>f64\<close>; the operations of the floating point unit are a parameter, and what is
  assumed of them is only that they are exact on integers they can represent.
\<close>

section \<open>The floating point unit\<close>

record f64_unit =
  f64_of_u64 :: "nat \<Rightarrow> real"
  f64_mul :: "real \<Rightarrow> real \<Rightarrow> real"
  f64_powi :: "real \<Rightarrow> int \<Rightarrow> real"

text \<open>\<open>f64::round\<close> rounds halves away from zero, and \<open>as u64\<close> saturates.\<close>

definition f64_round :: "real \<Rightarrow> int" where
  "f64_round x = (if 0 \<le> x then \<lfloor>x + 1 / 2\<rfloor> else \<lceil>x - 1 / 2\<rceil>)"

definition f64_as_u64 :: "int \<Rightarrow> nat" where
  "f64_as_u64 i = min (nat i) u64_max"

text \<open>\<open>attempt as i32 - 1\<close>, with both the cast and the subtraction wrapping.\<close>

definition wrap_i32 :: "int \<Rightarrow> int" where
  "wrap_i32 i = (i + 2 ^ 31) mod 2 ^ 32 - 2 ^ 31"

definition f64_exact :: "f64_unit \<Rightarrow> bool" where
  "f64_exact fpu \<longleftrightarrow>
     (\<forall>n. n < 2 ^ 53 \<longrightarrow> f64_of_u64 fpu n = real n) \<and>
     (\<forall>a b. a * b < 2 ^ 53 \<longrightarrow> f64_mul fpu (real a) (real b) = real (a * b)) \<and>
     (\<forall>a k. a ^ k < 2 ^ 53 \<longrightarrow> f64_powi fpu (real a) (int k) = real (a ^ k))"

definition real_unit :: f64_unit where
  "real_unit = \<lparr>f64_of_u64 = real, f64_mul = (*),
     f64_powi = (\<lambda>x n. if 0 \<le> n then x ^ nat n else inverse x ^ nat (- n))\<rparr>"

lemma real_unit_exact: "f64_exact real_unit"
  by (simp add: f64_exact_def real_unit_def)

section \<open>Delays and windows\<close>

record backoff_policy =
  bp_initial_backoff_ms :: nat
  bp_max_backoff_ms :: nat
  bp_backoff_factor :: real

definition backoff_policy_from :: "restart_policy \<Rightarrow> backoff_policy" where
  "backoff_policy_from policy =
     \<lparr>bp_initial_backoff_ms = rp_initial_backoff_ms policy,
      bp_max_backoff_ms = rp_max_backoff_ms policy,
      bp_backoff_factor = rp_backoff_factor policy\<rparr>"

definition backoff_delay_ms :: "f64_unit \<Rightarrow> nat \<Rightarrow> backoff_policy \<Rightarrow> nat" where
  "backoff_delay_ms fpu attempt policy =
     (if attempt = 0 then 0
      else
        let grown = f64_mul fpu (f64_of_u64 fpu (bp_initial_backoff_ms policy))
                      (f64_powi fpu (bp_backoff_factor policy) (wrap_i32 (wrap_i32 (int attempt) - 1)))
        in min (f64_as_u64 (f64_round grown)) (bp_max_backoff_ms policy))"

record attempt_window =
  aw_attempts :: nat
  aw_last_attempt_at_ms :: "int option"

definition NO_START_ATTEMPTS :: attempt_window where
  "NO_START_ATTEMPTS = \<lparr>aw_attempts = 0, aw_last_attempt_at_ms = None\<rparr>"

definition next_attempt_window :: "attempt_window \<Rightarrow> int \<Rightarrow> nat \<Rightarrow> attempt_window" where
  "next_attempt_window window now_ms reset_after_ms =
     (let elapsed = (case aw_last_attempt_at_ms window of None \<Rightarrow> 0 | Some at_ms \<Rightarrow> now_ms - at_ms)
      in \<lparr>aw_attempts =
            (if elapsed \<ge> as_i64 reset_after_ms then 1 else wrap_u32 (aw_attempts window + 1)),
          aw_last_attempt_at_ms = Some now_ms\<rparr>)"

definition is_ready_to_retry ::
  "f64_unit \<Rightarrow> attempt_window \<Rightarrow> int \<Rightarrow> backoff_policy \<Rightarrow> bool" where
  "is_ready_to_retry fpu window now_ms policy =
     (case aw_last_attempt_at_ms window of
        None \<Rightarrow> True
      | Some at_ms \<Rightarrow> now_ms - at_ms \<ge> as_i64 (backoff_delay_ms fpu (aw_attempts window) policy))"

section \<open>The delay grows to its ceiling\<close>

lemma f64_round_of_nat [simp]: "f64_round (real n) = int n"
proof -
  have "\<lfloor>real n + 1 / 2\<rfloor> = int n"
    by (rule floor_unique) simp_all
  then show ?thesis
    by (simp add: f64_round_def)
qed

lemma backoff_delay_0 [simp]: "backoff_delay_ms fpu 0 policy = 0"
  by (simp add: backoff_delay_ms_def)

lemma backoff_delay_le_max: "backoff_delay_ms fpu attempt policy \<le> bp_max_backoff_ms policy"
  by (simp add: backoff_delay_ms_def Let_def)

lemma wrap_i32_id [simp]: "- (2 ^ 31) \<le> i \<Longrightarrow> i < 2 ^ 31 \<Longrightarrow> wrap_i32 i = i"
  by (simp add: wrap_i32_def)

lemma backoff_delay_exact:
  assumes "f64_exact fpu" and "bp_backoff_factor policy = real f" and "n < 2 ^ 31 - 1"
    and "bp_initial_backoff_ms policy * f ^ n < 2 ^ 53"
    and "bp_initial_backoff_ms policy < 2 ^ 53" and "f ^ n < 2 ^ 53"
  shows "backoff_delay_ms fpu (Suc n) policy =
           min (bp_initial_backoff_ms policy * f ^ n) (bp_max_backoff_ms policy)"
proof -
  let ?i = "bp_initial_backoff_ms policy"
  have of_u64: "f64_of_u64 fpu ?i = real ?i"
    and powi: "f64_powi fpu (real f) (int n) = real (f ^ n)"
    and mul: "f64_mul fpu (real ?i) (real (f ^ n)) = real (?i * f ^ n)"
    using assms(1,4-6) unfolding f64_exact_def by blast+
  have "wrap_i32 (int (Suc n)) = int (Suc n)"
    using assms(3) by (intro wrap_i32_id) simp_all
  moreover have "wrap_i32 (int n) = int n"
    using assms(3) by (intro wrap_i32_id) simp_all
  ultimately have exponent: "wrap_i32 (wrap_i32 (int (Suc n)) - 1) = int n"
    by simp
  have "f64_as_u64 (int (?i * f ^ n)) = ?i * f ^ n"
    using assms(4) by (simp only: f64_as_u64_def u64_max_def nat_int) simp
  then show ?thesis
    by (simp only: backoff_delay_ms_def exponent assms(2) of_u64 powi mul f64_round_of_nat Let_def) simp
qed

text \<open>
  Under the default policy the delay before attempt \<open>n\<close> is \<open>500 * 2 ^ (n - 1)\<close>
  milliseconds capped at thirty seconds: it never falls from one attempt to the next, and
  whatever the policy and the arithmetic, it is never above the policy's ceiling.
\<close>

lemma default_backoff_doubles_to_its_ceiling:
  assumes "f64_exact fpu" and "1 \<le> n" and "n \<le> 40"
  shows "backoff_delay_ms fpu n (backoff_policy_from DEFAULT_RESTART_POLICY) =
           min (500 * 2 ^ (n - 1)) 30000 \<and>
         backoff_delay_ms fpu (n - 1) (backoff_policy_from DEFAULT_RESTART_POLICY) \<le>
           backoff_delay_ms fpu n (backoff_policy_from DEFAULT_RESTART_POLICY) \<and>
         backoff_delay_ms fpu m policy \<le> bp_max_backoff_ms policy"
proof -
  let ?p = "backoff_policy_from DEFAULT_RESTART_POLICY"
  have exact: "backoff_delay_ms fpu (Suc k) ?p = min (500 * 2 ^ k) 30000" if "k < 40" for k
  proof -
    have "(2::nat) ^ k \<le> 2 ^ 39"
      using that by (intro power_increasing) simp_all
    then show ?thesis
      using assms(1) that
      by (subst backoff_delay_exact [where f = 2])
         (auto simp: backoff_policy_from_def DEFAULT_RESTART_POLICY_def)
  qed
  obtain k where n: "n = Suc k" and k: "k < 40"
    using assms(2,3) by (cases n) auto
  have "backoff_delay_ms fpu k ?p \<le> backoff_delay_ms fpu (Suc k) ?p"
  proof (cases k)
    case 0
    then show ?thesis by simp
  next
    case (Suc j)
    with k exact [of j] exact [of k] show ?thesis by simp
  qed
  with n exact [OF k] show ?thesis
    by (simp add: backoff_delay_le_max)
qed

section \<open>The budget of a window\<close>

text \<open>The window after starts at the given moments, each counted as the code counts it.\<close>

definition window_after :: "nat \<Rightarrow> int list \<Rightarrow> attempt_window" where
  "window_after reset_after starts =
     fold (\<lambda>now w. next_attempt_window w now reset_after) starts NO_START_ATTEMPTS"

fun close_together :: "nat \<Rightarrow> int list \<Rightarrow> bool" where
  "close_together reset_after (t # u # ts) \<longleftrightarrow>
     u - t < as_i64 reset_after \<and> close_together reset_after (u # ts)"
| "close_together reset_after _ \<longleftrightarrow> True"

lemma fold_window_close:
  assumes "close_together reset_after (t # ts)" and "0 < as_i64 reset_after"
    and "a + length ts < 2 ^ 32"
  shows "fold (\<lambda>now w. next_attempt_window w now reset_after) ts
           \<lparr>aw_attempts = a, aw_last_attempt_at_ms = Some t\<rparr> =
         \<lparr>aw_attempts = a + length ts, aw_last_attempt_at_ms = Some (last (t # ts))\<rparr>"
  using assms
proof (induction ts arbitrary: t a)
  case Nil
  then show ?case by simp
next
  case (Cons u ts)
  then have "next_attempt_window \<lparr>aw_attempts = a, aw_last_attempt_at_ms = Some t\<rparr> u reset_after =
      \<lparr>aw_attempts = Suc a, aw_last_attempt_at_ms = Some u\<rparr>"
    by (simp add: next_attempt_window_def)
  with Cons.IH [of u "Suc a"] Cons.prems show ?case by simp
qed

lemma window_after_close:
  assumes "close_together reset_after starts" and "0 < as_i64 reset_after"
    and "length starts < 2 ^ 32" and "starts \<noteq> []"
  shows "window_after reset_after starts =
           \<lparr>aw_attempts = length starts, aw_last_attempt_at_ms = Some (last starts)\<rparr>"
proof (cases starts)
  case Nil
  with assms show ?thesis by simp
next
  case (Cons t ts)
  have "next_attempt_window NO_START_ATTEMPTS t reset_after =
      \<lparr>aw_attempts = 1, aw_last_attempt_at_ms = Some t\<rparr>"
    using assms(2) by (simp add: next_attempt_window_def NO_START_ATTEMPTS_def)
  with Cons assms fold_window_close [of reset_after t ts 1] show ?thesis
    by (simp add: window_after_def)
qed

lemma reset_wraps:
  assumes "2 ^ 63 \<le> reset_after" and "reset_after < 2 ^ 64"
    and "\<forall>at_ms. aw_last_attempt_at_ms w = Some at_ms \<longrightarrow> at_ms \<le> now"
  shows "aw_attempts (next_attempt_window w now reset_after) = 1"
proof -
  have "as_i64 reset_after < 0"
    using assms by (simp add: as_i64_negative)
  with assms(3) show ?thesis
    by (cases "aw_last_attempt_at_ms w") (auto simp: next_attempt_window_def Let_def)
qed

text \<open>
  Starts that follow one another within the reset period are all counted in one window, so
  after \<open>k\<close> of them the window holds \<open>k\<close> attempts and the budget runs out; a start that comes
  no sooner than the reset period after the last is the first of a new window.
\<close>

lemma attempts_accumulate_until_the_window_resets:
  assumes "close_together reset_after starts" and "starts \<noteq> []"
    and "0 < reset_after" and "reset_after < 2 ^ 63" and "length starts < 2 ^ 32"
  shows "aw_attempts (window_after reset_after starts) = length starts \<and>
         (last starts + int reset_after \<le> now \<longrightarrow>
            window_after reset_after (starts @ [now]) =
              \<lparr>aw_attempts = 1, aw_last_attempt_at_ms = Some now\<rparr>)"
  using window_after_close [OF assms(1) _ assms(5,2)] assms(3,4)
  by (simp add: window_after_def next_attempt_window_def)

text \<open>
  A reset period of \<open>2 ^ 63\<close> milliseconds or more, which a document may name, is read as a
  negative one: every start is then the first of its window, and the budget is never spent.
\<close>

lemma huge_reset_period_never_spends_the_budget:
  assumes "2 ^ 63 \<le> reset_after" and "reset_after < 2 ^ 64" and "sorted starts" and "starts \<noteq> []"
  shows "aw_attempts (window_after reset_after starts) = 1"
proof -
  have "aw_last_attempt_at_ms (window_after reset_after ts) = (if ts = [] then None else Some (last ts))"
    for ts
    by (induction ts rule: rev_induct)
       (simp_all add: window_after_def NO_START_ATTEMPTS_def next_attempt_window_def Let_def)
  moreover obtain ts t where ts: "starts = ts @ [t]"
    using assms(4) by (cases starts rule: rev_cases) auto
  moreover have "last ts \<le> t" if "ts \<noteq> []"
    using assms(3) ts that by (simp add: sorted_append)
  ultimately have "aw_attempts (next_attempt_window (window_after reset_after ts) t reset_after) = 1"
    using assms(1,2) by (intro reset_wraps) auto
  with ts show ?thesis
    by (simp add: window_after_def)
qed

end
