(* ===== verification/Health.thy ===== *)
theory Health
  imports Backoff
begin

text \<open>
  Health (\<open>crates/nibrunnerd/src/domain/health\<close> and \<open>adapters/vm/status.rs\<close>): the tracker the
  probes move, the pace they are sent at, the sentences a failure is told in, and the state
  machine \<open>evaluate_instance_state\<close> that turns what the host sees of a microVM into the state it
  reports. Names of signals and of HTTP statuses come from third-party tables and are parameters.
\<close>

section \<open>What the host sees of a microVM\<close>

datatype vm_exit = VmCode int | VmSignal int

record vm_status =
  vs_loaded :: bool
  vs_active :: bool
  vs_failed :: bool
  vs_started_this_boot :: bool
  vs_exit :: "vm_exit option"

definition UNKNOWN_VM :: vm_status where
  "UNKNOWN_VM = \<lparr>vs_loaded = False, vs_active = False, vs_failed = False,
     vs_started_this_boot = False, vs_exit = None\<rparr>"

record name_tables =
  nt_signal_name :: "int \<Rightarrow> string option"
  nt_status_reason :: "nat \<Rightarrow> string option"

fun vm_exit_describe :: "name_tables \<Rightarrow> vm_exit \<Rightarrow> string" where
  "vm_exit_describe names (VmCode code) = ''exited with exit code '' @ show_int code"
| "vm_exit_describe names (VmSignal signal) =
     ''was killed by signal '' @ show_int signal @
     (case nt_signal_name names signal of None \<Rightarrow> [] | Some n \<Rightarrow> '' ('' @ n @ '')'')"

datatype probe_failure =
    Refused
  | Unreachable string
  | Answered nat
  | Dropped string
  | TimedOut nat

fun probe_failure_describe :: "name_tables \<Rightarrow> probe_failure \<Rightarrow> string" where
  "probe_failure_describe names Refused = ''tcp connect refused''"
| "probe_failure_describe names (Unreachable error) = ''could not connect: '' @ error"
| "probe_failure_describe names (Answered status) =
     ''answered '' @ show_nat status @
     (case nt_status_reason names status of None \<Rightarrow> [] | Some r \<Rightarrow> '' '' @ r)"
| "probe_failure_describe names (Dropped error) = ''connected but got no answer: '' @ error"
| "probe_failure_describe names (TimedOut after_ms) =
     ''timed out after '' @ show_nat after_ms @ '' ms''"

section \<open>The tracker\<close>

definition STARTUP_PROBE_INTERVAL_MS :: nat where
  "STARTUP_PROBE_INTERVAL_MS = 250"

record health_tracker =
  ht_consecutive_successes :: nat
  ht_consecutive_failures :: nat
  ht_ever_healthy :: bool
  ht_last_healthy_at :: "timestamp option"
  ht_last_failure :: "probe_failure option"

definition initial_tracker :: health_tracker where
  "initial_tracker = \<lparr>ht_consecutive_successes = 0, ht_consecutive_failures = 0,
     ht_ever_healthy = False, ht_last_healthy_at = None, ht_last_failure = None\<rparr>"

definition apply_probe ::
  "health_tracker \<Rightarrow> probe_failure + unit \<Rightarrow> timestamp \<Rightarrow> nat \<Rightarrow> health_tracker" where
  "apply_probe tracker outcome moment healthy_threshold =
     (case outcome of
        Inl failure \<Rightarrow>
          tracker\<lparr>ht_consecutive_successes := 0,
                  ht_consecutive_failures := wrap_u32 (ht_consecutive_failures tracker + 1),
                  ht_last_failure := Some failure\<rparr>
      | Inr _ \<Rightarrow>
          let consecutive_successes = wrap_u32 (ht_consecutive_successes tracker + 1)
          in \<lparr>ht_consecutive_successes = consecutive_successes,
              ht_consecutive_failures = 0,
              ht_ever_healthy = (ht_ever_healthy tracker \<or> consecutive_successes \<ge> healthy_threshold),
              ht_last_healthy_at = Some moment,
              ht_last_failure = None\<rparr>)"

record grace_inputs =
  gi_health_check :: health_check
  gi_started_at_ms :: "int option"
  gi_now_ms :: int

definition is_within_grace_period :: "grace_inputs \<Rightarrow> bool" where
  "is_within_grace_period grace =
     (case gi_started_at_ms grace of
        None \<Rightarrow> True
      | Some started_at_ms \<Rightarrow>
          gi_now_ms grace - started_at_ms
            < as_i64 (pr_grace_period_ms (probe_of (gi_health_check grace))))"

definition is_on_startup_grid :: "health_tracker \<Rightarrow> grace_inputs \<Rightarrow> bool" where
  "is_on_startup_grid tracker grace \<longleftrightarrow> \<not> ht_ever_healthy tracker \<and> is_within_grace_period grace"

definition next_probe_delay_ms :: "health_tracker \<Rightarrow> grace_inputs \<Rightarrow> nat" where
  "next_probe_delay_ms tracker grace =
     (if is_on_startup_grid tracker grace
      then min STARTUP_PROBE_INTERVAL_MS (pr_interval_ms (probe_of (gi_health_check grace)))
      else pr_interval_ms (probe_of (gi_health_check grace)))"

definition asks_the_port :: "health_tracker \<Rightarrow> health_check \<Rightarrow> bool" where
  "asks_the_port tracker check \<longleftrightarrow> probes_a_port check \<or> \<not> ht_ever_healthy tracker"

definition describe_instance_failure ::
  "name_tables \<Rightarrow> vm_status \<Rightarrow> health_tracker \<Rightarrow> health_check \<Rightarrow> http_port \<Rightarrow> string option \<Rightarrow> string" where
  "describe_instance_failure names unit tracker check http_port guest_verdict =
     (if \<not> vs_active unit then
        (case guest_verdict of
           Some verdict \<Rightarrow> ''the microVM stopped: '' @ verdict
         | None \<Rightarrow>
             (case vs_exit unit of
                None \<Rightarrow> ''the microVM exited''
              | Some exit \<Rightarrow> ''the microVM '' @ vm_exit_describe names exit))
      else
        ''nothing answered on port '' @ show_nat http_port @ '' inside the guest: '' @
        show_nat (ht_consecutive_failures tracker) @ '' health probes failed after the '' @
        show_nat (pr_grace_period_ms (probe_of check)) @ ''ms grace period'')"

definition describe_unhealthy_instance ::
  "name_tables \<Rightarrow> health_tracker \<Rightarrow> health_check \<Rightarrow> string" where
  "describe_unhealthy_instance names tracker check =
     (let failed = ht_consecutive_failures tracker;
          probes = (if failed = 1 then ''probe'' else ''probes'');
          of_path = (case check of Http path _ \<Rightarrow> '' of '' @ path | _ \<Rightarrow> []);
          sentence = show_nat failed @ '' '' @ health_check_kind check @ '' '' @ probes @ of_path @
                     '' failed in a row''
      in case ht_last_failure tracker of
           Some failure \<Rightarrow> sentence @ ''; the last '' @ probe_failure_describe names failure
         | None \<Rightarrow> sentence)"

section \<open>The state machine\<close>

record lifecycle_inputs =
  li_unit :: vm_status
  li_tracker :: health_tracker
  li_health_check :: health_check
  li_desired_running :: bool
  li_on_request :: bool
  li_stop_requested :: bool
  li_snapshotting :: bool
  li_started_at_ms :: "int option"
  li_now_ms :: int
  li_current :: instance_state

definition evaluate_stopped_state :: "lifecycle_inputs \<Rightarrow> instance_state" where
  "evaluate_stopped_state inputs =
     (let down = (if li_on_request inputs \<and> li_desired_running inputs then IsIdle else IsStopped)
      in if li_stop_requested inputs \<or> li_snapshotting inputs then down
         else if li_current inputs = IsFailed \<and> li_started_at_ms inputs = None then IsFailed
         else if \<not> li_desired_running inputs then down
         else if li_started_at_ms inputs \<noteq> None then IsFailed
         else if li_on_request inputs \<and> li_current inputs \<noteq> IsPending then down
         else IsPending)"

definition evaluate_instance_state :: "lifecycle_inputs \<Rightarrow> instance_state" where
  "evaluate_instance_state inputs =
     (let within_grace = is_within_grace_period
            \<lparr>gi_health_check = li_health_check inputs,
             gi_started_at_ms = li_started_at_ms inputs,
             gi_now_ms = li_now_ms inputs\<rparr>;
          check = probe_of (li_health_check inputs);
          tracker = li_tracker inputs
      in if \<not> vs_active (li_unit inputs) \<and> li_current inputs = IsPending \<and> li_started_at_ms inputs = None
           then evaluate_stopped_state inputs
         else if vs_failed (li_unit inputs) then IsFailed
         else if \<not> vs_active (li_unit inputs) then evaluate_stopped_state inputs
         else if li_stop_requested inputs then IsStopping
         else if ht_consecutive_successes tracker \<ge> pr_healthy_threshold check then IsRunning
         else if ht_consecutive_failures tracker \<ge> pr_unhealthy_threshold check \<and> \<not> within_grace
           then (if ht_ever_healthy tracker then IsUnhealthy else IsFailed)
         else if ht_ever_healthy tracker then IsRunning
         else IsStarting)"

section \<open>The tracker counts runs of answers\<close>

definition tracker_after ::
  "nat \<Rightarrow> ((probe_failure + unit) \<times> timestamp) list \<Rightarrow> health_tracker" where
  "tracker_after threshold probes =
     fold (\<lambda>(outcome, moment) t. apply_probe t outcome moment threshold) probes initial_tracker"

definition successes_in_a_row :: "((probe_failure + unit) \<times> timestamp) list \<Rightarrow> nat" where
  "successes_in_a_row probes = length (takeWhile (\<lambda>(outcome, _). \<not> isl outcome) (rev probes))"

definition failures_in_a_row :: "((probe_failure + unit) \<times> timestamp) list \<Rightarrow> nat" where
  "failures_in_a_row probes = length (takeWhile (\<lambda>(outcome, _). isl outcome) (rev probes))"

lemma runs_snoc [simp]:
  "successes_in_a_row (ps @ [(Inr u, t)]) = Suc (successes_in_a_row ps)"
  "successes_in_a_row (ps @ [(Inl f, t)]) = 0"
  "failures_in_a_row (ps @ [(Inl f, t)]) = Suc (failures_in_a_row ps)"
  "failures_in_a_row (ps @ [(Inr u, t)]) = 0"
  by (simp_all add: successes_in_a_row_def failures_in_a_row_def)

lemma runs_le_length:
  "successes_in_a_row ps \<le> length ps" "failures_in_a_row ps \<le> length ps"
  by (simp_all add: successes_in_a_row_def failures_in_a_row_def)
     (metis length_rev length_takeWhile_le)+

lemma tracker_after_snoc:
  "tracker_after threshold (ps @ [(outcome, moment)]) =
     apply_probe (tracker_after threshold ps) outcome moment threshold"
  by (simp add: tracker_after_def)

definition was_ever_healthy :: "nat \<Rightarrow> ((probe_failure + unit) \<times> timestamp) list \<Rightarrow> bool" where
  "was_ever_healthy threshold probes \<longleftrightarrow>
     (\<exists>n \<le> length probes. 0 < successes_in_a_row (take n probes) \<and>
        threshold \<le> successes_in_a_row (take n probes))"

lemma was_ever_healthy_snoc:
  "was_ever_healthy threshold (ps @ [p]) \<longleftrightarrow>
     was_ever_healthy threshold ps \<or>
     0 < successes_in_a_row (ps @ [p]) \<and> threshold \<le> successes_in_a_row (ps @ [p])"
proof -
  have "(\<exists>n \<le> length (ps @ [p]). P (take n (ps @ [p]))) \<longleftrightarrow>
      (\<exists>n \<le> length ps. P (take n ps)) \<or> P (ps @ [p])" for P
    by (auto simp: le_Suc_eq)
  then show ?thesis
    by (simp add: was_ever_healthy_def)
qed

text \<open>
  After any sequence of probes the tracker counts exactly the answers of one kind in a row
  at its end, so successes and failures are never both counted; and it has been healthy exactly
  when at some moment a run of successes reached the threshold.
\<close>

lemma tracker_counts_runs:
  assumes "length probes < 2 ^ 32"
  shows "ht_consecutive_successes (tracker_after threshold probes) = successes_in_a_row probes \<and>
         ht_consecutive_failures (tracker_after threshold probes) = failures_in_a_row probes \<and>
         (ht_ever_healthy (tracker_after threshold probes) \<longleftrightarrow> was_ever_healthy threshold probes)"
  using assms
proof (induction probes rule: rev_induct)
  case Nil
  then show ?case
    by (simp add: tracker_after_def initial_tracker_def successes_in_a_row_def
        failures_in_a_row_def was_ever_healthy_def)
next
  case (snoc p ps)
  obtain outcome moment where p: "p = (outcome, moment)" by (cases p)
  have "successes_in_a_row ps < 2 ^ 32 - 1" "failures_in_a_row ps < 2 ^ 32 - 1"
    using runs_le_length [of ps] snoc.prems by simp_all
  with snoc p show ?case
    by (cases outcome)
       (auto simp: tracker_after_snoc apply_probe_def was_ever_healthy_snoc Let_def)
qed

section \<open>What each state means\<close>

definition grace_of :: "lifecycle_inputs \<Rightarrow> grace_inputs" where
  "grace_of inputs = \<lparr>gi_health_check = li_health_check inputs,
     gi_started_at_ms = li_started_at_ms inputs, gi_now_ms = li_now_ms inputs\<rparr>"

lemma evaluate_stopped_cases:
  "evaluate_stopped_state inputs \<in> {IsIdle, IsStopped, IsFailed, IsPending}"
  by (simp add: evaluate_stopped_state_def Let_def)

lemma evaluate_down:
  "\<not> vs_active (li_unit inputs) \<Longrightarrow>
     evaluate_instance_state inputs \<in> {IsIdle, IsStopped, IsFailed, IsPending}"
  using evaluate_stopped_cases [of inputs]
  by (auto simp: evaluate_instance_state_def Let_def)

lemma evaluate_up:
  "vs_active (li_unit inputs) \<Longrightarrow>
     evaluate_instance_state inputs \<in> {IsFailed, IsStopping, IsRunning, IsUnhealthy, IsStarting}"
  by (simp add: evaluate_instance_state_def Let_def)

text \<open>
  The reported state never claims more than the host sees: an instance reads running only
  while its microVM is up, has not failed, is not being stopped and has answered its check as
  often as asked at least once in a row or before; it reads idle or stopped only while the
  microVM is down; it reads unhealthy only after having been healthy, with its failures in a
  row at the threshold and its grace period over.
\<close>

lemma reported_state_is_justified:
  "(evaluate_instance_state inputs = IsRunning \<longrightarrow>
      vs_active (li_unit inputs) \<and> \<not> vs_failed (li_unit inputs) \<and> \<not> li_stop_requested inputs \<and>
      (pr_healthy_threshold (probe_of (li_health_check inputs))
         \<le> ht_consecutive_successes (li_tracker inputs) \<or> ht_ever_healthy (li_tracker inputs))) \<and>
   (evaluate_instance_state inputs \<in> {IsIdle, IsStopped, IsPending} \<longrightarrow>
      \<not> vs_active (li_unit inputs)) \<and>
   (evaluate_instance_state inputs = IsUnhealthy \<longrightarrow>
      vs_active (li_unit inputs) \<and> ht_ever_healthy (li_tracker inputs) \<and>
      pr_unhealthy_threshold (probe_of (li_health_check inputs))
        \<le> ht_consecutive_failures (li_tracker inputs) \<and>
      \<not> is_within_grace_period (grace_of inputs))"
proof (cases "vs_active (li_unit inputs)")
  case True
  then show ?thesis
    by (auto simp: evaluate_instance_state_def Let_def grace_of_def)
next
  case False
  with evaluate_down [OF False] show ?thesis by auto
qed

definition sample_inputs :: lifecycle_inputs where
  "sample_inputs =
     \<lparr>li_unit = UNKNOWN_VM\<lparr>vs_loaded := True, vs_active := True\<rparr>,
      li_tracker = initial_tracker\<lparr>ht_consecutive_successes := 1, ht_ever_healthy := True\<rparr>,
      li_health_check = BootCompleted, li_desired_running = True, li_on_request = False,
      li_stop_requested = False, li_snapshotting = False, li_started_at_ms = Some 0,
      li_now_ms = 1000, li_current = IsStarting\<rparr>"

lemmas sample_inputs_simps =
  sample_inputs_def UNKNOWN_VM_def initial_tracker_def OF_THE_MICROVM_def
  evaluate_instance_state_def evaluate_stopped_state_def is_within_grace_period_def Let_def

text \<open>
  A microVM that is up and not being stopped is given its whole grace period: until it is
  over the instance reads starting or running and never failed or unhealthy, however many probes
  failed; once it is over, an instance that was never healthy and whose failures in a row reached
  the threshold reads failed.
\<close>

lemma grace_period_is_honoured:
  assumes "vs_active (li_unit inputs)" and "\<not> vs_failed (li_unit inputs)"
    and "\<not> li_stop_requested inputs"
    and "ht_consecutive_successes (li_tracker inputs) = 0 \<or>
         ht_consecutive_failures (li_tracker inputs) = 0"
    and "0 < pr_healthy_threshold (probe_of (li_health_check inputs))"
  shows "(is_within_grace_period (grace_of inputs) \<longrightarrow>
            evaluate_instance_state inputs \<in> {IsStarting, IsRunning}) \<and>
         (\<not> is_within_grace_period (grace_of inputs) \<and> \<not> ht_ever_healthy (li_tracker inputs) \<and>
          0 < ht_consecutive_failures (li_tracker inputs) \<and>
          pr_unhealthy_threshold (probe_of (li_health_check inputs))
            \<le> ht_consecutive_failures (li_tracker inputs) \<longrightarrow>
            evaluate_instance_state inputs = IsFailed)"
  using assms by (auto simp: evaluate_instance_state_def Let_def grace_of_def)

lemma evaluate_up_ignores_current:
  "vs_active (li_unit inputs) \<Longrightarrow>
     evaluate_instance_state (inputs\<lparr>li_current := c\<rparr>) = evaluate_instance_state inputs"
  by (simp add: evaluate_instance_state_def Let_def)

lemma evaluate_down_eq:
  "\<not> vs_active (li_unit inputs) \<Longrightarrow>
     evaluate_instance_state inputs =
       (if vs_failed (li_unit inputs) \<and> \<not> (li_current inputs = IsPending \<and> li_started_at_ms inputs = None)
        then IsFailed else evaluate_stopped_state inputs)"
  by (auto simp: evaluate_instance_state_def Let_def)

lemma evaluate_stopped_stable:
  "evaluate_stopped_state (inputs\<lparr>li_current := evaluate_stopped_state inputs\<rparr>) =
     evaluate_stopped_state inputs"
  by (cases "li_stop_requested inputs \<or> li_snapshotting inputs";
      cases "li_desired_running inputs"; cases "li_started_at_ms inputs"; cases "li_on_request inputs";
      cases "li_current inputs = IsFailed"; cases "li_current inputs = IsPending")
     (auto simp: evaluate_stopped_state_def)

text \<open>
  The reported state is settled: evaluating an instance again from the state it was given,
  with nothing else changed, gives the same state, so the report does not flap on its own. The
  one exception is an instance still waiting for its first boot over the failed unit of an
  earlier one, which the hypothesis leaves out.
\<close>

lemma evaluation_is_stable:
  assumes "li_current inputs \<noteq> IsPending \<or> \<not> vs_failed (li_unit inputs)"
  shows "evaluate_instance_state (inputs\<lparr>li_current := evaluate_instance_state inputs\<rparr>) =
           evaluate_instance_state inputs"
proof (cases "vs_active (li_unit inputs)")
  case True
  then show ?thesis by (simp add: evaluate_up_ignores_current)
next
  case False
  with assms show ?thesis
    by (cases "vs_failed (li_unit inputs)") (simp_all add: evaluate_down_eq evaluate_stopped_stable)
qed

end
