(* ===== verification/Slots.thy ===== *)
theory Slots
  imports Domain "HOL-Library.Signed_Division"
begin

text \<open>
  Slots (\<open>crates/nft-render/src/slot.rs\<close> and
  \<open>crates/nibrunnerd/src/adapters/net/allocator.rs\<close>): every per-app resource of the host (ports,
  addresses, tap device, block device) is derived from one small number, and the allocator hands
  the numbers out from a ring. A panic of \<open>expect\<close> in \<open>describe_slot\<close> is the value \<open>None\<close>, and
  \<open>slot_resources_never_panic\<close> shows it is not reached on a host whose configuration is accepted.
\<close>

section \<open>The layout\<close>

definition FIRST_SLOT :: nat where
  "FIRST_SLOT = 0"

definition nbd_device_path :: "nat \<Rightarrow> string" where
  "nbd_device_path minor = ''/dev/nbd'' @ show_nat minor"

definition export_reader_device_path :: "nat \<Rightarrow> string" where
  "export_reader_device_path max_apps = nbd_device_path max_apps"

definition HOST_PORT_BASE :: nat where
  "HOST_PORT_BASE = 21000"

definition PORTS_PER_SLOT :: nat where
  "PORTS_PER_SLOT = 8"

definition most_apps_the_ports_fit :: nat where
  "most_apps_the_ports_fit = (u16_max - HOST_PORT_BASE + 1) div PORTS_PER_SLOT"

text \<open>The \<open>expect\<close> on the last port of the range is the value \<open>None\<close>.\<close>

definition reserved_port_range :: "nat \<Rightarrow> (nat \<times> nat) option" where
  "reserved_port_range max_apps =
     (let end_port = HOST_PORT_BASE + max_apps * PORTS_PER_SLOT - 1
      in if end_port \<le> u16_max then Some (HOST_PORT_BASE, end_port) else None)"

definition GUEST_SUBNET_PREFIX_LENGTH :: nat where
  "GUEST_SUBNET_PREFIX_LENGTH = 30"

definition ADDRESSES_PER_SLOT :: nat where
  "ADDRESSES_PER_SLOT = 4"

definition GUEST_NETWORK_FIRST_OCTET :: nat where
  "GUEST_NETWORK_FIRST_OCTET = 10"

definition GUEST_NETWORK_SECOND_OCTET :: nat where
  "GUEST_NETWORK_SECOND_OCTET = 201"

definition OCTET_SIZE :: nat where
  "OCTET_SIZE = 256"

definition HOST_ADDRESS_OFFSET :: nat where
  "HOST_ADDRESS_OFFSET = 1"

definition GUEST_ADDRESS_OFFSET :: nat where
  "GUEST_ADDRESS_OFFSET = 2"

definition TAP_NAME_PREFIX :: string where
  "TAP_NAME_PREFIX = ''nbr''"

definition MAC_PREFIX :: string where
  "MAC_PREFIX = ''02:00''"

record app_slot =
  sl_slot :: nat
  sl_app_id :: app_id
  sl_host_port :: host_port
  sl_host_ipv4 :: ipv4_address
  sl_guest_ipv4 :: ipv4_address
  sl_guest_mac :: string
  sl_tap_name :: string
  sl_nbd_device_path :: string
  sl_subnet_prefix_length :: nat

definition address_at :: "nat \<Rightarrow> ipv4_address option" where
  "address_at index =
     (let text = dotted_quad GUEST_NETWORK_FIRST_OCTET GUEST_NETWORK_SECOND_OCTET
                   (index div OCTET_SIZE) (index mod OCTET_SIZE)
      in if is_ipv4 text then Some text else None)"

text \<open>\<open>format!("{:02x}")\<close> of an octet.\<close>

definition hex_digit :: "nat \<Rightarrow> char" where
  "hex_digit d = ''0123456789abcdef'' ! d"

definition hex_octet :: "nat \<Rightarrow> string" where
  "hex_octet n = [hex_digit (n div 16), hex_digit (n mod 16)]"

definition mac_for :: "ipv4_address \<Rightarrow> string" where
  "mac_for address =
     MAC_PREFIX @ '':'' @
     join_with CHR '':''
       (map (\<lambda>octet. hex_octet (case parse_u8 octet of Some n \<Rightarrow> n | None \<Rightarrow> 0))
         (split_on CHR ''.'' address))"

definition host_port_at :: "nat \<Rightarrow> nat \<Rightarrow> host_port option" where
  "host_port_at slot index =
     (if index \<ge> PORTS_PER_SLOT then None
      else case port_try_from ''HostPort'' (wrap_u32 (HOST_PORT_BASE + slot * PORTS_PER_SLOT + index)) of
             Inr port \<Rightarrow> Some port
           | Inl _ \<Rightarrow> None)"

definition describe_slot :: "nat \<Rightarrow> app_id \<Rightarrow> app_slot option" where
  "describe_slot slot app_id =
     (let base = wrap_u32 (slot * ADDRESSES_PER_SLOT)
      in case (address_at (base + GUEST_ADDRESS_OFFSET), host_port_at slot 0,
               address_at (base + HOST_ADDRESS_OFFSET)) of
           (Some guest_ipv4, Some host_port, Some host_ipv4) \<Rightarrow>
             Some \<lparr>sl_slot = slot, sl_app_id = app_id, sl_host_port = host_port,
                   sl_host_ipv4 = host_ipv4, sl_guest_ipv4 = guest_ipv4,
                   sl_guest_mac = mac_for guest_ipv4,
                   sl_tap_name = TAP_NAME_PREFIX @ show_nat slot,
                   sl_nbd_device_path = nbd_device_path slot,
                   sl_subnet_prefix_length = GUEST_SUBNET_PREFIX_LENGTH\<rparr>
         | _ \<Rightarrow> None)"

definition is_tap_name :: "string \<Rightarrow> bool" where
  "is_tap_name name =
     (take (length TAP_NAME_PREFIX) name = TAP_NAME_PREFIX \<and>
      (let rest = drop (length TAP_NAME_PREFIX) name
       in rest \<noteq> [] \<and> list_all is_ascii_digit rest))"

text \<open>The bound the configuration holds \<open>max_apps\<close> to (\<open>config.rs\<close>, \<open>apps\<close>).\<close>

definition config_apps :: "nat \<Rightarrow> string + nat" where
  "config_apps count =
     (if count = 0 then Inl ''at least 1''
      else if count > most_apps_the_ports_fit
      then Inl (''at most '' @ show_nat most_apps_the_ports_fit @ '', which is as many slots of '' @
                show_nat PORTS_PER_SLOT @ '' ports as fit above '' @ show_nat HOST_PORT_BASE)
      else Inr count)"

lemmas layout_defs =
  FIRST_SLOT_def HOST_PORT_BASE_def PORTS_PER_SLOT_def u16_max_def most_apps_the_ports_fit_def
  ADDRESSES_PER_SLOT_def OCTET_SIZE_def HOST_ADDRESS_OFFSET_def GUEST_ADDRESS_OFFSET_def
  GUEST_NETWORK_FIRST_OCTET_def GUEST_NETWORK_SECOND_OCTET_def

section \<open>The allocator\<close>

text \<open>The numbers of a stored JSON document, as \<open>serde_json\<close> reads them.\<close>

datatype json_scalar = JsonInteger int | JsonOther

fun as_u64 :: "json_scalar \<Rightarrow> nat option" where
  "as_u64 (JsonInteger i) = (if 0 \<le> i \<and> i \<le> int u64_max then Some (nat i) else None)"
| "as_u64 JsonOther = None"

fun json_as_i64 :: "json_scalar \<Rightarrow> int option" where
  "json_as_i64 (JsonInteger i) = (if - (2 ^ 63) \<le> i \<and> i < 2 ^ 63 then Some i else None)"
| "json_as_i64 JsonOther = None"

datatype slot_error = SlotExhausted nat | SlotPanic

definition slot_exhausted_message :: "nat \<Rightarrow> string" where
  "slot_exhausted_message limit =
     ''all '' @ show_nat limit @
     '' apps this host is laid out for hold a slot; raise max_apps in config.toml''"

definition read_slot_cursor :: "json_scalar option \<Rightarrow> int" where
  "read_slot_cursor value =
     (case Option.bind value json_as_i64 of Some cursor \<Rightarrow> cursor | None \<Rightarrow> int FIRST_SLOT)"

text \<open>One entry of the stored table: the assignments so far and the slots they take.\<close>

definition assignment_from ::
  "nat \<Rightarrow> string \<times> json_scalar \<Rightarrow> (app_id, nat) btree \<times> nat set \<Rightarrow> (app_id, nat) btree \<times> nat set" where
  "assignment_from max_apps entry acc =
     (case entry of (name, value) \<Rightarrow> case acc of (assignments, taken) \<Rightarrow>
        case as_u64 value of
          None \<Rightarrow> acc
        | Some slot \<Rightarrow>
            if slot > u32_max then acc
            else case identifier_parse ''AppId'' name of
                   Inl _ \<Rightarrow> acc
                 | Inr app_id \<Rightarrow>
                     if \<not> (FIRST_SLOT \<le> slot \<and> slot < max_apps) \<or> slot \<in> taken then acc
                     else (bt_insert app_id slot assignments, insert slot taken))"

definition assignments_from :: "(string, json_scalar) btree \<Rightarrow> nat \<Rightarrow> (app_id, nat) btree" where
  "assignments_from records max_apps = fst (fold (assignment_from max_apps) records ([], {}))"

record slot_allocator =
  sa_assignments :: "(app_id, nat) btree"
  sa_cursor :: int
  sa_limit :: nat

definition addressing :: "nat \<Rightarrow> slot_allocator" where
  "addressing max_apps = \<lparr>sa_assignments = [], sa_cursor = int FIRST_SLOT, sa_limit = max_apps\<rparr>"

definition slot_span :: "slot_allocator \<Rightarrow> nat" where
  "slot_span alloc = sa_limit alloc - FIRST_SLOT"

definition wrapped :: "slot_allocator \<Rightarrow> int \<Rightarrow> nat" where
  "wrapped alloc offset =
     (let sp = int (slot_span alloc);
          inside = ((offset smod sp) + sp) smod sp
      in FIRST_SLOT + nat inside)"

definition restore :: "slot_allocator \<Rightarrow> (app_id, nat) btree \<Rightarrow> int \<Rightarrow> slot_allocator" where
  "restore alloc assignments cursor =
     alloc\<lparr>sa_assignments := filter (\<lambda>(_, slot). FIRST_SLOT \<le> slot \<and> slot < sa_limit alloc) assignments,
           sa_cursor := int (wrapped alloc (cursor - int FIRST_SLOT))\<rparr>"

definition grow :: "slot_allocator \<Rightarrow> nat \<Rightarrow> slot_allocator" where
  "grow alloc limit = alloc\<lparr>sa_limit := max (sa_limit alloc) limit\<rparr>"

definition next_free :: "slot_allocator \<Rightarrow> nat option" where
  "next_free alloc =
     (let taken = set (bt_values (sa_assignments alloc))
      in find (\<lambda>slot. slot \<notin> taken)
           (map (\<lambda>step. wrapped alloc (sa_cursor alloc - int FIRST_SLOT + int step)) [0..<slot_span alloc]))"

definition described :: "nat \<Rightarrow> app_id \<Rightarrow> slot_error + app_slot" where
  "described slot app_id =
     (case describe_slot slot app_id of Some s \<Rightarrow> Inr s | None \<Rightarrow> Inl SlotPanic)"

definition allocate :: "app_id \<Rightarrow> slot_allocator \<Rightarrow> (slot_error + app_slot) \<times> slot_allocator" where
  "allocate app_id alloc =
     (case map_of (sa_assignments alloc) app_id of
        Some slot \<Rightarrow> (described slot app_id, alloc)
      | None \<Rightarrow>
          case next_free alloc of
            None \<Rightarrow> (Inl (SlotExhausted (sa_limit alloc)), alloc)
          | Some free \<Rightarrow>
              (described free app_id,
               alloc\<lparr>sa_assignments := bt_insert app_id free (sa_assignments alloc),
                     sa_cursor := int free + 1\<rparr>))"

definition lookup :: "slot_allocator \<Rightarrow> app_id \<Rightarrow> app_slot option" where
  "lookup alloc app_id =
     Option.bind (map_of (sa_assignments alloc) app_id) (\<lambda>slot. describe_slot slot app_id)"

definition release :: "app_id \<Rightarrow> slot_allocator \<Rightarrow> slot_allocator" where
  "release app_id alloc = alloc\<lparr>sa_assignments := bt_remove app_id (sa_assignments alloc)\<rparr>"

definition slots :: "slot_allocator \<Rightarrow> app_slot list" where
  "slots alloc = List.map_filter (\<lambda>(app_id, slot). describe_slot slot app_id) (sa_assignments alloc)"


section \<open>The ring\<close>

lemma smod_nonneg: "0 \<le> y \<Longrightarrow> 0 < s \<Longrightarrow> y smod s = y mod (s :: int)"
  by (cases "y = 0") (simp_all add: smod_int_alt_def)

lemma smod_shift: "0 < s \<Longrightarrow> ((x smod s) + s) smod s = x mod (s :: int)"
proof -
  assume s: "0 < s"
  have eq: "x smod s = sgn x * (\<bar>x\<bar> mod s)"
    using s by (simp add: smod_int_alt_def)
  have range: "0 \<le> \<bar>x\<bar> mod s" "\<bar>x\<bar> mod s < s"
    using s by simp_all
  have "0 \<le> x smod s + s"
    using eq range s less_imp_le [OF pos_mod_bound [OF s, of "- x"]]
    by (cases "x = 0"; cases "x < 0") (auto simp: sgn_if)
  then have "(x smod s + s) smod s = (x smod s + s) mod s"
    using s by (rule smod_nonneg)
  also have "\<dots> = x mod s"
  proof (cases "x < 0")
    case True
    then have "x smod s = - ((- x) mod s)" by (simp add: eq)
    then show ?thesis by (simp add: mod_minus_eq)
  next
    case False
    then show ?thesis by (cases "x = 0") (simp_all add: eq)
  qed
  finally show ?thesis .
qed

lemma wrapped_eq: "0 < sa_limit alloc \<Longrightarrow> wrapped alloc x = nat (x mod int (sa_limit alloc))"
  by (simp add: wrapped_def slot_span_def FIRST_SLOT_def smod_shift Let_def)

lemma wrapped_less: "0 < sa_limit alloc \<Longrightarrow> wrapped alloc x < sa_limit alloc"
  by (simp add: wrapped_eq nat_less_iff)

text \<open>The search visits every slot of the ring, starting at the cursor.\<close>

lemma ring_surj:
  assumes "s < n"
  shows "\<exists>step < n. s = nat ((c + int step) mod int n)"
proof -
  let ?d = "nat ((int s - c) mod int n)"
  have n: "0 < int n" using assms by simp
  have "int ?d = (int s - c) mod int n" using n by simp
  then have "(c + int ?d) mod int n = int s"
    using assms by (simp add: mod_add_right_eq)
  moreover have "?d < n" using n by (simp add: nat_less_iff)
  ultimately show ?thesis by (metis nat_int)
qed

lemma next_free_None:
  assumes "0 < sa_limit alloc"
  shows "next_free alloc = None \<longleftrightarrow> {..<sa_limit alloc} \<subseteq> set (bt_values (sa_assignments alloc))"
proof -
  have "next_free alloc = None \<longleftrightarrow>
      (\<forall>step < sa_limit alloc. wrapped alloc (sa_cursor alloc + int step) \<in> set (bt_values (sa_assignments alloc)))"
    by (auto simp: next_free_def find_None_iff slot_span_def FIRST_SLOT_def)
  also have "\<dots> \<longleftrightarrow> {..<sa_limit alloc} \<subseteq> set (bt_values (sa_assignments alloc))"
    using ring_surj [of _ "sa_limit alloc" "sa_cursor alloc"] wrapped_less [OF assms]
    by (fastforce simp: wrapped_eq [OF assms])
  finally show ?thesis .
qed

lemma next_free_Some:
  assumes "next_free alloc = Some slot" and limit: "0 < sa_limit alloc"
  shows "slot < sa_limit alloc \<and> slot \<notin> set (bt_values (sa_assignments alloc))"
proof -
  from assms(1) have "slot \<notin> set (bt_values (sa_assignments alloc))"
      "slot \<in> (\<lambda>step. wrapped alloc (sa_cursor alloc - int FIRST_SLOT + int step)) ` {0..<slot_span alloc}"
    by (auto simp: next_free_def find_Some_iff Let_def in_set_conv_nth)
  with wrapped_less [OF limit] show ?thesis by auto
qed

section \<open>The allocator's invariant\<close>

definition alloc_wf :: "slot_allocator \<Rightarrow> bool" where
  "alloc_wf alloc \<longleftrightarrow>
     bt_wf (sa_assignments alloc) \<and> 0 < sa_limit alloc \<and> sa_limit alloc \<le> most_apps_the_ports_fit \<and>
     distinct (bt_values (sa_assignments alloc)) \<and>
     (\<forall>slot \<in> set (bt_values (sa_assignments alloc)). slot < sa_limit alloc) \<and>
     0 \<le> sa_cursor alloc \<and> sa_cursor alloc \<le> int (sa_limit alloc)"

lemma set_bt_values_insert:
  "bt_wf m \<Longrightarrow> map_of m k = None \<Longrightarrow> set (bt_values (bt_insert k v m)) = insert v (set (bt_values m))"
  by (induction k v m rule: bt_insert.induct) (auto simp: bt_values_def bt_wf_Cons split: if_splits)

lemma bt_insert_keyD: "(a, b) \<in> set (bt_insert k v m) \<Longrightarrow> a = k \<or> a \<in> fst ` set m"
  by (metis fst_conv image_eqI insertE set_keys_bt_insert)

lemma distinct_bt_values_insert:
  assumes "bt_wf m" "map_of m k = None" "distinct (bt_values m)" "v \<notin> set (bt_values m)"
  shows "distinct (bt_values (bt_insert k v m))"
proof (rule card_distinct)
  show "card (set (bt_values (bt_insert k v m))) = length (bt_values (bt_insert k v m))"
    using assms by (simp add: set_bt_values_insert distinct_card)
      (simp add: bt_values_def length_bt_insert)
qed

lemma bt_values_remove_subset: "set (bt_values (bt_remove k m)) \<subseteq> set (bt_values m)"
  by (auto simp: bt_values_def bt_remove_def)

lemma distinct_bt_values_filter: "distinct (bt_values m) \<Longrightarrow> distinct (bt_values (filter P m))"
  by (simp add: bt_values_def distinct_map_filter)

lemma alloc_wf_addressing: "config_apps n = Inr n \<Longrightarrow> alloc_wf (addressing n)"
  by (auto simp: alloc_wf_def addressing_def config_apps_def bt_values_def FIRST_SLOT_def
      split: if_splits)

lemma alloc_wf_restore:
  assumes "alloc_wf alloc" "bt_wf assignments" "distinct (bt_values assignments)"
  shows "alloc_wf (restore alloc assignments cursor)"
proof -
  have "0 < sa_limit alloc" using assms(1) by (simp add: alloc_wf_def)
  with assms wrapped_less [of alloc "cursor - int FIRST_SLOT"] show ?thesis
    by (auto simp: alloc_wf_def restore_def bt_wf_filter distinct_bt_values_filter FIRST_SLOT_def)
       (auto simp: bt_values_def)
qed

lemma alloc_wf_grow: "alloc_wf alloc \<Longrightarrow> limit \<le> most_apps_the_ports_fit \<Longrightarrow> alloc_wf (grow alloc limit)"
  by (auto simp: alloc_wf_def grow_def max_def intro: less_le_trans)

lemma alloc_wf_allocate: "alloc_wf alloc \<Longrightarrow> alloc_wf (snd (allocate app_id alloc))"
  using next_free_Some [of alloc]
  by (auto simp: alloc_wf_def allocate_def set_bt_values_insert distinct_bt_values_insert
      split: option.splits)

lemma alloc_wf_release: "alloc_wf alloc \<Longrightarrow> alloc_wf (release app_id alloc)"
  using bt_values_remove_subset [of app_id "sa_assignments alloc"]
  by (auto simp: alloc_wf_def release_def bt_remove_def distinct_bt_values_filter bt_wf_filter)

lemmas alloc_wf_intros =
  alloc_wf_addressing alloc_wf_restore alloc_wf_grow alloc_wf_allocate alloc_wf_release

lemma alloc_wf_injective:
  assumes "alloc_wf alloc" "map_of (sa_assignments alloc) a = Some s" "map_of (sa_assignments alloc) b = Some s"
  shows "a = b"
proof -
  have "(a, s) \<in> set (sa_assignments alloc)" "(b, s) \<in> set (sa_assignments alloc)"
    using assms(2,3) by (simp_all add: map_of_SomeD)
  moreover have "inj_on snd (set (sa_assignments alloc))"
    using assms(1) by (simp add: alloc_wf_def bt_values_def distinct_map)
  ultimately show ?thesis
    by (metis (no_types) Pair_inject inj_on_def snd_conv)
qed

lemma assignments_from_invariant:
  assumes "bt_wf assignments" "set (bt_values assignments) \<subseteq> taken" "distinct (bt_values assignments)"
    and "\<forall>slot \<in> taken. slot < n" and "fst ` set assignments \<inter> fst ` set records = {}"
    and "distinct (map fst records)"
  shows "bt_wf (fst (fold (assignment_from n) records (assignments, taken))) \<and>
         distinct (bt_values (fst (fold (assignment_from n) records (assignments, taken)))) \<and>
         (\<forall>slot \<in> set (bt_values (fst (fold (assignment_from n) records (assignments, taken)))). slot < n)"
  using assms
proof (induction records arbitrary: assignments taken)
  case Nil
  then show ?case by auto
next
  case (Cons r records)
  obtain name stored where r: "r = (name, stored)" by (cases r)
  obtain assignments' taken' where step: "assignment_from n r (assignments, taken) = (assignments', taken')"
    by (cases "assignment_from n r (assignments, taken)")
  have new: "map_of assignments name = None"
    using Cons.prems(5) r by (auto simp: map_of_eq_None_iff)
  have kept: "bt_wf assignments' \<and> set (bt_values assignments') \<subseteq> taken' \<and> distinct (bt_values assignments') \<and>
      (\<forall>slot \<in> taken'. slot < n) \<and> fst ` set assignments' \<subseteq> insert name (fst ` set assignments)"
    using step Cons.prems(1-4) new
    by (auto simp: assignment_from_def r identifier_parse_def set_bt_values_insert
        intro!: distinct_bt_values_insert dest!: bt_insert_keyD split: option.splits if_splits sum.splits)
       force
  have rest: "name \<notin> fst ` set records" "distinct (map fst records)"
    "fst ` set assignments \<inter> fst ` set records = {}"
    using Cons.prems(5,6) r by auto
  have "fst ` set assignments' \<inter> fst ` set records = {}" using kept rest by blast
  with kept rest show ?case
    using Cons.IH [of assignments' taken'] step by simp
qed

lemma assignments_from_wf:
  assumes "bt_wf records"
  shows "bt_wf (assignments_from records n)" "distinct (bt_values (assignments_from records n))"
  using assignments_from_invariant [of "[]" "{}" n records] bt_wf_distinct [OF assms]
  by (simp_all add: assignments_from_def bt_values_def)


lemma holders_bounded:
  assumes "alloc_wf alloc"
  shows "length (sa_assignments alloc) = card (set (bt_values (sa_assignments alloc)))"
    "set (bt_values (sa_assignments alloc)) \<subseteq> {..<sa_limit alloc}"
  using assms distinct_card [of "bt_values (sa_assignments alloc)"]
  by (auto simp: alloc_wf_def) (simp add: bt_values_def)

lemma full_ring:
  assumes "alloc_wf alloc" "next_free alloc = None"
  shows "length (sa_assignments alloc) = sa_limit alloc"
proof -
  have "set (bt_values (sa_assignments alloc)) = {..<sa_limit alloc}"
    using assms holders_bounded(2) [OF assms(1)] next_free_None [of alloc]
    by (auto simp: alloc_wf_def)
  with holders_bounded(1) [OF assms(1)] show ?thesis by simp
qed

lemma room_in_ring:
  assumes "alloc_wf alloc" "next_free alloc = Some free"
  shows "length (sa_assignments alloc) < sa_limit alloc"
proof -
  have "free \<in> {..<sa_limit alloc}" "free \<notin> set (bt_values (sa_assignments alloc))"
    using next_free_Some [OF assms(2)] assms(1) by (simp_all add: alloc_wf_def)
  with holders_bounded [OF assms(1)] have "set (bt_values (sa_assignments alloc)) \<subset> {..<sa_limit alloc}"
    by auto
  from psubset_card_mono [OF _ this] holders_bounded(1) [OF assms(1)] show ?thesis by simp
qed

lemma next_free_nearest:
  assumes "alloc_wf alloc" "next_free alloc = Some free"
  shows "\<exists>step < sa_limit alloc. free = nat ((sa_cursor alloc + int step) mod int (sa_limit alloc)) \<and>
    (\<forall>earlier < step. nat ((sa_cursor alloc + int earlier) mod int (sa_limit alloc))
       \<in> set (bt_values (sa_assignments alloc)))"
proof -
  have limit: "0 < sa_limit alloc" using assms(1) by (simp add: alloc_wf_def)
  show ?thesis
    using assms(2)
    by (auto simp: next_free_def find_Some_iff Let_def slot_span_def FIRST_SLOT_def wrapped_eq [OF limit])
qed

section \<open>The resources of a slot\<close>

lemma most_apps_value: "most_apps_the_ports_fit = 5567"
  by (simp add: layout_defs)

lemma host_port_at_eq:
  "slot < most_apps_the_ports_fit \<Longrightarrow> index < PORTS_PER_SLOT \<Longrightarrow>
     host_port_at slot index = Some (21000 + slot * 8 + index)"
  by (simp add: host_port_at_def port_try_from_def layout_defs)

lemma host_port_at_beyond: "PORTS_PER_SLOT \<le> index \<Longrightarrow> host_port_at slot index = None"
  by (simp add: host_port_at_def)

lemma address_at_eq: "index < 65536 \<Longrightarrow> address_at index = Some (dotted_quad 10 201 (index div 256) (index mod 256))"
  by (simp add: address_at_def layout_defs is_ipv4_dotted_quad div_less_iff_less_mult)

lemma describe_slot_eq:
  assumes "slot < most_apps_the_ports_fit"
  shows "describe_slot slot app_id =
    Some \<lparr>sl_slot = slot, sl_app_id = app_id, sl_host_port = 21000 + slot * 8,
      sl_host_ipv4 = dotted_quad 10 201 ((slot * 4 + 1) div 256) ((slot * 4 + 1) mod 256),
      sl_guest_ipv4 = dotted_quad 10 201 ((slot * 4 + 2) div 256) ((slot * 4 + 2) mod 256),
      sl_guest_mac = mac_for (dotted_quad 10 201 ((slot * 4 + 2) div 256) ((slot * 4 + 2) mod 256)),
      sl_tap_name = TAP_NAME_PREFIX @ show_nat slot, sl_nbd_device_path = nbd_device_path slot,
      sl_subnet_prefix_length = GUEST_SUBNET_PREFIX_LENGTH\<rparr>"
proof -
  have "host_port_at slot 0 = Some (21000 + slot * 8)"
    using host_port_at_eq [OF assms, of 0] by (simp add: PORTS_PER_SLOT_def)
  moreover have "slot < 5567" using assms by (simp add: most_apps_value)
  ultimately show ?thesis
    by (simp add: describe_slot_def address_at_eq ADDRESSES_PER_SLOT_def GUEST_ADDRESS_OFFSET_def
        HOST_ADDRESS_OFFSET_def Let_def)
qed

lemma described_eq:
  "slot < most_apps_the_ports_fit \<Longrightarrow> described slot app_id = Inr (the (describe_slot slot app_id))"
  by (simp add: described_def describe_slot_eq)

lemma describe_slot_slot: "describe_slot slot app_id = Some s \<Longrightarrow> sl_slot s = slot \<and> sl_app_id s = app_id"
  by (auto simp: describe_slot_def Let_def split: option.splits)

lemma dotted_quad_inject [simp]:
  "dotted_quad a b c d = dotted_quad a' b' c' d' \<longleftrightarrow> a = a' \<and> b = b' \<and> c = c' \<and> d = d'"
proof
  assume "dotted_quad a b c d = dotted_quad a' b' c' d'"
  then have "split_on CHR ''.'' (dotted_quad a b c d) = split_on CHR ''.'' (dotted_quad a' b' c' d')"
    by simp
  then show "a = a' \<and> b = b' \<and> c = c' \<and> d = d'" by (simp only: split_dotted_quad) simp
qed simp

lemma div_mod_256_inject: "x div 256 = y div 256 \<Longrightarrow> x mod 256 = y mod 256 \<Longrightarrow> x = (y :: nat)"
  by (metis mult_div_mod_eq)

lemma hex_digit_inject: "a < 16 \<Longrightarrow> b < 16 \<Longrightarrow> hex_digit a = hex_digit b \<longleftrightarrow> a = b"
  unfolding hex_digit_def by (rule nth_eq_iff_index_eq) simp_all

lemma hex_octet_inject: "a < 256 \<Longrightarrow> b < 256 \<Longrightarrow> hex_octet a = hex_octet b \<longleftrightarrow> a = b"
  by (auto simp: hex_octet_def hex_digit_inject div_less_iff_less_mult) (metis mult_div_mod_eq)

lemma length_hex_octet [simp]: "length (hex_octet n) = 2"
  by (simp add: hex_octet_def)

lemma mac_for_dotted_quad:
  assumes "a < 256" "b < 256" "c < 256" "d < 256"
  shows "mac_for (dotted_quad a b c d) =
    MAC_PREFIX @ '':'' @ hex_octet a @ '':'' @ hex_octet b @ '':'' @ hex_octet c @ '':'' @ hex_octet d"
  using assms by (simp add: mac_for_def parse_u8_def parse_unsigned_show_nat)

lemma mac_for_inject:
  assumes "a < 256" "b < 256" "c < 256" "d < 256" "a' < 256" "b' < 256" "c' < 256" "d' < 256"
  shows "mac_for (dotted_quad a b c d) = mac_for (dotted_quad a' b' c' d') \<longleftrightarrow>
    a = a' \<and> b = b' \<and> c = c' \<and> d = d'"
  using assms by (simp add: mac_for_dotted_quad hex_octet_inject)

lemma slot_ports_disjoint:
  assumes "x < most_apps_the_ports_fit" "y < most_apps_the_ports_fit" "x \<noteq> y"
  shows "\<forall>i j. host_port_at x i \<noteq> None \<longrightarrow> host_port_at x i \<noteq> host_port_at y j"
proof (intro allI impI)
  fix i j assume i: "host_port_at x i \<noteq> None"
  then have "i < PORTS_PER_SLOT" by (metis host_port_at_beyond not_less)
  moreover have "x * 8 + i \<noteq> y * 8 + j" if "i < 8" "j < 8" using assms(3) that by presburger
  ultimately show "host_port_at x i \<noteq> host_port_at y j"
    using i assms(1,2) host_port_at_beyond [of j y]
    by (cases "j < PORTS_PER_SLOT") (auto simp: host_port_at_eq PORTS_PER_SLOT_def)
qed

lemma slot_ports_reserved:
  assumes "x < limit" "limit \<le> 5567"
  shows "\<forall>i p. host_port_at x i = Some p \<longrightarrow>
    (\<exists>first end_port. reserved_port_range limit = Some (first, end_port) \<and> first \<le> p \<and> p \<le> end_port)"
proof (intro allI impI)
  fix i p assume p: "host_port_at x i = Some p"
  then have i: "i < PORTS_PER_SLOT" by (metis host_port_at_beyond not_less option.distinct(1))
  have "x < most_apps_the_ports_fit" using assms by (simp add: most_apps_value)
  with i p have "p = 21000 + x * 8 + i" "i < 8"
    by (simp_all add: host_port_at_eq) (simp add: PORTS_PER_SLOT_def)
  with assms show "\<exists>first end_port. reserved_port_range limit = Some (first, end_port) \<and> first \<le> p \<and> p \<le> end_port"
    by (simp add: reserved_port_range_def layout_defs)
qed

lemma slot_addresses_disjoint:
  assumes "describe_slot x a = Some s" "describe_slot y b = Some t"
    and "x < most_apps_the_ports_fit" "y < most_apps_the_ports_fit" "x \<noteq> y"
  shows "{sl_host_ipv4 s, sl_guest_ipv4 s} \<inter> {sl_host_ipv4 t, sl_guest_ipv4 t} = {}"
proof -
  have inj: "dotted_quad 10 201 (m div 256) (m mod 256) = dotted_quad 10 201 (n div 256) (n mod 256) \<longleftrightarrow> m = n"
    for m n by (auto dest: div_mod_256_inject)
  have "x * 4 + 1 \<noteq> y * 4 + 1" "x * 4 + 1 \<noteq> y * 4 + 2" "x * 4 + 2 \<noteq> y * 4 + 1" "x * 4 + 2 \<noteq> y * 4 + 2"
    using assms(5) by presburger+
  with inj show ?thesis
    using assms(1,2) unfolding describe_slot_eq [OF assms(3)] describe_slot_eq [OF assms(4)]
    by (simp only: option.inject) (auto simp del: dotted_quad_inject)
qed

lemma slot_macs_distinct:
  assumes "x < most_apps_the_ports_fit" "y < most_apps_the_ports_fit" "x \<noteq> y"
  shows "mac_for (dotted_quad 10 201 ((x * 4 + 2) div 256) ((x * 4 + 2) mod 256)) \<noteq>
         mac_for (dotted_quad 10 201 ((y * 4 + 2) div 256) ((y * 4 + 2) mod 256))"
proof -
  have "x * 4 + 2 \<noteq> y * 4 + 2" "(x * 4 + 2) div 256 < 256" "(y * 4 + 2) div 256 < 256"
    using assms by (simp_all add: most_apps_value div_less_iff_less_mult)
  then show ?thesis
    using div_mod_256_inject [of "x * 4 + 2" "y * 4 + 2"] by (subst mac_for_inject) auto
qed

section \<open>What the allocator promises\<close>

text \<open>
  Handing out a slot. An app that holds one gets the same again and nothing changes. One that
  holds none is refused exactly when every slot of the ring is held; otherwise it gets a slot
  nobody held, the first free one of the ring from the cursor on, and the search resumes after it
  the next time. No other app's slot moves, and no panic is reached.
\<close>

lemma allocate_hands_out_a_free_slot:
  assumes "alloc_wf alloc"
  shows "case map_of (sa_assignments alloc) app_id of
           Some slot \<Rightarrow>
             snd (allocate app_id alloc) = alloc \<and>
             fst (allocate app_id alloc) = Inr (the (describe_slot slot app_id))
         | None \<Rightarrow>
             (case fst (allocate app_id alloc) of
                Inl e \<Rightarrow>
                  e = SlotExhausted (sa_limit alloc) \<and> snd (allocate app_id alloc) = alloc \<and>
                  length (sa_assignments alloc) = sa_limit alloc
              | Inr slot \<Rightarrow>
                  length (sa_assignments alloc) < sa_limit alloc \<and>
                  sl_slot slot < sa_limit alloc \<and>
                  sl_slot slot \<notin> set (bt_values (sa_assignments alloc)) \<and>
                  map_of (sa_assignments (snd (allocate app_id alloc))) =
                    (map_of (sa_assignments alloc))(app_id \<mapsto> sl_slot slot) \<and>
                  sa_cursor (snd (allocate app_id alloc)) = int (sl_slot slot) + 1 \<and>
                  (\<exists>step < sa_limit alloc.
                     sl_slot slot = nat ((sa_cursor alloc + int step) mod int (sa_limit alloc)) \<and>
                     (\<forall>earlier < step.
                        nat ((sa_cursor alloc + int earlier) mod int (sa_limit alloc))
                          \<in> set (bt_values (sa_assignments alloc)))))"
proof (cases "map_of (sa_assignments alloc) app_id")
  case (Some slot)
  with assms have "slot < most_apps_the_ports_fit"
    by (fastforce simp: alloc_wf_def bt_values_def dest: map_of_SomeD)
  with Some show ?thesis by (simp add: allocate_def described_eq)
next
  case new: None
  show ?thesis
  proof (cases "next_free alloc")
    case None
    with assms new show ?thesis by (simp add: allocate_def full_ring)
  next
    case (Some free)
    with assms have free: "free < most_apps_the_ports_fit"
      using next_free_Some [OF Some] by (simp add: alloc_wf_def)
    with new Some have "sl_slot (the (describe_slot free app_id)) = free"
      by (simp add: describe_slot_eq)
    with assms new Some free next_free_Some [OF Some] next_free_nearest [OF assms Some]
      room_in_ring [OF assms Some] show ?thesis
      by (simp add: allocate_def described_eq alloc_wf_def)
  qed
qed

section \<open>Any history of the table\<close>

text \<open>What the host does to its table, in any order, once it has read the stored one back.\<close>

datatype slot_op = OpAllocate app_id | OpRelease app_id | OpGrow nat

fun slot_step :: "slot_op \<Rightarrow> slot_allocator \<Rightarrow> slot_allocator" where
  "slot_step (OpAllocate app_id) alloc = snd (allocate app_id alloc)"
| "slot_step (OpRelease app_id) alloc = release app_id alloc"
| "slot_step (OpGrow limit) alloc = (case config_apps limit of Inr n \<Rightarrow> grow alloc n | Inl _ \<Rightarrow> alloc)"

definition slot_table ::
  "nat \<Rightarrow> (string, json_scalar) btree \<Rightarrow> json_scalar option \<Rightarrow> slot_op list \<Rightarrow> slot_allocator" where
  "slot_table max_apps stored cursor ops =
     fold slot_step ops
       (restore (addressing max_apps) (assignments_from stored max_apps) (read_slot_cursor cursor))"

lemma config_apps_Inr: "config_apps n = Inr m \<longleftrightarrow> n = m \<and> 0 < n \<and> n \<le> most_apps_the_ports_fit"
  by (auto simp: config_apps_def)

lemma alloc_wf_slot_step: "alloc_wf alloc \<Longrightarrow> alloc_wf (slot_step op alloc)"
  by (cases op) (auto simp: config_apps_Inr intro: alloc_wf_intros split: sum.splits)

lemma alloc_wf_slot_table:
  assumes "config_apps max_apps = Inr max_apps" "bt_wf stored"
  shows "alloc_wf (slot_table max_apps stored cursor ops)"
proof -
  have "alloc_wf (restore (addressing max_apps) (assignments_from stored max_apps) (read_slot_cursor cursor))"
    by (intro alloc_wf_restore alloc_wf_addressing assignments_from_wf assms)
  then show ?thesis
    unfolding slot_table_def
    by (induction ops rule: rev_induct) (auto intro: alloc_wf_slot_step)
qed

text \<open>
  Two apps that hold slots never share anything derived from them. Whatever was stored, and
  whatever sequence of allocations, releases and growths followed, the slots of two different
  apps have disjoint host ports at every index, all inside the range the host reserves; different
  addresses on both sides of the link, MAC addresses, tap devices and block devices; and no app
  holds the block device of the export reader.
\<close>

lemma slot_holders_share_nothing:
  assumes "config_apps max_apps = Inr max_apps" and "bt_wf stored"
    and "alloc = slot_table max_apps stored cursor ops"
    and "lookup alloc a = Some s" and "lookup alloc b = Some t" and "a \<noteq> b"
  shows "(\<forall>i j. host_port_at (sl_slot s) i \<noteq> None \<longrightarrow>
            host_port_at (sl_slot s) i \<noteq> host_port_at (sl_slot t) j) \<and>
         (\<forall>i p. host_port_at (sl_slot s) i = Some p \<longrightarrow>
            (\<exists>first end_port. reserved_port_range (sa_limit alloc) = Some (first, end_port) \<and>
               first \<le> p \<and> p \<le> end_port)) \<and>
         {sl_host_ipv4 s, sl_guest_ipv4 s} \<inter> {sl_host_ipv4 t, sl_guest_ipv4 t} = {} \<and>
         sl_guest_mac s \<noteq> sl_guest_mac t \<and> sl_tap_name s \<noteq> sl_tap_name t \<and>
         sl_nbd_device_path s \<noteq> sl_nbd_device_path t \<and>
         sl_nbd_device_path s \<noteq> export_reader_device_path (sa_limit alloc)"
proof -
  have wf: "alloc_wf alloc" using assms(1-3) alloc_wf_slot_table by simp
  obtain x y where x: "map_of (sa_assignments alloc) a = Some x" "describe_slot x a = Some s"
    and y: "map_of (sa_assignments alloc) b = Some y" "describe_slot y b = Some t"
    using assms(4,5) by (auto simp: lookup_def bind_eq_Some_conv)
  have ne: "x \<noteq> y" using alloc_wf_injective [OF wf] x(1) y(1) assms(6) by auto
  have bounds: "x < sa_limit alloc" "y < sa_limit alloc" "sa_limit alloc \<le> 5567"
    using wf x(1) y(1)
    by (fastforce simp: alloc_wf_def bt_values_def most_apps_value dest: map_of_SomeD)+
  have most: "x < most_apps_the_ports_fit" "y < most_apps_the_ports_fit"
    using bounds by (simp_all add: most_apps_value)
  have s: "sl_slot s = x" "sl_slot t = y" using describe_slot_slot x(2) y(2) by auto
  have st: "sl_guest_mac s \<noteq> sl_guest_mac t" "sl_tap_name s \<noteq> sl_tap_name t"
      "sl_nbd_device_path s \<noteq> sl_nbd_device_path t"
      "sl_nbd_device_path s \<noteq> export_reader_device_path (sa_limit alloc)"
    using x(2) y(2) slot_macs_distinct [OF most ne] ne bounds(1)
    by (auto simp: describe_slot_eq [OF most(1)] describe_slot_eq [OF most(2)]
        nbd_device_path_def export_reader_device_path_def)
  show ?thesis
    unfolding s
    using slot_ports_disjoint [OF most ne] slot_ports_reserved [OF bounds(1,3)]
      slot_addresses_disjoint [OF x(2) y(2) most ne] st
    by (intro conjI)
qed

text \<open>
  Every slot an accepted configuration can hand out has its resources: the description never
  panics, its host and guest addresses are well-formed and differ, its first port is the one it
  names, and the tap device is one the host recognises as its own.
\<close>

lemma slot_resources_never_panic:
  assumes "config_apps max_apps = Inr max_apps" and "slot < max_apps"
  shows "\<exists>s. describe_slot slot app_id = Some s \<and> is_ipv4 (sl_host_ipv4 s) \<and> is_ipv4 (sl_guest_ipv4 s) \<and>
           sl_host_ipv4 s \<noteq> sl_guest_ipv4 s \<and> host_port_at slot 0 = Some (sl_host_port s) \<and>
           is_tap_name (sl_tap_name s) \<and> sl_slot s = slot \<and> sl_app_id s = app_id"
proof -
  have most: "slot < most_apps_the_ports_fit" "slot < 5567"
    using assms by (simp_all add: config_apps_Inr most_apps_value)
  then have div: "(slot * 4 + 2) div 256 < 256" "(slot * 4 + 1) div 256 < 256"
    by (simp_all add: div_less_iff_less_mult)
  have differ: "slot * 4 + 1 \<noteq> slot * 4 + 2" by simp
  have tap: "is_tap_name (TAP_NAME_PREFIX @ show_nat slot)"
    using show_nat_digits [of slot] by (simp add: is_tap_name_def TAP_NAME_PREFIX_def list_all_iff Let_def)
  have port: "host_port_at slot 0 = Some (21000 + slot * 8)"
    using host_port_at_eq [OF most(1), of 0] by (simp add: PORTS_PER_SLOT_def)
  show ?thesis
    using div tap port is_ipv4_dotted_quad [of 10 201 "(slot * 4 + 1) div 256" "(slot * 4 + 1) mod 256"]
      is_ipv4_dotted_quad [of 10 201 "(slot * 4 + 2) div 256" "(slot * 4 + 2) mod 256"]
      div_mod_256_inject [of "slot * 4 + 1" "slot * 4 + 2"]
    by (auto simp: describe_slot_eq [OF most(1)])
qed

end
