(* ===== verification/Records.thy ===== *)
theory Records
  imports Health Slots
begin

text \<open>
  What the host remembers of an app (\<open>crates/nibrunnerd/src/domain/report/instance_record.rs\<close>),
  the routes it renders from that (\<open>report/routes.rs\<close>), the memory it counts as taken
  (\<open>report/capacity.rs\<close>) and when it puts an app to sleep (\<open>domain/activation.rs\<close>). Reading
  the text of a timestamp is the work of a calendar library and a parameter.
\<close>

section \<open>Instance records\<close>

record record_port =
  rpt_name :: port_name
  rpt_host_port :: host_port
  rpt_guest_port :: guest_port

record instance_record =
  ir_app_id :: app_id
  ir_deployment_id :: deployment_id
  ir_volume_id :: volume_id
  ir_hostnames :: "app_hostname list"
  ir_access :: access_policy
  ir_host_port :: "host_port option"
  ir_http_port :: http_port
  ir_ports :: "record_port list"
  ir_guest_ipv4 :: "ipv4_address option"
  ir_layer_digests :: "sha256_digest list"
  ir_state :: instance_state
  ir_health :: health_tracker
  ir_health_check :: health_check
  ir_resources :: instance_resources
  ir_restart_policy :: restart_policy
  ir_desired_running :: bool
  ir_on_request :: bool
  ir_start_attempts :: attempt_window
  ir_restart_count :: nat
  ir_last_restart :: "reported_restart option"
  ir_stop_requested :: bool
  ir_started_at :: "timestamp option"
  ir_converged_at :: "timestamp option"
  ir_last_exit_code :: "int option"
  ir_message :: "state_message option"

record record_fields =
  rf_app_id :: app_id
  rf_deployment_id :: deployment_id
  rf_volume_id :: volume_id
  rf_hostnames :: "app_hostname list"
  rf_access :: access_policy
  rf_host_port :: "host_port option"
  rf_http_port :: http_port
  rf_ports :: "record_port list"
  rf_guest_ipv4 :: "ipv4_address option"
  rf_layer_digests :: "sha256_digest list"
  rf_health_check :: health_check
  rf_resources :: instance_resources
  rf_restart_policy :: restart_policy
  rf_desired_running :: bool
  rf_on_request :: bool

definition record_new :: "record_fields \<Rightarrow> instance_state \<Rightarrow> health_tracker \<Rightarrow> instance_record" where
  "record_new given state health =
     \<lparr>ir_app_id = rf_app_id given,
      ir_deployment_id = rf_deployment_id given,
      ir_volume_id = rf_volume_id given,
      ir_hostnames = rf_hostnames given,
      ir_access = rf_access given,
      ir_host_port = rf_host_port given,
      ir_http_port = rf_http_port given,
      ir_ports = rf_ports given,
      ir_guest_ipv4 = rf_guest_ipv4 given,
      ir_layer_digests = rf_layer_digests given,
      ir_state = state,
      ir_health = health,
      ir_health_check = rf_health_check given,
      ir_resources = rf_resources given,
      ir_restart_policy = rf_restart_policy given,
      ir_desired_running = rf_desired_running given,
      ir_on_request = rf_on_request given,
      ir_start_attempts = NO_START_ATTEMPTS,
      ir_restart_count = 0,
      ir_last_restart = None,
      ir_stop_requested = False,
      ir_started_at = None,
      ir_converged_at = None,
      ir_last_exit_code = None,
      ir_message = None\<rparr>"

definition adopt :: "record_fields \<Rightarrow> instance_record \<Rightarrow> instance_record" where
  "adopt given r =
     r\<lparr>ir_deployment_id := rf_deployment_id given,
       ir_volume_id := rf_volume_id given,
       ir_hostnames := rf_hostnames given,
       ir_access := rf_access given,
       ir_host_port := rf_host_port given,
       ir_http_port := rf_http_port given,
       ir_ports := rf_ports given,
       ir_guest_ipv4 := rf_guest_ipv4 given,
       ir_layer_digests := rf_layer_digests given,
       ir_health_check := rf_health_check given,
       ir_resources := rf_resources given,
       ir_restart_policy := rf_restart_policy given,
       ir_desired_running := rf_desired_running given,
       ir_on_request := rf_on_request given\<rparr>"

definition record_is_idle :: "instance_record \<Rightarrow> bool" where
  "record_is_idle r \<longleftrightarrow> ir_state r = IsIdle"

definition record_grace_inputs :: "(timestamp \<Rightarrow> int) \<Rightarrow> instance_record \<Rightarrow> int \<Rightarrow> grace_inputs" where
  "record_grace_inputs epoch_ms r now_ms =
     \<lparr>gi_health_check = ir_health_check r,
      gi_started_at_ms = map_option epoch_ms (ir_started_at r),
      gi_now_ms = now_ms\<rparr>"

section \<open>Routes\<close>

record route_target =
  rt_app_id :: app_id
  rt_deployment_id :: deployment_id
  rt_hostnames :: "app_hostname list"
  rt_host_port :: host_port
  rt_access :: access_policy

definition renderable_routes :: "instance_record list \<Rightarrow> route_target list" where
  "renderable_routes records =
     List.map_filter
       (\<lambda>r. case ir_host_port r of
              None \<Rightarrow> None
            | Some port \<Rightarrow>
                Some \<lparr>rt_app_id = ir_app_id r, rt_deployment_id = ir_deployment_id r,
                      rt_hostnames = ir_hostnames r, rt_host_port = port, rt_access = ir_access r\<rparr>)
       (filter (\<lambda>r. ir_hostnames r \<noteq> []) records)"

section \<open>Memory\<close>

definition HOST_BASELINE_MIB :: nat where
  "HOST_BASELINE_MIB = 640"

definition guest_memory_mib :: "nat \<Rightarrow> nat \<Rightarrow> nat" where
  "guest_memory_mib host_memory_mib storage_cache_mib =
     host_memory_mib - storage_cache_mib - HOST_BASELINE_MIB"

definition apps_that_fit :: "nat \<Rightarrow> nat \<Rightarrow> nat" where
  "apps_that_fit room each = (if each = 0 then 0 else min (room div each) u32_max)"

definition apps_up_at_once :: "nat \<Rightarrow> nat \<Rightarrow> nat" where
  "apps_up_at_once guest_memory memory_mib = apps_that_fit guest_memory memory_mib"

definition apps_held_on_disk :: "nat \<Rightarrow> nat \<Rightarrow> nat" where
  "apps_held_on_disk disk_budget_bytes bytes_each = apps_that_fit disk_budget_bytes bytes_each"

definition HOLDS_NOTHING :: "instance_state list" where
  "HOLDS_NOTHING = [IsIdle, IsStopped, IsFailed]"

definition holds_something :: "instance_record \<Rightarrow> bool" where
  "holds_something r \<longleftrightarrow>
     ir_state r \<notin> set HOLDS_NOTHING \<and>
     \<not> (ir_state r = IsPending \<and> ir_start_attempts r = NO_START_ATTEMPTS)"

definition committed_resources :: "instance_record list \<Rightarrow> instance_resources list" where
  "committed_resources records = map ir_resources (filter holds_something records)"

definition committed_memory_mib :: "instance_resources list \<Rightarrow> nat" where
  "committed_memory_mib committed = sum_list (map res_memory_mib committed)"

definition memory_shortfall_mib :: "nat \<Rightarrow> instance_resources list \<Rightarrow> instance_resources \<Rightarrow> nat" where
  "memory_shortfall_mib host_memory_mib committed wanted =
     committed_memory_mib committed + res_memory_mib wanted - host_memory_mib"

definition memory_shortfall_for ::
  "nat \<Rightarrow> instance_record list \<Rightarrow> app_id \<Rightarrow> instance_resources \<Rightarrow> nat option" where
  "memory_shortfall_for guest_memory records app_id wanted =
     (let others = map ir_resources (filter (\<lambda>r. ir_app_id r \<noteq> app_id \<and> holds_something r) records);
          shortfall = memory_shortfall_mib guest_memory others wanted
      in if shortfall > 0 then Some shortfall else None)"

text \<open>The virtual CPUs are summed as \<open>u32\<close>, the memory as \<open>u64\<close>, which no host can fill.\<close>

definition allocatable_capacity ::
  "host_capacity \<Rightarrow> instance_resources list \<Rightarrow> nat \<Rightarrow> host_capacity" where
  "allocatable_capacity capacity committed available_cache_bytes =
     (let used_vcpu = wrap_u32 (sum_list (map res_vcpu_count committed))
      in \<lparr>hc_vcpu_count = hc_vcpu_count capacity - used_vcpu,
          hc_memory_mib = hc_memory_mib capacity - committed_memory_mib committed,
          hc_cache_bytes = min available_cache_bytes (hc_cache_bytes capacity)\<rparr>)"

section \<open>Sleep\<close>

definition SLEEPABLE_STATES :: "instance_state list" where
  "SLEEPABLE_STATES = [IsRunning]"

definition MAX_LIFETIME_DRAIN_MS :: int where
  "MAX_LIFETIME_DRAIN_MS = 30000"

definition MAX_ACTIVITY_AGE_MS :: int where
  "MAX_ACTIVITY_AGE_MS = 15000"

datatype sleep_reason = Quiet | LivedLongEnough

fun sleep_reason_str :: "sleep_reason \<Rightarrow> string" where
  "sleep_reason_str Quiet = ''idle''"
| "sleep_reason_str LivedLongEnough = ''max-lifetime''"

record activity_signals =
  as_last_active_at_ms :: "int option"
  as_measured_at_ms :: "int option"
  as_started_at_ms :: "int option"
  as_requests_open :: nat

definition measured_lately :: "activity_signals \<Rightarrow> int \<Rightarrow> bool" where
  "measured_lately signals now_ms =
     (case as_measured_at_ms signals of
        None \<Rightarrow> False
      | Some measured_at \<Rightarrow> now_ms - measured_at \<le> MAX_ACTIVITY_AGE_MS)"

definition should_sleep ::
  "activation_policy \<Rightarrow> instance_record \<Rightarrow> activity_signals \<Rightarrow> int \<Rightarrow> sleep_reason option" where
  "should_sleep policy r signals now_ms =
     (if \<not> ir_on_request r \<or> \<not> ir_desired_running r \<or> ir_state r \<notin> set SLEEPABLE_STATES then None
      else
        let answering = as_requests_open signals > 0
        in case ap_sleep_when policy of
             Never \<Rightarrow> None
           | TrafficIdle timeout_ms \<Rightarrow>
               if answering \<or> \<not> measured_lately signals now_ms then None
               else (case as_last_active_at_ms signals of
                       None \<Rightarrow> None
                     | Some quiet_since \<Rightarrow>
                         if now_ms - quiet_since \<ge> as_i64 timeout_ms then Some Quiet else None)
           | MaxLifetime ttl_ms \<Rightarrow>
               (case as_started_at_ms signals of
                  None \<Rightarrow> None
                | Some up_since \<Rightarrow>
                    let drain_ms = (if answering then MAX_LIFETIME_DRAIN_MS else 0)
                    in if now_ms - up_since \<ge> as_i64 ttl_ms + drain_ms
                       then Some LivedLongEnough else None))"

section \<open>A record and the document\<close>

lemma adopt_simps [simp]:
  "ir_app_id (adopt given r) = ir_app_id r"
  "ir_state (adopt given r) = ir_state r"
  "ir_health (adopt given r) = ir_health r"
  "ir_start_attempts (adopt given r) = ir_start_attempts r"
  "ir_restart_count (adopt given r) = ir_restart_count r"
  "ir_started_at (adopt given r) = ir_started_at r"
  "ir_converged_at (adopt given r) = ir_converged_at r"
  "ir_stop_requested (adopt given r) = ir_stop_requested r"
  "ir_message (adopt given r) = ir_message r"
  "ir_desired_running (adopt given r) = rf_desired_running given"
  "ir_resources (adopt given r) = rf_resources given"
  "ir_on_request (adopt given r) = rf_on_request given"
  by (simp_all add: adopt_def)

lemma record_new_simps [simp]:
  "ir_app_id (record_new given state health) = rf_app_id given"
  "ir_state (record_new given state health) = state"
  "ir_start_attempts (record_new given state health) = NO_START_ATTEMPTS"
  "ir_resources (record_new given state health) = rf_resources given"
  by (simp_all add: record_new_def)

section \<open>Routes lead to apps that hold a port\<close>

lemma set_renderable_routes:
  "t \<in> set (renderable_routes records) \<longleftrightarrow>
     (\<exists>r \<in> set records. ir_hostnames r \<noteq> [] \<and> ir_host_port r = Some (rt_host_port t) \<and>
        rt_app_id t = ir_app_id r \<and> rt_deployment_id t = ir_deployment_id r \<and>
        rt_hostnames t = ir_hostnames r \<and> rt_access t = ir_access r)"
  by (cases t) (force simp: renderable_routes_def List.map_filter_def split: option.splits)

lemma other_apps_only:
  "\<forall>x \<in> set xs. ir_app_id r \<noteq> ir_app_id x \<Longrightarrow>
     filter (\<lambda>x. ir_app_id x \<noteq> ir_app_id r \<and> P x) xs = filter P xs"
  by (auto intro!: filter_cong)

text \<open>
  The host never admits more memory than it has for guests. When the shortfall check lets an
  app up, then what every other record holds and what the app wants together fit; when it refuses,
  the shortfall it names is exactly how much more memory would have been enough, and never zero.
\<close>

lemma admission_keeps_memory_in_bounds:
  assumes "distinct (map ir_app_id records)"
  shows "(memory_shortfall_for memory records app_id wanted = None \<longleftrightarrow>
            committed_memory_mib (committed_resources (filter (\<lambda>r. ir_app_id r \<noteq> app_id) records)) +
              res_memory_mib wanted \<le> memory) \<and>
         (\<forall>short. memory_shortfall_for memory records app_id wanted = Some short \<longrightarrow>
            0 < short \<and>
            memory_shortfall_for (memory + short) records app_id wanted = None \<and>
            memory_shortfall_for (memory + short - 1) records app_id wanted \<noteq> None) \<and>
         (\<forall>r \<in> set records. ir_app_id r = app_id \<and> ir_resources r = wanted \<and> holds_something r \<longrightarrow>
            (memory_shortfall_for memory records app_id wanted = None \<longleftrightarrow>
             committed_memory_mib (committed_resources records) \<le> memory))"
proof -
  have others: "map ir_resources (filter (\<lambda>r. ir_app_id r \<noteq> app_id \<and> holds_something r) records) =
      committed_resources (filter (\<lambda>r. ir_app_id r \<noteq> app_id) records)"
    by (simp add: committed_resources_def conj_commute)
  have split: "committed_memory_mib (committed_resources records) =
      committed_memory_mib (committed_resources (filter (\<lambda>r. ir_app_id r \<noteq> app_id) records)) +
        res_memory_mib wanted"
    if "r \<in> set records" "ir_app_id r = app_id" "ir_resources r = wanted" "holds_something r" for r
    using assms that
  proof (induction records)
    case (Cons x xs)
    then show ?case
      by (cases "x = r")
         (auto simp: committed_resources_def committed_memory_mib_def image_iff other_apps_only)
  qed simp
  show ?thesis
    using split by (auto simp: memory_shortfall_for_def memory_shortfall_mib_def others Let_def)
qed

definition sample_fields :: record_fields where
  "sample_fields =
     \<lparr>rf_app_id = ''app-a'', rf_deployment_id = ''dep-1'', rf_volume_id = ''vol-1'',
      rf_hostnames = [\<lparr>ah_hostname = ''a.example.com'', ah_kind = PlatformHostname\<rparr>],
      rf_access = PublicAccess, rf_host_port = Some 21000, rf_http_port = 3000, rf_ports = [],
      rf_guest_ipv4 = Some ''10.201.0.2'', rf_layer_digests = [], rf_health_check = BootCompleted,
      rf_resources = \<lparr>res_vcpu_count = 1, res_memory_mib = 256\<rparr>,
      rf_restart_policy = DEFAULT_RESTART_POLICY, rf_desired_running = True, rf_on_request = True\<rparr>"

definition sample_record :: instance_record where
  "sample_record = record_new sample_fields IsRunning initial_tracker"

lemma sample_record_simps [simp]:
  "ir_app_id sample_record = ''app-a''" "ir_state sample_record = IsRunning"
  "ir_on_request sample_record" "ir_desired_running sample_record"
  "ir_resources sample_record = \<lparr>res_vcpu_count = 1, res_memory_mib = 256\<rparr>"
  "ir_hostnames sample_record = [\<lparr>ah_hostname = ''a.example.com'', ah_kind = PlatformHostname\<rparr>]"
  "ir_host_port sample_record = Some 21000"
  by (simp_all add: sample_record_def record_new_def sample_fields_def)

lemma sample_record_holds [simp]: "holds_something sample_record"
  by (simp add: holds_something_def HOLDS_NOTHING_def)

section \<open>When an app is put to sleep\<close>

definition sleep_policy_bounded :: "sleep_policy \<Rightarrow> bool" where
  "sleep_policy_bounded policy =
     (case policy of
        Never \<Rightarrow> True
      | TrafficIdle ms \<Rightarrow> idle_timeout_try_from ms = Inr ms
      | MaxLifetime ms \<Rightarrow> max_lifetime_try_from ms = Inr ms)"

lemma bounded_timeouts:
  "idle_timeout_try_from ms = Inr ms \<Longrightarrow> as_i64 ms = int ms"
  "max_lifetime_try_from ms = Inr ms \<Longrightarrow> as_i64 ms = int ms"
  by (auto simp: idle_timeout_try_from_def max_lifetime_try_from_def MAX_IDLE_TIMEOUT_MS_def
      MAX_MAX_LIFETIME_MS_def split: if_splits)

lemma should_sleep_eligible:
  "should_sleep policy r signals now_ms = Some reason \<Longrightarrow>
     ir_on_request r \<and> ir_desired_running r \<and> ir_state r = IsRunning"
  by (auto simp: should_sleep_def SLEEPABLE_STATES_def split: if_splits)

text \<open>
  The sleep decision, for every policy a document can carry. Only a running on-request app
  that is wanted is ever put down. For quiet, it is put down exactly when no request is open, the
  counters were read in the last fifteen seconds, and the last activity is at least the timeout
  ago: an app the host has lost sight of stays up. For a lifetime, exactly when it has been up
  that long, with thirty seconds more while a request is open and not a moment longer.
\<close>

lemma sleep_decision:
  assumes "sleep_policy_bounded (ap_sleep_when policy)"
  shows "(should_sleep policy r signals now_ms = Some Quiet \<longleftrightarrow>
            ir_on_request r \<and> ir_desired_running r \<and> ir_state r = IsRunning \<and>
            as_requests_open signals = 0 \<and>
            (\<exists>timeout quiet_since measured_at.
               ap_sleep_when policy = TrafficIdle timeout \<and>
               as_last_active_at_ms signals = Some quiet_since \<and>
               as_measured_at_ms signals = Some measured_at \<and>
               now_ms - measured_at \<le> 15000 \<and> int timeout \<le> now_ms - quiet_since)) \<and>
         (should_sleep policy r signals now_ms = Some LivedLongEnough \<longleftrightarrow>
            ir_on_request r \<and> ir_desired_running r \<and> ir_state r = IsRunning \<and>
            (\<exists>ttl up_since.
               ap_sleep_when policy = MaxLifetime ttl \<and> as_started_at_ms signals = Some up_since \<and>
               int ttl + (if as_requests_open signals = 0 then 0 else 30000) \<le> now_ms - up_since))"
  using assms
  by (cases "ap_sleep_when policy")
     (auto simp: should_sleep_def sleep_policy_bounded_def SLEEPABLE_STATES_def measured_lately_def
        MAX_ACTIVITY_AGE_MS_def MAX_LIFETIME_DRAIN_MS_def bounded_timeouts Let_def
        split: option.splits if_splits)

end
