(* ===== verification/Meters.thy ===== *)
theory Meters
  imports Records
begin

text \<open>
  Usage (\<open>crates/nibrunnerd/src/domain/meters.rs\<close> and \<open>domain/usage.rs\<close>): the meters a host
  keeps of the time an app was up, of the bytes that crossed its tap, of the processor time its
  guest says it spent and of the disk it held, and the last readings of its guests. Meters are
  \<open>u64\<close> and wrap; dividing two \<open>u64\<close> as \<open>f64\<close> is a parameter.
\<close>

section \<open>Readings\<close>

record counted =
  ct_packets :: nat
  ct_bytes :: nat

record app_traffic =
  tf_received :: counted
  tf_sent :: counted

record measured_bytes =
  mb_total_bytes :: nat
  mb_used_bytes :: nat

record measured_compute =
  mc_memory_total_bytes :: nat
  mc_memory_used_bytes :: nat
  mc_cpu_total_ticks :: nat
  mc_cpu_busy_ticks :: nat

record guest_reading =
  gr_filesystem :: "measured_bytes option"
  gr_compute :: "measured_compute option"

section \<open>Meters\<close>

definition HOLDS_MEMORY :: "instance_state list" where
  "HOLDS_MEMORY = [IsStarting, IsRunning, IsUnhealthy, IsStopping]"

definition MILLIS_PER_TICK :: nat where
  "MILLIS_PER_TICK = 10"

definition LATE_PASS_ALLOWANCE :: nat where
  "LATE_PASS_ALLOWANCE = 2"

definition wrap_u64 :: "nat \<Rightarrow> nat" where
  "wrap_u64 n = n mod 2 ^ 64"

fun advanced :: "nat option \<Rightarrow> nat \<Rightarrow> nat" where
  "advanced None after = 0"
| "advanced (Some before) after = (if after \<ge> before then after - before else after)"

text \<open>
  The clock is an \<open>i64\<close> of milliseconds since 1970: the saturation of the subtraction is
  outside its range.
\<close>

definition elapsed_since :: "int option \<Rightarrow> int \<Rightarrow> nat \<Rightarrow> nat" where
  "elapsed_since before now_ms interval_ms =
     (case before of
        None \<Rightarrow> 0
      | Some b \<Rightarrow> min (nat (now_ms - b)) (wrap_u64 (interval_ms * LATE_PASS_ALLOWANCE)))"

definition STORES_BYTES :: "volume_state list" where
  "STORES_BYTES = [VolReady, VolDetached]"

definition BYTES_PER_MIB :: nat where
  "BYTES_PER_MIB = 1048576"

definition MILLIS_PER_SECOND :: nat where
  "MILLIS_PER_SECOND = 1000"

definition held_for :: "nat \<Rightarrow> nat \<Rightarrow> nat" where
  "held_for bytes elapsed_ms =
     saturating_mul_u64 (bytes div BYTES_PER_MIB) elapsed_ms div MILLIS_PER_SECOND"

definition provisioned_bytes :: "reported_volume list \<Rightarrow> app_id \<Rightarrow> nat" where
  "provisioned_bytes volumes app_id =
     wrap_u64 (sum_list (map rv_size_bytes
       (filter (\<lambda>v. rv_app_id v = app_id \<and> rv_state v \<in> set STORES_BYTES) volumes)))"

record meter_inputs =
  mi_records :: "(app_id, instance_record) btree"
  mi_traffic_before :: "(app_id, app_traffic) btree"
  mi_traffic_after :: "(app_id, app_traffic) btree"
  mi_volumes :: "reported_volume list"
  mi_volume_usage :: "(app_id, filesystem_usage) btree"
  mi_elapsed_ms :: nat

definition no_usage :: usage_meters where
  "no_usage = \<lparr>um_running_ms = 0, um_idle_ms = 0, um_cpu_ms = 0, um_rx_bytes = 0, um_tx_bytes = 0,
     um_disk_provisioned_mib_seconds = 0, um_disk_used_mib_seconds = 0\<rparr>"

definition metered_time :: "instance_record option \<Rightarrow> nat \<Rightarrow> usage_meters \<Rightarrow> usage_meters" where
  "metered_time found elapsed_ms meter =
     (case found of
        None \<Rightarrow> meter
      | Some r \<Rightarrow>
          if ir_state r \<in> set HOLDS_MEMORY
          then meter\<lparr>um_running_ms := wrap_u64 (um_running_ms meter + elapsed_ms)\<rparr>
          else if record_is_idle r
          then meter\<lparr>um_idle_ms := wrap_u64 (um_idle_ms meter + elapsed_ms)\<rparr>
          else meter)"

definition metered_traffic ::
  "app_traffic option \<Rightarrow> app_traffic option \<Rightarrow> usage_meters \<Rightarrow> usage_meters" where
  "metered_traffic before after meter =
     (case after of
        None \<Rightarrow> meter
      | Some a \<Rightarrow>
          meter\<lparr>um_rx_bytes := wrap_u64 (um_rx_bytes meter +
                  advanced (map_option (ct_bytes \<circ> tf_received) before) (ct_bytes (tf_received a))),
                um_tx_bytes := wrap_u64 (um_tx_bytes meter +
                  advanced (map_option (ct_bytes \<circ> tf_sent) before) (ct_bytes (tf_sent a)))\<rparr>)"

definition metered_disk ::
  "nat \<Rightarrow> filesystem_usage option \<Rightarrow> nat \<Rightarrow> usage_meters \<Rightarrow> usage_meters" where
  "metered_disk provisioned usage elapsed_ms meter =
     (let meter = meter\<lparr>um_disk_provisioned_mib_seconds :=
            wrap_u64 (um_disk_provisioned_mib_seconds meter + held_for provisioned elapsed_ms)\<rparr>
      in case usage of
           None \<Rightarrow> meter
         | Some u \<Rightarrow>
             meter\<lparr>um_disk_used_mib_seconds :=
               wrap_u64 (um_disk_used_mib_seconds meter + held_for (fu_used_bytes u) elapsed_ms)\<rparr>)"

definition meter_of :: "usage_meters option \<Rightarrow> usage_meters" where
  "meter_of found = (case found of Some m \<Rightarrow> m | None \<Rightarrow> no_usage)"

definition metered_apps :: "meter_inputs \<Rightarrow> app_id list" where
  "metered_apps inputs =
     (let stored = map rv_app_id (filter (\<lambda>v. rv_state v \<in> set STORES_BYTES) (mi_volumes inputs))
      in bt_keys (bt_collect (map (\<lambda>a. (a, ())) (bt_keys (mi_records inputs) @ stored))))"

definition metered_after ::
  "(app_id, usage_meters) btree \<Rightarrow> meter_inputs \<Rightarrow> (app_id, usage_meters) btree" where
  "metered_after previous inputs =
     bt_collect (map (\<lambda>app_id.
       let meter = meter_of (map_of previous app_id);
           meter = metered_time (map_of (mi_records inputs) app_id) (mi_elapsed_ms inputs) meter;
           meter = metered_traffic (map_of (mi_traffic_before inputs) app_id)
                     (map_of (mi_traffic_after inputs) app_id) meter;
           meter = metered_disk (provisioned_bytes (mi_volumes inputs) app_id)
                     (map_of (mi_volume_usage inputs) app_id) (mi_elapsed_ms inputs) meter
       in (app_id, meter)) (metered_apps inputs))"

definition cpu_metered_one ::
  "(app_id, measured_compute) btree \<Rightarrow> app_id \<times> guest_reading \<Rightarrow>
     (app_id, usage_meters) btree \<Rightarrow> (app_id, usage_meters) btree" where
  "cpu_metered_one previous_ticks taken metered =
     (case taken of (app_id, reading) \<Rightarrow>
        case gr_compute reading of
          None \<Rightarrow> metered
        | Some measured \<Rightarrow>
            let spent = advanced (map_option mc_cpu_busy_ticks (map_of previous_ticks app_id))
                          (mc_cpu_busy_ticks measured);
                meter = meter_of (map_of metered app_id)
            in bt_insert app_id
                 (meter\<lparr>um_cpu_ms := wrap_u64 (um_cpu_ms meter + wrap_u64 (spent * MILLIS_PER_TICK))\<rparr>)
                 metered)"

definition cpu_metered_after ::
  "(app_id, usage_meters) btree \<Rightarrow> (app_id, measured_compute) btree \<Rightarrow>
     (app_id \<times> guest_reading) list \<Rightarrow> (app_id, usage_meters) btree" where
  "cpu_metered_after previous previous_ticks taken =
     fold (cpu_metered_one previous_ticks) taken previous"

section \<open>The last readings\<close>

definition share_between ::
  "(nat \<Rightarrow> nat \<Rightarrow> real) \<Rightarrow> measured_compute option \<Rightarrow> measured_compute \<Rightarrow> real option" where
  "share_between f64_divide before after =
     (case before of
        None \<Rightarrow> None
      | Some b \<Rightarrow>
          if mc_cpu_total_ticks after < mc_cpu_total_ticks b then None
          else if mc_cpu_busy_ticks after < mc_cpu_busy_ticks b then None
          else
            let total = mc_cpu_total_ticks after - mc_cpu_total_ticks b;
                busy = mc_cpu_busy_ticks after - mc_cpu_busy_ticks b
            in if total = 0 then None else Some (min (f64_divide busy total) 1))"

definition as_compute_usage ::
  "(nat \<Rightarrow> nat \<Rightarrow> real) \<Rightarrow> measured_compute \<Rightarrow> measured_compute option \<Rightarrow> timestamp \<Rightarrow> compute_usage" where
  "as_compute_usage f64_divide measured before moment =
     \<lparr>cu_memory_total_bytes = mc_memory_total_bytes measured,
      cu_memory_used_bytes = mc_memory_used_bytes measured,
      cu_cpu_share = share_between f64_divide before measured,
      cu_measured_at = moment\<rparr>"

definition volume_usage_after ::
  "(app_id \<times> guest_reading) list \<Rightarrow> (app_id, filesystem_usage) btree \<Rightarrow> timestamp \<Rightarrow>
     (app_id, filesystem_usage) btree" where
  "volume_usage_after taken previous moment =
     bt_collect (List.map_filter (\<lambda>(app_id, reading).
       case gr_filesystem reading of
         Some measured \<Rightarrow>
           Some (app_id, \<lparr>fu_total_bytes = mb_total_bytes measured,
                          fu_used_bytes = mb_used_bytes measured, fu_measured_at = moment\<rparr>)
       | None \<Rightarrow> map_option (\<lambda>kept. (app_id, kept)) (map_of previous app_id)) taken)"

record compute_after =
  ca_usage :: "(app_id, compute_usage) btree"
  ca_ticks :: "(app_id, measured_compute) btree"

definition compute_usage_one ::
  "(nat \<Rightarrow> nat \<Rightarrow> real) \<Rightarrow> (app_id, instance_record) btree \<Rightarrow> (app_id, compute_usage) btree \<Rightarrow>
     (app_id, measured_compute) btree \<Rightarrow> timestamp \<Rightarrow> app_id \<times> guest_reading \<Rightarrow> compute_after \<Rightarrow> compute_after" where
  "compute_usage_one f64_divide records previous_usage previous_ticks moment taken acc =
     (case taken of (app_id, reading) \<Rightarrow>
        if (case map_of records app_id of Some r \<Rightarrow> record_is_idle r | None \<Rightarrow> False) then acc
        else
          let before = map_of previous_ticks app_id
          in case gr_compute reading of
               Some measured \<Rightarrow>
                 \<lparr>ca_usage = bt_insert app_id (as_compute_usage f64_divide measured before moment) (ca_usage acc),
                  ca_ticks = bt_insert app_id measured (ca_ticks acc)\<rparr>
             | None \<Rightarrow>
                 \<lparr>ca_usage = (case map_of previous_usage app_id of
                                Some kept \<Rightarrow> bt_insert app_id kept (ca_usage acc)
                              | None \<Rightarrow> ca_usage acc),
                  ca_ticks = (case before of
                                Some b \<Rightarrow> bt_insert app_id b (ca_ticks acc)
                              | None \<Rightarrow> ca_ticks acc)\<rparr>)"

definition compute_usage_after ::
  "(nat \<Rightarrow> nat \<Rightarrow> real) \<Rightarrow> (app_id \<times> guest_reading) list \<Rightarrow> (app_id, instance_record) btree \<Rightarrow>
     (app_id, compute_usage) btree \<Rightarrow> (app_id, measured_compute) btree \<Rightarrow> timestamp \<Rightarrow> compute_after" where
  "compute_usage_after f64_divide taken records previous_usage previous_ticks moment =
     fold (compute_usage_one f64_divide records previous_usage previous_ticks moment) taken
       \<lparr>ca_usage = [], ca_ticks = []\<rparr>"

section \<open>What the meters count\<close>

lemma wrap_u64_small [simp]: "n < 2 ^ 64 \<Longrightarrow> wrap_u64 n = n"
  by (simp add: wrap_u64_def)

lemma map_of_pairs: "map_of (map (\<lambda>a. (a, f a)) xs) k = (if k \<in> set xs then Some (f k) else None)"
  by (induction xs) auto

lemma map_of_collect_pairs:
  "map_of (bt_collect (map (\<lambda>a. (a, f a)) xs)) k = (if k \<in> set xs then Some (f k) else None)"
  by (simp add: rev_map map_of_pairs)

lemma set_metered_apps:
  "set (metered_apps inputs) =
     fst ` set (mi_records inputs) \<union>
     rv_app_id ` {v \<in> set (mi_volumes inputs). rv_state v \<in> set STORES_BYTES}"
proof -
  have "fst ` set (bt_collect kvs) = fst ` set kvs" for kvs :: "(app_id \<times> unit) list"
    using dom_map_of_conv_image_fst [of "bt_collect kvs"] dom_map_of_conv_image_fst [of "rev kvs"] by simp
  then show ?thesis
    by (simp add: metered_apps_def bt_keys_def Let_def image_Un image_comp comp_def)
qed

definition metered_passes ::
  "meter_inputs list \<Rightarrow> (app_id, usage_meters) btree \<Rightarrow> (app_id, usage_meters) btree" where
  "metered_passes passes previous = fold (\<lambda>inputs m. metered_after m inputs) passes previous"

lemma meter_fields [simp]:
  "um_running_ms (metered_traffic b a m) = um_running_ms m"
  "um_idle_ms (metered_traffic b a m) = um_idle_ms m"
  "um_running_ms (metered_disk p u e m) = um_running_ms m"
  "um_idle_ms (metered_disk p u e m) = um_idle_ms m"
  "um_rx_bytes (metered_time r e m) = um_rx_bytes m"
  "um_tx_bytes (metered_time r e m) = um_tx_bytes m"
  "um_rx_bytes (metered_disk p u e m) = um_rx_bytes m"
  "um_tx_bytes (metered_disk p u e m) = um_tx_bytes m"
  "um_cpu_ms (metered_disk p u e (metered_traffic b a (metered_time r e m))) = um_cpu_ms m"
  by (simp_all add: metered_traffic_def metered_disk_def metered_time_def Let_def split: option.splits)

lemma metered_after_app:
  assumes "app_id \<in> set (metered_apps inputs)"
  shows "map_of (metered_after previous inputs) app_id =
    Some (metered_disk (provisioned_bytes (mi_volumes inputs) app_id)
       (map_of (mi_volume_usage inputs) app_id) (mi_elapsed_ms inputs)
       (metered_traffic (map_of (mi_traffic_before inputs) app_id) (map_of (mi_traffic_after inputs) app_id)
         (metered_time (map_of (mi_records inputs) app_id) (mi_elapsed_ms inputs)
           (meter_of (map_of previous app_id)))))"
  using assms unfolding metered_after_def Let_def by (subst map_of_collect_pairs) simp

lemma metered_passes_snoc:
  "metered_passes (passes @ [inputs]) previous = metered_after (metered_passes passes previous) inputs"
  by (simp add: metered_passes_def)

text \<open>The bytes a chain of readings \<open>reading 0, reading 1, \<dots>\<close> saw arrive at an app.\<close>

definition seen_by :: "app_id \<Rightarrow> (nat \<Rightarrow> app_traffic) \<Rightarrow> meter_inputs list \<Rightarrow> bool" where
  "seen_by app_id reading passes \<longleftrightarrow>
     (\<forall>i < length passes.
        app_id \<in> set (metered_apps (passes ! i)) \<and>
        map_of (mi_traffic_before (passes ! i)) app_id = Some (reading i) \<and>
        map_of (mi_traffic_after (passes ! i)) app_id = Some (reading (Suc i)))"

lemma seen_by_snoc:
  "seen_by app_id reading (passes @ [inputs]) \<longleftrightarrow>
     seen_by app_id reading passes \<and> app_id \<in> set (metered_apps inputs) \<and>
     map_of (mi_traffic_before inputs) app_id = Some (reading (length passes)) \<and>
     map_of (mi_traffic_after inputs) app_id = Some (reading (Suc (length passes)))"
  by (auto simp: seen_by_def nth_append less_Suc_eq)

text \<open>
  Traffic is metered once. Over any number of passes, each taking up the reading the last one
  left, a counter that only grew adds exactly its growth to the meter: nothing is counted twice,
  nothing is lost, and what it held before the host first read it is never billed.
\<close>

lemma traffic_is_metered_once:
  assumes "seen_by app_id reading passes" and "passes \<noteq> []"
    and "\<And>i. i < length passes \<Longrightarrow>
           ct_bytes (tf_received (reading i)) \<le> ct_bytes (tf_received (reading (Suc i)))"
    and "um_rx_bytes (meter_of (map_of previous app_id)) +
           ct_bytes (tf_received (reading (length passes))) < 2 ^ 64"
  shows "\<exists>meter. map_of (metered_passes passes previous) app_id = Some meter \<and>
           um_rx_bytes meter + ct_bytes (tf_received (reading 0)) =
             um_rx_bytes (meter_of (map_of previous app_id)) +
             ct_bytes (tf_received (reading (length passes)))"
proof -
  let ?c = "\<lambda>i. ct_bytes (tf_received (reading i))"
  have "um_rx_bytes (meter_of (map_of (metered_passes passes previous) app_id)) + ?c 0 =
      um_rx_bytes (meter_of (map_of previous app_id)) + ?c (length passes) \<and> ?c 0 \<le> ?c (length passes)"
    using assms(1,3,4)
  proof (induction passes rule: rev_induct)
    case Nil
    then show ?case by (simp add: metered_passes_def)
  next
    case (snoc inputs passes)
    let ?m = "meter_of (map_of (metered_passes passes previous) app_id)"
    have grown: "?c (length passes) \<le> ?c (Suc (length passes))"
      using snoc.prems(2) [of "length passes"] by simp
    have "um_rx_bytes (meter_of (map_of previous app_id)) + ?c (length passes) < 2 ^ 64"
      using grown snoc.prems(3) by simp
    then have IH: "um_rx_bytes ?m + ?c 0 = um_rx_bytes (meter_of (map_of previous app_id)) + ?c (length passes)"
      "?c 0 \<le> ?c (length passes)"
      using snoc.IH snoc.prems(1,2) by (simp_all add: seen_by_snoc)
    have "map_of (metered_passes (passes @ [inputs]) previous) app_id \<noteq> None"
      and rx: "um_rx_bytes (meter_of (map_of (metered_passes (passes @ [inputs]) previous) app_id)) =
        wrap_u64 (um_rx_bytes ?m + (?c (Suc (length passes)) - ?c (length passes)))"
      using snoc.prems(1) grown
      by (simp_all add: metered_passes_snoc metered_after_app seen_by_snoc meter_of_def)
         (simp add: metered_traffic_def)
    have "um_rx_bytes ?m + (?c (Suc (length passes)) - ?c (length passes)) < 2 ^ 64"
      using IH grown snoc.prems(3) by simp
    with rx IH grown show ?case by simp
  qed
  moreover have "map_of (metered_passes passes previous) app_id \<noteq> None"
    using assms(1,2) by (cases passes rule: rev_cases)
      (simp_all add: metered_passes_snoc metered_after_app seen_by_snoc)
  ultimately show ?thesis by (auto simp: meter_of_def)
qed

definition traffic_reading :: "nat \<Rightarrow> app_traffic" where
  "traffic_reading n = \<lparr>tf_received = \<lparr>ct_packets = n, ct_bytes = 1000 + 10 * n\<rparr>,
     tf_sent = \<lparr>ct_packets = 0, ct_bytes = 0\<rparr>\<rparr>"

definition sample_pass :: "nat \<Rightarrow> meter_inputs" where
  "sample_pass n = \<lparr>mi_records = [(''app-a'', sample_record)],
     mi_traffic_before = [(''app-a'', traffic_reading n)],
     mi_traffic_after = [(''app-a'', traffic_reading (Suc n))],
     mi_volumes = [], mi_volume_usage = [], mi_elapsed_ms = 5000\<rparr>"

lemma sample_passes_seen: "seen_by ''app-a'' traffic_reading (map sample_pass [0..<n])"
  by (simp add: seen_by_def sample_pass_def set_metered_apps)

definition billed :: "(instance_record \<Rightarrow> bool) \<Rightarrow> app_id \<Rightarrow> meter_inputs list \<Rightarrow> nat" where
  "billed P app_id passes =
     sum_list (map mi_elapsed_ms
       (filter (\<lambda>i. case map_of (mi_records i) app_id of Some r \<Rightarrow> P r | None \<Rightarrow> False) passes))"

lemma billed_snoc:
  "billed P app_id (passes @ [inputs]) = billed P app_id passes +
     (case map_of (mi_records inputs) app_id of
        Some r \<Rightarrow> if P r then mi_elapsed_ms inputs else 0 | None \<Rightarrow> 0)"
  by (simp add: billed_def split: option.splits)

text \<open>
  Time is billed for what the host watched. Over any number of passes, an app the host keeps a
  meter of is billed as running for exactly the passes that found it with a microVM and as idle for
  exactly those that found it asleep.
\<close>

lemma time_is_billed_by_state:
  assumes "\<And>inputs. inputs \<in> set passes \<Longrightarrow> app_id \<in> set (metered_apps inputs)"
    and "um_running_ms (meter_of (map_of previous app_id)) +
           billed (\<lambda>r. ir_state r \<in> set HOLDS_MEMORY) app_id passes < 2 ^ 64"
    and "um_idle_ms (meter_of (map_of previous app_id)) + billed record_is_idle app_id passes < 2 ^ 64"
  shows "um_running_ms (meter_of (map_of (metered_passes passes previous) app_id)) =
           um_running_ms (meter_of (map_of previous app_id)) +
           billed (\<lambda>r. ir_state r \<in> set HOLDS_MEMORY) app_id passes \<and>
         um_idle_ms (meter_of (map_of (metered_passes passes previous) app_id)) =
           um_idle_ms (meter_of (map_of previous app_id)) + billed record_is_idle app_id passes"
  using assms
proof (induction passes rule: rev_induct)
  case Nil
  then show ?case by (simp add: metered_passes_def billed_def)
next
  case (snoc inputs passes)
  have one: "app_id \<in> set (metered_apps inputs)" using snoc.prems(1) by simp
  have IH: "um_running_ms (meter_of (map_of (metered_passes passes previous) app_id)) =
           um_running_ms (meter_of (map_of previous app_id)) +
           billed (\<lambda>r. ir_state r \<in> set HOLDS_MEMORY) app_id passes"
      "um_idle_ms (meter_of (map_of (metered_passes passes previous) app_id)) =
           um_idle_ms (meter_of (map_of previous app_id)) + billed record_is_idle app_id passes"
    using snoc.IH snoc.prems by (auto simp: billed_snoc split: option.splits)
  have apart: "\<not> record_is_idle r" if "ir_state r \<in> set HOLDS_MEMORY" for r
    using that by (auto simp: record_is_idle_def HOLDS_MEMORY_def)
  show ?case
    using snoc.prems(2,3) IH apart
    by (auto simp: metered_passes_snoc metered_after_app [OF one] meter_of_def [of "Some _"]
        metered_time_def billed_snoc split: option.splits)
qed

text \<open>
  A late pass bills at most twice its interval, and a clock that went back bills nothing.
\<close>

lemma late_passes_are_bounded:
  assumes "interval_ms < 2 ^ 63"
  shows "elapsed_since before now_ms interval_ms \<le> 2 * interval_ms \<and>
         (case before of
            None \<Rightarrow> elapsed_since before now_ms interval_ms = 0
          | Some b \<Rightarrow>
              elapsed_since before now_ms interval_ms =
                (if now_ms < b then 0 else min (nat (now_ms - b)) (2 * interval_ms)))"
proof -
  have "wrap_u64 (interval_ms * LATE_PASS_ALLOWANCE) = 2 * interval_ms"
    using assms by (simp add: wrap_u64_def LATE_PASS_ALLOWANCE_def)
  then show ?thesis
    by (auto simp: elapsed_since_def split: option.splits)
qed

end
