(* ===== verification/Plan.thy ===== *)
theory Plan
  imports Domain
begin

text \<open>
  The plan of a pass (\<open>crates/nibrunnerd/src/domain/reconcile/plan.rs\<close>): a pure function of the
  document and of what the host observes of itself, that says for every app, volume, checkpoint
  and export what the pass will do.
\<close>

section \<open>What is observed and what is planned\<close>

record observed_instance =
  oi_app_id :: app_id
  oi_volume_id :: "volume_id option"
  oi_deployment_id :: "deployment_id option"
  oi_present :: bool
  oi_running :: bool
  oi_exited :: bool
  oi_refused :: bool

record observed_volume =
  ov_volume_id :: volume_id
  ov_app_id :: app_id
  ov_attached :: bool
  ov_formatted :: bool
  ov_size_bytes :: nat
  ov_storage_prefix :: object_key
  ov_device_path :: "string option"

record observed_checkpoint =
  oc_checkpoint_id :: checkpoint_id
  oc_volume_id :: volume_id

record observed_export =
  oe_export_id :: export_id
  oe_written :: bool

record observed_state =
  os_instances :: "observed_instance list"
  os_volumes :: "observed_volume list"
  os_checkpoints :: "observed_checkpoint list"
  os_exports :: "observed_export list"

datatype instance_stop_reason =
  ReasonDesiredStopped | ReasonNotDesired | ReasonSuperseded | ReasonIdle | ReasonVolumeLost

fun stop_reason_str :: "instance_stop_reason \<Rightarrow> string" where
  "stop_reason_str ReasonDesiredStopped = ''desired-stopped''"
| "stop_reason_str ReasonNotDesired = ''not-desired''"
| "stop_reason_str ReasonSuperseded = ''superseded''"
| "stop_reason_str ReasonIdle = ''idle''"
| "stop_reason_str ReasonVolumeLost = ''volume-lost''"

datatype instance_plan =
    PlanStart desired_instance
  | PlanReplace desired_instance
  | PlanRecover desired_instance
  | PlanSleep desired_instance
  | PlanHold desired_instance
  | PlanStop app_id instance_stop_reason
  | PlanForget app_id
  | PlanNone app_id

datatype volume_plan =
    Provision desired_volume
  | Teardown desired_volume
  | Blocked desired_volume "app_id list"
  | Detach volume_id app_id
  | VolumeNone volume_id

datatype checkpoint_plan =
    CheckpointCreate desired_checkpoint
  | CheckpointDelete desired_checkpoint
  | CheckpointNone checkpoint_id

datatype export_plan =
    ExportWrite desired_export
  | ExportForget export_id
  | ExportNone export_id

record reconcile_plan =
  pl_instances :: "instance_plan list"
  pl_volumes :: "volume_plan list"
  pl_checkpoints :: "checkpoint_plan list"
  pl_exports :: "export_plan list"

definition has_deferred_work :: "reconcile_plan \<Rightarrow> bool" where
  "has_deferred_work plan =
     list_ex (\<lambda>action. case action of Blocked _ _ \<Rightarrow> True | _ \<Rightarrow> False) (pl_volumes plan)"

section \<open>Planning\<close>

definition plan_instance ::
  "desired_instance \<Rightarrow> observed_instance option \<Rightarrow> bool \<Rightarrow> instance_plan" where
  "plan_instance wanted current volume_lost =
     (let present = (case current of
                       Some c \<Rightarrow> if oi_present c then Some c else None
                     | None \<Rightarrow> None)
      in if di_desired_state wanted = DesiredStopped then
           (case present of
              None \<Rightarrow> PlanHold wanted
            | Some c \<Rightarrow>
                if oi_running c then PlanStop (di_app_id wanted) ReasonDesiredStopped
                else if oi_refused c then PlanHold wanted
                else PlanNone (di_app_id wanted))
         else if di_desired_state wanted = DesiredOnRequest then
           (case present of
              None \<Rightarrow> PlanStart wanted
            | Some c \<Rightarrow>
                if oi_deployment_id c \<noteq> Some (di_deployment_id wanted) then PlanReplace wanted
                else if oi_running c
                then (if volume_lost then PlanRecover wanted else PlanNone (di_app_id wanted))
                else if oi_refused c then PlanStart wanted
                else PlanSleep wanted)
         else
           (case present of
              None \<Rightarrow> PlanStart wanted
            | Some c \<Rightarrow>
                if oi_deployment_id c \<noteq> Some (di_deployment_id wanted) then PlanReplace wanted
                else if oi_running c
                then (if volume_lost then PlanRecover wanted else PlanNone (di_app_id wanted))
                else if oi_exited c \<and> volume_lost then PlanRecover wanted
                else PlanStart wanted))"

definition observed_instance_by_id :: "observed_state \<Rightarrow> (app_id, observed_instance) btree" where
  "observed_instance_by_id observed = bt_collect (map (\<lambda>i. (oi_app_id i, i)) (os_instances observed))"

definition plan_unnamed :: "observed_instance \<Rightarrow> instance_plan" where
  "plan_unnamed current =
     (if oi_running current then PlanStop (oi_app_id current) ReasonNotDesired
      else PlanForget (oi_app_id current))"

definition lost_volumes :: "observed_state \<Rightarrow> volume_id set" where
  "lost_volumes observed = set (map ov_volume_id (filter (\<lambda>v. \<not> ov_attached v) (os_volumes observed)))"

definition plan_instances :: "host_desired_state \<Rightarrow> observed_state \<Rightarrow> instance_plan list" where
  "plan_instances desired observed =
     (let observed_by_id = observed_instance_by_id observed;
          lost = lost_volumes observed;
          desired_ids = set (map di_app_id (hd_instances desired))
      in map (\<lambda>wanted. plan_instance wanted (map_of observed_by_id (di_app_id wanted))
                         (di_volume_id wanted \<in> lost)) (hd_instances desired) @
         map plan_unnamed
           (filter (\<lambda>current. oi_app_id current \<notin> desired_ids) (os_instances observed)))"

definition volume_used_by :: "observed_state \<Rightarrow> volume_id \<Rightarrow> app_id list" where
  "volume_used_by observed volume_id =
     map oi_app_id
       (filter (\<lambda>i. oi_present i \<and> oi_volume_id i = Some volume_id) (os_instances observed))"

definition plan_volume ::
  "observed_volume option \<Rightarrow> app_id list \<Rightarrow> desired_volume \<Rightarrow> volume_plan" where
  "plan_volume current holders wanted =
     (if dv_desired_state wanted = Absent then
        (if holders \<noteq> [] then Blocked wanted holders
         else case current of
                Some _ \<Rightarrow> Teardown wanted
              | None \<Rightarrow> VolumeNone (dv_volume_id wanted))
      else case current of
             Some volume \<Rightarrow>
               if ov_attached volume \<and> ov_formatted volume \<and> ov_size_bytes volume \<ge> dv_size_bytes wanted
               then VolumeNone (dv_volume_id wanted) else Provision wanted
           | None \<Rightarrow> Provision wanted)"

definition plan_volumes :: "host_desired_state \<Rightarrow> observed_state \<Rightarrow> volume_plan list" where
  "plan_volumes desired observed =
     (let observed_by_id = bt_collect (map (\<lambda>v. (ov_volume_id v, v)) (os_volumes observed));
          wanted_apps = set (map di_app_id (hd_instances desired));
          kept_for = set (List.map_filter oi_volume_id
            (filter (\<lambda>i. oi_running i \<or> oi_app_id i \<in> wanted_apps) (os_instances observed)));
          desired_ids = set (map dv_volume_id (hd_volumes desired))
      in map (\<lambda>wanted. plan_volume (map_of observed_by_id (dv_volume_id wanted))
                         (volume_used_by observed (dv_volume_id wanted)) wanted) (hd_volumes desired) @
         map (\<lambda>current. Detach (ov_volume_id current) (ov_app_id current))
           (filter (\<lambda>current. ov_attached current \<and> ov_volume_id current \<notin> desired_ids \<and>
                      ov_volume_id current \<notin> kept_for) (os_volumes observed)))"

definition plan_exports :: "host_desired_state \<Rightarrow> observed_state \<Rightarrow> export_plan list" where
  "plan_exports desired observed =
     (let written_ids = set (map oe_export_id (filter oe_written (os_exports observed)));
          desired_ids = set (map de_export_id (hd_exports desired))
      in map (\<lambda>wanted.
                if de_desired_state wanted = Absent then ExportForget (de_export_id wanted)
                else if de_export_id wanted \<in> written_ids then ExportNone (de_export_id wanted)
                else ExportWrite wanted) (hd_exports desired) @
         map (\<lambda>current. ExportForget (oe_export_id current))
           (filter (\<lambda>current. oe_export_id current \<notin> desired_ids) (os_exports observed)))"

definition plan_checkpoints :: "host_desired_state \<Rightarrow> observed_state \<Rightarrow> checkpoint_plan list" where
  "plan_checkpoints desired observed =
     (let observed_ids = set (map oc_checkpoint_id (os_checkpoints observed))
      in map (\<lambda>wanted.
           case (dc_desired_state wanted, dc_checkpoint_id wanted \<in> observed_ids) of
             (Present, True) \<Rightarrow> CheckpointNone (dc_checkpoint_id wanted)
           | (Present, False) \<Rightarrow> CheckpointCreate wanted
           | (Absent, True) \<Rightarrow> CheckpointDelete wanted
           | (Absent, False) \<Rightarrow> CheckpointNone (dc_checkpoint_id wanted)) (hd_checkpoints desired))"

definition plan_reconcile :: "host_desired_state \<Rightarrow> observed_state \<Rightarrow> reconcile_plan" where
  "plan_reconcile desired observed =
     \<lparr>pl_instances = plan_instances desired observed,
      pl_volumes = plan_volumes desired observed,
      pl_checkpoints = plan_checkpoints desired observed,
      pl_exports = plan_exports desired observed\<rparr>"

section \<open>Who a plan is about\<close>

fun plan_app :: "instance_plan \<Rightarrow> app_id" where
  "plan_app (PlanStart d) = di_app_id d"
| "plan_app (PlanReplace d) = di_app_id d"
| "plan_app (PlanRecover d) = di_app_id d"
| "plan_app (PlanSleep d) = di_app_id d"
| "plan_app (PlanHold d) = di_app_id d"
| "plan_app (PlanStop a r) = a"
| "plan_app (PlanForget a) = a"
| "plan_app (PlanNone a) = a"

lemma plan_app_plan_instance [simp]: "plan_app (plan_instance wanted current lost) = di_app_id wanted"
  by (simp add: plan_instance_def Let_def split: option.splits)

lemma plan_app_plan_unnamed [simp]: "plan_app (plan_unnamed current) = oi_app_id current"
  by (simp add: plan_unnamed_def)

lemma map_of_rev_pairs:
  "distinct (map f xs) \<Longrightarrow> x \<in> set xs \<Longrightarrow> map_of (rev (map (\<lambda>i. (f i, i)) xs)) (f x) = Some x"
  by (rule map_of_is_SomeI) (simp_all add: comp_def flip: rev_map)

lemma observed_by_id:
  "distinct (map oi_app_id (os_instances observed)) \<Longrightarrow> c \<in> set (os_instances observed) \<Longrightarrow>
     map_of (observed_instance_by_id observed) (oi_app_id c) = Some c"
  by (simp add: observed_instance_by_id_def map_of_rev_pairs)

lemma observed_by_id_Some:
  "map_of (observed_instance_by_id observed) a = Some c \<Longrightarrow>
     c \<in> set (os_instances observed) \<and> oi_app_id c = a"
  by (auto simp: observed_instance_by_id_def dest: map_of_SomeD)

lemma plan_instances_cases:
  assumes "p \<in> set (plan_instances desired observed)"
  obtains (named) wanted where "wanted \<in> set (hd_instances desired)"
      "p = plan_instance wanted (map_of (observed_instance_by_id observed) (di_app_id wanted))
             (di_volume_id wanted \<in> lost_volumes observed)"
    | (unnamed) current where "current \<in> set (os_instances observed)"
      "oi_app_id current \<notin> di_app_id ` set (hd_instances desired)" "p = plan_unnamed current"
  using assms that by (auto simp: plan_instances_def Let_def)

lemma plan_apps_distinct:
  assumes "distinct (map di_app_id (hd_instances desired))"
    and "distinct (map oi_app_id (os_instances observed))"
  shows "distinct (map plan_app (plan_instances desired observed))"
proof -
  have "distinct (map oi_app_id (filter P (os_instances observed)))" for P
    using assms(2) by (rule distinct_map_filter)
  with assms(1) show ?thesis
    by (auto simp: plan_instances_def Let_def comp_def intro: rev_image_eqI)
qed

lemma plan_apps_eq:
  "plan_app ` set (plan_instances desired observed) =
     di_app_id ` set (hd_instances desired) \<union> oi_app_id ` set (os_instances observed)"
  by (auto simp: plan_instances_def Let_def image_Un image_comp comp_def)

definition sample_document :: host_desired_state where
  "sample_document = \<lparr>hd_host_id = ''host-1'', hd_revision = ''r1'', hd_volumes = [],
     hd_instances = [sample_instance], hd_checkpoints = [], hd_exports = []\<rparr>"

definition sample_observed :: observed_state where
  "sample_observed = \<lparr>os_instances =
       [\<lparr>oi_app_id = ''app-1'', oi_volume_id = Some ''vol-1'', oi_deployment_id = Some ''dep-0'',
         oi_present = True, oi_running = True, oi_exited = False, oi_refused = False\<rparr>,
        \<lparr>oi_app_id = ''app-2'', oi_volume_id = Some ''vol-2'', oi_deployment_id = Some ''dep-9'',
         oi_present = True, oi_running = True, oi_exited = False, oi_refused = False\<rparr>],
     os_volumes = [\<lparr>ov_volume_id = ''vol-2'', ov_app_id = ''app-2'', ov_attached = True,
       ov_formatted = True, ov_size_bytes = 1, ov_storage_prefix = ''p'', ov_device_path = None\<rparr>],
     os_checkpoints = [], os_exports = []\<rparr>"

text \<open>
  The plan covers the host. For a document and a host that name each app once, there is one
  plan for every app that either of them names, and no other.
\<close>

lemma every_app_gets_one_plan:
  assumes "distinct (map di_app_id (hd_instances desired))"
    and "distinct (map oi_app_id (os_instances observed))"
  shows "distinct (map plan_app (plan_instances desired observed)) \<and>
         plan_app ` set (plan_instances desired observed) =
           di_app_id ` set (hd_instances desired) \<union> oi_app_id ` set (os_instances observed)"
  using assms by (simp add: plan_apps_distinct plan_apps_eq)

section \<open>What a plan may take down\<close>



text \<open>
  (C21) Volumes are safe from a pass. Data is deleted only when the document says the volume is to be
  absent, the host has it, and no instance on the host still holds it; while one does, the plan is
  blocked on exactly those apps and the pass is marked as unfinished. A device is taken down with
  its data kept only when the document names the volume no more, and neither a running guest nor an
  app the document still names is on it.
\<close>

theorem volumes_are_deleted_only_on_request:
  "(Teardown wanted \<in> set (plan_volumes desired observed) \<longrightarrow>
      wanted \<in> set (hd_volumes desired) \<and> dv_desired_state wanted = Absent \<and>
      (\<exists>v \<in> set (os_volumes observed). ov_volume_id v = dv_volume_id wanted) \<and>
      (\<forall>i \<in> set (os_instances observed). oi_present i \<longrightarrow> oi_volume_id i \<noteq> Some (dv_volume_id wanted))) \<and>
   (Blocked wanted holders \<in> set (plan_volumes desired observed) \<longrightarrow>
      wanted \<in> set (hd_volumes desired) \<and> dv_desired_state wanted = Absent \<and> holders \<noteq> [] \<and>
      set holders = oi_app_id ` {i \<in> set (os_instances observed).
        oi_present i \<and> oi_volume_id i = Some (dv_volume_id wanted)} \<and>
      has_deferred_work (plan_reconcile desired observed)) \<and>
   (Detach volume_id app_id \<in> set (plan_volumes desired observed) \<longrightarrow>
      volume_id \<notin> dv_volume_id ` set (hd_volumes desired) \<and>
      (\<exists>v \<in> set (os_volumes observed). ov_volume_id v = volume_id \<and> ov_app_id v = app_id \<and> ov_attached v) \<and>
      (\<forall>i \<in> set (os_instances observed). oi_volume_id i = Some volume_id \<longrightarrow>
         \<not> oi_running i \<and> oi_app_id i \<notin> di_app_id ` set (hd_instances desired)))"
proof (intro conjI impI)
  assume "Teardown wanted \<in> set (plan_volumes desired observed)"
  then have "wanted \<in> set (hd_volumes desired)" and absent: "dv_desired_state wanted = Absent"
    and holders: "volume_used_by observed (dv_volume_id wanted) = []"
    and "map_of (rev (map (\<lambda>v. (ov_volume_id v, v)) (os_volumes observed))) (dv_volume_id wanted) \<noteq> None"
    by (auto simp: plan_volumes_def plan_volume_def Let_def split: option.splits if_splits)
  then show "wanted \<in> set (hd_volumes desired)" "dv_desired_state wanted = Absent"
    "\<exists>v \<in> set (os_volumes observed). ov_volume_id v = dv_volume_id wanted"
    "\<forall>i \<in> set (os_instances observed). oi_present i \<longrightarrow> oi_volume_id i \<noteq> Some (dv_volume_id wanted)"
    by (auto simp: volume_used_by_def filter_empty_conv dest!: map_of_SomeD) (metis (full_types))
next
  assume blocked: "Blocked wanted holders \<in> set (plan_volumes desired observed)"
  then have "wanted \<in> set (hd_volumes desired)" "dv_desired_state wanted = Absent" "holders \<noteq> []"
    "holders = volume_used_by observed (dv_volume_id wanted)"
    by (auto simp: plan_volumes_def plan_volume_def Let_def split: option.splits if_splits)
  then show "wanted \<in> set (hd_volumes desired)" "dv_desired_state wanted = Absent" "holders \<noteq> []"
    "set holders = oi_app_id ` {i \<in> set (os_instances observed).
      oi_present i \<and> oi_volume_id i = Some (dv_volume_id wanted)}"
    by (auto simp: volume_used_by_def)
  show "has_deferred_work (plan_reconcile desired observed)"
    using blocked by (force simp: has_deferred_work_def plan_reconcile_def list_ex_iff)
next
  assume "Detach volume_id app_id \<in> set (plan_volumes desired observed)"
  then show "volume_id \<notin> dv_volume_id ` set (hd_volumes desired)"
    "\<exists>v \<in> set (os_volumes observed). ov_volume_id v = volume_id \<and> ov_app_id v = app_id \<and> ov_attached v"
    "\<forall>i \<in> set (os_instances observed). oi_volume_id i = Some volume_id \<longrightarrow>
       \<not> oi_running i \<and> oi_app_id i \<notin> di_app_id ` set (hd_instances desired)"
    by (auto simp: plan_volumes_def plan_volume_def Let_def List.map_filter_def image_iff
        split: option.splits if_splits)
qed

theorem volumes_are_deleted_only_on_request_witness:
  "\<not> (\<exists>app_id. Detach ''vol-2'' app_id \<in> set (plan_volumes sample_document sample_observed))"
  using volumes_are_deleted_only_on_request [of _ sample_document sample_observed _ "''vol-2''"]
  by (auto simp: sample_observed_def)

section \<open>Passes converge\<close>

text \<open>
  What an action leaves of an app when it succeeds: a start, a replacement and a recovery leave it
  running at the wanted deployment, a hold and a stop leave a record with nothing running, a
  forgotten app is gone, and an app that sleeps or needs nothing is left as it was.
\<close>

definition running_at :: "desired_instance \<Rightarrow> observed_instance" where
  "running_at d = \<lparr>oi_app_id = di_app_id d, oi_volume_id = Some (di_volume_id d),
     oi_deployment_id = Some (di_deployment_id d), oi_present = True, oi_running = True,
     oi_exited = False, oi_refused = False\<rparr>"

fun carry_out :: "instance_plan \<Rightarrow> observed_instance option \<Rightarrow> observed_instance option" where
  "carry_out (PlanStart d) current = Some (running_at d)"
| "carry_out (PlanReplace d) current = Some (running_at d)"
| "carry_out (PlanRecover d) current = Some (running_at d)"
| "carry_out (PlanHold d) current = Some ((running_at d)\<lparr>oi_running := False\<rparr>)"
| "carry_out (PlanStop a reason) current = map_option (\<lambda>c. c\<lparr>oi_running := False, oi_refused := False\<rparr>) current"
| "carry_out (PlanForget a) current = None"
| "carry_out _ current = current"

definition carried_out :: "host_desired_state \<Rightarrow> observed_state \<Rightarrow> observed_state" where
  "carried_out desired observed =
     observed\<lparr>os_instances :=
       List.map_filter (\<lambda>p. carry_out p (map_of (observed_instance_by_id observed) (plan_app p)))
         (plan_instances desired observed),
       os_volumes := map (\<lambda>v. v\<lparr>ov_attached := True\<rparr>) (os_volumes observed)\<rparr>"

fun at_rest :: "instance_plan \<Rightarrow> bool" where
  "at_rest (PlanNone a) = True"
| "at_rest (PlanSleep d) = True"
| "at_rest _ = False"

lemma carry_out_app:
  "carry_out p current = Some c \<Longrightarrow> (\<And>x. current = Some x \<Longrightarrow> oi_app_id x = plan_app p) \<Longrightarrow>
     oi_app_id c = plan_app p"
  by (cases p) (auto simp: running_at_def)

lemma found_app:
  "map_of (observed_instance_by_id observed) a = Some x \<Longrightarrow> oi_app_id x = a"
  by (auto dest: observed_by_id_Some)

lemma carried_apps_sublist:
  "map oi_app_id (os_instances (carried_out desired observed)) =
     map plan_app (filter (\<lambda>p. carry_out p (map_of (observed_instance_by_id observed) (plan_app p)) \<noteq> None)
       (plan_instances desired observed))"
  by (auto simp: carried_out_def List.map_filter_def comp_def dest: found_app
      intro!: map_cong intro: carry_out_app)

lemma carried_distinct:
  assumes "distinct (map di_app_id (hd_instances desired))"
    and "distinct (map oi_app_id (os_instances observed))"
  shows "distinct (map oi_app_id (os_instances (carried_out desired observed)))"
  using plan_apps_distinct [OF assms] by (simp add: carried_apps_sublist distinct_map_filter)

lemma carried_set:
  "c \<in> set (os_instances (carried_out desired observed)) \<longleftrightarrow>
     (\<exists>p \<in> set (plan_instances desired observed).
        carry_out p (map_of (observed_instance_by_id observed) (plan_app p)) = Some c)"
  by (force simp: carried_out_def List.map_filter_def)

lemma nothing_lost_after: "lost_volumes (carried_out desired observed) = {}"
  by (auto simp: lost_volumes_def carried_out_def)

lemma plan_of_unique:
  assumes "distinct (map di_app_id (hd_instances desired))"
    and "distinct (map oi_app_id (os_instances observed))"
    and "p \<in> set (plan_instances desired observed)" "q \<in> set (plan_instances desired observed)"
    and "plan_app p = plan_app q"
  shows "p = q"
  using plan_apps_distinct [OF assms(1,2)] assms(3-5) by (auto simp: distinct_map dest: inj_onD)

text \<open>What the next pass finds of an app the document names.\<close>

lemma carried_lookup:
  assumes distinct: "distinct (map di_app_id (hd_instances desired))"
      "distinct (map oi_app_id (os_instances observed))"
    and wanted: "wanted \<in> set (hd_instances desired)"
  shows "map_of (observed_instance_by_id (carried_out desired observed)) (di_app_id wanted) =
    carry_out (plan_instance wanted (map_of (observed_instance_by_id observed) (di_app_id wanted))
                 (di_volume_id wanted \<in> lost_volumes observed))
      (map_of (observed_instance_by_id observed) (di_app_id wanted))"
proof -
  let ?cur = "map_of (observed_instance_by_id observed) (di_app_id wanted)"
  let ?p = "plan_instance wanted ?cur (di_volume_id wanted \<in> lost_volumes observed)"
  have p: "?p \<in> set (plan_instances desired observed)"
    using wanted by (auto simp: plan_instances_def Let_def)
  show ?thesis
  proof (cases "carry_out ?p ?cur")
    case None
    have "map_of (observed_instance_by_id (carried_out desired observed)) (di_app_id wanted) \<noteq> Some c" for c
    proof
      assume "map_of (observed_instance_by_id (carried_out desired observed)) (di_app_id wanted) = Some c"
      then obtain q where q: "q \<in> set (plan_instances desired observed)"
          "carry_out q (map_of (observed_instance_by_id observed) (plan_app q)) = Some c"
          "oi_app_id c = di_app_id wanted"
        by (auto simp: carried_set dest!: observed_by_id_Some)
      then have "plan_app q = plan_app ?p"
        using carry_out_app [OF q(2) found_app] by simp
      with plan_of_unique [OF distinct q(1) p] None q(2) show False by simp
    qed
    with None show ?thesis by (cases "map_of (observed_instance_by_id (carried_out desired observed)) (di_app_id wanted)") auto
  next
    case (Some c)
    then have "c \<in> set (os_instances (carried_out desired observed))"
      using p by (auto simp: carried_set intro!: bexI [of _ ?p])
    moreover have "oi_app_id c = di_app_id wanted"
      using carry_out_app [OF Some] found_app by fastforce
    ultimately show ?thesis
      using observed_by_id [OF carried_distinct [OF distinct]] Some by fastforce
  qed
qed

lemma one_pass_settles_named:
  "at_rest (plan_instance wanted (carry_out (plan_instance wanted current lost) current) False)"
proof (cases current)
  case None
  then show ?thesis
    by (cases "di_desired_state wanted") (simp_all add: plan_instance_def running_at_def)
next
  case (Some c)
  then show ?thesis
    by (cases "di_desired_state wanted"; cases "oi_present c"; cases "oi_running c";
        cases "oi_deployment_id c = Some (di_deployment_id wanted)"; cases lost; cases "oi_refused c")
       (simp_all add: plan_instance_def running_at_def)
qed

lemma unnamed_fades:
  assumes "c \<in> set (os_instances (carried_out desired observed))"
    and "oi_app_id c \<notin> di_app_id ` set (hd_instances desired)"
  shows "\<not> oi_running c \<and>
    (\<exists>b \<in> set (os_instances observed). oi_app_id b = oi_app_id c \<and> oi_running b)"
proof -
  obtain p where p: "p \<in> set (plan_instances desired observed)"
      "carry_out p (map_of (observed_instance_by_id observed) (plan_app p)) = Some c"
    using assms(1) by (auto simp: carried_set)
  have "plan_app p = oi_app_id c" using carry_out_app [OF p(2) found_app] by simp
  from p(1) show ?thesis
  proof (cases rule: plan_instances_cases)
    case (named wanted)
    then have "oi_app_id c \<in> di_app_id ` set (hd_instances desired)"
      using \<open>plan_app p = oi_app_id c\<close> by (metis image_eqI plan_app_plan_instance)
    with assms(2) show ?thesis by simp
  next
    case (unnamed current)
    with p(2) obtain b where "p = PlanStop (oi_app_id current) ReasonNotDesired" "oi_running current"
        "map_of (observed_instance_by_id observed) (oi_app_id current) = Some b"
        "c = b\<lparr>oi_running := False, oi_refused := False\<rparr>"
      by (auto simp: plan_unnamed_def split: if_splits)
    with unnamed(1) \<open>plan_app p = oi_app_id c\<close> show ?thesis by auto
  qed
qed



end
