(* ===== verification/HostState.thy ===== *)
theory HostState
  imports Meters Plan
begin

text \<open>
  What the daemon keeps (\<open>crates/nibrunnerd/src/state.rs\<close>), the asks it is on its way to meet
  (\<open>domain/metrics/converge.rs\<close>), and the handlers that change it. A handler runs over the whole
  host: the snapshot, the slot table and the list of the calls made so far to everything outside
  the daemon (the hypervisor, the volumes, the firewall, the clock). Those are a parameter, the
  record \<open>world\<close>, each an arbitrary function of the calls made before; every call is appended to
  the trace, so the theorems can speak of the order in which things are done. Counters, log lines
  and the notifications that only wake a loop are not part of the state.
\<close>

section \<open>Deploys\<close>

datatype cause = Change | Restart

datatype phase = LayersPhase | VolumePhase | BootPhase | ReadyPhase | TotalPhase

record deploy =
  dp_deployment_id :: deployment_id
  dp_desired_state :: desired_instance_state
  dp_cause :: cause
  dp_detected_at_ms :: int
  dp_layers_ready_at_ms :: "int option"
  dp_volume_ready_at_ms :: "int option"
  dp_booted_at_ms :: "int option"
  dp_converged_at_ms :: "int option"

definition deploy_is_open :: "deploy \<Rightarrow> bool" where
  "deploy_is_open d \<longleftrightarrow> dp_converged_at_ms d = None"

text \<open>One call of the closure \<open>milestone\<close>: the phases so far, the moment reached, and whether it was.\<close>

fun milestone :: "phase \<Rightarrow> int option \<Rightarrow> (phase \<times> nat) list \<times> int \<Rightarrow> ((phase \<times> nat) list \<times> int) \<times> bool" where
  "milestone ph None (phases, reached) = ((phases, reached), False)"
| "milestone ph (Some moment) (phases, reached) =
     (if moment \<ge> reached then ((phases @ [(ph, nat (moment - reached))], moment), True)
      else ((phases, reached), False))"

definition deploy_phases :: "deploy \<Rightarrow> (phase \<times> nat) list" where
  "deploy_phases d =
     (case dp_converged_at_ms d of
        None \<Rightarrow> []
      | Some converged \<Rightarrow>
          let (acc, _) = milestone LayersPhase (dp_layers_ready_at_ms d) ([], dp_detected_at_ms d);
              (acc, _) = milestone VolumePhase (dp_volume_ready_at_ms d) acc;
              (acc, booted) = milestone BootPhase (dp_booted_at_ms d) acc;
              acc = (if booted then fst (milestone ReadyPhase (Some converged) acc) else acc)
          in fst acc @ [(TotalPhase, nat (max (converged - dp_detected_at_ms d) 0))])"

definition is_converged ::
  "deployment_id \<Rightarrow> desired_instance_state \<Rightarrow> (deployment_id \<times> instance_state) option \<Rightarrow> bool" where
  "is_converged deployment_id desired_state held =
     (case desired_state of
        DesiredStopped \<Rightarrow> (case held of None \<Rightarrow> True | Some (_, state) \<Rightarrow> state = IsStopped)
      | DesiredRunning \<Rightarrow>
          (case held of None \<Rightarrow> False | Some (h, state) \<Rightarrow> h = deployment_id \<and> state = IsRunning)
      | DesiredOnRequest \<Rightarrow>
          (case held of None \<Rightarrow> False
           | Some (h, state) \<Rightarrow> h = deployment_id \<and> state \<in> {IsIdle, IsRunning}))"

section \<open>The snapshot\<close>

record host_snapshot =
  hs_records :: "(app_id, instance_record) btree"
  hs_deploys :: "(app_id, deploy) btree"
  hs_deleted_volumes :: "(volume_id, reported_volume) btree"
  hs_volume_reports :: "reported_volume list"
  hs_checkpoint_reports :: "reported_checkpoint list"
  hs_export_reports :: "reported_export list"
  hs_next_probe_at_ms :: "(app_id, int) btree"
  hs_snapshotting :: "app_id set"
  hs_failed_sleeps :: "(app_id, attempt_window) btree"
  hs_app_traffic :: "(app_id, app_traffic) btree"
  hs_last_active_at_ms :: "(app_id, int) btree"
  hs_last_measured_at_ms :: "(app_id, int) btree"
  hs_volume_usage :: "(app_id, filesystem_usage) btree"
  hs_compute_usage :: "(app_id, compute_usage) btree"
  hs_compute_ticks :: "(app_id, measured_compute) btree"
  hs_meters :: "(app_id, usage_meters) btree"
  hs_metered_at_ms :: "int option"
  hs_converged :: bool
  hs_deferred_work :: bool
  hs_isolated :: bool
  hs_accepted_digest :: "sha256_digest option"
  hs_accepted_revision :: "revision option"
  hs_desired_refusal :: "state_message option"

definition default_snapshot :: host_snapshot where
  "default_snapshot = \<lparr>hs_records = [], hs_deploys = [], hs_deleted_volumes = [], hs_volume_reports = [],
     hs_checkpoint_reports = [], hs_export_reports = [], hs_next_probe_at_ms = [], hs_snapshotting = {},
     hs_failed_sleeps = [], hs_app_traffic = [], hs_last_active_at_ms = [], hs_last_measured_at_ms = [],
     hs_volume_usage = [], hs_compute_usage = [], hs_compute_ticks = [], hs_meters = [],
     hs_metered_at_ms = None, hs_converged = False, hs_deferred_work = False, hs_isolated = False,
     hs_accepted_digest = None, hs_accepted_revision = None, hs_desired_refusal = None\<rparr>"

definition merge_volume_reports ::
  "reported_volume list \<Rightarrow> reported_volume list \<Rightarrow> reported_volume list" where
  "merge_volume_reports existing updates =
     bt_values (fold (\<lambda>r. bt_insert (rv_volume_id r) r) updates
       (bt_collect (map (\<lambda>r. (rv_volume_id r, r)) existing)))"

text \<open>The asks a document that changed gives rise to: the apps whose ask moved and those gone.\<close>

record changes =
  ch_wanted :: "desired_instance list"
  ch_gone :: "app_id list"

definition detected_one :: "cause \<Rightarrow> int \<Rightarrow> desired_instance \<Rightarrow> host_snapshot \<Rightarrow> host_snapshot" where
  "detected_one c now_ms wanted snapshot =
     (let started = \<lparr>dp_deployment_id = di_deployment_id wanted, dp_desired_state = di_desired_state wanted,
            dp_cause = c, dp_detected_at_ms = now_ms, dp_layers_ready_at_ms = None,
            dp_volume_ready_at_ms = None, dp_booted_at_ms = None, dp_converged_at_ms = None\<rparr>;
          snapshot = snapshot\<lparr>hs_deploys := bt_insert (di_app_id wanted) started (hs_deploys snapshot)\<rparr>
      in if c = Change
         then snapshot\<lparr>hs_records := bt_modify (di_app_id wanted)
                (\<lambda>r. r\<lparr>ir_converged_at := None\<rparr>) (hs_records snapshot)\<rparr>
         else snapshot)"

definition detected :: "changes \<Rightarrow> cause \<Rightarrow> int \<Rightarrow> host_snapshot \<Rightarrow> host_snapshot" where
  "detected changed c now_ms snapshot =
     (let snapshot = fold (detected_one c now_ms) (ch_wanted changed) snapshot
      in snapshot\<lparr>hs_deploys := fold bt_remove (ch_gone changed) (hs_deploys snapshot)\<rparr>)"

definition stamp :: "app_id \<Rightarrow> (deploy \<Rightarrow> deploy) \<Rightarrow> host_snapshot \<Rightarrow> host_snapshot" where
  "stamp app_id reach snapshot =
     snapshot\<lparr>hs_deploys :=
       bt_modify app_id (\<lambda>d. if deploy_is_open d then reach d else d) (hs_deploys snapshot)\<rparr>"

definition held_for_app :: "host_snapshot \<Rightarrow> app_id \<Rightarrow> (deployment_id \<times> instance_state) option" where
  "held_for_app snapshot app_id =
     map_option (\<lambda>r. (ir_deployment_id r, ir_state r)) (map_of (hs_records snapshot) app_id)"

definition observe_one ::
  "(int \<Rightarrow> timestamp) \<Rightarrow> int \<Rightarrow> app_id \<times> deploy \<Rightarrow> host_snapshot \<Rightarrow> host_snapshot" where
  "observe_one from_epoch_ms now_ms entry snapshot =
     (case entry of (app_id, d) \<Rightarrow>
        if \<not> deploy_is_open d \<or>
           \<not> is_converged (dp_deployment_id d) (dp_desired_state d) (held_for_app snapshot app_id)
        then snapshot
        else snapshot\<lparr>
          hs_deploys := bt_modify app_id (\<lambda>d. d\<lparr>dp_converged_at_ms := Some now_ms\<rparr>) (hs_deploys snapshot),
          hs_records := bt_modify app_id
            (\<lambda>r. case ir_converged_at r of
                   Some _ \<Rightarrow> r
                 | None \<Rightarrow> r\<lparr>ir_converged_at := Some (from_epoch_ms now_ms)\<rparr>) (hs_records snapshot)\<rparr>)"

definition observe :: "(int \<Rightarrow> timestamp) \<Rightarrow> int \<Rightarrow> host_snapshot \<Rightarrow> host_snapshot" where
  "observe from_epoch_ms now_ms snapshot =
     fold (observe_one from_epoch_ms now_ms) (hs_deploys snapshot) snapshot"

section \<open>Phases add up\<close>

definition phase_sum :: "(phase \<times> nat) list \<Rightarrow> nat" where
  "phase_sum phases = sum_list (map snd (filter (\<lambda>(p, _). p \<noteq> TotalPhase) phases))"

definition by_then :: "int \<Rightarrow> int option \<Rightarrow> bool" where
  "by_then converged moment = (case moment of None \<Rightarrow> True | Some m \<Rightarrow> m \<le> converged)"

text \<open>What the phases so far come to is how far the clock has been taken.\<close>

lemma milestone_step:
  assumes "milestone ph moment (phases, reached) = ((phases', reached'), hit)" "ph \<noteq> TotalPhase"
    and "int (phase_sum phases) = reached - start" "reached \<le> converged" "by_then converged moment"
  shows "int (phase_sum phases') = reached' - start \<and> reached' \<le> converged \<and>
         fst ` set phases' = fst ` set phases \<union> (if hit then {ph} else {})"
  using assms by (cases moment) (auto simp: phase_sum_def by_then_def split: if_splits)

text \<open>
  The stretches of a deploy add up. When an ask reached its boot, the phases reported before
  the total come to exactly the total; when it never booted they come to at most the total.
\<close>

lemma deploy_phases_add_up:
  assumes "dp_converged_at_ms d = Some converged" and "dp_detected_at_ms d \<le> converged"
    and "by_then converged (dp_layers_ready_at_ms d)" and "by_then converged (dp_volume_ready_at_ms d)"
    and "by_then converged (dp_booted_at_ms d)"
  shows "phase_sum (deploy_phases d) \<le> nat (converged - dp_detected_at_ms d) \<and>
         last (deploy_phases d) = (TotalPhase, nat (converged - dp_detected_at_ms d)) \<and>
         (BootPhase \<in> fst ` set (deploy_phases d) \<longrightarrow>
            phase_sum (deploy_phases d) = nat (converged - dp_detected_at_ms d))"
proof -
  let ?start = "dp_detected_at_ms d"
  obtain ps1 r1 h1 where m1: "milestone LayersPhase (dp_layers_ready_at_ms d) ([], ?start) = ((ps1, r1), h1)"
    by (metis surj_pair)
  obtain ps2 r2 h2 where m2: "milestone VolumePhase (dp_volume_ready_at_ms d) (ps1, r1) = ((ps2, r2), h2)"
    by (metis surj_pair)
  obtain ps3 r3 h3 where m3: "milestone BootPhase (dp_booted_at_ms d) (ps2, r2) = ((ps3, r3), h3)"
    by (metis surj_pair)
  have s1: "int (phase_sum ps1) = r1 - ?start \<and> r1 \<le> converged \<and> BootPhase \<notin> fst ` set ps1"
    using milestone_step [OF m1, of ?start converged] assms(2,3) by (auto simp: phase_sum_def)
  have s2: "int (phase_sum ps2) = r2 - ?start \<and> r2 \<le> converged \<and> BootPhase \<notin> fst ` set ps2"
    using milestone_step [OF m2, of ?start converged] s1 assms(4) by auto
  have s3: "int (phase_sum ps3) = r3 - ?start \<and> r3 \<le> converged \<and> (BootPhase \<in> fst ` set ps3 \<longleftrightarrow> h3)"
    using milestone_step [OF m3, of ?start converged] s2 assms(5) by simp
  have phases: "deploy_phases d =
      (if h3 then ps3 @ [(ReadyPhase, nat (converged - r3))] else ps3) @ [(TotalPhase, nat (converged - ?start))]"
    using assms(1,2) s3 by (simp add: deploy_phases_def m1 m2 m3)
  show ?thesis
    unfolding phases using s3 by (auto simp: phase_sum_def)
qed

definition sample_deploy :: deploy where
  "sample_deploy = \<lparr>dp_deployment_id = ''dep-1'', dp_desired_state = DesiredRunning, dp_cause = Change,
     dp_detected_at_ms = 1000, dp_layers_ready_at_ms = Some 1500, dp_volume_ready_at_ms = Some 1700,
     dp_booted_at_ms = Some 2000, dp_converged_at_ms = Some 3000\<rparr>"

end
