(* ===== verification/World.thy ===== *)
theory World
  imports HostState
begin

text \<open>
  The host as its handlers see it, the calls they make to what is outside the daemon
  (\<open>crates/nibrunnerd/src/ports.rs\<close>), the operations on the shared state (\<open>state.rs\<close>,
  \<open>host.rs\<close>) and the network a pass puts in place (\<open>domain/reconcile/network.rs\<close>,
  \<open>ingress.rs\<close>). The frames at the end are what every handler keeps: the records stay keyed by
  their own app, the slot table stays well-formed, and the trace only grows.
\<close>

section \<open>Calls\<close>

record prepared_payload =
  pp_layer_image_paths :: "string list"
  pp_fetched_bytes :: nat

record boot_request =
  br_desired :: desired_instance
  br_slot :: app_slot
  br_data_device_path :: string
  br_payload :: prepared_payload

record suspend_request =
  sr_app_id :: app_id
  sr_deployment_id :: deployment_id
  sr_slot :: app_slot

datatype vm_error =
    StartBusy
  | SnapshotUnusable string
  | SleepRefused string
  | VmUnreachable string string
  | VmRejected string nat string
  | VmHost string

fun vm_error_message :: "vm_error \<Rightarrow> string" where
  "vm_error_message StartBusy = ''this host is busy starting other microVMs; retry later''"
| "vm_error_message (SnapshotUnusable reason) = ''the saved microVM state cannot be restored: '' @ reason"
| "vm_error_message (SleepRefused reason) = ''this microVM must not be snapshotted: '' @ reason"
| "vm_error_message (VmUnreachable socket_path reason) =
     ''no microVM answered '' @ socket_path @ '': '' @ reason"
| "vm_error_message (VmRejected path status detail) =
     ''the microVM refused '' @ path @ '' with '' @ show_nat status @ detail"
| "vm_error_message (VmHost text) = text"

record forwarded_port =
  fp_host_port :: host_port
  fp_guest_port :: guest_port
  fp_raw :: bool

record forwarded_instance =
  fi_app_id :: app_id
  fi_ports :: "forwarded_port list"
  fi_host_ipv4 :: ipv4_address
  fi_guest_ipv4 :: ipv4_address

record firewall_state =
  fw_instances :: "forwarded_instance list"
  fw_denied_v4 :: "string list"
  fw_denied_v6 :: "string list"

record stream_binding =
  sb_app_id :: app_id
  sb_name :: port_name
  sb_host_port :: host_port
  sb_guest_port :: guest_port

datatype port_call =
    NowCall
  | BootCall boot_request
  | SleepCall suspend_request
  | WakeCall suspend_request
  | StopCall app_id
  | DiscardCall app_id
  | TapNamesCall
  | DeleteTapCall string
  | AdoptedCall
  | StatusesCall "app_id list"
  | VerdictCall app_id
  | PrepareCall "desired_layer list"
  | AttachCall volume_id app_id
  | FlushCall
  | FirewallCall firewall_state
  | TrafficCall
  | RouterCloseCall app_id
  | ActivatorCloseCall app_id
  | ActivatorServeCall "(app_id \<times> host_port) list"
  | StreamsServeCall "stream_binding list"
  | DatagramsServeCall "stream_binding list"
  | RoutesCall "route_target list"
  | CronStopCall app_id
  | ProbeCall ipv4_address http_port health_check
  | LogsDiscardCall app_id
  | RouterDiscardLogCall app_id
  | OpenRequestsCall
  | ObserveVolumesCall "(volume_id, app_id) btree"
  | ProvisionCall desired_volume
  | TeardownCall volume_id app_id
  | DetachCall volume_id app_id
  | ObserveCheckpointsCall
  | CreateCheckpointCall checkpoint_id
  | DeleteCheckpointCall checkpoint_id
  | CrontabCall app_id
  | FreezeCall app_id
  | LeaseCall app_id
  | ReadStagingCall desired_export checkpoint_id
  | BundleCall desired_export
  | UploadCall string object_key
  | RemoveStagingCall
  | NbdDetachCall
  | CronSyncCall "(app_id \<times> deployment_id) list"
  | CronRunsSyncCall "(app_id \<times> deployment_id) list"
  | PersistCall
  | RememberHostIdCall host_id
  | RememberDocumentCall host_desired_state sha256_digest
  | InstantCall
  | PauseCall

record backing_volume =
  bv_volume_id :: volume_id
  bv_attached :: bool
  bv_formatted :: bool
  bv_size_bytes :: nat
  bv_storage_prefix :: object_key
  bv_device_path :: "string option"

record attached_volume =
  av_volume_id :: volume_id
  av_size_bytes :: nat
  av_storage_prefix :: object_key
  av_device_path :: string

type_synonym trace = "port_call list"

text \<open>
  What is outside the daemon, each answer an arbitrary function of the calls made before it. Errors
  of the volumes and of the layer store are the sentences their \<open>message()\<close> gives. The monotonic
  clock \<open>w_instant\<close> counts nanoseconds, and \<open>w_meanwhile\<close> is what the other tasks do to the shared
  state while one of them waits.
\<close>

record world =
  w_now :: "trace \<Rightarrow> int"
  w_boot :: "trace \<Rightarrow> boot_request \<Rightarrow> vm_error + unit"
  w_sleep :: "trace \<Rightarrow> suspend_request \<Rightarrow> vm_error + unit"
  w_wake :: "trace \<Rightarrow> suspend_request \<Rightarrow> vm_error + unit"
  w_stop :: "trace \<Rightarrow> app_id \<Rightarrow> vm_error + unit"
  w_tap_names :: "trace \<Rightarrow> string list"
  w_adopted :: "trace \<Rightarrow> app_id list"
  w_statuses :: "trace \<Rightarrow> app_id list \<Rightarrow> (app_id, vm_status) btree"
  w_guest_verdict :: "trace \<Rightarrow> app_id \<Rightarrow> string option"
  w_prepare :: "trace \<Rightarrow> desired_layer list \<Rightarrow> string + prepared_payload"
  w_attach :: "trace \<Rightarrow> volume_id \<Rightarrow> app_id \<Rightarrow> string + string"
  w_firewall :: "trace \<Rightarrow> firewall_state \<Rightarrow> string + unit"
  w_traffic :: "trace \<Rightarrow> string + (app_id, app_traffic) btree"
  w_probe :: "trace \<Rightarrow> ipv4_address \<Rightarrow> http_port \<Rightarrow> health_check \<Rightarrow> probe_failure + unit"
  w_open_requests :: "trace \<Rightarrow> (app_id, nat) btree"
  w_observe_volumes :: "trace \<Rightarrow> (volume_id, app_id) btree \<Rightarrow> backing_volume list"
  w_provision :: "trace \<Rightarrow> desired_volume \<Rightarrow> string + attached_volume"
  w_teardown :: "trace \<Rightarrow> volume_id \<Rightarrow> app_id \<Rightarrow> string + unit"
  w_detach :: "trace \<Rightarrow> volume_id \<Rightarrow> app_id \<Rightarrow> string + unit"
  w_flush :: "trace \<Rightarrow> string + unit"
  w_observe_checkpoints :: "trace \<Rightarrow> checkpoint_id list"
  w_create_checkpoint :: "trace \<Rightarrow> checkpoint_id \<Rightarrow> string + unit"
  w_delete_checkpoint :: "trace \<Rightarrow> checkpoint_id \<Rightarrow> string + unit"
  w_crontab :: "trace \<Rightarrow> app_id \<Rightarrow> string + string option"
  w_freeze :: "trace \<Rightarrow> app_id \<Rightarrow> string + unit"
  w_lease_held :: "trace \<Rightarrow> app_id \<Rightarrow> string + unit"
  w_read_staging :: "trace \<Rightarrow> desired_export \<Rightarrow> checkpoint_id \<Rightarrow> string + unit"
  w_bundle :: "trace \<Rightarrow> desired_export \<Rightarrow> string + string \<times> nat"
  w_upload :: "trace \<Rightarrow> string \<Rightarrow> object_key \<Rightarrow> string + unit"
  w_cron_sync :: "trace \<Rightarrow> (app_id \<times> deployment_id) list \<Rightarrow> string + unit"
  w_instant :: "trace \<Rightarrow> nat"
  w_meanwhile :: "trace \<Rightarrow> host_snapshot \<Rightarrow> host_snapshot"
  w_epoch_ms :: "timestamp \<Rightarrow> int"
  w_from_epoch_ms :: "int \<Rightarrow> timestamp"
  w_fpu :: f64_unit
  w_names :: name_tables

text \<open>The part of the configuration the handlers read.\<close>

record host_config =
  cf_guest_memory_mib :: nat
  cf_proxy_http :: bool
  cf_raw_max_ports :: "nat option"
  cf_denied_v4 :: "string list"
  cf_denied_v6 :: "string list"

record host =
  h_snapshot :: host_snapshot
  h_alloc :: slot_allocator
  h_document :: "host_desired_state option"
  h_cron_runs :: "(app_id, nat) btree"
  h_trace :: trace

type_synonym 'a act = "(host, 'a) handler"

definition ask :: "port_call \<Rightarrow> (trace \<Rightarrow> 'a) \<Rightarrow> 'a act" where
  "ask c answer = State (\<lambda>s. (answer (h_trace s), s\<lparr>h_trace := h_trace s @ [c]\<rparr>))"

abbreviation tell :: "port_call \<Rightarrow> unit act" where
  "tell c \<equiv> ask c (\<lambda>_. ())"

section \<open>The shared state\<close>

definition the_snapshot :: "host_snapshot act" where
  "the_snapshot = gets h_snapshot"

definition change :: "(host_snapshot \<Rightarrow> host_snapshot) \<Rightarrow> unit act" where
  "change f = modify (\<lambda>s. s\<lparr>h_snapshot := f (h_snapshot s)\<rparr>)"

definition the_record :: "app_id \<Rightarrow> instance_record option act" where
  "the_record app_id = gets (\<lambda>s. map_of (hs_records (h_snapshot s)) app_id)"

definition the_records :: "instance_record list act" where
  "the_records = gets (\<lambda>s. bt_values (hs_records (h_snapshot s)))"

definition put_record :: "instance_record \<Rightarrow> unit act" where
  "put_record r = change (\<lambda>p. p\<lparr>hs_records := bt_insert (ir_app_id r) r (hs_records p)\<rparr>)"

definition update_record :: "app_id \<Rightarrow> (instance_record \<Rightarrow> instance_record) \<Rightarrow> unit act" where
  "update_record app_id f = change (\<lambda>p. p\<lparr>hs_records := bt_modify app_id f (hs_records p)\<rparr>)"

definition drop_record :: "app_id \<Rightarrow> unit act" where
  "drop_record app_id = change (\<lambda>p. p\<lparr>hs_records := bt_remove app_id (hs_records p)\<rparr>)"

definition mark_active :: "app_id \<Rightarrow> int \<Rightarrow> unit act" where
  "mark_active app_id now_ms =
     change (\<lambda>p. p\<lparr>hs_last_active_at_ms := bt_insert app_id now_ms (hs_last_active_at_ms p)\<rparr>)"

definition mark_snapshotting :: "app_id \<Rightarrow> bool \<Rightarrow> unit act" where
  "mark_snapshotting app_id active =
     change (\<lambda>p. p\<lparr>hs_snapshotting :=
       (if active then insert app_id (hs_snapshotting p) else hs_snapshotting p - {app_id})\<rparr>)"

definition probe_at_once :: "app_id \<Rightarrow> unit act" where
  "probe_at_once app_id = change (\<lambda>p. p\<lparr>hs_next_probe_at_ms := bt_remove app_id (hs_next_probe_at_ms p)\<rparr>)"

definition remember_deleted_volume :: "reported_volume \<Rightarrow> unit act" where
  "remember_deleted_volume report =
     change (\<lambda>p. p\<lparr>hs_deleted_volumes := bt_insert (rv_volume_id report) report (hs_deleted_volumes p)\<rparr>)"

definition forget_deleted_volumes :: "volume_id set \<Rightarrow> unit act" where
  "forget_deleted_volumes keep =
     change (\<lambda>p. p\<lparr>hs_deleted_volumes := filter (\<lambda>(v, _). v \<in> keep) (hs_deleted_volumes p)\<rparr>)"

text \<open>A cron command under way keeps its app up; the count is taken back when it ends.\<close>

definition cron_activity :: "app_id \<Rightarrow> unit act" where
  "cron_activity app_id =
     modify (\<lambda>s. s\<lparr>h_cron_runs := bt_insert app_id
       ((case map_of (h_cron_runs s) app_id of Some n \<Rightarrow> n | None \<Rightarrow> 0) + 1) (h_cron_runs s)\<rparr>)"

definition cron_activity_drop :: "app_id \<Rightarrow> unit act" where
  "cron_activity_drop app_id =
     modify (\<lambda>s. case map_of (h_cron_runs s) app_id of
       None \<Rightarrow> s
     | Some n \<Rightarrow>
         if n - 1 = 0 then s\<lparr>h_cron_runs := bt_remove app_id (h_cron_runs s)\<rparr>
         else s\<lparr>h_cron_runs := bt_insert app_id (n - 1) (h_cron_runs s)\<rparr>)"

definition cron_running :: "app_id \<Rightarrow> bool act" where
  "cron_running app_id = gets (\<lambda>s. map_of (h_cron_runs s) app_id \<noteq> None)"

definition slot_for :: "app_id \<Rightarrow> (slot_error + app_slot) act" where
  "slot_for app_id =
     State (\<lambda>s. let (answer, alloc) = allocate app_id (h_alloc s) in (answer, s\<lparr>h_alloc := alloc\<rparr>))"

definition slot_of :: "app_id \<Rightarrow> app_slot option act" where
  "slot_of app_id = gets (\<lambda>s. lookup (h_alloc s) app_id)"

definition the_slots :: "app_slot list act" where
  "the_slots = gets (\<lambda>s. slots (h_alloc s))"

section \<open>The network\<close>

definition forwarded_from :: "host_snapshot \<Rightarrow> slot_allocator \<Rightarrow> forwarded_instance list" where
  "forwarded_from snapshot alloc =
     List.map_filter (\<lambda>r.
       if ir_state r \<noteq> IsRunning \<or> ir_app_id r \<in> hs_snapshotting snapshot then None
       else case lookup alloc (ir_app_id r) of
              None \<Rightarrow> None
            | Some slot \<Rightarrow>
                Some \<lparr>fi_app_id = ir_app_id r,
                      fi_ports = \<lparr>fp_host_port = sl_host_port slot, fp_guest_port = ir_http_port r,
                                  fp_raw = False\<rparr> #
                        map (\<lambda>p. \<lparr>fp_host_port = rpt_host_port p, fp_guest_port = rpt_guest_port p,
                                  fp_raw = True\<rparr>) (ir_ports r),
                      fi_host_ipv4 = sl_host_ipv4 slot, fi_guest_ipv4 = sl_guest_ipv4 slot\<rparr>)
       (bt_values (hs_records snapshot))"

definition forwarded_instances :: "forwarded_instance list act" where
  "forwarded_instances = gets (\<lambda>s. forwarded_from (h_snapshot s) (h_alloc s))"

definition apply_network :: "world \<Rightarrow> host_config \<Rightarrow> unit act" where
  "apply_network w config = do {
     instances \<leftarrow> forwarded_instances;
     let state = \<lparr>fw_instances = instances, fw_denied_v4 = cf_denied_v4 config,
                  fw_denied_v6 = cf_denied_v6 config\<rparr>;
     answer \<leftarrow> ask (FirewallCall state) (\<lambda>t. w_firewall w t state);
     case answer of
       Inr _ \<Rightarrow> change (\<lambda>p. p\<lparr>hs_isolated := True\<rparr>)
     | Inl _ \<Rightarrow> change (\<lambda>p. p\<lparr>hs_isolated := False\<rparr>)
   }"

definition port_bindings :: "instance_record list \<Rightarrow> stream_binding list" where
  "port_bindings records =
     concat (map (\<lambda>r. map (\<lambda>p. \<lparr>sb_app_id = ir_app_id r, sb_name = rpt_name p,
       sb_host_port = rpt_host_port p, sb_guest_port = rpt_guest_port p\<rparr>) (ir_ports r)) records)"

definition apply_activators :: "host_config \<Rightarrow> unit act" where
  "apply_activators config = do {
     held \<leftarrow> the_slots;
     tell (ActivatorServeCall (map (\<lambda>s. (sl_app_id s, sl_host_port s)) held));
     records \<leftarrow> the_records;
     let bindings = port_bindings records;
     do_when (cf_raw_max_ports config \<noteq> None) (tell (StreamsServeCall bindings));
     do_when (cf_raw_max_ports config \<noteq> None) (tell (DatagramsServeCall bindings))
   }"

definition apply_routes :: "unit act" where
  "apply_routes = do {
     records \<leftarrow> the_records;
     tell (RoutesCall (renderable_routes records))
   }"

definition reclaim_stranded_taps :: "world \<Rightarrow> unit act" where
  "reclaim_stranded_taps w = do {
     held \<leftarrow> the_slots;
     let claimed = set (map sl_tap_name held);
     names \<leftarrow> ask TapNamesCall (w_tap_names w);
     for_each (filter (\<lambda>name. name \<notin> claimed) names) (\<lambda>name. tell (DeleteTapCall name))
   }"

definition ingress_refusal :: "desired_instance \<Rightarrow> host_config \<Rightarrow> string option" where
  "ingress_refusal desired config =
     (case validate_ports (di_config desired) of
        Inl invalid \<Rightarrow> Some (ports_invalid_message invalid)
      | Inr _ \<Rightarrow>
          if di_hostnames desired \<noteq> [] \<and> \<not> cf_proxy_http config
          then Some (''it answers for '' @ show_nat (length (di_hostnames desired)) @
                     '' but this host runs no proxy, so nothing would reach it'')
          else
            let named = length (ac_ports (di_config desired));
                allowed = (case cf_raw_max_ports config of Some n \<Rightarrow> n | None \<Rightarrow> 0)
            in if named > allowed
               then Some (if allowed = 0
                          then ''it asks for '' @ show_nat named @
                               '' port beside its HTTP one and this host names no [proxy.raw] to bind them on''
                          else ''it asks for '' @ show_nat named @
                               '' ports beside its HTTP one and [proxy.raw] allows '' @ show_nat allowed)
               else None)"

section \<open>Running the primitives\<close>

lemma final_ask [simp]: "final (ask c answer) s = s\<lparr>h_trace := h_trace s @ [c]\<rparr>"
  by (simp add: final_def ask_def)

lemma result_ask [simp]: "result (ask c answer) s = answer (h_trace s)"
  by (simp add: result_def ask_def)

lemma final_change [simp]: "final (change f) s = s\<lparr>h_snapshot := f (h_snapshot s)\<rparr>"
  by (simp add: change_def)

lemma final_slot_for [simp]: "final (slot_for a) s = s\<lparr>h_alloc := snd (allocate a (h_alloc s))\<rparr>"
  by (simp add: final_def slot_for_def case_prod_beta Let_def)

lemma result_slot_for [simp]: "result (slot_for a) s = fst (allocate a (h_alloc s))"
  by (simp add: result_def slot_for_def case_prod_beta Let_def)

lemmas shared_state_defs =
  the_snapshot_def the_record_def the_records_def put_record_def update_record_def drop_record_def
  mark_active_def mark_snapshotting_def probe_at_once_def remember_deleted_volume_def
  forget_deleted_volumes_def cron_running_def slot_of_def the_slots_def forwarded_instances_def

section \<open>What every handler keeps\<close>

definition records_wf :: "(app_id, instance_record) btree \<Rightarrow> bool" where
  "records_wf m \<longleftrightarrow> bt_wf m \<and> (\<forall>a r. map_of m a = Some r \<longrightarrow> ir_app_id r = a)"

definition host_wf :: "host \<Rightarrow> bool" where
  "host_wf s \<longleftrightarrow> records_wf (hs_records (h_snapshot s)) \<and> alloc_wf (h_alloc s)"

lemma records_wf_insert [simp]: "records_wf m \<Longrightarrow> records_wf (bt_insert (ir_app_id r) r m)"
  by (simp add: records_wf_def)

lemma records_wf_modify [simp]:
  "records_wf m \<Longrightarrow> (\<And>r. ir_app_id (f r) = ir_app_id r) \<Longrightarrow> records_wf (bt_modify a f m)"
  by (auto simp: records_wf_def)

lemma records_wf_remove [simp]: "records_wf m \<Longrightarrow> records_wf (bt_remove a m)"
  by (auto simp: records_wf_def split: if_splits)

lemma records_wf_lookup: "records_wf m \<Longrightarrow> map_of m a = Some r \<Longrightarrow> ir_app_id r = a"
  by (simp add: records_wf_def)

lemma records_wf_app_ids:
  assumes "records_wf m"
  shows "map ir_app_id (bt_values m) = bt_keys m"
proof -
  have "ir_app_id r = a" if "(a, r) \<in> set m" for a r
    using assms that by (auto simp: records_wf_def bt_wf_map_of)
  then show ?thesis by (auto simp: bt_values_def bt_keys_def)
qed

lemma records_wf_distinct: "records_wf m \<Longrightarrow> distinct (map ir_app_id (bt_values m))"
  by (simp add: records_wf_app_ids) (simp add: records_wf_def bt_keys_def bt_wf_distinct)

text \<open>
  The trace only grows and a well-formed host stays one; and, where nothing is given back, no app
  that holds a slot loses or changes it.
\<close>

definition base_frame :: "host \<Rightarrow> host \<Rightarrow> bool" where
  "base_frame s t \<longleftrightarrow>
     (\<exists>more. h_trace t = h_trace s @ more) \<and> (host_wf s \<longrightarrow> host_wf t) \<and> h_document t = h_document s"

definition host_frame :: "host \<Rightarrow> host \<Rightarrow> bool" where
  "host_frame s t \<longleftrightarrow>
     (\<exists>more. h_trace t = h_trace s @ more) \<and>
     (host_wf s \<longrightarrow> host_wf t) \<and>
     (\<forall>a x. map_of (sa_assignments (h_alloc s)) a = Some x \<longrightarrow> map_of (sa_assignments (h_alloc t)) a = Some x) \<and>
     h_document t = h_document s"

interpretation base: frame base_frame
  by unfold_locales (auto simp: base_frame_def)

interpretation keep: frame host_frame
  by unfold_locales (auto simp: host_frame_def)

lemma base_of: "keep.keeps m \<Longrightarrow> base.keeps m"
  by (auto simp: base.keeps_def keep.keeps_def base_frame_def host_frame_def)

lemma keep_ask [frame_rules]: "keep.keeps (ask c answer)"
  by (rule keep.keepsI) (simp add: host_frame_def host_wf_def)

lemma keep_change:
  "(\<And>p. records_wf (hs_records p) \<Longrightarrow> records_wf (hs_records (f p))) \<Longrightarrow> keep.keeps (change f)"
  by (rule keep.keepsI) (simp add: host_frame_def host_wf_def)

lemma keep_change_aside [frame_rules]:
  "(\<And>p. hs_records (f p) = hs_records p) \<Longrightarrow> keep.keeps (change f)"
  by (rule keep_change) simp

lemma keep_put_record [frame_rules]: "keep.keeps (put_record r)"
  unfolding put_record_def by (rule keep_change) simp

lemma keep_update_record [frame_rules]:
  "(\<And>r. ir_app_id (f r) = ir_app_id r) \<Longrightarrow> keep.keeps (update_record a f)"
  unfolding update_record_def by (rule keep_change) simp

lemma keep_drop_record [frame_rules]: "keep.keeps (drop_record a)"
  unfolding drop_record_def by (rule keep_change) simp

lemma keep_marks [frame_rules]:
  "keep.keeps (mark_active a now_ms)" "keep.keeps (mark_snapshotting a active)" "keep.keeps (probe_at_once a)"
  "keep.keeps (remember_deleted_volume report)" "keep.keeps (forget_deleted_volumes vols)"
  by (simp_all add: mark_active_def mark_snapshotting_def probe_at_once_def remember_deleted_volume_def
      forget_deleted_volumes_def keep_change_aside)

lemma keep_reads [frame_rules]:
  "keep.keeps the_snapshot" "keep.keeps (the_record a)" "keep.keeps the_records" "keep.keeps (slot_of a)"
  "keep.keeps the_slots" "keep.keeps forwarded_instances" "keep.keeps (cron_running a)"
  by (simp_all add: shared_state_defs keep.keeps_gets)

lemma allocate_keeps_assignments:
  "map_of (sa_assignments alloc) b = Some x \<Longrightarrow>
     map_of (sa_assignments (snd (allocate a alloc))) b = Some x"
  by (auto simp: allocate_def split: option.splits)

lemma keep_slot_for [frame_rules]: "keep.keeps (slot_for a)"
  by (rule keep.keepsI)
     (simp add: host_frame_def host_wf_def alloc_wf_allocate allocate_keeps_assignments)

lemma keep_cron [frame_rules]: "keep.keeps (cron_activity a)" "keep.keeps (cron_activity_drop a)"
  by (auto intro!: keep.keepsI simp: host_frame_def host_wf_def cron_activity_def cron_activity_drop_def
      split: option.splits)

lemma keep_apply_network [frame_rules]: "keep.keeps (apply_network w config)"
  unfolding apply_network_def by (intro frame_rules) simp_all

lemma keep_apply_activators [frame_rules]: "keep.keeps (apply_activators config)"
  unfolding apply_activators_def by (intro frame_rules)

lemma keep_apply_routes [frame_rules]: "keep.keeps apply_routes"
  unfolding apply_routes_def by (intro frame_rules)

lemma keep_reclaim_stranded_taps [frame_rules]: "keep.keeps (reclaim_stranded_taps w)"
  unfolding reclaim_stranded_taps_def by (intro frame_rules)

section \<open>Who a port leads to\<close>

lemma forwarded_cases:
  "f \<in> set (forwarded_from p alloc) \<longleftrightarrow>
     (\<exists>r slot. r \<in> set (bt_values (hs_records p)) \<and> ir_state r = IsRunning \<and>
        ir_app_id r \<notin> hs_snapshotting p \<and> lookup alloc (ir_app_id r) = Some slot \<and>
        f = \<lparr>fi_app_id = ir_app_id r,
             fi_ports = \<lparr>fp_host_port = sl_host_port slot, fp_guest_port = ir_http_port r, fp_raw = False\<rparr> #
               map (\<lambda>p. \<lparr>fp_host_port = rpt_host_port p, fp_guest_port = rpt_guest_port p, fp_raw = True\<rparr>) (ir_ports r),
             fi_host_ipv4 = sl_host_ipv4 slot, fi_guest_ipv4 = sl_guest_ipv4 slot\<rparr>)"
  by (force simp: forwarded_from_def List.map_filter_def split: option.splits if_splits)

end
