(* ===== verification/Instances.thy ===== *)
theory Instances
  imports World
begin

text \<open>
  The life of an instance (\<open>crates/nibrunnerd/src/domain/reconcile/instances.rs\<close>): what starts,
  stops, suspends, resumes and holds an app, and the status loop that settles what is reported of
  it. The reasons that are only logged and the counters that are only exported are left out.
\<close>

section \<open>Records of a document\<close>

definition record_ports :: "desired_instance \<Rightarrow> app_slot \<Rightarrow> record_port list" where
  "record_ports desired slot =
     List.map_filter (\<lambda>(index, port).
       map_option (\<lambda>host_port. \<lparr>rpt_name = ip_name port, rpt_host_port = host_port,
                                 rpt_guest_port = ip_guest_port port\<rparr>)
         (host_port_at (sl_slot slot) (index + 1)))
       (enumerate 0 (ac_ports (di_config desired)))"

definition fields_of ::
  "desired_instance \<Rightarrow> host_port option \<Rightarrow> record_port list \<Rightarrow> ipv4_address option \<Rightarrow> record_fields" where
  "fields_of desired host_port ports guest_ipv4 =
     \<lparr>rf_app_id = di_app_id desired,
      rf_deployment_id = di_deployment_id desired,
      rf_volume_id = di_volume_id desired,
      rf_hostnames = di_hostnames desired,
      rf_access = di_access desired,
      rf_host_port = host_port,
      rf_http_port = ac_http_port (di_config desired),
      rf_ports = ports,
      rf_guest_ipv4 = guest_ipv4,
      rf_layer_digests = map layer_digest (di_layers desired),
      rf_health_check = ac_health_check (di_config desired),
      rf_resources = ac_resources (di_config desired),
      rf_restart_policy = ac_restart_policy (di_config desired),
      rf_desired_running = (di_desired_state desired \<noteq> DesiredStopped),
      rf_on_request = (di_desired_state desired = DesiredOnRequest)\<rparr>"

definition fields_with_slot :: "desired_instance \<Rightarrow> app_slot \<Rightarrow> record_fields" where
  "fields_with_slot desired slot =
     fields_of desired (Some (sl_host_port slot)) (record_ports desired slot) (Some (sl_guest_ipv4 slot))"

definition record_fields_without_slot :: "desired_instance \<Rightarrow> record_fields" where
  "record_fields_without_slot desired = fields_of desired None [] None"

definition no_slot_left :: state_message where
  "no_slot_left = state_message_new ''this host has no slot left''"

definition report_no_slot :: "desired_instance \<Rightarrow> state_message \<Rightarrow> bool act" where
  "report_no_slot desired said = do {
     found \<leftarrow> the_record (di_app_id desired);
     case found of
       Some r \<Rightarrow> do {
         let news = (ir_message r \<noteq> Some said);
         let r = (adopt (record_fields_without_slot desired) r)\<lparr>ir_state := IsFailed\<rparr>;
         put_record (if news then r\<lparr>ir_message := Some said\<rparr> else r);
         done_with news
       }
     | None \<Rightarrow> do {
         put_record ((record_new (record_fields_without_slot desired) IsFailed initial_tracker)
           \<lparr>ir_message := Some said\<rparr>);
         done_with True
       }
   }"

section \<open>Stopping and suspending\<close>

definition settled :: "unit act" where
  "settled = tell FlushCall"

definition close_connections :: "app_id \<Rightarrow> unit act" where
  "close_connections app_id = do {
     tell (RouterCloseCall app_id);
     tell (ActivatorCloseCall app_id)
   }"

definition stop_instance :: "world \<Rightarrow> app_id \<Rightarrow> unit act" where
  "stop_instance w app_id = do {
     tell (CronStopCall app_id);
     update_record app_id (\<lambda>r. r\<lparr>ir_state := IsStopping, ir_stop_requested := True\<rparr>);
     close_connections app_id;
     settled;
     _ \<leftarrow> ask (StopCall app_id) (\<lambda>t. w_stop w t app_id);
     update_record app_id (\<lambda>r. r\<lparr>ir_state := IsStopped, ir_start_attempts := NO_START_ATTEMPTS\<rparr>)
   }"

datatype sleep_outcome = Slept | SleepWasRefused | SleepFailed

definition suspend_instance :: "world \<Rightarrow> host_config \<Rightarrow> app_id \<Rightarrow> sleep_outcome option act" where
  "suspend_instance w config app_id = do {
     found \<leftarrow> the_record app_id;
     case found of
       None \<Rightarrow> done_with None
     | Some r \<Rightarrow> do {
         held \<leftarrow> slot_of app_id;
         case held of
           None \<Rightarrow> do { stop_instance w app_id; done_with None }
         | Some slot \<Rightarrow> do {
             mark_snapshotting app_id True;
             apply_network w config;
             close_connections app_id;
             settled;
             let request = \<lparr>sr_app_id = app_id, sr_deployment_id = ir_deployment_id r, sr_slot = slot\<rparr>;
             answer \<leftarrow> ask (SleepCall request) (\<lambda>t. w_sleep w t request);
             outcome \<leftarrow> (case answer of
                 Inr _ \<Rightarrow> do {
                   update_record app_id (\<lambda>r. r\<lparr>ir_state := IsIdle, ir_stop_requested := True,
                     ir_start_attempts := NO_START_ATTEMPTS, ir_message := None\<rparr>);
                   done_with Slept
                 }
               | Inl (SleepRefused _) \<Rightarrow> done_with SleepWasRefused
               | Inl _ \<Rightarrow> done_with SleepFailed);
             mark_snapshotting app_id False;
             do_when (outcome \<noteq> Slept) (apply_network w config);
             done_with (Some outcome)
           }
       }
   }"

section \<open>Refusals\<close>

datatype start_refused = OutOfRestarts nat nat | UntilTheBackoffIsDone

definition start_refusal ::
  "f64_unit \<Rightarrow> instance_record option \<Rightarrow> int \<Rightarrow> desired_instance \<Rightarrow> start_refused option" where
  "start_refusal fpu existing now_ms desired =
     (case existing of
        None \<Rightarrow> None
      | Some r \<Rightarrow>
          let policy = ac_restart_policy (di_config desired)
          in if aw_attempts (ir_start_attempts r) > rp_max_restarts policy
             then Some (OutOfRestarts (aw_attempts (ir_start_attempts r)) (rp_max_restarts policy))
             else if \<not> is_ready_to_retry fpu (ir_start_attempts r) now_ms (backoff_policy_from policy)
             then Some UntilTheBackoffIsDone
             else None)"

definition say :: "app_id \<Rightarrow> state_message \<Rightarrow> bool act" where
  "say app_id said = do {
     found \<leftarrow> the_record app_id;
     update_record app_id (\<lambda>r. if ir_message r \<noteq> Some said then r\<lparr>ir_message := Some said\<rparr> else r);
     done_with (case found of Some r \<Rightarrow> ir_message r \<noteq> Some said | None \<Rightarrow> False)
   }"

definition out_of_restarts_message :: "nat \<Rightarrow> nat \<Rightarrow> state_message" where
  "out_of_restarts_message attempted allowed =
     state_message_new (''out of restarts: '' @ show_nat attempted @ '' starts attempted against a budget of '' @
       show_nat allowed @
       '', and this instance will not be started again until it is deployed afresh'')"

definition say_it_is_out_of_restarts :: "app_id \<Rightarrow> nat \<Rightarrow> nat \<Rightarrow> unit act" where
  "say_it_is_out_of_restarts app_id attempted allowed = do {
     _ \<leftarrow> say app_id (out_of_restarts_message attempted allowed);
     done_with ()
   }"

definition volume_refusal :: "volume_id \<Rightarrow> state_message option act" where
  "volume_refusal volume_id = do {
     snapshot \<leftarrow> the_snapshot;
     done_with (map_option
       (\<lambda>report. case rv_message report of
            Some message \<Rightarrow> message
          | None \<Rightarrow> state_message_new (volume_id @ '' could not be made ready''))
       (find (\<lambda>report. rv_volume_id report = volume_id \<and> rv_state report = VolFailed)
         (hs_volume_reports snapshot)))
   }"

section \<open>Waiting and holding\<close>

definition sleep_instance :: "desired_instance \<Rightarrow> unit act" where
  "sleep_instance desired = do {
     answer \<leftarrow> slot_for (di_app_id desired);
     case answer of
       Inl _ \<Rightarrow> do { _ \<leftarrow> report_no_slot desired no_slot_left; done_with () }
     | Inr slot \<Rightarrow> do {
         let given = fields_with_slot desired slot;
         existing \<leftarrow> the_record (di_app_id desired);
         case existing of
           Some r \<Rightarrow> put_record (adopt given r)
         | None \<Rightarrow> put_record (record_new given IsIdle initial_tracker)
       }
   }"

definition hold_instance :: "desired_instance \<Rightarrow> unit act" where
  "hold_instance desired = do {
     answer \<leftarrow> slot_for (di_app_id desired);
     case answer of
       Inl _ \<Rightarrow> do { _ \<leftarrow> report_no_slot desired no_slot_left; done_with () }
     | Inr slot \<Rightarrow> put_record (record_new (fields_with_slot desired slot) IsStopped initial_tracker)
   }"

definition waiting_message :: "nat \<Rightarrow> state_message" where
  "waiting_message shortfall_mib =
     state_message_new (''waiting to be started: its host is '' @ show_nat shortfall_mib @
       '' MiB short of the memory it needs'')"

definition wait_for_room :: "desired_instance \<Rightarrow> nat \<Rightarrow> unit act" where
  "wait_for_room desired shortfall_mib = do {
     answer \<leftarrow> slot_for (di_app_id desired);
     case answer of
       Inl _ \<Rightarrow> do { _ \<leftarrow> report_no_slot desired no_slot_left; done_with () }
     | Inr slot \<Rightarrow> do {
         let given = fields_with_slot desired slot;
         existing \<leftarrow> the_record (di_app_id desired);
         let waiting = (case existing of Some r \<Rightarrow> r | None \<Rightarrow> record_new given IsPending initial_tracker);
         put_record ((adopt given waiting)\<lparr>ir_state := IsPending, ir_stop_requested := False,
           ir_started_at := None, ir_start_attempts := NO_START_ATTEMPTS,
           ir_message := Some (waiting_message shortfall_mib)\<rparr>)
       }
   }"

section \<open>Starting\<close>

text \<open>
  The layers, the volume and the boot. \<open>None\<close> is a return in the middle, with the record already
  saying why; otherwise whether the microVM booted, or the reason it did not.
\<close>

definition try_boot ::
  "world \<Rightarrow> desired_instance \<Rightarrow> app_slot \<Rightarrow> instance_record option \<Rightarrow> (string + unit) option act" where
  "try_boot w desired slot existing = do {
     prepared \<leftarrow> ask (PrepareCall (di_layers desired)) (\<lambda>t. w_prepare w t (di_layers desired));
     case prepared of
       Inl reason \<Rightarrow> done_with (Some (Inl reason))
     | Inr payload \<Rightarrow> do {
         attached \<leftarrow> ask (AttachCall (di_volume_id desired) (di_app_id desired))
           (\<lambda>t. w_attach w t (di_volume_id desired) (di_app_id desired));
         case attached of
           Inl reason \<Rightarrow> do {
             update_record (di_app_id desired)
               (\<lambda>r. r\<lparr>ir_state := IsFailed, ir_message := Some (state_message_new reason)\<rparr>);
             done_with None
           }
         | Inr device_path \<Rightarrow> do {
             attached_at \<leftarrow> ask NowCall (w_now w);
             change (stamp (di_app_id desired) (\<lambda>d. d\<lparr>dp_volume_ready_at_ms := Some attached_at\<rparr>));
             close_connections (di_app_id desired);
             let request = \<lparr>br_desired = desired, br_slot = slot, br_data_device_path = device_path,
                            br_payload = payload\<rparr>;
             boot \<leftarrow> ask (BootCall request) (\<lambda>t. w_boot w t request);
             case boot of
               Inl StartBusy \<Rightarrow> do {
                 update_record (di_app_id desired) (\<lambda>r. r\<lparr>ir_state := IsPending, ir_started_at := None,
                   ir_health := initial_tracker,
                   ir_start_attempts := (case existing of
                       Some prior \<Rightarrow> ir_start_attempts prior | None \<Rightarrow> NO_START_ATTEMPTS),
                   ir_message := Some (state_message_new (vm_error_message StartBusy))\<rparr>);
                 done_with None
               }
             | Inl e \<Rightarrow> done_with (Some (Inl (vm_error_message e)))
             | Inr _ \<Rightarrow> done_with (Some (Inr ()))
           }
       }
   }"

definition note_booted :: "world \<Rightarrow> app_id \<Rightarrow> unit act" where
  "note_booted w app_id = do {
     now \<leftarrow> ask NowCall (w_now w);
     let started_at = w_from_epoch_ms w now;
     let booted_at = w_epoch_ms w started_at;
     update_record app_id (\<lambda>r. r\<lparr>ir_started_at := Some started_at, ir_state := IsStarting,
       ir_health := initial_tracker, ir_restart_count := 0, ir_last_restart := None, ir_message := None\<rparr>);
     change (stamp app_id (\<lambda>d. d\<lparr>dp_booted_at_ms := Some booted_at\<rparr>));
     probe_at_once app_id
   }"

definition attempted_record ::
  "desired_instance \<Rightarrow> app_slot \<Rightarrow> instance_record option \<Rightarrow> instance_record" where
  "attempted_record desired slot existing =
     (adopt (fields_with_slot desired slot)
       (case existing of Some r \<Rightarrow> r
        | None \<Rightarrow> record_new (fields_with_slot desired slot) IsPending initial_tracker))
       \<lparr>ir_stop_requested := False\<rparr>"

definition refused_record ::
  "desired_instance \<Rightarrow> app_slot \<Rightarrow> instance_record option \<Rightarrow> instance_record" where
  "refused_record desired slot existing =
     (adopt (fields_with_slot desired slot)
       (case existing of Some r \<Rightarrow> r
        | None \<Rightarrow> record_new (fields_with_slot desired slot) IsFailed initial_tracker))
       \<lparr>ir_state := IsFailed, ir_stop_requested := False\<rparr>"

definition spend_attempt ::
  "desired_instance \<Rightarrow> instance_record option \<Rightarrow> int \<Rightarrow> instance_record \<Rightarrow> instance_record" where
  "spend_attempt desired existing now attempted =
     attempted\<lparr>ir_start_attempts := next_attempt_window
        (case existing of Some r \<Rightarrow> ir_start_attempts r | None \<Rightarrow> NO_START_ATTEMPTS) now
        (rp_reset_after_ms (ac_restart_policy (di_config desired))),
      ir_state := IsPending, ir_started_at := None, ir_health := initial_tracker\<rparr>"

text \<open>What a start does once the record has been read.\<close>

definition start_with ::
  "world \<Rightarrow> host_config \<Rightarrow> desired_instance \<Rightarrow> int \<Rightarrow> instance_record option \<Rightarrow> unit act" where
  "start_with w config desired now existing =
     (case start_refusal (w_fpu w) existing now desired of
       Some (OutOfRestarts attempted allowed) \<Rightarrow>
         say_it_is_out_of_restarts (di_app_id desired) attempted allowed
     | Some UntilTheBackoffIsDone \<Rightarrow> done_with ()
     | None \<Rightarrow> do {
         answer \<leftarrow> slot_for (di_app_id desired);
         case answer of
           Inl _ \<Rightarrow> do { _ \<leftarrow> report_no_slot desired no_slot_left; done_with () }
         | Inr slot \<Rightarrow>
             (case ingress_refusal desired config of
                Some refusal \<Rightarrow> do {
                  put_record (refused_record desired slot existing);
                  _ \<leftarrow> say (di_app_id desired) (state_message_new refusal);
                  done_with ()
                }
              | None \<Rightarrow> do {
                  let attempted = attempted_record desired slot existing;
                  unusable \<leftarrow> volume_refusal (di_volume_id desired);
                  case unusable of
                    Some refusal \<Rightarrow> do {
                      put_record (attempted\<lparr>ir_state := IsFailed\<rparr>);
                      _ \<leftarrow> say (di_app_id desired) refusal;
                      done_with ()
                    }
                  | None \<Rightarrow> do {
                      put_record (spend_attempt desired existing now attempted);
                      mark_active (di_app_id desired) now;
                      booted \<leftarrow> try_boot w desired slot existing;
                      case booted of
                        None \<Rightarrow> done_with ()
                      | Some (Inr _) \<Rightarrow> note_booted w (di_app_id desired)
                      | Some (Inl reason) \<Rightarrow>
                          update_record (di_app_id desired)
                            (\<lambda>r. r\<lparr>ir_state := IsFailed, ir_message := Some (state_message_new reason)\<rparr>)
                    }
                })
       })"

definition start_instance :: "world \<Rightarrow> host_config \<Rightarrow> desired_instance \<Rightarrow> unit act" where
  "start_instance w config desired = do {
     now \<leftarrow> ask NowCall (w_now w);
     existing \<leftarrow> the_record (di_app_id desired);
     start_with w config desired now existing
   }"

section \<open>Resuming\<close>

datatype wake_failure =
    HostStarting | NotNamed | NotOnRequest | NotIsolated | VolumeUnusable | WouldNotStart
  | NeverAnswered | Abandoned

fun wake_failure_str :: "wake_failure \<Rightarrow> string" where
  "wake_failure_str HostStarting = ''host_starting''"
| "wake_failure_str NotNamed = ''not_named''"
| "wake_failure_str NotOnRequest = ''not_on_request''"
| "wake_failure_str NotIsolated = ''not_isolated''"
| "wake_failure_str VolumeUnusable = ''volume_unusable''"
| "wake_failure_str WouldNotStart = ''would_not_start''"
| "wake_failure_str NeverAnswered = ''never_answered''"
| "wake_failure_str Abandoned = ''abandoned''"

datatype wake_refusal = NoRoom nat | WakeFailed wake_failure string

datatype wake_outcome = Restored | AlreadyRunning | ColdBoot

fun wake_outcome_str :: "wake_outcome \<Rightarrow> string" where
  "wake_outcome_str Restored = ''restored''"
| "wake_outcome_str AlreadyRunning = ''already-running''"
| "wake_outcome_str ColdBoot = ''cold-boot''"

definition status_in :: "(app_id, vm_status) btree \<Rightarrow> app_id \<Rightarrow> vm_status" where
  "status_in statuses app_id = (case map_of statuses app_id of Some s \<Rightarrow> s | None \<Rightarrow> UNKNOWN_VM)"

definition cold_boot :: "world \<Rightarrow> host_config \<Rightarrow> desired_instance \<Rightarrow> (wake_refusal + wake_outcome) act" where
  "cold_boot w config desired = do {
     start_instance w config desired;
     found \<leftarrow> the_record (di_app_id desired);
     done_with
       (if (case found of Some r \<Rightarrow> ir_state r \<in> {IsStarting, IsRunning} | None \<Rightarrow> False)
        then Inr ColdBoot
        else Inl (WakeFailed WouldNotStart
               (case Option.bind found ir_message of
                  Some message \<Rightarrow> message | None \<Rightarrow> ''the cold boot did not start'')))
   }"

definition resume_instance ::
  "world \<Rightarrow> host_config \<Rightarrow> desired_instance \<Rightarrow> (wake_refusal + wake_outcome) act" where
  "resume_instance w config desired = do {
     answer \<leftarrow> slot_for (di_app_id desired);
     case answer of
       Inl _ \<Rightarrow> done_with (Inl (WakeFailed WouldNotStart ''this host has no slot left''))
     | Inr slot \<Rightarrow> do {
         statuses \<leftarrow> ask (StatusesCall [di_app_id desired]) (\<lambda>t. w_statuses w t [di_app_id desired]);
         if vs_active (status_in statuses (di_app_id desired)) then done_with (Inr AlreadyRunning)
         else do {
           attached \<leftarrow> ask (AttachCall (di_volume_id desired) (di_app_id desired))
             (\<lambda>t. w_attach w t (di_volume_id desired) (di_app_id desired));
           case attached of
             Inl reason \<Rightarrow> do {
               update_record (di_app_id desired) (\<lambda>r. r\<lparr>ir_message := Some (state_message_new reason)\<rparr>);
               done_with (Inl (WakeFailed VolumeUnusable reason))
             }
           | Inr _ \<Rightarrow> do {
               now \<leftarrow> ask NowCall (w_now w);
               mark_active (di_app_id desired) now;
               let request = \<lparr>sr_app_id = di_app_id desired, sr_deployment_id = di_deployment_id desired,
                              sr_slot = slot\<rparr>;
               woken \<leftarrow> ask (WakeCall request) (\<lambda>t. w_wake w t request);
               case woken of
                 Inr _ \<Rightarrow> do {
                   now \<leftarrow> ask NowCall (w_now w);
                   update_record (di_app_id desired) (\<lambda>r. r\<lparr>ir_state := IsStarting,
                     ir_started_at := Some (w_from_epoch_ms w now), ir_stop_requested := False,
                     ir_message := None\<rparr>);
                   probe_at_once (di_app_id desired);
                   done_with (Inr Restored)
                 }
               | Inl (SnapshotUnusable _) \<Rightarrow> cold_boot w config desired
               | Inl e \<Rightarrow> do {
                   update_record (di_app_id desired)
                     (\<lambda>r. r\<lparr>ir_message := Some (state_message_new (vm_error_message e))\<rparr>);
                   done_with (Inl (WakeFailed WouldNotStart (vm_error_message e)))
                 }
             }
         }
       }
   }"

section \<open>The status loop\<close>

definition unwell ::
  "name_tables \<Rightarrow> instance_state \<Rightarrow> health_tracker \<Rightarrow> instance_record \<Rightarrow> state_message option" where
  "unwell names state health r =
     (if state = IsUnhealthy
      then Some (state_message_new (describe_unhealthy_instance names health (ir_health_check r)))
      else None)"

definition verdict ::
  "world \<Rightarrow> instance_state \<Rightarrow> vm_status \<Rightarrow> health_tracker \<Rightarrow> instance_record \<Rightarrow> state_message option act" where
  "verdict w state status health r =
     (if state \<noteq> IsFailed then done_with (unwell (w_names w) state health r)
      else do {
        guest_verdict \<leftarrow>
          (if vs_active status \<or> ir_started_at r = None then done_with None
           else ask (VerdictCall (ir_app_id r)) (\<lambda>t. w_guest_verdict w t (ir_app_id r)));
        done_with (Some (state_message_new (describe_instance_failure (w_names w) status health
          (ir_health_check r) (ir_http_port r) guest_verdict)))
      })"

definition same_start :: "instance_record \<Rightarrow> instance_record \<Rightarrow> bool" where
  "same_start latest observed \<longleftrightarrow>
     ir_deployment_id latest = ir_deployment_id observed \<and>
     ir_started_at latest = ir_started_at observed \<and>
     ir_start_attempts latest = ir_start_attempts observed"

definition probe_record :: "world \<Rightarrow> instance_record \<Rightarrow> (probe_failure + unit) act" where
  "probe_record w r =
     (if \<not> asks_the_port (ir_health r) (ir_health_check r) then done_with (Inr ())
      else case ir_guest_ipv4 r of
             Some guest_ipv4 \<Rightarrow>
               ask (ProbeCall guest_ipv4 (ir_http_port r) (ir_health_check r))
                 (\<lambda>t. w_probe w t guest_ipv4 (ir_http_port r) (ir_health_check r))
           | None \<Rightarrow> done_with (Inl (Unreachable ''this instance holds no slot to probe'')))"

definition settle_health ::
  "world \<Rightarrow> instance_record \<Rightarrow> vm_status \<Rightarrow> bool \<Rightarrow> int \<Rightarrow> health_tracker act" where
  "settle_health w r status due now_ms =
     (if vs_active status \<and> due then do {
        outcome \<leftarrow> probe_record w r;
        let delay = next_probe_delay_ms (ir_health r) (record_grace_inputs (w_epoch_ms w) r now_ms);
        change (\<lambda>p. if (case map_of (hs_records p) (ir_app_id r) of
                           Some latest \<Rightarrow> same_start latest r | None \<Rightarrow> False)
                    then p\<lparr>hs_next_probe_at_ms :=
                           bt_insert (ir_app_id r) (now_ms + as_i64 delay) (hs_next_probe_at_ms p)\<rparr>
                    else p);
        now \<leftarrow> ask NowCall (w_now w);
        done_with (apply_probe (ir_health r) outcome (w_from_epoch_ms w now)
          (pr_healthy_threshold (probe_of (ir_health_check r))))
      }
      else done_with (ir_health r))"

definition lifecycle_of ::
  "world \<Rightarrow> instance_record \<Rightarrow> vm_status \<Rightarrow> health_tracker \<Rightarrow> bool \<Rightarrow> int \<Rightarrow> lifecycle_inputs" where
  "lifecycle_of w r status health snapshotting now_ms =
     \<lparr>li_unit = status, li_tracker = health, li_health_check = ir_health_check r,
      li_desired_running = ir_desired_running r, li_on_request = ir_on_request r,
      li_stop_requested = ir_stop_requested r, li_snapshotting = snapshotting,
      li_started_at_ms = map_option (w_epoch_ms w) (ir_started_at r), li_now_ms = now_ms,
      li_current = ir_state r\<rparr>"

definition exit_code_of :: "vm_exit \<Rightarrow> int option" where
  "exit_code_of exit = (case exit of VmCode code \<Rightarrow> Some code | VmSignal _ \<Rightarrow> None)"

text \<open>The record after a change of state, where it is still the start that was looked at.\<close>

definition settled_record ::
  "health_tracker \<Rightarrow> instance_state \<Rightarrow> vm_status \<Rightarrow> bool \<Rightarrow> state_message option \<Rightarrow> instance_record \<Rightarrow> instance_record" where
  "settled_record health state status stayed_up message latest =
     (let latest = latest\<lparr>ir_health := health, ir_state := state\<rparr>;
          latest = (case vs_exit status of
                      Some exit \<Rightarrow>
                        if \<not> vs_active status then latest\<lparr>ir_last_exit_code := exit_code_of exit\<rparr> else latest
                    | None \<Rightarrow> latest);
          latest = (if stayed_up then latest\<lparr>ir_start_attempts := NO_START_ATTEMPTS\<rparr> else latest)
      in latest\<lparr>ir_message := message\<rparr>)"

definition settle ::
  "world \<Rightarrow> instance_record \<Rightarrow> vm_status \<Rightarrow> bool \<Rightarrow> bool \<Rightarrow> int \<Rightarrow> unit act" where
  "settle w r status due snapshotting now_ms = do {
     health \<leftarrow> settle_health w r status due now_ms;
     let state = evaluate_instance_state (lifecycle_of w r status health snapshotting now_ms);
     if state = ir_state r then do {
       let said = unwell (w_names w) state health r;
       update_record (ir_app_id r) (\<lambda>latest.
         if \<not> same_start latest r then latest
         else if said \<noteq> None \<and> ir_message latest \<noteq> said
         then latest\<lparr>ir_health := health, ir_message := said\<rparr>
         else latest\<lparr>ir_health := health\<rparr>)
     }
     else do {
       message \<leftarrow> verdict w state status health r;
       let exited = (state = IsFailed \<and> \<not> vs_active status);
       let stayed_up = (exited \<and>
             (case ir_started_at r of
                Some moment \<Rightarrow>
                  now_ms - w_epoch_ms w moment \<ge> as_i64 (rp_reset_after_ms (ir_restart_policy r))
              | None \<Rightarrow> False));
       update_record (ir_app_id r) (\<lambda>latest.
         if same_start latest r then settled_record health state status stayed_up message latest
         else latest)
     }
   }"

text \<open>
  One pass of the status loop. The tasks run side by side, each over its own record and each
  committing only to the start it looked at; here they run in the order of the records.
\<close>

definition refresh_states :: "world \<Rightarrow> unit act" where
  "refresh_states w = do {
     snapshot \<leftarrow> the_snapshot;
     let app_ids = bt_keys (hs_records snapshot);
     statuses \<leftarrow> ask (StatusesCall app_ids) (\<lambda>t. w_statuses w t app_ids);
     now \<leftarrow> ask NowCall (w_now w);
     for_each (bt_values (hs_records snapshot)) (\<lambda>r.
       settle w r (status_in statuses (ir_app_id r))
         (now \<ge> (case map_of (hs_next_probe_at_ms snapshot) (ir_app_id r) of Some t \<Rightarrow> t | None \<Rightarrow> 0))
         (ir_app_id r \<in> hs_snapshotting snapshot) now)
   }"

section \<open>Layers\<close>

definition starting :: "reconcile_plan \<Rightarrow> desired_instance list" where
  "starting plan =
     List.map_filter (\<lambda>action. case action of
         PlanStart desired \<Rightarrow> Some desired
       | PlanReplace desired \<Rightarrow> Some desired
       | PlanRecover desired \<Rightarrow> Some desired
       | _ \<Rightarrow> None) (pl_instances plan)"

fun first_seen :: "'a set \<Rightarrow> 'a list \<Rightarrow> 'a list" where
  "first_seen seen [] = []"
| "first_seen seen (x # xs) =
     (if x \<in> seen then first_seen seen xs else x # first_seen (insert x seen) xs)"

definition layers_of :: "desired_instance list \<Rightarrow> desired_layer list" where
  "layers_of instances = first_seen {} (concat (map di_layers instances))"

definition layers_to_start :: "reconcile_plan \<Rightarrow> desired_layer list" where
  "layers_to_start plan = layers_of (starting plan)"

fun prefetch_loop ::
  "world \<Rightarrow> desired_layer list \<Rightarrow> desired_instance list \<Rightarrow> desired_layer set \<Rightarrow> unit act" where
  "prefetch_loop w [] waiting prepared = done_with ()"
| "prefetch_loop w (layer # layers) waiting prepared = do {
     answer \<leftarrow> ask (PrepareCall [layer]) (\<lambda>t. w_prepare w t [layer]);
     let prepared = (case answer of Inr _ \<Rightarrow> insert layer prepared | Inl _ \<Rightarrow> prepared);
     ready_at \<leftarrow> ask NowCall (w_now w);
     let is_ready = (\<lambda>d. list_all (\<lambda>l. l \<in> prepared) (di_layers d));
     for_each (filter is_ready waiting) (\<lambda>d.
       change (stamp (di_app_id d) (\<lambda>p. p\<lparr>dp_layers_ready_at_ms := Some ready_at\<rparr>)));
     prefetch_loop w layers (filter (\<lambda>d. \<not> is_ready d) waiting) prepared
   }"

definition prefetch_layers :: "world \<Rightarrow> host_config \<Rightarrow> reconcile_plan \<Rightarrow> unit act" where
  "prefetch_layers w config plan =
     (let waiting = filter (\<lambda>d. ingress_refusal d config = None) (starting plan)
      in prefetch_loop w (layers_of waiting) waiting {})"

section \<open>Every handler keeps the host well-formed\<close>

lemma stamp_records [simp]: "hs_records (stamp a f p) = hs_records p"
  by (simp add: stamp_def)

lemma keep_report_no_slot [frame_rules]: "keep.keeps (report_no_slot d m)"
  unfolding report_no_slot_def by (intro frame_rules)

lemma keep_settled [frame_rules]: "keep.keeps settled"
  unfolding settled_def by (intro frame_rules)

lemma keep_close_connections [frame_rules]: "keep.keeps (close_connections a)"
  unfolding close_connections_def by (intro frame_rules)

lemma keep_stop_instance [frame_rules]: "keep.keeps (stop_instance w a)"
  unfolding stop_instance_def by (intro frame_rules) simp_all

lemma keep_say [frame_rules]: "keep.keeps (say a m)"
  unfolding say_def by (intro frame_rules) simp

lemma keep_volume_refusal [frame_rules]: "keep.keeps (volume_refusal v)"
  unfolding volume_refusal_def by (intro frame_rules)

lemma keep_say_out [frame_rules]: "keep.keeps (say_it_is_out_of_restarts a n m)"
  unfolding say_it_is_out_of_restarts_def by (intro frame_rules)

lemma keep_vm_error [frame_rules]:
  "(e = StartBusy \<Longrightarrow> keep.keeps a) \<Longrightarrow> (\<And>x. e = SnapshotUnusable x \<Longrightarrow> keep.keeps (b x)) \<Longrightarrow>
   (\<And>x. e = SleepRefused x \<Longrightarrow> keep.keeps (c x)) \<Longrightarrow> (\<And>x y. e = VmUnreachable x y \<Longrightarrow> keep.keeps (d x y)) \<Longrightarrow>
   (\<And>x y z. e = VmRejected x y z \<Longrightarrow> keep.keeps (f x y z)) \<Longrightarrow> (\<And>x. e = VmHost x \<Longrightarrow> keep.keeps (g x)) \<Longrightarrow>
     keep.keeps (case e of StartBusy \<Rightarrow> a | SnapshotUnusable x \<Rightarrow> b x | SleepRefused x \<Rightarrow> c x
       | VmUnreachable x y \<Rightarrow> d x y | VmRejected x y z \<Rightarrow> f x y z | VmHost x \<Rightarrow> g x)"
  by (cases e) auto

lemma keep_start_refused [frame_rules]:
  "(\<And>x y. e = OutOfRestarts x y \<Longrightarrow> keep.keeps (a x y)) \<Longrightarrow> (e = UntilTheBackoffIsDone \<Longrightarrow> keep.keeps b) \<Longrightarrow>
     keep.keeps (case e of OutOfRestarts x y \<Rightarrow> a x y | UntilTheBackoffIsDone \<Rightarrow> b)"
  by (cases e) auto

lemma keep_suspend_instance [frame_rules]: "keep.keeps (suspend_instance w config a)"
  unfolding suspend_instance_def by (intro frame_rules) simp_all

lemma keep_sleep_instance [frame_rules]: "keep.keeps (sleep_instance d)"
  unfolding sleep_instance_def by (intro frame_rules)

lemma keep_hold_instance [frame_rules]: "keep.keeps (hold_instance d)"
  unfolding hold_instance_def by (intro frame_rules)

lemma keep_wait_for_room [frame_rules]: "keep.keeps (wait_for_room d n)"
  unfolding wait_for_room_def by (intro frame_rules)

lemma keep_try_boot [frame_rules]: "keep.keeps (try_boot w d slot existing)"
  unfolding try_boot_def by (intro frame_rules) simp_all

lemma keep_note_booted [frame_rules]: "keep.keeps (note_booted w a)"
  unfolding note_booted_def by (intro frame_rules) simp_all

lemma keep_start_instance [frame_rules]: "keep.keeps (start_instance w config d)"
  unfolding start_instance_def start_with_def by (intro frame_rules) simp_all

lemma keep_cold_boot [frame_rules]: "keep.keeps (cold_boot w config d)"
  unfolding cold_boot_def by (intro frame_rules)

lemma keep_resume_instance [frame_rules]: "keep.keeps (resume_instance w config d)"
  unfolding resume_instance_def by (intro frame_rules) simp_all

lemma settled_record_app [simp]:
  "ir_app_id (settled_record health state status stayed message r) = ir_app_id r"
  by (simp add: settled_record_def Let_def split: option.splits)

lemma keep_settle [frame_rules]: "keep.keeps (settle w r status due snapshotting now_ms)"
  unfolding settle_def settle_health_def probe_record_def verdict_def by (intro frame_rules) simp_all

lemma keep_refresh_states [frame_rules]: "keep.keeps (refresh_states w)"
  unfolding refresh_states_def by (intro frame_rules)

lemma keep_prefetch_loop [frame_rules]: "keep.keeps (prefetch_loop w layers waiting prepared)"
  by (induction w layers waiting prepared rule: prefetch_loop.induct)
     (unfold prefetch_loop.simps, (intro frame_rules; simp)+)

lemma keep_prefetch_layers [frame_rules]: "keep.keeps (prefetch_layers w config plan)"
  unfolding prefetch_layers_def by (intro frame_rules)

end
