(* ===== verification/InstanceProps.thy ===== *)
theory InstanceProps
  imports Instances
begin

text \<open>
  What the handlers of \<open>instances.rs\<close> guarantee: every failed instance is explained, a boot is
  only attempted when nothing refuses it and on the app's own slot, a suspended app's port is
  handed over before its guest is paused, and the status loop commits only to the start it looked
  at.
\<close>

section \<open>Every failed instance is explained\<close>

definition record_explained :: "instance_record \<Rightarrow> bool" where
  "record_explained r \<longleftrightarrow> (ir_state r = IsFailed \<longrightarrow> ir_message r \<noteq> None)"

definition explained :: "host \<Rightarrow> bool" where
  "explained s \<longleftrightarrow> (\<forall>a r. map_of (hs_records (h_snapshot s)) a = Some r \<longrightarrow> record_explained r)"

interpretation explain: frame "\<lambda>s t. explained s \<longrightarrow> explained t"
  by unfold_locales auto

lemma explain_ask [frame_rules]: "explain.keeps (ask c answer)"
  by (rule explain.keepsI) (simp add: explained_def)

lemma explain_change_aside [frame_rules]:
  "(\<And>p. hs_records (f p) = hs_records p) \<Longrightarrow> explain.keeps (change f)"
  by (rule explain.keepsI) (simp add: explained_def)

lemma explain_put_record:
  "record_explained r \<Longrightarrow> explain.keeps (put_record r)"
  by (rule explain.keepsI) (simp add: explained_def put_record_def)

lemma explain_update_record [frame_rules]:
  "(\<And>r. record_explained r \<Longrightarrow> record_explained (f r)) \<Longrightarrow> explain.keeps (update_record a f)"
  by (rule explain.keepsI) (auto simp: explained_def update_record_def)

lemma explain_reads [frame_rules]:
  "explain.keeps the_snapshot" "explain.keeps (the_record a)" "explain.keeps the_records"
  "explain.keeps (slot_of a)" "explain.keeps the_slots" "explain.keeps forwarded_instances"
  by (simp_all add: shared_state_defs explain.keeps_gets)

lemma explain_slot_for [frame_rules]: "explain.keeps (slot_for a)"
  by (rule explain.keepsI) (simp add: explained_def)

lemma explain_marks [frame_rules]:
  "explain.keeps (mark_active a now_ms)" "explain.keeps (mark_snapshotting a active)"
  "explain.keeps (probe_at_once a)"
  by (simp_all add: mark_active_def mark_snapshotting_def probe_at_once_def explain_change_aside)

lemma explain_vm_error [frame_rules]:
  "(e = StartBusy \<Longrightarrow> explain.keeps a) \<Longrightarrow> (\<And>x. e = SnapshotUnusable x \<Longrightarrow> explain.keeps (b x)) \<Longrightarrow>
   (\<And>x. e = SleepRefused x \<Longrightarrow> explain.keeps (c x)) \<Longrightarrow>
   (\<And>x y. e = VmUnreachable x y \<Longrightarrow> explain.keeps (d x y)) \<Longrightarrow>
   (\<And>x y z. e = VmRejected x y z \<Longrightarrow> explain.keeps (f x y z)) \<Longrightarrow> (\<And>x. e = VmHost x \<Longrightarrow> explain.keeps (g x)) \<Longrightarrow>
     explain.keeps (case e of StartBusy \<Rightarrow> a | SnapshotUnusable x \<Rightarrow> b x | SleepRefused x \<Rightarrow> c x
       | VmUnreachable x y \<Rightarrow> d x y | VmRejected x y z \<Rightarrow> f x y z | VmHost x \<Rightarrow> g x)"
  by (cases e) auto

text \<open>A record read from an explained host, changed without losing its sentence, may be put back.\<close>

lemma explain_with_record:
  assumes "\<And>r. record_explained r \<Longrightarrow> explain.keeps (f (Some r))" and "explain.keeps (f None)"
  shows "explain.keeps (State_Monad.bind (the_record a) f)"
proof (rule explain.keepsI)
  fix s
  show "explained s \<longrightarrow> explained (final (State_Monad.bind (the_record a) f) s)"
  proof
    assume s: "explained s"
    show "explained (final (State_Monad.bind (the_record a) f) s)"
    proof (cases "map_of (hs_records (h_snapshot s)) a")
      case None
      then show ?thesis using s explain.keepsD [OF assms(2), of s] by (simp add: the_record_def)
    next
      case (Some r)
      then have "record_explained r" using s by (simp add: explained_def)
      from explain.keepsD [OF assms(1) [OF this], of s] s Some show ?thesis by (simp add: the_record_def)
    qed
  qed
qed

text \<open>A sentence is put on the record that was just put down failed.\<close>

lemma explain_put_and_say:
  assumes "ir_app_id r = a"
  shows "explain.keeps (do { put_record r; _ \<leftarrow> say a m; done_with () })"
  by (rule explain.keepsI)
     (auto simp: explained_def put_record_def say_def update_record_def the_record_def record_explained_def assms)

lemma explain_apply_network [frame_rules]: "explain.keeps (apply_network w config)"
  unfolding apply_network_def by (intro frame_rules) simp_all

lemma explain_report_no_slot [frame_rules]: "explain.keeps (report_no_slot d m)"
  unfolding report_no_slot_def
  by (intro explain_with_record frame_rules explain_put_record) (auto simp: record_explained_def)

lemma explain_say [frame_rules]: "explain.keeps (say a m)"
  unfolding say_def by (intro frame_rules) (simp add: record_explained_def)

lemma explain_close_connections [frame_rules]: "explain.keeps (close_connections a)" "explain.keeps settled"
  unfolding close_connections_def settled_def by (intro frame_rules)+

lemma explain_stop_instance [frame_rules]: "explain.keeps (stop_instance w a)"
  unfolding stop_instance_def by (intro frame_rules) (simp_all add: record_explained_def)

lemma explain_suspend_instance [frame_rules]: "explain.keeps (suspend_instance w config a)"
  unfolding suspend_instance_def by (intro frame_rules) (simp_all add: record_explained_def)

lemma explain_sleep_instance [frame_rules]: "explain.keeps (sleep_instance d)"
  unfolding sleep_instance_def
  by (intro frame_rules explain_with_record explain_put_record) (simp_all add: record_explained_def)

lemma explain_hold_instance [frame_rules]: "explain.keeps (hold_instance d)"
  unfolding hold_instance_def
  by (intro frame_rules explain_put_record) (simp_all add: record_explained_def)

lemma explain_wait_for_room [frame_rules]: "explain.keeps (wait_for_room d n)"
  unfolding wait_for_room_def
  by (intro frame_rules explain_put_record) (simp_all add: record_explained_def)

lemma explain_try_boot [frame_rules]: "explain.keeps (try_boot w d slot existing)"
  unfolding try_boot_def by (intro frame_rules) (simp_all add: record_explained_def)

lemma explain_note_booted [frame_rules]: "explain.keeps (note_booted w a)"
  unfolding note_booted_def by (intro frame_rules) (simp_all add: record_explained_def)

lemma explain_volume_refusal [frame_rules]: "explain.keeps (volume_refusal v)"
  unfolding volume_refusal_def by (intro frame_rules)

lemma explain_say_out [frame_rules]: "explain.keeps (say_it_is_out_of_restarts a n m)"
  unfolding say_it_is_out_of_restarts_def by (intro frame_rules)

lemma explain_start_refused [frame_rules]:
  "(\<And>x y. e = OutOfRestarts x y \<Longrightarrow> explain.keeps (a x y)) \<Longrightarrow>
   (e = UntilTheBackoffIsDone \<Longrightarrow> explain.keeps b) \<Longrightarrow>
     explain.keeps (case e of OutOfRestarts x y \<Rightarrow> a x y | UntilTheBackoffIsDone \<Rightarrow> b)"
  by (cases e) auto

definition existing_is :: "app_id \<Rightarrow> instance_record option \<Rightarrow> bool" where
  "existing_is a existing \<longleftrightarrow> (\<forall>r. existing = Some r \<longrightarrow> ir_app_id r = a)"

lemma fields_app [simp]: "rf_app_id (fields_with_slot d slot) = di_app_id d"
  by (simp add: fields_with_slot_def fields_of_def)

lemma attempted_record_app:
  "existing_is (di_app_id d) existing \<Longrightarrow> ir_app_id (attempted_record d slot existing) = di_app_id d"
  "existing_is (di_app_id d) existing \<Longrightarrow> ir_app_id (refused_record d slot existing) = di_app_id d"
  by (auto simp: attempted_record_def refused_record_def existing_is_def split: option.splits)

lemma explain_start_with:
  assumes "existing_is (di_app_id d) existing"
  shows "explain.keeps (start_with w config d now existing)"
  unfolding start_with_def
  by (intro explain_put_and_say frame_rules explain_put_record)
     (simp_all add: record_explained_def attempted_record_app assms spend_attempt_def)

lemma existing_of_wf:
  "host_wf s \<Longrightarrow> existing_is a (map_of (hs_records (h_snapshot s)) a)"
  by (auto simp: existing_is_def host_wf_def records_wf_def)

lemma start_instance_explained:
  assumes "host_wf s" "explained s"
  shows "explained (final (start_instance w config d) s)"
proof -
  let ?s = "s\<lparr>h_trace := h_trace s @ [NowCall]\<rparr>"
  have "explain.keeps (start_with w config d (w_now w (h_trace s)) (map_of (hs_records (h_snapshot s)) (di_app_id d)))"
    by (rule explain_start_with) (rule existing_of_wf [OF assms(1)])
  from explain.keepsD [OF this, of ?s] assms(2) show ?thesis
    by (simp add: start_instance_def the_record_def explained_def)
qed

text \<open>
  The status loop: a record that goes down says why, and one that stays down keeps its sentence.
\<close>

lemma explain_settle_health [frame_rules]: "explain.keeps (settle_health w r status due now_ms)"
  unfolding settle_health_def probe_record_def by (intro frame_rules) simp_all

lemma verdict_explains: "state = IsFailed \<longrightarrow> result (verdict w state status health r) s \<noteq> None"
  by (simp add: verdict_def)

lemma explain_verdict [frame_rules]: "explain.keeps (verdict w state status health r)"
  unfolding verdict_def by (intro frame_rules)

lemma explain_bind_verdict:
  assumes "\<And>m. (state = IsFailed \<longrightarrow> m \<noteq> None) \<Longrightarrow> explain.keeps (f m)"
  shows "explain.keeps (State_Monad.bind (verdict w state status health r) f)"
  by (rule explain.keeps_bind_with [where P = "\<lambda>m. state = IsFailed \<longrightarrow> m \<noteq> None"])
     (intro verdict_explains explain_verdict assms; assumption)+

lemma settled_record_explained:
  "(state = IsFailed \<longrightarrow> message \<noteq> None) \<Longrightarrow>
     record_explained (settled_record health state status stayed message r)"
  by (simp add: record_explained_def settled_record_def Let_def split: option.splits)

lemma explain_settle [frame_rules]: "explain.keeps (settle w r status due snapshotting now_ms)"
proof -
  have commit: "explain.keeps (update_record (ir_app_id r) (\<lambda>latest.
      if same_start latest r then settled_record health state status stayed message latest else latest))"
    if "state = IsFailed \<longrightarrow> message \<noteq> None" for health state stayed message
    using that by (intro explain_update_record) (simp add: settled_record_explained)
  show ?thesis
    unfolding settle_def
    by (intro explain_bind_verdict commit frame_rules)
       (auto simp: record_explained_def)
qed

lemma explain_refresh_states [frame_rules]: "explain.keeps (refresh_states w)"
  unfolding refresh_states_def by (intro frame_rules)

text \<open>A well-formed host whose failed instances are explained stays one.\<close>

definition sound_host :: "host \<Rightarrow> bool" where
  "sound_host s \<longleftrightarrow> host_wf s \<and> explained s"

interpretation sound: frame "\<lambda>s t. sound_host s \<longrightarrow> sound_host t"
  by unfold_locales auto

lemma sound_of: "keep.keeps m \<Longrightarrow> explain.keeps m \<Longrightarrow> sound.keeps m"
  by (rule sound.keepsI, drule keep.keepsD, drule explain.keepsD)
     (auto simp: sound_host_def host_frame_def)

lemma sound_leaves [frame_rules]:
  "sound.keeps (ask c answer)" "sound.keeps (slot_for a)" "sound.keeps (the_record a)" "sound.keeps the_records"
  "sound.keeps (mark_active a now_ms)" "sound.keeps (probe_at_once a)" "sound.keeps the_snapshot"
  by (rule sound_of; intro frame_rules)+

lemma sound_update_record [frame_rules]:
  "(\<And>r. record_explained r \<Longrightarrow> record_explained (f r)) \<Longrightarrow> (\<And>r. ir_app_id (f r) = ir_app_id r) \<Longrightarrow>
     sound.keeps (update_record a f)"
  by (rule sound_of; intro frame_rules)

lemma sound_handlers [frame_rules]:
  "sound.keeps (stop_instance w a)" "sound.keeps (suspend_instance w config a)"
  "sound.keeps (sleep_instance d)" "sound.keeps (hold_instance d)" "sound.keeps (wait_for_room d n)"
  "sound.keeps (refresh_states w)" "sound.keeps (apply_network w config)"
  by (rule sound_of; intro frame_rules)+

lemma sound_start_instance [frame_rules]: "sound.keeps (start_instance w config d)"
proof (rule sound.keepsI)
  fix s
  show "sound_host s \<longrightarrow> sound_host (final (start_instance w config d) s)"
    using keep.keepsD [OF keep_start_instance, of s w config d] start_instance_explained [of s w config d]
    by (auto simp: sound_host_def host_frame_def)
qed

lemma sound_vm_error [frame_rules]:
  "(e = StartBusy \<Longrightarrow> sound.keeps a) \<Longrightarrow> (\<And>x. e = SnapshotUnusable x \<Longrightarrow> sound.keeps (b x)) \<Longrightarrow>
   (\<And>x. e = SleepRefused x \<Longrightarrow> sound.keeps (c x)) \<Longrightarrow>
   (\<And>x y. e = VmUnreachable x y \<Longrightarrow> sound.keeps (d x y)) \<Longrightarrow>
   (\<And>x y z. e = VmRejected x y z \<Longrightarrow> sound.keeps (f x y z)) \<Longrightarrow> (\<And>x. e = VmHost x \<Longrightarrow> sound.keeps (g x)) \<Longrightarrow>
     sound.keeps (case e of StartBusy \<Rightarrow> a | SnapshotUnusable x \<Rightarrow> b x | SleepRefused x \<Rightarrow> c x
       | VmUnreachable x y \<Rightarrow> d x y | VmRejected x y z \<Rightarrow> f x y z | VmHost x \<Rightarrow> g x)"
  by (cases e) auto

lemma sound_cold_boot [frame_rules]: "sound.keeps (cold_boot w config d)"
  unfolding cold_boot_def by (intro frame_rules)

lemma sound_resume_instance [frame_rules]: "sound.keeps (resume_instance w config d)"
  unfolding resume_instance_def by (intro frame_rules) (simp_all add: record_explained_def)

section \<open>When a boot is attempted\<close>

lemma silent [simp]:
  "h_trace (final (put_record r) s) = h_trace s"
  "h_trace (final (update_record a f) s) = h_trace s"
  "h_trace (final (the_record a) s) = h_trace s"
  "h_trace (final (mark_active a n) s) = h_trace s"
  "h_trace (final (mark_snapshotting a b) s) = h_trace s"
  "h_trace (final (probe_at_once a) s) = h_trace s"
  "h_trace (final (say a m) s) = h_trace s"
  "h_trace (final (say_it_is_out_of_restarts a x y) s) = h_trace s"
  "h_trace (final (report_no_slot d m) s) = h_trace s"
  "h_trace (final (volume_refusal v) s) = h_trace s"
  by (simp_all add: shared_state_defs say_def say_it_is_out_of_restarts_def report_no_slot_def
      volume_refusal_def Let_def split: option.splits)

lemma settled_allocs [simp]:
  "h_alloc (final (put_record r) s) = h_alloc s" "h_alloc (final (update_record a f) s) = h_alloc s"
  "h_alloc (final (mark_active a n) s) = h_alloc s" "h_alloc (final (probe_at_once a) s) = h_alloc s"
  "h_alloc (final (note_booted w a) s) = h_alloc s" "h_alloc (final (volume_refusal v) s) = h_alloc s"
  by (simp_all add: shared_state_defs note_booted_def volume_refusal_def Let_def)

lemma note_booted_trace [simp]: "h_trace (final (note_booted w a) s) = h_trace s @ [NowCall]"
  by (simp add: note_booted_def Let_def)

definition boot_calls :: "desired_instance \<Rightarrow> boot_request \<Rightarrow> trace" where
  "boot_calls d req = [PrepareCall (di_layers d), AttachCall (di_volume_id d) (di_app_id d), NowCall,
     RouterCloseCall (di_app_id d), ActivatorCloseCall (di_app_id d), BootCall req]"

lemma try_boot_calls:
  "h_trace (final (try_boot w d slot existing) s) =
     (case w_prepare w (h_trace s) (di_layers d) of
        Inl _ \<Rightarrow> h_trace s @ [PrepareCall (di_layers d)]
      | Inr payload \<Rightarrow>
          case w_attach w (h_trace s @ [PrepareCall (di_layers d)]) (di_volume_id d) (di_app_id d) of
            Inl _ \<Rightarrow> h_trace s @ [PrepareCall (di_layers d), AttachCall (di_volume_id d) (di_app_id d)]
          | Inr path \<Rightarrow> h_trace s @ boot_calls d
              \<lparr>br_desired = d, br_slot = slot, br_data_device_path = path, br_payload = payload\<rparr>)"
  by (simp add: try_boot_def close_connections_def boot_calls_def Let_def split: sum.splits vm_error.splits)

lemma try_boot_alloc [simp]: "h_alloc (final (try_boot w d slot existing) s) = h_alloc s"
  by (simp add: try_boot_def close_connections_def Let_def split: sum.splits vm_error.splits)

lemma result_volume_refusal:
  "result (volume_refusal v) s = None \<longleftrightarrow>
     (\<forall>report \<in> set (hs_volume_reports (h_snapshot s)). rv_volume_id report = v \<longrightarrow> rv_state report \<noteq> VolFailed)"
  by (auto simp: volume_refusal_def the_snapshot_def find_None_iff)

lemma allocated_slot:
  assumes "alloc_wf alloc" "fst (allocate a alloc) = Inr slot"
  shows "map_of (sa_assignments (snd (allocate a alloc))) a = Some (sl_slot slot) \<and> sl_app_id slot = a"
  using assms(2) describe_slot_slot
  by (auto simp: allocate_def described_def split: option.splits)

text \<open>
  (C9) A boot is never attempted past a refusal. If a start asks the hypervisor to boot anything,
  then the restart budget was not spent and the backoff was over, the host can put every port the
  document asks for within reach, and the volume is not one the last pass failed to make ready;
  what is booted is the document's instance, on the slot that is this app's own; its layers were
  prepared and its volume attached just before, on the device the boot is given, and the proxy's
  connections to the app were closed; and it is asked once.
\<close>

theorem boots_are_admitted:
  assumes "host_wf s"
    and "h_trace (final (start_instance w config d) s) = h_trace s @ calls"
    and "BootCall req \<in> set calls"
  shows "start_refusal (w_fpu w) (map_of (hs_records (h_snapshot s)) (di_app_id d)) (w_now w (h_trace s)) d = None \<and>
         ingress_refusal d config = None \<and>
         (\<forall>report \<in> set (hs_volume_reports (h_snapshot s)).
            rv_volume_id report = di_volume_id d \<longrightarrow> rv_state report \<noteq> VolFailed) \<and>
         br_desired req = d \<and> sl_app_id (br_slot req) = di_app_id d \<and>
         map_of (sa_assignments (h_alloc (final (start_instance w config d) s))) (di_app_id d) =
           Some (sl_slot (br_slot req)) \<and>
         w_prepare w (h_trace s @ [NowCall]) (di_layers d) = Inr (br_payload req) \<and>
         w_attach w (h_trace s @ [NowCall, PrepareCall (di_layers d)]) (di_volume_id d) (di_app_id d) =
           Inr (br_data_device_path req) \<and>
         (calls = NowCall # boot_calls d req \<or> calls = NowCall # boot_calls d req @ [NowCall])"
proof -
  let ?ex = "map_of (hs_records (h_snapshot s)) (di_app_id d)"
  let ?now = "w_now w (h_trace s)"
  let ?s = "s\<lparr>h_trace := h_trace s @ [NowCall]\<rparr>"
  have run: "final (start_instance w config d) s = final (start_with w config d ?now ?ex) ?s"
    by (simp add: start_instance_def the_record_def)
  have wf: "alloc_wf (h_alloc s)" using assms(1) by (simp add: host_wf_def)
  have refusal: "start_refusal (w_fpu w) ?ex ?now d = None"
    using assms(2,3) unfolding run
    by (cases "start_refusal (w_fpu w) ?ex ?now d") (auto simp: start_with_def split: start_refused.splits)
  obtain slot where slot: "fst (allocate (di_app_id d) (h_alloc s)) = Inr slot"
    using assms(2,3) unfolding run
    by (cases "fst (allocate (di_app_id d) (h_alloc s))") (auto simp: start_with_def refusal)
  have ingress: "ingress_refusal d config = None"
    using assms(2,3) unfolding run
    by (cases "ingress_refusal d config") (auto simp: start_with_def refusal slot)
  have volume: "result (volume_refusal (di_volume_id d)) (final (slot_for (di_app_id d)) ?s) = None"
    using assms(2,3) unfolding run
    by (cases "result (volume_refusal (di_volume_id d)) (final (slot_for (di_app_id d)) ?s)")
       (auto simp: start_with_def refusal slot ingress Let_def)
  then have ready: "\<forall>report \<in> set (hs_volume_reports (h_snapshot s)).
      rv_volume_id report = di_volume_id d \<longrightarrow> rv_state report \<noteq> VolFailed"
    by (simp only: result_volume_refusal) simp
  note admitted = start_with_def refusal slot ingress volume Let_def
  have alloc: "h_alloc (final (start_instance w config d) s) = snd (allocate (di_app_id d) (h_alloc s))"
    unfolding run using volume by (auto simp: admitted split: option.splits sum.splits)
  have calls: "calls = NowCall # boot_calls d req \<or> calls = NowCall # boot_calls d req @ [NowCall]"
    and prepare: "w_prepare w (h_trace s @ [NowCall]) (di_layers d) = Inr (br_payload req)"
    and attach: "w_attach w (h_trace s @ [NowCall, PrepareCall (di_layers d)]) (di_volume_id d) (di_app_id d) =
        Inr (br_data_device_path req)"
    and req: "br_desired req = d" "br_slot req = slot"
    using assms(2,3) volume unfolding run
    by (auto simp: admitted try_boot_calls boot_calls_def split: option.splits sum.splits)
  show ?thesis
    using refusal ingress ready req allocated_slot [OF wf slot] alloc prepare attach calls by simp
qed

text \<open>A host on which everything outside the daemon answers, for the witnesses.\<close>

definition calm_world :: world where
  "calm_world = \<lparr>w_now = (\<lambda>t. 1000 * int (length t)), w_boot = (\<lambda>_ _. Inr ()), w_sleep = (\<lambda>_ _. Inr ()),
     w_wake = (\<lambda>_ _. Inr ()), w_stop = (\<lambda>_ _. Inr ()), w_tap_names = (\<lambda>_. []), w_adopted = (\<lambda>_. []),
     w_statuses = (\<lambda>_ _. []), w_guest_verdict = (\<lambda>_ _. None),
     w_prepare = (\<lambda>_ _. Inr \<lparr>pp_layer_image_paths = [], pp_fetched_bytes = 0\<rparr>),
     w_attach = (\<lambda>_ _ _. Inr ''/dev/nbd0''), w_firewall = (\<lambda>_ _. Inr ()), w_traffic = (\<lambda>_. Inr []),
     w_probe = (\<lambda>_ _ _ _. Inr ()), w_open_requests = (\<lambda>_. []),
     w_observe_volumes = (\<lambda>_ _. []),
     w_provision = (\<lambda>_ v. Inr \<lparr>av_volume_id = dv_volume_id v, av_size_bytes = dv_size_bytes v,
       av_storage_prefix = ''p'', av_device_path = ''/dev/nbd0''\<rparr>),
     w_teardown = (\<lambda>_ _ _. Inr ()), w_detach = (\<lambda>_ _ _. Inr ()), w_flush = (\<lambda>_. Inr ()),
     w_observe_checkpoints = (\<lambda>t. List.map_filter
       (\<lambda>c. case c of CreateCheckpointCall i \<Rightarrow> Some i | _ \<Rightarrow> None) t),
     w_create_checkpoint = (\<lambda>_ _. Inr ()), w_delete_checkpoint = (\<lambda>_ _. Inr ()),
     w_crontab = (\<lambda>_ _. Inr None), w_freeze = (\<lambda>_ _. Inr ()), w_lease_held = (\<lambda>_ _. Inr ()),
     w_read_staging = (\<lambda>_ _ _. Inr ()), w_bundle = (\<lambda>_ _. Inr (''b'', 1)), w_upload = (\<lambda>_ _ _. Inr ()),
     w_cron_sync = (\<lambda>_ _. Inr ()), w_instant = (\<lambda>t. 5000000 * length t), w_meanwhile = (\<lambda>_ p. p), w_epoch_ms = (\<lambda>t. int (length t)),
     w_from_epoch_ms = (\<lambda>n. replicate (nat n) CHR ''x''), w_fpu = real_unit,
     w_names = \<lparr>nt_signal_name = (\<lambda>_. None), nt_status_reason = (\<lambda>_. None)\<rparr>\<rparr>"

definition sample_host_config :: host_config where
  "sample_host_config = \<lparr>cf_guest_memory_mib = 4096, cf_proxy_http = True, cf_raw_max_ports = Some 7,
     cf_denied_v4 = [], cf_denied_v6 = []\<rparr>"

definition fresh_host :: host where
  "fresh_host = \<lparr>h_snapshot = default_snapshot, h_alloc = addressing 8, h_document = None,
     h_cron_runs = [], h_trace = []\<rparr>"

lemma fresh_host_wf: "host_wf fresh_host"
  using alloc_wf_addressing [of 8]
  by (simp add: host_wf_def fresh_host_def records_wf_def default_snapshot_def config_apps_Inr most_apps_value)

lemma first_slot: "fst (allocate a (addressing 8)) = Inr (the (describe_slot 0 a))"
  by (simp add: allocate_def addressing_def next_free_def slot_span_def FIRST_SLOT_def wrapped_def
      bt_values_def smod_int_alt_def upt_rec described_eq most_apps_value)

lemma sample_ingress: "ingress_refusal sample_instance sample_host_config = None"
  by (simp add: ingress_refusal_def sample_instance_def sample_host_config_def sample_config_def
      validate_ports_def all_ports_def HTTP_PORT_NAME_def)

theorem boots_are_admitted_witness:
  "\<exists>req. BootCall req \<in> set (h_trace (final (start_instance calm_world sample_host_config sample_instance) fresh_host)) \<and>
     sl_app_id (br_slot req) = ''app-1'' \<and> br_data_device_path req = ''/dev/nbd0''"
proof -
  let ?s = "final (start_instance calm_world sample_host_config sample_instance) fresh_host"
  let ?req = "\<lparr>br_desired = sample_instance, br_slot = the (describe_slot 0 (di_app_id sample_instance)),
    br_data_device_path = ''/dev/nbd0'', br_payload = \<lparr>pp_layer_image_paths = [], pp_fetched_bytes = 0\<rparr>\<rparr>"
  have boot: "BootCall ?req \<in> set (h_trace ?s)"
    by (simp add: start_instance_def start_with_def the_record_def start_refusal_def fresh_host_def
        default_snapshot_def first_slot sample_ingress volume_refusal_def the_snapshot_def try_boot_calls
        boot_calls_def calm_world_def Let_def put_record_def mark_active_def split: option.splits sum.splits)
  have trace: "h_trace ?s = h_trace fresh_host @ h_trace ?s"
    by (simp add: fresh_host_def)
  have "sl_app_id (br_slot ?req) = di_app_id sample_instance"
    using boots_are_admitted [OF fresh_host_wf trace boot] by blast
  with boot show ?thesis by (auto simp: sample_instance_def)
qed

section \<open>Going to sleep\<close>

lemma snapshotting_not_forwarded:
  "a \<in> hs_snapshotting p \<Longrightarrow> a \<notin> fi_app_id ` set (forwarded_from p alloc)"
  by (auto simp: forwarded_cases)

lemma forwarded_from_isolated [simp]:
  "forwarded_from (p\<lparr>hs_isolated := b\<rparr>) alloc = forwarded_from p alloc"
  by (simp add: forwarded_from_def)

definition fw_of :: "host_config \<Rightarrow> host_snapshot \<Rightarrow> slot_allocator \<Rightarrow> firewall_state" where
  "fw_of config p alloc = \<lparr>fw_instances = forwarded_from p alloc, fw_denied_v4 = cf_denied_v4 config,
     fw_denied_v6 = cf_denied_v6 config\<rparr>"

lemma final_apply_network:
  "final (apply_network w config) s =
     s\<lparr>h_trace := h_trace s @ [FirewallCall (fw_of config (h_snapshot s) (h_alloc s))],
       h_snapshot := (h_snapshot s)\<lparr>hs_isolated :=
         \<not> isl (w_firewall w (h_trace s) (fw_of config (h_snapshot s) (h_alloc s)))\<rparr>\<rparr>"
  by (simp add: apply_network_def forwarded_instances_def fw_of_def Let_def split: sum.splits)

text \<open>
  (C10) A suspended app's port is handed over before its guest is paused. Putting an app with a slot
  to sleep first loads a ruleset that forwards nothing to it, then closes the proxy's connections,
  flushes the disk, and only then asks for the snapshot, on the app's own slot. If the snapshot is
  taken the app is idle with its attempts given back and nothing more is called; if it is not, the
  record is untouched and a ruleset that forwards to the app again, if it was running, is loaded.
\<close>

theorem sleep_hands_the_port_over_first:
  assumes "host_wf s" and "map_of (hs_records (h_snapshot s)) app_id = Some r"
    and "lookup (h_alloc s) app_id = Some slot" and "app_id \<notin> hs_snapshotting (h_snapshot s)"
  shows "\<exists>fw more. h_trace (final (suspend_instance w config app_id) s) =
             h_trace s @ [FirewallCall fw, RouterCloseCall app_id, ActivatorCloseCall app_id, FlushCall,
               SleepCall \<lparr>sr_app_id = app_id, sr_deployment_id = ir_deployment_id r, sr_slot = slot\<rparr>] @ more \<and>
           app_id \<notin> fi_app_id ` set (fw_instances fw) \<and>
           app_id \<notin> hs_snapshotting (h_snapshot (final (suspend_instance w config app_id) s)) \<and>
           (if result (suspend_instance w config app_id) s = Some Slept
            then more = [] \<and>
              map_of (hs_records (h_snapshot (final (suspend_instance w config app_id) s))) app_id =
                Some (r\<lparr>ir_state := IsIdle, ir_stop_requested := True, ir_start_attempts := NO_START_ATTEMPTS,
                        ir_message := None\<rparr>)
            else (\<exists>again. more = [FirewallCall again] \<and>
              (ir_state r = IsRunning \<longrightarrow> app_id \<in> fi_app_id ` set (fw_instances again))) \<and>
              hs_records (h_snapshot (final (suspend_instance w config app_id) s)) = hs_records (h_snapshot s))"
proof -
  let ?p = "(h_snapshot s)\<lparr>hs_snapshotting := insert app_id (hs_snapshotting (h_snapshot s))\<rparr>"
  let ?fw = "fw_of config ?p (h_alloc s)"
  let ?req = "\<lparr>sr_app_id = app_id, sr_deployment_id = ir_deployment_id r, sr_slot = slot\<rparr>"
  let ?t = "h_trace s @ [FirewallCall ?fw, RouterCloseCall app_id, ActivatorCloseCall app_id, FlushCall]"
  note run = suspend_instance_def assms(2,3) close_connections_def settled_def mark_snapshotting_def
    the_record_def slot_of_def update_record_def final_apply_network final_do_when Let_def
  have away: "app_id \<notin> fi_app_id ` set (fw_instances ?fw)"
    by (simp add: fw_of_def snapshotting_not_forwarded)
  show ?thesis
  proof (cases "w_sleep w ?t ?req")
    case (Inr u)
    with away show ?thesis
      by (intro exI [of _ ?fw] exI [of _ "[]"]) (simp add: run)
  next
    case (Inl e)
    let ?returned = "?p\<lparr>hs_isolated := \<not> isl (w_firewall w (h_trace s) ?fw),
      hs_snapshotting := hs_snapshotting (h_snapshot s)\<rparr>"
    let ?again = "fw_of config ?returned (h_alloc s)"
    have returned: "app_id \<in> fi_app_id ` set (fw_instances ?again)" if "ir_state r = IsRunning"
    proof -
      have "r \<in> set (bt_values (hs_records (h_snapshot s)))"
        using assms(2) by (force simp: bt_values_def dest: map_of_SomeD)
      moreover have "ir_app_id r = app_id"
        using assms(1,2) by (auto simp: host_wf_def records_wf_def)
      ultimately show ?thesis
        using that assms(3,4)
        by (intro rev_image_eqI [of "\<lparr>fi_app_id = ir_app_id r,
             fi_ports = \<lparr>fp_host_port = sl_host_port slot, fp_guest_port = ir_http_port r, fp_raw = False\<rparr> #
               map (\<lambda>p. \<lparr>fp_host_port = rpt_host_port p, fp_guest_port = rpt_guest_port p, fp_raw = True\<rparr>) (ir_ports r),
             fi_host_ipv4 = sl_host_ipv4 slot, fi_guest_ipv4 = sl_guest_ipv4 slot\<rparr>"])
           (auto simp: fw_of_def forwarded_cases)
    qed
    have failed: "result (suspend_instance w config app_id) s \<noteq> Some Slept"
      using Inl by (simp add: run split: vm_error.splits)
    have "h_trace (final (suspend_instance w config app_id) s) =
        ?t @ [SleepCall ?req, FirewallCall ?again]"
      using Inl assms(4) by (cases e) (simp_all add: run)
    moreover have "hs_records (h_snapshot (final (suspend_instance w config app_id) s)) = hs_records (h_snapshot s)"
      "app_id \<notin> hs_snapshotting (h_snapshot (final (suspend_instance w config app_id) s))"
      using Inl by (simp_all add: run split: vm_error.splits)
    ultimately show ?thesis
      using away returned failed by (intro exI [of _ ?fw] exI [of _ "[FirewallCall ?again]"]) simp
  qed
qed

definition serving_host :: host where
  "serving_host = fresh_host\<lparr>h_alloc := snd (allocate ''app-a'' (addressing 8)),
     h_snapshot := default_snapshot\<lparr>hs_records := [(''app-a'', sample_record)]\<rparr>\<rparr>"

lemma serving_host_wf: "host_wf serving_host"
proof -
  have "alloc_wf (addressing 8)"
    by (rule alloc_wf_addressing) (simp add: config_apps_Inr most_apps_value)
  then show ?thesis
    by (simp add: host_wf_def serving_host_def fresh_host_def records_wf_def default_snapshot_def
        bt_wf_def alloc_wf_allocate)
qed

lemma serving_host_slot: "lookup (h_alloc serving_host) ''app-a'' = Some (the (describe_slot 0 ''app-a''))"
proof -
  have "map_of (sa_assignments (h_alloc serving_host)) ''app-a'' = Some 0"
    by (simp add: serving_host_def fresh_host_def allocate_def addressing_def next_free_def
        slot_span_def FIRST_SLOT_def wrapped_def bt_values_def smod_int_alt_def upt_rec)
  then show ?thesis by (simp add: lookup_def describe_slot_eq most_apps_value)
qed

theorem sleep_hands_the_port_over_first_witness:
  "\<exists>fw more. h_trace (final (suspend_instance calm_world sample_host_config ''app-a'') serving_host) =
     FirewallCall fw # more \<and> ''app-a'' \<notin> fi_app_id ` set (fw_instances fw)"
proof -
  have "map_of (hs_records (h_snapshot serving_host)) ''app-a'' = Some sample_record"
    "''app-a'' \<notin> hs_snapshotting (h_snapshot serving_host)" "h_trace serving_host = []"
    by (simp_all add: serving_host_def fresh_host_def default_snapshot_def)
  with sleep_hands_the_port_over_first
      [OF serving_host_wf _ serving_host_slot, of sample_record calm_world sample_host_config]
  show ?thesis by auto
qed

section \<open>The status loop commits only to what it looked at\<close>

lemma bt_modify_id: "bt_modify k (\<lambda>x. x) m = m"
  by (induction m) (auto simp: bt_modify_def)

lemma bt_modify_at:
  assumes "bt_wf m" "\<And>v. map_of m k = Some v \<Longrightarrow> f v = v"
  shows "bt_modify k f m = m"
proof -
  have "(case e of (a, b) \<Rightarrow> (a, if a = k then f b else b)) = e" if "e \<in> set m" for e
  proof -
    obtain a b where e: "e = (a, b)" by fastforce
    then have "map_of m a = Some b" using that bt_wf_map_of [OF assms(1)] by simp
    with e assms(2) show ?thesis by auto
  qed
  then show ?thesis unfolding bt_modify_def by (simp add: map_idI)
qed

lemma settle_health_stale:
  assumes "\<not> (case map_of (hs_records (h_snapshot s)) (ir_app_id r) of
               Some latest \<Rightarrow> same_start latest r | None \<Rightarrow> False)"
  shows "h_snapshot (final (settle_health w r status due now_ms) s) = h_snapshot s"
proof -
  have "h_snapshot (final (probe_record w r) t) = h_snapshot t" for t
    by (simp add: probe_record_def split: option.splits)
  with assms show ?thesis by (simp add: settle_health_def Let_def)
qed

lemma verdict_quiet: "h_snapshot (final (verdict w state status health r) s) = h_snapshot s"
  by (simp add: verdict_def)

text \<open>
  The status loop never overwrites a newer start. It works on a reading of the record taken
  before it probed; when the app has meanwhile been started again, redeployed or forgotten, the
  whole pass over it leaves the host's state exactly as it finds it.
\<close>

lemma stale_reading_changes_nothing:
  assumes "host_wf s"
    and "\<And>latest. map_of (hs_records (h_snapshot s)) (ir_app_id r) = Some latest \<Longrightarrow> \<not> same_start latest r"
  shows "h_snapshot (final (settle w r status due snapshotting now_ms) s) = h_snapshot s \<and>
         h_alloc (final (settle w r status due snapshotting now_ms) s) = h_alloc s"
proof -
  have wf: "bt_wf (hs_records (h_snapshot s))" using assms(1) by (simp add: host_wf_def records_wf_def)
  let ?f = "\<lambda>g latest. if same_start latest r then g latest else latest"
  have same: "h_snapshot (final (settle_health w r status due now_ms) s) = h_snapshot s"
    using assms(2) by (intro settle_health_stale) (auto split: option.splits)
  have kept: "bt_modify (ir_app_id r) (\<lambda>latest. if same_start latest r then g latest else latest)
      (hs_records (h_snapshot s)) = hs_records (h_snapshot s)" for g
    using assms(2) by (intro bt_modify_at [OF wf]) auto
  have kept': "bt_modify (ir_app_id r) (\<lambda>latest. if \<not> same_start latest r then latest else g latest)
      (hs_records (h_snapshot s)) = hs_records (h_snapshot s)" for g
    using assms(2) by (intro bt_modify_at [OF wf]) auto
  have alloc: "h_alloc (final (settle_health w r status due now_ms) s) = h_alloc s"
    "h_alloc (final (verdict w st status h r) t) = h_alloc t" for st h t
    by (simp_all add: settle_health_def probe_record_def verdict_def Let_def split: option.splits)
  show ?thesis
    by (simp only: settle_def Let_def final_bind final_if update_record_def final_change same kept kept'
        verdict_quiet alloc) (simp add: same alloc kept kept' verdict_quiet)
qed

end
