(* ===== verification/Storage.thy ===== *)
theory Storage
  imports InstanceProps
begin

text \<open>
  Volumes, checkpoints and exports
  (\<open>crates/nibrunnerd/src/domain/reconcile/{volumes,checkpoints,exports}.rs\<close>): what a pass
  provisions, tears down, cuts and writes, and what it reports of each. The volume backend, the
  freeze of a guest and the dump of a volume into its bundle are calls to the world.
\<close>

section \<open>Volumes\<close>

datatype trigger = TriggerChange | TriggerDeferred | TriggerRestart | TriggerTick

definition volume_owners ::
  "host_desired_state \<Rightarrow> (app_id, instance_record) btree \<Rightarrow> (volume_id, app_id) btree" where
  "volume_owners desired records =
     fold (\<lambda>v. bt_insert (dv_volume_id v) (dv_app_id v)) (hd_volumes desired)
       (bt_collect (map (\<lambda>r. (ir_volume_id r, ir_app_id r)) (bt_values records)))"

definition observe_volumes :: "world \<Rightarrow> (volume_id, app_id) btree \<Rightarrow> observed_volume list act" where
  "observe_volumes w owners = do {
     backings \<leftarrow> ask (ObserveVolumesCall owners) (\<lambda>t. w_observe_volumes w t owners);
     done_with (List.map_filter (\<lambda>b. map_option (\<lambda>app_id.
       \<lparr>ov_volume_id = bv_volume_id b, ov_app_id = app_id, ov_attached = bv_attached b,
        ov_formatted = bv_formatted b, ov_size_bytes = bv_size_bytes b,
        ov_storage_prefix = bv_storage_prefix b, ov_device_path = bv_device_path b\<rparr>)
       (map_of owners (bv_volume_id b))) backings)
   }"

definition to_reported_volume :: "observed_volume \<Rightarrow> state_message option \<Rightarrow> reported_volume" where
  "to_reported_volume observed last_refusal =
     (let (state, message) =
        (if ov_attached observed \<and> ov_formatted observed then (VolReady, None)
         else if ov_attached observed then (VolFailed, last_refusal)
         else case ov_device_path observed of
                Some device_path \<Rightarrow>
                  (VolFailed, Some (state_message_new
                     (device_path @ '' is not answering and is being re-attached'')))
              | None \<Rightarrow> (VolDetached, None))
      in \<lparr>rv_volume_id = ov_volume_id observed, rv_app_id = ov_app_id observed, rv_state = state,
          rv_size_bytes = ov_size_bytes observed, rv_usage = None,
          rv_storage_prefix = Some (ov_storage_prefix observed),
          rv_device_path = ov_device_path observed, rv_message = message\<rparr>)"

definition last_refusals :: "reported_volume list \<Rightarrow> (volume_id, state_message) btree" where
  "last_refusals reports =
     bt_collect (List.map_filter (\<lambda>r. map_option (\<lambda>m. (rv_volume_id r, m)) (rv_message r))
       (filter (\<lambda>r. rv_state r = VolFailed) reports))"

definition is_bare :: "observed_state \<Rightarrow> volume_id \<Rightarrow> bool" where
  "is_bare observed volume_id =
     list_ex (\<lambda>v. ov_volume_id v = volume_id \<and> ov_attached v \<and> \<not> ov_formatted v) (os_volumes observed)"

definition merge_report :: "reported_volume \<Rightarrow> unit act" where
  "merge_report report =
     change (\<lambda>p. p\<lparr>hs_volume_reports := merge_volume_reports (hs_volume_reports p) [report]\<rparr>)"

definition provision_volume :: "world \<Rightarrow> desired_volume \<Rightarrow> unit act" where
  "provision_volume w desired = do {
     provisioned \<leftarrow> ask (ProvisionCall desired) (\<lambda>t. w_provision w t desired);
     merge_report (case provisioned of
         Inr attached \<Rightarrow>
           \<lparr>rv_volume_id = av_volume_id attached, rv_app_id = dv_app_id desired, rv_state = VolReady,
            rv_size_bytes = av_size_bytes attached, rv_usage = None,
            rv_storage_prefix = Some (av_storage_prefix attached),
            rv_device_path = Some (av_device_path attached), rv_message = None\<rparr>
       | Inl reason \<Rightarrow>
           \<lparr>rv_volume_id = dv_volume_id desired, rv_app_id = dv_app_id desired, rv_state = VolFailed,
            rv_size_bytes = dv_size_bytes desired, rv_usage = None, rv_storage_prefix = None,
            rv_device_path = None, rv_message = Some (state_message_new reason)\<rparr>)
   }"

definition provisions :: "reconcile_plan \<Rightarrow> observed_state \<Rightarrow> trigger \<Rightarrow> desired_volume list" where
  "provisions plan observed trig =
     List.map_filter (\<lambda>action. case action of
         Provision desired \<Rightarrow>
           if trig = TriggerTick \<and> is_bare observed (dv_volume_id desired) then None else Some desired
       | _ \<Rightarrow> None) (pl_volumes plan)"

definition apply_volumes ::
  "world \<Rightarrow> reconcile_plan \<Rightarrow> observed_state \<Rightarrow> host_desired_state \<Rightarrow> trigger \<Rightarrow> unit act" where
  "apply_volumes w plan observed desired trig = do {
     snapshot \<leftarrow> the_snapshot;
     let refusals = last_refusals (hs_volume_reports snapshot);
     forget_deleted_volumes (set (map dv_volume_id (hd_volumes desired)));
     let existing = map (\<lambda>v. to_reported_volume v (map_of refusals (ov_volume_id v))) (os_volumes observed);
     change (\<lambda>p. p\<lparr>hs_volume_reports := merge_volume_reports existing (bt_values (hs_deleted_volumes p))\<rparr>);
     for_each (provisions plan observed trig) (provision_volume w)
   }"

definition give_back_slot :: "app_id \<Rightarrow> unit act" where
  "give_back_slot app_id = do {
     held \<leftarrow> slot_of app_id;
     modify (\<lambda>s. s\<lparr>h_alloc := release app_id (h_alloc s)\<rparr>);
     case held of
       Some slot \<Rightarrow> tell (DeleteTapCall (sl_tap_name slot))
     | None \<Rightarrow> done_with ()
   }"

definition deleted_report :: "desired_volume \<Rightarrow> reported_volume" where
  "deleted_report desired =
     \<lparr>rv_volume_id = dv_volume_id desired, rv_app_id = dv_app_id desired, rv_state = VolDeleted,
      rv_size_bytes = 0, rv_usage = None, rv_storage_prefix = None, rv_device_path = None,
      rv_message = None\<rparr>"

definition tear_down_volume :: "world \<Rightarrow> desired_volume \<Rightarrow> unit act" where
  "tear_down_volume w desired = do {
     torn_down \<leftarrow> ask (TeardownCall (dv_volume_id desired) (dv_app_id desired))
       (\<lambda>t. w_teardown w t (dv_volume_id desired) (dv_app_id desired));
     case torn_down of
       Inr _ \<Rightarrow> do {
         give_back_slot (dv_app_id desired);
         remember_deleted_volume (deleted_report desired);
         merge_report (deleted_report desired)
       }
     | Inl _ \<Rightarrow> done_with ()
   }"

definition detach_volume :: "world \<Rightarrow> volume_id \<Rightarrow> app_id \<Rightarrow> unit act" where
  "detach_volume w volume_id app_id = do {
     detached \<leftarrow> ask (DetachCall volume_id app_id) (\<lambda>t. w_detach w t volume_id app_id);
     case detached of
       Inr _ \<Rightarrow> do {
         give_back_slot app_id;
         change (\<lambda>p. p\<lparr>hs_volume_reports := map (\<lambda>report.
           if rv_volume_id report = volume_id
           then report\<lparr>rv_state := VolDetached, rv_device_path := None\<rparr> else report)
           (hs_volume_reports p)\<rparr>)
       }
     | Inl _ \<Rightarrow> done_with ()
   }"

definition apply_teardown :: "world \<Rightarrow> volume_plan \<Rightarrow> unit act" where
  "apply_teardown w action =
     (case action of
        Teardown desired \<Rightarrow> tear_down_volume w desired
      | Detach volume_id app_id \<Rightarrow> detach_volume w volume_id app_id
      | _ \<Rightarrow> done_with ())"

definition apply_teardowns :: "world \<Rightarrow> reconcile_plan \<Rightarrow> unit act" where
  "apply_teardowns w plan = for_each (pl_volumes plan) (apply_teardown w)"

section \<open>Checkpoints\<close>

definition observe_checkpoints :: "world \<Rightarrow> host_desired_state \<Rightarrow> observed_checkpoint list act" where
  "observe_checkpoints w desired = do {
     held \<leftarrow> ask ObserveCheckpointsCall (w_observe_checkpoints w);
     done_with (map (\<lambda>c. \<lparr>oc_checkpoint_id = dc_checkpoint_id c, oc_volume_id = dc_volume_id c\<rparr>)
       (filter (\<lambda>c. dc_checkpoint_id c \<in> set held) (hd_checkpoints desired)))
   }"

definition ready_checkpoint :: "desired_checkpoint \<Rightarrow> timestamp option \<Rightarrow> reported_checkpoint" where
  "ready_checkpoint desired ready_at =
     \<lparr>rc_checkpoint_id = dc_checkpoint_id desired, rc_volume_id = dc_volume_id desired, rc_state = CkReady,
      rc_reference = Some (state_message_new (dc_checkpoint_id desired)), rc_ready_at = ready_at,
      rc_message = None\<rparr>"

definition deleted_checkpoint :: "desired_checkpoint \<Rightarrow> reported_checkpoint" where
  "deleted_checkpoint desired =
     \<lparr>rc_checkpoint_id = dc_checkpoint_id desired, rc_volume_id = dc_volume_id desired, rc_state = CkDeleted,
      rc_reference = None, rc_ready_at = None, rc_message = None\<rparr>"

definition failed_checkpoint :: "desired_checkpoint \<Rightarrow> string \<Rightarrow> reported_checkpoint" where
  "failed_checkpoint desired reason =
     \<lparr>rc_checkpoint_id = dc_checkpoint_id desired, rc_volume_id = dc_volume_id desired, rc_state = CkFailed,
      rc_reference = None, rc_ready_at = None, rc_message = Some (state_message_new reason)\<rparr>"

definition cut :: "world \<Rightarrow> desired_checkpoint \<Rightarrow> reported_checkpoint act" where
  "cut w desired = do {
     answer \<leftarrow> ask (CreateCheckpointCall (dc_checkpoint_id desired))
       (\<lambda>t. w_create_checkpoint w t (dc_checkpoint_id desired));
     case answer of
       Inr _ \<Rightarrow> do {
         now \<leftarrow> ask NowCall (w_now w);
         done_with (ready_checkpoint desired (Some (w_from_epoch_ms w now)))
       }
     | Inl reason \<Rightarrow> done_with (failed_checkpoint desired reason)
   }"

definition release_checkpoint :: "world \<Rightarrow> desired_checkpoint \<Rightarrow> reported_checkpoint act" where
  "release_checkpoint w desired = do {
     answer \<leftarrow> ask (DeleteCheckpointCall (dc_checkpoint_id desired))
       (\<lambda>t. w_delete_checkpoint w t (dc_checkpoint_id desired));
     done_with (case answer of
         Inr _ \<Rightarrow> deleted_checkpoint desired
       | Inl reason \<Rightarrow> failed_checkpoint desired reason)
   }"

definition plan_subject :: "checkpoint_id \<Rightarrow> desired_checkpoint option act" where
  "plan_subject checkpoint_id = gets (\<lambda>s.
     Option.bind (h_document s) (\<lambda>d. find (\<lambda>c. dc_checkpoint_id c = checkpoint_id) (hd_checkpoints d)))"

definition apply_checkpoint ::
  "world \<Rightarrow> reported_checkpoint list \<Rightarrow> checkpoint_plan \<Rightarrow> reported_checkpoint list act" where
  "apply_checkpoint w held action =
     (case action of
        CheckpointCreate desired \<Rightarrow> do { report \<leftarrow> cut w desired; done_with [report] }
      | CheckpointDelete desired \<Rightarrow> do { report \<leftarrow> release_checkpoint w desired; done_with [report] }
      | CheckpointNone checkpoint_id \<Rightarrow> do {
          found \<leftarrow> plan_subject checkpoint_id;
          done_with (case found of
              None \<Rightarrow> []
            | Some wanted \<Rightarrow>
                [case dc_desired_state wanted of
                   Present \<Rightarrow> ready_checkpoint wanted
                     (Option.bind (find (\<lambda>r. rc_checkpoint_id r = checkpoint_id) held) rc_ready_at)
                 | Absent \<Rightarrow> deleted_checkpoint wanted])
        })"

fun collect_each :: "'a list \<Rightarrow> ('a \<Rightarrow> 'b list act) \<Rightarrow> 'b list act" where
  "collect_each [] f = done_with []"
| "collect_each (x # xs) f = do { y \<leftarrow> f x; ys \<leftarrow> collect_each xs f; done_with (y @ ys) }"

definition apply_checkpoints :: "world \<Rightarrow> reconcile_plan \<Rightarrow> unit act" where
  "apply_checkpoints w plan = do {
     snapshot \<leftarrow> the_snapshot;
     reports \<leftarrow> collect_each (pl_checkpoints plan) (apply_checkpoint w (hs_checkpoint_reports snapshot));
     change (\<lambda>p. p\<lparr>hs_checkpoint_reports := reports\<rparr>)
   }"

section \<open>Exports\<close>

definition EXPORT_PREFIX :: string where
  "EXPORT_PREFIX = ''export-''"

definition export_checkpoint_id :: "export_id \<Rightarrow> checkpoint_id option" where
  "export_checkpoint_id export_id =
     (case identifier_parse ''CheckpointId'' (EXPORT_PREFIX @ export_id) of
        Inr c \<Rightarrow> Some c | Inl _ \<Rightarrow> None)"

definition is_export_checkpoint :: "checkpoint_id \<Rightarrow> bool" where
  "is_export_checkpoint checkpoint_id \<longleftrightarrow> take (length EXPORT_PREFIX) checkpoint_id = EXPORT_PREFIX"

definition observe_exports :: "observed_export list act" where
  "observe_exports = gets (\<lambda>s. map (\<lambda>r. \<lparr>oe_export_id = re_export_id r, oe_written = (re_state r = ExReady)\<rparr>)
     (hs_export_reports (h_snapshot s)))"

definition failed_export :: "desired_export \<Rightarrow> checkpoint_id option \<Rightarrow> string \<Rightarrow> reported_export" where
  "failed_export desired checkpoint_id reason =
     \<lparr>re_export_id = de_export_id desired, re_checkpoint_id = checkpoint_id, re_state = ExFailed,
      re_size_bytes = None, re_ready_at = None, re_message = Some (state_message_new reason)\<rparr>"

text \<open>\<open>Result\<close> with \<open>?\<close>: the rest runs only on success.\<close>

definition attempt :: "(string + 'a) act \<Rightarrow> ('a \<Rightarrow> (string + 'b) act) \<Rightarrow> (string + 'b) act" where
  "attempt m f = do { answer \<leftarrow> m; case answer of Inl e \<Rightarrow> done_with (Inl e) | Inr a \<Rightarrow> f a }"

definition write_inner :: "world \<Rightarrow> desired_export \<Rightarrow> checkpoint_id \<Rightarrow> (string + nat) act" where
  "write_inner w desired checkpoint_id =
     attempt (ask (CrontabCall (de_app_id desired)) (\<lambda>t. w_crontab w t (de_app_id desired))) (\<lambda>crontab.
     attempt (ask (FreezeCall (de_app_id desired)) (\<lambda>t. w_freeze w t (de_app_id desired))) (\<lambda>_.
     attempt (ask FlushCall (w_flush w)) (\<lambda>_.
     attempt (ask (CreateCheckpointCall checkpoint_id) (\<lambda>t. w_create_checkpoint w t checkpoint_id)) (\<lambda>_. do {
       lease \<leftarrow> ask (LeaseCall (de_app_id desired)) (\<lambda>t. w_lease_held w t (de_app_id desired));
       case lease of
         Inl reason \<Rightarrow> do {
           _ \<leftarrow> ask (DeleteCheckpointCall checkpoint_id) (\<lambda>t. w_delete_checkpoint w t checkpoint_id);
           done_with (Inl reason)
         }
       | Inr _ \<Rightarrow> do {
           staged \<leftarrow> ask (ReadStagingCall desired checkpoint_id) (\<lambda>t. w_read_staging w t desired checkpoint_id);
           _ \<leftarrow> ask (DeleteCheckpointCall checkpoint_id) (\<lambda>t. w_delete_checkpoint w t checkpoint_id);
           case staged of
             Inl reason \<Rightarrow> done_with (Inl reason)
           | Inr _ \<Rightarrow>
               attempt (ask (BundleCall desired) (\<lambda>t. w_bundle w t desired)) (\<lambda>(path, size_bytes).
               attempt (ask (UploadCall path (de_object_key desired))
                         (\<lambda>t. w_upload w t path (de_object_key desired))) (\<lambda>_.
               done_with (Inr size_bytes)))
         }
     }))))"

definition write_export :: "world \<Rightarrow> desired_export \<Rightarrow> reported_export act" where
  "write_export w desired =
     (case export_checkpoint_id (de_export_id desired) of
        None \<Rightarrow> done_with (failed_export desired None ''its id does not make a checkpoint name'')
      | Some checkpoint_id \<Rightarrow> do {
          written \<leftarrow> write_inner w desired checkpoint_id;
          tell RemoveStagingCall;
          case written of
            Inr size_bytes \<Rightarrow> do {
              now \<leftarrow> ask NowCall (w_now w);
              done_with \<lparr>re_export_id = de_export_id desired, re_checkpoint_id = Some checkpoint_id,
                         re_state = ExReady, re_size_bytes = Some size_bytes,
                         re_ready_at = Some (w_from_epoch_ms w now), re_message = None\<rparr>
            }
          | Inl reason \<Rightarrow> done_with (failed_export desired (Some checkpoint_id) reason)
        })"

definition exports_in_flight :: "reconcile_plan \<Rightarrow> checkpoint_id list" where
  "exports_in_flight plan =
     List.map_filter (\<lambda>action. case action of
         ExportWrite desired \<Rightarrow> export_checkpoint_id (de_export_id desired) | _ \<Rightarrow> None) (pl_exports plan)"

definition reap :: "world \<Rightarrow> reconcile_plan \<Rightarrow> unit act" where
  "reap w plan = do {
     held \<leftarrow> ask ObserveCheckpointsCall (w_observe_checkpoints w);
     let orphans = filter (\<lambda>c. c \<notin> set (exports_in_flight plan)) (filter is_export_checkpoint held);
     if orphans = [] then done_with ()
     else do {
       tell RemoveStagingCall;
       tell NbdDetachCall;
       for_each orphans (\<lambda>c. do {
         _ \<leftarrow> ask (DeleteCheckpointCall c) (\<lambda>t. w_delete_checkpoint w t c);
         done_with ()
       })
     }
   }"

fun export_loop ::
  "world \<Rightarrow> trigger \<Rightarrow> export_plan list \<Rightarrow> reported_export list \<Rightarrow> reported_export list act" where
  "export_loop w trig [] reports = done_with reports"
| "export_loop w trig (ExportWrite desired # actions) reports =
     (if trig = TriggerTick then export_loop w trig actions reports
      else do {
        report \<leftarrow> write_export w desired;
        export_loop w trig actions
          (filter (\<lambda>held. re_export_id held \<noteq> re_export_id report) reports @ [report])
      })"
| "export_loop w trig (ExportForget export_id # actions) reports =
     export_loop w trig actions (filter (\<lambda>held. re_export_id held \<noteq> export_id) reports)"
| "export_loop w trig (ExportNone export_id # actions) reports = export_loop w trig actions reports"

definition apply_exports :: "world \<Rightarrow> reconcile_plan \<Rightarrow> trigger \<Rightarrow> unit act" where
  "apply_exports w plan trig = do {
     reap w plan;
     snapshot \<leftarrow> the_snapshot;
     reports \<leftarrow> export_loop w trig (pl_exports plan) (hs_export_reports snapshot);
     change (\<lambda>p. p\<lparr>hs_export_reports := reports\<rparr>)
   }"

section \<open>Storage leaves the records alone\<close>

definition aside_frame :: "host \<Rightarrow> host \<Rightarrow> bool" where
  "aside_frame s t \<longleftrightarrow> hs_records (h_snapshot t) = hs_records (h_snapshot s) \<and> base_frame s t"

interpretation aside: frame aside_frame
  by unfold_locales (auto simp: aside_frame_def base_frame_def)

lemma aside_sound: "aside.keeps m \<Longrightarrow> sound.keeps m"
  by (rule sound.keepsI, drule aside.keepsD)
     (auto simp: aside_frame_def base_frame_def sound_host_def explained_def)

lemma aside_base: "aside.keeps m \<Longrightarrow> base.keeps m"
  by (auto simp: base.keeps_def aside.keeps_def aside_frame_def)

lemma aside_ask [frame_rules]: "aside.keeps (ask c answer)"
  by (rule aside.keepsI) (simp add: aside_frame_def base_frame_def host_wf_def)

lemma aside_change [frame_rules]:
  "(\<And>p. hs_records (f p) = hs_records p) \<Longrightarrow> aside.keeps (change f)"
  by (rule aside.keepsI) (simp add: aside_frame_def base_frame_def host_wf_def)

lemma aside_reads [frame_rules]:
  "aside.keeps the_snapshot" "aside.keeps (slot_of a)" "aside.keeps the_records" "aside.keeps the_slots"
  "aside.keeps observe_exports" "aside.keeps (plan_subject c)"
  by (simp_all add: shared_state_defs observe_exports_def plan_subject_def aside.keeps_gets)

lemma aside_volume_notes [frame_rules]:
  "aside.keeps (remember_deleted_volume report)" "aside.keeps (forget_deleted_volumes vols)"
  "aside.keeps (merge_report report)"
  by (simp_all add: remember_deleted_volume_def forget_deleted_volumes_def merge_report_def aside_change)

lemma aside_release [frame_rules]: "aside.keeps (modify (\<lambda>s. s\<lparr>h_alloc := release a (h_alloc s)\<rparr>))"
  by (rule aside.keepsI) (simp add: aside_frame_def base_frame_def host_wf_def alloc_wf_release)

lemma aside_volume_plan [frame_rules]:
  "(\<And>d. p = Provision d \<Longrightarrow> aside.keeps (a d)) \<Longrightarrow> (\<And>d. p = Teardown d \<Longrightarrow> aside.keeps (b d)) \<Longrightarrow>
   (\<And>d hs. p = Blocked d hs \<Longrightarrow> aside.keeps (c d hs)) \<Longrightarrow> (\<And>v i. p = Detach v i \<Longrightarrow> aside.keeps (e v i)) \<Longrightarrow>
   (\<And>v. p = VolumeNone v \<Longrightarrow> aside.keeps (f v)) \<Longrightarrow>
     aside.keeps (case p of Provision d \<Rightarrow> a d | Teardown d \<Rightarrow> b d | Blocked d hs \<Rightarrow> c d hs
       | Detach v i \<Rightarrow> e v i | VolumeNone v \<Rightarrow> f v)"
  by (cases p) auto

lemma aside_volumes [frame_rules]:
  "aside.keeps (observe_volumes w owners)" "aside.keeps (provision_volume w d)"
  "aside.keeps (give_back_slot a)"
  unfolding observe_volumes_def provision_volume_def give_back_slot_def by (intro frame_rules)+

lemma aside_teardown [frame_rules]: "aside.keeps (apply_teardowns w plan)"
  unfolding apply_teardowns_def apply_teardown_def tear_down_volume_def detach_volume_def
  by (intro frame_rules) simp

lemma aside_apply_volumes [frame_rules]: "aside.keeps (apply_volumes w plan observed desired trig)"
  unfolding apply_volumes_def by (intro frame_rules) simp

lemma aside_observe_checkpoints [frame_rules]: "aside.keeps (observe_checkpoints w desired)"
  unfolding observe_checkpoints_def by (intro frame_rules)

lemma aside_collect_each: "(\<And>x. aside.keeps (f x)) \<Longrightarrow> aside.keeps (collect_each xs f)"
  by (induction xs) (auto intro!: frame_rules)

lemma aside_apply_checkpoint: "aside.keeps (apply_checkpoint w held action)"
  unfolding apply_checkpoint_def cut_def release_checkpoint_def
  by (cases action) (auto intro!: frame_rules)

lemma aside_apply_checkpoints [frame_rules]: "aside.keeps (apply_checkpoints w plan)"
  unfolding apply_checkpoints_def
  by (intro frame_rules aside_collect_each aside_apply_checkpoint) simp

lemma aside_attempt [frame_rules]:
  "aside.keeps m \<Longrightarrow> (\<And>a. aside.keeps (f a)) \<Longrightarrow> aside.keeps (attempt m f)"
  unfolding attempt_def by (intro frame_rules)

lemma aside_write_export [frame_rules]: "aside.keeps (write_export w d)"
  unfolding write_export_def write_inner_def by (intro frame_rules)

lemma aside_reap [frame_rules]: "aside.keeps (reap w plan)"
  unfolding reap_def by (intro frame_rules)

lemma aside_export_loop [frame_rules]: "aside.keeps (export_loop w trig actions reports)"
  by (induction w trig actions reports rule: export_loop.induct) (auto intro!: frame_rules)

lemma aside_apply_exports [frame_rules]: "aside.keeps (apply_exports w plan trig)"
  unfolding apply_exports_def by (intro frame_rules) simp

section \<open>An export's checkpoint\<close>

lemma final_attempt [simp]:
  "final (attempt m f) s = (case result m s of Inl _ \<Rightarrow> final m s | Inr a \<Rightarrow> final (f a) (final m s))"
  by (simp add: attempt_def split: sum.splits)

text \<open>What an export does with its checkpoint once it is cut: let go of it before anything else.\<close>

definition checkpoint_uses :: "desired_export \<Rightarrow> checkpoint_id \<Rightarrow> trace \<Rightarrow> bool" where
  "checkpoint_uses d c calls \<longleftrightarrow>
     (case calls of
        LeaseCall a # DeleteCheckpointCall c' # rest \<Rightarrow> a = de_app_id d \<and> c' = c \<and> rest = []
      | LeaseCall a # ReadStagingCall d' c' # DeleteCheckpointCall c'' # rest \<Rightarrow>
          a = de_app_id d \<and> d' = d \<and> c' = c \<and> c'' = c \<and>
          (case rest of
             [] \<Rightarrow> True
           | [BundleCall d''] \<Rightarrow> d'' = d
           | [BundleCall d'', UploadCall path key] \<Rightarrow> d'' = d \<and> key = de_object_key d
           | _ \<Rightarrow> False)
      | _ \<Rightarrow> False)"

text \<open>
  An export cuts its checkpoint inside the freeze and never leaves it behind. If writing an
  export asks for a checkpoint at all, then it froze the tenant and flushed the volumes just
  before; and if the checkpoint was made then it is deleted again before anything is bundled or
  uploaded, on every path: the lease lost, the volume unreadable, or all well.
\<close>

lemma export_checkpoint_is_cut_frozen_and_deleted:
  assumes "h_trace (final (write_inner w d c) s) = h_trace s @ calls"
    and "CreateCheckpointCall c \<in> set calls"
  shows "take 4 calls = [CrontabCall (de_app_id d), FreezeCall (de_app_id d), FlushCall, CreateCheckpointCall c] \<and>
         (if w_create_checkpoint w (h_trace s @ take 3 calls) c = Inr ()
          then checkpoint_uses d c (drop 4 calls) else drop 4 calls = [])"
  using assms
  by (auto simp: write_inner_def checkpoint_uses_def split: sum.splits prod.splits)

definition sample_export :: desired_export where
  "sample_export = \<lparr>de_export_id = ''x'', de_app_id = ''app-1'', de_volume_id = ''vol-1'',
     de_object_key = ''k'', de_environment = None, de_desired_state = Present\<rparr>"

section \<open>What is given back and what is reaped\<close>

lemma lookup_release: "lookup (release a alloc) b = (if b = a then None else lookup alloc b)"
  by (simp add: lookup_def release_def)

lemma final_give_back_slot:
  "final (give_back_slot a) s = s\<lparr>h_alloc := release a (h_alloc s),
     h_trace := h_trace s @ (case lookup (h_alloc s) a of Some slot \<Rightarrow> [DeleteTapCall (sl_tap_name slot)] | None \<Rightarrow> [])\<rparr>"
  by (simp add: give_back_slot_def slot_of_def split: option.splits)

lemma merged_report:
  "report \<in> set (merge_volume_reports existing [report])"
proof -
  have "map_of (bt_insert (rv_volume_id report) report (bt_collect (map (\<lambda>r. (rv_volume_id r, r)) existing)))
      (rv_volume_id report) = Some report" by simp
  from map_of_SomeD [OF this] show ?thesis
    by (simp add: merge_volume_reports_def bt_values_def) (rule rev_image_eqI, assumption, simp)
qed

text \<open>
  Tearing a volume down takes the slot of the app the document gives it to, whatever that app
  is doing. When the backend deletes the volume, the app's slot is given back and its tap deleted,
  every other app keeps its own, and the volume is reported as deleted and remembered; the record
  of the app is not looked at, so an app that runs on another volume stays recorded as it was and
  nothing is forwarded to it any more.
\<close>

lemma teardown_gives_back_the_slot:
  assumes "w_teardown w (h_trace s) (dv_volume_id d) (dv_app_id d) = Inr ()"
    and "lookup (h_alloc s) (dv_app_id d) = Some slot"
  shows "lookup (h_alloc (final (tear_down_volume w d) s)) a =
           (if a = dv_app_id d then None else lookup (h_alloc s) a) \<and>
         h_trace (final (tear_down_volume w d) s) =
           h_trace s @ [TeardownCall (dv_volume_id d) (dv_app_id d), DeleteTapCall (sl_tap_name slot)] \<and>
         deleted_report d \<in> set (hs_volume_reports (h_snapshot (final (tear_down_volume w d) s))) \<and>
         map_of (hs_deleted_volumes (h_snapshot (final (tear_down_volume w d) s))) (dv_volume_id d) =
           Some (deleted_report d) \<and>
         hs_records (h_snapshot (final (tear_down_volume w d) s)) = hs_records (h_snapshot s) \<and>
         dv_app_id d \<notin> fi_app_id ` set (forwarded_from (h_snapshot (final (tear_down_volume w d) s))
           (h_alloc (final (tear_down_volume w d) s)))"
proof -
  have run: "final (tear_down_volume w d) s = s\<lparr>h_alloc := release (dv_app_id d) (h_alloc s),
      h_trace := h_trace s @ [TeardownCall (dv_volume_id d) (dv_app_id d), DeleteTapCall (sl_tap_name slot)],
      h_snapshot := (h_snapshot s)\<lparr>
        hs_deleted_volumes := bt_insert (dv_volume_id d) (deleted_report d) (hs_deleted_volumes (h_snapshot s)),
        hs_volume_reports := merge_volume_reports (hs_volume_reports (h_snapshot s)) [deleted_report d]\<rparr>\<rparr>"
    using assms by (simp add: tear_down_volume_def final_give_back_slot remember_deleted_volume_def
        merge_report_def deleted_report_def)
  show ?thesis
    by (auto simp: run lookup_release merged_report forwarded_cases)
qed

text \<open>An app that moved to a new volume, while the document gives up the old one.\<close>

definition old_volume :: desired_volume where
  "old_volume = \<lparr>dv_volume_id = ''vol-old'', dv_app_id = ''app-a'', dv_size_bytes = 1,
     dv_desired_state = Absent, dv_initial_contents = None\<rparr>"

definition moved_observed :: observed_state where
  "moved_observed = \<lparr>os_instances =
       [\<lparr>oi_app_id = ''app-a'', oi_volume_id = Some (ir_volume_id sample_record),
         oi_deployment_id = Some (ir_deployment_id sample_record),
         oi_present = True, oi_running = True, oi_exited = False, oi_refused = False\<rparr>],
     os_volumes = [\<lparr>ov_volume_id = ''vol-old'', ov_app_id = ''app-a'', ov_attached = True,
       ov_formatted = True, ov_size_bytes = 1, ov_storage_prefix = ''p'', ov_device_path = None\<rparr>],
     os_checkpoints = [], os_exports = []\<rparr>"

text \<open>The checkpoints a list of calls asks to delete.\<close>

fun deleted_in :: "trace \<Rightarrow> checkpoint_id list" where
  "deleted_in [] = []"
| "deleted_in (DeleteCheckpointCall c # calls) = c # deleted_in calls"
| "deleted_in (_ # calls) = deleted_in calls"

lemma deleted_in_deletes [simp]: "deleted_in (map DeleteCheckpointCall cs) = cs"
  by (induction cs) simp_all

lemma final_delete_each:
  "h_trace (final (for_each cs (\<lambda>c. do {
       _ \<leftarrow> ask (DeleteCheckpointCall c) (f c); done_with () })) s) = h_trace s @ map DeleteCheckpointCall cs"
  by (induction cs arbitrary: s) simp_all

text \<open>
  What a pass reaps. Before it writes exports, a pass deletes exactly the checkpoints the
  backend holds whose name begins like an export's and that no export of this pass is about to cut,
  in the order the backend gives them; the document's own checkpoints are not looked at, so one
  whose name begins that way is deleted too.
\<close>

lemma reap_deletes_by_name:
  assumes "h_trace (final (reap w plan) s) = h_trace s @ calls"
  shows "deleted_in calls =
           filter (\<lambda>c. take 7 c = ''export-'' \<and> c \<notin> set (exports_in_flight plan))
             (w_observe_checkpoints w (h_trace s))"
proof -
  let ?held = "w_observe_checkpoints w (h_trace s)"
  let ?orphans = "filter (\<lambda>c. c \<notin> set (exports_in_flight plan)) (filter is_export_checkpoint ?held)"
  have orphans: "?orphans = filter (\<lambda>c. take 7 c = ''export-'' \<and> c \<notin> set (exports_in_flight plan)) ?held"
    by (simp add: is_export_checkpoint_def EXPORT_PREFIX_def conj_commute numeral_eq_Suc)
  have "calls = ObserveCheckpointsCall #
      (if ?orphans = [] then [] else RemoveStagingCall # NbdDetachCall # map DeleteCheckpointCall ?orphans)"
    using assms by (auto simp: reap_def Let_def final_delete_each)
  then have "deleted_in calls = ?orphans" by auto
  then show ?thesis by (simp only: orphans)
qed

definition named_checkpoint :: desired_checkpoint where
  "named_checkpoint = \<lparr>dc_checkpoint_id = ''export-mine'', dc_volume_id = ''vol-1'', dc_desired_state = Present\<rparr>"

text \<open>A checkpoint the document asks for is reported ready and then deleted in the same pass.\<close>

end
