(* ===== verification/Reconcile.thy ===== *)
theory Reconcile
  imports Storage
begin

text \<open>
  One pass from the document to the host (\<open>crates/nibrunnerd/src/domain/reconcile/mod.rs\<close>): what
  it observes, the order in which it stops, provisions, starts and tears down, and the admission
  of a wave of starts. \<open>tokio::join!\<close> of the prefetch and the stops is written in the order its
  arguments have; the locks a handler takes and the notifications it sends are not part of it.
\<close>

section \<open>What a pass observes\<close>

definition observed_of ::
  "host_snapshot \<Rightarrow> (app_id, vm_status) btree \<Rightarrow> app_id \<Rightarrow> observed_instance" where
  "observed_of snapshot statuses app_id =
     (let status = status_in statuses app_id;
          found = map_of (hs_records snapshot) app_id
      in \<lparr>oi_app_id = app_id,
          oi_volume_id = map_option ir_volume_id found,
          oi_deployment_id = map_option ir_deployment_id found,
          oi_present = (vs_loaded status \<or> found \<noteq> None),
          oi_running = vs_active status,
          oi_exited = (\<not> vs_active status \<and> vs_started_this_boot status \<and>
            (case found of Some r \<Rightarrow> ir_started_at r \<noteq> None \<and> \<not> ir_stop_requested r | None \<Rightarrow> False)),
          oi_refused = (case found of
              Some r \<Rightarrow> ir_state r \<in> {IsFailed, IsPending} \<and> ir_started_at r = None \<and>
                ir_start_attempts r = NO_START_ATTEMPTS
            | None \<Rightarrow> False)\<rparr>)"

definition observe_host :: "world \<Rightarrow> host_desired_state \<Rightarrow> observed_state act" where
  "observe_host w desired = do {
     snapshot \<leftarrow> the_snapshot;
     adopted \<leftarrow> ask AdoptedCall (w_adopted w);
     let app_ids = sorted_list_of_set (set adopted \<union> set (bt_keys (hs_records snapshot)));
     statuses \<leftarrow> ask (StatusesCall app_ids) (\<lambda>t. w_statuses w t app_ids);
     volumes \<leftarrow> observe_volumes w (volume_owners desired (hs_records snapshot));
     checkpoints \<leftarrow> observe_checkpoints w desired;
     exports \<leftarrow> observe_exports;
     done_with \<lparr>os_instances = map (observed_of snapshot statuses) app_ids, os_volumes = volumes,
       os_checkpoints = checkpoints, os_exports = exports\<rparr>
   }"

section \<open>What a pass applies\<close>

definition synced_record :: "desired_instance \<Rightarrow> instance_record \<Rightarrow> instance_record" where
  "synced_record wanted r =
     r\<lparr>ir_hostnames := di_hostnames wanted,
       ir_access := di_access wanted,
       ir_health_check := ac_health_check (di_config wanted),
       ir_resources := ac_resources (di_config wanted),
       ir_restart_policy := ac_restart_policy (di_config wanted),
       ir_desired_running := (di_desired_state wanted \<noteq> DesiredStopped),
       ir_on_request := (di_desired_state wanted = DesiredOnRequest),
       ir_http_port := ac_http_port (di_config wanted)\<rparr>"

definition sync_desired :: "host_desired_state \<Rightarrow> unit act" where
  "sync_desired desired =
     for_each (hd_instances desired) (\<lambda>wanted. update_record (di_app_id wanted) (synced_record wanted))"

definition stop_and_forget :: "world \<Rightarrow> app_id \<Rightarrow> unit act" where
  "stop_and_forget w app_id = do {
     stop_instance w app_id;
     tell (DiscardCall app_id);
     drop_record app_id
   }"

definition apply_stop :: "world \<Rightarrow> instance_plan \<Rightarrow> unit act" where
  "apply_stop w action =
     (case action of
        PlanStop app_id reason \<Rightarrow> stop_instance w app_id
      | PlanReplace desired \<Rightarrow> stop_and_forget w (di_app_id desired)
      | PlanRecover desired \<Rightarrow> stop_and_forget w (di_app_id desired)
      | PlanForget app_id \<Rightarrow> do {
          tell (DiscardCall app_id);
          drop_record app_id;
          tell (LogsDiscardCall app_id);
          tell (RouterDiscardLogCall app_id)
        }
      | _ \<Rightarrow> done_with ())"

definition apply_stops :: "world \<Rightarrow> reconcile_plan \<Rightarrow> unit act" where
  "apply_stops w plan = for_each (pl_instances plan) (apply_stop w)"

definition apply_sleeps :: "reconcile_plan \<Rightarrow> unit act" where
  "apply_sleeps plan =
     for_each (pl_instances plan) (\<lambda>action. case action of
       PlanSleep desired \<Rightarrow> sleep_instance desired | _ \<Rightarrow> done_with ())"

definition apply_holds :: "reconcile_plan \<Rightarrow> unit act" where
  "apply_holds plan =
     for_each (pl_instances plan) (\<lambda>action. case action of
       PlanHold desired \<Rightarrow> hold_instance desired | _ \<Rightarrow> done_with ())"

text \<open>The records are read once, and the one a start touched is read back.\<close>

fun start_loop ::
  "world \<Rightarrow> host_config \<Rightarrow> desired_instance list \<Rightarrow> instance_record list \<Rightarrow> unit act" where
  "start_loop w config [] records = done_with ()"
| "start_loop w config (desired # starts) records =
     (case memory_shortfall_for (cf_guest_memory_mib config) records (di_app_id desired)
             (ac_resources (di_config desired)) of
        Some shortfall_mib \<Rightarrow> do {
          wait_for_room desired shortfall_mib;
          start_loop w config starts records
        }
      | None \<Rightarrow> do {
          start_instance w config desired;
          found \<leftarrow> the_record (di_app_id desired);
          start_loop w config starts
            (filter (\<lambda>r. ir_app_id r \<noteq> di_app_id desired) records @
             (case found of Some r \<Rightarrow> [r] | None \<Rightarrow> []))
        })"

definition apply_starts :: "world \<Rightarrow> host_config \<Rightarrow> reconcile_plan \<Rightarrow> unit act" where
  "apply_starts w config plan =
     (let starts = starting plan
      in if starts = [] then done_with ()
         else do {
           snapshot \<leftarrow> the_snapshot;
           if \<not> hs_isolated snapshot then done_with ()
           else do {
             records \<leftarrow> the_records;
             start_loop w config starts records
           }
         })"

definition observe_converged :: "world \<Rightarrow> unit act" where
  "observe_converged w = do {
     now \<leftarrow> ask NowCall (w_now w);
     change (observe (w_from_epoch_ms w) now)
   }"

section \<open>A pass\<close>

definition deployments_of :: "desired_instance list \<Rightarrow> (app_id \<times> deployment_id) list" where
  "deployments_of instances = map (\<lambda>i. (di_app_id i, di_deployment_id i)) instances"

text \<open>Everything up to the starts, and everything after them.\<close>

definition before_starts ::
  "world \<Rightarrow> host_config \<Rightarrow> host_desired_state \<Rightarrow> trigger \<Rightarrow> reconcile_plan act" where
  "before_starts w config desired trig = do {
     tell (CronRunsSyncCall (deployments_of
       (filter (\<lambda>i. di_desired_state i \<noteq> DesiredStopped) (hd_instances desired))));
     observed \<leftarrow> observe_host w desired;
     let plan = plan_reconcile desired observed;
     change (\<lambda>p. p\<lparr>hs_deferred_work := has_deferred_work plan\<rparr>);
     sync_desired desired;
     apply_routes;
     prefetch_layers w config plan;
     apply_stops w plan;
     apply_volumes w plan observed desired trig;
     apply_sleeps plan;
     apply_holds plan;
     apply_activators config;
     done_with plan
   }"

definition after_starts ::
  "world \<Rightarrow> host_config \<Rightarrow> host_desired_state \<Rightarrow> trigger \<Rightarrow> reconcile_plan \<Rightarrow> unit act" where
  "after_starts w config desired trig plan = do {
     apply_teardowns w plan;
     apply_checkpoints w plan;
     apply_exports w plan trig;
     apply_activators config;
     apply_network w config;
     apply_routes;
     observe_converged w;
     tell PersistCall;
     tell (CronRunsSyncCall (deployments_of
       (filter (\<lambda>i. di_desired_state i \<noteq> DesiredStopped) (hd_instances desired))));
     change (\<lambda>p. p\<lparr>hs_converged := True\<rparr>)
   }"

definition reconcile :: "world \<Rightarrow> host_config \<Rightarrow> host_desired_state \<Rightarrow> trigger \<Rightarrow> unit act" where
  "reconcile w config desired trig = do {
     synced \<leftarrow> ask (CronSyncCall (deployments_of (hd_instances desired)))
       (\<lambda>t. w_cron_sync w t (deployments_of (hd_instances desired)));
     case synced of
       Inl _ \<Rightarrow> done_with ()
     | Inr _ \<Rightarrow> do {
         plan \<leftarrow> before_starts w config desired trig;
         apply_network w config;
         apply_starts w config plan;
         after_starts w config desired trig plan
       }
   }"

definition refresh :: "world \<Rightarrow> host_config \<Rightarrow> unit act" where
  "refresh w config = do {
     refresh_states w;
     observe_converged w;
     apply_network w config;
     apply_routes;
     tell PersistCall
   }"

section \<open>A pass keeps the host sound\<close>

lemma observe_records_induct:
  assumes "P (hs_records p)"
    and "\<And>a m. P m \<Longrightarrow> P (bt_modify a (\<lambda>r. case ir_converged_at r of
          Some _ \<Rightarrow> r | None \<Rightarrow> r\<lparr>ir_converged_at := Some (f now)\<rparr>) m)"
  shows "P (hs_records (observe f now p))"
proof -
  have one: "P (hs_records (observe_one f now e q))" if "P (hs_records q)" for e q
    using that assms(2) [of "hs_records q"] by (cases e) (simp add: observe_one_def)
  have "P (hs_records (fold (observe_one f now) es q))" if "P (hs_records q)" for es q
    using that by (induction es arbitrary: q) (simp_all add: one)
  with assms(1) show ?thesis by (simp add: observe_def)
qed

lemma keep_observe_converged [frame_rules]: "keep.keeps (observe_converged w)"
proof -
  have "records_wf (hs_records (observe f now p))" if "records_wf (hs_records p)" for f now p
    by (rule observe_records_induct [of records_wf], rule that, rule records_wf_modify)
       (auto split: option.splits)
  then have stamped: "keep.keeps (change (observe f now))" for f now
    by (intro keep_change)
  show ?thesis unfolding observe_converged_def by (intro keep.keeps_bind keep_ask stamped)
qed

lemma modify_explained:
  "\<forall>a r. map_of m a = Some r \<longrightarrow> record_explained r \<Longrightarrow>
   (\<And>r. record_explained r \<Longrightarrow> record_explained (f r)) \<Longrightarrow>
     \<forall>a r. map_of (bt_modify k f m) a = Some r \<longrightarrow> record_explained r"
  by auto

lemma explain_observe_converged [frame_rules]: "explain.keeps (observe_converged w)"
proof -
  have "\<forall>a r. map_of (hs_records (observe f now p)) a = Some r \<longrightarrow> record_explained r"
    if "\<forall>a r. map_of (hs_records p) a = Some r \<longrightarrow> record_explained r" for f now p
    by (rule observe_records_induct [of "\<lambda>m. \<forall>a r. map_of m a = Some r \<longrightarrow> record_explained r"],
        rule that, rule modify_explained, assumption)
       (simp add: record_explained_def split: option.splits)
  then have "explain.keeps (change (observe f now))" for f now
    by (intro explain.keepsI) (simp add: explained_def)
  then show ?thesis unfolding observe_converged_def by (intro explain.keeps_bind explain_ask)
qed

lemma explain_drop_record [frame_rules]: "explain.keeps (drop_record a)"
  by (rule explain.keepsI) (simp add: explained_def drop_record_def)

lemma explain_prefetch_loop [frame_rules]: "explain.keeps (prefetch_loop w layers waiting prepared)"
  by (induction w layers waiting prepared rule: prefetch_loop.induct)
     (unfold prefetch_loop.simps, (intro frame_rules; simp)+)

lemma sound_pass_parts [frame_rules]:
  "sound.keeps (observe_converged w)" "sound.keeps apply_routes" "sound.keeps (apply_activators config)"
  "sound.keeps (prefetch_layers w config plan)" "sound.keeps (drop_record a)"
  unfolding apply_routes_def apply_activators_def prefetch_layers_def
  by (rule sound_of; intro frame_rules)+

lemma sound_change_aside [frame_rules]:
  "(\<And>p. hs_records (f p) = hs_records p) \<Longrightarrow> sound.keeps (change f)"
  by (rule sound_of; intro frame_rules)

lemma sound_storage [frame_rules]:
  "sound.keeps (observe_volumes w owners)" "sound.keeps (observe_checkpoints w desired)"
  "sound.keeps observe_exports" "sound.keeps (apply_volumes w plan observed desired trig)"
  "sound.keeps (apply_teardowns w plan)" "sound.keeps (apply_checkpoints w plan)"
  "sound.keeps (apply_exports w plan trig)"
  by (rule aside_sound; intro frame_rules)+

lemma sound_instance_plan [frame_rules]:
  "(\<And>d. p = PlanStart d \<Longrightarrow> sound.keeps (a d)) \<Longrightarrow> (\<And>d. p = PlanSleep d \<Longrightarrow> sound.keeps (b d)) \<Longrightarrow>
   (\<And>d. p = PlanHold d \<Longrightarrow> sound.keeps (c d)) \<Longrightarrow> (\<And>d. p = PlanReplace d \<Longrightarrow> sound.keeps (e d)) \<Longrightarrow>
   (\<And>d. p = PlanRecover d \<Longrightarrow> sound.keeps (f d)) \<Longrightarrow> (\<And>x r. p = PlanStop x r \<Longrightarrow> sound.keeps (g x r)) \<Longrightarrow>
   (\<And>x. p = PlanForget x \<Longrightarrow> sound.keeps (h x)) \<Longrightarrow> (\<And>x. p = PlanNone x \<Longrightarrow> sound.keeps (i x)) \<Longrightarrow>
     sound.keeps (case p of PlanStart d \<Rightarrow> a d | PlanSleep d \<Rightarrow> b d | PlanHold d \<Rightarrow> c d | PlanReplace d \<Rightarrow> e d
       | PlanRecover d \<Rightarrow> f d | PlanStop x r \<Rightarrow> g x r | PlanForget x \<Rightarrow> h x | PlanNone x \<Rightarrow> i x)"
  by (cases p) auto

lemma sound_before_starts [frame_rules]: "sound.keeps (before_starts w config desired trig)"
  unfolding before_starts_def observe_host_def sync_desired_def apply_stops_def apply_stop_def
    stop_and_forget_def apply_sleeps_def apply_holds_def
  by (intro frame_rules) (simp_all add: synced_record_def record_explained_def)

lemma sound_start_loop [frame_rules]: "sound.keeps (start_loop w config starts records)"
  by (induction w config starts records rule: start_loop.induct) (auto intro!: frame_rules)

lemma sound_apply_starts [frame_rules]: "sound.keeps (apply_starts w config plan)"
  unfolding apply_starts_def by (intro frame_rules)

lemma sound_after_starts [frame_rules]: "sound.keeps (after_starts w config desired trig plan)"
  unfolding after_starts_def by (intro frame_rules) simp_all

lemma sound_reconcile [frame_rules]: "sound.keeps (reconcile w config desired trig)"
  unfolding reconcile_def by (intro frame_rules)

lemma sound_refresh [frame_rules]: "sound.keeps (refresh w config)"
  unfolding refresh_def by (intro frame_rules)

end
