(* ===== verification/Converge.thy ===== *)
theory Converge
  imports Reconcile
begin

text \<open>
  The document a host works from (\<open>crates/nibrunnerd/src/desired.rs\<close>), the controller that runs a
  pass when it moves, when work was put off and on every tick
  (\<open>controllers/converge_controller.rs\<close>), and what a host reads back when it starts
  (\<open>host.rs\<close>, \<open>load\<close>). What is in the file and in the store is an argument: reading and parsing
  them is not modelled.
\<close>

section \<open>The document\<close>

definition same_ask :: "desired_instance list \<Rightarrow> desired_instance \<Rightarrow> bool" where
  "same_ask before wanted =
     list_ex (\<lambda>held. di_app_id held = di_app_id wanted \<and>
       di_deployment_id held = di_deployment_id wanted \<and>
       di_desired_state held = di_desired_state wanted) before"

definition changes_in :: "host_desired_state option \<Rightarrow> host_desired_state \<Rightarrow> changes" where
  "changes_in latest upcoming =
     (let before = (case latest of Some document \<Rightarrow> hd_instances document | None \<Rightarrow> [])
      in \<lparr>ch_wanted = filter (\<lambda>wanted. \<not> same_ask before wanted) (hd_instances upcoming),
          ch_gone = map di_app_id (filter (\<lambda>held.
            \<not> list_ex (\<lambda>wanted. di_app_id wanted = di_app_id held) (hd_instances upcoming)) before)\<rparr>)"

definition asks_the_same :: "host_desired_state \<Rightarrow> host_desired_state \<Rightarrow> bool" where
  "asks_the_same held upcoming \<longleftrightarrow> held = upcoming\<lparr>hd_revision := hd_revision held\<rparr>"

definition cache_accept :: "host_desired_state \<Rightarrow> bool act" where
  "cache_accept desired = do {
     latest \<leftarrow> gets h_document;
     modify (\<lambda>s. s\<lparr>h_document := Some desired\<rparr>);
     done_with (case latest of Some held \<Rightarrow> \<not> asks_the_same held desired | None \<Rightarrow> True)
   }"

section \<open>Taking a document up\<close>

definition remember_accepted_document :: "host_desired_state \<Rightarrow> sha256_digest \<Rightarrow> unit act" where
  "remember_accepted_document desired digest = do {
     tell (RememberHostIdCall (hd_host_id desired));
     snapshot \<leftarrow> the_snapshot;
     change (\<lambda>p. p\<lparr>hs_accepted_digest := Some digest, hs_accepted_revision := Some (hd_revision desired)\<rparr>);
     do_when (hs_accepted_digest snapshot \<noteq> Some digest) (tell (RememberDocumentCall desired digest))
   }"

definition note_refusal :: "string \<Rightarrow> unit act" where
  "note_refusal why = change (\<lambda>p. p\<lparr>hs_desired_refusal := Some (state_message_new why)\<rparr>)"

definition forget_refusal :: "unit act" where
  "forget_refusal = change (\<lambda>p. p\<lparr>hs_desired_refusal := None\<rparr>)"

text \<open>What moved, when the document did; nothing when it stood still.\<close>

definition accept :: "world \<Rightarrow> host_desired_state \<Rightarrow> (string + changes option) act" where
  "accept w desired = do {
     synced \<leftarrow> ask (CronSyncCall (deployments_of (hd_instances desired)))
       (\<lambda>t. w_cron_sync w t (deployments_of (hd_instances desired)));
     case synced of
       Inl e \<Rightarrow> done_with (Inl e)
     | Inr _ \<Rightarrow> do {
         latest \<leftarrow> gets h_document;
         moved \<leftarrow> cache_accept desired;
         tell (CronRunsSyncCall (deployments_of
           (filter (\<lambda>i. di_desired_state i \<noteq> DesiredStopped) (hd_instances desired))));
         done_with (Inr (if moved then Some (changes_in latest desired) else None))
       }
   }"

definition note_detected :: "world \<Rightarrow> changes \<Rightarrow> cause \<Rightarrow> unit act" where
  "note_detected w changed c = do {
     now \<leftarrow> ask NowCall (w_now w);
     change (detected changed c now)
   }"

definition converge_accepted ::
  "world \<Rightarrow> host_config \<Rightarrow> host_desired_state option \<Rightarrow> bool act" where
  "converge_accepted w config accepted =
     (case accepted of
        None \<Rightarrow> done_with False
      | Some desired \<Rightarrow> do {
          answer \<leftarrow> accept w desired;
          case answer of
            Inr (Some changed) \<Rightarrow> do {
              note_detected w changed Restart;
              reconcile w config desired TriggerRestart;
              done_with True
            }
          | _ \<Rightarrow> done_with False
        })"

definition converge_once ::
  "world \<Rightarrow> host_config \<Rightarrow> string + (host_desired_state \<times> sha256_digest) option \<Rightarrow> bool act" where
  "converge_once w config read =
     (case read of
        Inr (Some (desired, digest)) \<Rightarrow> do {
          forget_refusal;
          remember_accepted_document desired digest;
          answer \<leftarrow> accept w desired;
          case answer of
            Inr (Some changed) \<Rightarrow> do {
              note_detected w changed Change;
              reconcile w config desired TriggerChange;
              done_with True
            }
          | Inr None \<Rightarrow> do {
              snapshot \<leftarrow> the_snapshot;
              if \<not> hs_deferred_work snapshot then done_with False
              else do {
                reconcile w config desired TriggerDeferred;
                done_with True
              }
            }
          | Inl _ \<Rightarrow> done_with False
        }
      | Inr None \<Rightarrow> done_with False
      | Inl message \<Rightarrow> do { note_refusal message; done_with False })"

definition converge_on_tick :: "world \<Rightarrow> host_config \<Rightarrow> bool act" where
  "converge_on_tick w config = do {
     latest \<leftarrow> gets h_document;
     case latest of
       None \<Rightarrow> done_with False
     | Some desired \<Rightarrow> do {
         snapshot \<leftarrow> the_snapshot;
         reconcile w config desired (if hs_deferred_work snapshot then TriggerDeferred else TriggerTick);
         done_with True
       }
   }"

section \<open>Starting up\<close>

text \<open>What the store holds of the last run.\<close>

record stored_host =
  st_records :: "instance_record list"
  st_last_active :: "(app_id, int) btree"
  st_meters :: "(app_id, usage_meters) btree"
  st_deleted_volumes :: "(volume_id, reported_volume) btree"
  st_assignments :: "(app_id, nat) btree"
  st_cursor :: int
  st_accepted :: "(host_desired_state \<times> sha256_digest) option"

definition loaded_records ::
  "instance_record list \<Rightarrow> host_desired_state option \<Rightarrow> (app_id, instance_record) btree" where
  "loaded_records records accepted =
     (let held = bt_collect (map (\<lambda>r. (ir_app_id r, r)) records)
      in case accepted of
           None \<Rightarrow> held
         | Some document \<Rightarrow>
             fold (\<lambda>wanted. bt_modify (di_app_id wanted) (\<lambda>r. r\<lparr>ir_access := di_access wanted\<rparr>))
               (hd_instances document) held)"

definition load :: "stored_host \<Rightarrow> unit act" where
  "load st = do {
     (case st_accepted st of
        Some (document, _) \<Rightarrow> tell (RememberHostIdCall (hd_host_id document))
      | None \<Rightarrow> done_with ());
     modify (\<lambda>s. s\<lparr>h_alloc := restore (h_alloc s) (st_assignments st) (st_cursor st)\<rparr>);
     change (\<lambda>p. p\<lparr>hs_records := loaded_records (st_records st) (map_option fst (st_accepted st)),
       hs_last_active_at_ms := st_last_active st,
       hs_meters := st_meters st,
       hs_deleted_volumes := st_deleted_volumes st,
       hs_accepted_revision := (case st_accepted st of
           Some (document, _) \<Rightarrow> Some (hd_revision document) | None \<Rightarrow> hs_accepted_revision p),
       hs_accepted_digest := (case st_accepted st of
           Some (_, digest) \<Rightarrow> Some digest | None \<Rightarrow> hs_accepted_digest p)\<rparr>)
   }"

section \<open>The controller keeps the host sound\<close>

lemma sound_records:
  assumes "\<And>p. records_wf (hs_records p) \<Longrightarrow> records_wf (hs_records (f p))"
    and "\<And>p. \<forall>a r. map_of (hs_records p) a = Some r \<longrightarrow> record_explained r \<Longrightarrow>
           \<forall>a r. map_of (hs_records (f p)) a = Some r \<longrightarrow> record_explained r"
  shows "sound.keeps (change f)"
  by (rule sound.keepsI) (auto simp: sound_host_def host_wf_def explained_def assms)

lemma detected_records_induct:
  assumes "P (hs_records p)" and "\<And>a m. P m \<Longrightarrow> P (bt_modify a (\<lambda>r. r\<lparr>ir_converged_at := None\<rparr>) m)"
  shows "P (hs_records (detected changed c now p))"
proof -
  have one: "P (hs_records (detected_one c now d q))" if "P (hs_records q)" for d q
    using that assms(2) [of "hs_records q"] by (simp add: detected_one_def Let_def)
  have "P (hs_records (fold (detected_one c now) ds q))" if "P (hs_records q)" for ds q
    using that by (induction ds arbitrary: q) (simp_all add: one)
  with assms(1) show ?thesis by (simp add: detected_def Let_def)
qed

lemma sound_note_detected [frame_rules]: "sound.keeps (note_detected w changed c)"
proof -
  have "sound.keeps (change (detected changed c now))" for now
    by (rule sound_records;
        erule detected_records_induct [of "\<lambda>m. records_wf m"] detected_records_induct
          [of "\<lambda>m. \<forall>a r. map_of m a = Some r \<longrightarrow> record_explained r"];
        (rule modify_explained, assumption)?; simp add: record_explained_def)
  then show ?thesis unfolding note_detected_def by (intro sound.keeps_bind sound_leaves)
qed

lemma sound_cache_accept [frame_rules]: "sound.keeps (cache_accept desired)"
proof -
  have "sound.keeps (modify (\<lambda>s. s\<lparr>h_document := d\<rparr>))" for d
    by (rule sound.keepsI) (simp add: sound_host_def host_wf_def explained_def)
  then show ?thesis unfolding cache_accept_def by (intro frame_rules)
qed

lemma sound_accept [frame_rules]: "sound.keeps (accept w desired)"
  unfolding accept_def by (intro frame_rules)

lemma sound_refusals [frame_rules]:
  "sound.keeps (note_refusal why)" "sound.keeps forget_refusal" "sound.keeps (remember_accepted_document desired digest)"
  unfolding note_refusal_def forget_refusal_def remember_accepted_document_def by (intro frame_rules; simp)+

lemma sound_converge [frame_rules]:
  "sound.keeps (converge_accepted w config accepted)" "sound.keeps (converge_once w config read)"
  "sound.keeps (converge_on_tick w config)"
  unfolding converge_accepted_def converge_once_def converge_on_tick_def by (intro frame_rules)+

lemma loaded_records_wf: "records_wf (loaded_records records accepted)"
proof -
  have "records_wf (bt_collect (map (\<lambda>r. (ir_app_id r, r)) records))"
    by (auto simp: records_wf_def dest!: map_of_SomeD)
  moreover have "records_wf (fold (\<lambda>wanted. bt_modify (di_app_id wanted) (\<lambda>r. r\<lparr>ir_access := di_access wanted\<rparr>)) ws m)"
    if "records_wf m" for ws m
    using that by (induction ws arbitrary: m) simp_all
  ultimately show ?thesis by (cases accepted) (simp_all add: loaded_records_def Let_def)
qed

lemma loaded_records_explained:
  assumes "\<forall>r \<in> set records. record_explained r"
  shows "\<forall>a r. map_of (loaded_records records accepted) a = Some r \<longrightarrow> record_explained r"
proof -
  let ?ok = "\<lambda>m. \<forall>a r. map_of m a = Some r \<longrightarrow> record_explained r"
  have held: "?ok (bt_collect (map (\<lambda>r. (ir_app_id r, r)) records))"
    using assms by (auto dest!: map_of_SomeD)
  have synced: "?ok (fold (\<lambda>wanted. bt_modify (di_app_id wanted) (\<lambda>r. r\<lparr>ir_access := di_access wanted\<rparr>)) ws m)"
    if "?ok m" for ws and m :: "(app_id, instance_record) btree"
    using that
  proof (induction ws arbitrary: m)
    case (Cons d ws)
    show ?case
      by (simp only: fold_simps, rule Cons.IH, rule modify_explained, rule Cons.prems) (simp add: record_explained_def)
  qed simp
  show ?thesis
    by (cases accepted; simp only: loaded_records_def Let_def option.case) (rule held, rule synced, rule held)
qed

lemma load_sound:
  assumes "alloc_wf (h_alloc s)" "bt_wf (st_assignments st)" "distinct (bt_values (st_assignments st))"
    and "\<forall>r \<in> set (st_records st). record_explained r"
  shows "sound_host (final (load st) s)"
  using assms(4)
  by (auto simp: load_def sound_host_def host_wf_def explained_def loaded_records_wf alloc_wf_restore assms(1,2,3)
      loaded_records_explained split: option.splits)

section \<open>What a host is on its way to\<close>

definition new_ask :: "cause \<Rightarrow> int \<Rightarrow> desired_instance \<Rightarrow> deploy" where
  "new_ask c now wanted = \<lparr>dp_deployment_id = di_deployment_id wanted, dp_desired_state = di_desired_state wanted,
     dp_cause = c, dp_detected_at_ms = now, dp_layers_ready_at_ms = None, dp_volume_ready_at_ms = None,
     dp_booted_at_ms = None, dp_converged_at_ms = None\<rparr>"

lemma detected_one_deploys:
  "hs_deploys (detected_one c now d p) = bt_insert (di_app_id d) (new_ask c now d) (hs_deploys p)"
  by (simp add: detected_one_def new_ask_def Let_def)

lemma detected_fold:
  assumes "distinct (map di_app_id ds)"
  shows "map_of (hs_deploys (fold (detected_one c now) ds p)) a =
     (case find (\<lambda>d. di_app_id d = a) ds of Some d \<Rightarrow> Some (new_ask c now d) | None \<Rightarrow> map_of (hs_deploys p) a)"
  using assms
proof (induction ds arbitrary: p)
  case (Cons d ds)
  have "find (\<lambda>x. di_app_id x = a) ds = None" if "di_app_id d = a"
    using Cons.prems that by (force simp: find_None_iff image_iff)
  with Cons show ?case by (auto simp: detected_one_deploys split: option.splits)
qed simp

lemma removed_fold: "map_of (fold bt_remove ks m) a = (if a \<in> set ks then None else map_of m a)"
  by (induction ks arbitrary: m) auto

lemma find_filter_unique:
  assumes "distinct (map f xs)" "find (\<lambda>x. f x = a) xs = Some x"
  shows "find (\<lambda>x. f x = a) (filter P xs) = (if P x then Some x else None)"
  using assms
proof (induction xs)
  case (Cons y ys)
  show ?case
  proof (cases "f y = a")
    case True
    with Cons.prems have "x = y" "a \<notin> f ` set ys" by auto
    then have "find (\<lambda>x. f x = a) (filter P ys) = None" by (auto simp: find_None_iff)
    with True \<open>x = y\<close> show ?thesis by simp
  next
    case False
    with Cons show ?thesis by simp
  qed
qed simp

lemma observe_one_deploys:
  "hs_deploys (observe_one f now (k, d) p) =
     (if deploy_is_open d \<and> is_converged (dp_deployment_id d) (dp_desired_state d) (held_for_app p k)
      then bt_modify k (\<lambda>d. d\<lparr>dp_converged_at_ms := Some now\<rparr>) (hs_deploys p) else hs_deploys p)"
  by (simp add: observe_one_def)

lemma observe_one_held: "held_for_app (observe_one f now e p) a = held_for_app p a"
  by (cases e) (auto simp: observe_one_def held_for_app_def option.map_comp comp_def split: option.splits
      intro!: option.map_cong0)

lemma observe_fold:
  assumes "distinct (map fst es)"
  shows "map_of (hs_deploys (fold (observe_one f now) es p)) a =
     map_option (\<lambda>d. case map_of es a of
         Some e \<Rightarrow> if deploy_is_open e \<and> is_converged (dp_deployment_id e) (dp_desired_state e) (held_for_app p a)
                   then d\<lparr>dp_converged_at_ms := Some now\<rparr> else d
       | None \<Rightarrow> d) (map_of (hs_deploys p) a)"
  using assms
proof (induction es arbitrary: p)
  case Nil
  then show ?case by (simp add: option.map_ident)
next
  case (Cons e es)
  obtain k d where e: "e = (k, d)" by (cases e)
  with Cons.prems have "map_of es k = None" by (simp add: map_of_eq_None_iff)
  with Cons e show ?case
    by (cases "a = k")
       (auto simp: observe_one_deploys observe_one_held option.map_comp comp_def option.map_ident
         intro!: option.map_cong0 split: option.splits)
qed

text \<open>
  The host tracks the asks of its document. When a document is taken up, exactly the apps
  whose deployment or desired state moved, and the new ones, get a fresh ask dated now; an app it
  no longer names has none; every other app keeps the one it had. An observation then closes
  exactly the open asks whose app holds what was asked for, and leaves every other ask alone.
\<close>

lemma asks_follow_the_document:
  assumes "distinct (map di_app_id (hd_instances upcoming))"
  shows "(let before = (case latest of Some document \<Rightarrow> hd_instances document | None \<Rightarrow> [])
          in map_of (hs_deploys (detected (changes_in latest upcoming) c now p)) a =
             (case find (\<lambda>d. di_app_id d = a) (hd_instances upcoming) of
                Some wanted \<Rightarrow> if same_ask before wanted then map_of (hs_deploys p) a
                               else Some (new_ask c now wanted)
              | None \<Rightarrow> if a \<in> di_app_id ` set before then None else map_of (hs_deploys p) a)) \<and>
         (bt_wf (hs_deploys p) \<longrightarrow>
            map_of (hs_deploys (observe from_epoch_ms now p)) a =
              map_option (\<lambda>d.
                if deploy_is_open d \<and> is_converged (dp_deployment_id d) (dp_desired_state d) (held_for_app p a)
                then d\<lparr>dp_converged_at_ms := Some now\<rparr> else d) (map_of (hs_deploys p) a))"
proof -
  let ?before = "case latest of Some document \<Rightarrow> hd_instances document | None \<Rightarrow> []"
  let ?wanted = "filter (\<lambda>wanted. \<not> same_ask ?before wanted) (hd_instances upcoming)"
  let ?gone = "map di_app_id (filter (\<lambda>held.
    \<not> list_ex (\<lambda>wanted. di_app_id wanted = di_app_id held) (hd_instances upcoming)) ?before)"
  have distinct: "distinct (map di_app_id ?wanted)" using assms by (simp add: distinct_map_filter)
  have run: "map_of (hs_deploys (detected (changes_in latest upcoming) c now p)) a =
      (if a \<in> set ?gone then None
       else case find (\<lambda>d. di_app_id d = a) ?wanted of
              Some d \<Rightarrow> Some (new_ask c now d) | None \<Rightarrow> map_of (hs_deploys p) a)"
    by (simp add: detected_def changes_in_def Let_def removed_fold detected_fold [OF distinct])
  have gone: "a \<in> set ?gone \<longleftrightarrow> a \<in> di_app_id ` set ?before \<and>
      find (\<lambda>d. di_app_id d = a) (hd_instances upcoming) = None"
    by (auto simp: find_None_iff list_ex_iff)
  have unnamed: "find (\<lambda>d. di_app_id d = a) ?wanted = None"
    if "find (\<lambda>d. di_app_id d = a) (hd_instances upcoming) = None"
    using that by (auto simp: find_None_iff)
  have first: "map_of (hs_deploys (detected (changes_in latest upcoming) c now p)) a =
      (case find (\<lambda>d. di_app_id d = a) (hd_instances upcoming) of
         Some wanted \<Rightarrow> if same_ask ?before wanted then map_of (hs_deploys p) a else Some (new_ask c now wanted)
       | None \<Rightarrow> if a \<in> di_app_id ` set ?before then None else map_of (hs_deploys p) a)"
    using unnamed find_filter_unique [OF assms]
    by (cases "find (\<lambda>d. di_app_id d = a) (hd_instances upcoming)") (simp_all only: run gone, auto)
  have second: "map_of (hs_deploys (observe from_epoch_ms now p)) a =
      map_option (\<lambda>d. if deploy_is_open d \<and> is_converged (dp_deployment_id d) (dp_desired_state d) (held_for_app p a)
        then d\<lparr>dp_converged_at_ms := Some now\<rparr> else d) (map_of (hs_deploys p) a)" if "bt_wf (hs_deploys p)"
    using observe_fold [OF bt_wf_distinct [OF that]]
    by (cases "map_of (hs_deploys p) a") (simp_all add: observe_def)
  from first second show ?thesis by (simp add: Let_def)
qed

end
