(* ===== verification/Idle.thy ===== *)
theory Idle
  imports Reconcile
begin

text \<open>
  Letting apps sleep (\<open>crates/nibrunnerd/src/domain/reconcile/idle.rs\<close>): what counts as activity,
  which apps are due, the bound on what one pass puts to sleep and the wait after a sleep that did
  not happen. The sleeps of a batch run side by side in the code, each under its app's own lock;
  here they run in the order of the batch.
\<close>

section \<open>Activity\<close>

definition ACTIVITY_INTERVAL_MS :: nat where
  "ACTIVITY_INTERVAL_MS = 5000"

definition SLEEP_CONCURRENCY :: nat where
  "SLEEP_CONCURRENCY = 4"

definition SLEEPS_PER_PASS :: nat where
  "SLEEPS_PER_PASS = SLEEP_CONCURRENCY * 2"

definition SLEEP_RETRY :: backoff_policy where
  "SLEEP_RETRY = \<lparr>bp_initial_backoff_ms = 30000, bp_max_backoff_ms = 600000, bp_backoff_factor = 2\<rparr>"

record activity =
  ay_traffic :: "(app_id, app_traffic) btree"
  ay_last_active_at_ms :: "(app_id, int) btree"
  ay_last_measured_at_ms :: "(app_id, int) btree"
  ay_moved :: "app_id set"

text \<open>\<open>entry(k).or_insert(v)\<close>.\<close>

definition bt_or_insert :: "'k::linorder \<Rightarrow> 'v \<Rightarrow> ('k, 'v) btree \<Rightarrow> ('k, 'v) btree" where
  "bt_or_insert k v m = (case map_of m k of Some _ \<Rightarrow> m | None \<Rightarrow> bt_insert k v m)"

definition activity_one ::
  "(app_id, app_traffic) btree \<Rightarrow> (app_id, int) btree \<Rightarrow> int \<Rightarrow> app_id \<times> app_traffic \<Rightarrow> activity \<Rightarrow> activity" where
  "activity_one previous_traffic previous_moments now_ms taken acc =
     (case taken of (app_id, after) \<Rightarrow>
        let moved = (if (case map_of previous_traffic app_id of
                           Some before \<Rightarrow> ct_bytes (tf_received after) > ct_bytes (tf_received before)
                         | None \<Rightarrow> False)
                     then insert app_id (ay_moved acc) else ay_moved acc);
            moment = (if app_id \<in> moved then now_ms
                      else case map_of previous_moments app_id of Some recorded \<Rightarrow> recorded | None \<Rightarrow> now_ms)
        in \<lparr>ay_traffic = bt_insert app_id after (ay_traffic acc),
            ay_last_active_at_ms = bt_insert app_id moment (ay_last_active_at_ms acc),
            ay_last_measured_at_ms = bt_insert app_id now_ms (ay_last_measured_at_ms acc),
            ay_moved = moved\<rparr>)"

definition activity_after ::
  "(app_id, app_traffic) btree \<Rightarrow> (app_id, app_traffic) btree \<Rightarrow> (app_id, int) btree \<Rightarrow>
     (app_id, int) btree \<Rightarrow> (app_id, nat) btree \<Rightarrow> int \<Rightarrow> activity" where
  "activity_after taken previous_traffic previous_moments previous_readings requests_open now_ms =
     (let acc = \<lparr>ay_traffic = previous_traffic, ay_last_active_at_ms = [],
                 ay_last_measured_at_ms = previous_readings,
                 ay_moved = set (map fst (filter (\<lambda>(_, open_now). open_now > 0) requests_open))\<rparr>;
          acc = fold (activity_one previous_traffic previous_moments now_ms) taken acc;
          active = fold (\<lambda>app_id. bt_or_insert app_id now_ms) (sorted_list_of_set (ay_moved acc))
                     (ay_last_active_at_ms acc);
          active = fold (\<lambda>(app_id, recorded). bt_or_insert app_id recorded) previous_moments active
      in acc\<lparr>ay_last_active_at_ms := active\<rparr>)"

definition of_held_apps :: "(app_id, 'a) btree \<Rightarrow> app_id set \<Rightarrow> (app_id, 'a) btree" where
  "of_held_apps known held = filter (\<lambda>(app_id, _). app_id \<in> held) known"

definition record_activity :: "world \<Rightarrow> unit act" where
  "record_activity w = do {
     now \<leftarrow> ask NowCall (w_now w);
     snapshot \<leftarrow> the_snapshot;
     answer \<leftarrow> ask TrafficCall (w_traffic w);
     let taken = (case answer of Inr t \<Rightarrow> t | Inl _ \<Rightarrow> []);
     requests_open \<leftarrow> ask OpenRequestsCall (w_open_requests w);
     let upcoming = activity_after taken (hs_app_traffic snapshot) (hs_last_active_at_ms snapshot)
                  (hs_last_measured_at_ms snapshot) requests_open now;
     held_slots \<leftarrow> the_slots;
     let held = set (map sl_app_id held_slots);
     let traffic = of_held_apps (ay_traffic upcoming) held;
     change (\<lambda>p. p\<lparr>
       hs_meters := metered_after (hs_meters p)
         \<lparr>mi_records = hs_records p, mi_traffic_before = hs_app_traffic p, mi_traffic_after = traffic,
          mi_volumes = hs_volume_reports p, mi_volume_usage = hs_volume_usage p,
          mi_elapsed_ms = elapsed_since (hs_metered_at_ms p) now ACTIVITY_INTERVAL_MS\<rparr>,
       hs_metered_at_ms := Some now,
       hs_app_traffic := traffic,
       hs_last_active_at_ms := of_held_apps (ay_last_active_at_ms upcoming) held,
       hs_last_measured_at_ms := of_held_apps (ay_last_measured_at_ms upcoming) held\<rparr>)
   }"

section \<open>Who is due\<close>

fun allowance_ms :: "sleep_policy \<Rightarrow> nat option" where
  "allowance_ms Never = None"
| "allowance_ms (TrafficIdle timeout_ms) = Some timeout_ms"
| "allowance_ms (MaxLifetime ttl_ms) = Some ttl_ms"

record due =
  du_reason :: sleep_reason
  du_for_ms :: int
  du_late_ms :: int

definition signals_of :: "world \<Rightarrow> host_snapshot \<Rightarrow> instance_record \<Rightarrow> nat \<Rightarrow> activity_signals" where
  "signals_of w snapshot r requests_open =
     \<lparr>as_last_active_at_ms = map_of (hs_last_active_at_ms snapshot) (ir_app_id r),
      as_measured_at_ms = map_of (hs_last_measured_at_ms snapshot) (ir_app_id r),
      as_started_at_ms = map_option (w_epoch_ms w) (ir_started_at r),
      as_requests_open = requests_open\<rparr>"

definition due_of ::
  "activation_policy \<Rightarrow> instance_record \<Rightarrow> activity_signals \<Rightarrow> int \<Rightarrow> due option" where
  "due_of policy r signals now =
     map_option (\<lambda>reason.
       let since = (case reason of
             Quiet \<Rightarrow> as_last_active_at_ms signals | LivedLongEnough \<Rightarrow> as_started_at_ms signals);
           for_ms = now - (case since of Some s \<Rightarrow> s | None \<Rightarrow> now);
           late_ms = max (case allowance_ms (ap_sleep_when policy) of
               Some allowed \<Rightarrow> for_ms - as_i64 allowed | None \<Rightarrow> 0) 0
       in \<lparr>du_reason = reason, du_for_ms = for_ms, du_late_ms = late_ms\<rparr>)
       (should_sleep policy r signals now)"

section \<open>Putting apps to sleep\<close>

definition waited_out :: "f64_unit \<Rightarrow> host_snapshot \<Rightarrow> app_id \<Rightarrow> int \<Rightarrow> bool" where
  "waited_out fpu snapshot app_id now =
     (case map_of (hs_failed_sleeps snapshot) app_id of
        None \<Rightarrow> True
      | Some failed \<Rightarrow> is_ready_to_retry fpu failed now SLEEP_RETRY)"

definition note_attempt :: "world \<Rightarrow> app_id \<Rightarrow> sleep_outcome option \<Rightarrow> unit act" where
  "note_attempt w app_id outcome = do {
     now \<leftarrow> ask NowCall (w_now w);
     change (\<lambda>p.
       if outcome = Some SleepWasRefused \<or> outcome = Some SleepFailed
       then let failed = (case map_of (hs_failed_sleeps p) app_id of
                  Some window \<Rightarrow> window | None \<Rightarrow> NO_START_ATTEMPTS)
            in p\<lparr>hs_failed_sleeps := bt_insert app_id
                 \<lparr>aw_attempts = aw_attempts failed + 1, aw_last_attempt_at_ms = Some now\<rparr> (hs_failed_sleeps p)\<rparr>
       else p\<lparr>hs_failed_sleeps := bt_remove app_id (hs_failed_sleeps p)\<rparr>)
   }"

definition requests_for :: "(app_id, nat) btree \<Rightarrow> app_id \<Rightarrow> nat" where
  "requests_for requests_open app_id = (case map_of requests_open app_id of Some n \<Rightarrow> n | None \<Rightarrow> 0)"

definition let_sleep :: "world \<Rightarrow> host_config \<Rightarrow> app_id \<Rightarrow> activation_policy \<Rightarrow> bool act" where
  "let_sleep w config app_id policy = do {
     busy \<leftarrow> cron_running app_id;
     if busy then done_with False
     else do {
       now \<leftarrow> ask NowCall (w_now w);
       snapshot \<leftarrow> the_snapshot;
       if \<not> waited_out (w_fpu w) snapshot app_id now then done_with False
       else case map_of (hs_records snapshot) app_id of
         None \<Rightarrow> done_with False
       | Some r \<Rightarrow> do {
           requests_open \<leftarrow> ask OpenRequestsCall (w_open_requests w);
           let signals = signals_of w snapshot r (requests_for requests_open app_id);
           case due_of policy r signals now of
             None \<Rightarrow> done_with False
           | Some _ \<Rightarrow> do {
               outcome \<leftarrow> suspend_instance w config app_id;
               note_attempt w app_id outcome;
               done_with (outcome = Some Slept)
             }
         }
     }
   }"

text \<open>How many of a batch went to sleep.\<close>

fun sleep_batch :: "world \<Rightarrow> host_config \<Rightarrow> (due \<times> app_id \<times> activation_policy) list \<Rightarrow> nat act" where
  "sleep_batch w config [] = done_with 0"
| "sleep_batch w config ((_, app_id, policy) # batch) = do {
     slept \<leftarrow> let_sleep w config app_id policy;
     others \<leftarrow> sleep_batch w config batch;
     done_with (others + (if slept then 1 else 0))
   }"

definition policies_of :: "host_desired_state option \<Rightarrow> (app_id, activation_policy) btree" where
  "policies_of document =
     (case document of
        None \<Rightarrow> []
      | Some desired \<Rightarrow>
          bt_collect (map (\<lambda>i. (di_app_id i, activation_of i)) (hd_instances desired)))"

definition letting_go ::
  "world \<Rightarrow> host \<Rightarrow> (app_id, nat) btree \<Rightarrow> int \<Rightarrow> (due \<times> app_id \<times> activation_policy) list" where
  "letting_go w s requests_open now =
     List.map_filter (\<lambda>r.
       if map_of (h_cron_runs s) (ir_app_id r) \<noteq> None then None
       else case map_of (policies_of (h_document s)) (ir_app_id r) of
              None \<Rightarrow> None
            | Some policy \<Rightarrow>
                map_option (\<lambda>d. (d, ir_app_id r, policy))
                  (due_of policy r (signals_of w (h_snapshot s) r (requests_for requests_open (ir_app_id r))) now))
       (bt_values (hs_records (h_snapshot s)))"

definition apply_sleep :: "world \<Rightarrow> host_config \<Rightarrow> nat act" where
  "apply_sleep w config = do {
     s \<leftarrow> gets (\<lambda>s. s);
     requests_open \<leftarrow> ask OpenRequestsCall (w_open_requests w);
     now \<leftarrow> ask NowCall (w_now w);
     let going = letting_go w s requests_open now;
     let still_due = set (map (\<lambda>(_, app_id, _). app_id) going);
     change (\<lambda>p. p\<lparr>hs_failed_sleeps := filter (\<lambda>(app_id, _). app_id \<in> still_due) (hs_failed_sleeps p)\<rparr>);
     let going = filter (\<lambda>(_, app_id, _). waited_out (w_fpu w) (h_snapshot s) app_id now) going;
     if going = [] then done_with 0
     else do {
       let going = sort_key (\<lambda>(d, _). - du_late_ms d) going;
       let left = length going - SLEEPS_PER_PASS;
       slept \<leftarrow> sleep_batch w config (take SLEEPS_PER_PASS going);
       apply_network w config;
       done_with (if slept = 0 then 0 else left)
     }
   }"

section \<open>What counts as activity\<close>

lemma map_of_bt_or_insert [simp]:
  "map_of (bt_or_insert k v m) a = (case map_of m a of Some x \<Rightarrow> Some x | None \<Rightarrow> if a = k then Some v else None)"
  by (auto simp: bt_or_insert_def split: option.splits)

lemma fold_or_insert_same:
  "map_of (fold (\<lambda>k. bt_or_insert k v) ks m) a =
     (case map_of m a of Some x \<Rightarrow> Some x | None \<Rightarrow> if a \<in> set ks then Some v else None)"
  by (induction ks arbitrary: m) (auto split: option.splits)

lemma fold_or_insert:
  "map_of (fold (\<lambda>(k, v). bt_or_insert k v) kvs m) a =
     (case map_of m a of Some x \<Rightarrow> Some x | None \<Rightarrow> map_of kvs a)"
  by (induction kvs arbitrary: m) (auto split: option.splits)

text \<open>The apps whose inbound bytes went up between two readings.\<close>

definition received_more :: "(app_id, app_traffic) btree \<Rightarrow> (app_id, app_traffic) btree \<Rightarrow> app_id set" where
  "received_more taken previous =
     {a. \<exists>after before. map_of taken a = Some after \<and> map_of previous a = Some before \<and>
           ct_bytes (tf_received after) > ct_bytes (tf_received before)}"

lemma received_more_Cons:
  assumes "k \<notin> fst ` set taken"
  shows "received_more ((k, after) # taken) previous =
     (if (case map_of previous k of Some before \<Rightarrow> ct_bytes (tf_received after) > ct_bytes (tf_received before)
          | None \<Rightarrow> False)
      then insert k (received_more taken previous) else received_more taken previous)"
proof -
  have "map_of taken k = None" using assms by (simp add: map_of_eq_None_iff)
  then show ?thesis by (auto simp: received_more_def split: option.splits if_splits)
qed

lemma activity_one_simps:
  "ay_moved (activity_one previous moments now (k, after) acc) =
     (if (case map_of previous k of Some before \<Rightarrow> ct_bytes (tf_received after) > ct_bytes (tf_received before)
          | None \<Rightarrow> False)
      then insert k (ay_moved acc) else ay_moved acc)"
  "ay_traffic (activity_one previous moments now (k, after) acc) = bt_insert k after (ay_traffic acc)"
  "ay_last_measured_at_ms (activity_one previous moments now (k, after) acc) =
     bt_insert k now (ay_last_measured_at_ms acc)"
  "ay_last_active_at_ms (activity_one previous moments now (k, after) acc) =
     bt_insert k (if k \<in> ay_moved (activity_one previous moments now (k, after) acc) then now
                  else case map_of moments k of Some recorded \<Rightarrow> recorded | None \<Rightarrow> now)
       (ay_last_active_at_ms acc)"
  by (simp_all add: activity_one_def Let_def)

lemma activity_fold:
  assumes "distinct (map fst taken)"
  shows "ay_moved (fold (activity_one previous moments now) taken acc) =
           ay_moved acc \<union> received_more taken previous \<and>
         map_of (ay_traffic (fold (activity_one previous moments now) taken acc)) a =
           (case map_of taken a of Some after \<Rightarrow> Some after | None \<Rightarrow> map_of (ay_traffic acc) a) \<and>
         map_of (ay_last_measured_at_ms (fold (activity_one previous moments now) taken acc)) a =
           (case map_of taken a of Some _ \<Rightarrow> Some now | None \<Rightarrow> map_of (ay_last_measured_at_ms acc) a) \<and>
         map_of (ay_last_active_at_ms (fold (activity_one previous moments now) taken acc)) a =
           (case map_of taken a of
              Some _ \<Rightarrow> Some (if a \<in> ay_moved acc \<union> received_more taken previous then now
                else case map_of moments a of Some recorded \<Rightarrow> recorded | None \<Rightarrow> now)
            | None \<Rightarrow> map_of (ay_last_active_at_ms acc) a)"
  using assms
proof (induction taken arbitrary: acc)
  case Nil
  then show ?case by (simp add: received_more_def)
next
  case (Cons e taken)
  obtain k after where e: "e = (k, after)" by (cases e)
  with Cons.prems have fresh: "k \<notin> fst ` set taken" "map_of taken k = None"
    by (simp_all add: map_of_eq_None_iff)
  let ?acc = "activity_one previous moments now (k, after) acc"
  have rest: "a \<in> received_more (e # taken) previous \<longleftrightarrow> a \<in> received_more taken previous" if "a \<noteq> k" for a
    using that by (simp add: e received_more_def)
  have unmoved: "k \<notin> received_more taken previous"
    using fresh by (simp add: received_more_def)
  show ?case
    using Cons.IH [of ?acc] Cons.prems rest [of a] unmoved fresh
    by (cases "a = k")
       (auto simp: e activity_one_simps received_more_Cons [OF fresh(1)] split: option.splits if_splits)
qed

text \<open>
  Activity is somebody asking for the app. After a reading, the apps that moved are those with
  a request the proxy is still answering and those that received more bytes than at the reading
  before; they were last active now. Every other app keeps the moment it had, except that one seen
  for the first time counts from now; an app the reading says nothing about keeps its counters and
  the time of its last reading.
\<close>

lemma activity_is_inbound:
  assumes "bt_wf taken"
  shows "let next = activity_after taken previous moments readings requests_open now;
             moved = {a. \<exists>n. (a, n) \<in> set requests_open \<and> n > 0} \<union> received_more taken previous
         in ay_moved next = moved \<and>
            map_of (ay_last_active_at_ms next) a =
              (if a \<in> moved then Some now
               else case map_of moments a of
                      Some recorded \<Rightarrow> Some recorded
                    | None \<Rightarrow> if map_of taken a = None then None else Some now) \<and>
            map_of (ay_traffic next) a = (case map_of taken a of Some t \<Rightarrow> Some t | None \<Rightarrow> map_of previous a) \<and>
            map_of (ay_last_measured_at_ms next) a =
              (case map_of taken a of Some _ \<Rightarrow> Some now | None \<Rightarrow> map_of readings a)"
proof -
  let ?open = "set (map fst (filter (\<lambda>(_, open_now). open_now > 0) requests_open))"
  let ?acc = "\<lparr>ay_traffic = previous, ay_last_active_at_ms = [], ay_last_measured_at_ms = readings, ay_moved = ?open\<rparr>"
  have opened: "?open = {a. \<exists>n. (a, n) \<in> set requests_open \<and> n > 0}"
    by force
  have "finite (received_more taken previous)"
    by (rule finite_subset [of _ "fst ` set taken"]) (force simp: received_more_def dest: map_of_SomeD)+
  then have moved: "set (sorted_list_of_set (?open \<union> received_more taken previous)) =
      ?open \<union> received_more taken previous" by simp
  note folded = activity_fold [OF bt_wf_distinct [OF assms], of previous moments now ?acc a]
  show ?thesis
    unfolding activity_after_def Let_def opened [symmetric]
    using folded
    by (auto simp: fold_or_insert fold_or_insert_same moved simp del: set_map set_filter split: option.splits)
qed

definition asked_traffic :: "nat \<Rightarrow> app_traffic" where
  "asked_traffic n = \<lparr>tf_received = \<lparr>ct_packets = 1, ct_bytes = n\<rparr>, tf_sent = \<lparr>ct_packets = 1, ct_bytes = 9\<rparr>\<rparr>"

section \<open>A pass of sleeps\<close>

lemma keep_note_attempt [frame_rules]: "keep.keeps (note_attempt w a outcome)"
  unfolding note_attempt_def by (intro frame_rules) (simp add: Let_def)

lemma keep_let_sleep [frame_rules]: "keep.keeps (let_sleep w config a policy)"
  unfolding let_sleep_def by (intro frame_rules)

lemma explain_let_sleep [frame_rules]: "explain.keeps (let_sleep w config a policy)"
  unfolding let_sleep_def note_attempt_def cron_running_def by (intro frame_rules) (simp add: Let_def)

lemma sound_let_sleep [frame_rules]: "sound.keeps (let_sleep w config a policy)"
  by (rule sound_of; intro frame_rules)

lemma sound_sleep_batch [frame_rules]: "sound.keeps (sleep_batch w config batch)"
  by (induction w config batch rule: sleep_batch.induct) (auto intro!: frame_rules)

lemma sound_apply_sleep [frame_rules]: "sound.keeps (apply_sleep w config)"
  unfolding apply_sleep_def by (intro frame_rules) simp

lemma sound_record_activity [frame_rules]: "sound.keeps (record_activity w)"
  unfolding record_activity_def the_slots_def by (intro frame_rules) simp

text \<open>The snapshots a list of calls asks for.\<close>

fun sleeps_in :: "trace \<Rightarrow> suspend_request list" where
  "sleeps_in [] = []"
| "sleeps_in (SleepCall req # calls) = req # sleeps_in calls"
| "sleeps_in (_ # calls) = sleeps_in calls"

lemma sleeps_in_append [simp]: "sleeps_in (a @ b) = sleeps_in a @ sleeps_in b"
  by (induction a rule: sleeps_in.induct) simp_all

lemma sleeps_note_attempt [simp]: "h_trace (final (note_attempt w a outcome) s) = h_trace s @ [NowCall]"
  by (simp add: note_attempt_def)

lemma suspend_trace_sleeps:
  "sleeps_in (h_trace (final (suspend_instance w config a) s)) = sleeps_in (h_trace s) @
     (case (map_of (hs_records (h_snapshot s)) a, lookup (h_alloc s) a) of
        (Some r, Some slot) \<Rightarrow> [\<lparr>sr_app_id = a, sr_deployment_id = ir_deployment_id r, sr_slot = slot\<rparr>]
      | _ \<Rightarrow> [])"
  by (simp add: suspend_instance_def the_record_def slot_of_def stop_instance_def close_connections_def settled_def
      update_record_def mark_snapshotting_def final_apply_network final_do_when Let_def
      split: option.splits sum.splits vm_error.splits)

text \<open>
  (C38) An app is put to sleep only when it is due, at the moment it is put to sleep. If letting an
  app sleep asks for a snapshot, then no cron command is under way in it, the wait after its last
  failed sleep is over, and by a reading taken now its policy lets it go; the snapshot is of this
  app, in the deployment its record holds, on its own slot, and it is asked for once.
\<close>

theorem sleep_is_due:
  assumes "h_trace (final (let_sleep w config a policy) s) = h_trace s @ calls" and "sleeps_in calls \<noteq> []"
  shows "map_of (h_cron_runs s) a = None \<and>
         waited_out (w_fpu w) (h_snapshot s) a (w_now w (h_trace s)) \<and>
         (\<exists>r slot reason. map_of (hs_records (h_snapshot s)) a = Some r \<and> lookup (h_alloc s) a = Some slot \<and>
            should_sleep policy r (signals_of w (h_snapshot s) r
              (requests_for (w_open_requests w (h_trace s @ [NowCall])) a)) (w_now w (h_trace s)) = Some reason \<and>
            sleeps_in calls = [\<lparr>sr_app_id = a, sr_deployment_id = ir_deployment_id r, sr_slot = slot\<rparr>])"
proof -
  have more: "sleeps_in (h_trace (final (let_sleep w config a policy) s)) = sleeps_in (h_trace s) @ sleeps_in calls"
    by (simp add: assms(1))
  note run = let_sleep_def cron_running_def the_snapshot_def suspend_trace_sleeps due_of_def Let_def
  have idle: "map_of (h_cron_runs s) a = None"
    using more assms(2) by (rule_tac ccontr) (simp add: let_sleep_def cron_running_def)
  have waited: "waited_out (w_fpu w) (h_snapshot s) a (w_now w (h_trace s))"
    using more assms(2) idle by (rule_tac ccontr) (simp add: let_sleep_def cron_running_def the_snapshot_def)
  obtain r where r: "map_of (hs_records (h_snapshot s)) a = Some r"
    using more assms(2) idle waited
    by (cases "map_of (hs_records (h_snapshot s)) a") (simp_all add: let_sleep_def cron_running_def the_snapshot_def)
  show ?thesis
    using more assms(2) idle waited r
    by (simp add: run split: option.splits)
qed

definition quiet_host :: host where
  "quiet_host = serving_host\<lparr>h_snapshot := (h_snapshot serving_host)\<lparr>
     hs_last_active_at_ms := [(''app-a'', -100000)], hs_last_measured_at_ms := [(''app-a'', 0)]\<rparr>\<rparr>"

definition minute_policy :: activation_policy where
  "minute_policy = \<lparr>ap_sleep_when = TrafficIdle 60000\<rparr>"

lemma quiet_host_facts:
  "map_of (h_cron_runs quiet_host) ''app-a'' = None" "h_trace quiet_host = []"
  "map_of (hs_records (h_snapshot quiet_host)) ''app-a'' = Some sample_record"
  "map_of (hs_failed_sleeps (h_snapshot quiet_host)) ''app-a'' = None"
  "lookup (h_alloc quiet_host) ''app-a'' = Some (the (describe_slot 0 ''app-a''))"
  using serving_host_slot
  by (simp_all add: quiet_host_def serving_host_def fresh_host_def default_snapshot_def)

lemma quiet_host_due:
  "should_sleep minute_policy sample_record (signals_of calm_world (h_snapshot quiet_host) sample_record 0) 0 = Some Quiet"
  by (simp add: should_sleep_def minute_policy_def signals_of_def quiet_host_def sample_record_def record_new_def
      sample_fields_def SLEEPABLE_STATES_def measured_lately_def MAX_ACTIVITY_AGE_MS_def)

theorem sleep_is_due_witness:
  "sleeps_in (h_trace (final (let_sleep calm_world sample_host_config ''app-a'' minute_policy) quiet_host)) =
     [\<lparr>sr_app_id = ''app-a'', sr_deployment_id = ''dep-1'', sr_slot = the (describe_slot 0 ''app-a'')\<rparr>]"
proof -
  let ?t = "h_trace (final (let_sleep calm_world sample_host_config ''app-a'' minute_policy) quiet_host)"
  have world: "w_now calm_world [] = 0" "requests_for (w_open_requests calm_world t) a = 0" for t a
    by (simp_all add: calm_world_def requests_for_def)
  have "sleeps_in ?t \<noteq> []"
    by (simp add: let_sleep_def cron_running_def the_snapshot_def quiet_host_facts waited_out_def due_of_def world
        quiet_host_due suspend_trace_sleeps Let_def)
  moreover have "?t = h_trace quiet_host @ ?t" by (simp add: quiet_host_facts)
  moreover have "ir_deployment_id sample_record = ''dep-1''"
    by (simp add: sample_record_def record_new_def sample_fields_def)
  ultimately show ?thesis
    using sleep_is_due [of calm_world sample_host_config "''app-a''" minute_policy quiet_host ?t]
    by (auto simp: quiet_host_facts)
qed

section \<open>One pass stays short\<close>

lemma let_sleep_one:
  "length (sleeps_in (h_trace (final (let_sleep w config a policy) s))) \<le> length (sleeps_in (h_trace s)) + 1"
  by (simp add: let_sleep_def cron_running_def the_snapshot_def suspend_trace_sleeps Let_def split: option.splits)

lemma sleep_batch_count:
  "length (sleeps_in (h_trace (final (sleep_batch w config batch) s))) \<le>
     length (sleeps_in (h_trace s)) + length batch"
proof (induction w config batch arbitrary: s rule: sleep_batch.induct)
  case (2 w config d a policy batch)
  from "2.IH" [of "final (let_sleep w config a policy) s"] let_sleep_one [of w config a policy s]
  show ?case by simp
qed simp

text \<open>
  A pass of sleeps is bounded. However many apps are due, a pass asks for at most eight
  snapshots; and it never sends its caller straight back unless apps it could have tried are left,
  by exactly the number it did not reach.
\<close>

lemma sleeps_per_pass:
  "length (sleeps_in (h_trace (final (apply_sleep w config) s))) \<le> length (sleeps_in (h_trace s)) + 8 \<and>
   (let now = w_now w (h_trace s @ [OpenRequestsCall]);
        ready = filter (\<lambda>(_, a, _). waited_out (w_fpu w) (h_snapshot s) a now)
          (letting_go w s (w_open_requests w (h_trace s)) now)
    in result (apply_sleep w config) s \<in> {0, length ready - 8})"
proof -
  have bound: "length (sleeps_in (h_trace (final (sleep_batch w config (take 8 xs)) t))) \<le>
      length (sleeps_in (h_trace t)) + 8" for xs t
    using sleep_batch_count [of w config "take 8 xs" t] by simp
  show ?thesis
    by (simp add: apply_sleep_def Let_def SLEEPS_PER_PASS_def SLEEP_CONCURRENCY_def final_apply_network)
       (auto intro!: order_trans [OF bound])
qed

section \<open>A sleep that did not happen\<close>

text \<open>
  A sleep that did not happen is not tried at once again. When the snapshot was refused or
  failed, the app's attempts go up by one and it is left alone until the backoff for that many
  attempts has run out; when it slept, or there was nothing left to put to sleep, the wait is
  over. No other app's wait changes.
\<close>

lemma failed_sleeps_wait:
  "(let s' = final (note_attempt w a outcome) s;
        before = (case map_of (hs_failed_sleeps (h_snapshot s)) a of Some f \<Rightarrow> aw_attempts f | None \<Rightarrow> 0)
    in (waited_out fpu (h_snapshot s') a now \<longleftrightarrow>
          outcome \<notin> {Some SleepWasRefused, Some SleepFailed} \<or>
          now - w_now w (h_trace s) \<ge> as_i64 (backoff_delay_ms fpu (before + 1) SLEEP_RETRY)) \<and>
       (b \<noteq> a \<longrightarrow> waited_out fpu (h_snapshot s') b now = waited_out fpu (h_snapshot s) b now))"
  by (cases outcome)
     (auto simp: note_attempt_def waited_out_def is_ready_to_retry_def NO_START_ATTEMPTS_def Let_def split: option.splits)

end
