(* ===== verification/Admission.thy ===== *)
theory Admission
  imports Reconcile
begin

text \<open>
  A wave of starts (\<open>apply_starts\<close>): what the apps of a host hold together is never taken past
  the memory it has for guests, and nothing boots on a host whose ruleset is not in place.
\<close>

section \<open>What the records hold\<close>

definition held_mib :: "instance_record list \<Rightarrow> nat" where
  "held_mib records = committed_memory_mib (committed_resources records)"

definition held_by :: "instance_record list \<Rightarrow> app_id \<Rightarrow> nat" where
  "held_by records a = held_mib (filter (\<lambda>r. ir_app_id r = a) records)"

definition held_in :: "(app_id, instance_record) btree \<Rightarrow> app_id \<Rightarrow> nat" where
  "held_in m a = (case map_of m a of
     None \<Rightarrow> 0 | Some r \<Rightarrow> if holds_something r then res_memory_mib (ir_resources r) else 0)"

lemma held_mib_simps [simp]:
  "held_mib [] = 0"
  "held_mib (r # rs) = (if holds_something r then res_memory_mib (ir_resources r) else 0) + held_mib rs"
  "held_mib (rs @ ss) = held_mib rs + held_mib ss"
  by (simp_all add: held_mib_def committed_memory_mib_def committed_resources_def)

lemma held_by_simps [simp]:
  "held_by [] a = 0"
  "held_by (r # rs) a = (if ir_app_id r = a \<and> holds_something r then res_memory_mib (ir_resources r) else 0) + held_by rs a"
  "held_by (rs @ ss) a = held_by rs a + held_by ss a"
  by (simp_all add: held_by_def)

lemma held_by_filter: "held_by (filter (\<lambda>r. ir_app_id r \<noteq> a) rs) b = (if b = a then 0 else held_by rs b)"
  by (induction rs) auto

text \<open>What a list of records holds is what each of any finite set of apps that covers it holds.\<close>

lemma held_mib_sum:
  assumes "finite A" "ir_app_id ` set rs \<subseteq> A"
  shows "held_mib rs = (\<Sum>a \<in> A. held_by rs a)"
  using assms(2)
proof (induction rs)
  case (Cons r rs)
  then show ?case
    using assms(1) by (simp add: sum.distrib sum.If_cases if_if_eq_conj flip: if_bool_eq_conj)
qed simp

lemma held_by_absent: "a \<notin> ir_app_id ` set rs \<Longrightarrow> held_by rs a = 0"
  by (induction rs) auto

lemma held_by_values:
  assumes "records_wf m"
  shows "held_by (bt_values m) a = held_in m a"
proof -
  have "held_by (map snd m) a = held_in m a"
    if "distinct (map fst m)" "\<forall>(k, r) \<in> set m. ir_app_id r = k" for m :: "(app_id, instance_record) btree"
    using that
  proof (induction m)
    case (Cons e m)
    moreover have "held_by (map snd m) (fst e) = 0"
      using Cons.prems by (intro held_by_absent) force
    ultimately show ?case by (cases e) (auto simp: held_in_def)
  qed (simp add: held_in_def)
  then show ?thesis
    using assms bt_wf_distinct [of m] bt_wf_map_of [of m] by (auto simp: bt_values_def records_wf_def)
qed

lemma shortfall_None:
  "memory_shortfall_for memory records a wanted = None \<longleftrightarrow>
     held_mib (filter (\<lambda>r. ir_app_id r \<noteq> a) records) + res_memory_mib wanted \<le> memory"
  by (simp add: memory_shortfall_for_def memory_shortfall_mib_def held_mib_def committed_resources_def
      Let_def conj_commute)

text \<open>What every app but one holds.\<close>

definition rest_mib :: "(app_id, instance_record) btree \<Rightarrow> app_id \<Rightarrow> nat" where
  "rest_mib m a = held_mib (filter (\<lambda>r. ir_app_id r \<noteq> a) (bt_values m))"

lemma held_mib_partition:
  assumes "records_wf m"
  shows "held_mib (bt_values m) = held_in m a + rest_mib m a"
proof -
  have "held_mib rs = held_by rs a + held_mib (filter (\<lambda>r. ir_app_id r \<noteq> a) rs)" for rs
    by (induction rs) auto
  from this [of "bt_values m"] held_by_values [OF assms, of a] show ?thesis by (simp add: rest_mib_def)
qed

lemma rest_mib_sum:
  assumes "records_wf m" "finite A" "ir_app_id ` set (bt_values m) \<subseteq> A"
  shows "rest_mib m a = (\<Sum>b \<in> A. if b = a then 0 else held_in m b)"
proof -
  have "rest_mib m a = (\<Sum>b \<in> A. held_by (filter (\<lambda>r. ir_app_id r \<noteq> a) (bt_values m)) b)"
    using assms unfolding rest_mib_def by (intro held_mib_sum) auto
  then show ?thesis by (simp add: held_by_filter held_by_values [OF assms(1)] cong: if_cong)
qed

lemma rest_mib_same:
  assumes "records_wf m" "records_wf m'" "\<And>b. b \<noteq> a \<Longrightarrow> map_of m' b = map_of m b"
  shows "rest_mib m' a = rest_mib m a"
proof -
  let ?A = "ir_app_id ` set (bt_values m) \<union> ir_app_id ` set (bt_values m')"
  have "(\<Sum>b \<in> ?A. if b = a then 0 else held_in m' b) = (\<Sum>b \<in> ?A. if b = a then 0 else held_in m b)"
    by (rule sum.cong) (simp_all add: held_in_def assms(3))
  then show ?thesis using rest_mib_sum [of m ?A a] rest_mib_sum [of m' ?A a] assms(1,2) by simp
qed

lemma rest_mib_covered:
  assumes "records_wf m" "\<And>b. held_in m b \<le> held_by cached b"
  shows "rest_mib m a \<le> held_mib (filter (\<lambda>r. ir_app_id r \<noteq> a) cached)"
proof -
  let ?A = "ir_app_id ` set (bt_values m) \<union> ir_app_id ` set cached"
  have "held_mib (filter (\<lambda>r. ir_app_id r \<noteq> a) cached) =
      (\<Sum>b \<in> ?A. held_by (filter (\<lambda>r. ir_app_id r \<noteq> a) cached) b)"
    by (rule held_mib_sum) auto
  also have "\<dots> = (\<Sum>b \<in> ?A. if b = a then 0 else held_by cached b)"
    by (simp add: held_by_filter)
  finally show ?thesis
    using rest_mib_sum [of m ?A a] assms by (auto intro: sum_mono)
qed

section \<open>A start touches its own record only\<close>

definition only_frame :: "app_id \<Rightarrow> host \<Rightarrow> host \<Rightarrow> bool" where
  "only_frame a s t \<longleftrightarrow>
     (host_wf s \<longrightarrow> host_wf t \<and>
        (\<forall>b. b \<noteq> a \<longrightarrow> map_of (hs_records (h_snapshot t)) b = map_of (hs_records (h_snapshot s)) b))"

interpretation only: frame "only_frame a" for a
  by unfold_locales (auto simp: only_frame_def)

lemma only_of:
  "keep.keeps m \<Longrightarrow> (\<And>s b. b \<noteq> a \<Longrightarrow>
     map_of (hs_records (h_snapshot (final m s))) b = map_of (hs_records (h_snapshot s)) b) \<Longrightarrow> only.keeps a m"
  by (auto simp: only.keeps_def keep.keeps_def only_frame_def host_frame_def)

lemma only_ask [frame_rules]: "only.keeps a (ask c answer)"
  by (rule only_of, intro frame_rules) simp

lemma only_change_aside [frame_rules]:
  "(\<And>p. hs_records (f p) = hs_records p) \<Longrightarrow> only.keeps a (change f)"
  by (rule only_of, intro frame_rules) simp_all

lemma only_put_record: "ir_app_id r = a \<Longrightarrow> only.keeps a (put_record r)"
  by (rule only_of, intro frame_rules) (simp add: put_record_def)

lemma only_update_record [frame_rules]:
  "(\<And>r. ir_app_id (f r) = ir_app_id r) \<Longrightarrow> only.keeps a (update_record a f)"
  by (rule only_of, intro frame_rules) (simp_all add: update_record_def)

lemma only_reads [frame_rules]:
  "only.keeps a the_snapshot" "only.keeps a (the_record b)" "only.keeps a the_records" "only.keeps a (slot_of b)"
  by (simp_all add: shared_state_defs only.keeps_gets)

lemma only_slot_for [frame_rules]: "only.keeps a (slot_for b)"
  by (rule only_of, intro frame_rules) simp

lemma only_marks [frame_rules]:
  "only.keeps a (mark_active b now_ms)" "only.keeps a (probe_at_once b)"
  by (simp_all add: mark_active_def probe_at_once_def only_change_aside)

lemma only_with_record:
  assumes "\<And>r. ir_app_id r = a \<Longrightarrow> only.keeps a (f (Some r))" and "only.keeps a (f None)"
  shows "only.keeps a (State_Monad.bind (the_record a) f)"
proof (rule only.keepsI)
  fix s
  have "only_frame a s (final (f (map_of (hs_records (h_snapshot s)) a)) s)" if "host_wf s"
    using that only.keepsD [OF assms(1), of _ s] only.keepsD [OF assms(2), of s]
    by (cases "map_of (hs_records (h_snapshot s)) a") (auto simp: host_wf_def records_wf_def)
  then show "only_frame a s (final (State_Monad.bind (the_record a) f) s)"
    by (auto simp: the_record_def only_frame_def)
qed

lemma only_vm_error [frame_rules]:
  "(e = StartBusy \<Longrightarrow> only.keeps k a) \<Longrightarrow> (\<And>x. e = SnapshotUnusable x \<Longrightarrow> only.keeps k (b x)) \<Longrightarrow>
   (\<And>x. e = SleepRefused x \<Longrightarrow> only.keeps k (c x)) \<Longrightarrow> (\<And>x y. e = VmUnreachable x y \<Longrightarrow> only.keeps k (d x y)) \<Longrightarrow>
   (\<And>x y z. e = VmRejected x y z \<Longrightarrow> only.keeps k (f x y z)) \<Longrightarrow> (\<And>x. e = VmHost x \<Longrightarrow> only.keeps k (g x)) \<Longrightarrow>
     only.keeps k (case e of StartBusy \<Rightarrow> a | SnapshotUnusable x \<Rightarrow> b x | SleepRefused x \<Rightarrow> c x
       | VmUnreachable x y \<Rightarrow> d x y | VmRejected x y z \<Rightarrow> f x y z | VmHost x \<Rightarrow> g x)"
  by (cases e) auto

lemma only_start_refused [frame_rules]:
  "(\<And>x y. e = OutOfRestarts x y \<Longrightarrow> only.keeps k (a x y)) \<Longrightarrow> (e = UntilTheBackoffIsDone \<Longrightarrow> only.keeps k b) \<Longrightarrow>
     only.keeps k (case e of OutOfRestarts x y \<Rightarrow> a x y | UntilTheBackoffIsDone \<Rightarrow> b)"
  by (cases e) auto

lemma fields_without_slot_app [simp]: "rf_app_id (record_fields_without_slot d) = di_app_id d"
  by (simp add: record_fields_without_slot_def fields_of_def)

lemma only_report_no_slot [frame_rules]: "only.keeps (di_app_id d) (report_no_slot d m)"
  unfolding report_no_slot_def
  by (intro only_with_record frame_rules only_put_record) simp_all

lemma only_say [frame_rules]: "only.keeps a (say a m)"
  unfolding say_def by (intro frame_rules) simp

lemma only_say_out [frame_rules]: "only.keeps a (say_it_is_out_of_restarts a n m)"
  unfolding say_it_is_out_of_restarts_def by (intro frame_rules)

lemma only_volume_refusal [frame_rules]: "only.keeps a (volume_refusal v)"
  unfolding volume_refusal_def by (intro frame_rules)

lemma only_close_connections [frame_rules]: "only.keeps a (close_connections b)"
  unfolding close_connections_def by (intro frame_rules)

lemma only_try_boot [frame_rules]: "only.keeps (di_app_id d) (try_boot w d slot existing)"
  unfolding try_boot_def by (intro frame_rules) simp_all

lemma only_note_booted [frame_rules]: "only.keeps a (note_booted w a)"
  unfolding note_booted_def by (intro frame_rules) simp_all

lemma only_wait_for_room: "only.keeps (di_app_id d) (wait_for_room d n)"
  unfolding wait_for_room_def
  by (intro frame_rules only_with_record only_put_record) simp_all

lemma only_start_with:
  assumes "existing_is (di_app_id d) existing"
  shows "only.keeps (di_app_id d) (start_with w config d now existing)"
  unfolding start_with_def
  by (intro frame_rules only_put_record) (simp_all add: attempted_record_app assms spend_attempt_def)

lemma only_start_instance: "only.keeps (di_app_id d) (start_instance w config d)"
  unfolding start_instance_def
  by (intro only.keeps_bind only_ask only_with_record only_start_with) (simp_all add: existing_is_def)

section \<open>What a start takes\<close>

text \<open>The record of an app asks for the resources the document gives it.\<close>

definition asks_for :: "app_id \<Rightarrow> instance_resources \<Rightarrow> host \<Rightarrow> bool" where
  "asks_for a wanted s \<longleftrightarrow> (\<forall>r. map_of (hs_records (h_snapshot s)) a = Some r \<longrightarrow> ir_resources r = wanted)"

interpretation asks: frame "\<lambda>s t. asks_for a wanted s \<longrightarrow> asks_for a wanted t" for a wanted
  by unfold_locales auto

lemma asks_leaves [frame_rules]:
  "asks.keeps a wanted (ask c answer)" "asks.keeps a wanted (probe_at_once b)"
  "asks.keeps a wanted (mark_active b n)" "asks.keeps a wanted (close_connections b)"
  by (rule asks.keepsI, simp add: asks_for_def probe_at_once_def mark_active_def close_connections_def)+

lemma asks_change_aside [frame_rules]:
  "(\<And>p. hs_records (f p) = hs_records p) \<Longrightarrow> asks.keeps a wanted (change f)"
  by (rule asks.keepsI) (simp add: asks_for_def)

lemma asks_update_record [frame_rules]:
  "(\<And>r. ir_resources (f r) = ir_resources r) \<Longrightarrow> asks.keeps a wanted (update_record b f)"
  by (rule asks.keepsI) (auto simp: asks_for_def update_record_def)

lemma asks_vm_error [frame_rules]:
  "(e = StartBusy \<Longrightarrow> asks.keeps k v a) \<Longrightarrow> (\<And>x. e = SnapshotUnusable x \<Longrightarrow> asks.keeps k v (b x)) \<Longrightarrow>
   (\<And>x. e = SleepRefused x \<Longrightarrow> asks.keeps k v (c x)) \<Longrightarrow> (\<And>x y. e = VmUnreachable x y \<Longrightarrow> asks.keeps k v (d x y)) \<Longrightarrow>
   (\<And>x y z. e = VmRejected x y z \<Longrightarrow> asks.keeps k v (f x y z)) \<Longrightarrow> (\<And>x. e = VmHost x \<Longrightarrow> asks.keeps k v (g x)) \<Longrightarrow>
     asks.keeps k v (case e of StartBusy \<Rightarrow> a | SnapshotUnusable x \<Rightarrow> b x | SleepRefused x \<Rightarrow> c x
       | VmUnreachable x y \<Rightarrow> d x y | VmRejected x y z \<Rightarrow> f x y z | VmHost x \<Rightarrow> g x)"
  by (cases e) auto

lemma asks_try_boot [frame_rules]: "asks.keeps a wanted (try_boot w d slot existing)"
  unfolding try_boot_def by (intro frame_rules) simp_all

lemma asks_note_booted [frame_rules]: "asks.keeps a wanted (note_booted w b)"
  unfolding note_booted_def by (intro frame_rules) simp_all

lemma asks_after_put:
  "ir_app_id r = a \<Longrightarrow> ir_resources r = wanted \<Longrightarrow> asks_for a wanted (final (put_record r) s)"
  by (simp add: asks_for_def put_record_def)

lemma asks_bind:
  "asks_for a wanted (final m s) \<Longrightarrow> (\<And>x. asks.keeps a wanted (f x)) \<Longrightarrow>
     asks_for a wanted (final (State_Monad.bind m f) s)"
  by (simp add: asks.keeps_def)

lemma record_new_resources [simp]: "ir_resources (record_new given state health) = rf_resources given"
  by (simp add: record_new_def)

lemma fields_resources [simp]:
  "rf_resources (fields_with_slot d slot) = ac_resources (di_config d)"
  "rf_resources (record_fields_without_slot d) = ac_resources (di_config d)"
  by (simp_all add: fields_with_slot_def record_fields_without_slot_def fields_of_def)

lemma asks_say [frame_rules]: "asks.keeps a wanted (say b m)"
  unfolding say_def the_record_def by (intro frame_rules) simp

lemma asks_after_no_slot:
  assumes "host_wf s"
  shows "asks_for (di_app_id d) (ac_resources (di_config d)) (final (report_no_slot d m) s)"
proof (cases "map_of (hs_records (h_snapshot s)) (di_app_id d)")
  case None
  then show ?thesis by (simp add: report_no_slot_def the_record_def asks_for_def put_record_def)
next
  case (Some r)
  with assms have "ir_app_id r = di_app_id d" by (auto simp: host_wf_def records_wf_def)
  then have "asks_for (di_app_id d) (ac_resources (di_config d)) (final (put_record
      (if news then (adopt (record_fields_without_slot d) r)\<lparr>ir_state := IsFailed, ir_message := Some m\<rparr>
       else (adopt (record_fields_without_slot d) r)\<lparr>ir_state := IsFailed\<rparr>)) s)" for news
    by (intro asks_after_put) simp_all
  with Some show ?thesis
    by (simp only: report_no_slot_def final_bind result_gets final_gets the_record_def Let_def option.case final_return)
qed

lemma start_with_asks:
  assumes "host_wf s" "existing_is (di_app_id d) existing"
    and "start_refusal (w_fpu w) existing now d = None"
  shows "asks_for (di_app_id d) (ac_resources (di_config d)) (final (start_with w config d now existing) s)"
proof -
  let ?s = "final (slot_for (di_app_id d)) s"
  have wf: "host_wf ?s"
    using keep.keepsD [OF keep_slot_for, of s] assms(1) by (simp add: host_frame_def)
  show ?thesis
  proof (cases "fst (allocate (di_app_id d) (h_alloc s))")
    case (Inl e)
    with asks_after_no_slot [OF wf] show ?thesis by (simp add: start_with_def assms(3))
  next
    case (Inr slot)
    show ?thesis
    proof (cases "ingress_refusal d config")
      case (Some refusal)
      have "asks_for (di_app_id d) (ac_resources (di_config d)) (final (do {
          put_record (refused_record d slot existing); _ \<leftarrow> say (di_app_id d) (state_message_new refusal);
          done_with () }) ?s)"
        by (intro asks_bind asks_after_put frame_rules)
           (simp_all add: attempted_record_app assms(2), simp add: refused_record_def)
      with Inr Some show ?thesis by (simp add: start_with_def assms(3))
    next
      case None
      let ?attempted = "attempted_record d slot existing"
      have "asks_for (di_app_id d) (ac_resources (di_config d)) (final (do {
          put_record (?attempted\<lparr>ir_state := IsFailed\<rparr>); _ \<leftarrow> say (di_app_id d) refusal;
          done_with () }) ?s)" for refusal
        by (intro asks_bind asks_after_put frame_rules)
           (simp_all add: attempted_record_app assms(2), simp add: attempted_record_def)
      moreover have "asks_for (di_app_id d) (ac_resources (di_config d)) (final (do {
          put_record (spend_attempt d existing now ?attempted);
          mark_active (di_app_id d) now;
          booted \<leftarrow> try_boot w d slot existing;
          case booted of
            None \<Rightarrow> done_with ()
          | Some (Inr _) \<Rightarrow> note_booted w (di_app_id d)
          | Some (Inl reason) \<Rightarrow>
              update_record (di_app_id d)
                (\<lambda>r. r\<lparr>ir_state := IsFailed, ir_message := Some (state_message_new reason)\<rparr>) }) ?s)"
        by (intro asks_bind asks_after_put frame_rules)
           (simp_all add: attempted_record_app assms(2) spend_attempt_def, simp add: attempted_record_def)
      moreover have "final (volume_refusal v) t = t" for v t
        by (simp add: volume_refusal_def the_snapshot_def)
      ultimately show ?thesis
        using Inr None by (simp add: start_with_def assms(3) Let_def split: option.splits)
    qed
  qed
qed

lemma held_asks: "asks_for a wanted s \<Longrightarrow> held_in (hs_records (h_snapshot s)) a \<le> res_memory_mib wanted"
  by (simp add: asks_for_def held_in_def split: option.splits)

lemma held_same_say: "held_in (hs_records (h_snapshot (final (say b m) s))) a = held_in (hs_records (h_snapshot s)) a"
proof -
  have "holds_something (r\<lparr>ir_message := m'\<rparr>) = holds_something r" for r m'
    by (simp add: holds_something_def)
  then show ?thesis
    by (simp add: say_def the_record_def update_record_def held_in_def split: option.splits)
qed

text \<open>A start leaves its app with at most what it held before or what the document asks for it.\<close>

lemma start_instance_held:
  assumes "host_wf s"
  shows "held_in (hs_records (h_snapshot (final (start_instance w config d) s))) (di_app_id d) \<le>
         max (held_in (hs_records (h_snapshot s)) (di_app_id d)) (res_memory_mib (ac_resources (di_config d)))"
proof -
  let ?ex = "map_of (hs_records (h_snapshot s)) (di_app_id d)"
  let ?now = "w_now w (h_trace s)"
  let ?s = "s\<lparr>h_trace := h_trace s @ [NowCall]\<rparr>"
  have run: "final (start_instance w config d) s = final (start_with w config d ?now ?ex) ?s"
    by (simp add: start_instance_def the_record_def)
  show ?thesis
  proof (cases "start_refusal (w_fpu w) ?ex ?now d")
    case None
    have "host_wf ?s" using assms by (simp add: host_wf_def)
    from held_asks [OF start_with_asks [OF this existing_of_wf [OF assms] None, of config]] show ?thesis
      unfolding run by simp
  next
    case (Some refusal)
    then show ?thesis unfolding run
      by (cases refusal) (simp_all add: start_with_def say_it_is_out_of_restarts_def held_same_say)
  qed
qed

lemma put_idle_held:
  "ir_app_id r = a \<Longrightarrow> \<not> holds_something r \<Longrightarrow> held_in (hs_records (h_snapshot (final (put_record r) s))) a = 0"
  by (simp add: put_record_def held_in_def)

lemma waits_hold_nothing [simp]:
  "\<not> holds_something (r\<lparr>ir_state := IsFailed\<rparr>)"
  "\<not> holds_something (r\<lparr>ir_state := IsFailed, ir_message := m\<rparr>)"
  "\<not> holds_something ((record_new given IsFailed health)\<lparr>ir_message := m\<rparr>)"
  "\<not> holds_something (r\<lparr>ir_state := IsPending, ir_stop_requested := b, ir_started_at := t,
       ir_start_attempts := NO_START_ATTEMPTS, ir_message := m\<rparr>)"
  by (simp_all add: holds_something_def HOLDS_NOTHING_def)

lemma report_no_slot_held:
  assumes "host_wf s"
  shows "held_in (hs_records (h_snapshot (final (report_no_slot d m) s))) (di_app_id d) = 0"
  using records_wf_lookup [of "hs_records (h_snapshot s)" "di_app_id d"] assms
  by (cases "map_of (hs_records (h_snapshot s)) (di_app_id d)")
     (simp_all only: report_no_slot_def final_bind result_gets final_gets the_record_def Let_def option.case
        final_return host_wf_def, auto intro!: put_idle_held)

lemma wait_for_room_held:
  assumes "host_wf s"
  shows "held_in (hs_records (h_snapshot (final (wait_for_room d n) s))) (di_app_id d) = 0"
proof -
  let ?s = "final (slot_for (di_app_id d)) s"
  have wf: "host_wf ?s"
    using keep.keepsD [OF keep_slot_for, of s] assms by (simp add: host_frame_def)
  show ?thesis
  proof (cases "fst (allocate (di_app_id d) (h_alloc s))")
    case (Inl e)
    with report_no_slot_held [OF wf] show ?thesis by (simp add: wait_for_room_def)
  next
    case (Inr slot)
    have "existing_is (di_app_id d) (map_of (hs_records (h_snapshot s)) (di_app_id d))"
      by (rule existing_of_wf [OF assms])
    with Inr show ?thesis
      by (simp add: wait_for_room_def the_record_def Let_def)
         (rule put_idle_held, auto simp: existing_is_def split: option.splits)
  qed
qed

section \<open>A wave of starts\<close>

abbreviation host_held :: "host \<Rightarrow> nat" where
  "host_held s \<equiv> held_mib (bt_values (hs_records (h_snapshot s)))"

lemma own_change:
  assumes "host_wf s" "only_frame a s t" and "held_in (hs_records (h_snapshot t)) a \<le> bound"
  shows "host_held t \<le> bound + rest_mib (hs_records (h_snapshot s)) a" and "host_wf t"
proof -
  show wf: "host_wf t" using assms(1,2) by (simp add: only_frame_def)
  let ?m = "hs_records (h_snapshot s)" and ?m' = "hs_records (h_snapshot t)"
  have wfs: "records_wf ?m" "records_wf ?m'" using assms(1) wf by (simp_all add: host_wf_def)
  have "rest_mib ?m' a = rest_mib ?m a"
    using assms(1,2) by (intro rest_mib_same wfs) (simp add: only_frame_def)
  with held_mib_partition [OF wfs(2), of a] assms(3)
  show "host_held t \<le> bound + rest_mib ?m a" by simp
qed

lemma cover_others:
  assumes "host_wf s" "only_frame a s t" "b \<noteq> a"
  shows "held_in (hs_records (h_snapshot t)) b = held_in (hs_records (h_snapshot s)) b"
  using assms by (simp add: only_frame_def held_in_def)

lemma start_loop_bounded:
  assumes "host_wf s" and "\<And>b. held_in (hs_records (h_snapshot s)) b \<le> held_by cached b"
    and "host_held s \<le> memory" and "cf_guest_memory_mib config \<le> memory"
  shows "host_held (final (start_loop w config starts cached) s) \<le> memory"
  using assms(1,2,3)
proof (induction starts arbitrary: s cached)
  case Nil
  then show ?case by simp
next
  case (Cons d starts)
  let ?a = "di_app_id d" and ?wanted = "ac_resources (di_config d)"
  let ?m = "hs_records (h_snapshot s)"
  have split: "host_held s = held_in ?m ?a + rest_mib ?m ?a"
    using Cons.prems(1) by (intro held_mib_partition) (simp add: host_wf_def)
  show ?case
  proof (cases "memory_shortfall_for (cf_guest_memory_mib config) cached ?a ?wanted")
    case (Some short)
    let ?t = "final (wait_for_room d short) s"
    have only: "only_frame ?a s ?t" by (rule only.keepsD [OF only_wait_for_room])
    have gone: "held_in (hs_records (h_snapshot ?t)) ?a = 0" by (rule wait_for_room_held [OF Cons.prems(1)])
    have "host_held ?t \<le> 0 + rest_mib ?m ?a" and wf: "host_wf ?t"
      using own_change [OF Cons.prems(1) only, of 0] gone by simp_all
    then have "host_held ?t \<le> memory" using split Cons.prems(3) by simp
    moreover have "held_in (hs_records (h_snapshot ?t)) b \<le> held_by cached b" for b
      using cover_others [OF Cons.prems(1) only, of b] Cons.prems(2) [of b] gone by (cases "b = ?a") simp_all
    ultimately show ?thesis using Cons.IH [OF wf] Some by simp
  next
    case None
    let ?t = "final (start_instance w config d) s"
    let ?bound = "max (held_in ?m ?a) (res_memory_mib ?wanted)"
    let ?found = "map_of (hs_records (h_snapshot ?t)) ?a"
    let ?cached = "filter (\<lambda>r. ir_app_id r \<noteq> ?a) cached @ (case ?found of Some r \<Rightarrow> [r] | None \<Rightarrow> [])"
    have only: "only_frame ?a s ?t" by (rule only.keepsD [OF only_start_instance])
    note after = own_change [OF Cons.prems(1) only start_instance_held [OF Cons.prems(1)]]
    have "rest_mib ?m ?a + res_memory_mib ?wanted \<le> memory"
      using rest_mib_covered [of ?m cached ?a] Cons.prems(1,2) None assms(4)
      by (simp add: host_wf_def shortfall_None)
    with after(1) split Cons.prems(3) have "host_held ?t \<le> memory"
      by (simp add: max_def split: if_splits)
    moreover have "held_in (hs_records (h_snapshot ?t)) b \<le> held_by ?cached b" for b
    proof (cases "b = ?a")
      case True
      have "ir_app_id r = ?a" if "?found = Some r" for r
        using after(2) that by (auto simp: host_wf_def records_wf_def)
      then show ?thesis using True by (auto simp: held_in_def held_by_filter split: option.splits)
    next
      case False
      with cover_others [OF Cons.prems(1) only, of b] Cons.prems(2) [of b] show ?thesis
        by (simp add: held_by_filter)
    qed
    ultimately show ?thesis
      using Cons.IH [OF after(2), of ?cached] None by (simp add: the_record_def)
  qed
qed

text \<open>
  (C1) A wave of starts boots what fits and no more. However many apps a pass wants up, and
  whatever the hypervisor and the volumes answer, what the records hold together afterwards is at
  most what they held before or what the host has for guests, whichever is more; and on a host
  whose isolation ruleset is not in place the pass starts nothing and changes nothing.
\<close>

theorem starts_never_overcommit:
  assumes "host_wf s"
  shows "committed_memory_mib (committed_resources (bt_values (hs_records
             (h_snapshot (final (apply_starts w config plan) s))))) \<le>
           max (committed_memory_mib (committed_resources (bt_values (hs_records (h_snapshot s)))))
               (cf_guest_memory_mib config) \<and>
         (\<not> hs_isolated (h_snapshot s) \<longrightarrow> final (apply_starts w config plan) s = s)"
proof -
  let ?m = "hs_records (h_snapshot s)"
  have "held_in ?m b \<le> held_by (bt_values ?m) b" for b
    using held_by_values [of ?m b] assms by (simp add: host_wf_def)
  from start_loop_bounded [OF assms this max.cobounded1 max.cobounded2, where w = w and starts = "starting plan"]
  show ?thesis
    by (auto simp: apply_starts_def the_snapshot_def the_records_def Let_def simp flip: held_mib_def)
qed

text \<open>A host that serves one app and has room for 44 MiB more.\<close>

definition full_host :: host where
  "full_host = serving_host\<lparr>h_snapshot := (h_snapshot serving_host)\<lparr>hs_isolated := True\<rparr>\<rparr>"

definition start_plan :: reconcile_plan where
  "start_plan = \<lparr>pl_instances = [PlanStart sample_instance], pl_volumes = [], pl_checkpoints = [],
     pl_exports = []\<rparr>"

theorem starts_never_overcommit_witness:
  "committed_memory_mib (committed_resources (bt_values (hs_records (h_snapshot
     (final (apply_starts calm_world (sample_host_config\<lparr>cf_guest_memory_mib := 300\<rparr>) start_plan) full_host))))) \<le> 300"
proof -
  have wf: "host_wf full_host" using serving_host_wf by (simp add: full_host_def host_wf_def)
  have "committed_memory_mib (committed_resources (bt_values (hs_records (h_snapshot full_host)))) = 256"
    by (simp add: full_host_def serving_host_def fresh_host_def bt_values_def committed_memory_mib_def
        committed_resources_def sample_record_def holds_something_def HOLDS_NOTHING_def record_new_def
        sample_fields_def)
  with starts_never_overcommit
      [OF wf, of calm_world "sample_host_config\<lparr>cf_guest_memory_mib := 300\<rparr>" start_plan]
  show ?thesis by simp
qed

section \<open>Nothing boots before the ruleset is in place\<close>

fun is_boot :: "port_call \<Rightarrow> bool" where
  "is_boot (BootCall req) = True"
| "is_boot _ = False"

definition quiet_frame :: "host \<Rightarrow> host \<Rightarrow> bool" where
  "quiet_frame s t \<longleftrightarrow> (\<exists>more. h_trace t = h_trace s @ more \<and> list_all (\<lambda>c. \<not> is_boot c) more)"

interpretation quiet: frame quiet_frame
proof (unfold_locales)
  show "quiet_frame s s" for s by (simp add: quiet_frame_def)
  show "quiet_frame s u" if "quiet_frame s t" "quiet_frame t u" for s t u
    using that by (force simp: quiet_frame_def)
qed

lemma quiet_silent: "(\<And>s. h_trace (final m s) = h_trace s) \<Longrightarrow> quiet.keeps m"
  by (rule quiet.keepsI) (simp add: quiet_frame_def)

lemma quiet_ask [frame_rules]: "\<not> is_boot c \<Longrightarrow> quiet.keeps (ask c answer)"
  by (rule quiet.keepsI) (simp add: quiet_frame_def)

lemma quiet_state [frame_rules]:
  "quiet.keeps (change f)" "quiet.keeps (put_record r)" "quiet.keeps (update_record a g)" "quiet.keeps (drop_record a)"
  "quiet.keeps (modify (\<lambda>s. s\<lparr>h_alloc := k s\<rparr>))" "quiet.keeps (slot_for a)" "quiet.keeps the_snapshot"
  "quiet.keeps (the_record a)" "quiet.keeps the_records" "quiet.keeps (slot_of a)" "quiet.keeps the_slots"
  "quiet.keeps (mark_active a n)" "quiet.keeps (mark_snapshotting a b)" "quiet.keeps (probe_at_once a)"
  "quiet.keeps (remember_deleted_volume report)" "quiet.keeps (forget_deleted_volumes vols)"
  "quiet.keeps forwarded_instances" "quiet.keeps (report_no_slot d m)" "quiet.keeps observe_exports"
  "quiet.keeps (plan_subject c)"
  by (rule quiet_silent, simp add: drop_record_def shared_state_defs observe_exports_def plan_subject_def)+

lemma quiet_network [frame_rules]:
  "quiet.keeps (apply_network w config)" "quiet.keeps (apply_activators config)" "quiet.keeps apply_routes"
  unfolding apply_network_def apply_activators_def apply_routes_def
  by (intro frame_rules; simp)+

lemma quiet_stop_instance [frame_rules]: "quiet.keeps (stop_instance w a)"
  unfolding stop_instance_def close_connections_def settled_def by (intro frame_rules; simp)

lemma quiet_waits [frame_rules]: "quiet.keeps (sleep_instance d)" "quiet.keeps (hold_instance d)"
  unfolding sleep_instance_def hold_instance_def by (intro frame_rules)+

lemma quiet_prefetch_loop [frame_rules]: "quiet.keeps (prefetch_loop w layers waiting prepared)"
  by (induction w layers waiting prepared rule: prefetch_loop.induct)
     (unfold prefetch_loop.simps, (intro frame_rules; simp)+)

lemma quiet_storage [frame_rules]:
  "quiet.keeps (observe_volumes w owners)" "quiet.keeps (observe_checkpoints w desired)"
  "quiet.keeps (provision_volume w d)" "quiet.keeps (give_back_slot a)" "quiet.keeps (cut w c)"
  "quiet.keeps (release_checkpoint w c)" "quiet.keeps (reap w plan)"
  unfolding observe_volumes_def observe_checkpoints_def provision_volume_def give_back_slot_def cut_def
    release_checkpoint_def reap_def merge_report_def
  by (intro frame_rules; simp)+

lemma quiet_apply_volumes [frame_rules]: "quiet.keeps (apply_volumes w plan observed desired trig)"
  unfolding apply_volumes_def by (intro frame_rules)

lemma quiet_apply_stop [frame_rules]: "quiet.keeps (apply_stop w action)"
  unfolding apply_stop_def stop_and_forget_def by (cases action; simp; intro frame_rules; simp)

lemma quiet_before_starts [frame_rules]: "quiet.keeps (before_starts w config desired trig)"
proof -
  have "quiet.keeps (case action of PlanSleep d \<Rightarrow> sleep_instance d | _ \<Rightarrow> done_with ())"
    "quiet.keeps (case action of PlanHold d \<Rightarrow> hold_instance d | _ \<Rightarrow> done_with ())" for action
    by (cases action; simp add: frame_rules)+
  then show ?thesis
    unfolding before_starts_def observe_host_def sync_desired_def prefetch_layers_def apply_stops_def
      apply_sleeps_def apply_holds_def
    by (intro frame_rules) (assumption | simp)+
qed

lemma quiet_collect_each: "(\<And>x. quiet.keeps (f x)) \<Longrightarrow> quiet.keeps (collect_each xs f)"
  by (induction xs) (auto intro!: frame_rules)

lemma quiet_apply_checkpoint: "quiet.keeps (apply_checkpoint w held action)"
  unfolding apply_checkpoint_def by (cases action) (auto intro!: frame_rules)

lemma quiet_attempt [frame_rules]:
  "quiet.keeps m \<Longrightarrow> (\<And>a. quiet.keeps (f a)) \<Longrightarrow> quiet.keeps (attempt m f)"
  unfolding attempt_def by (intro frame_rules)

lemma quiet_write_export [frame_rules]: "quiet.keeps (write_export w d)"
  unfolding write_export_def write_inner_def by (intro frame_rules; simp)

lemma quiet_export_loop [frame_rules]: "quiet.keeps (export_loop w trig actions reports)"
  by (induction w trig actions reports rule: export_loop.induct) (auto intro!: frame_rules)

lemma quiet_apply_teardown [frame_rules]: "quiet.keeps (apply_teardown w action)"
  unfolding apply_teardown_def tear_down_volume_def detach_volume_def merge_report_def
  by (cases action; simp; intro frame_rules; simp)

lemma quiet_after_starts [frame_rules]: "quiet.keeps (after_starts w config desired trig plan)"
  unfolding after_starts_def apply_teardowns_def apply_checkpoints_def apply_exports_def observe_converged_def
  by (intro frame_rules quiet_collect_each quiet_apply_checkpoint) simp_all

lemma keep_start_loop: "keep.keeps (start_loop w config starts records)"
  by (induction w config starts records rule: start_loop.induct) (auto intro!: frame_rules)

lemma keep_apply_starts: "keep.keeps (apply_starts w config plan)"
  unfolding apply_starts_def by (intro frame_rules keep_start_loop)

text \<open>
  (C2) Nothing boots before the host is isolated. If a pass asks for a boot, then earlier in that
  same pass it loaded a ruleset, with the networks the configuration denies the guests, and the
  firewall accepted it; and no boot was asked for before that.
\<close>

theorem boots_wait_for_the_ruleset:
  assumes "h_trace (final (reconcile w config desired trig) s) = h_trace s @ calls"
    and "BootCall req \<in> set calls"
  shows "\<exists>pre fw post. calls = pre @ FirewallCall fw # post \<and> BootCall req \<in> set post \<and>
           list_all (\<lambda>c. \<not> is_boot c) pre \<and> w_firewall w (h_trace s @ pre) fw = Inr () \<and>
           fw_denied_v4 fw = cf_denied_v4 config \<and> fw_denied_v6 fw = cf_denied_v6 config"
proof -
  let ?sync = "CronSyncCall (deployments_of (hd_instances desired))"
  let ?s0 = "s\<lparr>h_trace := h_trace s @ [?sync]\<rparr>"
  let ?plan = "result (before_starts w config desired trig) ?s0"
  let ?s1 = "final (before_starts w config desired trig) ?s0"
  let ?fw = "fw_of config (h_snapshot ?s1) (h_alloc ?s1)"
  let ?s2 = "final (apply_network w config) ?s1"
  let ?s3 = "final (apply_starts w config ?plan) ?s2"
  let ?s4 = "final (after_starts w config desired trig ?plan) ?s3"
  have last: "final (reconcile w config desired trig) s = ?s4"
    using assms by (auto simp: reconcile_def split: sum.splits)
  obtain before where before: "h_trace ?s1 = h_trace s @ ?sync # before" "list_all (\<lambda>c. \<not> is_boot c) before"
    using quiet.keepsD [OF quiet_before_starts, of ?s0 w config desired trig] by (auto simp: quiet_frame_def)
  have two: "h_trace ?s2 = h_trace ?s1 @ [FirewallCall ?fw]"
    "hs_isolated (h_snapshot ?s2) \<longleftrightarrow> \<not> isl (w_firewall w (h_trace ?s1) ?fw)"
    by (simp_all add: final_apply_network)
  obtain starts where starts: "h_trace ?s3 = h_trace ?s2 @ starts"
    using keep.keepsD [OF keep_apply_starts, of ?s2 w config ?plan] by (auto simp: host_frame_def)
  obtain after where after: "h_trace ?s4 = h_trace ?s3 @ after" "list_all (\<lambda>c. \<not> is_boot c) after"
    using quiet.keepsD [OF quiet_after_starts, of ?s3 w config desired trig ?plan] by (auto simp: quiet_frame_def)
  have calls: "calls = (?sync # before) @ FirewallCall ?fw # starts @ after"
    using assms(1) unfolding last by (simp add: after(1) starts two(1) before(1))
  have booted: "BootCall req \<in> set starts"
    using assms(2) before(2) after(2) unfolding calls by (auto simp: list_all_iff)
  have "hs_isolated (h_snapshot ?s2)"
  proof (rule ccontr)
    assume "\<not> hs_isolated (h_snapshot ?s2)"
    then have "?s3 = ?s2" by (simp add: apply_starts_def the_snapshot_def Let_def)
    with starts booted show False by simp
  qed
  then have "w_firewall w (h_trace s @ ?sync # before) ?fw = Inr ()"
    using two(2) before(1) by (cases "w_firewall w (h_trace ?s1) ?fw") simp_all
  then show ?thesis
    using calls booted before(2)
    by (intro exI [of _ "?sync # before"] exI [of _ ?fw] exI [of _ "starts @ after"]) (simp add: fw_of_def)
qed

lemma first_start_boots:
  assumes "hs_records (h_snapshot t) = []" "h_alloc t = addressing 8" "hs_volume_reports (h_snapshot t) = []"
  shows "\<exists>req. BootCall req \<in> set (h_trace (final (start_instance calm_world sample_host_config sample_instance) t))"
  using assms
  by (auto simp: start_instance_def start_with_def the_record_def start_refusal_def first_slot sample_ingress
      volume_refusal_def the_snapshot_def try_boot_calls boot_calls_def calm_world_def Let_def
      put_record_def mark_active_def split: option.splits sum.splits)

lemma sample_pass_observes:
  assumes "s = fresh_host\<lparr>h_trace := t\<rparr>"
  shows "result (observe_host calm_world sample_document) s =
     \<lparr>os_instances = [], os_volumes = [], os_checkpoints = [], os_exports = []\<rparr>"
    and "\<exists>t'. final (observe_host calm_world sample_document) s = fresh_host\<lparr>h_trace := t'\<rparr>"
  by (simp_all add: assms observe_host_def observe_volumes_def observe_checkpoints_def observe_exports_def
      the_snapshot_def fresh_host_def default_snapshot_def calm_world_def sample_document_def Let_def
      bt_keys_def List.map_filter_def)

lemma sample_pass_plan:
  "plan_reconcile sample_document \<lparr>os_instances = [], os_volumes = [], os_checkpoints = [], os_exports = []\<rparr> = start_plan"
  by (simp add: plan_reconcile_def plan_instances_def plan_volumes_def plan_checkpoints_def plan_exports_def
      sample_document_def start_plan_def Let_def observed_instance_by_id_def bt_collect_def plan_instance_def
      sample_instance_def)

definition untouched :: "host \<Rightarrow> bool" where
  "untouched t \<longleftrightarrow> hs_records (h_snapshot t) = [] \<and> h_alloc t = addressing 8 \<and>
     hs_volume_reports (h_snapshot t) = [] \<and> hs_deleted_volumes (h_snapshot t) = []"

lemma untouched_parts:
  assumes "untouched t"
  shows "untouched (final (ask c answer) t)" "untouched (final (change (\<lambda>p. p\<lparr>hs_deferred_work := b\<rparr>)) t)"
    "untouched (final (sync_desired sample_document) t)" "untouched (final apply_routes t)"
    "untouched (final (prefetch_layers w config start_plan) t)" "untouched (final (apply_stops w start_plan) t)"
    "untouched (final (apply_volumes w start_plan \<lparr>os_instances = [], os_volumes = [], os_checkpoints = [],
       os_exports = []\<rparr> sample_document trig) t)"
    "untouched (final (apply_sleeps start_plan) t)" "untouched (final (apply_holds start_plan) t)"
    "untouched (final (apply_activators config) t)" "untouched (final (apply_network w config) t)"
  using assms
  by (simp_all add: untouched_def sync_desired_def sample_document_def update_record_def bt_modify_def
      apply_routes_def the_records_def prefetch_layers_def start_plan_def starting_def List.map_filter_def
      layers_of_def sample_instance_def stamp_def apply_stops_def apply_stop_def apply_volumes_def the_snapshot_def
      provisions_def forget_deleted_volumes_def merge_volume_reports_def bt_values_def bt_collect_def
      apply_sleeps_def apply_holds_def apply_activators_def the_slots_def final_do_when final_apply_network Let_def)

lemma first_start_fits:
  "memory_shortfall_for (cf_guest_memory_mib sample_host_config) [] (di_app_id sample_instance)
     (ac_resources (di_config sample_instance)) = None"
  by (simp add: shortfall_None sample_host_config_def sample_instance_def sample_config_def
      DEFAULT_INSTANCE_RESOURCES_def)

lemma start_plan_starts:
  assumes "untouched t" "hs_isolated (h_snapshot t)"
  shows "final (apply_starts w sample_host_config start_plan) t = final (start_instance w sample_host_config sample_instance) t"
  using assms first_start_fits
  by (simp add: apply_starts_def start_plan_def starting_def List.map_filter_def the_snapshot_def
      the_records_def untouched_def bt_values_def Let_def the_record_def)

lemma sample_pass_boots:
  "\<exists>req. BootCall req \<in>
     set (h_trace (final (reconcile calm_world sample_host_config sample_document TriggerChange) fresh_host))"
proof -
  let ?sync = "CronSyncCall (deployments_of (hd_instances sample_document))"
  let ?s0 = "fresh_host\<lparr>h_trace := h_trace fresh_host @ [?sync]\<rparr>"
  let ?m = "before_starts calm_world sample_host_config sample_document TriggerChange"
  let ?s2 = "final (apply_network calm_world sample_host_config) (final ?m ?s0)"
  have calm_sync: "w_cron_sync calm_world t x = Inr ()" for t x
    by (simp add: calm_world_def)
  have plan: "result ?m ?s0 = start_plan"
    by (simp add: before_starts_def sample_pass_observes sample_pass_plan Let_def)
  have "untouched (final (observe_host calm_world sample_document) (fresh_host\<lparr>h_trace := t\<rparr>))" for t
    using sample_pass_observes(2) [OF refl, of t] by (auto simp: untouched_def fresh_host_def default_snapshot_def)
  then have "untouched (final ?m ?s0)"
    by (simp add: before_starts_def sample_pass_observes sample_pass_plan Let_def untouched_parts del: final_change)
  then have ready: "untouched ?s2" "hs_isolated (h_snapshot ?s2)"
    by (simp_all add: untouched_parts) (simp add: final_apply_network calm_world_def)
  obtain req where "BootCall req \<in> set (h_trace (final (start_instance calm_world sample_host_config sample_instance) ?s2))"
    using first_start_boots [of ?s2] ready(1) by (auto simp: untouched_def)
  then have booted: "BootCall req \<in> set (h_trace (final (apply_starts calm_world sample_host_config start_plan) ?s2))"
    using start_plan_starts [OF ready, of calm_world] by simp
  have last: "final (reconcile calm_world sample_host_config sample_document TriggerChange) fresh_host =
      final (after_starts calm_world sample_host_config sample_document TriggerChange start_plan)
        (final (apply_starts calm_world sample_host_config start_plan) ?s2)"
    using calm_sync by (simp add: reconcile_def plan)
  have "set (h_trace t) \<subseteq> set (h_trace (final (after_starts w config d trig p) t))" for w config d trig p t
    using quiet.keepsD [OF quiet_after_starts, of t w config d trig p] by (auto simp: quiet_frame_def)
  from subsetD [OF this booted] show ?thesis unfolding last by (rule exI)
qed

theorem boots_wait_for_the_ruleset_witness:
  "\<exists>pre fw post req. h_trace (final (reconcile calm_world sample_host_config sample_document TriggerChange) fresh_host) =
     pre @ FirewallCall fw # post \<and> BootCall req \<in> set post \<and> list_all (\<lambda>c. \<not> is_boot c) pre"
proof -
  obtain req where req: "BootCall req \<in>
      set (h_trace (final (reconcile calm_world sample_host_config sample_document TriggerChange) fresh_host))"
    using sample_pass_boots by blast
  have "h_trace (final (reconcile calm_world sample_host_config sample_document TriggerChange) fresh_host) =
      h_trace fresh_host @
        h_trace (final (reconcile calm_world sample_host_config sample_document TriggerChange) fresh_host)"
    by (simp add: fresh_host_def)
  from boots_wait_for_the_ruleset [OF this req] show ?thesis by blast
qed

end
