(* ===== verification/Waker.thy ===== *)
theory Waker
  imports Admission "HOL-Library.Multiset"
begin

text \<open>
  Waking an app for a request (\<open>crates/nibrunnerd/src/domain/waker.rs\<close>): what refuses a wake,
  the wait for the guest to answer, holding a request while a pass boots the app, and the way
  callers that ask for one app at the same time share one wake. The two waiting loops take fuel,
  one unit a probe; running out of it is \<open>None\<close>. While a loop sleeps the other tasks may change
  the shared state, which is \<open>w_meanwhile\<close>.
\<close>

section \<open>One wake\<close>

definition PROBE_INTERVAL_NS :: nat where
  "PROBE_INTERVAL_NS = 5000000"

definition millis :: "nat \<Rightarrow> nat" where
  "millis ms = ms * 1000000"

type_synonym wake_answer = "wake_refusal + unit"

definition refusal_for_room ::
  "host_config \<Rightarrow> app_id \<Rightarrow> instance_resources \<Rightarrow> wake_refusal option act" where
  "refusal_for_room config app_id wanted = do {
     records \<leftarrow> the_records;
     let others = filter (\<lambda>r. ir_app_id r \<noteq> app_id) records;
     let shortfall = memory_shortfall_mib (cf_guest_memory_mib config) (committed_resources others) wanted;
     done_with (if shortfall > 0 then Some (NoRoom shortfall) else None)
   }"

definition no_room_message :: "app_id \<Rightarrow> nat \<Rightarrow> state_message" where
  "no_room_message app_id shortfall_mib =
     state_message_new (app_id @ '' could not be woken: its host is '' @ show_nat shortfall_mib @
       '' MiB short of the memory it needs'')"

definition answers :: "world \<Rightarrow> instance_record \<Rightarrow> bool act" where
  "answers w r =
     (case ir_guest_ipv4 r of
        Some guest_ipv4 \<Rightarrow> do {
          outcome \<leftarrow> ask (ProbeCall guest_ipv4 (ir_http_port r) (ir_health_check r))
            (\<lambda>t. w_probe w t guest_ipv4 (ir_http_port r) (ir_health_check r));
          done_with (case outcome of Inr _ \<Rightarrow> True | Inl _ \<Rightarrow> False)
        }
      | None \<Rightarrow> done_with False)"

definition pause :: "world \<Rightarrow> unit act" where
  "pause w = do {
     t \<leftarrow> ask PauseCall (\<lambda>t. t);
     change (w_meanwhile w t)
   }"

definition never_answered :: "instance_record \<Rightarrow> wake_refusal" where
  "never_answered r = WakeFailed NeverAnswered
     (''nothing answered on port '' @ show_nat (ir_http_port r) @ '' inside the guest'')"

fun ready_loop :: "nat \<Rightarrow> world \<Rightarrow> instance_record \<Rightarrow> nat \<Rightarrow> wake_answer option act" where
  "ready_loop 0 w r deadline = done_with None"
| "ready_loop (Suc fuel) w r deadline = do {
     answered \<leftarrow> answers w r;
     if answered then done_with (Some (Inr ()))
     else do {
       now \<leftarrow> ask InstantCall (w_instant w);
       if now \<ge> deadline then done_with (Some (Inl (never_answered r)))
       else do {
         pause w;
         ready_loop fuel w r deadline
       }
     }
   }"

definition failed_reason :: "instance_record \<Rightarrow> string" where
  "failed_reason r = (case ir_message r of Some message \<Rightarrow> message | None \<Rightarrow> ''the microVM would not start'')"

definition is_booted :: "instance_record \<Rightarrow> bool" where
  "is_booted r \<longleftrightarrow> ir_started_at r \<noteq> None \<and> \<not> ir_stop_requested r"

fun hold_loop :: "nat \<Rightarrow> world \<Rightarrow> app_id \<Rightarrow> nat \<Rightarrow> nat \<Rightarrow> wake_answer option act" where
  "hold_loop 0 w app_id grace_ms arrived = done_with None"
| "hold_loop (Suc fuel) w app_id grace_ms arrived = do {
     found \<leftarrow> the_record app_id;
     case found of
       Some r \<Rightarrow>
         if ir_state r = IsFailed then done_with (Some (Inl (WakeFailed WouldNotStart (failed_reason r))))
         else if is_booted r then do {
           answered \<leftarrow> answers w r;
           if answered then done_with (Some (Inr ()))
           else do {
             now_ms \<leftarrow> ask NowCall (w_now w);
             if \<not> is_within_grace_period (record_grace_inputs (w_epoch_ms w) r now_ms)
             then done_with (Some (Inl (never_answered r)))
             else do { pause w; hold_loop fuel w app_id grace_ms arrived }
           }
         }
         else do {
           now \<leftarrow> ask InstantCall (w_instant w);
           if now - arrived \<ge> millis grace_ms
           then done_with (Some (Inl (WakeFailed WouldNotStart ''no microVM came up for it in time'')))
           else do { pause w; hold_loop fuel w app_id grace_ms arrived }
         }
     | None \<Rightarrow> do {
         now \<leftarrow> ask InstantCall (w_instant w);
         if now - arrived \<ge> millis grace_ms
         then done_with (Some (Inl (WakeFailed WouldNotStart ''no microVM came up for it in time'')))
         else do { pause w; hold_loop fuel w app_id grace_ms arrived }
       }
   }"

definition hold :: "nat \<Rightarrow> world \<Rightarrow> app_id \<Rightarrow> desired_instance \<Rightarrow> wake_answer option act" where
  "hold fuel w app_id wanted = do {
     arrived \<leftarrow> ask InstantCall (w_instant w);
     hold_loop fuel w app_id (pr_grace_period_ms (probe_of (ac_health_check (di_config wanted)))) arrived
   }"

definition desired_for :: "app_id \<Rightarrow> desired_instance option act" where
  "desired_for app_id = gets (\<lambda>s. Option.bind (h_document s)
     (\<lambda>desired. find (\<lambda>i. di_app_id i = app_id) (hd_instances desired)))"

text \<open>What follows a guest that came back: the record it has now, and the wait for its port.\<close>

definition await_ready :: "nat \<Rightarrow> world \<Rightarrow> app_id \<Rightarrow> wake_answer option act" where
  "await_ready fuel w app_id = do {
     found \<leftarrow> the_record app_id;
     case found of
       None \<Rightarrow> done_with (Some (Inl (WakeFailed WouldNotStart ''the microVM would not start'')))
     | Some r \<Rightarrow>
         if ir_started_at r = None then done_with (Some (Inl (WakeFailed WouldNotStart (failed_reason r))))
         else do {
           now \<leftarrow> ask InstantCall (w_instant w);
           ready_loop fuel w r (now + millis (pr_grace_period_ms (probe_of (ir_health_check r))))
         }
   }"

definition wake_boot :: "nat \<Rightarrow> world \<Rightarrow> host_config \<Rightarrow> app_id \<Rightarrow> wake_answer option act" where
  "wake_boot fuel w config app_id = do {
     named \<leftarrow> desired_for app_id;
     case named of
       None \<Rightarrow> done_with (Some (Inl (WakeFailed NotNamed ''the control plane no longer names it'')))
     | Some wanted \<Rightarrow>
         if di_desired_state wanted = DesiredStopped
         then done_with (Some (Inl (WakeFailed NotOnRequest (''it is '' @ desired_state_str (di_desired_state wanted)))))
         else do {
           snapshot \<leftarrow> the_snapshot;
           if \<not> hs_isolated snapshot
           then done_with (Some (Inl (WakeFailed NotIsolated ''the isolation ruleset is not applied'')))
           else if di_desired_state wanted = DesiredRunning then hold fuel w app_id wanted
           else do {
             refusal \<leftarrow> refusal_for_room config app_id (ac_resources (di_config wanted));
             case refusal of
               Some (NoRoom shortfall_mib) \<Rightarrow> do {
                 update_record app_id (\<lambda>r. r\<lparr>ir_message := Some (no_room_message app_id shortfall_mib)\<rparr>);
                 done_with (Some (Inl (NoRoom shortfall_mib)))
               }
             | Some other \<Rightarrow> done_with (Some (Inl other))
             | None \<Rightarrow> do {
                 outcome \<leftarrow> resume_instance w config wanted;
                 case outcome of
                   Inl refused \<Rightarrow> done_with (Some (Inl refused))
                 | Inr _ \<Rightarrow> await_ready fuel w app_id
               }
           }
         }
   }"

section \<open>A wake comes to an end\<close>

text \<open>
  The monotonic clock never goes back, and a sleep of five milliseconds lasts at least that long.
\<close>

definition clock_advances :: "world \<Rightarrow> bool" where
  "clock_advances w \<longleftrightarrow>
     (\<forall>t u. w_instant w t \<le> w_instant w (t @ u)) \<and>
     (\<forall>t. w_instant w t + PROBE_INTERVAL_NS \<le> w_instant w (t @ [PauseCall]))"

lemma answers_trace: "\<exists>more. h_trace (final (answers w r) s) = h_trace s @ more"
  by (simp add: answers_def split: option.splits)

lemma ready_loop_returns:
  assumes "clock_advances w" and "0 < fuel"
    and "deadline \<le> w_instant w (h_trace s) + PROBE_INTERVAL_NS * (fuel - 1)"
  shows "result (ready_loop fuel w r deadline) s \<noteq> None"
  using assms(2,3)
proof (induction fuel arbitrary: s)
  case (Suc fuel)
  let ?t = "final (answers w r) s"
  let ?now = "w_instant w (h_trace ?t)"
  let ?s' = "final (pause w) (?t\<lparr>h_trace := h_trace ?t @ [InstantCall]\<rparr>)"
  obtain more where more: "h_trace ?t = h_trace s @ more" using answers_trace by blast
  have trace: "h_trace ?s' = (h_trace s @ more @ [InstantCall]) @ [PauseCall]"
    by (simp add: pause_def more)
  have "w_instant w (h_trace s) + PROBE_INTERVAL_NS \<le> w_instant w (h_trace ?s')"
  proof -
    have "w_instant w (h_trace s) \<le> w_instant w (h_trace s @ more @ [InstantCall])"
      using assms(1) by (simp add: clock_advances_def)
    moreover have "w_instant w (h_trace s @ more @ [InstantCall]) + PROBE_INTERVAL_NS \<le> w_instant w (h_trace ?s')"
      unfolding trace using assms(1) unfolding clock_advances_def by blast
    ultimately show ?thesis by simp
  qed
  moreover have "w_instant w (h_trace s) \<le> ?now"
    unfolding more using assms(1) by (simp add: clock_advances_def)
  ultimately show ?case
    using Suc.IH [of ?s'] Suc.prems by (cases fuel) (auto simp: algebra_simps)
qed simp

lemma ready_loop_more:
  "result (ready_loop fuel w r deadline) s = Some x \<Longrightarrow> fuel \<le> fuel' \<Longrightarrow>
     result (ready_loop fuel' w r deadline) s = Some x"
proof (induction fuel arbitrary: s fuel')
  case (Suc fuel)
  then obtain n where "fuel' = Suc n" "fuel \<le> n" by (cases fuel') auto
  with Suc show ?case by (auto split: if_splits)
qed simp

lemma await_ready_returns:
  assumes "clock_advances w"
  shows "\<exists>n answer. \<forall>fuel \<ge> n. result (await_ready fuel w a) s = Some answer"
proof (cases "map_of (hs_records (h_snapshot s)) a")
  case None
  then show ?thesis by (simp add: await_ready_def the_record_def)
next
  case (Some r)
  let ?t = "s\<lparr>h_trace := h_trace s @ [InstantCall]\<rparr>"
  let ?deadline = "w_instant w (h_trace s) + millis (pr_grace_period_ms (probe_of (ir_health_check r)))"
  let ?n = "pr_grace_period_ms (probe_of (ir_health_check r)) + 1"
  have "w_instant w (h_trace s) \<le> w_instant w (h_trace ?t)"
    using assms by (simp add: clock_advances_def)
  then have "?deadline \<le> w_instant w (h_trace ?t) + PROBE_INTERVAL_NS * (?n - 1)"
    by (simp add: millis_def PROBE_INTERVAL_NS_def)
  then obtain x where "result (ready_loop ?n w r ?deadline) ?t = Some x"
    using ready_loop_returns [OF assms, of ?n ?deadline ?t r] by auto
  with ready_loop_more have "\<forall>fuel \<ge> ?n. result (ready_loop fuel w r ?deadline) ?t = Some x" by blast
  with Some show ?thesis
    by (cases "ir_started_at r") (auto simp: await_ready_def the_record_def)
qed

text \<open>
  (C12) A wake comes to an end. Whatever the hypervisor, the volumes and the guest do and whatever
  the other tasks change meanwhile, a request for an app the host starts on request is answered:
  there is a number of probes after which the wake has its answer, and it never changes with more.
\<close>

theorem wake_comes_to_an_end:
  assumes "clock_advances w"
    and "\<And>wanted. result (desired_for a) s = Some wanted \<Longrightarrow> di_desired_state wanted \<noteq> DesiredRunning"
  shows "\<exists>n answer. \<forall>fuel \<ge> n. result (wake_boot fuel w config a) s = Some answer"
proof (cases "result (desired_for a) s")
  case None
  then show ?thesis by (simp add: wake_boot_def)
next
  case (Some wanted)
  have same: "final (desired_for a) t = t" "final (refusal_for_room config a res) t = t" for t res
    by (simp_all add: desired_for_def refusal_for_room_def the_records_def Let_def)
  let ?refusal = "result (refusal_for_room config a (ac_resources (di_config wanted))) s"
  let ?s = "final (resume_instance w config wanted) s"
  obtain n answer where ready: "\<forall>fuel \<ge> n. result (await_ready fuel w a) ?s = Some answer"
    using await_ready_returns [OF assms(1)] by blast
  note run = wake_boot_def same the_snapshot_def Some assms(2) [OF Some]
  consider "di_desired_state wanted = DesiredStopped"
    | "di_desired_state wanted \<noteq> DesiredStopped" "\<not> hs_isolated (h_snapshot s)"
    | refusal where "di_desired_state wanted \<noteq> DesiredStopped" "hs_isolated (h_snapshot s)" "?refusal = Some refusal"
    | refused where "di_desired_state wanted \<noteq> DesiredStopped" "hs_isolated (h_snapshot s)" "?refusal = None"
        "result (resume_instance w config wanted) s = Inl refused"
    | "di_desired_state wanted \<noteq> DesiredStopped" "hs_isolated (h_snapshot s)" "?refusal = None"
        "\<exists>x. result (resume_instance w config wanted) s = Inr x"
    by (cases ?refusal; cases "result (resume_instance w config wanted) s") blast+
  then show ?thesis
  proof cases
    case (3 refusal)
    then show ?thesis by (cases refusal) (simp_all add: run)
  next
    case 5
    with ready show ?thesis by (intro exI [of _ n] exI [of _ answer]) (auto simp: run)
  qed (simp_all add: run)
qed

section \<open>What admits a wake\<close>

fun starts_a_guest :: "port_call \<Rightarrow> bool" where
  "starts_a_guest (BootCall req) = True"
| "starts_a_guest (WakeCall req) = True"
| "starts_a_guest _ = False"

definition still_frame :: "host \<Rightarrow> host \<Rightarrow> bool" where
  "still_frame s t \<longleftrightarrow> (\<exists>more. h_trace t = h_trace s @ more \<and> list_all (\<lambda>c. \<not> starts_a_guest c) more)"

interpretation still: frame still_frame
proof (unfold_locales)
  show "still_frame s s" for s by (simp add: still_frame_def)
  show "still_frame s u" if "still_frame s t" "still_frame t u" for s t u
    using that by (force simp: still_frame_def)
qed

lemma still_leaves [frame_rules]:
  "\<not> starts_a_guest c \<Longrightarrow> still.keeps (ask c answer)" "still.keeps (change f)" "still.keeps (the_record a)"
  "still.keeps (update_record a g)" "still.keeps the_snapshot" "still.keeps (desired_for a)"
  "still.keeps (refusal_for_room config a res)"
  by (rule still.keepsI, simp add: still_frame_def shared_state_defs desired_for_def refusal_for_room_def Let_def)+

lemma still_answers [frame_rules]: "still.keeps (answers w r)" "still.keeps (pause w)"
  unfolding answers_def pause_def by (intro frame_rules; simp)+

lemma still_loops [frame_rules]:
  "still.keeps (ready_loop fuel w r deadline)" "still.keeps (hold_loop fuel w a grace arrived)"
  by (induction fuel) (simp_all, (intro frame_rules; simp)+)

lemma still_hold [frame_rules]: "still.keeps (hold fuel w a wanted)" "still.keeps (await_ready fuel w a)"
  unfolding hold_def await_ready_def by (intro frame_rules; simp)+

lemma room_for:
  "result (refusal_for_room config a wanted) s = None \<longleftrightarrow>
     committed_memory_mib (committed_resources
       (filter (\<lambda>r. ir_app_id r \<noteq> a) (bt_values (hs_records (h_snapshot s))))) + res_memory_mib wanted \<le>
     cf_guest_memory_mib config"
  by (simp add: refusal_for_room_def the_records_def memory_shortfall_mib_def Let_def)

text \<open>
  A request only brings a guest up where the document and the host allow it. If answering a
  request asks the hypervisor to restore or boot anything, then the document names the app and
  has it started on request, the isolation ruleset is in place, and what every other app holds
  leaves room for what this one asks for.
\<close>

lemma wake_admission:
  assumes "h_trace (final (wake_boot fuel w config a) s) = h_trace s @ calls"
    and "c \<in> set calls" and "starts_a_guest c"
  shows "\<exists>wanted. result (desired_for a) s = Some wanted \<and> di_app_id wanted = a \<and>
           di_desired_state wanted = DesiredOnRequest \<and> hs_isolated (h_snapshot s) \<and>
           committed_memory_mib (committed_resources
             (filter (\<lambda>r. ir_app_id r \<noteq> a) (bt_values (hs_records (h_snapshot s))))) +
             res_memory_mib (ac_resources (di_config wanted)) \<le> cf_guest_memory_mib config"
proof (rule ccontr)
  assume not: "\<not> ?thesis"
  have same: "final (desired_for a) t = t" "final (refusal_for_room config a res) t = t" for t res
    by (simp_all add: desired_for_def refusal_for_room_def the_records_def Let_def)
  have named: "di_app_id wanted = a" if "result (desired_for a) s = Some wanted" for wanted
    using that by (auto simp: desired_for_def bind_eq_Some_conv find_Some_iff)
  have "still_frame s (final (wake_boot fuel w config a) s)"
  proof (cases "result (desired_for a) s")
    case None
    then show ?thesis by (simp add: wake_boot_def same still.R_refl)
  next
    case (Some wanted)
    have held: "still_frame s (final (hold fuel w a wanted) s)" by (rule still.keepsD) (intro frame_rules)
    have said: "still_frame s (final (update_record a f) s)" for f by (rule still.keepsD) (intro frame_rules)
    have other: "di_desired_state wanted = DesiredOnRequest"
      if "di_desired_state wanted \<noteq> DesiredStopped" "di_desired_state wanted \<noteq> DesiredRunning"
      using that by (cases "di_desired_state wanted") auto
    obtain refusal where "result (refusal_for_room config a (ac_resources (di_config wanted))) s = Some refusal"
      if "di_desired_state wanted = DesiredOnRequest" "hs_isolated (h_snapshot s)"
      using not Some named [OF Some] room_for [of config a "ac_resources (di_config wanted)" s]
      by (cases "result (refusal_for_room config a (ac_resources (di_config wanted))) s") auto
    then show ?thesis
      using Some held said other
      by (auto simp: wake_boot_def same the_snapshot_def still.R_refl split: wake_refusal.splits)
  qed
  with assms show False by (auto simp: still_frame_def list_all_iff)
qed

definition asleep_host :: host where
  "asleep_host = fresh_host\<lparr>h_document := Some sample_document,
     h_snapshot := default_snapshot\<lparr>hs_isolated := True\<rparr>\<rparr>"

lemma asleep_host_facts:
  "result (desired_for ''app-1'') asleep_host = Some sample_instance"
  "result (refusal_for_room sample_host_config ''app-1'' res) asleep_host = None \<longleftrightarrow> res_memory_mib res \<le> 4096"
  "hs_isolated (h_snapshot asleep_host)" "h_trace asleep_host = []" "h_alloc asleep_host = addressing 8"
  by (simp_all add: asleep_host_def fresh_host_def desired_for_def sample_document_def sample_instance_def room_for
      default_snapshot_def bt_values_def committed_resources_def committed_memory_mib_def sample_host_config_def)

lemma calm_clock: "clock_advances calm_world"
  by (simp add: clock_advances_def calm_world_def PROBE_INTERVAL_NS_def)

theorem wake_comes_to_an_end_witness:
  "\<exists>n answer. \<forall>fuel \<ge> n. result (wake_boot fuel calm_world sample_host_config ''app-1'') asleep_host = Some answer"
proof -
  have "di_desired_state wanted \<noteq> DesiredRunning" if "result (desired_for ''app-1'') asleep_host = Some wanted" for wanted
    using that by (auto simp: asleep_host_facts sample_instance_def)
  then show ?thesis
    using wake_comes_to_an_end [OF calm_clock, of "''app-1''" asleep_host sample_host_config] by simp
qed

section \<open>Callers share a wake\<close>

text \<open>
  The wakes under way, one an app: the caller that leads it and those that joined. A caller is a
  number; the answer of a leader's \<open>boot\<close> is any value.
\<close>

record flight =
  fl_leader :: nat
  fl_followers :: "nat list"

record wake_table =
  wt_in_flight :: "(app_id, flight) btree"
  wt_answers :: "(nat \<times> wake_answer) list"
  wt_dropped :: "nat list"

definition arrive :: "nat \<Rightarrow> app_id \<Rightarrow> wake_table \<Rightarrow> wake_table" where
  "arrive caller app_id table =
     (case map_of (wt_in_flight table) app_id of
        Some f \<Rightarrow> table\<lparr>wt_in_flight := bt_insert app_id (f\<lparr>fl_followers := fl_followers f @ [caller]\<rparr>)
                    (wt_in_flight table)\<rparr>
      | None \<Rightarrow> table\<lparr>wt_in_flight := bt_insert app_id \<lparr>fl_leader = caller, fl_followers = []\<rparr>
                    (wt_in_flight table)\<rparr>)"

text \<open>The broadcast: the entry goes and everybody who joined is told.\<close>

definition broadcast :: "app_id \<Rightarrow> wake_answer \<Rightarrow> wake_table \<Rightarrow> wake_table" where
  "broadcast app_id outcome table =
     (case map_of (wt_in_flight table) app_id of
        Some f \<Rightarrow> table\<lparr>wt_in_flight := bt_remove app_id (wt_in_flight table),
                    wt_answers := wt_answers table @ map (\<lambda>c. (c, outcome)) (fl_followers f)\<rparr>
      | None \<Rightarrow> table)"

definition wake_abandoned :: wake_answer where
  "wake_abandoned = Inl (WakeFailed Abandoned ''the wake was abandoned'')"

text \<open>A leader that settles has its own answer too; one that is dropped tells the others.\<close>

definition settle_wake :: "app_id \<Rightarrow> wake_answer \<Rightarrow> wake_table \<Rightarrow> wake_table" where
  "settle_wake app_id outcome table =
     (case map_of (wt_in_flight table) app_id of
        Some f \<Rightarrow> (broadcast app_id outcome table)\<lparr>wt_answers :=
                    wt_answers (broadcast app_id outcome table) @ [(fl_leader f, outcome)]\<rparr>
      | None \<Rightarrow> table)"

definition drop_wake :: "app_id \<Rightarrow> wake_table \<Rightarrow> wake_table" where
  "drop_wake app_id table =
     (case map_of (wt_in_flight table) app_id of
        Some f \<Rightarrow> (broadcast app_id wake_abandoned table)\<lparr>wt_dropped := fl_leader f # wt_dropped table\<rparr>
      | None \<Rightarrow> table)"

definition waiting_for :: "flight \<Rightarrow> nat list" where
  "waiting_for f = fl_leader f # fl_followers f"

definition callers :: "wake_table \<Rightarrow> nat list" where
  "callers table = concat (map waiting_for (bt_values (wt_in_flight table))) @
     map fst (wt_answers table) @ wt_dropped table"

inductive wake_step :: "wake_table \<Rightarrow> wake_table \<Rightarrow> bool" where
  arrives: "caller \<notin> set (callers table) \<Longrightarrow> wake_step table (arrive caller app_id table)"
| settles: "wake_step table (settle_wake app_id outcome table)"
| dropped: "wake_step table (drop_wake app_id table)"

definition no_wakes :: wake_table where
  "no_wakes = \<lparr>wt_in_flight = [], wt_answers = [], wt_dropped = []\<rparr>"

inductive wakes_reachable :: "wake_table \<Rightarrow> bool" where
  nothing: "wakes_reachable no_wakes"
| onward: "wakes_reachable table \<Longrightarrow> wake_step table table' \<Longrightarrow> wakes_reachable table'"

definition table_wf :: "wake_table \<Rightarrow> bool" where
  "table_wf table \<longleftrightarrow> bt_wf (wt_in_flight table) \<and> distinct (callers table)"

lemma split_entry:
  assumes "bt_wf m" "map_of m k = Some v"
  obtains pre post where "m = pre @ (k, v) # post" "bt_remove k m = pre @ post"
    "\<And>x. bt_insert k x m = pre @ (k, x) # post"
proof -
  obtain pre post where m: "m = pre @ (k, v) # post"
    using assms(2) by (meson map_of_SomeD split_list)
  have less: "\<forall>a \<in> fst ` set pre. a < k" and more: "\<forall>a \<in> fst ` set post. k < a"
    using assms(1) unfolding m by (auto simp: bt_wf_def sorted_wrt_append)
  have "filter (\<lambda>(a, _). a \<noteq> k) pre = pre" "filter (\<lambda>(a, _). a \<noteq> k) post = post"
    using less more by (force intro!: filter_True)+
  then have "bt_remove k m = pre @ post"
    unfolding m by (simp add: bt_remove_def)
  moreover have "bt_insert k x (ps @ (k, v) # post) = ps @ (k, x) # post" if "\<forall>a \<in> fst ` set ps. a < k" for x ps
    using that by (induction ps) auto
  ultimately show thesis using that m less by blast
qed

lemma mset_new_value:
  "map_of m k = None \<Longrightarrow> mset (bt_values (bt_insert k v m)) = add_mset v (mset (bt_values m))"
  by (induction k v m rule: bt_insert.induct) (auto simp: bt_values_def split: if_splits)

lemma mset_waiting:
  "mset (concat (map waiting_for fs)) = (\<Sum>f \<in># mset fs. mset (waiting_for f))"
  by (induction fs) simp_all

lemma callers_eq:
  "mset (callers table) = (\<Sum>f \<in># mset (bt_values (wt_in_flight table)). mset (waiting_for f)) +
     mset (map fst (wt_answers table)) + mset (wt_dropped table)"
  by (simp add: callers_def mset_waiting del: mset_map)

lemma bt_wf_tables:
  "bt_wf (wt_in_flight table) \<Longrightarrow> bt_wf (wt_in_flight (arrive c a table))"
  "bt_wf (wt_in_flight table) \<Longrightarrow> bt_wf (wt_in_flight (settle_wake a outcome table))"
  "bt_wf (wt_in_flight table) \<Longrightarrow> bt_wf (wt_in_flight (drop_wake a table))"
  by (simp_all add: arrive_def settle_wake_def drop_wake_def broadcast_def split: option.splits)

lemma arrive_callers:
  assumes "bt_wf (wt_in_flight table)"
  shows "mset (callers (arrive c a table)) = add_mset c (mset (callers table))"
proof (cases "map_of (wt_in_flight table) a")
  case None
  then show ?thesis by (simp add: callers_eq arrive_def mset_new_value waiting_for_def)
next
  case (Some f)
  obtain pre post where "wt_in_flight table = pre @ (a, f) # post"
    "\<And>x. bt_insert a x (wt_in_flight table) = pre @ (a, x) # post"
    using split_entry [OF assms Some] by metis
  with Some show ?thesis by (simp add: callers_eq arrive_def waiting_for_def bt_values_def)
qed

lemma broadcast_callers:
  assumes "bt_wf (wt_in_flight table)" "map_of (wt_in_flight table) a = Some f"
  shows "mset (callers (broadcast a outcome table)) + {#fl_leader f#} = mset (callers table)"
proof -
  obtain pre post where "wt_in_flight table = pre @ (a, f) # post"
    "bt_remove a (wt_in_flight table) = pre @ post"
    using split_entry [OF assms] by metis
  with assms(2) show ?thesis
    by (simp add: callers_eq broadcast_def waiting_for_def bt_values_def comp_def)
qed

lemma settle_callers:
  assumes "bt_wf (wt_in_flight table)"
  shows "mset (callers (settle_wake a outcome table)) = mset (callers table)"
    and "mset (callers (drop_wake a table)) = mset (callers table)"
proof -
  have "mset (callers (settle_wake a outcome table)) = mset (callers table) \<and>
        mset (callers (drop_wake a table)) = mset (callers table)"
  proof (cases "map_of (wt_in_flight table) a")
    case (Some f)
    from broadcast_callers [OF assms Some] Some show ?thesis
      by (auto simp: settle_wake_def drop_wake_def callers_eq broadcast_def)
  qed (simp add: settle_wake_def drop_wake_def)
  then show "mset (callers (settle_wake a outcome table)) = mset (callers table)"
    "mset (callers (drop_wake a table)) = mset (callers table)" by blast+
qed

lemma wakes_reachable_wf: "wakes_reachable table \<Longrightarrow> table_wf table"
proof (induction rule: wakes_reachable.induct)
  case nothing
  then show ?case by (simp add: no_wakes_def table_wf_def callers_def bt_values_def)
next
  case (onward table table')
  then have wf: "bt_wf (wt_in_flight table)" "distinct (callers table)" by (simp_all add: table_wf_def)
  from onward(2) show ?case
  proof (cases rule: wake_step.cases)
    case (arrives caller app_id)
    have "distinct (callers (arrive caller app_id table)) = distinct (caller # callers table)"
      by (rule mset_eq_imp_distinct_iff) (simp add: arrive_callers [OF wf(1)])
    with arrives wf show ?thesis by (simp add: table_wf_def bt_wf_tables)
  next
    case (settles app_id outcome)
    with wf mset_eq_imp_distinct_iff [OF settle_callers(1) [OF wf(1)]] show ?thesis
      by (simp add: table_wf_def bt_wf_tables)
  next
    case (dropped app_id)
    with wf mset_eq_imp_distinct_iff [OF settle_callers(2) [OF wf(1)]] show ?thesis
      by (simp add: table_wf_def bt_wf_tables)
  qed
qed

text \<open>
  Callers that ask for one app share one wake. In every reachable state each caller waits in
  one place or has been answered once; when the leader of an app's wake settles, everybody who
  joined it and the leader get its answer and nobody else does, the app has no wake any more, and
  the wakes of other apps go on; and when the leader is dropped, those who joined are told so.
\<close>

lemma wakes_are_shared:
  assumes "wakes_reachable table" and "map_of (wt_in_flight table) a = Some f"
  shows "distinct (callers table) \<and>
         set (wt_answers (settle_wake a outcome table)) =
           set (wt_answers table) \<union> (\<lambda>c. (c, outcome)) ` insert (fl_leader f) (set (fl_followers f)) \<and>
         set (wt_answers (drop_wake a table)) =
           set (wt_answers table) \<union> (\<lambda>c. (c, wake_abandoned)) ` set (fl_followers f) \<and>
         (\<forall>b. map_of (wt_in_flight (settle_wake a outcome table)) b =
            (if b = a then None else map_of (wt_in_flight table) b)) \<and>
         (\<forall>b. map_of (wt_in_flight (drop_wake a table)) b =
            (if b = a then None else map_of (wt_in_flight table) b))"
  using wakes_reachable_wf [OF assms(1)] assms(2)
  by (auto simp: table_wf_def settle_wake_def drop_wake_def broadcast_def)

end
