(* ===== verification/Text.thy ===== *)
theory Text
  imports Prelude
begin

text \<open>
  What the Rust library does with texts beyond the prelude: trimming, searching and comparing without
  case. A text is the list of the bytes that encode it, so a character beyond ASCII is several bytes.
\<close>

section \<open>Results\<close>

text \<open>The \<open>?\<close> of the source on a \<open>Result\<close>.\<close>

definition and_then :: "'e + 'a \<Rightarrow> ('a \<Rightarrow> 'e + 'b) \<Rightarrow> 'e + 'b" where
  "and_then r k = (case r of Inl e \<Rightarrow> Inl e | Inr x \<Rightarrow> k x)"

lemma and_then_simps [simp]:
  "and_then (Inl e) k = Inl e" "and_then (Inr x) k = k x"
  "and_then r k = Inr y \<longleftrightarrow> (\<exists>x. r = Inr x \<and> k x = Inr y)"
  by (simp_all add: and_then_def split: sum.splits)

lemma and_then_Inl: "and_then r k = Inl e \<longleftrightarrow> r = Inl e \<or> (\<exists>x. r = Inr x \<and> k x = Inl e)"
  by (simp add: and_then_def split: sum.splits)

lemma and_then_cong [fundef_cong]: "r = r' \<Longrightarrow> (\<And>x. r' = Inr x \<Longrightarrow> k x = k' x) \<Longrightarrow> and_then r k = and_then r' k'"
  by (cases r') simp_all

section \<open>Parts of a text\<close>

definition is_blank :: "char \<Rightarrow> bool" where
  "is_blank c \<longleftrightarrow> c = CHR '' '' \<or> c = CHR 0x09"

definition trim_start_blank :: "string \<Rightarrow> string" where
  "trim_start_blank = dropWhile is_blank"

definition trim_end_blank :: "string \<Rightarrow> string" where
  "trim_end_blank s = rev (dropWhile is_blank (rev s))"

definition trim_blank :: "string \<Rightarrow> string" where
  "trim_blank s = trim_end_blank (trim_start_blank s)"

definition starts_with :: "'a list \<Rightarrow> 'a list \<Rightarrow> bool" where
  "starts_with prefix s \<longleftrightarrow> take (length prefix) s = prefix"

fun contains_str :: "'a list \<Rightarrow> 'a list \<Rightarrow> bool" where
  "contains_str pattern [] = (pattern = [])"
| "contains_str pattern (c # s) = (starts_with pattern (c # s) \<or> contains_str pattern s)"

definition to_ascii_lower :: "char \<Rightarrow> char" where
  "to_ascii_lower c = (if is_ascii_uppercase c then char_of ((of_char c :: nat) + 32) else c)"

definition eq_ignore_ascii_case :: "string \<Rightarrow> string \<Rightarrow> bool" where
  "eq_ignore_ascii_case a b \<longleftrightarrow> map to_ascii_lower a = map to_ascii_lower b"

text \<open>The characters \<open>char::is_whitespace\<close> takes, but the blank and the tab, as the bytes that encode them.\<close>

definition OTHER_WHITESPACE :: "string list" where
  "OTHER_WHITESPACE =
     [[CHR 0x0A], [CHR 0x0B], [CHR 0x0C], [CHR 0x0D], [CHR 0xC2, CHR 0x85], [CHR 0xC2, CHR 0xA0],
      [CHR 0xE1, CHR 0x9A, CHR 0x80], [CHR 0xE2, CHR 0x80, CHR 0x80], [CHR 0xE2, CHR 0x80, CHR 0x81],
      [CHR 0xE2, CHR 0x80, CHR 0x82], [CHR 0xE2, CHR 0x80, CHR 0x83], [CHR 0xE2, CHR 0x80, CHR 0x84],
      [CHR 0xE2, CHR 0x80, CHR 0x85], [CHR 0xE2, CHR 0x80, CHR 0x86], [CHR 0xE2, CHR 0x80, CHR 0x87],
      [CHR 0xE2, CHR 0x80, CHR 0x88], [CHR 0xE2, CHR 0x80, CHR 0x89], [CHR 0xE2, CHR 0x80, CHR 0x8A],
      [CHR 0xE2, CHR 0x80, CHR 0xA8], [CHR 0xE2, CHR 0x80, CHR 0xA9], [CHR 0xE2, CHR 0x80, CHR 0xAF],
      [CHR 0xE2, CHR 0x81, CHR 0x9F], [CHR 0xE3, CHR 0x80, CHR 0x80]]"

text \<open>Texts trimmed of the characters in a list, from the front; from the back with everything reversed.\<close>

function trim_with :: "string list \<Rightarrow> string \<Rightarrow> string" where
  "trim_with patterns s =
     (case find (\<lambda>w. w \<noteq> [] \<and> starts_with w s) patterns of
        None \<Rightarrow> s
      | Some w \<Rightarrow> trim_with patterns (drop (length w) s))"
  by pat_completeness auto
termination
  by (relation "measure (length \<circ> snd)") (auto simp: find_Some_iff starts_with_def intro!: diff_less dest!: arg_cong [of _ _ length])

declare trim_with.simps [simp del]

definition WHITESPACE :: "string list" where
  "WHITESPACE = [CHR 0x09] # [CHR 0x20] # OTHER_WHITESPACE"

text \<open>\<open>str::trim\<close>.\<close>

definition trim :: "string \<Rightarrow> string" where
  "trim s = rev (trim_with (map rev WHITESPACE) (rev (trim_with WHITESPACE s)))"

section \<open>What is trimmed stays as it is\<close>

lemma trim_with_done: "find (\<lambda>w. w \<noteq> [] \<and> starts_with w (trim_with patterns s)) patterns = None"
proof (induction patterns s rule: trim_with.induct)
  case (1 patterns s)
  show ?case
  proof (cases "find (\<lambda>w. w \<noteq> [] \<and> starts_with w s) patterns")
    case None
    then show ?thesis by (simp add: trim_with.simps)
  next
    case (Some w)
    then have "trim_with patterns s = trim_with patterns (drop (length w) s)"
      by (subst trim_with.simps) simp
    with 1 [OF Some] show ?thesis by simp
  qed
qed

lemma trim_with_stays: "find (\<lambda>w. w \<noteq> [] \<and> starts_with w s) patterns = None \<Longrightarrow> trim_with patterns s = s"
  by (subst trim_with.simps) simp

lemma trim_with_rest: "\<exists>n. trim_with patterns s = drop n s"
proof (induction patterns s rule: trim_with.induct)
  case (1 patterns s)
  show ?case
  proof (cases "find (\<lambda>w. w \<noteq> [] \<and> starts_with w s) patterns")
    case None
    then show ?thesis by (intro exI [of _ 0]) (simp add: trim_with_stays)
  next
    case (Some w)
    from 1 [OF Some] obtain n where "trim_with patterns (drop (length w) s) = drop n (drop (length w) s)" by blast
    with Some show ?thesis by (subst trim_with.simps) auto
  qed
qed

lemma starts_with_append:
  assumes "starts_with w u"
  shows "starts_with w (u @ v)"
proof -
  have "u = w @ drop (length w) u" using assms append_take_drop_id [of "length w" u] by (simp add: starts_with_def)
  then show ?thesis unfolding starts_with_def by (metis append_assoc append_eq_conv_conj)
qed

lemma trim_trim [simp]: "trim (trim s) = trim s"
proof -
  let ?t = "trim_with WHITESPACE s"
  let ?u = "trim_with (map rev WHITESPACE) (rev ?t)"
  from trim_with_rest [of "map rev WHITESPACE" "rev ?t"] obtain n where n: "?u = drop n (rev ?t)" by blast
  then have t: "?t = rev ?u @ rev (take n (rev ?t))"
    by (metis append_take_drop_id rev_append rev_rev_ident)
  have "\<not> (w \<noteq> [] \<and> starts_with w (rev ?u))" if "w \<in> set WHITESPACE" for w
  proof
    assume w: "w \<noteq> [] \<and> starts_with w (rev ?u)"
    then have "starts_with w (rev ?u @ rev (take n (rev ?t)))" by (simp add: starts_with_append)
    then have "starts_with w ?t" by (simp only: t [symmetric])
    with w trim_with_done [of WHITESPACE s] that show False by (auto simp: find_None_iff)
  qed
  then have "trim_with WHITESPACE (rev ?u) = rev ?u"
    by (intro trim_with_stays) (auto simp: find_None_iff)
  moreover have "trim_with (map rev WHITESPACE) ?u = ?u"
    using trim_with_done [of "map rev WHITESPACE" "rev ?t"] by (rule trim_with_stays)
  ultimately show ?thesis by (simp add: trim_def)
qed

definition is_graphic :: "char \<Rightarrow> bool" where
  "is_graphic c \<longleftrightarrow> CHR 0x21 \<le> c \<and> c \<le> CHR 0x7E"

lemma trim_with_graphic:
  assumes "s \<noteq> []" "is_graphic (hd s)" "list_all (\<lambda>w. w = [] \<or> \<not> is_graphic (hd w)) patterns"
  shows "trim_with patterns s = s"
proof (rule trim_with_stays)
  have "\<not> (w \<noteq> [] \<and> starts_with w s)" if "w \<in> set patterns" for w
    using assms that by (cases w; cases s) (auto simp: starts_with_def list_all_iff)
  then show "find (\<lambda>w. w \<noteq> [] \<and> starts_with w s) patterns = None" by (auto simp: find_None_iff)
qed

lemma trim_graphic: "s \<noteq> [] \<Longrightarrow> is_graphic (hd s) \<Longrightarrow> is_graphic (List.last s) \<Longrightarrow> trim s = s"
  by (simp add: trim_def trim_with_graphic hd_rev WHITESPACE_def OTHER_WHITESPACE_def is_graphic_def less_eq_char_def)

lemma trims [simp]:
  "is_graphic c \<Longrightarrow> trim [c] = [c]"
  "is_graphic c \<Longrightarrow> is_graphic (List.last (d # s)) \<Longrightarrow> trim (c # d # s) = c # d # s"
  by (simp_all add: trim_graphic)

end
