(* ===== verification/Access.thy ===== *)
theory Access
  imports Domain Text
begin

text \<open>
  Who may reach a protected app: the verifier a policy is compiled to and the tokens it takes
  (\<open>adapters/proxy/jwt.rs\<close>), and the keys fetched from the issuer with the cache that holds them
  (\<open>adapters/proxy/jwks.rs\<close>). The libraries http, jsonwebtoken, serde_json and reqwest are a parameter.
  Shown: a request that is let through carries one token, checked against the policy with a key of
  the policy or of the issuer, and keys of an issuer are in use for a quarter of an hour at most.
\<close>

section \<open>Headers\<close>

text \<open>The values a request has for a name, in their order.\<close>

type_synonym header_map = "string \<Rightarrow> string list"

definition headers_get :: "header_map \<Rightarrow> string \<Rightarrow> string option" where
  "headers_get headers name = (case headers name of [] \<Rightarrow> None | v # vs \<Rightarrow> Some v)"

definition headers_contain :: "header_map \<Rightarrow> string \<Rightarrow> bool" where
  "headers_contain headers name \<longleftrightarrow> headers name \<noteq> []"

definition headers_insert :: "string \<Rightarrow> string \<Rightarrow> header_map \<Rightarrow> header_map" where
  "headers_insert name v headers = headers(name := [v])"

definition headers_remove :: "string \<Rightarrow> header_map \<Rightarrow> header_map" where
  "headers_remove name headers = headers(name := [])"

section \<open>The libraries\<close>

record url =
  url_scheme :: string
  url_host :: "string option"
  url_username :: string
  url_password :: "string option"
  url_fragment :: "string option"
  url_text :: string

text \<open>The algorithm a token names is \<open>None\<close> where it is none of the three a policy can ask for.\<close>

record token_header =
  th_kid :: "string option"
  th_alg :: "jwt_algorithm option"
  th_crit :: "string list option"

record token_data =
  td_header :: token_header
  td_exp :: nat
  td_iss :: string

record jwt_validation =
  jv_algorithm :: jwt_algorithm
  jv_required_spec_claims :: "string list"
  jv_iss :: "string list option"
  jv_aud :: "string list option"
  jv_validate_nbf :: bool
  jv_leeway :: nat

datatype elliptic_curve = P256 | Ed25519 | OtherCurve
datatype algorithm_parameters = RsaKey | EllipticCurveKey elliptic_curve | OctetKeyPair elliptic_curve | OctetKey
datatype public_key_use = SignatureUse | OtherUse
datatype key_operation = VerifyOperation | OtherOperation

record jwk =
  jwk_algorithm :: algorithm_parameters
  jwk_public_key_use :: "public_key_use option"
  jwk_key_operations :: "key_operation list option"
  jwk_key_algorithm :: "jwt_algorithm option option"
  jwk_key_id :: "string option"
  jwk_material :: string

text \<open>
  What is taken from the libraries: the name of a header, the text of a header value and the way back,
  a key read from PEM or from a JWK, whether a verifier can be made of a key, an URL, the header of a
  token, a token decoded with a key under a validation, and a key set read from JSON. A request is
  judged at one moment: the answers of \<open>decode\<close> are those of that moment.
\<close>

record 'key jwt_library =
  jl_header_name :: "string \<Rightarrow> string option"
  jl_to_str :: "string \<Rightarrow> string option"
  jl_header_value :: "string \<Rightarrow> string option"
  jl_from_pem :: "jwt_algorithm \<Rightarrow> string \<Rightarrow> 'key option"
  jl_from_jwk :: "jwk \<Rightarrow> 'key option"
  jl_verifier_factory :: "jwt_algorithm \<Rightarrow> 'key \<Rightarrow> bool"
  jl_url_parse :: "string \<Rightarrow> url option"
  jl_decode_header :: "string \<Rightarrow> token_header option"
  jl_decode :: "string \<Rightarrow> 'key \<Rightarrow> jwt_validation \<Rightarrow> token_data option"
  jl_jwk_set :: "string \<Rightarrow> jwk list option"

section \<open>The keys of an issuer\<close>

definition MAX_KEYS :: nat where
  "MAX_KEYS = 32"

definition MAX_BODY_BYTES :: nat where
  "MAX_BODY_BYTES = 256 * 1024"

definition REFRESH_INTERVAL_MS :: nat where
  "REFRESH_INTERVAL_MS = 300000"

definition RETRY_INTERVAL_MS :: nat where
  "RETRY_INTERVAL_MS = 30000"

definition MAX_KEY_AGE_MS :: nat where
  "MAX_KEY_AGE_MS = 900000"

datatype fetch_error = FetchRequest | FetchStatus nat | FetchBodySize | FetchJson | FetchKeyCount | FetchKey

type_synonym 'key jwks_keys = "(string, jwt_algorithm \<times> 'key) btree"

text \<open>The algorithm a key is for; a key of another kind is passed over.\<close>

fun jwk_signing_algorithm :: "algorithm_parameters \<Rightarrow> jwt_algorithm option" where
  "jwk_signing_algorithm RsaKey = Some RS256"
| "jwk_signing_algorithm (EllipticCurveKey curve) = (if curve = P256 then Some ES256 else None)"
| "jwk_signing_algorithm (OctetKeyPair curve) = (if curve = Ed25519 then Some EdDSA else None)"
| "jwk_signing_algorithm OctetKey = None"

definition jwk_skipped :: "jwt_algorithm \<Rightarrow> jwk \<Rightarrow> bool" where
  "jwk_skipped algorithm j \<longleftrightarrow>
     (case jwk_public_key_use j of None \<Rightarrow> False | Some usage \<Rightarrow> usage \<noteq> SignatureUse) \<or>
     (case jwk_key_operations j of None \<Rightarrow> False | Some operations \<Rightarrow> VerifyOperation \<notin> set operations) \<or>
     (case jwk_key_algorithm j of None \<Rightarrow> False | Some alg \<Rightarrow> alg \<noteq> Some algorithm)"

fun parse_jwks :: "'key jwt_library \<Rightarrow> jwk list \<Rightarrow> 'key jwks_keys \<Rightarrow> fetch_error + 'key jwks_keys" where
  "parse_jwks lib [] keys = Inr keys"
| "parse_jwks lib (j # js) keys =
     (case jwk_signing_algorithm (jwk_algorithm j) of
        None \<Rightarrow> parse_jwks lib js keys
      | Some algorithm \<Rightarrow>
          if jwk_skipped algorithm j then parse_jwks lib js keys
          else case jwk_key_id j of
                 None \<Rightarrow> Inl FetchKey
               | Some kid \<Rightarrow>
                   if kid = [] then Inl FetchKey
                   else case jl_from_jwk lib j of
                          None \<Rightarrow> Inl FetchKey
                        | Some key \<Rightarrow>
                            if \<not> jl_verifier_factory lib algorithm key then Inl FetchKey
                            else if map_of keys kid \<noteq> None then Inl FetchKey
                            else parse_jwks lib js (bt_insert kid (algorithm, key) keys))"

definition jwks_keys_parse :: "'key jwt_library \<Rightarrow> string \<Rightarrow> fetch_error + 'key jwks_keys" where
  "jwks_keys_parse lib bytes =
     (case jl_jwk_set lib bytes of
        None \<Rightarrow> Inl FetchJson
      | Some jwks \<Rightarrow> if MAX_KEYS < length jwks then Inl FetchKeyCount else parse_jwks lib jwks [])"

definition jwks_keys_get :: "'key jwks_keys \<Rightarrow> string \<Rightarrow> jwt_algorithm option \<Rightarrow> 'key option" where
  "jwks_keys_get keys kid algorithm =
     (case map_of keys kid of
        Some (expected, key) \<Rightarrow> if Some expected = algorithm then Some key else None
      | None \<Rightarrow> None)"

text \<open>
  What an endpoint answers: nothing, or a status, the length it declares and the chunks that arrive,
  up to the one that does not.
\<close>

record jwks_response =
  jr_status :: nat
  jr_content_length :: "nat option"
  jr_chunks :: "string option list"

fun read_body :: "string option list \<Rightarrow> string \<Rightarrow> fetch_error + string" where
  "read_body [] body = Inr body"
| "read_body (None # chunks) body = Inl FetchRequest"
| "read_body (Some chunk # chunks) body =
     (if MAX_BODY_BYTES < length body + length chunk then Inl FetchBodySize
      else read_body chunks (body @ chunk))"

definition fetch :: "'key jwt_library \<Rightarrow> jwks_response option \<Rightarrow> fetch_error + 'key jwks_keys" where
  "fetch lib answered =
     (case answered of
        None \<Rightarrow> Inl FetchRequest
      | Some response \<Rightarrow>
          if \<not> (200 \<le> jr_status response \<and> jr_status response < 300) then Inl (FetchStatus (jr_status response))
          else if (case jr_content_length response of None \<Rightarrow> False | Some declared \<Rightarrow> MAX_BODY_BYTES < declared)
          then Inl FetchBodySize
          else case read_body (jr_chunks response) [] of
                 Inl e \<Rightarrow> Inl e
               | Inr body \<Rightarrow> jwks_keys_parse lib body)"

section \<open>The cache\<close>

record 'key cached_keys =
  ck_keys :: "'key jwks_keys option"
  ck_expires_at :: nat
  ck_next_refresh :: nat

type_synonym 'key jwks_cache = "(string, 'key cached_keys) btree"

definition jwks_get :: "'key jwks_cache \<Rightarrow> string \<Rightarrow> nat \<Rightarrow> 'key jwks_keys option" where
  "jwks_get cache url now =
     (case map_of cache url of
        None \<Rightarrow> None
      | Some entry \<Rightarrow> if now < ck_expires_at entry then ck_keys entry else None)"

text \<open>The URLs that are due, each put off by the interval of a retry before it is fetched.\<close>

fun take_due :: "nat \<Rightarrow> string list \<Rightarrow> 'key jwks_cache \<Rightarrow> string list \<times> 'key jwks_cache" where
  "take_due now [] cache = ([], cache)"
| "take_due now (url # urls) cache =
     (let entry = (case map_of cache url of
                     Some entry \<Rightarrow> entry
                   | None \<Rightarrow> \<lparr>ck_keys = None, ck_expires_at = now, ck_next_refresh = now\<rparr>)
      in if now < ck_next_refresh entry then take_due now urls (bt_insert url entry cache)
         else let (due, cache') = take_due now urls (bt_insert url (entry\<lparr>ck_next_refresh := now + RETRY_INTERVAL_MS\<rparr>) cache)
              in (url # due, cache'))"

definition refresh_begin :: "nat \<Rightarrow> string list \<Rightarrow> 'key jwks_cache \<Rightarrow> string list \<times> 'key jwks_cache" where
  "refresh_begin now urls cache = take_due now urls (filter (\<lambda>(url, entry). url \<in> set urls) cache)"

definition refresh_fetched ::
  "nat \<Rightarrow> string \<Rightarrow> fetch_error + 'key jwks_keys \<Rightarrow> 'key jwks_cache \<Rightarrow> 'key jwks_cache" where
  "refresh_fetched now url fetched cache =
     (case fetched of
        Inl e \<Rightarrow> cache
      | Inr keys \<Rightarrow>
          bt_modify url
            (\<lambda>entry. entry\<lparr>ck_keys := Some keys, ck_expires_at := now + MAX_KEY_AGE_MS,
                           ck_next_refresh := now + REFRESH_INTERVAL_MS\<rparr>) cache)"

section \<open>The verifier\<close>

definition MAX_PUBLIC_KEYS :: nat where
  "MAX_PUBLIC_KEYS = 8"

definition MAX_TOKEN_BYTES :: nat where
  "MAX_TOKEN_BYTES = 16 * 1024"

datatype policy_error =
    PolicyHeader | PolicyIssuer | PolicyAudiences | PolicyKeyCount | PolicyPublicKey | PolicyJwksUrl

datatype 'key verification_keys = PemKeys "'key list" | JwksKeys string

record 'key jwt_verifier =
  ve_header :: string
  ve_format :: jwt_token_format
  ve_keys :: "'key verification_keys"
  ve_validation :: jwt_validation

fun compile_pems :: "'key jwt_library \<Rightarrow> jwt_algorithm \<Rightarrow> string list \<Rightarrow> policy_error + 'key list" where
  "compile_pems lib algorithm [] = Inr []"
| "compile_pems lib algorithm (pem # pems) =
     (case jl_from_pem lib algorithm pem of
        None \<Rightarrow> Inl PolicyPublicKey
      | Some key \<Rightarrow>
          if \<not> jl_verifier_factory lib algorithm key then Inl PolicyPublicKey
          else case compile_pems lib algorithm pems of Inl e \<Rightarrow> Inl e | Inr keys \<Rightarrow> Inr (key # keys))"

definition compile_keys :: "'key jwt_library \<Rightarrow> jwt_access_policy \<Rightarrow> policy_error + 'key verification_keys" where
  "compile_keys lib policy =
     (case jwt_public_keys policy of
        Pem pems \<Rightarrow>
          if pems = [] \<or> MAX_PUBLIC_KEYS < length pems then Inl PolicyKeyCount
          else (case compile_pems lib (jwt_algorithm policy) pems of Inl e \<Rightarrow> Inl e | Inr keys \<Rightarrow> Inr (PemKeys keys))
      | Jwks text \<Rightarrow>
          (case jl_url_parse lib text of
             None \<Rightarrow> Inl PolicyJwksUrl
           | Some parsed \<Rightarrow>
               if url_scheme parsed \<noteq> ''https'' \<or> url_host parsed = None \<or> url_username parsed \<noteq> [] \<or>
                  url_password parsed \<noteq> None \<or> url_fragment parsed \<noteq> None
               then Inl PolicyJwksUrl else Inr (JwksKeys (url_text parsed))))"

definition policy_validation :: "jwt_access_policy \<Rightarrow> jwt_validation" where
  "policy_validation policy =
     \<lparr>jv_algorithm = jwt_algorithm policy, jv_required_spec_claims = [''exp'', ''iss'', ''aud''],
      jv_iss = Some [jwt_issuer policy], jv_aud = Some (jwt_audiences policy), jv_validate_nbf = True, jv_leeway = 0\<rparr>"

definition verifier_compile :: "'key jwt_library \<Rightarrow> jwt_access_policy \<Rightarrow> policy_error + 'key jwt_verifier" where
  "verifier_compile lib policy =
     (case jl_header_name lib (jts_header (jwt_token policy)) of
        None \<Rightarrow> Inl PolicyHeader
      | Some header \<Rightarrow>
          if trim (jwt_issuer policy) = [] then Inl PolicyIssuer
          else if jwt_audiences policy = [] \<or> list_ex (\<lambda>audience. trim audience = []) (jwt_audiences policy)
          then Inl PolicyAudiences
          else case compile_keys lib policy of
                 Inl e \<Rightarrow> Inl e
               | Inr keys \<Rightarrow>
                   Inr \<lparr>ve_header = header, ve_format = jts_format (jwt_token policy), ve_keys = keys,
                        ve_validation = policy_validation policy\<rparr>)"

definition jwks_url :: "'key jwt_verifier \<Rightarrow> string option" where
  "jwks_url verifier = (case ve_keys verifier of PemKeys keys \<Rightarrow> None | JwksKeys url \<Rightarrow> Some url)"

definition valid_token :: "'key jwt_library \<Rightarrow> nat \<Rightarrow> 'key jwt_verifier \<Rightarrow> string \<Rightarrow> 'key \<Rightarrow> bool" where
  "valid_token lib now verifier token key \<longleftrightarrow>
     (case jl_decode lib token key (ve_validation verifier) of
        None \<Rightarrow> False
      | Some decoded \<Rightarrow>
          th_crit (td_header decoded) = None \<and> now < td_exp decoded \<and>
          (case jv_iss (ve_validation verifier) of None \<Rightarrow> False | Some issuers \<Rightarrow> td_iss decoded \<in> set issuers))"

text \<open>The token of a request: the only value of its header, which is not too long.\<close>

definition token_of :: "jwt_token_format \<Rightarrow> string \<Rightarrow> string option" where
  "token_of format v =
     (case format of
        JwtRaw \<Rightarrow> Some v
      | JwtBearer \<Rightarrow>
          (case split_once CHR '' '' v of
             None \<Rightarrow> None
           | Some (scheme, token) \<Rightarrow> if eq_ignore_ascii_case scheme ''bearer'' then Some token else None))"

definition presented_token :: "'key jwt_library \<Rightarrow> 'key jwt_verifier \<Rightarrow> header_map \<Rightarrow> string option" where
  "presented_token lib verifier headers =
     (case headers (ve_header verifier) of
        [] \<Rightarrow> None
      | v # others \<Rightarrow>
          (case jl_to_str lib v of
             None \<Rightarrow> None
           | Some text \<Rightarrow>
               if others \<noteq> [] \<or> MAX_TOKEN_BYTES < length text then None
               else token_of (ve_format verifier) text))"

definition permits ::
  "'key jwt_library \<Rightarrow> nat \<Rightarrow> 'key jwt_verifier \<Rightarrow> header_map \<Rightarrow> 'key jwks_keys option \<Rightarrow> bool" where
  "permits lib now verifier headers jwks \<longleftrightarrow>
     (case presented_token lib verifier headers of
        None \<Rightarrow> False
      | Some token \<Rightarrow>
          (case ve_keys verifier of
             PemKeys keys \<Rightarrow> list_ex (valid_token lib now verifier token) keys
           | JwksKeys url \<Rightarrow>
               (case jl_decode_header lib token of
                  None \<Rightarrow> False
                | Some header \<Rightarrow>
                    (case th_kid header of
                       None \<Rightarrow> False
                     | Some kid \<Rightarrow>
                         (case Option.bind jwks (\<lambda>keys. jwks_keys_get keys kid (th_alg header)) of
                            None \<Rightarrow> False
                          | Some key \<Rightarrow> valid_token lib now verifier token key)))))"

section \<open>Tokens\<close>

text \<open>The key of the issuer that a token names, for the algorithm it names.\<close>

definition issuer_key :: "'key jwt_library \<Rightarrow> 'key jwks_keys option \<Rightarrow> string \<Rightarrow> 'key \<Rightarrow> bool" where
  "issuer_key lib jwks token key \<longleftrightarrow>
     (\<exists>keys header kid algorithm. jwks = Some keys \<and> jl_decode_header lib token = Some header \<and>
        th_kid header = Some kid \<and> th_alg header = Some algorithm \<and> map_of keys kid = Some (algorithm, key))"

lemma compile_pems_keys:
  "compile_pems lib algorithm pems = Inr keys \<Longrightarrow> key \<in> set keys \<Longrightarrow>
   jl_verifier_factory lib algorithm key \<and> (\<exists>pem \<in> set pems. jl_from_pem lib algorithm pem = Some key)"
proof (induction pems arbitrary: keys)
  case (Cons pem pems)
  then show ?case by (auto split: option.splits if_splits sum.splits)
qed simp

lemma verifier_compile_Inr:
  assumes "verifier_compile lib policy = Inr verifier"
  shows "jl_header_name lib (jts_header (jwt_token policy)) = Some (ve_header verifier)"
    "ve_format verifier = jts_format (jwt_token policy)" "compile_keys lib policy = Inr (ve_keys verifier)"
    "ve_validation verifier = policy_validation policy" "trim (jwt_issuer policy) \<noteq> []" "jwt_audiences policy \<noteq> []"
  using assms by (auto simp: verifier_compile_def split: option.splits if_splits sum.splits)

lemma jwks_keys_get_Some:
  "jwks_keys_get keys kid alg = Some key \<longleftrightarrow> (\<exists>algorithm. alg = Some algorithm \<and> map_of keys kid = Some (algorithm, key))"
  by (auto simp: jwks_keys_get_def split: option.splits)

lemma permits_cases:
  assumes "permits lib now verifier headers jwks"
  obtains v content token key where "headers (ve_header verifier) = [v]" "jl_to_str lib v = Some content"
    "length content \<le> MAX_TOKEN_BYTES" "token_of (ve_format verifier) content = Some token"
    "valid_token lib now verifier token key"
    "case ve_keys verifier of
       PemKeys keys \<Rightarrow> key \<in> set keys
     | JwksKeys url \<Rightarrow> issuer_key lib jwks token key"
proof -
  obtain token where token: "presented_token lib verifier headers = Some token"
    using assms by (auto simp: permits_def split: option.splits)
  then obtain v content where "headers (ve_header verifier) = [v]" "jl_to_str lib v = Some content"
    "length content \<le> MAX_TOKEN_BYTES" "token_of (ve_format verifier) content = Some token"
    by (auto simp: presented_token_def split: list.splits option.splits if_splits)
  moreover obtain key where "valid_token lib now verifier token key"
    "case ve_keys verifier of
       PemKeys keys \<Rightarrow> key \<in> set keys
     | JwksKeys url \<Rightarrow> issuer_key lib jwks token key"
    using assms token
    by (cases "ve_keys verifier")
      (auto simp: permits_def issuer_key_def jwks_keys_get_Some list_ex_iff bind_eq_Some_conv split: option.splits if_splits)
  ultimately show thesis by (rule that)
qed

text \<open>
  (C7) A protected app is reached with a valid token only. A request that a policy lets through has the
  header of the policy exactly once, and its token was decoded under the issuer and the audiences of
  the policy, unexpired and with no extension that must be understood, with a key of the policy or
  with the key of the issuer that the token names, for the algorithm it names.
\<close>

theorem permitted_requests_carry_a_valid_token:
  assumes "verifier_compile lib policy = Inr verifier" "permits lib now verifier headers jwks"
  shows "\<exists>name v content token key decoded.
    jl_header_name lib (jts_header (jwt_token policy)) = Some name \<and> headers name = [v] \<and>
    jl_to_str lib v = Some content \<and> length content \<le> MAX_TOKEN_BYTES \<and>
    token_of (jts_format (jwt_token policy)) content = Some token \<and>
    jl_decode lib token key (policy_validation policy) = Some decoded \<and>
    now < td_exp decoded \<and> td_iss decoded = jwt_issuer policy \<and> th_crit (td_header decoded) = None \<and>
    (case jwt_public_keys policy of
       Pem pems \<Rightarrow> \<exists>pem \<in> set pems. jl_from_pem lib (jwt_algorithm policy) pem = Some key
     | Jwks url \<Rightarrow> issuer_key lib jwks token key)"
proof -
  note compiled = verifier_compile_Inr [OF assms(1)]
  obtain v content token key where parts: "headers (ve_header verifier) = [v]" "jl_to_str lib v = Some content"
    "length content \<le> MAX_TOKEN_BYTES" "token_of (ve_format verifier) content = Some token"
    "valid_token lib now verifier token key"
    "case ve_keys verifier of
       PemKeys keys \<Rightarrow> key \<in> set keys
     | JwksKeys url \<Rightarrow> issuer_key lib jwks token key"
    using assms(2) by (rule permits_cases)
  obtain decoded where decoded: "jl_decode lib token key (policy_validation policy) = Some decoded"
    "now < td_exp decoded" "td_iss decoded = jwt_issuer policy" "th_crit (td_header decoded) = None"
    using parts(5) compiled(4) by (auto simp: valid_token_def policy_validation_def split: option.splits)
  have "case jwt_public_keys policy of
      Pem pems \<Rightarrow> \<exists>pem \<in> set pems. jl_from_pem lib (jwt_algorithm policy) pem = Some key
    | Jwks url \<Rightarrow> issuer_key lib jwks token key"
    using parts(6) compiled(3) [symmetric]
    by (auto simp: compile_keys_def dest: compile_pems_keys split: jwt_public_keys.splits if_splits sum.splits option.splits)
  with compiled(1,2) parts decoded show ?thesis by auto
qed

text \<open>An issuer with one key, in a policy or behind a URL.\<close>

definition sample_library :: "string jwt_library" where
  "sample_library =
     \<lparr>jl_header_name = Some, jl_to_str = Some, jl_header_value = Some, jl_from_pem = (\<lambda>algorithm pem. Some pem),
      jl_from_jwk = (\<lambda>j. Some (jwk_material j)), jl_verifier_factory = (\<lambda>algorithm key. True),
      jl_url_parse = (\<lambda>text. Some \<lparr>url_scheme = ''https'', url_host = Some ''issuer'', url_username = [], url_password = None,
        url_fragment = None, url_text = text\<rparr>),
      jl_decode_header = (\<lambda>token. Some \<lparr>th_kid = Some ''k'', th_alg = Some RS256, th_crit = None\<rparr>),
      jl_decode = (\<lambda>token key validation. if token = ''token'' \<and> key = ''key''
        then Some \<lparr>td_header = \<lparr>th_kid = Some ''k'', th_alg = Some RS256, th_crit = None\<rparr>, td_exp = 100, td_iss = ''me''\<rparr> else None),
      jl_jwk_set = (\<lambda>body. Some [\<lparr>jwk_algorithm = RsaKey, jwk_public_key_use = None, jwk_key_operations = None,
        jwk_key_algorithm = None, jwk_key_id = Some ''k'', jwk_material = ''key''\<rparr>])\<rparr>"

definition sample_policy :: "jwt_public_keys \<Rightarrow> jwt_access_policy" where
  "sample_policy keys =
     \<lparr>jwt_token = \<lparr>jts_header = ''authorization'', jts_format = JwtBearer\<rparr>, jwt_issuer = ''me'', jwt_audiences = [''us''],
      jwt_algorithm = RS256, jwt_public_keys = keys\<rparr>"

definition sample_verifier :: "string verification_keys \<Rightarrow> string jwt_verifier" where
  "sample_verifier keys =
     \<lparr>ve_header = ''authorization'', ve_format = JwtBearer, ve_keys = keys, ve_validation = policy_validation (sample_policy (Pem []))\<rparr>"

definition sample_headers :: header_map where
  "sample_headers name = (if name = ''authorization'' then [''Bearer token''] else [])"

lemma trim_sample: "trim ''me'' = ''me''" "trim ''us'' = ''us''"
  by (simp_all add: trim_def trim_with.simps WHITESPACE_def OTHER_WHITESPACE_def starts_with_def)

lemma sample_compiled:
  "verifier_compile sample_library (sample_policy (Pem [''other'', ''key''])) = Inr (sample_verifier (PemKeys [''other'', ''key'']))"
  "verifier_compile sample_library (sample_policy (Jwks ''https://issuer/keys'')) = Inr (sample_verifier (JwksKeys ''https://issuer/keys''))"
  by (simp_all add: verifier_compile_def compile_keys_def sample_library_def sample_policy_def sample_verifier_def
      policy_validation_def trim_sample MAX_PUBLIC_KEYS_def)

lemma sample_token: "token_of JwtBearer ''Bearer token'' = Some ''token''"
  by code_simp

lemma sample_permits:
  "permits sample_library 10 (sample_verifier (PemKeys [''other'', ''key''])) sample_headers None"
  by (simp add: permits_def presented_token_def sample_token sample_headers_def sample_verifier_def sample_library_def
      valid_token_def policy_validation_def sample_policy_def MAX_TOKEN_BYTES_def)

theorem permitted_requests_carry_a_valid_token_witness:
  "verifier_compile sample_library (sample_policy (Pem [''other'', ''key''])) = Inr (sample_verifier (PemKeys [''other'', ''key''])) \<and>
   permits sample_library 10 (sample_verifier (PemKeys [''other'', ''key''])) sample_headers None \<and>
   (\<exists>key decoded. jl_decode sample_library ''token'' key (policy_validation (sample_policy (Pem [''other'', ''key'']))) = Some decoded \<and>
      10 < td_exp decoded)"
  using sample_compiled(1) sample_permits permitted_requests_carry_a_valid_token [OF sample_compiled(1) sample_permits]
  by (auto simp: sample_headers_def sample_policy_def sample_library_def sample_token)

section \<open>Keys\<close>

definition keys_usable :: "'key jwt_library \<Rightarrow> 'key jwks_keys \<Rightarrow> bool" where
  "keys_usable lib keys \<longleftrightarrow>
     list_all (\<lambda>(kid, algorithm, key). kid \<noteq> [] \<and> jl_verifier_factory lib algorithm key) keys"

lemma parse_jwks_keys:
  assumes "parse_jwks lib js keys = Inr keys'" "keys_usable lib keys"
  shows "keys_usable lib keys' \<and> length keys' \<le> length js + length keys"
  using assms
proof (induction js arbitrary: keys)
  case (Cons j js)
  show ?case
  proof (cases "parse_jwks lib js keys = Inr keys'")
    case True
    then show ?thesis using Cons.IH Cons.prems(2) by fastforce
  next
    case False
    then obtain kid algorithm key where inserted: "parse_jwks lib js (bt_insert kid (algorithm, key) keys) = Inr keys'"
      "kid \<noteq> []" "jl_verifier_factory lib algorithm key"
      using Cons.prems(1) by (auto split: option.splits if_splits)
    have "keys_usable lib (bt_insert kid (algorithm, key) keys)"
      using inserted Cons.prems(2) set_bt_insert_subset [of kid "(algorithm, key)" keys] by (auto simp: keys_usable_def list_all_iff)
    from Cons.IH [OF inserted(1) this] length_bt_insert_le [of kid "(algorithm, key)" keys] show ?thesis by auto
  qed
qed simp

lemma fetch_keys:
  assumes "fetch lib answered = Inr keys"
  shows "keys_usable lib keys" "length keys \<le> MAX_KEYS"
proof -
  obtain body where "jwks_keys_parse lib body = Inr keys"
    using assms by (auto simp: fetch_def split: option.splits if_splits sum.splits)
  then obtain js where "parse_jwks lib js [] = Inr keys" "length js \<le> MAX_KEYS"
    by (auto simp: jwks_keys_parse_def split: option.splits if_splits)
  with parse_jwks_keys [of lib js "[]" keys] show "keys_usable lib keys" "length keys \<le> MAX_KEYS"
    by (simp_all add: keys_usable_def)
qed

text \<open>The cache over time, with the answers that were taken into it and when.\<close>

inductive cache_reachable ::
  "'key jwt_library \<Rightarrow> nat \<Rightarrow> (string \<times> jwks_response option \<times> nat) list \<Rightarrow> 'key jwks_cache \<Rightarrow> bool" for lib where
  empty: "cache_reachable lib now [] []"
| passes: "cache_reachable lib now fetches cache \<Longrightarrow> now \<le> later \<Longrightarrow> cache_reachable lib later fetches cache"
| begun: "cache_reachable lib now fetches cache \<Longrightarrow> refresh_begin now urls cache = (due, cache') \<Longrightarrow>
    cache_reachable lib now fetches cache'"
| fetched: "cache_reachable lib now fetches cache \<Longrightarrow>
    cache_reachable lib now ((url, answered, now) # fetches) (refresh_fetched now url (fetch lib answered) cache)"

definition cache_fresh ::
  "'key jwt_library \<Rightarrow> nat \<Rightarrow> (string \<times> jwks_response option \<times> nat) list \<Rightarrow> 'key jwks_cache \<Rightarrow> bool" where
  "cache_fresh lib now fetches cache \<longleftrightarrow>
     (\<forall>url entry keys. map_of cache url = Some entry \<longrightarrow> ck_keys entry = Some keys \<longrightarrow>
        (\<exists>answered taken_at. (url, answered, taken_at) \<in> set fetches \<and> fetch lib answered = Inr keys \<and> taken_at \<le> now \<and>
           ck_expires_at entry = taken_at + MAX_KEY_AGE_MS))"

lemma take_due_fresh:
  "take_due now urls cache = (due, cache') \<Longrightarrow> cache_fresh lib now fetches cache \<Longrightarrow> cache_fresh lib now fetches cache'"
proof (induction urls arbitrary: cache due)
  case (Cons url urls)
  let ?entry = "case map_of cache url of Some entry \<Rightarrow> entry
    | None \<Rightarrow> \<lparr>ck_keys = None, ck_expires_at = now, ck_next_refresh = now\<rparr>"
  have "cache_fresh lib now fetches (bt_insert url ?entry cache)"
    "cache_fresh lib now fetches (bt_insert url (?entry\<lparr>ck_next_refresh := now + RETRY_INTERVAL_MS\<rparr>) cache)"
    using Cons.prems(2) by (auto simp: cache_fresh_def split: option.splits)
  with Cons show ?case by (auto simp: Let_def split: if_splits prod.splits)
qed simp

lemma take_due_wf: "take_due now urls cache = (due, cache') \<Longrightarrow> bt_wf cache \<Longrightarrow> bt_wf cache'"
  by (induction urls arbitrary: cache due) (auto simp: Let_def split: if_splits prod.splits)

lemma cache_reachable_fresh: "cache_reachable lib now fetches cache \<Longrightarrow> bt_wf cache \<and> cache_fresh lib now fetches cache"
proof (induction rule: cache_reachable.induct)
  case (begun now fetches cache urls due cache')
  have "cache_fresh lib now fetches (filter (\<lambda>(url, entry). url \<in> set urls) cache)"
    using begun by (auto simp: cache_fresh_def map_of_filter_wf split: option.splits if_splits)
  then show ?case using begun take_due_fresh take_due_wf bt_wf_filter by (fastforce simp: refresh_begin_def)
qed (auto simp: cache_fresh_def refresh_fetched_def split: sum.splits if_splits, (meson order_trans)+)

text \<open>
  (C8) Keys of an issuer are in use for a quarter of an hour at most. The keys a token is checked with
  came from the URL of the policy no longer ago than that, in an answer that was taken whole: at most
  32 of them, each with a name and fit for verifying. An issuer that stays away leaves no keys.
\<close>

theorem keys_in_use_are_fresh:
  assumes "cache_reachable lib now fetches cache" "jwks_get cache url now = Some keys"
  shows "\<exists>answered taken_at. (url, answered, taken_at) \<in> set fetches \<and> fetch lib answered = Inr keys \<and>
    taken_at \<le> now \<and> now < taken_at + MAX_KEY_AGE_MS \<and> length keys \<le> MAX_KEYS \<and> keys_usable lib keys"
proof -
  obtain entry where entry: "map_of cache url = Some entry" "ck_keys entry = Some keys" "now < ck_expires_at entry"
    using assms(2) by (auto simp: jwks_get_def split: option.splits if_splits)
  with cache_reachable_fresh [OF assms(1)] obtain answered taken_at where
    "(url, answered, taken_at) \<in> set fetches" "fetch lib answered = Inr keys" "taken_at \<le> now" "ck_expires_at entry = taken_at + MAX_KEY_AGE_MS"
    unfolding cache_fresh_def by blast
  with entry fetch_keys [of lib answered keys] show ?thesis by auto
qed


definition sample_answer :: "jwks_response option" where
  "sample_answer = Some \<lparr>jr_status = 200, jr_content_length = None, jr_chunks = [Some ''{}'']\<rparr>"

definition sample_cache :: "string jwks_cache" where
  "sample_cache = refresh_fetched 5 ''u'' (fetch sample_library sample_answer) (snd (refresh_begin 0 [''u''] []))"

lemmas sample_cache_defs =
  sample_cache_def sample_answer_def sample_library_def refresh_fetched_def refresh_begin_def fetch_def
  jwks_keys_parse_def jwk_skipped_def MAX_KEYS_def MAX_BODY_BYTES_def MAX_KEY_AGE_MS_def bt_modify_def

theorem keys_in_use_are_fresh_witness:
  "cache_reachable sample_library 900004 [(''u'', sample_answer, 5)] sample_cache \<and>
   jwks_get sample_cache ''u'' 900004 = Some [(''k'', RS256, ''key'')] \<and> keys_usable sample_library [(''k'', RS256, ''key'')] \<and>
   jwks_get sample_cache ''u'' 900005 = None"
proof -
  have "cache_reachable sample_library 0 [] (snd (refresh_begin 0 [''u''] []))"
    using begun [OF cache_reachable.empty, of 0 "[''u'']" _ _ sample_library] by (metis prod.collapse)
  then have "cache_reachable sample_library 5 [] (snd (refresh_begin 0 [''u''] []))"
    by (rule passes) simp
  from passes [OF fetched [OF this], of 900004 "''u''" sample_answer]
  have reached: "cache_reachable sample_library 900004 [(''u'', sample_answer, 5)] sample_cache"
    by (simp add: sample_cache_def)
  have kept: "jwks_get sample_cache ''u'' 900004 = Some [(''k'', RS256, ''key'')]" "jwks_get sample_cache ''u'' 900005 = None"
    by (simp_all add: sample_cache_defs jwks_get_def Let_def)
  from keys_in_use_are_fresh [OF reached kept(1)] reached kept show ?thesis by simp
qed

end
