(* ===== verification/Forward.thy ===== *)
theory Forward
  imports Access
begin

text \<open>
  How the proxy carries a request to an app and its answer back (\<open>adapters/proxy/forward.rs\<close>): the
  headers of one leg only, the name the visitor asked for, the pools of connections and the leg of an
  upgrade. Sockets and the HTTP library are a parameter; what is sent is recorded as a list of calls.
  Shown: what an app is sent on the pooled leg speaks its version, keeps nothing of the visitor's
  connection and goes to the address it was meant for, and a pool that was closed is not used again.
\<close>

section \<open>Requests\<close>

datatype http_version = Http10 | Http11 | Http2

record uri =
  uri_authority :: "string option"
  uri_host :: "string option"
  uri_path :: string
  uri_path_and_query :: "string option"

record http_request =
  rq_method :: string
  rq_version :: http_version
  rq_uri :: uri
  rq_headers :: header_map
  rq_body :: string

text \<open>A response the proxy wrote itself because nothing answered is marked.\<close>

record http_response =
  rp_status :: nat
  rp_headers :: header_map
  rp_body :: string
  rp_unreachable :: bool

definition say_text :: "nat \<Rightarrow> string \<Rightarrow> http_response" where
  "say_text status message =
     \<lparr>rp_status = status,
      rp_headers = (\<lambda>name. []) (''content-type'' := [''text/plain; charset=utf-8''], ''cache-control'' := [''no-store''], ''connection'' := [''close'']),
      rp_body = message, rp_unreachable = False\<rparr>"

definition could_not_be_reached :: http_response where
  "could_not_be_reached = (say_text 502 (''This app could not be reached.'' @ [CHR 0x0A]))\<lparr>rp_unreachable := True\<rparr>"

definition hostname_of :: "'key jwt_library \<Rightarrow> http_request \<Rightarrow> string option" where
  "hostname_of lib request =
     map_option (\<lambda>host. map to_ascii_lower (hd (split_on CHR '':'' host)))
       (case Option.bind (headers_get (rq_headers request) ''host'') (jl_to_str lib) of
          Some host \<Rightarrow> Some host
        | None \<Rightarrow> uri_host (rq_uri request))"

section \<open>Headers of one leg\<close>

definition HOP_BY_HOP :: "string list" where
  "HOP_BY_HOP =
     [''connection'', ''keep-alive'', ''proxy-authenticate'', ''proxy-authorization'', ''te'', ''trailer'',
      ''transfer-encoding'', ''upgrade'']"

definition strip_hop_by_hop :: "header_map \<Rightarrow> header_map" where
  "strip_hop_by_hop headers = fold headers_remove HOP_BY_HOP headers"

definition note_the_hop :: "'key jwt_library \<Rightarrow> string \<Rightarrow> bool \<Rightarrow> string \<Rightarrow> header_map \<Rightarrow> header_map" where
  "note_the_hop lib peer secure hostname headers =
     (let travelled = (case Option.bind (headers_get headers ''x-forwarded-for'') (jl_to_str lib) of
                         Some already \<Rightarrow> already @ '', '' @ peer
                       | None \<Rightarrow> peer);
          headers = (case jl_header_value lib travelled of
                       Some v \<Rightarrow> headers_insert ''x-forwarded-for'' v headers
                     | None \<Rightarrow> headers);
          headers = (if headers_contain headers ''x-forwarded-proto'' then headers
                     else headers_insert ''x-forwarded-proto'' (if secure then ''https'' else ''http'') headers)
      in if headers_contain headers ''x-forwarded-host'' then headers
         else case jl_header_value lib hostname of
                Some v \<Rightarrow> headers_insert ''x-forwarded-host'' v headers
              | None \<Rightarrow> headers)"

definition upgrade_requested :: "'key jwt_library \<Rightarrow> http_request \<Rightarrow> bool" where
  "upgrade_requested lib request \<longleftrightarrow>
     rq_version request = Http11 \<and> headers_contain (rq_headers request) ''upgrade'' \<and>
     list_ex (\<lambda>token. eq_ignore_ascii_case (trim token) ''upgrade'')
       (concat (map (split_on CHR '','') (List.map_filter (jl_to_str lib) (rq_headers request ''connection''))))"

definition as_the_upstream_speaks :: "'key jwt_library \<Rightarrow> http_request \<Rightarrow> http_request" where
  "as_the_upstream_speaks lib request =
     (let named_by_the_uri = (rq_version request = Http2 \<or> \<not> headers_contain (rq_headers request) ''host'');
          request = request\<lparr>rq_version := Http11\<rparr>
      in if \<not> named_by_the_uri then request
         else case Option.bind (uri_authority (rq_uri request)) (jl_header_value lib) of
                Some asked_for \<Rightarrow> request\<lparr>rq_headers := headers_insert ''host'' asked_for (rq_headers request)\<rparr>
              | None \<Rightarrow> request)"

section \<open>The leg to the app\<close>

text \<open>
  The network and the library that speaks HTTP on it: a URI built of its parts, the answer of the
  pooled client, and the steps of a connection of its own.
\<close>

record upstream_world =
  uw_build_uri :: "string \<Rightarrow> string \<Rightarrow> string \<Rightarrow> uri option"
  uw_request :: "nat \<Rightarrow> http_request \<Rightarrow> http_response option"
  uw_connect :: "string \<Rightarrow> nat \<Rightarrow> bool"
  uw_handshake :: "string \<Rightarrow> nat \<Rightarrow> bool"
  uw_send_request :: "string \<Rightarrow> nat \<Rightarrow> http_request \<Rightarrow> http_response option"

text \<open>A request that left, through a pool or over a connection dialled for it.\<close>

datatype upstream_call = PooledCall nat http_request | DialledCall string nat http_request

definition authority_of :: "string \<Rightarrow> nat \<Rightarrow> string" where
  "authority_of host port = host @ '':'' @ show_nat port"

definition rewritten :: "upstream_world \<Rightarrow> uri \<Rightarrow> string \<Rightarrow> nat \<Rightarrow> uri" where
  "rewritten world uri host port =
     (let path = (case uri_path_and_query uri of Some path \<Rightarrow> path | None \<Rightarrow> ''/'')
      in case uw_build_uri world ''http'' (authority_of host port) path of
           Some built \<Rightarrow> built
         | None \<Rightarrow> \<lparr>uri_authority = Some ''127.0.0.1'', uri_host = Some ''127.0.0.1'', uri_path = ''/'', uri_path_and_query = Some ''/''\<rparr>)"

text \<open>The response, what was sent, and whether the bodies under way still hold the request open.\<close>

definition forward_upgrade ::
  "upstream_world \<Rightarrow> http_request \<Rightarrow> string \<Rightarrow> nat \<Rightarrow> http_response \<times> upstream_call list \<times> bool" where
  "forward_upgrade world request host port =
     (if \<not> uw_connect world host port then (could_not_be_reached, [], False)
      else if \<not> uw_handshake world host port then (could_not_be_reached, [], False)
      else case uw_send_request world host port request of
             None \<Rightarrow> (could_not_be_reached, [DialledCall host port request], False)
           | Some answered \<Rightarrow> (answered, [DialledCall host port request], True))"

definition forwarded_request :: "'key jwt_library \<Rightarrow> upstream_world \<Rightarrow> http_request \<Rightarrow> string \<Rightarrow> nat \<Rightarrow> http_request" where
  "forwarded_request lib world request host port =
     (let request = as_the_upstream_speaks lib request
      in request\<lparr>rq_uri := rewritten world (rq_uri request) host port, rq_headers := strip_hop_by_hop (rq_headers request)\<rparr>)"

definition forward ::
  "'key jwt_library \<Rightarrow> upstream_world \<Rightarrow> nat \<Rightarrow> http_request \<Rightarrow> string \<Rightarrow> nat \<Rightarrow> bool \<Rightarrow>
   http_response \<times> upstream_call list \<times> bool" where
  "forward lib world client request host port keep_alive =
     (if upgrade_requested lib request then forward_upgrade world request host port
      else let sent = forwarded_request lib world request host port
           in case uw_request world client sent of
                None \<Rightarrow> (could_not_be_reached, [PooledCall client sent], False)
              | Some upstream \<Rightarrow>
                  (let headers = strip_hop_by_hop (rp_headers upstream)
                   in (upstream\<lparr>rp_headers := (if keep_alive then headers else headers_insert ''connection'' ''close'' headers)\<rparr>,
                       [PooledCall client sent], True)))"

section \<open>Pools\<close>

text \<open>A client for each app, named by the order in which they were made.\<close>

record upstreams =
  up_clients :: "(app_id, nat) btree"
  up_made :: nat

definition upstreams_new :: upstreams where
  "upstreams_new = \<lparr>up_clients = [], up_made = 0\<rparr>"

definition upstreams_to :: "app_id \<Rightarrow> upstreams \<Rightarrow> nat \<times> upstreams" where
  "upstreams_to app_id pools =
     (case map_of (up_clients pools) app_id of
        Some client \<Rightarrow> (client, pools)
      | None \<Rightarrow>
          (up_made pools, \<lparr>up_clients = bt_insert app_id (up_made pools) (up_clients pools), up_made = up_made pools + 1\<rparr>))"

definition close_connections_to :: "app_id \<Rightarrow> upstreams \<Rightarrow> upstreams" where
  "close_connections_to app_id pools = pools\<lparr>up_clients := bt_remove app_id (up_clients pools)\<rparr>"

definition upstreams_keep_only :: "app_id set \<Rightarrow> upstreams \<Rightarrow> upstreams" where
  "upstreams_keep_only apps pools = pools\<lparr>up_clients := filter (\<lambda>(app_id, client). app_id \<in> apps) (up_clients pools)\<rparr>"

section \<open>What an app is sent\<close>

lemma headers_lookup [simp]:
  "headers_remove name headers other = (if other = name then [] else headers other)"
  "headers_insert name v headers other = (if other = name then [v] else headers other)"
  by (simp_all add: headers_remove_def headers_insert_def)

lemma fold_headers_remove: "fold headers_remove names headers name = (if name \<in> set names then [] else headers name)"
  by (induction names arbitrary: headers) auto

lemma strip_hop_by_hop_get: "strip_hop_by_hop headers name = (if name \<in> set HOP_BY_HOP then [] else headers name)"
  by (simp add: strip_hop_by_hop_def fold_headers_remove)

lemma forward_calls:
  assumes "forward lib world client request host port keep_alive = (response, calls, held)" "call \<in> set calls"
  shows "call = (if upgrade_requested lib request then DialledCall host port request
                 else PooledCall client (forwarded_request lib world request host port))"
  using assms by (auto simp: forward_def forward_upgrade_def Let_def split: if_splits option.splits)

text \<open>The body that is carried holds the request open, and an answer nobody gave holds nothing.\<close>

lemma forward_held:
  assumes "forward lib world client request host port keep_alive = (response, calls, held)"
  shows "held \<or> response = could_not_be_reached"
  using assms by (auto simp: forward_def forward_upgrade_def Let_def split: if_splits option.splits)

lemma forwarded_request_speaks:
  assumes "\<And>path. \<exists>built. uw_build_uri world ''http'' (authority_of host port) path = Some built \<and>
      uri_authority built = Some (authority_of host port)"
  shows "rq_version (forwarded_request lib world request host port) = Http11"
    "uri_authority (rq_uri (forwarded_request lib world request host port)) = Some (authority_of host port)"
    "name \<in> set HOP_BY_HOP \<Longrightarrow> rq_headers (forwarded_request lib world request host port) name = []"
    "name \<notin> set HOP_BY_HOP \<Longrightarrow> name \<noteq> ''host'' \<Longrightarrow>
       rq_headers (forwarded_request lib world request host port) name = rq_headers request name"
proof -
  show "rq_version (forwarded_request lib world request host port) = Http11"
    by (auto simp: forwarded_request_def as_the_upstream_speaks_def Let_def split: option.splits)
  have "uri_authority (rewritten world uri host port) = Some (authority_of host port)" for uri
    using assms [of "case uri_path_and_query uri of Some path \<Rightarrow> path | None \<Rightarrow> ''/''"]
    by (elim exE conjE) (simp add: rewritten_def)
  then show "uri_authority (rq_uri (forwarded_request lib world request host port)) = Some (authority_of host port)"
    by (simp add: forwarded_request_def Let_def)
  show "name \<in> set HOP_BY_HOP \<Longrightarrow> rq_headers (forwarded_request lib world request host port) name = []"
    by (simp add: forwarded_request_def Let_def strip_hop_by_hop_get)
  show "name \<notin> set HOP_BY_HOP \<Longrightarrow> name \<noteq> ''host'' \<Longrightarrow>
      rq_headers (forwarded_request lib world request host port) name = rq_headers request name"
    by (auto simp: forwarded_request_def as_the_upstream_speaks_def Let_def strip_hop_by_hop_get split: option.splits)
qed

section \<open>Closed pools\<close>

text \<open>Clients are handed out in order, so one that was closed never comes back.\<close>

inductive pools_step :: "upstreams \<Rightarrow> upstreams \<Rightarrow> bool" where
  pools_used: "pools_step pools (snd (upstreams_to app_id pools))"
| pools_closed: "pools_step pools (close_connections_to app_id pools)"
| pools_routed: "pools_step pools (upstreams_keep_only apps pools)"

definition pools_inv :: "upstreams \<Rightarrow> bool" where
  "pools_inv pools \<longleftrightarrow> bt_wf (up_clients pools) \<and> (\<forall>app_id client. map_of (up_clients pools) app_id = Some client \<longrightarrow> client < up_made pools)"

text \<open>Every client an app has is one made after its connections were closed.\<close>

definition pools_after :: "app_id \<Rightarrow> nat \<Rightarrow> upstreams \<Rightarrow> bool" where
  "pools_after app_id made pools \<longleftrightarrow>
     made \<le> up_made pools \<and> (\<forall>client. map_of (up_clients pools) app_id = Some client \<longrightarrow> made \<le> client)"

lemma pools_step_keeps:
  assumes "pools_step pools pools'"
  shows "pools_inv pools \<Longrightarrow> pools_inv pools'"
    "pools_inv pools \<Longrightarrow> pools_after app_id made pools \<Longrightarrow> pools_after app_id made pools'"
  using assms
  by (auto elim!: pools_step.cases simp: pools_inv_def pools_after_def upstreams_to_def close_connections_to_def upstreams_keep_only_def
      map_of_filter_wf bt_wf_filter less_Suc_eq split: option.splits if_splits)

lemma closed_pools_stay_closed:
  assumes "pools_step\<^sup>*\<^sup>* upstreams_new pools" "pools_step\<^sup>*\<^sup>* (close_connections_to app_id pools) pools'"
  shows "up_made pools \<le> fst (upstreams_to app_id pools')"
proof -
  have "pools_inv upstreams_new" by (simp add: pools_inv_def upstreams_new_def)
  with assms(1) have "pools_inv pools" by (induction rule: rtranclp_induct) (auto intro: pools_step_keeps(1))
  then have "pools_inv (close_connections_to app_id pools)" by (rule pools_step_keeps(1) [OF pools_closed])
  then have "pools_inv (close_connections_to app_id pools) \<and> pools_after app_id (up_made pools) (close_connections_to app_id pools)"
    by (simp add: pools_after_def close_connections_to_def)
  with assms(2) have "pools_inv pools' \<and> pools_after app_id (up_made pools) pools'"
    by (induction rule: rtranclp_induct) (auto intro: pools_step_keeps)
  then show ?thesis by (auto simp: pools_after_def upstreams_to_def split: option.splits)
qed

end
