(* ===== verification/Activator.thy ===== *)
theory Activator
  imports Waker Forward "HOL-Library.Product_Lexorder"
begin

text \<open>
  The ways into an app that sleeps: the activators for HTTP, streams and datagrams
  (\<open>adapters/proxy/activator.rs\<close>, \<open>stream_activator.rs\<close> and \<open>datagram_activator.rs\<close>). Their listeners,
  the answer to a request, and the sessions of a datagram port. Sockets are parameters, metrics and log
  lines are left out. Shown: a request is handed to a guest only where its app is wanted and the guest
  is up or was woken; the listeners of HTTP and streams follow the bindings they are given, those of
  datagrams do not; a guest is brought up through an activator only where it is admitted.
\<close>

section \<open>Listeners\<close>

text \<open>
  What all three do with their listeners: those that are no longer as wanted are dropped, and what is
  wanted and missing is bound, where the address can be.
\<close>

definition serve_listeners ::
  "('b \<Rightarrow> 'b \<Rightarrow> bool) \<Rightarrow> ('k \<Rightarrow> 'b \<Rightarrow> bool) \<Rightarrow> ('k::linorder, 'b) btree \<Rightarrow> ('k, 'b) btree \<Rightarrow> ('k, 'b) btree" where
  "serve_listeners same binds wanted listeners =
     fold (\<lambda>(key, binding) kept. if map_of kept key \<noteq> None \<or> \<not> binds key binding then kept else bt_insert key binding kept) wanted
       (filter (\<lambda>(key, listener). case map_of wanted key of None \<Rightarrow> False | Some binding \<Rightarrow> same binding listener) listeners)"

definition binding_key :: "stream_binding \<Rightarrow> app_id \<times> port_name" where
  "binding_key binding = (sb_app_id binding, sb_name binding)"

definition wanted_bindings :: "stream_binding list \<Rightarrow> (app_id \<times> port_name, host_port \<times> guest_port) btree" where
  "wanted_bindings bindings = bt_collect (map (\<lambda>binding. (binding_key binding, (sb_host_port binding, sb_guest_port binding))) bindings)"

definition serve_http ::
  "(app_id \<Rightarrow> host_port \<Rightarrow> bool) \<Rightarrow> (app_id \<times> host_port) list \<Rightarrow> (app_id, host_port) btree \<Rightarrow> (app_id, host_port) btree" where
  "serve_http binds asked listeners = serve_listeners (=) binds (bt_collect asked) listeners"

definition serve_streams ::
  "(app_id \<times> port_name \<Rightarrow> host_port \<times> guest_port \<Rightarrow> bool) \<Rightarrow> stream_binding list \<Rightarrow>
   (app_id \<times> port_name, host_port \<times> guest_port) btree \<Rightarrow> (app_id \<times> port_name, host_port \<times> guest_port) btree" where
  "serve_streams binds bindings listeners =
     serve_listeners (\<lambda>(host_port, guest_port) (listening_on, forwarding_to). host_port = listening_on \<and> guest_port = forwarding_to)
       binds (wanted_bindings bindings) listeners"

text \<open>A datagram listener does not know the port it is bound to; the model keeps it beside the guest port.\<close>

definition serve_datagrams ::
  "(app_id \<times> port_name \<Rightarrow> host_port \<times> guest_port \<Rightarrow> bool) \<Rightarrow> stream_binding list \<Rightarrow>
   (app_id \<times> port_name, host_port \<times> guest_port) btree \<Rightarrow> (app_id \<times> port_name, host_port \<times> guest_port) btree" where
  "serve_datagrams binds bindings listeners =
     serve_listeners (\<lambda>(host_port, guest_port) (listening_on, forwarding_to). guest_port = forwarding_to)
       binds (wanted_bindings bindings) listeners"

section \<open>A request for an app that sleeps\<close>

datatype activator_verdict = AnsweredServed | AnsweredComeBack | AnsweredDown | AnsweredWouldNotStart | AnsweredHostFull

definition app_is_down :: http_response where
  "app_is_down = say_text 503 (''This app is not running.'' @ [CHR 0x0A])"

definition app_would_not_start :: http_response where
  "app_would_not_start = say_text 503 (''This app could not be started.'' @ [CHR 0x0A])"

definition host_is_full :: http_response where
  "host_is_full = say_text 503 (''This app could not be started: its machine is out of memory.'' @ [CHR 0x0A])"

definition come_back :: http_response where
  "come_back =
     (let response = say_text 503 (''This app is starting. Please reconnect.'' @ [CHR 0x0A])
      in response\<lparr>rp_headers := headers_insert ''retry-after'' ''2'' (rp_headers response)\<rparr>)"

type_synonym activator_reply = "http_response \<times> activator_verdict \<times> upstream_call list"

text \<open>A guest that booted and stayed unhealthy is handed the request all the same.\<close>

fun refused_reply :: "wake_answer \<Rightarrow> activator_reply option" where
  "refused_reply (Inr ()) = None"
| "refused_reply (Inl (NoRoom shortfall_mib)) = Some (host_is_full, AnsweredHostFull, [])"
| "refused_reply (Inl (WakeFailed kind reason)) =
     (if kind = NeverAnswered then None else Some (app_would_not_start, AnsweredWouldNotStart, []))"

definition hand_over ::
  "'key jwt_library \<Rightarrow> upstream_world \<Rightarrow> nat \<Rightarrow> app_id \<Rightarrow> http_request \<Rightarrow> activator_reply act" where
  "hand_over lib web client app_id request = do {
     found \<leftarrow> the_record app_id;
     case found of
       None \<Rightarrow> done_with (app_would_not_start, AnsweredWouldNotStart, [])
     | Some woken \<Rightarrow>
         (case ir_guest_ipv4 woken of
            None \<Rightarrow> done_with (app_would_not_start, AnsweredWouldNotStart, [])
          | Some guest_ipv4 \<Rightarrow>
              if headers_contain (rq_headers request) ''upgrade'' then done_with (come_back, AnsweredComeBack, [])
              else let (response, calls, held) = forward lib web client request guest_ipv4 (ir_http_port woken) False
                   in done_with (response, AnsweredServed, calls))
   }"

definition activator_answer ::
  "'key jwt_library \<Rightarrow> upstream_world \<Rightarrow> world \<Rightarrow> (string \<Rightarrow> nat \<Rightarrow> bool) \<Rightarrow> (app_id \<Rightarrow> wake_answer option act) \<Rightarrow>
   nat \<Rightarrow> app_id \<Rightarrow> http_request \<Rightarrow> activator_reply option act" where
  "activator_answer lib web w accepts wake client app_id request = do {
     found \<leftarrow> the_record app_id;
     case found of
       None \<Rightarrow> done_with (Some (app_is_down, AnsweredDown, []))
     | Some r \<Rightarrow>
         if \<not> ir_desired_running r then done_with (Some (app_is_down, AnsweredDown, []))
         else case ir_guest_ipv4 r of
           None \<Rightarrow> done_with (Some (app_would_not_start, AnsweredWouldNotStart, []))
         | Some guest_ipv4 \<Rightarrow> do {
             now_ms \<leftarrow> ask NowCall (w_now w);
             mark_active app_id now_ms;
             snapshot \<leftarrow> the_snapshot;
             woken \<leftarrow> (if record_is_idle r \<or> app_id \<in> hs_snapshotting snapshot \<or> \<not> accepts guest_ipv4 (ir_http_port r)
                       then wake app_id else done_with (Some (Inr ())));
             case woken of
               None \<Rightarrow> done_with None
             | Some answer \<Rightarrow>
                 (case refused_reply answer of
                    Some reply \<Rightarrow> done_with (Some reply)
                  | None \<Rightarrow> do { reply \<leftarrow> hand_over lib web client app_id request; done_with (Some reply) })
           }
   }"

section \<open>Streams and datagrams\<close>

datatype raw_outcome = RawServed | RawDown | RawRefused | RawUnreachable

text \<open>\<open>str::parse\<close> to an address, for the address of a record: octets without leading zeros.\<close>

definition parses_as_ip :: "ipv4_address \<Rightarrow> bool" where
  "parses_as_ip address \<longleftrightarrow>
     (let octets = split_on CHR ''.'' address
      in length octets = 4 \<and> list_all (\<lambda>octet. case parse_unsigned 255 octet of None \<Rightarrow> False | Some n \<Rightarrow> show_nat n = octet) octets)"

text \<open>Where a woken app is.\<close>

definition raw_upstream ::
  "world \<Rightarrow> (app_id \<Rightarrow> wake_answer option act) \<Rightarrow> app_id \<Rightarrow> (raw_outcome + instance_record \<times> ipv4_address) option act" where
  "raw_upstream w wake app_id = do {
     found \<leftarrow> the_record app_id;
     case found of
       None \<Rightarrow> done_with (Some (Inl RawDown))
     | Some r \<Rightarrow>
         if \<not> ir_on_request r \<or> \<not> ir_desired_running r then done_with (Some (Inl RawDown))
         else do {
           now_ms \<leftarrow> ask NowCall (w_now w);
           mark_active app_id now_ms;
           woken \<leftarrow> wake app_id;
           case woken of
             None \<Rightarrow> done_with None
           | Some (Inl refusal) \<Rightarrow> done_with (Some (Inl RawRefused))
           | Some (Inr _) \<Rightarrow> do {
               found \<leftarrow> the_record app_id;
               case found of
                 None \<Rightarrow> done_with (Some (Inl RawDown))
               | Some woken \<Rightarrow>
                   (case ir_guest_ipv4 woken of
                      None \<Rightarrow> done_with (Some (Inl RawDown))
                    | Some guest_ipv4 \<Rightarrow>
                        if parses_as_ip guest_ipv4 then done_with (Some (Inr (woken, guest_ipv4)))
                        else done_with (Some (Inl RawUnreachable)))
             }
         }
   }"

text \<open>
  A guest is dialled until it answers, refuses otherwise than by refusing, or the deadline is over.
  The attempts are their moments with what came of them.
\<close>

datatype dial_answer = DialConnected | DialRefused | DialFailed

fun dial_until :: "nat \<Rightarrow> (nat \<times> dial_answer) list \<Rightarrow> bool option" where
  "dial_until deadline [] = None"
| "dial_until deadline ((now, DialConnected) # attempts) = Some True"
| "dial_until deadline ((now, DialRefused) # attempts) = (if now < deadline then dial_until deadline attempts else Some False)"
| "dial_until deadline ((now, DialFailed) # attempts) = Some False"

section \<open>Datagram sessions\<close>

text \<open>
  A datagram port: the clients it has a socket for, each with its name, and those sockets whose replies
  are still carried back. What happens to a datagram is where it went and whether the app was woken.
\<close>

record datagram_port =
  dp_sessions :: "(string \<times> nat) list"
  dp_relaying :: "nat list"
  dp_made :: nat

datatype datagram_fate = SentOn nat | WokenFor nat | LostWith raw_outcome

record datagram_net =
  dn_bind :: bool
  dn_connect :: bool
  dn_send :: bool

definition receive_datagram ::
  "datagram_net \<Rightarrow> raw_outcome option \<Rightarrow> string \<Rightarrow> datagram_port \<Rightarrow> datagram_fate \<times> datagram_port" where
  "receive_datagram net upstream client port =
     (case map_of (dp_sessions port) client of
        Some guest \<Rightarrow> (SentOn guest, port)
      | None \<Rightarrow>
          (case upstream of
             Some outcome \<Rightarrow> (LostWith outcome, port)
           | None \<Rightarrow>
               if \<not> dn_bind net \<or> \<not> dn_connect net \<or> \<not> dn_send net then (LostWith RawUnreachable, port)
               else (WokenFor (dp_made port),
                     \<lparr>dp_sessions = (client, dp_made port) # dp_sessions port, dp_relaying = dp_made port # dp_relaying port,
                      dp_made = dp_made port + 1\<rparr>)))"

text \<open>The task that carries replies ends when none came for a minute, or when one could not be sent.\<close>

definition relay_ends :: "nat \<Rightarrow> datagram_port \<Rightarrow> datagram_port" where
  "relay_ends guest port = port\<lparr>dp_relaying := remove1 guest (dp_relaying port)\<rparr>"

inductive datagram_step :: "datagram_port \<Rightarrow> datagram_port \<Rightarrow> bool" where
  arrives: "datagram_step port (snd (receive_datagram net upstream client port))"
| quiet: "datagram_step port (relay_ends guest port)"


section \<open>Listeners follow their bindings\<close>

lemma fold_binds_lookup:
  assumes "distinct (map fst wanted)"
  shows "map_of (fold (\<lambda>(key, binding) kept. if map_of kept key \<noteq> None \<or> \<not> binds key binding then kept else bt_insert key binding kept)
      wanted kept) key =
    (case map_of kept key of
       Some listener \<Rightarrow> Some listener
     | None \<Rightarrow> (case map_of wanted key of Some binding \<Rightarrow> if binds key binding then Some binding else None | None \<Rightarrow> None))"
  using assms
proof (induction wanted arbitrary: kept)
  case (Cons entry wanted)
  moreover from Cons.prems have "map_of wanted (fst entry) = None" by (simp add: map_of_eq_None_iff)
  ultimately show ?case by (cases entry) (auto split: option.splits)
qed (simp split: option.split)

lemma serve_listeners_lookup:
  assumes "bt_wf wanted" "bt_wf listeners"
  shows "map_of (serve_listeners same binds wanted listeners) key =
    (case map_of wanted key of
       None \<Rightarrow> None
     | Some binding \<Rightarrow>
         (case map_of listeners key of
            Some listener \<Rightarrow> if same binding listener then Some listener else if binds key binding then Some binding else None
          | None \<Rightarrow> if binds key binding then Some binding else None))"
  unfolding serve_listeners_def fold_binds_lookup [OF bt_wf_distinct [OF assms(1)]] map_of_filter_wf [OF assms(2)]
  by (cases "map_of wanted key"; cases "map_of listeners key") simp_all

text \<open>
  Listeners follow their bindings. After an activator for HTTP or streams was given its bindings,
  each of its listeners is on the port a binding asks for and leads to the port it names, and every
  binding has its listener, kept or newly bound, unless its address could not be bound.
\<close>

lemma listeners_follow_their_bindings:
  assumes "bt_wf http" "bt_wf streams"
  shows "(map_of (serve_http binds_http asked http) app_id = Some port \<longleftrightarrow>
      map_of (bt_collect asked) app_id = Some port \<and> (map_of http app_id = Some port \<or> binds_http app_id port)) \<and>
    (map_of (serve_streams binds bindings streams) key = Some ports \<longleftrightarrow>
      map_of (wanted_bindings bindings) key = Some ports \<and> (map_of streams key = Some ports \<or> binds key ports))"
  using assms
  by (auto simp: serve_http_def serve_streams_def serve_listeners_lookup wanted_bindings_def split: option.splits if_splits)

definition sample_binding :: "host_port \<Rightarrow> stream_binding" where
  "sample_binding host_port = \<lparr>sb_app_id = ''app-a'', sb_name = ''dns'', sb_host_port = host_port, sb_guest_port = 53\<rparr>"

lemma sample_binding_wanted: "map_of (wanted_bindings [sample_binding port]) (''app-a'', ''dns'') = Some (port, 53)"
  by (simp add: wanted_bindings_def sample_binding_def binding_key_def)

text \<open>
  A datagram listener is kept as long as its guest port stays, so one whose host port has moved stays
  where it was, and the port the binding asks for is not listened on.
\<close>

lemma datagram_listeners_stay_behind:
  assumes "bt_wf listeners" "map_of listeners key = Some (host_port, guest_port)"
    and "map_of (wanted_bindings bindings) key = Some (moved, guest_port)"
  shows "map_of (serve_datagrams binds bindings listeners) key = Some (host_port, guest_port)"
  using assms by (simp add: serve_datagrams_def serve_listeners_lookup wanted_bindings_def)

lemma datagram_listener_left_behind:
  "map_of (serve_datagrams (\<lambda>key ports. True) [sample_binding 21002] [((''app-a'', ''dns''), (21001, 53))]) (''app-a'', ''dns'') = Some (21001, 53)"
  by (rule datagram_listeners_stay_behind [OF _ _ sample_binding_wanted]) (simp_all add: bt_wf_def)

section \<open>Datagram sessions\<close>

definition sessions_inv :: "datagram_port \<Rightarrow> bool" where
  "sessions_inv port \<longleftrightarrow> (\<forall>(client, guest) \<in> set (dp_sessions port). guest < dp_made port) \<and> distinct (dp_relaying port) \<and>
     (\<forall>guest \<in> set (dp_relaying port). guest < dp_made port)"

definition session_silent :: "string \<Rightarrow> nat \<Rightarrow> datagram_port \<Rightarrow> bool" where
  "session_silent client guest port \<longleftrightarrow>
     map_of (dp_sessions port) client = Some guest \<and> guest \<notin> set (dp_relaying port) \<and> guest < dp_made port"

lemma sessions_inv_step: "datagram_step port port' \<Longrightarrow> sessions_inv port \<Longrightarrow> sessions_inv port'"
  by (induction rule: datagram_step.induct)
    (fastforce simp: sessions_inv_def receive_datagram_def relay_ends_def split: option.splits dest: notin_set_remove1)+

lemma session_silent_step: "datagram_step port port' \<Longrightarrow> session_silent client guest port \<Longrightarrow> session_silent client guest port'"
  by (induction rule: datagram_step.induct)
    (auto simp: session_silent_def receive_datagram_def relay_ends_def split: option.splits dest: notin_set_remove1)

definition no_sessions :: datagram_port where
  "no_sessions = \<lparr>dp_sessions = [], dp_relaying = [], dp_made = 0\<rparr>"

text \<open>
  A datagram session is never opened anew. Once the replies to a client are no longer carried back,
  which a minute without one brings about, every later datagram of that client goes to the guest its
  session was opened for, with no wake of the app and no way back for an answer.
\<close>

lemma silent_sessions_stay_silent:
  assumes "datagram_step\<^sup>*\<^sup>* no_sessions port" "map_of (dp_sessions port) client = Some guest"
    and "datagram_step\<^sup>*\<^sup>* (relay_ends guest port) port'"
  shows "fst (receive_datagram net upstream client port') = SentOn guest \<and> guest \<notin> set (dp_relaying port')"
proof -
  have "sessions_inv no_sessions" by (simp add: sessions_inv_def no_sessions_def)
  with assms(1) have inv: "sessions_inv port" by (induction rule: rtranclp_induct) (auto intro: sessions_inv_step)
  then have "guest < dp_made port" using map_of_SomeD [OF assms(2)] by (auto simp: sessions_inv_def)
  with inv assms(2) have "session_silent client guest (relay_ends guest port)"
    by (simp add: session_silent_def relay_ends_def sessions_inv_def)
  with assms(3) have "session_silent client guest port'" by (induction rule: rtranclp_induct) (auto intro: session_silent_step)
  then show ?thesis by (simp add: session_silent_def receive_datagram_def)
qed

section \<open>Requests that are handed over\<close>

definition marked :: "world \<Rightarrow> app_id \<Rightarrow> host \<Rightarrow> host" where
  "marked w app_id s = final (do { now_ms \<leftarrow> ask NowCall (w_now w); mark_active app_id now_ms }) s"

lemma marked_snapshot:
  "hs_records (h_snapshot (marked w a s)) = hs_records (h_snapshot s)"
  "hs_snapshotting (h_snapshot (marked w a s)) = hs_snapshotting (h_snapshot s)"
  by (simp_all add: marked_def mark_active_def change_def)

lemma hand_over_same: "final (hand_over lib web client a request) s = s"
  by (auto simp: hand_over_def the_record_def split: option.split prod.split)

lemma hand_over_served:
  assumes "result (hand_over lib web client a request) s = (response, AnsweredServed, calls)" "call \<in> set calls"
  shows "\<exists>woken guest_ipv4. map_of (hs_records (h_snapshot s)) a = Some woken \<and> ir_guest_ipv4 woken = Some guest_ipv4 \<and>
    call = PooledCall client (forwarded_request lib web request guest_ipv4 (ir_http_port woken))"
proof -
  obtain woken guest_ipv4 held where found: "map_of (hs_records (h_snapshot s)) a = Some woken" "ir_guest_ipv4 woken = Some guest_ipv4"
    "\<not> headers_contain (rq_headers request) ''upgrade''"
    "forward lib web client request guest_ipv4 (ir_http_port woken) False = (response, calls, held)"
    using assms(1) by (auto simp: hand_over_def the_record_def split: option.splits if_splits prod.splits)
  have "\<not> upgrade_requested lib request" using found(3) by (simp add: upgrade_requested_def)
  with found forward_calls [OF found(4) assms(2)] show ?thesis by auto
qed

lemma refused_reply_None:
  "refused_reply answer = None \<longleftrightarrow> answer = Inr () \<or> (\<exists>reason. answer = Inl (WakeFailed NeverAnswered reason))"
  by (cases answer rule: refused_reply.cases) auto

lemma refused_reply_served: "refused_reply answer \<noteq> Some (response, AnsweredServed, calls)"
  by (cases answer rule: refused_reply.cases) auto

text \<open>The wake within an answer, if there is one.\<close>

definition wake_part :: "(string \<Rightarrow> nat \<Rightarrow> bool) \<Rightarrow> (app_id \<Rightarrow> wake_answer option act) \<Rightarrow> app_id \<Rightarrow> instance_record \<Rightarrow> ipv4_address \<Rightarrow>
    host \<Rightarrow> wake_answer option act" where
  "wake_part accepts wake a r guest_ipv4 s =
     (if record_is_idle r \<or> a \<in> hs_snapshotting (h_snapshot s) \<or> \<not> accepts guest_ipv4 (ir_http_port r)
      then wake a else done_with (Some (Inr ())))"

lemma activator_answer_run:
  assumes "map_of (hs_records (h_snapshot s)) a = Some r" "ir_desired_running r" "ir_guest_ipv4 r = Some guest_ipv4"
  shows "result (activator_answer lib web w accepts wake client a request) s =
      (case result (wake_part accepts wake a r guest_ipv4 s) (marked w a s) of
         None \<Rightarrow> None
       | Some answer \<Rightarrow>
           (case refused_reply answer of
              Some reply \<Rightarrow> Some reply
            | None \<Rightarrow> Some (result (hand_over lib web client a request) (final (wake_part accepts wake a r guest_ipv4 s) (marked w a s)))))"
    "final (activator_answer lib web w accepts wake client a request) s = final (wake_part accepts wake a r guest_ipv4 s) (marked w a s)"
  using assms
  by (auto simp: activator_answer_def wake_part_def marked_def the_record_def the_snapshot_def mark_active_def hand_over_same
      split: option.split)

lemma activator_answer_refused:
  assumes "\<not> (\<exists>r guest_ipv4. map_of (hs_records (h_snapshot s)) a = Some r \<and> ir_desired_running r \<and> ir_guest_ipv4 r = Some guest_ipv4)"
  shows "final (activator_answer lib web w accepts wake client a request) s = s"
    "result (activator_answer lib web w accepts wake client a request) s \<noteq> Some (response, AnsweredServed, calls)"
  using assms by (auto simp: activator_answer_def the_record_def split: option.splits)


definition awake_host :: host where
  "awake_host = fresh_host\<lparr>h_snapshot := default_snapshot\<lparr>hs_records := [(''app-a'', sample_record)]\<rparr>\<rparr>"

definition plain_visit :: http_request where
  "plain_visit =
     \<lparr>rq_method = ''GET'', rq_version = Http11,
      rq_uri = \<lparr>uri_authority = None, uri_host = None, uri_path = ''/'', uri_path_and_query = Some ''/''\<rparr>,
      rq_headers = (\<lambda>name. []), rq_body = []\<rparr>"

definition plain_web :: upstream_world where
  "plain_web =
     \<lparr>uw_build_uri = (\<lambda>scheme authority path. None), uw_request = (\<lambda>client request. None), uw_connect = (\<lambda>host port. True),
      uw_handshake = (\<lambda>host port. True), uw_send_request = (\<lambda>host port request. None)\<rparr>"

lemma awake_visit:
  "result (activator_answer sample_library plain_web calm_world (\<lambda>host port. True) (wake_boot 0 calm_world sample_host_config) 0
      ''app-a'' plain_visit) awake_host =
     Some (could_not_be_reached, AnsweredServed, [PooledCall 0 (forwarded_request sample_library plain_web plain_visit ''10.201.0.2'' 3000)])"
proof -
  have r: "map_of (hs_records (h_snapshot awake_host)) ''app-a'' = Some sample_record" "ir_guest_ipv4 sample_record = Some ''10.201.0.2''"
    "ir_http_port sample_record = 3000" "hs_snapshotting (h_snapshot awake_host) = {}"
    by (simp_all add: awake_host_def sample_record_def sample_fields_def default_snapshot_def record_new_def)
  have "wake_part (\<lambda>host port. True) wake ''app-a'' sample_record ''10.201.0.2'' awake_host = done_with (Some (Inr ()))" for wake
    by (simp add: wake_part_def r record_is_idle_def)
  moreover have "result (hand_over sample_library plain_web 0 ''app-a'' plain_visit) (marked calm_world ''app-a'' awake_host) =
      (could_not_be_reached, AnsweredServed, [PooledCall 0 (forwarded_request sample_library plain_web plain_visit ''10.201.0.2'' 3000)])"
    by (simp add: hand_over_def the_record_def marked_snapshot r forward_def upgrade_requested_def plain_visit_def plain_web_def
        headers_contain_def)
  ultimately show ?thesis
    using activator_answer_run(1) [OF r(1) _ r(2), of sample_library plain_web calm_world "\<lambda>host port. True"] by simp
qed


section \<open>What the activators rely on\<close>

lemma raw_upstream_run:
  assumes "map_of (hs_records (h_snapshot s)) a = Some r" "ir_on_request r" "ir_desired_running r"
  shows "final (raw_upstream w wake a) s = final (wake a) (marked w a s)"
  using assms by (auto simp: raw_upstream_def the_record_def marked_def mark_active_def split: option.split sum.split)

text \<open>
  The waker as its clients see it: the trace grows by what it does, and it asks the hypervisor to bring
  up a guest only where that is admitted, which neither the marks of activity nor the trace decide.
\<close>

locale waker =
  fixes wake :: "app_id \<Rightarrow> wake_answer option act" and admitted :: "app_id \<Rightarrow> host \<Rightarrow> bool"
  assumes wake_grows: "\<exists>calls. h_trace (final (wake a) s) = h_trace s @ calls"
    and wake_admitted: "h_trace (final (wake a) s) = h_trace s @ calls \<Longrightarrow> c \<in> set calls \<Longrightarrow> starts_a_guest c \<Longrightarrow> admitted a s"
    and admitted_marked: "admitted a (marked w b s) \<longleftrightarrow> admitted a s"
begin

lemma wake_starts:
  assumes "c \<in> set (drop (length (h_trace s)) (h_trace (final (wake a) (marked w a s))))" "starts_a_guest c"
  shows "admitted a s"
proof -
  obtain calls where "h_trace (final (wake a) (marked w a s)) = h_trace (marked w a s) @ calls" using wake_grows by blast
  moreover have "h_trace (marked w a s) = h_trace s @ [NowCall]" by (simp add: marked_def mark_active_def)
  ultimately show ?thesis
    using assms wake_admitted [of a "marked w a s" calls c] admitted_marked by auto
qed

lemma marked_starts: "c \<in> set (drop (length (h_trace s)) (h_trace (marked w a s))) \<Longrightarrow> \<not> starts_a_guest c"
  by (simp add: marked_def mark_active_def)

lemma activator_starts:
  assumes "c \<in> set (drop (length (h_trace s)) (h_trace (final (activator_answer lib web w accepts wake client a request) s)))"
    and "starts_a_guest c"
  shows "admitted a s \<and> (\<exists>r. map_of (hs_records (h_snapshot s)) a = Some r \<and> ir_desired_running r)"
proof (cases "\<exists>r guest_ipv4. map_of (hs_records (h_snapshot s)) a = Some r \<and> ir_desired_running r \<and> ir_guest_ipv4 r = Some guest_ipv4")
  case True
  then obtain r guest_ipv4 where r: "map_of (hs_records (h_snapshot s)) a = Some r" "ir_desired_running r" "ir_guest_ipv4 r = Some guest_ipv4"
    by blast
  then show ?thesis
    using assms wake_starts marked_starts by (auto simp: activator_answer_run(2) [OF r] wake_part_def split: if_splits)
next
  case False
  then show ?thesis using assms by (simp add: activator_answer_refused(1))
qed

lemma raw_upstream_starts:
  assumes "c \<in> set (drop (length (h_trace s)) (h_trace (final (raw_upstream w wake a) s)))" "starts_a_guest c"
  shows "admitted a s \<and> (\<exists>r. map_of (hs_records (h_snapshot s)) a = Some r \<and> ir_on_request r \<and> ir_desired_running r)"
proof -
  have "final (raw_upstream w wake a) s = s"
    if "\<not> (\<exists>r. map_of (hs_records (h_snapshot s)) a = Some r \<and> ir_on_request r \<and> ir_desired_running r)"
    using that by (auto simp: raw_upstream_def the_record_def split: option.split)
  with assms raw_upstream_run wake_starts show ?thesis by (metis drop_all empty_iff empty_set order_refl)
qed

end

definition wake_is_admitted :: "host_config \<Rightarrow> app_id \<Rightarrow> host \<Rightarrow> bool" where
  "wake_is_admitted config a s \<longleftrightarrow>
     (\<exists>wanted. result (desired_for a) s = Some wanted \<and> di_app_id wanted = a \<and> di_desired_state wanted = DesiredOnRequest \<and>
        hs_isolated (h_snapshot s) \<and>
        committed_memory_mib (committed_resources
          (filter (\<lambda>r. ir_app_id r \<noteq> a) (bt_values (hs_records (h_snapshot s))))) +
          res_memory_mib (ac_resources (di_config wanted)) \<le> cf_guest_memory_mib config)"

definition trace_frame :: "host \<Rightarrow> host \<Rightarrow> bool" where
  "trace_frame s t \<longleftrightarrow> (\<exists>calls. h_trace t = h_trace s @ calls)"

interpretation grow: frame trace_frame
  by unfold_locales (auto simp: trace_frame_def)

lemma grow_of_still: "still.keeps m \<Longrightarrow> grow.keeps m"
  by (auto simp: still.keeps_def grow.keeps_def still_frame_def trace_frame_def)

lemma grow_of_keep: "keep.keeps m \<Longrightarrow> grow.keeps m"
  by (auto simp: keep.keeps_def grow.keeps_def host_frame_def trace_frame_def)

lemma grow_leaves [frame_rules]:
  "grow.keeps (desired_for a)" "grow.keeps the_snapshot" "grow.keeps (hold fuel w a wanted)" "grow.keeps (await_ready fuel w a)"
  "grow.keeps (refusal_for_room config a res)" "grow.keeps (update_record a f)" "grow.keeps (resume_instance w config wanted)"
  by (rule grow_of_still; intro frame_rules)+ (rule grow_of_keep; intro frame_rules)

lemma grow_wake_refusal [frame_rules]:
  "(\<And>shortfall. grow.keeps (f shortfall)) \<Longrightarrow> (\<And>kind reason. grow.keeps (g kind reason)) \<Longrightarrow>
   grow.keeps (case refusal of NoRoom shortfall \<Rightarrow> f shortfall | WakeFailed kind reason \<Rightarrow> g kind reason)"
  by (cases refusal) auto

lemma grow_wake_boot: "grow.keeps (wake_boot fuel w config a)"
  unfolding wake_boot_def by (intro frame_rules)

interpretation wk: waker "wake_boot fuel w config" "wake_is_admitted config" for fuel w config
proof
  show "\<exists>calls. h_trace (final (wake_boot fuel w config a) s) = h_trace s @ calls" for a s
    using grow.keepsD [OF grow_wake_boot] by (simp add: trace_frame_def)
  show "wake_is_admitted config a s"
    if "h_trace (final (wake_boot fuel w config a) s) = h_trace s @ calls" "c \<in> set calls" "starts_a_guest c" for a s calls c
    unfolding wake_is_admitted_def by (rule wake_admission [OF that])
  show "wake_is_admitted config a (marked w' b s) = wake_is_admitted config a s" for a b s w'
    by (simp add: wake_is_admitted_def desired_for_def marked_def mark_active_def change_def)
qed

text \<open>
  (C13) Traffic brings up admitted guests only. Whatever the activators for HTTP, streams and datagrams do
  with a request, they have the hypervisor boot or restore a guest only for an app that is wanted,
  that the document has started on request, on a host whose isolation is in place and with room in
  what its memory leaves.
\<close>

theorem traffic_brings_up_admitted_guests_only:
  assumes "c \<in> set (drop (length (h_trace s)) (h_trace (final
      (activator_answer lib web w accepts (wake_boot fuel w config) client a request) s))) \<or>
      c \<in> set (drop (length (h_trace s)) (h_trace (final (raw_upstream w (wake_boot fuel w config) a) s)))"
    and "starts_a_guest c"
  shows "\<exists>r wanted. map_of (hs_records (h_snapshot s)) a = Some r \<and> ir_desired_running r \<and>
    result (desired_for a) s = Some wanted \<and> di_desired_state wanted = DesiredOnRequest \<and> hs_isolated (h_snapshot s) \<and>
    committed_memory_mib (committed_resources
      (filter (\<lambda>r. ir_app_id r \<noteq> a) (bt_values (hs_records (h_snapshot s))))) +
      res_memory_mib (ac_resources (di_config wanted)) \<le> cf_guest_memory_mib config"
proof -
  have "wake_is_admitted config a s \<and> (\<exists>r. map_of (hs_records (h_snapshot s)) a = Some r \<and> ir_desired_running r)"
    using assms(1) wk.activator_starts [of c s lib web w accepts fuel w config client a request, OF _ assms(2)]
      wk.raw_upstream_starts [of c s w fuel w config a, OF _ assms(2)] by blast
  then show ?thesis unfolding wake_is_admitted_def by blast
qed

definition sleeping_record :: instance_record where
  "sleeping_record = sample_record\<lparr>ir_app_id := ''app-1'', ir_state := IsIdle\<rparr>"

definition sleeping_host :: host where
  "sleeping_host = asleep_host\<lparr>h_snapshot := (h_snapshot asleep_host)\<lparr>hs_records := [(''app-1'', sleeping_record)]\<rparr>\<rparr>"

lemma sleeping_host_wakes:
  "\<exists>c \<in> set (h_trace (final (wake_boot 0 calm_world sample_host_config ''app-1'') (marked calm_world ''app-1'' sleeping_host))). starts_a_guest c"
proof -
  let ?t = "marked calm_world ''app-1'' sleeping_host"
  let ?r = "final (resume_instance calm_world sample_host_config sample_instance) ?t"
  let ?req = "\<lparr>sr_app_id = di_app_id sample_instance, sr_deployment_id = di_deployment_id sample_instance,
    sr_slot = the (describe_slot 0 (di_app_id sample_instance))\<rparr>"
  have same: "final (desired_for a) t = t" "final (refusal_for_room config a res) t = t" for t res a config
    by (simp_all add: desired_for_def refusal_for_room_def the_records_def Let_def)
  have found: "result (desired_for ''app-1'') ?t = Some sample_instance" "hs_isolated (h_snapshot ?t)" "h_alloc ?t = addressing 8"
    using asleep_host_facts by (simp_all add: sleeping_host_def marked_def mark_active_def desired_for_def change_def)
  have calm: "w_statuses calm_world t x = []" "w_attach calm_world t v a = Inr ''/dev/nbd0''"
    "w_wake calm_world t q = Inr ()" for t x v a q by (simp_all add: calm_world_def)
  have woken: "WakeCall ?req \<in> set (h_trace ?r)" "result (resume_instance calm_world sample_host_config sample_instance) ?t = Inr Restored"
    by (simp_all add: resume_instance_def found first_slot calm status_in_def UNKNOWN_VM_def Let_def mark_active_def)
  have asked: "di_desired_state sample_instance = DesiredOnRequest" by (simp add: sample_instance_def)
  have room: "result (refusal_for_room sample_host_config ''app-1'' (ac_resources (di_config sample_instance))) ?t = None"
    by (simp add: room_for marked_snapshot sleeping_host_def sleeping_record_def bt_values_def committed_resources_def
        committed_memory_mib_def sample_host_config_def sample_instance_def sample_config_def DEFAULT_INSTANCE_RESOURCES_def)
  have "final (wake_boot 0 calm_world sample_host_config ''app-1'') ?t = final (await_ready 0 calm_world ''app-1'') ?r"
    using woken(2) asked room by (simp add: wake_boot_def found(1,2) same the_snapshot_def)
  moreover have "set (h_trace t) \<subseteq> set (h_trace (final (await_ready 0 calm_world ''app-1'') t))" for t
    using still.keepsD [OF still_hold(2), of t 0 calm_world "''app-1''"] by (auto simp: still_frame_def)
  ultimately show ?thesis using woken(1) by (intro bexI [of _ "WakeCall ?req"]) auto
qed

theorem traffic_brings_up_admitted_guests_only_witness:
  "\<exists>c \<in> set (h_trace (final (raw_upstream calm_world (wake_boot 0 calm_world sample_host_config) ''app-1'') sleeping_host)).
     starts_a_guest c \<and> hs_isolated (h_snapshot sleeping_host)"
proof -
  have "map_of (hs_records (h_snapshot sleeping_host)) ''app-1'' = Some sleeping_record" "ir_on_request sleeping_record"
    "ir_desired_running sleeping_record" by (simp_all add: sleeping_host_def sleeping_record_def)
  note run = raw_upstream_run [OF this]
  from sleeping_host_wakes obtain c where c: "starts_a_guest c"
    "c \<in> set (h_trace (final (raw_upstream calm_world (wake_boot 0 calm_world sample_host_config) ''app-1'') sleeping_host))" unfolding run by blast
  moreover have "h_trace sleeping_host = []" by (simp add: sleeping_host_def asleep_host_facts)
  ultimately show ?thesis
    using traffic_brings_up_admitted_guests_only [of c sleeping_host sample_library plain_web calm_world "\<lambda>host port. True" 0
        sample_host_config 0 "''app-1''" plain_visit] by auto
qed

end
