(* ===== verification/Concurrency.thy ===== *)
theory Concurrency
  imports Domain
begin

text \<open>
  How many requests a host carries at once (\<open>adapters/proxy/concurrency.rs\<close>): a semaphore of the host
  and one for each app, a permit of both for every request, and the apps that are forgotten when the
  routes change. Shown: whatever requests come and go and however often routes are dropped and come
  back, no more requests are under way than the host allows, nor for any app than an app may have.
\<close>

section \<open>The limiter\<close>

record http_concurrency =
  hc_host_concurrent :: nat
  hc_app_concurrent :: nat

text \<open>The permits a semaphore has left.\<close>

record concurrency_limiter =
  cl_limits :: http_concurrency
  cl_host :: nat
  cl_apps :: "(app_id, nat) btree"

definition new_limiter :: "http_concurrency \<Rightarrow> concurrency_limiter" where
  "new_limiter limits = \<lparr>cl_limits = limits, cl_host = hc_host_concurrent limits, cl_apps = []\<rparr>"

definition permits_left :: "app_id \<Rightarrow> concurrency_limiter \<Rightarrow> nat" where
  "permits_left app limiter =
     (case map_of (cl_apps limiter) app of Some permits \<Rightarrow> permits | None \<Rightarrow> hc_app_concurrent (cl_limits limiter))"

text \<open>A permit of the host that goes with no permit of the app is given back at once.\<close>

definition limiter_acquire :: "app_id \<Rightarrow> concurrency_limiter \<Rightarrow> bool \<times> concurrency_limiter" where
  "limiter_acquire app limiter =
     (if cl_host limiter = 0 then (False, limiter)
      else let permits = permits_left app limiter
           in if permits = 0 then (False, limiter\<lparr>cl_apps := bt_insert app permits (cl_apps limiter)\<rparr>)
              else (True, limiter\<lparr>cl_host := cl_host limiter - 1, cl_apps := bt_insert app (permits - 1) (cl_apps limiter)\<rparr>))"

text \<open>A permit that is dropped goes back to the semaphores it came from.\<close>

definition limiter_release :: "app_id \<Rightarrow> concurrency_limiter \<Rightarrow> concurrency_limiter" where
  "limiter_release app limiter =
     limiter\<lparr>cl_host := cl_host limiter + 1, cl_apps := bt_modify app (\<lambda>permits. permits + 1) (cl_apps limiter)\<rparr>"

text \<open>A semaphore is shared by the permits taken from it: one that has all its permits has one owner.\<close>

definition limiter_keep_only :: "app_id set \<Rightarrow> concurrency_limiter \<Rightarrow> concurrency_limiter" where
  "limiter_keep_only wanted limiter =
     limiter\<lparr>cl_apps := filter (\<lambda>(app, permits). app \<in> wanted \<or> permits < hc_app_concurrent (cl_limits limiter)) (cl_apps limiter)\<rparr>"

section \<open>Requests that come and go\<close>

text \<open>The limiter with the apps of the requests under way.\<close>

inductive requests_reachable :: "http_concurrency \<Rightarrow> app_id list \<Rightarrow> concurrency_limiter \<Rightarrow> bool" for limits where
  idle: "requests_reachable limits [] (new_limiter limits)"
| taken: "requests_reachable limits live limiter \<Longrightarrow> limiter_acquire app limiter = (True, after) \<Longrightarrow>
    requests_reachable limits (app # live) after"
| refused: "requests_reachable limits live limiter \<Longrightarrow> limiter_acquire app limiter = (False, after) \<Longrightarrow>
    requests_reachable limits live after"
| finished: "requests_reachable limits (before @ app # others) limiter \<Longrightarrow>
    requests_reachable limits (before @ others) (limiter_release app limiter)"
| routed: "requests_reachable limits live limiter \<Longrightarrow> requests_reachable limits live (limiter_keep_only wanted limiter)"

definition limiter_inv :: "http_concurrency \<Rightarrow> app_id list \<Rightarrow> concurrency_limiter \<Rightarrow> bool" where
  "limiter_inv limits live limiter \<longleftrightarrow>
     cl_limits limiter = limits \<and> bt_wf (cl_apps limiter) \<and> cl_host limiter + length live = hc_host_concurrent limits \<and>
     (\<forall>app. permits_left app limiter + count_list live app = hc_app_concurrent limits) \<and>
     (\<forall>app. map_of (cl_apps limiter) app = None \<longrightarrow> count_list live app = 0)"

lemma permits_after:
  "limiter_acquire app limiter = (True, after) \<Longrightarrow>
     permits_left other after = (if other = app then permits_left app limiter - 1 else permits_left other limiter)"
  "limiter_acquire app limiter = (False, after) \<Longrightarrow> permits_left other after = permits_left other limiter"
  "map_of (cl_apps limiter) app \<noteq> None \<Longrightarrow>
     permits_left other (limiter_release app limiter) = (if other = app then permits_left app limiter + 1 else permits_left other limiter)"
  by (auto simp: limiter_acquire_def limiter_release_def permits_left_def Let_def split: if_splits option.splits)

lemma apps_after:
  "limiter_acquire app limiter = (taken, after) \<Longrightarrow> map_of (cl_apps after) other = None \<Longrightarrow> map_of (cl_apps limiter) other = None"
  "limiter_acquire app limiter = (True, after) \<Longrightarrow> map_of (cl_apps after) app \<noteq> None"
  by (auto simp: limiter_acquire_def Let_def split: if_splits)

lemma limiter_keep_only_inv:
  assumes "limiter_inv limits live limiter"
  shows "limiter_inv limits live (limiter_keep_only wanted limiter)"
proof -
  let ?after = "limiter_keep_only wanted limiter"
  have app: "permits_left app ?after = permits_left app limiter \<and>
      (map_of (cl_apps ?after) app = None \<longrightarrow> count_list live app = 0)" for app
  proof (cases "map_of (cl_apps limiter) app")
    case (Some permits)
    have "permits + count_list live app = hc_app_concurrent limits" "cl_limits limiter = limits" "bt_wf (cl_apps limiter)"
      using assms Some by (auto simp: limiter_inv_def permits_left_def dest!: spec [of _ app])
    with Some show ?thesis
      by (auto simp: permits_left_def limiter_keep_only_def map_of_filter_wf)
  qed (use assms in \<open>auto simp: permits_left_def limiter_keep_only_def limiter_inv_def map_of_filter_wf\<close>)
  moreover have "cl_limits ?after = cl_limits limiter" "cl_host ?after = cl_host limiter" "bt_wf (cl_apps ?after)"
    using assms by (simp_all add: limiter_keep_only_def limiter_inv_def bt_wf_filter)
  ultimately show ?thesis using assms by (simp add: limiter_inv_def)
qed

lemma requests_reachable_inv: "requests_reachable limits live limiter \<Longrightarrow> limiter_inv limits live limiter"
proof (induction rule: requests_reachable.induct)
  case idle
  show ?case by (simp add: limiter_inv_def new_limiter_def permits_left_def)
next
  case (taken live limiter app after)
  have "0 < cl_host limiter" "0 < permits_left app limiter" "cl_limits after = cl_limits limiter"
    "cl_host after = cl_host limiter - 1" "bt_wf (cl_apps after)"
    using taken by (auto simp: limiter_acquire_def limiter_inv_def Let_def split: if_splits)
  with taken.IH permits_after(1) [OF taken.hyps(2)] apps_after [OF taken.hyps(2)] show ?case
    by (auto simp: limiter_inv_def dest!: spec [of _ app])
next
  case (refused live limiter app after)
  have "cl_limits after = cl_limits limiter" "cl_host after = cl_host limiter" "bt_wf (cl_apps after)"
    using refused by (auto simp: limiter_acquire_def limiter_inv_def Let_def split: if_splits)
  with refused.IH permits_after(2) [OF refused.hyps(2)] apps_after(1) [OF refused.hyps(2)] show ?case
    by (simp add: limiter_inv_def)
next
  case (finished before app others limiter)
  let ?after = "limiter_release app limiter"
  have held: "map_of (cl_apps limiter) app \<noteq> None"
    using finished.IH by (auto simp: limiter_inv_def dest!: spec [of _ app])
  have "cl_limits ?after = cl_limits limiter" "cl_host ?after = cl_host limiter + 1" "bt_wf (cl_apps ?after)"
    using finished.IH by (simp_all add: limiter_release_def limiter_inv_def)
  moreover have "map_of (cl_apps limiter) other = None" if "map_of (cl_apps ?after) other = None" for other
    using that by (auto simp: limiter_release_def split: if_splits)
  moreover have "permits_left other ?after + count_list (before @ others) other = hc_app_concurrent limits" for other
    using finished.IH permits_after(3) [OF held, of other]
    by (auto simp: limiter_inv_def dest!: spec [of _ other] split: if_splits)
  moreover have "count_list (before @ others) other = 0" if "map_of (cl_apps ?after) other = None" for other
    using finished.IH that calculation(4) [OF that]
    by (auto simp: limiter_inv_def dest!: spec [of _ other] split: if_splits)
  ultimately show ?case
    using finished.IH by (auto simp: limiter_inv_def)
next
  case (routed live limiter wanted)
  then show ?case by (simp add: limiter_keep_only_inv)
qed

text \<open>
  (C30) The limits on requests hold. Whatever requests were taken, refused and finished, and however
  the routes changed meanwhile, no more are under way than the host allows, for no app more than an
  app may have; and a request of an app is refused only when one of the two limits is reached.
\<close>

theorem requests_stay_within_their_limits:
  assumes "requests_reachable limits live limiter"
  shows "length live \<le> hc_host_concurrent limits \<and> count_list live app \<le> hc_app_concurrent limits \<and>
    (fst (limiter_acquire app limiter) \<longleftrightarrow> length live < hc_host_concurrent limits \<and> count_list live app < hc_app_concurrent limits)"
proof -
  have inv: "cl_limits limiter = limits" "cl_host limiter + length live = hc_host_concurrent limits"
    "permits_left app limiter + count_list live app = hc_app_concurrent limits"
    using requests_reachable_inv [OF assms] by (simp_all add: limiter_inv_def)
  then show ?thesis
    by (auto simp: limiter_acquire_def Let_def)
qed

definition sample_limits :: http_concurrency where
  "sample_limits = \<lparr>hc_host_concurrent = 2, hc_app_concurrent = 1\<rparr>"

theorem requests_stay_within_their_limits_witness:
  "\<exists>limiter. requests_reachable sample_limits [''app-a''] limiter \<and> \<not> fst (limiter_acquire ''app-a'' limiter) \<and>
     fst (limiter_acquire ''app-b'' limiter)"
proof -
  let ?limiter = "limiter_keep_only {} (snd (limiter_acquire ''app-a'' (new_limiter sample_limits)))"
  have "limiter_acquire ''app-a'' (new_limiter sample_limits) = (True, snd (limiter_acquire ''app-a'' (new_limiter sample_limits)))"
    by (simp add: limiter_acquire_def new_limiter_def sample_limits_def permits_left_def Let_def)
  from routed [OF taken [OF idle this], of "{}"] have reachable: "requests_reachable sample_limits [''app-a''] ?limiter" .
  with requests_stay_within_their_limits [OF reachable, of "''app-a''"] requests_stay_within_their_limits [OF reachable, of "''app-b''"]
  show ?thesis by (intro exI [of _ ?limiter]) (simp add: sample_limits_def)
qed

end
