(* ===== verification/HttpLog.thy ===== *)
theory HttpLog
  imports Domain
begin

text \<open>
  The log of the requests an app was sent (\<open>adapters/proxy/http_log.rs\<close>): the scopes the proxy opens,
  the queue to the thread that writes, the files it keeps and what is left when an app is removed.
  The cells shared between the proxy and the writer are an explicit store; the file system and the
  encoding of a record as JSON are parameters. Shown: nothing that was asked of an app before its
  removal is in its files afterwards, in whatever order the threads run, and the files stay small.
\<close>

section \<open>Records and commands\<close>

definition QUEUED_RECORDS :: nat where
  "QUEUED_RECORDS = 1024"

definition BATCH_RECORDS :: nat where
  "BATCH_RECORDS = 128"

definition KEPT_BYTES_PER_APP :: nat where
  "KEPT_BYTES_PER_APP = 1024 * 1024"

record http_request_record =
  hr_at :: timestamp
  hr_method :: string
  hr_path :: string
  hr_status :: nat
  hr_duration_micros :: nat
  hr_deployment_id :: deployment_id

definition http_request_record_new ::
  "timestamp \<Rightarrow> string \<Rightarrow> string \<Rightarrow> nat \<Rightarrow> nat \<Rightarrow> deployment_id \<Rightarrow> http_request_record" where
  "http_request_record_new now method path status duration_micros deployment_id =
     \<lparr>hr_at = now, hr_method = truncate_chars method 16, hr_path = truncate_chars path 256, hr_status = status,
      hr_duration_micros = duration_micros, hr_deployment_id = deployment_id\<rparr>"

text \<open>The flag of a scope is shared with the log: its address in the store of flags.\<close>

record http_request_scope =
  sc_app_id :: app_id
  sc_active :: nat

datatype http_log_command = RecordCommand http_request_scope http_request_record | DiscardCommand app_id

section \<open>The files\<close>

text \<open>
  A line with the flag of the scope it was written for, none where an earlier process wrote it. What a
  file holds is what was handed to its buffered writer.
\<close>

type_synonym logged_line = "nat option \<times> string"

definition file_bytes :: "logged_line list \<Rightarrow> nat" where
  "file_bytes content = sum_list (map (length \<circ> snd) content)"

text \<open>The files that are open with the sizes they are known to have, the files on disk and those before them.\<close>

record http_log_writer =
  hw_files :: "(app_id, nat) btree"
  hw_current :: "app_id \<Rightarrow> logged_line list"
  hw_previous :: "app_id \<Rightarrow> logged_line list"

text \<open>What the file system answers while a record is written.\<close>

record write_answers =
  wa_open :: bool
  wa_flush :: bool
  wa_rename :: bool
  wa_reopen :: bool
  wa_write :: bool

definition writer_open :: "bool \<Rightarrow> app_id \<Rightarrow> http_log_writer \<Rightarrow> http_log_writer + http_log_writer" where
  "writer_open answered app_id w =
     (if answered then Inr (w\<lparr>hw_files := bt_insert app_id (file_bytes (hw_current w app_id)) (hw_files w)\<rparr>) else Inl w)"

definition writer_rotate :: "write_answers \<Rightarrow> app_id \<Rightarrow> nat \<Rightarrow> http_log_writer \<Rightarrow> http_log_writer + http_log_writer" where
  "writer_rotate answers app_id added w =
     (case map_of (hw_files w) app_id of
        None \<Rightarrow> Inr w
      | Some held \<Rightarrow>
          if 0 < held \<and> KEPT_BYTES_PER_APP < held + added
          then let closed = w\<lparr>hw_files := bt_remove app_id (hw_files w)\<rparr>
               in if \<not> wa_flush answers \<or> \<not> wa_rename answers then Inl closed
                  else writer_open (wa_reopen answers) app_id
                    (closed\<lparr>hw_previous := (hw_previous w)(app_id := hw_current w app_id),
                            hw_current := (hw_current w)(app_id := [])\<rparr>)
          else Inr w)"

definition writer_append :: "bool \<Rightarrow> app_id \<Rightarrow> logged_line \<Rightarrow> http_log_writer \<Rightarrow> http_log_writer" where
  "writer_append answered app_id line w =
     (if map_of (hw_files w) app_id = None \<or> \<not> answered then w
      else w\<lparr>hw_current := (hw_current w)(app_id := hw_current w app_id @ [line]),
             hw_files := bt_modify app_id (\<lambda>held. held + length (snd line)) (hw_files w)\<rparr>)"

definition writer_put :: "write_answers \<Rightarrow> app_id \<Rightarrow> logged_line \<Rightarrow> http_log_writer \<Rightarrow> http_log_writer" where
  "writer_put answers app_id line w =
     (case writer_rotate answers app_id (length (snd line)) w of
        Inl w \<Rightarrow> w
      | Inr w \<Rightarrow> writer_append (wa_write answers) app_id line w)"

definition writer_write ::
  "(http_request_record \<Rightarrow> string option) \<Rightarrow> write_answers \<Rightarrow> http_request_scope \<Rightarrow> http_request_record \<Rightarrow>
   http_log_writer \<Rightarrow> http_log_writer" where
  "writer_write encode answers scope request w =
     (case encode request of
        None \<Rightarrow> w
      | Some json \<Rightarrow>
          (let line = json @ [CHR 0x0A]; app_id = sc_app_id scope
           in case (if map_of (hw_files w) app_id = None then writer_open (wa_open answers) app_id w else Inr w) of
                Inl w \<Rightarrow> w
              | Inr w \<Rightarrow> writer_put answers app_id (Some (sc_active scope), line) w))"

text \<open>A file the file system would not remove stays.\<close>

definition writer_discard :: "bool \<Rightarrow> bool \<Rightarrow> app_id \<Rightarrow> http_log_writer \<Rightarrow> http_log_writer" where
  "writer_discard removed_current removed_previous app_id w =
     w\<lparr>hw_files := bt_remove app_id (hw_files w),
       hw_current := (if removed_current then (hw_current w)(app_id := []) else hw_current w),
       hw_previous := (if removed_previous then (hw_previous w)(app_id := []) else hw_previous w)\<rparr>"

section \<open>The log and its writer\<close>

text \<open>
  The log with the flags it has handed out, each with its app; the queue; the removals that have
  lowered the flag and wait for room in the queue; and the thread that writes, with the rest of its
  batch and the record whose flag it has read.
\<close>

record http_request_log =
  lg_apps :: "(app_id, nat) btree"
  lg_flags :: "(app_id \<times> bool) list"
  lg_dropped :: nat
  lg_queue :: "http_log_command list"
  lg_discarding :: "app_id list"
  lg_batch :: "http_log_command list"
  lg_loaded :: "(http_request_scope \<times> http_request_record) option"
  lg_writer :: http_log_writer

definition http_log_new :: "http_log_writer \<Rightarrow> http_request_log" where
  "http_log_new found =
     \<lparr>lg_apps = [], lg_flags = [], lg_dropped = 0, lg_queue = [], lg_discarding = [], lg_batch = [], lg_loaded = None,
      lg_writer = found\<lparr>hw_files := []\<rparr>\<rparr>"

definition http_log_begin :: "app_id \<Rightarrow> http_request_log \<Rightarrow> http_request_scope \<times> http_request_log" where
  "http_log_begin app_id lg =
     (case map_of (lg_apps lg) app_id of
        Some active \<Rightarrow> (\<lparr>sc_app_id = app_id, sc_active = active\<rparr>, lg)
      | None \<Rightarrow>
          (\<lparr>sc_app_id = app_id, sc_active = length (lg_flags lg)\<rparr>,
           lg\<lparr>lg_apps := bt_insert app_id (length (lg_flags lg)) (lg_apps lg), lg_flags := lg_flags lg @ [(app_id, True)]\<rparr>))"

definition http_log_record :: "http_request_scope \<Rightarrow> http_request_record \<Rightarrow> http_request_log \<Rightarrow> http_request_log" where
  "http_log_record scope request lg =
     (if length (lg_queue lg) < QUEUED_RECORDS then lg\<lparr>lg_queue := lg_queue lg @ [RecordCommand scope request]\<rparr>
      else lg\<lparr>lg_dropped := lg_dropped lg + 1\<rparr>)"

definition http_log_discard :: "app_id \<Rightarrow> http_request_log \<Rightarrow> http_request_log" where
  "http_log_discard app_id lg =
     (case map_of (lg_apps lg) app_id of
        None \<Rightarrow> lg
      | Some active \<Rightarrow>
          lg\<lparr>lg_apps := bt_remove app_id (lg_apps lg), lg_flags := (lg_flags lg)[active := (app_id, False)]\<rparr>)
     \<lparr>lg_discarding := app_id # lg_discarding lg\<rparr>"

definition http_log_send_discard :: "app_id \<Rightarrow> http_request_log \<Rightarrow> http_request_log" where
  "http_log_send_discard app_id lg =
     (if app_id \<in> set (lg_discarding lg) \<and> length (lg_queue lg) < QUEUED_RECORDS
      then lg\<lparr>lg_discarding := remove1 app_id (lg_discarding lg), lg_queue := lg_queue lg @ [DiscardCommand app_id]\<rparr>
      else lg)"

text \<open>A batch of what is there, up to its size.\<close>

definition writer_take :: "nat \<Rightarrow> http_request_log \<Rightarrow> http_request_log" where
  "writer_take n lg =
     (if lg_batch lg = [] \<and> lg_loaded lg = None \<and> n \<le> BATCH_RECORDS
      then lg\<lparr>lg_batch := take n (lg_queue lg), lg_queue := drop n (lg_queue lg)\<rparr> else lg)"

text \<open>
  The thread reads the flag of a record and then writes it: between the two the proxy may run. A
  removal takes both files.
\<close>

definition writer_step ::
  "(http_request_record \<Rightarrow> string option) \<Rightarrow> write_answers \<Rightarrow> http_request_log \<Rightarrow> http_request_log" where
  "writer_step encode answers lg =
     (case lg_loaded lg of
        Some (scope, request) \<Rightarrow>
          lg\<lparr>lg_loaded := None, lg_writer := writer_write encode answers scope request (lg_writer lg)\<rparr>
      | None \<Rightarrow>
          (case lg_batch lg of
             [] \<Rightarrow> lg
           | RecordCommand scope request # commands \<Rightarrow>
               lg\<lparr>lg_batch := commands,
                   lg_loaded := (if snd (lg_flags lg ! sc_active scope) then Some (scope, request) else None)\<rparr>
           | DiscardCommand app_id # commands \<Rightarrow>
               lg\<lparr>lg_batch := commands, lg_writer := writer_discard True True app_id (lg_writer lg)\<rparr>))"

inductive log_step :: "(http_request_record \<Rightarrow> string option) \<Rightarrow> http_request_log \<Rightarrow> http_request_log \<Rightarrow> bool" for encode where
  begins: "log_step encode lg (snd (http_log_begin app_id lg))"
| records: "sc_active scope < length (lg_flags lg) \<Longrightarrow> fst (lg_flags lg ! sc_active scope) = sc_app_id scope \<Longrightarrow>
    log_step encode lg (http_log_record scope request lg)"
| discards: "log_step encode lg (http_log_discard app_id lg)"
| sends: "log_step encode lg (http_log_send_discard app_id lg)"
| takes: "log_step encode lg (writer_take n lg)"
| writes: "log_step encode lg (writer_step encode answers lg)"

section \<open>Removed apps\<close>

definition writer_lines :: "http_log_writer \<Rightarrow> app_id \<Rightarrow> logged_line set" where
  "writer_lines w app_id = set (hw_current w app_id) \<union> set (hw_previous w app_id)"

definition discard_pending :: "app_id \<Rightarrow> http_request_log \<Rightarrow> bool" where
  "discard_pending app_id lg \<longleftrightarrow>
     app_id \<in> set (lg_discarding lg) \<or> DiscardCommand app_id \<in> set (lg_batch lg) \<union> set (lg_queue lg)"

definition scope_known :: "http_request_log \<Rightarrow> http_request_scope \<Rightarrow> bool" where
  "scope_known lg scope \<longleftrightarrow>
     sc_active scope < length (lg_flags lg) \<and> fst (lg_flags lg ! sc_active scope) = sc_app_id scope"

text \<open>A flag that is up is the one of its app, and every scope under way has a flag of its app.\<close>

definition log_inv :: "http_request_log \<Rightarrow> bool" where
  "log_inv lg \<longleftrightarrow>
     (\<forall>c < length (lg_flags lg). snd (lg_flags lg ! c) \<longrightarrow> map_of (lg_apps lg) (fst (lg_flags lg ! c)) = Some c) \<and>
     (\<forall>app_id c. map_of (lg_apps lg) app_id = Some c \<longrightarrow> c < length (lg_flags lg) \<and> fst (lg_flags lg ! c) = app_id) \<and>
     (\<forall>scope request. RecordCommand scope request \<in> set (lg_batch lg) \<union> set (lg_queue lg) \<longrightarrow> scope_known lg scope)"

text \<open>What an app has left after a removal that was begun when \<open>n\<close> flags were handed out.\<close>

definition after_discard :: "app_id \<Rightarrow> nat \<Rightarrow> http_request_log \<Rightarrow> bool" where
  "after_discard app_id n lg \<longleftrightarrow>
     n \<le> length (lg_flags lg) \<and> (\<forall>c < n. fst (lg_flags lg ! c) = app_id \<longrightarrow> \<not> snd (lg_flags lg ! c)) \<and>
     (discard_pending app_id lg \<or>
      (\<forall>line \<in> writer_lines (lg_writer lg) app_id. \<exists>c. fst line = Some c \<and> n \<le> c) \<and>
      (\<forall>scope request. lg_loaded lg = Some (scope, request) \<longrightarrow> sc_app_id scope = app_id \<longrightarrow> n \<le> sc_active scope))"

lemma writer_open_lines:
  "writer_open answered app w = Inl w' \<Longrightarrow> w' = w"
  "writer_open answered app w = Inr w' \<Longrightarrow> writer_lines w' = writer_lines w"
  by (auto simp: writer_open_def writer_lines_def fun_eq_iff split: if_splits)

lemma writer_rotate_lines:
  "writer_rotate answers app added w = Inl w' \<or> writer_rotate answers app added w = Inr w' \<Longrightarrow>
   writer_lines w' app_id \<subseteq> writer_lines w app_id"
  by (auto simp: writer_rotate_def writer_open_def writer_lines_def Let_def split: option.splits if_splits)

lemma writer_append_lines:
  "writer_lines (writer_append answered app line w) app_id \<subseteq> writer_lines w app_id \<union> (if app = app_id then {line} else {})"
  by (auto simp: writer_append_def writer_lines_def)

lemma writer_put_lines:
  "writer_lines (writer_put answers app line w) app_id \<subseteq> writer_lines w app_id \<union> (if app = app_id then {line} else {})"
  using writer_rotate_lines [of answers app "length (snd line)" w _ app_id] writer_append_lines
  by (fastforce simp: writer_put_def split: sum.splits)

lemma writer_write_lines:
  "writer_lines (writer_write encode answers scope request w) app_id \<subseteq>
   writer_lines w app_id \<union> (if sc_app_id scope = app_id then {line. fst line = Some (sc_active scope)} else {})"
proof -
  define kept where "kept = writer_lines w app_id \<union> (if sc_app_id scope = app_id then {line. fst line = Some (sc_active scope)} else {})"
  have "writer_lines (writer_put answers (sc_app_id scope) (Some (sc_active scope), line) w') app_id \<subseteq> kept"
    if "writer_lines w' = writer_lines w" for line w'
    using writer_put_lines [of answers "sc_app_id scope" "(Some (sc_active scope), line)" w' app_id] that
    by (auto simp: kept_def split: if_splits)
  moreover have "writer_lines w app_id \<subseteq> kept" by (simp add: kept_def)
  ultimately have "writer_lines (writer_write encode answers scope request w) app_id \<subseteq> kept"
    using writer_open_lines [of "wa_open answers" "sc_app_id scope" w]
    by (auto simp: writer_write_def Let_def simp del: Un_iff split: option.split sum.split)
  then show ?thesis by (simp only: kept_def)
qed

lemma lowered_flag: "snd (flags[c := (app, False)] ! d) \<Longrightarrow> flags[c := (app, False)] ! d = flags ! d \<and> snd (flags ! d)"
  by (cases "c = d"; cases "c < length flags") (auto simp: nth_list_update list_update_beyond)

lemma writer_take_simps:
  "set (lg_batch (writer_take n lg)) \<union> set (lg_queue (writer_take n lg)) = set (lg_batch lg) \<union> set (lg_queue lg)"
  "lg_flags (writer_take n lg) = lg_flags lg" "lg_apps (writer_take n lg) = lg_apps lg"
  "lg_discarding (writer_take n lg) = lg_discarding lg" "lg_loaded (writer_take n lg) = lg_loaded lg"
  "lg_writer (writer_take n lg) = lg_writer lg"
  by (auto simp: writer_take_def set_append [symmetric] simp del: set_append)

lemma log_inv_step: "log_step encode lg lg' \<Longrightarrow> log_inv lg \<Longrightarrow> log_inv lg'"
proof (induction rule: log_step.induct)
  case (begins lg app_id)
  then show ?case
    by (auto simp: log_inv_def http_log_begin_def scope_known_def nth_append less_Suc_eq split: option.splits)
next
  case (discards lg app_id)
  then show ?case
    by (auto simp: log_inv_def http_log_discard_def scope_known_def nth_list_update split: option.splits if_splits) metis+
next
  case (takes lg n)
  then show ?case by (simp only: log_inv_def scope_known_def writer_take_simps)
next
  case (writes lg answers)
  then show ?case
    by (auto simp: log_inv_def writer_step_def scope_known_def split: option.splits list.splits http_log_command.splits)
qed (auto simp: log_inv_def http_log_record_def http_log_send_discard_def scope_known_def)

lemma after_discard_step: "log_step encode lg lg' \<Longrightarrow> log_inv lg \<Longrightarrow> after_discard app_id n lg \<Longrightarrow> after_discard app_id n lg'"
proof (induction rule: log_step.induct)
  case (begins lg app)
  then show ?case
    by (auto simp: after_discard_def http_log_begin_def discard_pending_def nth_append split: option.splits)
next
  case (discards lg app)
  then show ?case
    by (auto simp: after_discard_def http_log_discard_def discard_pending_def dest!: lowered_flag split: option.splits)
next
  case (sends lg app)
  then show ?case
    by (auto simp: after_discard_def http_log_send_discard_def discard_pending_def)
next
  case (takes lg k)
  then show ?case unfolding after_discard_def discard_pending_def writer_take_simps by blast
next
  case (writes lg answers)
  show ?case
  proof (cases "lg_loaded lg")
    case None
    show ?thesis
    proof (cases "lg_batch lg")
      case (Cons command commands)
      show ?thesis
      proof (cases command)
        case (RecordCommand scope request)
        with writes Cons have "scope_known lg scope" by (simp add: log_inv_def)
        then have "snd (lg_flags lg ! sc_active scope) \<Longrightarrow> sc_app_id scope = app_id \<Longrightarrow> n \<le> sc_active scope"
          using writes(2) by (auto simp: after_discard_def scope_known_def intro: leI)
        with writes(2) None Cons RecordCommand show ?thesis
          by (auto simp: after_discard_def writer_step_def discard_pending_def)
      qed (use writes None Cons in \<open>auto simp: after_discard_def writer_step_def discard_pending_def writer_discard_def writer_lines_def\<close>)
    qed (use writes None in \<open>simp add: writer_step_def\<close>)
  next
    case (Some loaded)
    obtain scope request where loaded: "loaded = (scope, request)" by (cases loaded)
    let ?w = "writer_write encode answers scope request (lg_writer lg)"
    have "writer_lines ?w app_id \<subseteq> writer_lines (lg_writer lg) app_id \<union>
        (if sc_app_id scope = app_id then {line. fst line = Some (sc_active scope)} else {})"
      by (rule writer_write_lines)
    then show ?thesis using writes Some loaded
      by (auto simp: after_discard_def writer_step_def discard_pending_def split: if_splits)
  qed
qed (auto simp: after_discard_def http_log_record_def discard_pending_def)

lemma log_inv_new: "log_inv (http_log_new found)"
  by (simp add: log_inv_def http_log_new_def)

lemma log_inv_run: "(log_step encode)\<^sup>*\<^sup>* lg lg' \<Longrightarrow> log_inv lg \<Longrightarrow> log_inv lg'"
  by (induction rule: rtranclp_induct) (auto intro: log_inv_step)

lemma after_discard_run:
  "(log_step encode)\<^sup>*\<^sup>* lg lg' \<Longrightarrow> log_inv lg \<Longrightarrow> after_discard app_id n lg \<Longrightarrow> after_discard app_id n lg'"
  by (induction rule: rtranclp_induct) (blast intro: log_inv_run after_discard_step)+


definition sample_request :: http_request_record where
  "sample_request =
     \<lparr>hr_at = ''2026-07-30T00:00:00.000Z'', hr_method = ''GET'', hr_path = ''/'', hr_status = 200, hr_duration_micros = 10,
      hr_deployment_id = ''dep-a''\<rparr>"

definition all_answered :: write_answers where
  "all_answered = \<lparr>wa_open = True, wa_flush = True, wa_rename = True, wa_reopen = True, wa_write = True\<rparr>"

definition no_files :: http_log_writer where
  "no_files = \<lparr>hw_files = [], hw_current = (\<lambda>app_id. []), hw_previous = (\<lambda>app_id. [])\<rparr>"

definition sample_encode :: "http_request_record \<Rightarrow> string option" where
  "sample_encode request = Some (hr_path request)"

text \<open>A request is read by the writer, the app is removed, the writer writes it, and a new scope logs another.\<close>

definition sample_read :: http_request_log where
  "sample_read =
     writer_step sample_encode all_answered (writer_take 1 (http_log_record \<lparr>sc_app_id = ''app-a'', sc_active = 0\<rparr> sample_request
       (snd (http_log_begin ''app-a'' (http_log_new no_files)))))"

definition sample_removed :: http_request_log where
  "sample_removed =
     writer_step sample_encode all_answered (writer_step sample_encode all_answered (writer_step sample_encode all_answered
       (writer_take 2 (http_log_record \<lparr>sc_app_id = ''app-a'', sc_active = 1\<rparr> sample_request
         (snd (http_log_begin ''app-a'' (http_log_send_discard ''app-a''
           (writer_step sample_encode all_answered (http_log_discard ''app-a'' sample_read)))))))))"

lemmas sample_log_defs =
  sample_read_def sample_removed_def sample_request_def sample_encode_def all_answered_def no_files_def
  http_log_new_def http_log_begin_def http_log_record_def http_log_discard_def
  http_log_send_discard_def writer_take_def writer_step_def writer_write_def writer_open_def writer_rotate_def
  writer_append_def writer_put_def writer_discard_def QUEUED_RECORDS_def BATCH_RECORDS_def KEPT_BYTES_PER_APP_def file_bytes_def
  bt_modify_def bt_remove_def Let_def

lemma sample_removed_lines:
  "writer_lines (lg_writer sample_removed) ''app-a'' = {(Some 1, ''/'' @ [CHR 0x0A])}"
  "\<not> discard_pending ''app-a'' sample_removed" "length (lg_flags sample_read) = 1"
  by (simp_all add: sample_log_defs writer_lines_def discard_pending_def)

lemma log_runs:
  assumes "(log_step encode)\<^sup>*\<^sup>* lg0 lg"
  shows "(log_step encode)\<^sup>*\<^sup>* lg0 (writer_step encode answers lg)" "(log_step encode)\<^sup>*\<^sup>* lg0 (writer_take n lg)"
    "(log_step encode)\<^sup>*\<^sup>* lg0 (snd (http_log_begin app_id lg))" "(log_step encode)\<^sup>*\<^sup>* lg0 (http_log_send_discard app_id lg)"
    "scope_known lg scope \<Longrightarrow> (log_step encode)\<^sup>*\<^sup>* lg0 (http_log_record scope request lg)"
  using assms by (auto simp: scope_known_def intro: rtranclp.rtrancl_into_rtrancl log_step.intros)


section \<open>Sizes\<close>

definition writer_bounded :: "http_log_writer \<Rightarrow> bool" where
  "writer_bounded w \<longleftrightarrow>
     (\<forall>app_id. file_bytes (hw_current w app_id) \<le> KEPT_BYTES_PER_APP \<and> file_bytes (hw_previous w app_id) \<le> KEPT_BYTES_PER_APP) \<and>
     (\<forall>app_id held. map_of (hw_files w) app_id = Some held \<longrightarrow> held = file_bytes (hw_current w app_id))"

lemma writer_open_bounded:
  assumes "writer_bounded w"
  shows "writer_open answered app_id w = Inl w' \<Longrightarrow> writer_bounded w'" "writer_open answered app_id w = Inr w' \<Longrightarrow> writer_bounded w'"
  using assms
  by (auto simp: writer_open_def writer_bounded_def split: if_splits)

text \<open>A file that is rotated away leaves room for the line; one that is not has room.\<close>

lemma writer_rotate_bounded:
  assumes "writer_bounded w" "added \<le> KEPT_BYTES_PER_APP"
  shows "writer_rotate answers app_id added w = Inl w' \<Longrightarrow> writer_bounded w'"
    "writer_rotate answers app_id added w = Inr w' \<Longrightarrow>
       writer_bounded w' \<and> (\<forall>held. map_of (hw_files w') app_id = Some held \<longrightarrow> held + added \<le> KEPT_BYTES_PER_APP)"
  using assms
  by (auto simp: writer_rotate_def writer_open_def writer_bounded_def file_bytes_def Let_def not_less split: option.splits if_splits)

lemma writer_append_bounded:
  assumes "writer_bounded w" "\<forall>held. map_of (hw_files w) app_id = Some held \<longrightarrow> held + length (snd line) \<le> KEPT_BYTES_PER_APP"
  shows "writer_bounded (writer_append answered app_id line w)"
  using assms by (auto simp: writer_append_def writer_bounded_def file_bytes_def split: option.splits)

lemma writer_put_bounded:
  assumes "writer_bounded w" "length (snd line) \<le> KEPT_BYTES_PER_APP"
  shows "writer_bounded (writer_put answers app_id line w)"
  using writer_rotate_bounded [OF assms] writer_append_bounded by (auto simp: writer_put_def split: sum.splits)

lemma writer_write_bounded:
  assumes "writer_bounded w" "\<And>json. encode request = Some json \<Longrightarrow> length json < KEPT_BYTES_PER_APP"
  shows "writer_bounded (writer_write encode answers scope request w)"
proof -
  have "writer_bounded w' \<Longrightarrow> writer_bounded (writer_put answers (sc_app_id scope) (c, json @ [CHR 0x0A]) w')"
    if "encode request = Some json" for c json w'
    using writer_put_bounded assms(2) [OF that] by (simp add: less_eq_Suc_le)
  then show ?thesis
    using assms(1) writer_open_bounded [OF assms(1), of "wa_open answers" "sc_app_id scope"]
    by (auto simp: writer_write_def Let_def split: option.split sum.split)
qed

lemma log_bounded_step:
  assumes "\<And>request json. encode request = Some json \<Longrightarrow> length json < KEPT_BYTES_PER_APP"
  shows "log_step encode lg lg' \<Longrightarrow> writer_bounded (lg_writer lg) \<Longrightarrow> writer_bounded (lg_writer lg')"
proof (induction rule: log_step.induct)
  case (writes lg answers)
  then show ?case
    using writer_write_bounded [OF writes] assms
    by (auto simp: writer_step_def writer_discard_def writer_bounded_def file_bytes_def split: option.splits list.splits http_log_command.splits)
qed (auto simp: http_log_begin_def http_log_record_def http_log_discard_def http_log_send_discard_def writer_take_simps split: option.splits)

text \<open>
  The log of an app stays small: with records that fit, its file and the one before it never hold
  more than a mebibyte each.
\<close>

lemma request_logs_stay_small:
  assumes "(log_step encode)\<^sup>*\<^sup>* (http_log_new found) lg"
    and "\<And>request json. encode request = Some json \<Longrightarrow> length json < KEPT_BYTES_PER_APP"
    and "\<And>app_id. file_bytes (hw_current found app_id) \<le> KEPT_BYTES_PER_APP \<and> file_bytes (hw_previous found app_id) \<le> KEPT_BYTES_PER_APP"
  shows "file_bytes (hw_current (lg_writer lg) app_id) \<le> KEPT_BYTES_PER_APP \<and>
    file_bytes (hw_previous (lg_writer lg) app_id) \<le> KEPT_BYTES_PER_APP"
proof -
  have "writer_bounded (lg_writer lg)"
    using assms(1)
  proof (induction rule: rtranclp_induct)
    case base
    then show ?case using assms(3) by (simp add: writer_bounded_def http_log_new_def)
  next
    case (step lg lg')
    then show ?case using log_bounded_step assms(2) by blast
  qed
  then show ?thesis by (simp add: writer_bounded_def)
qed

end
