(* ===== verification/Router.thy ===== *)
theory Router
  imports Forward Concurrency HttpLog Records
begin

text \<open>
  The router of the proxy (\<open>adapters/proxy/router.rs\<close>): the table of routes made of the targets of a
  pass, and a request from its arrival to its answer, with the access policy of its app, the limits
  on requests and the log it is written to. Metrics and log lines are left out. Shown: a request goes
  out only to the app whose hostname it names, over a connection opened for that name, with a token
  the policy of the app takes and within the limits, whatever was routed and removed before.
\<close>

section \<open>Routes\<close>

record route =
  ro_app_id :: app_id
  ro_deployment_id :: deployment_id
  ro_host_port :: host_port

record 'key route_table =
  rb_by_hostname :: "(string, route) btree"
  rb_verifiers :: "(app_id, policy_error + 'key jwt_verifier) btree"

definition route_of_target :: "route_target \<Rightarrow> route" where
  "route_of_target target =
     \<lparr>ro_app_id = rt_app_id target, ro_deployment_id = rt_deployment_id target, ro_host_port = rt_host_port target\<rparr>"

definition verifier_of_target :: "'key jwt_library \<Rightarrow> route_target \<Rightarrow> (app_id \<times> (policy_error + 'key jwt_verifier)) option" where
  "verifier_of_target lib target =
     (case rt_access target of
        PublicAccess \<Rightarrow> None
      | JwtAccess policy \<Rightarrow> Some (rt_app_id target, verifier_compile lib policy))"

definition hostname_routes :: "route_target list \<Rightarrow> (string \<times> route) list" where
  "hostname_routes targets =
     concat (map (\<lambda>target. map (\<lambda>entry. (map to_ascii_lower (ah_hostname entry), route_of_target target)) (rt_hostnames target)) targets)"

definition from_targets :: "'key jwt_library \<Rightarrow> route_target list \<Rightarrow> 'key route_table" where
  "from_targets lib targets =
     \<lparr>rb_by_hostname = bt_collect (hostname_routes targets),
      rb_verifiers = bt_collect (List.map_filter (verifier_of_target lib) targets)\<rparr>"

definition route_for :: "'key route_table \<Rightarrow> string \<Rightarrow> route option" where
  "route_for table hostname = map_of (rb_by_hostname table) hostname"

definition table_apps :: "'key route_table \<Rightarrow> app_id set" where
  "table_apps table = ro_app_id ` set (bt_values (rb_by_hostname table))"

section \<open>The router\<close>

record arrival =
  ar_server_name :: "string option"
  ar_peer :: string
  ar_secure :: bool

record http_fallback =
  fb_origin_host :: hostname
  fb_redirect :: string

record 'key router =
  rr_fallback :: "http_fallback option"
  rr_routes :: "'key route_table"
  rr_upstreams :: upstreams
  rr_http_log :: "http_request_log option"
  rr_concurrency :: "concurrency_limiter option"
  rr_jwks :: "'key jwks_cache"

definition router_new :: "http_request_log option \<Rightarrow> http_fallback option \<Rightarrow> http_concurrency option \<Rightarrow> 'key router" where
  "router_new http_log fallback limits =
     \<lparr>rr_fallback = fallback, rr_routes = \<lparr>rb_by_hostname = [], rb_verifiers = []\<rparr>, rr_upstreams = upstreams_new,
      rr_http_log = http_log, rr_concurrency = map_option new_limiter limits, rr_jwks = []\<rparr>"

definition router_apply :: "'key route_table \<Rightarrow> 'key router \<Rightarrow> 'key router" where
  "router_apply table router =
     router\<lparr>rr_upstreams := upstreams_keep_only (table_apps table) (rr_upstreams router),
            rr_concurrency := map_option (limiter_keep_only (table_apps table)) (rr_concurrency router),
            rr_routes := table\<rparr>"

definition discard_http_log :: "app_id \<Rightarrow> 'key router \<Rightarrow> 'key router" where
  "discard_http_log app_id router =
     router\<lparr>rr_routes := (rr_routes router)
              \<lparr>rb_by_hostname := filter (\<lambda>(hostname, route). ro_app_id route \<noteq> app_id) (rb_by_hostname (rr_routes router))\<rparr>,
            rr_http_log := map_option (http_log_discard app_id) (rr_http_log router)\<rparr>"

definition router_close_connections_to :: "app_id \<Rightarrow> 'key router \<Rightarrow> 'key router" where
  "router_close_connections_to app_id router = router\<lparr>rr_upstreams := close_connections_to app_id (rr_upstreams router)\<rparr>"

text \<open>The URLs whose keys are refreshed.\<close>

definition jwks_urls :: "'key router \<Rightarrow> string list" where
  "jwks_urls router =
     sort (remdups (List.map_filter (\<lambda>verifier. case verifier of Inl e \<Rightarrow> None | Inr v \<Rightarrow> jwks_url v) (bt_values (rb_verifiers (rr_routes router)))))"

section \<open>A request\<close>

definition LOOPBACK :: string where
  "LOOPBACK = ''127.0.0.1''"

datatype proxy_outcome = OutServed | OutRedirected | OutUnreachable | OutNoSuchHost | OutWrongHost | OutRefused

text \<open>The moment a request is judged at, in the clocks it is read from.\<close>

record request_clock =
  rc_unix :: nat
  rc_instant :: nat
  rc_timestamp :: timestamp
  rc_elapsed_micros :: nat

definition access_refusal ::
  "'key jwt_library \<Rightarrow> request_clock \<Rightarrow> 'key jwks_cache \<Rightarrow> header_map \<Rightarrow> (policy_error + 'key jwt_verifier) option \<Rightarrow>
   (nat \<times> string) option" where
  "access_refusal lib clock cache headers access =
     (case access of
        None \<Rightarrow> None
      | Some (Inl e) \<Rightarrow> Some (503, ''This app's access policy is invalid.'' @ [CHR 0x0A])
      | Some (Inr verifier) \<Rightarrow>
          (let keys = Option.bind (jwks_url verifier) (\<lambda>url. jwks_get cache url (rc_instant clock))
           in if jwks_url verifier \<noteq> None \<and> keys = None
              then Some (503, ''This app's access keys are unavailable.'' @ [CHR 0x0A])
              else if \<not> permits lib (rc_unix clock) verifier headers keys
              then Some (403, ''A valid access token is required.'' @ [CHR 0x0A])
              else None))"

record 'key routed =
  rd_response :: http_response
  rd_outcome :: proxy_outcome
  rd_route :: "route option"
  rd_calls :: "upstream_call list"
  rd_router :: "'key router"

definition refused :: "nat \<Rightarrow> string \<Rightarrow> proxy_outcome \<Rightarrow> 'key router \<Rightarrow> 'key routed" where
  "refused status message outcome router =
     \<lparr>rd_response = say_text status (message @ [CHR 0x0A]), rd_outcome = outcome, rd_route = None, rd_calls = [], rd_router = router\<rparr>"

text \<open>A permit is given back at once where nothing under way holds it, and with the bodies otherwise.\<close>

definition with_permit ::
  "'key jwt_library \<Rightarrow> upstream_world \<Rightarrow> http_request \<Rightarrow> route \<Rightarrow> 'key router \<Rightarrow> 'key routed" where
  "with_permit lib world request route router =
     (let (client, pools) = upstreams_to (ro_app_id route) (rr_upstreams router);
          (response, calls, held) = forward lib world client request LOOPBACK (ro_host_port route) True;
          released = (if held then rr_concurrency router else map_option (limiter_release (ro_app_id route)) (rr_concurrency router))
      in \<lparr>rd_response = response, rd_outcome = (if rp_unreachable response then OutUnreachable else OutServed),
          rd_route = Some route, rd_calls = calls, rd_router = router\<lparr>rr_upstreams := pools, rr_concurrency := released\<rparr>\<rparr>)"

definition admit ::
  "'key jwt_library \<Rightarrow> upstream_world \<Rightarrow> http_request \<Rightarrow> route \<Rightarrow> 'key router \<Rightarrow> 'key routed" where
  "admit lib world request route router =
     (case rr_concurrency router of
        None \<Rightarrow> with_permit lib world request route router
      | Some limiter \<Rightarrow>
          (let (granted, limiter') = limiter_acquire (ro_app_id route) limiter;
               router = router\<lparr>rr_concurrency := Some limiter'\<rparr>
           in if granted then with_permit lib world request route router
              else let response = say_text 503 (''This host or app is busy. Please retry.'' @ [CHR 0x0A])
                   in \<lparr>rd_response = response\<lparr>rp_headers := headers_insert ''retry-after'' ''1'' (rp_headers response)\<rparr>,
                       rd_outcome = OutRefused, rd_route = Some route, rd_calls = [], rd_router = router\<rparr>))"

definition answer_routed ::
  "'key jwt_library \<Rightarrow> upstream_world \<Rightarrow> request_clock \<Rightarrow> arrival \<Rightarrow> http_request \<Rightarrow> string \<Rightarrow> route \<Rightarrow> 'key router \<Rightarrow> 'key routed" where
  "answer_routed lib world clock arrival request hostname route router =
     (case access_refusal lib clock (rr_jwks router) (rq_headers request) (map_of (rb_verifiers (rr_routes router)) (ro_app_id route)) of
        Some (status, message) \<Rightarrow>
          \<lparr>rd_response = say_text status message, rd_outcome = OutRefused, rd_route = Some route, rd_calls = [], rd_router = router\<rparr>
      | None \<Rightarrow>
          admit lib world
            (request\<lparr>rq_headers := note_the_hop lib (ar_peer arrival) (ar_secure arrival) hostname (rq_headers request)\<rparr>) route router)"

text \<open>The log is opened for the app when its route is found, and written once the response is there.\<close>

definition log_routed :: "request_clock \<Rightarrow> http_request \<Rightarrow> route \<Rightarrow> http_request_scope option \<Rightarrow> 'key routed \<Rightarrow> 'key routed" where
  "log_routed clock request route scope routed =
     (case scope of
        None \<Rightarrow> routed
      | Some scope \<Rightarrow>
          routed\<lparr>rd_router := (rd_router routed)
            \<lparr>rr_http_log :=
               map_option (http_log_record scope
                 (http_request_record_new (rc_timestamp clock) (rq_method request) (uri_path (rq_uri request))
                   (rp_status (rd_response routed)) (rc_elapsed_micros clock) (ro_deployment_id route)))
                 (rr_http_log (rd_router routed))\<rparr>\<rparr>)"

definition begin_log :: "app_id \<Rightarrow> 'key router \<Rightarrow> http_request_scope option \<times> 'key router" where
  "begin_log app_id router =
     (case rr_http_log router of
        None \<Rightarrow> (None, router)
      | Some lg \<Rightarrow> (let (scope, lg') = http_log_begin app_id lg in (Some scope, router\<lparr>rr_http_log := Some lg'\<rparr>)))"

definition redirected :: "http_fallback \<Rightarrow> 'key router \<Rightarrow> 'key routed" where
  "redirected fallback router =
     (let response = say_text 307 []
      in \<lparr>rd_response = response\<lparr>rp_headers := headers_insert ''location'' (fb_redirect fallback) (rp_headers response)\<rparr>,
          rd_outcome = OutRedirected, rd_route = None, rd_calls = [], rd_router = router\<rparr>)"

definition route_hostname ::
  "'key jwt_library \<Rightarrow> upstream_world \<Rightarrow> request_clock \<Rightarrow> arrival \<Rightarrow> http_request \<Rightarrow> string \<Rightarrow> 'key router \<Rightarrow> 'key routed" where
  "route_hostname lib world clock arrival request hostname router =
     (case route_for (rr_routes router) hostname of
        None \<Rightarrow> refused 404 ''No app on this host answers for that hostname.'' OutNoSuchHost router
      | Some route \<Rightarrow>
          (let (scope, router) = begin_log (ro_app_id route) router
           in log_routed clock request route scope (answer_routed lib world clock arrival request hostname route router)))"

definition route_request ::
  "'key jwt_library \<Rightarrow> upstream_world \<Rightarrow> request_clock \<Rightarrow> arrival \<Rightarrow> http_request \<Rightarrow> 'key router \<Rightarrow> 'key routed" where
  "route_request lib world clock arrival request router =
     (case hostname_of lib request of
        None \<Rightarrow> refused 400 ''This request names no host.'' OutRefused router
      | Some hostname \<Rightarrow>
          if (case ar_server_name arrival of None \<Rightarrow> False | Some name \<Rightarrow> \<not> eq_ignore_ascii_case name hostname)
          then refused 421 ''This connection was opened for a different host.'' OutWrongHost router
          else case rr_fallback router of
            Some fallback \<Rightarrow>
              if hostname = fb_origin_host fallback then redirected fallback router
              else route_hostname lib world clock arrival request hostname router
          | None \<Rightarrow> route_hostname lib world clock arrival request hostname router)"

text \<open>An answer over HTTP/2 has no header of the connection.\<close>

definition router_handle ::
  "'key jwt_library \<Rightarrow> upstream_world \<Rightarrow> request_clock \<Rightarrow> arrival \<Rightarrow> http_request \<Rightarrow> 'key router \<Rightarrow> 'key routed" where
  "router_handle lib world clock arrival request router =
     (let routed = route_request lib world clock arrival request router; response = rd_response routed
      in if rq_version request = Http2
         then routed\<lparr>rd_response := response\<lparr>rp_headers := headers_remove ''connection'' (rp_headers response)\<rparr>\<rparr>
         else routed)"


section \<open>Routes that are kept\<close>

lemma rd_routes:
  "rr_routes (rd_router (with_permit lib world request route router)) = rr_routes router"
  "rr_routes (rd_router (admit lib world request route router)) = rr_routes router"
  "rr_routes (rd_router (answer_routed lib world clock arrival request hostname route router)) = rr_routes router"
  by (auto simp: with_permit_def admit_def answer_routed_def Let_def split: prod.splits option.splits)

lemma begin_log_keeps:
  "begin_log app_id router = (scope, router') \<Longrightarrow>
   rr_routes router' = rr_routes router \<and> rr_jwks router' = rr_jwks router \<and> rr_concurrency router' = rr_concurrency router"
  by (auto simp: begin_log_def Let_def split: option.splits prod.splits)

lemma log_routed_keeps [simp]:
  "rr_routes (rd_router (log_routed clock request route scope routed)) = rr_routes (rd_router routed)"
  "rd_calls (log_routed clock request route scope routed) = rd_calls routed"
  by (simp_all add: log_routed_def split: option.split)

lemma route_request_routes: "rr_routes (rd_router (router_handle lib world clock arrival request router)) = rr_routes router"
  by (auto simp: router_handle_def route_request_def route_hostname_def refused_def redirected_def rd_routes Let_def
      dest: begin_log_keeps split: option.splits prod.splits)

text \<open>A router with the targets it was last given, whatever requests, removals and refreshes came since.\<close>

inductive router_serves :: "'key jwt_library \<Rightarrow> route_target list \<Rightarrow> 'key router \<Rightarrow> bool" for lib where
  started: "router_serves lib [] (router_new http_log fallback limits)"
| applied: "router_serves lib targets router \<Longrightarrow> router_serves lib targets' (router_apply (from_targets lib targets') router)"
| discarded: "router_serves lib targets router \<Longrightarrow> router_serves lib targets (discard_http_log app_id router)"
| closed: "router_serves lib targets router \<Longrightarrow> router_serves lib targets (router_close_connections_to app_id router)"
| handled: "router_serves lib targets router \<Longrightarrow>
    router_serves lib targets (rd_router (router_handle lib world clock arrival request router))"
| finished: "router_serves lib targets router \<Longrightarrow>
    router_serves lib targets (router\<lparr>rr_concurrency := map_option (limiter_release app_id) (rr_concurrency router)\<rparr>)"
| logged: "router_serves lib targets router \<Longrightarrow> router_serves lib targets (router\<lparr>rr_http_log := http_log\<rparr>)"
| refreshed: "router_serves lib targets router \<Longrightarrow> router_serves lib targets (router\<lparr>rr_jwks := cache\<rparr>)"

definition table_within :: "'key route_table \<Rightarrow> 'key route_table \<Rightarrow> bool" where
  "table_within table whole \<longleftrightarrow>
     bt_wf (rb_by_hostname table) \<and> map_of (rb_by_hostname table) \<subseteq>\<^sub>m map_of (rb_by_hostname whole) \<and>
     rb_verifiers table = rb_verifiers whole"

lemma table_within_filter:
  "table_within table whole \<Longrightarrow> table_within (table\<lparr>rb_by_hostname := filter (\<lambda>(h, r). P h r) (rb_by_hostname table)\<rparr>) whole"
  by (auto simp: table_within_def bt_wf_filter map_le_def dom_def map_of_filter_wf split: option.splits if_splits)

lemma router_serves_within: "router_serves lib targets router \<Longrightarrow> table_within (rr_routes router) (from_targets lib targets)"
proof (induction rule: router_serves.induct)
  case (started http_log fallback limits)
  show ?case by (simp add: table_within_def router_new_def from_targets_def hostname_routes_def bt_collect_def)
next
  case (applied targets router targets')
  show ?case by (simp add: table_within_def router_apply_def from_targets_def)
next
  case (discarded targets router app_id)
  then show ?case by (simp add: discard_http_log_def table_within_filter)
qed (simp_all add: router_close_connections_to_def route_request_routes)

section \<open>Who is reached\<close>

lemma from_targets_route:
  assumes "map_of (rb_by_hostname (from_targets lib targets)) hostname = Some route"
  shows "\<exists>target \<in> set targets. route = route_of_target target \<and>
    hostname \<in> (\<lambda>entry. map to_ascii_lower (ah_hostname entry)) ` set (rt_hostnames target)"
proof -
  have "(hostname, route) \<in> set (hostname_routes targets)"
    using assms by (auto simp: from_targets_def dest: map_of_SomeD)
  then show ?thesis by (auto simp: hostname_routes_def)
qed

lemma from_targets_verifier:
  assumes "distinct (map rt_app_id targets)" "target \<in> set targets"
  shows "map_of (rb_verifiers (from_targets lib targets)) (rt_app_id target) = map_option snd (verifier_of_target lib target)"
proof -
  let ?kvs = "List.map_filter (verifier_of_target lib) targets"
  have key: "fst kv = rt_app_id t" if "verifier_of_target lib t = Some kv" for kv t
    using that by (auto simp: verifier_of_target_def split: access_policy.splits)
  have "map_of (rev ?kvs) (rt_app_id target) = map_option snd (verifier_of_target lib target)"
    using assms
  proof (induction targets)
    case (Cons t targets)
    have others: "map_of (rev (List.map_filter (verifier_of_target lib) targets)) (rt_app_id t) = None"
      using Cons.prems(1) key by (force simp: map_of_eq_None_iff List.map_filter_def)
    show ?case
    proof (cases "target = t")
      case True
      with others key [of t] show ?thesis
        by (cases "verifier_of_target lib t") (auto simp: List.map_filter_simps map_add_def)
    next
      case False
      with Cons.prems have "rt_app_id target \<in> rt_app_id ` set targets" by simp
      with Cons.prems(1) have "rt_app_id target \<noteq> rt_app_id t" by (auto simp del: image_iff)
      with False Cons key [of t] show ?thesis
        by (cases "verifier_of_target lib t") (auto simp: List.map_filter_simps map_add_def split: option.splits)
    qed
  qed simp
  then show ?thesis by (simp add: from_targets_def)
qed

definition call_reaches :: "host_port \<Rightarrow> upstream_call \<Rightarrow> bool" where
  "call_reaches port call =
     (case call of
        PooledCall client sent \<Rightarrow> uri_authority (rq_uri sent) = Some (authority_of LOOPBACK port)
      | DialledCall host dialled sent \<Rightarrow> host = LOOPBACK \<and> dialled = port)"

definition uris_build :: "upstream_world \<Rightarrow> bool" where
  "uris_build world \<longleftrightarrow>
     (\<forall>port path. \<exists>built. uw_build_uri world ''http'' (authority_of LOOPBACK port) path = Some built \<and>
        uri_authority built = Some (authority_of LOOPBACK port))"

lemma with_permit_reaches:
  assumes "uris_build world" "call \<in> set (rd_calls (with_permit lib world request route router))"
  shows "call_reaches (ro_host_port route) call"
proof -
  obtain client response calls held where sent:
    "forward lib world client request LOOPBACK (ro_host_port route) True = (response, calls, held)" "call \<in> set calls"
    using assms(2) by (auto simp: with_permit_def Let_def split: prod.splits)
  have builds: "\<And>path. \<exists>built. uw_build_uri world ''http'' (authority_of LOOPBACK (ro_host_port route)) path = Some built \<and>
      uri_authority built = Some (authority_of LOOPBACK (ro_host_port route))"
    using assms(1) by (simp add: uris_build_def)
  show ?thesis
    using forward_calls [OF sent] forwarded_request_speaks(2) [OF builds] by (auto simp: call_reaches_def)
qed

lemma admit_reaches:
  assumes "uris_build world" "call \<in> set (rd_calls (admit lib world request route router))"
  shows "call_reaches (ro_host_port route) call \<and>
    (\<forall>limiter. rr_concurrency router = Some limiter \<longrightarrow> fst (limiter_acquire (ro_app_id route) limiter))"
  using assms(2) with_permit_reaches [OF assms(1)]
  by (auto simp: admit_def Let_def split: option.splits prod.splits if_splits)

lemma access_granted:
  assumes "access_refusal lib clock cache headers (Some access) = None"
  shows "\<exists>verifier. access = Inr verifier \<and>
    permits lib (rc_unix clock) verifier headers (Option.bind (jwks_url verifier) (\<lambda>url. jwks_get cache url (rc_instant clock)))"
  using assms by (auto simp: access_refusal_def Let_def split: sum.splits if_splits)

lemma answer_routed_reaches:
  assumes "uris_build world" "call \<in> set (rd_calls (answer_routed lib world clock arrival request hostname route router))"
  shows "call_reaches (ro_host_port route) call \<and>
    access_refusal lib clock (rr_jwks router) (rq_headers request) (map_of (rb_verifiers (rr_routes router)) (ro_app_id route)) = None \<and>
    (\<forall>limiter. rr_concurrency router = Some limiter \<longrightarrow> fst (limiter_acquire (ro_app_id route) limiter))"
  using assms(2) by (auto simp: answer_routed_def dest: admit_reaches [OF assms(1)] split: option.splits prod.splits)

lemma route_request_reaches:
  assumes "uris_build world" "call \<in> set (rd_calls (router_handle lib world clock arrival request router))"
  obtains hostname route where "hostname_of lib request = Some hostname" "route_for (rr_routes router) hostname = Some route"
    "\<forall>name. ar_server_name arrival = Some name \<longrightarrow> eq_ignore_ascii_case name hostname" "call_reaches (ro_host_port route) call"
    "access_refusal lib clock (rr_jwks router) (rq_headers request) (map_of (rb_verifiers (rr_routes router)) (ro_app_id route)) = None"
    "\<forall>limiter. rr_concurrency router = Some limiter \<longrightarrow> fst (limiter_acquire (ro_app_id route) limiter)"
proof -
  have "call \<in> set (rd_calls (route_request lib world clock arrival request router))"
    using assms(2) by (simp add: router_handle_def Let_def split: if_splits)
  then obtain hostname where named: "hostname_of lib request = Some hostname"
    "\<forall>name. ar_server_name arrival = Some name \<longrightarrow> eq_ignore_ascii_case name hostname"
    "call \<in> set (rd_calls (route_hostname lib world clock arrival request hostname router))"
    by (auto simp: route_request_def refused_def redirected_def Let_def split: option.splits if_splits)
  then obtain route scope router' where routed: "route_for (rr_routes router) hostname = Some route"
    "begin_log (ro_app_id route) router = (scope, router')"
    "call \<in> set (rd_calls (answer_routed lib world clock arrival request hostname route router'))"
    by (auto simp: route_hostname_def refused_def split: option.splits prod.splits)
  from that named routed answer_routed_reaches [OF assms(1) routed(3)] begin_log_keeps [OF routed(2)] show thesis by simp
qed

text \<open>
  (C6) A request reaches the app it is for, and no other. Whatever a router was given, told to forget and
  asked before, what it sends on goes to the port of an app of its last targets that has the hostname
  the request names, over a connection that was opened for that name; if the app has an access
  policy, the policy could be read and lets the request through with the keys then in use; and the
  limits on requests had room for it.
\<close>

theorem requests_reach_only_their_app:
  assumes "router_serves lib targets router" "distinct (map rt_app_id targets)" "uris_build world"
    and "call \<in> set (rd_calls (router_handle lib world clock arrival request router))"
  shows "\<exists>target \<in> set targets. \<exists>hostname.
    hostname_of lib request = Some hostname \<and>
    hostname \<in> (\<lambda>entry. map to_ascii_lower (ah_hostname entry)) ` set (rt_hostnames target) \<and>
    (\<forall>name. ar_server_name arrival = Some name \<longrightarrow> eq_ignore_ascii_case name hostname) \<and>
    call_reaches (rt_host_port target) call \<and>
    (\<forall>policy. rt_access target = JwtAccess policy \<longrightarrow>
       (\<exists>verifier. verifier_compile lib policy = Inr verifier \<and>
          permits lib (rc_unix clock) verifier (rq_headers request)
            (Option.bind (jwks_url verifier) (\<lambda>url. jwks_get (rr_jwks router) url (rc_instant clock))))) \<and>
    (\<forall>limiter. rr_concurrency router = Some limiter \<longrightarrow> fst (limiter_acquire (rt_app_id target) limiter))"
proof -
  obtain hostname route where reached: "hostname_of lib request = Some hostname" "route_for (rr_routes router) hostname = Some route"
    "\<forall>name. ar_server_name arrival = Some name \<longrightarrow> eq_ignore_ascii_case name hostname" "call_reaches (ro_host_port route) call"
    "access_refusal lib clock (rr_jwks router) (rq_headers request) (map_of (rb_verifiers (rr_routes router)) (ro_app_id route)) = None"
    "\<forall>limiter. rr_concurrency router = Some limiter \<longrightarrow> fst (limiter_acquire (ro_app_id route) limiter)"
    using route_request_reaches [OF assms(3,4)] .
  note within = router_serves_within [OF assms(1)]
  then have "map_of (rb_by_hostname (from_targets lib targets)) hostname = Some route"
    using reached(2) by (auto simp: table_within_def route_for_def map_le_def dom_def)
  then obtain target where target: "target \<in> set targets" "route = route_of_target target"
    "hostname \<in> (\<lambda>entry. map to_ascii_lower (ah_hostname entry)) ` set (rt_hostnames target)"
    using from_targets_route by blast
  have "map_of (rb_verifiers (rr_routes router)) (rt_app_id target) = map_option snd (verifier_of_target lib target)"
    using within from_targets_verifier [OF assms(2) target(1)] by (simp add: table_within_def)
  then have "\<exists>verifier. verifier_compile lib policy = Inr verifier \<and>
      permits lib (rc_unix clock) verifier (rq_headers request)
        (Option.bind (jwks_url verifier) (\<lambda>url. jwks_get (rr_jwks router) url (rc_instant clock)))"
    if "rt_access target = JwtAccess policy" for policy
    using reached(5) access_granted target(2) that by (auto simp: verifier_of_target_def route_of_target_def)
  with reached target show ?thesis by (auto simp: route_of_target_def)
qed

definition sample_target :: route_target where
  "sample_target =
     \<lparr>rt_app_id = ''app-a'', rt_deployment_id = ''dep-a'', rt_hostnames = [\<lparr>ah_hostname = ''a.example'', ah_kind = PlatformHostname\<rparr>],
      rt_host_port = 21000, rt_access = JwtAccess (sample_policy (Pem [''other'', ''key'']))\<rparr>"

definition sample_web :: upstream_world where
  "sample_web =
     \<lparr>uw_build_uri = (\<lambda>scheme authority path. Some \<lparr>uri_authority = Some authority, uri_host = None, uri_path = path, uri_path_and_query = Some path\<rparr>),
      uw_request = (\<lambda>client request. Some (say_text 200 [])), uw_connect = (\<lambda>host port. True), uw_handshake = (\<lambda>host port. True),
      uw_send_request = (\<lambda>host port request. None)\<rparr>"

definition sample_visit :: http_request where
  "sample_visit =
     \<lparr>rq_method = ''GET'', rq_version = Http11,
      rq_uri = \<lparr>uri_authority = None, uri_host = None, uri_path = ''/'', uri_path_and_query = Some ''/''\<rparr>,
      rq_headers = sample_headers(''host'' := [''a.example:443'']), rq_body = []\<rparr>"

definition sample_clock :: request_clock where
  "sample_clock = \<lparr>rc_unix = 10, rc_instant = 10, rc_timestamp = ''2026-07-30T00:00:00.000Z'', rc_elapsed_micros = 1\<rparr>"

definition sample_router :: "string router" where
  "sample_router = router_apply (from_targets sample_library [sample_target]) (router_new None None (Some \<lparr>hc_host_concurrent = 1, hc_app_concurrent = 1\<rparr>))"

definition sample_arrival :: arrival where
  "sample_arrival = \<lparr>ar_server_name = Some ''a.example'', ar_peer = ''192.0.2.1'', ar_secure = True\<rparr>"

lemma sample_hostname: "hostname_of sample_library sample_visit = Some ''a.example''" "map to_ascii_lower ''a.example'' = ''a.example''"
  by (simp_all add: hostname_of_def sample_visit_def headers_get_def sample_library_def to_ascii_lower_def char_class_defs)

lemma sample_visit_permitted:
  "permits sample_library 10 (sample_verifier (PemKeys [''other'', ''key''])) (rq_headers sample_visit) None"
  using sample_permits by (simp add: permits_def presented_token_def sample_visit_def sample_verifier_def)

lemma sample_routes:
  "route_for (rr_routes sample_router) ''a.example'' = Some (route_of_target sample_target)"
  "map_of (rb_verifiers (rr_routes sample_router)) ''app-a'' = Some (Inr (sample_verifier (PemKeys [''other'', ''key''])))"
  "rr_fallback sample_router = None" "rr_http_log sample_router = None"
  "rr_concurrency sample_router = Some (new_limiter \<lparr>hc_host_concurrent = 1, hc_app_concurrent = 1\<rparr>)"
  by (simp_all add: sample_router_def router_apply_def router_new_def from_targets_def route_for_def hostname_routes_def
      sample_target_def to_ascii_lower_def char_class_defs verifier_of_target_def sample_compiled(1) List.map_filter_simps bt_collect_def
      limiter_keep_only_def new_limiter_def)

lemma sample_visit_goes_out: "rd_calls (router_handle sample_library sample_web sample_clock sample_arrival sample_visit sample_router) \<noteq> []"
  using sample_visit_permitted
  by (simp add: router_handle_def route_request_def route_hostname_def answer_routed_def access_refusal_def admit_def with_permit_def
      begin_log_def log_routed_def sample_hostname(1) sample_routes sample_arrival_def eq_ignore_ascii_case_def route_of_target_def
      sample_target_def jwks_url_def sample_verifier_def sample_clock_def limiter_acquire_def permits_left_def new_limiter_def
      forward_def forward_upgrade_def sample_web_def Let_def split: prod.split)

theorem requests_reach_only_their_app_witness:
  "\<exists>call. router_serves sample_library [sample_target] sample_router \<and>
     call \<in> set (rd_calls (router_handle sample_library sample_web sample_clock sample_arrival sample_visit sample_router)) \<and>
     call_reaches 21000 call"
proof -
  have serves: "router_serves sample_library [sample_target] sample_router"
    unfolding sample_router_def by (rule applied [OF started])
  have builds: "uris_build sample_web" by (simp add: uris_build_def sample_web_def)
  obtain call where call: "call \<in> set (rd_calls (router_handle sample_library sample_web sample_clock sample_arrival sample_visit sample_router))"
    using hd_in_set [OF sample_visit_goes_out] by blast
  from requests_reach_only_their_app [OF serves _ builds call] have "call_reaches 21000 call"
    by (auto simp: sample_target_def)
  with serves call show ?thesis by blast
qed

end
