(* ===== verification/Frames.thy ===== *)
theory Frames
  imports Domain
begin

text \<open>
  The frames a guest and its host exchange (\<open>crates/guest-contract/src\<close>): cron executions
  (\<open>cron_execution.rs\<close>), cron registrations (\<open>cron_registration.rs\<close>) and the log stream
  (\<open>logs.rs\<close>). A byte is a \<^typ>\<open>char\<close>, a code a \<^typ>\<open>nat\<close> below 256. Every protocol has the
  same header, a magic of four bytes, a code and the length of the body as a big-endian
  \<open>u32\<close>; the locale \<open>framed\<close> is what the decoders rely on of the encoder beside them. Shown:
  what is encoded is decoded again, and a log stream is read the same way however it was cut.
\<close>

section \<open>Bytes\<close>

abbreviation byte :: "nat \<Rightarrow> char" where
  "byte n \<equiv> char_of n"

abbreviation byte_value :: "char \<Rightarrow> nat" where
  "byte_value c \<equiv> of_char c"

text \<open>\<open>to_be_bytes\<close> of an unsigned integer of \<open>k\<close> bytes, and \<open>from_be_bytes\<close>.\<close>

fun to_be_bytes :: "nat \<Rightarrow> nat \<Rightarrow> string" where
  "to_be_bytes 0 n = []"
| "to_be_bytes (Suc k) n = to_be_bytes k (n div 256) @ [byte n]"

definition from_be_bytes :: "string \<Rightarrow> nat" where
  "from_be_bytes bytes = foldl (\<lambda>acc c. acc * 256 + byte_value c) 0 bytes"

text \<open>\<open>as i32\<close> on a \<open>u32\<close>, and the \<open>u32\<close> with the bits of an \<open>i32\<close>.\<close>

definition as_i32 :: "nat \<Rightarrow> int" where
  "as_i32 n = (if n < 2 ^ 31 then int n else int n - 2 ^ 32)"

definition i32_bits :: "int \<Rightarrow> nat" where
  "i32_bits i = nat (i mod 2 ^ 32)"

text \<open>\<open>std::str::from_utf8\<close> accepts exactly the well-formed byte sequences.\<close>

definition utf8_tail :: "char \<Rightarrow> bool" where
  "utf8_tail c \<longleftrightarrow> 128 \<le> byte_value c \<and> byte_value c < 192"

definition utf8_second :: "nat \<Rightarrow> char \<Rightarrow> bool" where
  "utf8_second lead c =
     (let b = byte_value c
      in (if lead = 224 then 160 else if lead = 240 then 144 else 128) \<le> b \<and>
         b < (if lead = 237 then 160 else if lead = 244 then 144 else 192))"

text \<open>
  One step of the standard library's validation over a non-empty sequence: a whole character of so
  many bytes, an invalid sequence of so many bytes (\<open>error_len\<close>), or a character the input ends in.
\<close>

datatype utf8_step = Whole nat | Broken nat | CutShort

fun utf8_tails :: "nat \<Rightarrow> nat \<Rightarrow> string \<Rightarrow> utf8_step" where
  "utf8_tails seen 0 s = Whole seen"
| "utf8_tails seen (Suc wanted) [] = CutShort"
| "utf8_tails seen (Suc wanted) (c # s) =
     (if utf8_tail c then utf8_tails (Suc seen) wanted s else Broken seen)"

fun utf8_step_of :: "string \<Rightarrow> utf8_step" where
  "utf8_step_of [] = CutShort"
| "utf8_step_of (a # s) =
     (let lead = byte_value a
      in if lead < 128 then Whole 1
         else if 194 \<le> lead \<and> lead < 224 then utf8_tails 1 1 s
         else if 224 \<le> lead \<and> lead < 245
         then (case s of
                 [] \<Rightarrow> CutShort
               | c # rest \<Rightarrow>
                   if utf8_second lead c then utf8_tails 2 (if lead < 240 then 1 else 2) rest else Broken 1)
         else Broken 1)"

lemma utf8_tails_pos:
  "0 < seen \<Longrightarrow> utf8_tails seen wanted s = Whole n \<Longrightarrow> seen \<le> n \<and> n \<le> seen + length s"
  "0 < seen \<Longrightarrow> utf8_tails seen wanted s = Broken n \<Longrightarrow> seen \<le> n \<and> n < seen + length s"
  by (induction seen wanted s rule: utf8_tails.induct) (auto split: if_splits)

lemma utf8_step_pos:
  "utf8_step_of s = Whole n \<Longrightarrow> 0 < n \<and> n \<le> length s"
  "utf8_step_of s = Broken n \<Longrightarrow> 0 < n \<and> n \<le> length s"
  by (cases s; force simp: Let_def dest!: utf8_tails_pos [rotated] split: if_splits list.splits)+

function utf8_valid :: "string \<Rightarrow> bool" where
  "utf8_valid s =
     (if s = [] then True
      else case utf8_step_of s of Whole n \<Rightarrow> utf8_valid (drop n s) | _ \<Rightarrow> False)"
  by pat_completeness auto
termination
  by (relation "measure length") (auto dest!: utf8_step_pos)

declare utf8_valid.simps [simp del]

lemma utf8_valid_Nil [simp]: "utf8_valid []"
  by (simp add: utf8_valid.simps)

lemma utf8_valid_ascii: "list_all (\<lambda>c. byte_value c < 128) s \<Longrightarrow> utf8_valid s"
  by (induction s) (simp_all add: utf8_valid.simps [of "_ # _"] Let_def)

lemma length_to_be_bytes [simp]: "length (to_be_bytes k n) = k"
  by (induction k arbitrary: n) simp_all

lemma from_be_bytes_snoc: "from_be_bytes (bs @ [c]) = from_be_bytes bs * 256 + byte_value c"
  by (simp add: from_be_bytes_def)

lemma from_to_be_bytes: "from_be_bytes (to_be_bytes k n) = n mod 256 ^ k"
proof (induction k arbitrary: n)
  case 0
  then show ?case by (simp add: from_be_bytes_def)
next
  case (Suc k)
  have "from_be_bytes (to_be_bytes (Suc k) n) = (n div 256 mod 256 ^ k) * 256 + n mod 256"
    by (simp add: from_be_bytes_snoc Suc)
  also have "\<dots> = n mod (256 * 256 ^ k)"
    by (simp add: mod_mult2_eq)
  finally show ?case by simp
qed

lemma from_to_be_u32 [simp]: "n < 2 ^ 32 \<Longrightarrow> from_be_bytes (to_be_bytes 4 n) = n"
  by (simp add: from_to_be_bytes)

lemma from_to_be_u64 [simp]: "n < 2 ^ 64 \<Longrightarrow> from_be_bytes (to_be_bytes 8 n) = n"
  by (simp add: from_to_be_bytes)

lemma from_to_be_i32 [simp]: "from_be_bytes (to_be_bytes 4 (i32_bits i)) = i32_bits i"
proof -
  have "i32_bits i < 2 ^ 32" unfolding i32_bits_def by (simp add: nat_less_iff)
  then show ?thesis by simp
qed

lemma as_i32_bits [simp]:
  assumes "- (2 ^ 31) \<le> i" "i < 2 ^ 31"
  shows "as_i32 (i32_bits i) = i"
proof (cases "i < 0")
  case True
  with assms have "i mod 2 ^ 32 = i + 2 ^ 32"
    using mod_pos_pos_trivial [of "i + 2 ^ 32" "2 ^ 32"] by simp
  with assms True show ?thesis by (simp add: as_i32_def i32_bits_def nat_less_iff)
next
  case False
  with assms show ?thesis by (simp add: as_i32_def i32_bits_def nat_less_iff)
qed

lemma byte_value_less: "byte_value c < 256"
  by (metis of_char_mod_256 mod_less_divisor zero_less_numeral)

lemma nul_byte: "byte 0 = CHR 0x00"
  by (simp add: char_of_def)

lemma byte_of_sum [simp]: "byte (n * 256 + byte_value c) = c"
  using char_of_quasi_inj [of "n * 256 + byte_value c" "byte_value c"] by simp

lemma to_from_be_bytes: "to_be_bytes (length bs) (from_be_bytes bs) = bs"
proof (induction bs rule: rev_induct)
  case (snoc c bs)
  then show ?case by (simp add: from_be_bytes_snoc)
qed simp

lemma from_be_bytes_less: "from_be_bytes bs < 256 ^ length bs"
proof (induction bs rule: rev_induct)
  case (snoc c bs)
  then have le: "Suc (from_be_bytes bs) * 256 \<le> 256 ^ length bs * 256" by (intro mult_le_mono1) simp
  have "from_be_bytes bs * 256 + byte_value c < Suc (from_be_bytes bs) * 256"
    using byte_value_less [of c] by simp
  from less_le_trans [OF this le] show ?case by (simp add: from_be_bytes_snoc mult.commute)
qed (simp add: from_be_bytes_def)

lemma to_be_u32_iff:
  "length bs = 4 \<and> from_be_bytes bs = n \<longleftrightarrow> bs = to_be_bytes 4 n \<and> n < 2 ^ 32"
  using to_from_be_bytes [of bs] from_be_bytes_less [of bs] by auto

lemma length_four: "length xs = 4 \<Longrightarrow> \<exists>a b c d. xs = [a, b, c, d]"
  by (cases xs; cases "tl xs"; cases "tl (tl xs)"; cases "tl (tl (tl xs))") auto

section \<open>The header every protocol shares\<close>

locale framed =
  fixes magic :: string and frame_of :: "nat \<Rightarrow> string \<Rightarrow> string"
  assumes magic_length: "length magic = 4"
    and layout: "frame_of code body = magic @ [byte code] @ to_be_bytes 4 (length body) @ body"
begin

lemma frame_parts:
  "take 4 (frame_of code body) = magic"
  "take 9 (frame_of code body) = magic @ [byte code] @ to_be_bytes 4 (length body)"
  "drop 9 (frame_of code body) = body"
  "frame_of code body ! 4 = byte code"
  "take 4 (drop 5 (frame_of code body)) = to_be_bytes 4 (length body)"
  "length (frame_of code body) = 9 + length body"
proof -
  obtain a b c d where magic: "magic = [a, b, c, d]"
    using length_four [OF magic_length] by blast
  obtain p q r s where size: "to_be_bytes 4 (length body) = [p, q, r, s]"
    using length_four [OF length_to_be_bytes] by blast
  show "take 4 (frame_of code body) = magic"
    "take 9 (frame_of code body) = magic @ [byte code] @ to_be_bytes 4 (length body)"
    "drop 9 (frame_of code body) = body"
    "frame_of code body ! 4 = byte code"
    "take 4 (drop 5 (frame_of code body)) = to_be_bytes 4 (length body)"
    "length (frame_of code body) = 9 + length body"
    unfolding layout magic size by simp_all
qed

lemma header_iff:
  "length h = 9 \<and> take 4 h = magic \<and> byte_value (h ! 4) = code \<and> from_be_bytes (take 4 (drop 5 h)) = n \<longleftrightarrow>
   h = magic @ [byte code] @ to_be_bytes 4 n \<and> code < 256 \<and> n < 2 ^ 32" (is "?L \<longleftrightarrow> ?R")
proof
  assume l: ?L
  then have "h = take 4 h @ [h ! 4] @ take 4 (drop 5 h)"
    using id_take_nth_drop [of 4 h] by simp
  moreover have four: "length (take 4 (drop 5 h)) = 4" using l by simp
  moreover have "take 4 (drop 5 h) = to_be_bytes 4 n \<and> n < 2 ^ 32"
    using l to_be_u32_iff [THEN iffD1, OF conjI, of "take 4 (drop 5 h)" n] four by blast
  moreover have "byte_value (h ! 4) < 256" by (rule byte_value_less)
  ultimately show ?R using l by (metis char_of_char)
next
  assume ?R
  then show ?L by (simp add: magic_length nth_append of_char_mod_256)
qed

end

section \<open>Cron limits\<close>

definition MAX_CRONTAB_BYTES :: nat where
  "MAX_CRONTAB_BYTES = 65536"

definition MAX_CRON_ENVIRONMENT_VARIABLES :: nat where
  "MAX_CRON_ENVIRONMENT_VARIABLES = 256"

definition MAX_CRON_COMMAND_LENGTH :: nat where
  "MAX_CRON_COMMAND_LENGTH = 4096"

definition crontab_parse :: "string \<Rightarrow> invalid_value + string" where
  "crontab_parse value =
     (if length value > MAX_CRONTAB_BYTES \<or> byte 0 \<in> set value
      then Inl (InvalidValue ''a crontab must fit within the byte limit and contain no nul bytes'')
      else Inr value)"

section \<open>Cron executions\<close>

definition HEADER_BYTES :: nat where
  "HEADER_BYTES = 9"

definition MAX_REQUEST_BYTES :: nat where
  "MAX_REQUEST_BYTES = MAX_CRONTAB_BYTES + (MAX_CRON_ENVIRONMENT_VARIABLES + 2) * 4"

definition MAX_OUTPUT_BYTES :: nat where
  "MAX_OUTPUT_BYTES = 4096"

definition EXECUTION_MAGIC :: string where
  "EXECUTION_MAGIC = ''NBR1''"

definition MAX_EXIT_CODE :: nat where
  "MAX_EXIT_CODE = 255"

definition MAX_SIGNAL :: nat where
  "MAX_SIGNAL = 64"

record execution_request =
  er_command :: string
  er_environment :: "string list"

datatype rejection = Malformed | SpawnFailed | Busy

fun rejection_code :: "rejection \<Rightarrow> nat" where
  "rejection_code Malformed = 1"
| "rejection_code SpawnFailed = 2"
| "rejection_code Busy = 3"

datatype execution_frame =
    Started | StdoutOf string | StderrOf string | Exit nat nat | Rejected rejection

record frame_header =
  fh_code :: nat
  fh_body_length :: nat

datatype malformed_execution = MalformedExecution

definition execution_decode_header :: "string \<Rightarrow> malformed_execution + frame_header" where
  "execution_decode_header bytes =
     (if length bytes \<noteq> HEADER_BYTES \<or> take 4 bytes \<noteq> EXECUTION_MAGIC then Inl MalformedExecution
      else Inr \<lparr>fh_code = byte_value (bytes ! 4), fh_body_length = from_be_bytes (take 4 (drop 5 bytes))\<rparr>)"

definition execution_decode_request_header :: "string \<Rightarrow> malformed_execution + frame_header" where
  "execution_decode_request_header bytes =
     (case execution_decode_header bytes of
        Inl e \<Rightarrow> Inl e
      | Inr header \<Rightarrow>
          if fh_code header \<noteq> 0 \<or> fh_body_length header > MAX_REQUEST_BYTES then Inl MalformedExecution
          else Inr header)"

definition execution_decode_reply_header :: "string \<Rightarrow> malformed_execution + frame_header" where
  "execution_decode_reply_header bytes =
     (case execution_decode_header bytes of
        Inl e \<Rightarrow> Inl e
      | Inr header \<Rightarrow>
          let n = fh_body_length header;
              valid = (if fh_code header = 1 then n = 0
                       else if fh_code header = 2 \<or> fh_code header = 3 then 1 \<le> n \<and> n \<le> MAX_OUTPUT_BYTES
                       else if fh_code header = 4 then n = 8
                       else if fh_code header = 5 then n = 1
                       else False)
          in if valid then Inr header else Inl MalformedExecution)"

definition execution_framed :: "nat \<Rightarrow> string \<Rightarrow> string" where
  "execution_framed code body = EXECUTION_MAGIC @ [byte code] @ to_be_bytes 4 (length body) @ body"

definition environment_entry :: "string \<Rightarrow> bool" where
  "environment_entry entry =
     (case split_once CHR ''='' entry of
        None \<Rightarrow> False
      | Some (name, _) \<Rightarrow>
          byte 0 \<notin> set entry \<and> name \<noteq> [] \<and>
          list_all (\<lambda>(index, c). is_ascii_alphabetic c \<or> c = CHR ''_'' \<or> (index > 0 \<and> is_ascii_digit c))
            (zip [0..<length name] name))"

definition valid_request :: "execution_request \<Rightarrow> bool" where
  "valid_request request \<longleftrightarrow>
     er_command request \<noteq> [] \<and>
     length (er_command request) \<le> MAX_CRON_COMMAND_LENGTH \<and>
     byte 0 \<notin> set (er_command request) \<and>
     length (er_environment request) \<le> MAX_CRON_ENVIRONMENT_VARIABLES \<and>
     list_all environment_entry (er_environment request)"

text \<open>A length and then as many bytes: how a string travels in a body.\<close>

definition prefixed :: "string \<Rightarrow> string" where
  "prefixed value = to_be_bytes 4 (length value) @ value"

definition execution_body :: "execution_request \<Rightarrow> string" where
  "execution_body request =
     prefixed (er_command request) @ to_be_bytes 4 (length (er_environment request)) @
     concat (map prefixed (er_environment request))"

definition execution_encode_request :: "execution_request \<Rightarrow> malformed_execution + string" where
  "execution_encode_request request =
     (if \<not> valid_request request then Inl MalformedExecution
      else let len = 8 + length (er_command request) +
                 sum_list (map (\<lambda>entry. 4 + length entry) (er_environment request))
           in if len > MAX_REQUEST_BYTES then Inl MalformedExecution
              else Inr (execution_framed 0 (execution_body request)))"

definition take_length :: "string \<Rightarrow> malformed_execution + (nat \<times> string)" where
  "take_length bytes =
     (if length bytes < 4 then Inl MalformedExecution
      else Inr (from_be_bytes (take 4 bytes), drop 4 bytes))"

definition take_string :: "string \<Rightarrow> malformed_execution + (string \<times> string)" where
  "take_string bytes =
     (case take_length bytes of
        Inl e \<Rightarrow> Inl e
      | Inr (len, rest) \<Rightarrow>
          if len > length rest then Inl MalformedExecution
          else if \<not> utf8_valid (take len rest) then Inl MalformedExecution
          else Inr (take len rest, drop len rest))"

fun take_strings :: "nat \<Rightarrow> string \<Rightarrow> malformed_execution + (string list \<times> string)" where
  "take_strings 0 bytes = Inr ([], bytes)"
| "take_strings (Suc count) bytes =
     (case take_string bytes of
        Inl e \<Rightarrow> Inl e
      | Inr (value, rest) \<Rightarrow>
          (case take_strings count rest of
             Inl e \<Rightarrow> Inl e
           | Inr (values, remaining) \<Rightarrow> Inr (value # values, remaining)))"

definition execution_decode_request :: "frame_header \<Rightarrow> string \<Rightarrow> malformed_execution + execution_request" where
  "execution_decode_request header body =
     (if fh_code header \<noteq> 0 \<or> fh_body_length header > MAX_REQUEST_BYTES \<or> length body \<noteq> fh_body_length header
      then Inl MalformedExecution
      else case take_string body of
        Inl e \<Rightarrow> Inl e
      | Inr (command, rest) \<Rightarrow>
          (case take_length rest of
             Inl e \<Rightarrow> Inl e
           | Inr (count, rest) \<Rightarrow>
               if count > MAX_CRON_ENVIRONMENT_VARIABLES then Inl MalformedExecution
               else (case take_strings count rest of
                  Inl e \<Rightarrow> Inl e
                | Inr (environment, rest) \<Rightarrow>
                    let request = \<lparr>er_command = command, er_environment = environment\<rparr>
                    in if rest \<noteq> [] \<or> \<not> valid_request request then Inl MalformedExecution
                       else Inr request)))"

definition execution_reply_ok :: "execution_frame \<Rightarrow> bool" where
  "execution_reply_ok reply =
     (case reply of
        StdoutOf bytes \<Rightarrow> 1 \<le> length bytes \<and> length bytes \<le> MAX_OUTPUT_BYTES
      | StderrOf bytes \<Rightarrow> 1 \<le> length bytes \<and> length bytes \<le> MAX_OUTPUT_BYTES
      | Exit code signal \<Rightarrow>
          \<not> (code > MAX_EXIT_CODE \<or> signal > MAX_SIGNAL \<or> (code \<noteq> 0 \<and> signal \<noteq> 0))
      | _ \<Rightarrow> True)"

fun execution_reply_parts :: "execution_frame \<Rightarrow> nat \<times> string" where
  "execution_reply_parts Started = (1, [])"
| "execution_reply_parts (StdoutOf bytes) = (2, bytes)"
| "execution_reply_parts (StderrOf bytes) = (3, bytes)"
| "execution_reply_parts (Exit code signal) = (4, to_be_bytes 4 code @ to_be_bytes 4 signal)"
| "execution_reply_parts (Rejected reason) = (5, [byte (rejection_code reason)])"

definition execution_reply_bytes :: "execution_frame \<Rightarrow> string" where
  "execution_reply_bytes reply =
     execution_framed (fst (execution_reply_parts reply)) (snd (execution_reply_parts reply))"

definition execution_encode_reply :: "execution_frame \<Rightarrow> malformed_execution + string" where
  "execution_encode_reply reply =
     (if \<not> execution_reply_ok reply then Inl MalformedExecution
      else case execution_decode_reply_header (take HEADER_BYTES (execution_reply_bytes reply)) of
             Inl e \<Rightarrow> Inl e
           | Inr _ \<Rightarrow> Inr (execution_reply_bytes reply))"

definition execution_decode_reply :: "frame_header \<Rightarrow> string \<Rightarrow> malformed_execution + execution_frame" where
  "execution_decode_reply header body =
     (if length body \<noteq> fh_body_length header then Inl MalformedExecution
      else if fh_code header = 1 \<and> body = [] then Inr Started
      else if (fh_code header = 2 \<or> fh_code header = 3) \<and> 1 \<le> length body \<and> length body \<le> MAX_OUTPUT_BYTES
      then Inr (if fh_code header = 2 then StdoutOf body else StderrOf body)
      else if fh_code header = 4 \<and> length body = 8
      then (let code = from_be_bytes (take 4 body); signal = from_be_bytes (drop 4 body)
            in if code > MAX_EXIT_CODE \<or> signal > MAX_SIGNAL \<or> (signal \<noteq> 0 \<and> code \<noteq> 0)
               then Inl MalformedExecution else Inr (Exit code signal))
      else if fh_code header = 5 \<and> length body = 1
      then (let reason = byte_value (hd body)
            in if reason = 1 then Inr (Rejected Malformed)
               else if reason = 2 then Inr (Rejected SpawnFailed)
               else if reason = 3 then Inr (Rejected Busy)
               else Inl MalformedExecution)
      else Inl MalformedExecution)"

section \<open>Cron executions arrive as they were sent\<close>

interpretation execution: framed EXECUTION_MAGIC execution_framed
  by unfold_locales (simp_all add: EXECUTION_MAGIC_def execution_framed_def)

lemma execution_header_iff:
  "execution_decode_header h = Inr header \<longleftrightarrow>
     h = EXECUTION_MAGIC @ [byte (fh_code header)] @ to_be_bytes 4 (fh_body_length header) \<and>
     fh_code header < 256 \<and> fh_body_length header < 2 ^ 32"
  using execution.header_iff [of h "fh_code header" "fh_body_length header"]
  by (cases header) (auto simp: execution_decode_header_def HEADER_BYTES_def)

lemma take_length_iff: "take_length bs = Inr (n, rest) \<longleftrightarrow> bs = to_be_bytes 4 n @ rest \<and> n < 2 ^ 32"
proof
  assume "take_length bs = Inr (n, rest)"
  then have parts: "length (take 4 bs) = 4" "from_be_bytes (take 4 bs) = n" "rest = drop 4 bs"
    by (auto simp: take_length_def split: if_splits)
  with to_be_u32_iff [THEN iffD1, OF conjI, OF parts(1,2)] show "bs = to_be_bytes 4 n @ rest \<and> n < 2 ^ 32"
    by (metis append_take_drop_id)
qed (auto simp: take_length_def)

lemma take_string_iff:
  "take_string bs = Inr (v, rest) \<longleftrightarrow> bs = prefixed v @ rest \<and> utf8_valid v \<and> length v < 2 ^ 32"
proof -
  have "take_string bs = Inr (v, rest) \<longleftrightarrow>
      (\<exists>n more. take_length bs = Inr (n, more) \<and> n \<le> length more \<and> utf8_valid (take n more) \<and>
         v = take n more \<and> rest = drop n more)"
    by (auto simp: take_string_def split: sum.splits prod.splits)
  also have "\<dots> \<longleftrightarrow> bs = prefixed v @ rest \<and> utf8_valid v \<and> length v < 2 ^ 32"
    by (auto simp: take_length_iff prefixed_def min_def) fastforce
  finally show ?thesis .
qed

lemma take_strings_iff:
  "take_strings n bs = Inr (vs, rest) \<longleftrightarrow>
     bs = concat (map prefixed vs) @ rest \<and> length vs = n \<and> (\<forall>v \<in> set vs. utf8_valid v \<and> length v < 2 ^ 32)"
proof (induction n arbitrary: bs vs)
  case (Suc n)
  have "take_strings (Suc n) bs = Inr (vs, rest) \<longleftrightarrow>
      (\<exists>v ws more. take_string bs = Inr (v, more) \<and> take_strings n more = Inr (ws, rest) \<and> vs = v # ws)"
    by (auto split: sum.splits prod.splits)
  then show ?case
    by (cases vs) (auto simp: Suc take_string_iff)
qed auto

lemma length_execution_body:
  "length (execution_body request) =
     8 + length (er_command request) + sum_list (map (\<lambda>entry. 4 + length entry) (er_environment request))"
proof -
  have "length (concat (map prefixed vs)) = sum_list (map (\<lambda>entry. 4 + length entry) vs)" for vs
    by (induction vs) (simp_all add: prefixed_def)
  then show ?thesis by (simp add: execution_body_def prefixed_def)
qed

lemma sized_entries: "v \<in> set vs \<Longrightarrow> length v \<le> sum_list (map (\<lambda>entry. 4 + length entry) vs)"
  by (induction vs) auto

lemmas request_bounds = MAX_REQUEST_BYTES_def MAX_CRONTAB_BYTES_def MAX_CRON_ENVIRONMENT_VARIABLES_def

lemma execution_request_header_iff:
  "execution_decode_request_header h = Inr header \<longleftrightarrow>
     h = EXECUTION_MAGIC @ [byte 0] @ to_be_bytes 4 (fh_body_length header) \<and> fh_code header = 0 \<and>
     fh_body_length header \<le> MAX_REQUEST_BYTES"
proof -
  have "execution_decode_request_header h = Inr header \<longleftrightarrow>
      execution_decode_header h = Inr header \<and> fh_code header = 0 \<and> fh_body_length header \<le> MAX_REQUEST_BYTES"
    by (auto simp: execution_decode_request_header_def split: sum.splits if_splits)
  then show ?thesis by (auto simp: execution_header_iff request_bounds)
qed

lemma execution_decode_request_iff:
  assumes "fh_code header = 0" "fh_body_length header \<le> MAX_REQUEST_BYTES"
  shows "execution_decode_request header body = Inr request \<longleftrightarrow>
     length body = fh_body_length header \<and> body = execution_body request \<and> valid_request request \<and>
     list_all utf8_valid (er_command request # er_environment request)" (is "?L \<longleftrightarrow> ?R")
proof
  assume ?L
  then obtain command rest count more environment
    where parts: "take_string body = Inr (command, rest)" "take_length rest = Inr (count, more)"
      "take_strings count more = Inr (environment, [])"
      "request = \<lparr>er_command = command, er_environment = environment\<rparr>" "valid_request request"
      "length body = fh_body_length header"
    by (auto simp: execution_decode_request_def Let_def split: sum.splits prod.splits if_splits)
  then show ?R by (auto simp: take_string_iff take_length_iff take_strings_iff execution_body_def list_all_iff)
next
  assume r: ?R
  have sizes: "length v < 2 ^ 32" if "v \<in> insert (er_command request) (set (er_environment request))" for v
    using that r assms(2) length_execution_body [of request] sized_entries [of v "er_environment request"]
    by (auto simp: request_bounds)
  have parts: "take_string (execution_body request) = Inr (er_command request,
      to_be_bytes 4 (length (er_environment request)) @ concat (map prefixed (er_environment request)))"
    using r sizes by (simp add: take_string_iff execution_body_def)
  have count: "length (er_environment request) \<le> MAX_CRON_ENVIRONMENT_VARIABLES"
    using r by (simp add: valid_request_def)
  then have "take_length (to_be_bytes 4 (length (er_environment request)) @ concat (map prefixed (er_environment request)))
      = Inr (length (er_environment request), concat (map prefixed (er_environment request)))"
    by (simp add: take_length_iff request_bounds)
  moreover have "take_strings (length (er_environment request)) (concat (map prefixed (er_environment request))) =
      Inr (er_environment request, [])"
    using r sizes by (simp add: take_strings_iff list_all_iff)
  moreover have eta: "\<lparr>er_command = er_command request, er_environment = er_environment request\<rparr> = request"
    by simp
  ultimately show ?L
    using r assms count by (auto simp: execution_decode_request_def parts Let_def eta)
qed

text \<open>
  A cron execution reaches the guest as the host sent it. A request whose strings are text is
  encoded into exactly those bytes whose header and body the guest decodes into the same request:
  nothing is lost on the way, and nothing but an encoded request is ever taken for one.
\<close>

lemma executions_round_trip:
  assumes "list_all utf8_valid (er_command request # er_environment request)"
  shows "execution_encode_request request = Inr bytes \<longleftrightarrow>
    (\<exists>header. execution_decode_request_header (take HEADER_BYTES bytes) = Inr header \<and>
       execution_decode_request header (drop HEADER_BYTES bytes) = Inr request)" (is "?L \<longleftrightarrow> ?R")
proof -
  have "?L \<longleftrightarrow> valid_request request \<and> length (execution_body request) \<le> MAX_REQUEST_BYTES \<and>
      bytes = execution_framed 0 (execution_body request)"
    by (auto simp: execution_encode_request_def length_execution_body Let_def)
  also have "\<dots> \<longleftrightarrow> valid_request request \<and> length (execution_body request) \<le> MAX_REQUEST_BYTES \<and>
      take 9 bytes = EXECUTION_MAGIC @ [byte 0] @ to_be_bytes 4 (length (execution_body request)) \<and>
      drop 9 bytes = execution_body request"
    by (metis append.assoc append_take_drop_id execution.frame_parts(2,3))
  also have "\<dots> \<longleftrightarrow> (\<exists>header. execution_decode_request_header (take 9 bytes) = Inr header \<and>
      execution_decode_request header (drop 9 bytes) = Inr request)"
    using assms
    by (auto simp: execution_request_header_iff execution_decode_request_iff simp del: length_drop
        intro!: exI [of _ "\<lparr>fh_code = 0, fh_body_length = length (execution_body request)\<rparr>"])
  finally show ?thesis by (simp add: HEADER_BYTES_def)
qed

definition sample_execution :: execution_request where
  "sample_execution = \<lparr>er_command = ''tidy'', er_environment = [''A=1'', ''B_2='']\<rparr>"

lemma execution_reply_decodes:
  assumes "execution_reply_ok reply" "execution_reply_parts reply = (code, body)"
  shows "execution_decode_reply_header (take 9 (execution_framed code body)) =
      Inr \<lparr>fh_code = code, fh_body_length = length body\<rparr> \<and>
    execution_decode_reply \<lparr>fh_code = code, fh_body_length = length body\<rparr> body = Inr reply"
proof -
  have header: "execution_decode_header (take 9 (execution_framed code body)) =
      Inr \<lparr>fh_code = code, fh_body_length = length body\<rparr>" if "code < 256" "length body \<le> 4096"
    using that by (simp add: execution_header_iff execution.frame_parts)
  show ?thesis
  proof (cases reply)
    case (Rejected reason)
    with assms header show ?thesis
      by (cases reason) (auto simp: execution_decode_reply_header_def execution_decode_reply_def)
  qed (use assms header in \<open>auto simp: execution_decode_reply_header_def execution_decode_reply_def
        execution_reply_ok_def MAX_OUTPUT_BYTES_def MAX_EXIT_CODE_def MAX_SIGNAL_def\<close>)
qed

text \<open>What the guest answers is read back as it was said, and only what fits is said.\<close>

lemma execution_replies_round_trip:
  "execution_encode_reply reply =
     (if execution_reply_ok reply then Inr (execution_reply_bytes reply) else Inl MalformedExecution)"
  "execution_encode_reply reply = Inr bytes \<Longrightarrow>
     \<exists>header. execution_decode_reply_header (take HEADER_BYTES bytes) = Inr header \<and>
       execution_decode_reply header (drop HEADER_BYTES bytes) = Inr reply"
  using execution_reply_decodes [of reply "fst (execution_reply_parts reply)" "snd (execution_reply_parts reply)"]
  by (auto simp: execution_encode_reply_def execution_reply_bytes_def HEADER_BYTES_def execution.frame_parts
      split: if_splits)

section \<open>Cron registrations\<close>

definition REGISTRATION_MAGIC :: string where
  "REGISTRATION_MAGIC = ''NBC1''"

definition STATUS_OK :: nat where
  "STATUS_OK = 0"

definition STATUS_REJECTED :: nat where
  "STATUS_REJECTED = 1"

datatype registration_request = Replace string | ListRegistered

record registration_reply =
  rg_status :: nat
  rg_text :: string

datatype malformed_registration = MalformedRegistration

definition registration_decode_header :: "string \<Rightarrow> malformed_registration + frame_header" where
  "registration_decode_header bytes =
     (if length bytes \<noteq> HEADER_BYTES \<or> take 4 bytes \<noteq> REGISTRATION_MAGIC then Inl MalformedRegistration
      else let len = from_be_bytes (take 4 (drop 5 bytes))
           in if len > MAX_CRONTAB_BYTES then Inl MalformedRegistration
              else Inr \<lparr>fh_code = byte_value (bytes ! 4), fh_body_length = len\<rparr>)"

definition registration_encode :: "nat \<Rightarrow> string \<Rightarrow> string" where
  "registration_encode code text = REGISTRATION_MAGIC @ [byte code] @ to_be_bytes 4 (length text) @ text"

fun registration_encode_request :: "registration_request \<Rightarrow> string" where
  "registration_encode_request (Replace text) = registration_encode 1 text"
| "registration_encode_request ListRegistered = registration_encode 2 []"

definition registration_decode_request_header :: "string \<Rightarrow> malformed_registration + frame_header" where
  "registration_decode_request_header bytes =
     (case registration_decode_header bytes of
        Inl e \<Rightarrow> Inl e
      | Inr header \<Rightarrow>
          if fh_code header \<notin> {1, 2} \<or> (fh_code header = 2 \<and> fh_body_length header \<noteq> 0)
          then Inl MalformedRegistration else Inr header)"

definition registration_decode_request :: "frame_header \<Rightarrow> string \<Rightarrow> malformed_registration + registration_request" where
  "registration_decode_request header body =
     (if length body \<noteq> fh_body_length header \<or> length body > MAX_CRONTAB_BYTES then Inl MalformedRegistration
      else if fh_code header = 1
      then (if \<not> utf8_valid body then Inl MalformedRegistration
            else case crontab_parse body of Inl _ \<Rightarrow> Inl MalformedRegistration | Inr text \<Rightarrow> Inr (Replace text))
      else if fh_code header = 2 \<and> body = [] then Inr ListRegistered
      else Inl MalformedRegistration)"

definition registration_encode_reply :: "nat \<Rightarrow> string \<Rightarrow> string" where
  "registration_encode_reply status text = registration_encode status text"

definition registration_decode_reply_header :: "string \<Rightarrow> malformed_registration + frame_header" where
  "registration_decode_reply_header bytes =
     (case registration_decode_header bytes of
        Inl e \<Rightarrow> Inl e
      | Inr header \<Rightarrow>
          if fh_code header \<notin> {STATUS_OK, STATUS_REJECTED} then Inl MalformedRegistration else Inr header)"

definition registration_decode_reply :: "frame_header \<Rightarrow> string \<Rightarrow> malformed_registration + registration_reply" where
  "registration_decode_reply header body =
     (if length body \<noteq> fh_body_length header \<or> length body > MAX_CRONTAB_BYTES \<or>
         fh_code header \<notin> {STATUS_OK, STATUS_REJECTED} then Inl MalformedRegistration
      else if \<not> utf8_valid body then Inl MalformedRegistration
      else Inr \<lparr>rg_status = fh_code header, rg_text = body\<rparr>)"

interpretation registration: framed REGISTRATION_MAGIC registration_encode
  by unfold_locales (simp_all add: REGISTRATION_MAGIC_def registration_encode_def)

lemma registration_header:
  assumes "code < 256" "length text \<le> MAX_CRONTAB_BYTES"
  shows "registration_decode_header (take 9 (registration_encode code text)) =
    Inr \<lparr>fh_code = code, fh_body_length = length text\<rparr>"
proof -
  let ?h = "take 9 (registration_encode code text)"
  have "length ?h = 9 \<and> take 4 ?h = REGISTRATION_MAGIC \<and> byte_value (?h ! 4) = code \<and>
      from_be_bytes (take 4 (drop 5 ?h)) = length text"
    unfolding registration.header_iff using assms by (simp add: registration.frame_parts MAX_CRONTAB_BYTES_def)
  with assms show ?thesis by (simp add: registration_decode_header_def HEADER_BYTES_def)
qed

text \<open>
  A crontab a guest may register reaches the host whole, and so does every answer; what the host
  decodes into a replacement is a crontab it could have parsed itself.
\<close>

lemma registrations_round_trip:
  assumes "case request of Replace text \<Rightarrow> crontab_parse text = Inr text \<and> utf8_valid text | ListRegistered \<Rightarrow> True"
  shows "\<exists>header. registration_decode_request_header (take 9 (registration_encode_request request)) = Inr header \<and>
    registration_decode_request header (drop 9 (registration_encode_request request)) = Inr request"
proof (cases request)
  case (Replace body)
  with assms show ?thesis
    by (intro exI [of _ "\<lparr>fh_code = 1, fh_body_length = length body\<rparr>"])
      (auto simp: registration_decode_request_header_def registration_header registration_decode_request_def
        registration.frame_parts(3) crontab_parse_def split: if_splits)
qed (auto simp: registration_decode_request_header_def registration_header registration_decode_request_def
      registration.frame_parts(3))

lemma registration_replies_round_trip:
  assumes "status = STATUS_OK \<or> status = STATUS_REJECTED" "length text \<le> MAX_CRONTAB_BYTES" "utf8_valid text"
  shows "\<exists>header. registration_decode_reply_header (take 9 (registration_encode_reply status text)) = Inr header \<and>
    registration_decode_reply header (drop 9 (registration_encode_reply status text)) =
      Inr \<lparr>rg_status = status, rg_text = text\<rparr>"
  using assms
  by (intro exI [of _ "\<lparr>fh_code = status, fh_body_length = length text\<rparr>"])
    (auto simp: registration_decode_reply_header_def registration_header registration_decode_reply_def
      registration_encode_reply_def registration.frame_parts(3) STATUS_OK_def STATUS_REJECTED_def)

section \<open>The log stream of a guest\<close>

definition FRAME_MAGIC :: string where
  "FRAME_MAGIC = ''NBL1''"

definition FRAME_HEADER_BYTES :: nat where
  "FRAME_HEADER_BYTES = 9"

definition MAX_FRAME_PAYLOAD_BYTES :: nat where
  "MAX_FRAME_PAYLOAD_BYTES = 65536"

definition RESTART_HEADER_BYTES :: nat where
  "RESTART_HEADER_BYTES = 21"

definition KIND_STDOUT :: nat where
  "KIND_STDOUT = 1"

definition KIND_STDERR :: nat where
  "KIND_STDERR = 2"

definition KIND_GAP :: nat where
  "KIND_GAP = 3"

definition KIND_RESTART :: nat where
  "KIND_RESTART = 4"

datatype guest_log_frame = LogData tenant_log_stream string | LogGap nat | LogRestart tenant_restart

text \<open>The error carries its reason.\<close>

datatype invalid_guest_log_frame = InvalidGuestLogFrame string

definition u32_at :: "string \<Rightarrow> nat \<Rightarrow> nat" where
  "u32_at payload offset = from_be_bytes (take 4 (drop offset payload))"

definition decode_restart :: "string \<Rightarrow> invalid_guest_log_frame + tenant_restart" where
  "decode_restart payload =
     (if length payload < RESTART_HEADER_BYTES
      then Inl (InvalidGuestLogFrame ''invalid restart payload length'')
      else let ended_with = as_i32 (u32_at payload 9);
               restart = (\<lambda>exit.
                 let reason = drop RESTART_HEADER_BYTES payload
                 in if \<not> utf8_valid reason
                    then Inl (InvalidGuestLogFrame ''the restart reason is not text'')
                    else Inr \<lparr>tr_attempt = u32_at payload 0, tr_budget = u32_at payload 4, tr_exit = exit,
                      tr_reason = state_message_new reason,
                      tr_backoff_ms = from_be_bytes (take 8 (drop 13 payload))\<rparr>)
           in if byte_value (payload ! 8) = 0 then restart (ExitCode ended_with)
              else if byte_value (payload ! 8) = 1 then restart (ExitSignal ended_with)
              else Inl (InvalidGuestLogFrame ''unknown tenant exit kind''))"

definition frame_from :: "nat \<Rightarrow> string \<Rightarrow> invalid_guest_log_frame + guest_log_frame" where
  "frame_from kind payload =
     (if kind = KIND_STDOUT then Inr (LogData Stdout payload)
      else if kind = KIND_STDERR then Inr (LogData Stderr payload)
      else if kind = KIND_GAP
      then (if length payload \<noteq> 8 then Inl (InvalidGuestLogFrame ''invalid gap payload length'')
            else Inr (LogGap (from_be_bytes payload)))
      else if kind = KIND_RESTART then map_sum id LogRestart (decode_restart payload)
      else Inl (InvalidGuestLogFrame ''unknown frame kind''))"

text \<open>The loop of \<open>decode_frames\<close>: what is left at the end is kept for the next chunk.\<close>

function decode_loop :: "string \<Rightarrow> invalid_guest_log_frame + (guest_log_frame list \<times> string)" where
  "decode_loop rest =
     (if length rest < FRAME_HEADER_BYTES then Inr ([], rest)
      else if take 4 rest \<noteq> FRAME_MAGIC then Inl (InvalidGuestLogFrame ''invalid magic value'')
      else let payload_length = u32_at rest 5
           in if payload_length > MAX_FRAME_PAYLOAD_BYTES
              then Inl (InvalidGuestLogFrame ''payload exceeds the limit'')
              else if length rest < FRAME_HEADER_BYTES + payload_length then Inr ([], rest)
              else case frame_from (byte_value (rest ! 4)) (take payload_length (drop FRAME_HEADER_BYTES rest)) of
                     Inl e \<Rightarrow> Inl e
                   | Inr f \<Rightarrow>
                       (case decode_loop (drop (FRAME_HEADER_BYTES + payload_length) rest) of
                          Inl e \<Rightarrow> Inl e
                        | Inr (frames, kept) \<Rightarrow> Inr (f # frames, kept)))"
  by pat_completeness auto
termination
  by (relation "measure length") (auto simp: FRAME_HEADER_BYTES_def)

declare decode_loop.simps [simp del]

definition decode_frames :: "string \<Rightarrow> string \<Rightarrow> invalid_guest_log_frame + (guest_log_frame list \<times> string)" where
  "decode_frames buffered chunk = decode_loop (buffered @ chunk)"

definition encode_frame :: "nat \<Rightarrow> string \<Rightarrow> string" where
  "encode_frame kind payload = FRAME_MAGIC @ [byte kind] @ to_be_bytes 4 (length payload) @ payload"

definition encode_gap :: "nat \<Rightarrow> string" where
  "encode_gap dropped_bytes = encode_frame KIND_GAP (to_be_bytes 8 dropped_bytes)"

definition encode_restart :: "tenant_restart \<Rightarrow> string" where
  "encode_restart restart =
     (let (kind, ended_with) = (case tr_exit restart of ExitCode code \<Rightarrow> (0, code) | ExitSignal signal \<Rightarrow> (1, signal))
      in encode_frame KIND_RESTART
        (to_be_bytes 4 (tr_attempt restart) @ to_be_bytes 4 (tr_budget restart) @ [byte kind] @
         to_be_bytes 4 (i32_bits ended_with) @ to_be_bytes 8 (tr_backoff_ms restart) @ tr_reason restart))"

fun kind_of :: "tenant_log_stream \<Rightarrow> nat" where
  "kind_of Stdout = KIND_STDOUT"
| "kind_of Stderr = KIND_STDERR"

section \<open>A log stream is read the same way however it is cut\<close>

interpretation logs: framed FRAME_MAGIC encode_frame
  by unfold_locales (simp_all add: FRAME_MAGIC_def encode_frame_def)

text \<open>The chunks of a connection, one read after another, with what was left over kept in between.\<close>

fun read_chunks :: "string \<Rightarrow> string list \<Rightarrow> invalid_guest_log_frame + (guest_log_frame list \<times> string)" where
  "read_chunks buffered [] = Inr ([], buffered)"
| "read_chunks buffered (chunk # chunks) =
     (case decode_frames buffered chunk of
        Inl e \<Rightarrow> Inl e
      | Inr (frames, kept) \<Rightarrow>
          (case read_chunks kept chunks of
             Inl e \<Rightarrow> Inl e
           | Inr (others, left) \<Rightarrow> Inr (frames @ others, left)))"

lemma u32_at_append: "offset + 4 \<le> length bs \<Longrightarrow> u32_at (bs @ cs) offset = u32_at bs offset"
  by (simp add: u32_at_def)

lemma decode_loop_append:
  "decode_loop (bs @ cs) =
     (case decode_loop bs of
        Inl e \<Rightarrow> Inl e
      | Inr (frames, kept) \<Rightarrow>
          (case decode_loop (kept @ cs) of
             Inl e \<Rightarrow> Inl e
           | Inr (others, left) \<Rightarrow> Inr (frames @ others, left)))"
proof (induction bs rule: decode_loop.induct)
  case (1 bs)
  let ?n = "u32_at bs 5"
  consider "length bs < 9" | "9 \<le> length bs" "take 4 bs \<noteq> FRAME_MAGIC \<or> ?n > MAX_FRAME_PAYLOAD_BYTES"
    | "9 \<le> length bs" "take 4 bs = FRAME_MAGIC" "?n \<le> MAX_FRAME_PAYLOAD_BYTES" "length bs < 9 + ?n"
    | "take 4 bs = FRAME_MAGIC" "?n \<le> MAX_FRAME_PAYLOAD_BYTES" "9 + ?n \<le> length bs"
    by linarith
  then show ?case
  proof cases
    case 1
    then show ?thesis
      by (simp add: decode_loop.simps [of bs] FRAME_HEADER_BYTES_def split: sum.splits prod.splits)
  next
    case 2
    then show ?thesis
      by (auto simp: decode_loop.simps [of bs] decode_loop.simps [of "bs @ cs"] FRAME_HEADER_BYTES_def u32_at_append
          Let_def)
  next
    case 3
    then show ?thesis
      by (simp add: decode_loop.simps [of bs] FRAME_HEADER_BYTES_def split: sum.splits prod.splits)
  next
    case 4
    note step = "1.IH" [unfolded FRAME_HEADER_BYTES_def]
    have nth: "(bs @ cs) ! 4 = bs ! 4" using 4(3) by (simp add: nth_append)
    show ?thesis
      using 4 step
      by (auto simp: decode_loop.simps [of bs] decode_loop.simps [of "bs @ cs"] FRAME_HEADER_BYTES_def u32_at_append
          nth Let_def split: sum.splits prod.splits)
  qed
qed

lemma decode_loop_kept: "decode_loop bs = Inr (frames, kept) \<Longrightarrow> decode_loop kept = Inr ([], kept)"
proof (induction bs arbitrary: frames rule: decode_loop.induct)
  case (1 bs)
  show ?case
  proof (cases "frames")
    case Nil
    with "1.prems" show ?thesis
      by (simp add: decode_loop.simps [of bs] Let_def split: if_splits sum.splits prod.splits)
        (simp_all add: decode_loop.simps Let_def)
  next
    case (Cons f more)
    with "1.prems" have "decode_loop (drop (FRAME_HEADER_BYTES + u32_at bs 5) bs) = Inr (more, kept)"
      and "\<not> length bs < FRAME_HEADER_BYTES" "take 4 bs = FRAME_MAGIC" "\<not> u32_at bs 5 > MAX_FRAME_PAYLOAD_BYTES"
        "\<not> length bs < FRAME_HEADER_BYTES + u32_at bs 5"
        "\<exists>g. frame_from (byte_value (bs ! 4)) (take (u32_at bs 5) (drop FRAME_HEADER_BYTES bs)) = Inr g"
      by (auto simp: decode_loop.simps [of bs] Let_def split: if_splits sum.splits prod.splits)
    with "1.IH" show ?thesis by auto
  qed
qed

lemma read_chunks_at_once:
  "decode_loop buffered = Inr ([], buffered) \<Longrightarrow> read_chunks buffered chunks = decode_loop (buffered @ concat chunks)"
proof (induction chunks arbitrary: buffered)
  case (Cons chunk chunks)
  show ?case
  proof (cases "decode_loop (buffered @ chunk)")
    case (Inl e)
    then show ?thesis
      using decode_loop_append [of "buffered @ chunk" "concat chunks"] by (simp add: decode_frames_def)
  next
    case (Inr r)
    obtain frames kept where r: "r = (frames, kept)" by (cases r)
    with Inr Cons.IH [OF decode_loop_kept] show ?thesis
      using decode_loop_append [of "buffered @ chunk" "concat chunks"] by (simp add: decode_frames_def)
  qed
qed simp

lemma decode_loop_Nil [simp]: "decode_loop [] = Inr ([], [])"
  by (simp add: decode_loop.simps FRAME_HEADER_BYTES_def)

fun encode_log_frame :: "guest_log_frame \<Rightarrow> string" where
  "encode_log_frame (LogData stream bytes) = encode_frame (kind_of stream) bytes"
| "encode_log_frame (LogGap dropped_bytes) = encode_gap dropped_bytes"
| "encode_log_frame (LogRestart restart) = encode_restart restart"

text \<open>The values a frame can hold: payloads within the limit, and integers and messages of their types.\<close>

fun log_frame_ok :: "guest_log_frame \<Rightarrow> bool" where
  "log_frame_ok (LogData stream bytes) \<longleftrightarrow> length bytes \<le> MAX_FRAME_PAYLOAD_BYTES"
| "log_frame_ok (LogGap dropped_bytes) \<longleftrightarrow> dropped_bytes < 2 ^ 64"
| "log_frame_ok (LogRestart restart) \<longleftrightarrow>
     tr_attempt restart < 2 ^ 32 \<and> tr_budget restart < 2 ^ 32 \<and> tr_backoff_ms restart < 2 ^ 64 \<and>
     (case tr_exit restart of ExitCode i \<Rightarrow> - (2 ^ 31) \<le> i \<and> i < 2 ^ 31 | ExitSignal i \<Rightarrow> - (2 ^ 31) \<le> i \<and> i < 2 ^ 31) \<and>
     utf8_valid (tr_reason restart) \<and> state_message_new (tr_reason restart) = tr_reason restart"

lemma decode_loop_frame:
  assumes "kind < 256" "length payload \<le> MAX_FRAME_PAYLOAD_BYTES"
  shows "decode_loop (encode_frame kind payload @ rest) =
    (case frame_from kind payload of
       Inl e \<Rightarrow> Inl e
     | Inr f \<Rightarrow> (case decode_loop rest of Inl e \<Rightarrow> Inl e | Inr (frames, kept) \<Rightarrow> Inr (f # frames, kept)))"
proof -
  let ?f = "encode_frame kind payload"
  have parts: "take 4 (?f @ rest) = FRAME_MAGIC" "u32_at (?f @ rest) 5 = length payload"
    "(?f @ rest) ! 4 = byte kind" "drop 9 (?f @ rest) = payload @ rest" "length ?f = 9 + length payload"
    using assms logs.frame_parts [of kind payload]
    by (simp_all add: u32_at_append nth_append, simp add: u32_at_def MAX_FRAME_PAYLOAD_BYTES_def)
  have "drop (9 + length payload) (?f @ rest) = rest"
    using parts(5) by simp
  with parts assms show ?thesis
    by (subst decode_loop.simps) (auto simp: FRAME_HEADER_BYTES_def split: sum.split)
qed

lemma utf8_step_char:
  assumes "utf8_step_of s = Whole n"
  shows "n \<le> 4 \<and> s \<noteq> [] \<and> \<not> is_utf8_continuation (hd s)"
proof -
  have bound: "n \<le> seen + wanted" if "utf8_tails seen wanted t = Whole n" for seen wanted t
    using that by (induction seen wanted t rule: utf8_tails.induct) (auto split: if_splits)
  show ?thesis
    using assms
    by (cases s) (auto simp: Let_def is_utf8_continuation_def dest!: bound split: if_splits list.splits)
qed

lemma utf8_valid_length: "utf8_valid s \<Longrightarrow> length s \<le> 4 * char_count s"
proof (induction s rule: utf8_valid.induct)
  case (1 s)
  show ?case
  proof (cases "s = []")
    case False
    with "1.prems" obtain n where n: "utf8_step_of s = Whole n" "utf8_valid (drop n s)"
      by (auto simp: utf8_valid.simps [of s] split: utf8_step.splits)
    with "1.IH" False have "length (drop n s) \<le> 4 * char_count (drop n s)" by blast
    moreover have "char_count s = char_count (take n s) + char_count (drop n s)"
      unfolding char_count_def by (simp flip: length_append filter_append)
    moreover have "1 \<le> char_count (take n s)" "n \<le> 4"
      using utf8_step_char [OF n(1)] utf8_step_pos(1) [OF n(1)]
      by (cases s; cases n; simp add: char_count_def)+
    ultimately show ?thesis by simp
  qed simp
qed

lemma log_frame_decodes:
  assumes "log_frame_ok f"
  shows "\<exists>kind payload. encode_log_frame f = encode_frame kind payload \<and> kind < 256 \<and>
    length payload \<le> MAX_FRAME_PAYLOAD_BYTES \<and> frame_from kind payload = Inr f"
proof (cases f)
  case (LogData stream bytes)
  with assms show ?thesis
    by (intro exI [of _ "kind_of stream"] exI [of _ bytes], cases stream)
      (auto simp: frame_from_def KIND_STDOUT_def KIND_STDERR_def)
next
  case (LogGap dropped)
  with assms show ?thesis
    by (intro exI [of _ KIND_GAP] exI [of _ "to_be_bytes 8 dropped"])
      (simp add: frame_from_def encode_gap_def KIND_STDOUT_def KIND_STDERR_def KIND_GAP_def MAX_FRAME_PAYLOAD_BYTES_def)
next
  case (LogRestart restart)
  obtain kind ended where exit: "(case tr_exit restart of ExitCode code \<Rightarrow> (0, code) | ExitSignal signal \<Rightarrow> (1, signal)) =
      (kind :: nat, ended :: int)" by fastforce
  let ?p = "to_be_bytes 4 (tr_attempt restart) @ to_be_bytes 4 (tr_budget restart) @ [byte kind] @
    to_be_bytes 4 (i32_bits ended) @ to_be_bytes 8 (tr_backoff_ms restart) @ tr_reason restart"
  have "char_count (tr_reason restart) \<le> 512"
    using assms LogRestart state_message_bounded [of "tr_reason restart"]
    by (simp add: MAX_STATE_MESSAGE_LENGTH_def)
  then have "length ?p \<le> MAX_FRAME_PAYLOAD_BYTES"
    using assms LogRestart utf8_valid_length [of "tr_reason restart"] by (simp add: MAX_FRAME_PAYLOAD_BYTES_def)
  moreover have "decode_restart ?p = Inr restart"
    using assms LogRestart exit
    by (cases restart; cases "tr_exit restart")
      (auto simp: decode_restart_def RESTART_HEADER_BYTES_def u32_at_def nth_append)
  ultimately show ?thesis
    using LogRestart exit
    by (intro exI [of _ KIND_RESTART] exI [of _ ?p])
      (simp add: encode_restart_def frame_from_def KIND_STDOUT_def KIND_STDERR_def KIND_GAP_def KIND_RESTART_def)
qed

text \<open>
  The log stream of a guest is read whole however the connection cuts it. Whatever frames the
  guest writes, and wherever the reads of the host split their bytes, the host takes exactly these
  frames from the stream, in order, and has nothing left over.
\<close>

lemma log_frames_survive_any_cut:
  assumes "list_all log_frame_ok frames" and "concat chunks = concat (map encode_log_frame frames)"
  shows "read_chunks [] chunks = Inr (frames, [])"
proof -
  have "decode_loop (concat (map encode_log_frame frames)) = Inr (frames, [])" if "list_all log_frame_ok frames" for frames
    using that
  proof (induction frames)
    case (Cons f frames)
    then obtain kind payload where "encode_log_frame f = encode_frame kind payload" "kind < 256"
      "length payload \<le> MAX_FRAME_PAYLOAD_BYTES" "frame_from kind payload = Inr f"
      using log_frame_decodes [of f] by auto
    with Cons show ?case by (simp add: decode_loop_frame)
  qed simp
  with assms show ?thesis by (simp add: read_chunks_at_once)
qed

end
