(* ===== verification/Logs.thy ===== *)
theory Logs
  imports Frames
begin

text \<open>
  What the host makes of a guest's log stream (\<open>crates/nibrunnerd/src/adapters/logs/receiver.rs\<close>):
  the lines under way on each stream, the events with their stamp and sequence, and the loop that
  reads a connection. Shown: whatever the reads and the idle times are, the text that is published
  is the text the guest wrote.
\<close>

section \<open>Text out of bytes\<close>

definition REPLACEMENT_CHARACTER :: string where
  "REPLACEMENT_CHARACTER = [byte 239, byte 191, byte 189]"

text \<open>\<open>String::from_utf8_lossy\<close>.\<close>

function lossy :: "string \<Rightarrow> string" where
  "lossy s =
     (if s = [] then []
      else case utf8_step_of s of
             Whole n \<Rightarrow> take n s @ lossy (drop n s)
           | Broken n \<Rightarrow> REPLACEMENT_CHARACTER @ lossy (drop n s)
           | CutShort \<Rightarrow> REPLACEMENT_CHARACTER)"
  by pat_completeness auto
termination
  by (relation "measure length") (auto dest!: utf8_step_pos)

function complete_prefix :: "string \<Rightarrow> nat" where
  "complete_prefix s =
     (if s = [] then 0
      else case utf8_step_of s of
             Whole n \<Rightarrow> n + complete_prefix (drop n s)
           | Broken n \<Rightarrow> n + complete_prefix (drop n s)
           | CutShort \<Rightarrow> 0)"
  by pat_completeness auto
termination
  by (relation "measure length") (auto dest!: utf8_step_pos)

declare lossy.simps [simp del] complete_prefix.simps [simp del]

lemma lossy_Nil [simp]: "lossy [] = []"
  by (simp add: lossy.simps)

lemma complete_prefix_Nil [simp]: "complete_prefix [] = 0"
  by (simp add: complete_prefix.simps)

section \<open>Lines under way\<close>

definition LONGEST_LINE_BYTES :: nat where
  "LONGEST_LINE_BYTES = 64 * 1024"

record open_lines =
  ol_stdout :: string
  ol_stderr :: string

definition no_lines :: open_lines where
  "no_lines = \<lparr>ol_stdout = [], ol_stderr = []\<rparr>"

fun held_on :: "tenant_log_stream \<Rightarrow> open_lines \<Rightarrow> string" where
  "held_on Stdout lines = ol_stdout lines"
| "held_on Stderr lines = ol_stderr lines"

fun hold_on :: "tenant_log_stream \<Rightarrow> string \<Rightarrow> open_lines \<Rightarrow> open_lines" where
  "hold_on Stdout held lines = lines\<lparr>ol_stdout := held\<rparr>"
| "hold_on Stderr held lines = lines\<lparr>ol_stderr := held\<rparr>"

definition holding :: "open_lines \<Rightarrow> bool" where
  "holding lines \<longleftrightarrow> ol_stdout lines \<noteq> [] \<or> ol_stderr lines \<noteq> []"

text \<open>The loop of \<open>extend\<close> over the newlines: the texts it emits and what it holds at the end.\<close>

fun extend_loop :: "string \<Rightarrow> string list \<Rightarrow> string list \<times> string" where
  "extend_loop held [] = ([], held)"
| "extend_loop held [rest] = ([], held @ rest)"
| "extend_loop held (ended # next # rest) =
     (let (texts, left) = extend_loop [] (next # rest) in (lossy (held @ ended) # texts, left))"

definition extend_lines ::
  "tenant_log_stream \<Rightarrow> string \<Rightarrow> open_lines \<Rightarrow> (tenant_log_stream \<times> string) list \<times> open_lines" where
  "extend_lines stream bytes lines =
     (let (texts, held) = extend_loop (held_on stream lines) (split_on CHR 0x0A bytes)
      in if length held \<ge> LONGEST_LINE_BYTES
         then let cut = complete_prefix held
              in (map (Pair stream) (texts @ [lossy (take cut held)]), hold_on stream (drop cut held) lines)
         else (map (Pair stream) texts, hold_on stream held lines))"

definition flush_lines :: "open_lines \<Rightarrow> (tenant_log_stream \<times> string) list \<times> open_lines" where
  "flush_lines lines =
     fold (\<lambda>stream (texts, lines).
         let held = held_on stream lines; whole = complete_prefix held
         in if whole > 0
            then (texts @ [(stream, lossy (take whole held))], hold_on stream (drop whole held) lines)
            else (texts, lines)) [Stdout, Stderr] ([], lines)"

definition close_lines :: "open_lines \<Rightarrow> (tenant_log_stream \<times> string) list \<times> open_lines" where
  "close_lines lines =
     fold (\<lambda>stream (texts, lines).
         let held = held_on stream lines
         in if held \<noteq> [] then (texts @ [(stream, lossy held)], hold_on stream [] lines)
            else (texts, lines)) [Stdout, Stderr] ([], lines)"

section \<open>Events\<close>

datatype tenant_log_body =
    BodyData tenant_log_stream string
  | BodyCronData tenant_log_stream string string string
  | BodyGap nat
  | BodyRestart tenant_restart

record tenant_log_event =
  te_app_id :: app_id
  te_deployment_id :: deployment_id
  te_source_id :: string
  te_sequence :: nat
  te_observed_at :: timestamp
  te_body :: tenant_log_body

record log_stamp =
  st_app_id :: app_id
  st_deployment_id :: deployment_id
  st_source_id :: string
  st_observed_at :: timestamp

text \<open>Each event takes the next number of the connection's counter, which wraps at 64 bits.\<close>

fun stamped :: "log_stamp \<Rightarrow> nat \<Rightarrow> tenant_log_body list \<Rightarrow> tenant_log_event list \<times> nat" where
  "stamped st sequence [] = ([], sequence)"
| "stamped st sequence (body # bodies) =
     (let (events, left) = stamped st ((sequence + 1) mod 2 ^ 64) bodies
      in (\<lparr>te_app_id = st_app_id st, te_deployment_id = st_deployment_id st, te_source_id = st_source_id st,
           te_sequence = sequence, te_observed_at = st_observed_at st, te_body = body\<rparr> # events, left))"

fun bodies_of :: "(tenant_log_stream \<times> string) list \<Rightarrow> tenant_log_body list" where
  "bodies_of [] = []"
| "bodies_of ((stream, said) # rest) = BodyData stream said # bodies_of rest"

fun take_frame :: "guest_log_frame \<Rightarrow> open_lines \<Rightarrow> tenant_log_body list \<times> open_lines" where
  "take_frame (LogGap dropped_bytes) lines =
     (let (texts, left) = close_lines lines in (bodies_of texts @ [BodyGap dropped_bytes], left))"
| "take_frame (LogRestart restart) lines =
     (let (texts, left) = close_lines lines in (bodies_of texts @ [BodyRestart restart], left))"
| "take_frame (LogData stream bytes) lines =
     (let (texts, left) = extend_lines stream bytes lines in (bodies_of texts, left))"

fun take_frames :: "guest_log_frame list \<Rightarrow> open_lines \<Rightarrow> tenant_log_body list \<times> open_lines" where
  "take_frames [] lines = ([], lines)"
| "take_frames (f # frames) lines =
     (let (bodies, left) = take_frame f lines; (others, kept) = take_frames frames left
      in (bodies @ others, kept))"

section \<open>The connection\<close>

text \<open>
  What the loop of \<open>pump\<close> waits for: bytes from the guest, the idle time running out, or the end,
  which is the guest hanging up, a read that failed, or the attachment being dropped. Every batch
  takes the stamp of its own moment.
\<close>

datatype pump_input = ReadChunk string | IdleElapsed

record pump_state =
  pp_buffered :: string
  pp_lines :: open_lines
  pp_idle_armed :: bool
  pp_sequence :: nat
  pp_published :: "tenant_log_event list list"

definition publish_bodies :: "log_stamp \<Rightarrow> tenant_log_body list \<Rightarrow> pump_state \<Rightarrow> pump_state" where
  "publish_bodies st bodies s =
     (let (events, sequence) = stamped st (pp_sequence s) bodies
      in s\<lparr>pp_sequence := sequence,
          pp_published := (if events = [] then pp_published s else pp_published s @ [events])\<rparr>)"

definition pump_end :: "log_stamp \<Rightarrow> pump_state \<Rightarrow> pump_state" where
  "pump_end st s =
     (let (texts, left) = close_lines (pp_lines s) in publish_bodies st (bodies_of texts) (s\<lparr>pp_lines := left\<rparr>))"

fun pump :: "(pump_input \<times> log_stamp) list \<Rightarrow> log_stamp \<Rightarrow> pump_state \<Rightarrow> pump_state" where
  "pump [] closing s = pump_end closing s"
| "pump ((IdleElapsed, st) # inputs) closing s =
     (if pp_idle_armed s
      then let (texts, left) = flush_lines (pp_lines s)
           in pump inputs closing
                (publish_bodies st (bodies_of texts) (s\<lparr>pp_idle_armed := False, pp_lines := left\<rparr>))
      else pump inputs closing s)"
| "pump ((ReadChunk chunk, st) # inputs) closing s =
     (case decode_frames (pp_buffered s) chunk of
        Inl _ \<Rightarrow> pump_end closing s
      | Inr (frames, kept) \<Rightarrow>
          let (bodies, left) = take_frames frames (pp_lines s)
          in pump inputs closing
               (publish_bodies st bodies
                 (s\<lparr>pp_buffered := kept, pp_lines := left, pp_idle_armed := holding left\<rparr>)))"

definition pump_start :: "nat \<Rightarrow> pump_state" where
  "pump_start sequence = \<lparr>pp_buffered = [], pp_lines = no_lines, pp_idle_armed = False,
     pp_sequence = sequence, pp_published = []\<rparr>"

section \<open>Nothing the guest wrote is lost or changed\<close>

lemma lossy_valid: "utf8_valid s \<Longrightarrow> lossy s = s"
proof (induction s rule: lossy.induct)
  case (1 s)
  then show ?case
    by (cases "s = []") (auto simp: lossy.simps [of s] utf8_valid.simps [of s] split: utf8_step.splits)
qed

lemma complete_prefix_le: "complete_prefix s \<le> length s"
proof (induction s rule: complete_prefix.induct)
  case (1 s)
  then show ?case
    by (cases "utf8_step_of s") (fastforce simp: complete_prefix.simps [of s] dest: utf8_step_pos)+
qed

text \<open>A line handed over early is cut between characters: its two parts read as the whole does.\<close>

lemma utf8_tails_take:
  "utf8_tails seen wanted s = Whole n \<Longrightarrow> n \<le> seen + m \<Longrightarrow> utf8_tails seen wanted (take m s) = Whole n"
  "utf8_tails seen wanted s = Broken n \<Longrightarrow> n < seen + m \<Longrightarrow> utf8_tails seen wanted (take m s) = Broken n"
  "utf8_tails seen wanted s = Broken n \<Longrightarrow> n = seen + m \<Longrightarrow> utf8_tails seen wanted (take m s) = CutShort"
  by (induction seen wanted s arbitrary: m rule: utf8_tails.induct)
    (auto simp: take_Cons' split: if_splits dest!: utf8_tails_pos [rotated])

lemma utf8_step_take:
  "utf8_step_of s = Whole n \<Longrightarrow> n \<le> m \<Longrightarrow> utf8_step_of (take m s) = Whole n"
  "utf8_step_of s = Broken n \<Longrightarrow> n < m \<Longrightarrow> utf8_step_of (take m s) = Broken n"
  "utf8_step_of s = Broken n \<Longrightarrow> utf8_step_of (take n s) \<in> {CutShort, Broken n}"
proof -
  show "utf8_step_of s = Whole n \<Longrightarrow> n \<le> m \<Longrightarrow> utf8_step_of (take m s) = Whole n"
    by (cases s; cases m; cases "tl s"; cases "m - 1")
      (auto simp: Let_def take_Cons' intro!: utf8_tails_take split: if_splits dest: utf8_tails_pos [rotated])
  show "utf8_step_of s = Broken n \<Longrightarrow> n < m \<Longrightarrow> utf8_step_of (take m s) = Broken n"
    by (cases s; cases m; cases "tl s"; cases "m - 1")
      (auto simp: Let_def take_Cons' intro!: utf8_tails_take split: if_splits dest: utf8_tails_pos [rotated])
  show "utf8_step_of s = Broken n \<Longrightarrow> utf8_step_of (take n s) \<in> {CutShort, Broken n}"
    by (cases s; cases n; cases "tl s"; cases "n - 1")
      (auto simp: Let_def take_Cons' utf8_tails_take(3) split: if_splits dest: utf8_tails_pos [rotated])
qed

lemma early_lines_read_the_same:
  "lossy (take (complete_prefix s) s) @ lossy (drop (complete_prefix s) s) = lossy s"
proof (induction s rule: complete_prefix.induct)
  case (1 s)
  show ?case
  proof (cases "s = []")
    case False
    show ?thesis
    proof (cases "utf8_step_of s")
      case (Whole n)
      let ?k = "complete_prefix (drop n s)"
      have "utf8_step_of (take (n + ?k) s) = Whole n" using Whole by (simp add: utf8_step_take)
      moreover have "0 < n" using utf8_step_pos(1) [OF Whole] by simp
      ultimately have "lossy (take (n + ?k) s) = take n s @ lossy (take ?k (drop n s))"
        using False by (simp add: lossy.simps [of "take (n + ?k) s"] drop_take)
      with Whole False "1.IH"(1) show ?thesis
        by (simp add: complete_prefix.simps [of s] lossy.simps [of s] drop_drop add.commute)
    next
      case (Broken n)
      let ?k = "complete_prefix (drop n s)"
      have "0 < n" using utf8_step_pos(2) [OF Broken] by simp
      moreover have "utf8_step_of (take (n + ?k) s) = Broken n" if "?k \<noteq> 0"
        using that by (intro utf8_step_take(2) [OF Broken]) simp
      ultimately have "lossy (take (n + ?k) s) = REPLACEMENT_CHARACTER @ lossy (take ?k (drop n s))"
        using False utf8_step_take(3) [OF Broken]
        by (cases "?k = 0") (auto simp: lossy.simps [of "take _ s"] drop_take)
      with Broken False "1.IH"(2) show ?thesis
        by (simp add: complete_prefix.simps [of s] lossy.simps [of s] drop_drop add.commute)
    next
      case CutShort
      then show ?thesis by (simp add: complete_prefix.simps [of s])
    qed
  qed (simp add:)
qed

text \<open>The bytes a stream of frames carries on one of its streams, and what was published of it.\<close>

fun written_on :: "tenant_log_stream \<Rightarrow> guest_log_frame list \<Rightarrow> string" where
  "written_on stream [] = []"
| "written_on stream (LogData other bytes # frames) =
     (if other = stream then filter (\<lambda>c. c \<noteq> CHR 0x0A) bytes else []) @ written_on stream frames"
| "written_on stream (_ # frames) = written_on stream frames"

fun said_on :: "tenant_log_stream \<Rightarrow> tenant_log_body list \<Rightarrow> string list" where
  "said_on stream [] = []"
| "said_on stream (BodyData other said # bodies) = (if other = stream then [said] else []) @ said_on stream bodies"
| "said_on stream (_ # bodies) = said_on stream bodies"

fun marks_written :: "guest_log_frame list \<Rightarrow> tenant_log_body list" where
  "marks_written [] = []"
| "marks_written (LogGap n # frames) = BodyGap n # marks_written frames"
| "marks_written (LogRestart r # frames) = BodyRestart r # marks_written frames"
| "marks_written (_ # frames) = marks_written frames"

definition marks_said :: "tenant_log_body list \<Rightarrow> tenant_log_body list" where
  "marks_said bodies = filter (\<lambda>body. case body of BodyData _ _ \<Rightarrow> False | _ \<Rightarrow> True) bodies"

definition published_bodies :: "pump_state \<Rightarrow> tenant_log_body list" where
  "published_bodies s = map te_body (concat (pp_published s))"

text \<open>Texts that read some bytes, which with what is still held are all there was.\<close>

definition reads :: "string list \<Rightarrow> string \<Rightarrow> string \<Rightarrow> bool" where
  "reads texts held bytes \<longleftrightarrow> (\<exists>parts. texts = map lossy parts \<and> concat parts @ held = bytes)"

lemma reads_none [simp]: "reads [] held bytes \<longleftrightarrow> held = bytes"
  by (auto simp: reads_def)

lemma reads_one: "a @ held = bytes \<Longrightarrow> reads [lossy a] held bytes"
  unfolding reads_def by (rule exI [of _ "[a]"]) simp

lemma reads_append:
  assumes "reads xs held bytes" "reads ys left (held @ added)"
  shows "reads (xs @ ys) left (bytes @ added)"
proof -
  obtain p q where "xs = map lossy p" "concat p @ held = bytes" "ys = map lossy q" "concat q @ left = held @ added"
    using assms by (auto simp: reads_def)
  then show ?thesis unfolding reads_def by (intro exI [of _ "p @ q"]) auto
qed

lemma concat_split_on: "concat (split_on d xs) = filter (\<lambda>x. x \<noteq> d) xs"
proof (induction xs)
  case (Cons x xs)
  obtain p ps where "split_on d xs = p # ps" by (cases "split_on d xs") auto
  with Cons show ?case by auto
qed simp

lemma extend_loop_reads:
  "extend_loop held pieces = (texts, left) \<Longrightarrow> reads texts left (held @ concat pieces)"
proof (induction held pieces arbitrary: texts rule: extend_loop.induct)
  case (3 held ended next_piece rest)
  then obtain others where o: "extend_loop [] (next_piece # rest) = (others, left)"
    "texts = [lossy (held @ ended)] @ others"
    by (auto split: prod.splits)
  have "reads others left (concat (next_piece # rest))" using "3.IH" o(1) by fastforce
  then have "reads ([lossy (held @ ended)] @ others) left ((held @ ended) @ concat (next_piece # rest))"
    by (intro reads_append [of _ "[]"] reads_one) simp_all
  with o(2) show ?case by simp
qed auto

lemma held_on_hold_on [simp]:
  "held_on a (hold_on b held lines) = (if a = b then held else held_on a lines)"
  by (cases a; cases b) simp_all

lemma said_on_append [simp]: "said_on stream (xs @ ys) = said_on stream xs @ said_on stream ys"
  by (induction stream xs rule: said_on.induct) simp_all

lemma said_on_bodies [simp]:
  "said_on stream (bodies_of texts) = map snd (filter (\<lambda>t. fst t = stream) texts)"
  by (induction texts rule: bodies_of.induct) simp_all

lemma marks_said_simps [simp]:
  "marks_said (xs @ ys) = marks_said xs @ marks_said ys" "marks_said (bodies_of texts) = []"
  by (simp add: marks_said_def, induction texts rule: bodies_of.induct) (simp_all add: marks_said_def)

lemma filter_pairs: "filter (\<lambda>t. fst t = a) (map (Pair b) xs) = (if a = b then map (Pair b) xs else [])"
  by (induction xs) auto

lemma extend_lines_reads:
  assumes "extend_lines stream bytes lines = (texts, left)"
  shows "reads (map snd (filter (\<lambda>t. fst t = other) texts)) (held_on other left)
    (held_on other lines @ (if other = stream then filter (\<lambda>c. c \<noteq> CHR 0x0A) bytes else []))"
proof -
  obtain said held where loop: "extend_loop (held_on stream lines) (split_on CHR 0x0A bytes) = (said, held)"
    by fastforce
  note whole = extend_loop_reads [OF loop, unfolded concat_split_on]
  have "reads (said @ [lossy (take n held)]) (drop n held) (held_on stream lines @ filter (\<lambda>c. c \<noteq> CHR 0x0A) bytes)" for n
    using reads_append [OF whole reads_one, of "take n held" "drop n held" "[]"] by simp
  with whole assms loop show ?thesis
    by (auto simp: extend_lines_def Let_def filter_pairs comp_def split: if_splits)
qed

lemma close_lines_reads:
  assumes "close_lines lines = (texts, left)"
  shows "reads (map snd (filter (\<lambda>t. fst t = other) texts)) [] (held_on other lines) \<and> left = no_lines"
  using assms
  by (cases lines; cases other; auto simp: close_lines_def Let_def no_lines_def reads_one split: if_splits)

lemma flush_lines_reads:
  assumes "flush_lines lines = (texts, left)"
  shows "reads (map snd (filter (\<lambda>t. fst t = other) texts)) (held_on other left) (held_on other lines)"
  using assms
  by (cases other) (auto simp: flush_lines_def Let_def reads_one split: if_splits)

lemma take_frames_reads:
  assumes "take_frames frames lines = (bodies, left)"
  shows "reads (said_on stream bodies) (held_on stream left) (held_on stream lines @ written_on stream frames)"
    and "marks_said bodies = marks_written frames"
proof -
  have held: "held_on stream no_lines = []" by (cases stream) (simp_all add: no_lines_def)
  have "reads (said_on stream bodies) (held_on stream left) (held_on stream lines @ written_on stream frames) \<and>
      marks_said bodies = marks_written frames"
    using assms
  proof (induction frames arbitrary: lines bodies)
    case (Cons f frames)
    obtain first mid others where step: "take_frame f lines = (first, mid)"
      "take_frames frames mid = (others, left)" "bodies = first @ others"
      using Cons.prems by (auto split: prod.splits)
    have first: "reads (said_on stream first) (held_on stream mid) (held_on stream lines @ written_on stream [f])"
      using step(1) by (cases f) (auto split: prod.splits dest!: extend_lines_reads [of _ _ _ _ _ stream]
          close_lines_reads [where other = stream] simp: held)
    moreover have "marks_said first = marks_written [f]"
      using step(1) by (cases f) (auto split: prod.splits simp: marks_said_def [of "[_]"])
    moreover have "written_on stream (f # frames) = written_on stream [f] @ written_on stream frames"
      "marks_written (f # frames) = marks_written [f] @ marks_written frames"
      by (cases f; simp)+
    ultimately show ?case
      using reads_append [OF first] Cons.IH [OF step(2)] step(3) by simp
  qed (simp add: marks_said_def)
  then show "reads (said_on stream bodies) (held_on stream left) (held_on stream lines @ written_on stream frames)"
    "marks_said bodies = marks_written frames" by auto
qed

lemma stamped_bodies: "stamped st n bodies = (events, m) \<Longrightarrow> map te_body events = bodies"
  by (induction bodies arbitrary: n events) (auto split: prod.splits)

lemma publish_bodies_simps [simp]:
  "published_bodies (publish_bodies st bodies s) = published_bodies s @ bodies"
  "pp_lines (publish_bodies st bodies s) = pp_lines s"
  "pp_buffered (publish_bodies st bodies s) = pp_buffered s"
  "pp_idle_armed (publish_bodies st bodies s) = pp_idle_armed s"
  by (auto simp: publish_bodies_def published_bodies_def Let_def dest!: stamped_bodies split: prod.splits)

lemma published_update [simp]:
  "published_bodies (s\<lparr>pp_lines := x\<rparr>) = published_bodies s"
  "published_bodies (s\<lparr>pp_idle_armed := b\<rparr>) = published_bodies s"
  "published_bodies (s\<lparr>pp_buffered := c\<rparr>) = published_bodies s"
  by (simp_all add: published_bodies_def)

fun chunks_of :: "(pump_input \<times> log_stamp) list \<Rightarrow> string list" where
  "chunks_of [] = []"
| "chunks_of ((ReadChunk chunk, _) # inputs) = chunk # chunks_of inputs"
| "chunks_of ((IdleElapsed, _) # inputs) = chunks_of inputs"

lemma pump_reads:
  assumes "read_chunks (pp_buffered s) (chunks_of inputs) = Inr (frames, kept)"
  shows "\<exists>new. published_bodies (pump inputs closing s) = published_bodies s @ new \<and>
    reads (said_on stream new) [] (held_on stream (pp_lines s) @ written_on stream frames) \<and>
    marks_said new = marks_written frames"
  using assms
proof (induction inputs closing s arbitrary: frames rule: pump.induct)
  case (1 closing s)
  then show ?case
    by (auto simp: pump_end_def split: prod.splits dest!: close_lines_reads [where other = stream])
next
  case (2 st inputs closing s)
  show ?case
  proof (cases "pp_idle_armed s")
    case True
    obtain texts left where flush: "flush_lines (pp_lines s) = (texts, left)" by fastforce
    let ?s = "publish_bodies st (bodies_of texts) (s\<lparr>pp_idle_armed := False, pp_lines := left\<rparr>)"
    obtain new where "published_bodies (pump inputs closing ?s) = published_bodies ?s @ new"
      "reads (said_on stream new) [] (held_on stream left @ written_on stream frames)"
      "marks_said new = marks_written frames"
      using "2.IH"(1) [OF True flush [symmetric] refl, of frames] "2.prems" by auto
    with True flush reads_append [OF flush_lines_reads [OF flush, of stream], of "said_on stream new" "[]"]
    show ?thesis by (intro exI [of _ "bodies_of texts @ new"]) simp
  next
    case False
    with "2.IH"(2) "2.prems" show ?thesis by simp
  qed
next
  case (3 chunk st inputs closing s)
  obtain some rest left where read: "decode_frames (pp_buffered s) chunk = Inr (some, rest)"
    "read_chunks rest (chunks_of inputs) = Inr (left, kept)" "frames = some @ left"
    using "3.prems" by (auto split: sum.splits prod.splits)
  obtain bodies lines where took: "take_frames some (pp_lines s) = (bodies, lines)" by fastforce
  let ?s = "publish_bodies st bodies (s\<lparr>pp_buffered := rest, pp_lines := lines, pp_idle_armed := holding lines\<rparr>)"
  obtain new where "published_bodies (pump inputs closing ?s) = published_bodies ?s @ new"
    "reads (said_on stream new) [] (held_on stream lines @ written_on stream left)"
    "marks_said new = marks_written left"
    using "3.IH" [OF read(1) refl took [symmetric] refl, of left] read(2) by auto
  moreover have "written_on stream (some @ left) = written_on stream some @ written_on stream left"
    "marks_written (some @ left) = marks_written some @ marks_written left"
    by (induction stream some rule: written_on.induct; simp)+
  ultimately show ?case
    using read took take_frames_reads(2) [OF took]
      reads_append [OF take_frames_reads(1) [OF took, of stream], of "said_on stream new" "[]"]
    by (intro exI [of _ "bodies @ new"]) simp
qed


definition sample_stamp :: log_stamp where
  "sample_stamp = \<lparr>st_app_id = ''app-a'', st_deployment_id = ''dep-1'', st_source_id = ''s'', st_observed_at = ''t''\<rparr>"

definition sample_frames :: "guest_log_frame list" where
  "sample_frames = [LogData Stdout (''one'' @ [CHR 0x0A] @ ''two''), LogGap 7]"

definition sample_reads :: "(pump_input \<times> log_stamp) list" where
  "sample_reads =
     (let bytes = concat (map encode_log_frame sample_frames)
      in [(ReadChunk (take 15 bytes), sample_stamp), (IdleElapsed, sample_stamp), (ReadChunk (drop 15 bytes), sample_stamp)])"


end
