(* ===== verification/Firewall.thy ===== *)
theory Firewall
  imports World
begin

text \<open>
  The isolation ruleset (\<open>crates/nft-render/src/firewall.rs\<close>, \<open>tables.rs\<close>) and the adapter that
  loads it (\<open>crates/nibrunnerd/src/adapters/net/firewall.rs\<close>). The text is rendered line by line as
  the code does; beside it stand the rules as data, which the text is shown to print. What the
  kernel makes of a rule is a parameter: it walks a chain in order and the first rule that matches
  decides. Shown: whatever the host forwards, a guest reaches no other guest, no private address
  and nothing that is denied, and an accepted load is in force.
\<close>

section \<open>The text\<close>

definition NFTABLES_TABLE :: string where
  "NFTABLES_TABLE = ''nibrun''"

definition NFTABLES_FAMILIES :: "string list" where
  "NFTABLES_FAMILIES = [''ip'', ''ip6'']"

definition INSTANCE_METADATA_ADDRESS_V4 :: string where
  "INSTANCE_METADATA_ADDRESS_V4 = ''169.254.169.254''"

definition INSTANCE_METADATA_ADDRESS_V6 :: string where
  "INSTANCE_METADATA_ADDRESS_V6 = ''fd00:ec2::254''"

definition GUEST_NETWORK_CIDR :: string where
  "GUEST_NETWORK_CIDR = ''10.201.0.0/16''"

definition OUTPUT_NAT_PRIORITY :: int where
  "OUTPUT_NAT_PRIORITY = - 100"

definition TRAFFIC_CHAIN_PRIORITY :: string where
  "TRAFFIC_CHAIN_PRIORITY = ''filter + 10''"

definition PRIVATE_DESTINATIONS_V4 :: "string list" where
  "PRIVATE_DESTINATIONS_V4 = [''10.0.0.0/8'', ''172.16.0.0/12'', ''192.168.0.0/16'', ''169.254.0.0/16'',
     ''127.0.0.0/8'', ''100.64.0.0/10'']"

definition PRIVATE_DESTINATIONS_V6 :: "string list" where
  "PRIVATE_DESTINATIONS_V6 = [''::1/128'', ''fe80::/10'', ''fc00::/7'']"

definition CHAIN_INDENT :: string where
  "CHAIN_INDENT = ''  ''"

definition RULE_INDENT :: string where
  "RULE_INDENT = ''    ''"

definition DENY :: string where
  "DENY = ''reject''"

definition app_received_counter_name :: "app_id \<Rightarrow> string" where
  "app_received_counter_name app_id = ''rx_'' @ app_id"

definition app_sent_counter_name :: "app_id \<Rightarrow> string" where
  "app_sent_counter_name app_id = ''tx_'' @ app_id"

definition dport_match :: "forwarded_port \<Rightarrow> string" where
  "dport_match port = (if fp_raw port then ''meta l4proto { tcp, udp } th dport'' else ''tcp dport'')"

definition quoted :: "string \<Rightarrow> string" where
  "quoted s = [CHR 0x22] @ s @ [CHR 0x22]"

definition tap_match :: string where
  "tap_match = quoted (TAP_NAME_PREFIX @ ''*'')"

text \<open>\<open>[T]::join\<close> with a separator of any length.\<close>

fun join_str :: "string \<Rightarrow> string list \<Rightarrow> string" where
  "join_str sep [] = []"
| "join_str sep [p] = p"
| "join_str sep (p # q # ps) = p @ sep @ join_str sep (q # ps)"

definition nft_set :: "string list \<Rightarrow> string" where
  "nft_set values = ''{ '' @ join_str '', '' values @ '' }''"

definition counter_objects :: "firewall_state \<Rightarrow> string list" where
  "counter_objects state =
     concat (map (\<lambda>name. [CHAIN_INDENT @ ''counter '' @ name @ '' {'', CHAIN_INDENT @ ''}'', []])
       (concat (map (\<lambda>i. [app_received_counter_name (fi_app_id i), app_sent_counter_name (fi_app_id i)])
         (fw_instances state))))"

definition chain_lines :: "string \<Rightarrow> string list \<Rightarrow> string list" where
  "chain_lines header rules =
     (CHAIN_INDENT @ ''chain '' @ header) # map (\<lambda>rule. RULE_INDENT @ rule) rules @ [CHAIN_INDENT @ ''}'']"

definition table_lines :: "string \<Rightarrow> string list \<Rightarrow> string list" where
  "table_lines family body =
     [''table '' @ family @ '' '' @ NFTABLES_TABLE,
      ''delete table '' @ family @ '' '' @ NFTABLES_TABLE,
      [],
      ''table '' @ family @ '' '' @ NFTABLES_TABLE @ '' {''] @ body @ [''}'']"

definition traffic_chains_v4 :: "firewall_state \<Rightarrow> string list" where
  "traffic_chains_v4 state =
     (if fw_instances state = [] then []
      else chain_lines ''traffic_output {''
             (''type filter hook output priority filter; policy accept;'' #
              map (\<lambda>i. ''ip saddr 127.0.0.0/8 ip daddr '' @ fi_guest_ipv4 i @ '' counter name '' @
                     app_received_counter_name (fi_app_id i)) (fw_instances state)) @
           [[]] @
           chain_lines ''traffic_input {''
             ((''type filter hook input priority '' @ TRAFFIC_CHAIN_PRIORITY @ ''; policy accept;'') #
              map (\<lambda>i. ''iifname '' @ tap_match @ '' ip saddr '' @ fi_guest_ipv4 i @ '' counter name '' @
                     app_sent_counter_name (fi_app_id i)) (fw_instances state)) @
           [[]] @
           chain_lines ''traffic_forward {''
             ((''type filter hook forward priority '' @ TRAFFIC_CHAIN_PRIORITY @ ''; policy accept;'') #
              concat (map (\<lambda>i.
                [''iifname != '' @ tap_match @ '' oifname '' @ tap_match @ '' ip daddr '' @ fi_guest_ipv4 i @
                   '' counter name '' @ app_received_counter_name (fi_app_id i),
                 ''iifname '' @ tap_match @ '' oifname != '' @ tap_match @ '' ip saddr '' @ fi_guest_ipv4 i @
                   '' counter name '' @ app_sent_counter_name (fi_app_id i)]) (fw_instances state))))"

definition denied_egress_rules :: "string \<Rightarrow> string \<Rightarrow> string list \<Rightarrow> string list" where
  "denied_egress_rules tap daddr cidrs =
     concat (map (\<lambda>cidr.
       [''iifname '' @ tap @ '' '' @ daddr @ '' '' @ cidr @ '' meta l4proto tcp '' @ DENY @
          '' with tcp reset comment '' @ quoted ''denied egress'',
        ''iifname '' @ tap @ '' '' @ daddr @ '' '' @ cidr @ '' '' @ DENY @ '' comment '' @ quoted ''denied egress''])
       cidrs)"

definition forward_chain_v4 :: "firewall_state \<Rightarrow> string list" where
  "forward_chain_v4 state =
     chain_lines ''forward {''
       (''type filter hook forward priority filter; policy accept;'' #
        denied_egress_rules tap_match ''ip daddr'' (fw_denied_v4 state) @
        concat (map (\<lambda>i. map (\<lambda>port.
            ''oifname '' @ tap_match @ '' ip daddr '' @ fi_guest_ipv4 i @ '' tcp dport '' @
            show_nat (fp_guest_port port) @ '' ct direction original '' @ DENY @
            '' with tcp reset comment '' @ quoted ''HTTP through proxy only'')
          (filter (\<lambda>port. \<not> fp_raw port) (fi_ports i))) (fw_instances state)) @
        [''ct state established,related accept'',
         ''iifname '' @ tap_match @ '' ip daddr '' @ INSTANCE_METADATA_ADDRESS_V4 @ '' '' @ DENY @
           '' comment '' @ quoted ''instance metadata endpoint'',
         ''iifname '' @ tap_match @ '' oifname '' @ tap_match @ '' '' @ DENY @ '' comment '' @ quoted ''guest to guest'',
         ''iifname '' @ tap_match @ '' ip daddr '' @ GUEST_NETWORK_CIDR @ '' '' @ DENY @
           '' comment '' @ quoted ''guest to guest''] @
        [''iifname '' @ tap_match @ '' ip daddr '' @ nft_set PRIVATE_DESTINATIONS_V4 @ '' '' @ DENY @
           '' comment '' @ quoted ''private destinations''])"

definition input_chain_v4 :: "string list" where
  "input_chain_v4 =
     chain_lines ''input {''
       [''type filter hook input priority filter; policy accept;'',
        ''iifname '' @ tap_match @ '' ct state established,related accept'',
        ''iifname '' @ tap_match @ '' '' @ DENY @ '' comment '' @ quoted ''guest to host'']"

definition forward_chain_v6 :: "firewall_state \<Rightarrow> string list" where
  "forward_chain_v6 state =
     chain_lines ''forward {''
       (''type filter hook forward priority filter; policy accept;'' #
        denied_egress_rules tap_match ''ip6 daddr'' (fw_denied_v6 state) @
        [''ct state established,related accept'',
         ''iifname '' @ tap_match @ '' ip6 daddr '' @ INSTANCE_METADATA_ADDRESS_V6 @ '' '' @ DENY @
           '' comment '' @ quoted ''instance metadata endpoint'',
         ''iifname '' @ tap_match @ '' oifname '' @ tap_match @ '' '' @ DENY @ '' comment '' @ quoted ''guest to guest''] @
        [''iifname '' @ tap_match @ '' ip6 daddr '' @ nft_set PRIVATE_DESTINATIONS_V6 @ '' '' @ DENY @
           '' comment '' @ quoted ''private destinations''])"

definition input_chain_v6 :: "string list" where
  "input_chain_v6 =
     chain_lines ''input {''
       [''type filter hook input priority filter; policy accept;'',
        ''iifname '' @ tap_match @ '' ct state established,related accept'',
        ''iifname '' @ tap_match @ '' '' @ DENY @ '' comment '' @ quoted ''guest to host'']"

definition nat_chains_v4 :: "firewall_state \<Rightarrow> string list" where
  "nat_chains_v4 state =
     chain_lines ''prerouting {''
       (''type nat hook prerouting priority dstnat; policy accept;'' #
        concat (map (\<lambda>i. map (\<lambda>port.
            ''iifname != '' @ tap_match @ '' '' @ dport_match port @ '' '' @ show_nat (fp_host_port port) @
            '' dnat to '' @ fi_guest_ipv4 i @ '':'' @ show_nat (fp_guest_port port))
          (filter fp_raw (fi_ports i))) (fw_instances state))) @
     [[]] @
     chain_lines ''output {''
       ((''type nat hook output priority '' @ show_int OUTPUT_NAT_PRIORITY @ ''; policy accept;'') #
        concat (map (\<lambda>i. map (\<lambda>port.
            ''ip daddr 127.0.0.1 '' @ dport_match port @ '' '' @ show_nat (fp_host_port port) @
            '' dnat to '' @ fi_guest_ipv4 i @ '':'' @ show_nat (fp_guest_port port))
          (fi_ports i)) (fw_instances state))) @
     [[]] @
     chain_lines ''postrouting {''
       (''type nat hook postrouting priority srcnat; policy accept;'' #
        map (\<lambda>i. ''oifname '' @ tap_match @ '' ip saddr 127.0.0.0/8 ip daddr '' @ fi_guest_ipv4 i @
               '' snat to '' @ fi_host_ipv4 i) (fw_instances state) @
        [''ip saddr '' @ GUEST_NETWORK_CIDR @ '' oifname != '' @ tap_match @ '' masquerade''])"

definition render_ruleset :: "firewall_state \<Rightarrow> string" where
  "render_ruleset state =
     join_str [CHR 0x0A]
       (table_lines ''ip''
          (counter_objects state @ forward_chain_v4 state @ [[]] @ input_chain_v4 @ [[]] @
           nat_chains_v4 state @ [[]] @ traffic_chains_v4 state) @
        [[]] @
        table_lines ''ip6'' (forward_chain_v6 state @ [[]] @ input_chain_v6)) @ [CHR 0x0A]"

section \<open>The rules the text prints\<close>

datatype nft_match =
    IifTap | IifNotTap | OifTap | OifNotTap
  | Daddr string | Daddr6 string | Saddr string
  | TcpDport nat | RawDport nat
  | CtOriginal | CtEstablished | L4Tcp

datatype nft_verdict =
    Accept | Reject | RejectReset
  | Dnat ipv4_address nat | Snat ipv4_address | Masquerade

record nft_rule =
  nr_matches :: "nft_match list"
  nr_verdict :: nft_verdict
  nr_comment :: "string option"

fun show_match :: "nft_match \<Rightarrow> string" where
  "show_match IifTap = ''iifname '' @ tap_match"
| "show_match IifNotTap = ''iifname != '' @ tap_match"
| "show_match OifTap = ''oifname '' @ tap_match"
| "show_match OifNotTap = ''oifname != '' @ tap_match"
| "show_match (Daddr cidr) = ''ip daddr '' @ cidr"
| "show_match (Daddr6 cidr) = ''ip6 daddr '' @ cidr"
| "show_match (Saddr cidr) = ''ip saddr '' @ cidr"
| "show_match (TcpDport port) = ''tcp dport '' @ show_nat port"
| "show_match (RawDport port) = ''meta l4proto { tcp, udp } th dport '' @ show_nat port"
| "show_match CtOriginal = ''ct direction original''"
| "show_match CtEstablished = ''ct state established,related''"
| "show_match L4Tcp = ''meta l4proto tcp''"

fun show_verdict :: "nft_verdict \<Rightarrow> string" where
  "show_verdict Accept = ''accept''"
| "show_verdict Reject = DENY"
| "show_verdict RejectReset = DENY @ '' with tcp reset''"
| "show_verdict (Dnat address port) = ''dnat to '' @ address @ '':'' @ show_nat port"
| "show_verdict (Snat address) = ''snat to '' @ address"
| "show_verdict Masquerade = ''masquerade''"

definition show_rule :: "nft_rule \<Rightarrow> string" where
  "show_rule rule =
     join_str '' '' (map show_match (nr_matches rule) @ [show_verdict (nr_verdict rule)]) @
     (case nr_comment rule of None \<Rightarrow> [] | Some said \<Rightarrow> '' comment '' @ quoted said)"

definition denying :: "string \<Rightarrow> nft_match list \<Rightarrow> nft_rule" where
  "denying said ms = \<lparr>nr_matches = ms, nr_verdict = Reject, nr_comment = Some said\<rparr>"

definition resetting :: "string \<Rightarrow> nft_match list \<Rightarrow> nft_rule" where
  "resetting said ms = \<lparr>nr_matches = ms, nr_verdict = RejectReset, nr_comment = Some said\<rparr>"

definition plain :: "nft_match list \<Rightarrow> nft_verdict \<Rightarrow> nft_rule" where
  "plain ms verdict = \<lparr>nr_matches = ms, nr_verdict = verdict, nr_comment = None\<rparr>"

definition denied_egress :: "(string \<Rightarrow> nft_match) \<Rightarrow> string list \<Rightarrow> nft_rule list" where
  "denied_egress daddr cidrs =
     concat (map (\<lambda>cidr. [resetting ''denied egress'' [IifTap, daddr cidr, L4Tcp],
       denying ''denied egress'' [IifTap, daddr cidr]]) cidrs)"

definition http_through_proxy :: "firewall_state \<Rightarrow> nft_rule list" where
  "http_through_proxy state =
     concat (map (\<lambda>i. map (\<lambda>port. resetting ''HTTP through proxy only''
         [OifTap, Daddr (fi_guest_ipv4 i), TcpDport (fp_guest_port port), CtOriginal])
       (filter (\<lambda>port. \<not> fp_raw port) (fi_ports i))) (fw_instances state))"

definition forward_rules_v4 :: "firewall_state \<Rightarrow> nft_rule list" where
  "forward_rules_v4 state =
     denied_egress Daddr (fw_denied_v4 state) @ http_through_proxy state @
     [plain [CtEstablished] Accept,
      denying ''instance metadata endpoint'' [IifTap, Daddr INSTANCE_METADATA_ADDRESS_V4],
      denying ''guest to guest'' [IifTap, OifTap],
      denying ''guest to guest'' [IifTap, Daddr GUEST_NETWORK_CIDR],
      denying ''private destinations'' [IifTap, Daddr (nft_set PRIVATE_DESTINATIONS_V4)]]"

definition forward_rules_v6 :: "firewall_state \<Rightarrow> nft_rule list" where
  "forward_rules_v6 state =
     denied_egress Daddr6 (fw_denied_v6 state) @
     [plain [CtEstablished] Accept,
      denying ''instance metadata endpoint'' [IifTap, Daddr6 INSTANCE_METADATA_ADDRESS_V6],
      denying ''guest to guest'' [IifTap, OifTap],
      denying ''private destinations'' [IifTap, Daddr6 (nft_set PRIVATE_DESTINATIONS_V6)]]"

definition input_rules :: "nft_rule list" where
  "input_rules = [plain [IifTap, CtEstablished] Accept, denying ''guest to host'' [IifTap]]"

definition dport_of :: "forwarded_port \<Rightarrow> nft_match" where
  "dport_of port = (if fp_raw port then RawDport (fp_host_port port) else TcpDport (fp_host_port port))"

definition prerouting_rules :: "firewall_state \<Rightarrow> nft_rule list" where
  "prerouting_rules state =
     concat (map (\<lambda>i. map (\<lambda>port. plain [IifNotTap, dport_of port] (Dnat (fi_guest_ipv4 i) (fp_guest_port port)))
       (filter fp_raw (fi_ports i))) (fw_instances state))"

definition output_rules :: "firewall_state \<Rightarrow> nft_rule list" where
  "output_rules state =
     concat (map (\<lambda>i. map (\<lambda>port. plain [Daddr ''127.0.0.1'', dport_of port] (Dnat (fi_guest_ipv4 i) (fp_guest_port port)))
       (fi_ports i)) (fw_instances state))"

lemmas rule_makers = denying_def resetting_def plain_def show_rule_def

lemma map_concat_map: "map f (concat (map g xs)) = concat (map (\<lambda>x. map f (g x)) xs)"
  by (induction xs) simp_all

text \<open>The chains of the rendered text are these rules, printed one to a line under their hook.\<close>

lemma chains_print_the_rules:
  "forward_chain_v4 state = chain_lines ''forward {''
     (''type filter hook forward priority filter; policy accept;'' # map show_rule (forward_rules_v4 state))"
  "forward_chain_v6 state = chain_lines ''forward {''
     (''type filter hook forward priority filter; policy accept;'' # map show_rule (forward_rules_v6 state))"
  "input_chain_v4 = chain_lines ''input {''
     (''type filter hook input priority filter; policy accept;'' # map show_rule input_rules)"
  "input_chain_v6 = chain_lines ''input {''
     (''type filter hook input priority filter; policy accept;'' # map show_rule input_rules)"
  by (simp_all add: forward_chain_v4_def forward_chain_v6_def input_chain_v4_def input_chain_v6_def
      forward_rules_v4_def forward_rules_v6_def input_rules_def denied_egress_rules_def denied_egress_def
      http_through_proxy_def rule_makers map_concat_map comp_def)

lemma show_dport: "show_match (dport_of port) = dport_match port @ '' '' @ show_nat (fp_host_port port)"
  by (simp add: dport_of_def dport_match_def)

lemma nat_chains_print_the_rules:
  "nat_chains_v4 state =
     chain_lines ''prerouting {''
       (''type nat hook prerouting priority dstnat; policy accept;'' # map show_rule (prerouting_rules state)) @ [[]] @
     chain_lines ''output {''
       ((''type nat hook output priority '' @ show_int OUTPUT_NAT_PRIORITY @ ''; policy accept;'') #
        map show_rule (output_rules state)) @ [[]] @
     chain_lines ''postrouting {''
       (''type nat hook postrouting priority srcnat; policy accept;'' #
        map show_rule (map (\<lambda>i. plain [OifTap, Saddr ''127.0.0.0/8'', Daddr (fi_guest_ipv4 i)] (Snat (fi_host_ipv4 i)))
          (fw_instances state) @ [plain [Saddr GUEST_NETWORK_CIDR, OifNotTap] Masquerade]))"
  by (simp add: nat_chains_v4_def prerouting_rules_def output_rules_def show_dport rule_makers map_concat_map comp_def)

section \<open>What a guest can reach\<close>

text \<open>
  What the host relies on of the kernel: the rules of a chain are tried in order, the first one all
  of whose matches hold decides, and a packet no rule decides is accepted, as the policy says.
\<close>

locale nft_kernel =
  fixes matches :: "nft_match \<Rightarrow> 'p \<Rightarrow> bool" and judges :: "nft_rule list \<Rightarrow> 'p \<Rightarrow> nft_verdict"
  assumes policy: "judges [] p = Accept"
    and in_order: "judges (r # rs) p =
      (if list_all (\<lambda>m. matches m p) (nr_matches r) then nr_verdict r else judges rs p)"
begin

lemma judges_denying_prefix:
  assumes "\<forall>r \<in> set rs. nr_verdict r = Reject \<or> nr_verdict r = RejectReset"
  shows "judges (rs @ qs) p \<in> {Reject, RejectReset} \<longleftrightarrow>
    (\<exists>r \<in> set rs. list_all (\<lambda>m. matches m p) (nr_matches r)) \<or> judges qs p \<in> {Reject, RejectReset}"
  using assms by (induction rs) (auto simp: in_order)

end

text \<open>The kernel's walk over a chain, for any meaning of the matches.\<close>

fun walk :: "(nft_match \<Rightarrow> 'p \<Rightarrow> bool) \<Rightarrow> nft_rule list \<Rightarrow> 'p \<Rightarrow> nft_verdict" where
  "walk matches [] p = Accept"
| "walk matches (r # rs) p =
     (if list_all (\<lambda>m. matches m p) (nr_matches r) then nr_verdict r else walk matches rs p)"

interpretation walk: nft_kernel matches "walk matches" for matches
  by unfold_locales simp_all

lemma denied_egress_matches:
  "(\<exists>r \<in> set (denied_egress daddr cidrs). list_all (\<lambda>m. matches m p) (nr_matches r)) \<longleftrightarrow>
     matches IifTap p \<and> (\<exists>cidr \<in> set cidrs. matches (daddr cidr) p)"
  by (auto simp: denied_egress_def denying_def resetting_def)

lemma http_through_proxy_matches:
  "(\<exists>r \<in> set (http_through_proxy state). list_all (\<lambda>m. matches m p) (nr_matches r)) \<longleftrightarrow>
     (\<exists>i \<in> set (fw_instances state). \<exists>port \<in> set (fi_ports i). \<not> fp_raw port \<and> matches OifTap p \<and>
        matches (Daddr (fi_guest_ipv4 i)) p \<and> matches (TcpDport (fp_guest_port port)) p \<and> matches CtOriginal p)"
  by (fastforce simp: http_through_proxy_def resetting_def)

lemma forward_verdict_v4:
  assumes "nft_kernel matches judges"
  shows "judges (forward_rules_v4 state) p \<in> {Reject, RejectReset} \<longleftrightarrow>
     matches IifTap p \<and> (\<exists>cidr \<in> set (fw_denied_v4 state). matches (Daddr cidr) p) \<or>
     (\<exists>i \<in> set (fw_instances state). \<exists>port \<in> set (fi_ports i). \<not> fp_raw port \<and> matches OifTap p \<and>
        matches (Daddr (fi_guest_ipv4 i)) p \<and> matches (TcpDport (fp_guest_port port)) p \<and> matches CtOriginal p) \<or>
     \<not> matches CtEstablished p \<and> matches IifTap p \<and>
       (matches OifTap p \<or> matches (Daddr INSTANCE_METADATA_ADDRESS_V4) p \<or> matches (Daddr GUEST_NETWORK_CIDR) p \<or>
        matches (Daddr (nft_set PRIVATE_DESTINATIONS_V4)) p)"
proof -
  have "\<forall>r \<in> set (denied_egress Daddr (fw_denied_v4 state) @ http_through_proxy state).
      nr_verdict r = Reject \<or> nr_verdict r = RejectReset"
    by (auto simp: denied_egress_def http_through_proxy_def denying_def resetting_def)
  note prefix = nft_kernel.judges_denying_prefix [OF assms this]
  show ?thesis
    unfolding forward_rules_v4_def append_assoc [symmetric] prefix set_append bex_Un denied_egress_matches
      http_through_proxy_matches disj_assoc
    by (intro arg_cong2 [where f = "(\<or>)"] refl)
      (simp add: nft_kernel.policy [OF assms] nft_kernel.in_order [OF assms] denying_def plain_def)
qed

lemma forward_verdict_v6:
  assumes "nft_kernel matches judges"
  shows "judges (forward_rules_v6 state) p \<in> {Reject, RejectReset} \<longleftrightarrow>
     matches IifTap p \<and> (\<exists>cidr \<in> set (fw_denied_v6 state). matches (Daddr6 cidr) p) \<or>
     \<not> matches CtEstablished p \<and> matches IifTap p \<and>
       (matches OifTap p \<or> matches (Daddr6 INSTANCE_METADATA_ADDRESS_V6) p \<or>
        matches (Daddr6 (nft_set PRIVATE_DESTINATIONS_V6)) p)"
proof -
  have "\<forall>r \<in> set (denied_egress Daddr6 (fw_denied_v6 state)). nr_verdict r = Reject \<or> nr_verdict r = RejectReset"
    by (auto simp: denied_egress_def denying_def resetting_def)
  note prefix = nft_kernel.judges_denying_prefix [OF assms this]
  show ?thesis
    unfolding forward_rules_v6_def prefix denied_egress_matches
    by (intro arg_cong2 [where f = "(\<or>)"] refl)
      (simp add: nft_kernel.policy [OF assms] nft_kernel.in_order [OF assms] denying_def plain_def)
qed



section \<open>The tables the kernel holds\<close>

datatype json =
    JNull | JBool bool | JNumber int | JFloat | JString string | JArray "json list" | JObject "(string, json) btree"

fun json_get :: "string \<Rightarrow> json \<Rightarrow> json option" where
  "json_get key (JObject members) = map_of members key"
| "json_get key _ = None"

fun as_array :: "json \<Rightarrow> json list option" where
  "as_array (JArray entries) = Some entries"
| "as_array _ = None"

fun as_object :: "json \<Rightarrow> json option" where
  "as_object (JObject members) = Some (JObject members)"
| "as_object _ = None"

fun as_str :: "json \<Rightarrow> string option" where
  "as_str (JString s) = Some s"
| "as_str _ = None"

fun json_as_u64 :: "json \<Rightarrow> nat option" where
  "json_as_u64 (JNumber i) = (if 0 \<le> i \<and> i < 2 ^ 64 then Some (nat i) else None)"
| "json_as_u64 _ = None"

definition note_table :: "json \<Rightarrow> (string, nat) btree \<Rightarrow> (string, nat) btree" where
  "note_table entry handles =
     (case Option.bind (json_get ''table'' entry) as_object of
        None \<Rightarrow> handles
      | Some table \<Rightarrow>
          (case (Option.bind (json_get ''family'' table) as_str, Option.bind (json_get ''name'' table) as_str,
                 Option.bind (json_get ''handle'' table) json_as_u64) of
             (Some family, Some name, Some handle) \<Rightarrow>
               if name = NFTABLES_TABLE then bt_insert family handle handles else handles
           | _ \<Rightarrow> handles))"

text \<open>What \<open>serde_json\<close> makes of the text is an argument: nothing where it is not JSON.\<close>

definition parse_kernel_tables :: "json option \<Rightarrow> string" where
  "parse_kernel_tables parsed =
     (case Option.bind (Option.bind parsed (json_get ''nftables'')) as_array of
        None \<Rightarrow> []
      | Some entries \<Rightarrow>
          let handles = fold note_table entries []
          in join_str '' '' (List.map_filter
               (\<lambda>family. map_option (\<lambda>handle. family @ '':'' @ show_nat handle) (map_of handles family))
               NFTABLES_FAMILIES))"

section \<open>Loading a ruleset\<close>

datatype nft_call = ListTables | LoadRuleset string

text \<open>
  The \<open>nft\<close> command, as a function of the calls before: what a listing prints, or that it failed,
  and whether a ruleset is taken, or why not; with the JSON parser.
\<close>

record nft_command =
  nc_list :: "nft_call list \<Rightarrow> string option"
  nc_load :: "nft_call list \<Rightarrow> string \<Rightarrow> string + unit"
  nc_json :: "string \<Rightarrow> json option"

record applied_ruleset =
  ap_ruleset :: string
  ap_tables :: string

record host_firewall =
  hf_applied :: "applied_ruleset option"
  hf_trace :: "nft_call list"

definition new_firewall :: host_firewall where
  "new_firewall = \<lparr>hf_applied = None, hf_trace = []\<rparr>"

definition kernel_tables :: "nft_command \<Rightarrow> host_firewall \<Rightarrow> string option \<times> host_firewall" where
  "kernel_tables nft fw =
     (map_option (\<lambda>printed. parse_kernel_tables (nc_json nft printed)) (nc_list nft (hf_trace fw)),
      fw\<lparr>hf_trace := hf_trace fw @ [ListTables]\<rparr>)"

definition load_ruleset :: "nft_command \<Rightarrow> string \<Rightarrow> host_firewall \<Rightarrow> (string + unit) \<times> host_firewall" where
  "load_ruleset nft ruleset fw =
     (let loaded = fw\<lparr>hf_trace := hf_trace fw @ [LoadRuleset ruleset]\<rparr>
      in case nc_load nft (hf_trace fw) ruleset of
           Inl e \<Rightarrow> (Inl e, loaded)
         | Inr _ \<Rightarrow>
             (let (tables, listed) = kernel_tables nft loaded
              in (Inr (), listed\<lparr>hf_applied :=
                   map_option (\<lambda>t. \<lparr>ap_ruleset = ruleset, ap_tables = t\<rparr>) tables\<rparr>)))"

definition apply_firewall :: "nft_command \<Rightarrow> firewall_state \<Rightarrow> host_firewall \<Rightarrow> (string + unit) \<times> host_firewall" where
  "apply_firewall nft state fw =
     (let ruleset = render_ruleset state
      in case hf_applied fw of
           None \<Rightarrow> load_ruleset nft ruleset fw
         | Some held \<Rightarrow>
             if ap_ruleset held \<noteq> ruleset then load_ruleset nft ruleset fw
             else let (current, listed) = kernel_tables nft fw
                  in if current = Some (ap_tables held) then (Inr (), listed)
                     else load_ruleset nft ruleset listed)"

fun apply_firewalls :: "nft_command \<Rightarrow> firewall_state list \<Rightarrow> host_firewall \<Rightarrow> host_firewall" where
  "apply_firewalls nft [] fw = fw"
| "apply_firewalls nft (state # states) fw = apply_firewalls nft states (snd (apply_firewall nft state fw))"

text \<open>
  What the host relies on of the kernel's tables, \<open>holds\<close> being the ruleset in force after some
  calls: a ruleset that is taken is in force, also when the tables are listed right after; and two
  listings that show the same tables found the same ruleset in force, since a table that is
  replaced gets another handle.
\<close>

definition tables_tell :: "nft_command \<Rightarrow> (nft_call list \<Rightarrow> string option) \<Rightarrow> bool" where
  "tables_tell nft holds \<longleftrightarrow>
     (\<forall>t ruleset. nc_load nft t ruleset = Inr () \<longrightarrow> holds (t @ [LoadRuleset ruleset, ListTables]) = Some ruleset) \<and>
     (\<forall>t u printed again. nc_list nft t = Some printed \<and> nc_list nft (t @ u) = Some again \<and>
        parse_kernel_tables (nc_json nft printed) = parse_kernel_tables (nc_json nft again) \<longrightarrow>
        holds (t @ u @ [ListTables]) = holds (t @ [ListTables]))"

definition applied_holds :: "nft_command \<Rightarrow> (nft_call list \<Rightarrow> string option) \<Rightarrow> host_firewall \<Rightarrow> bool" where
  "applied_holds nft holds fw \<longleftrightarrow>
     (case hf_applied fw of
        None \<Rightarrow> True
      | Some held \<Rightarrow>
          (\<exists>t u printed. hf_trace fw = t @ u \<and> nc_list nft t = Some printed \<and>
             ap_tables held = parse_kernel_tables (nc_json nft printed) \<and>
             holds (t @ [ListTables]) = Some (ap_ruleset held)))"

lemma load_ruleset_holds:
  assumes "tables_tell nft holds" "applied_holds nft holds fw" "load_ruleset nft ruleset fw = (answer, after)"
  shows "applied_holds nft holds after \<and> (answer = Inr () \<longrightarrow> holds (hf_trace after) = Some ruleset)"
proof (cases "nc_load nft (hf_trace fw) ruleset")
  case (Inl e)
  then have "answer = Inl e" "after = fw\<lparr>hf_trace := hf_trace fw @ [LoadRuleset ruleset]\<rparr>"
    using assms(3) by (auto simp: load_ruleset_def Let_def)
  with assms(2) show ?thesis by (auto simp: applied_holds_def split: option.splits) (metis append.assoc)
next
  case (Inr u)
  let ?t = "hf_trace fw @ [LoadRuleset ruleset]"
  have held: "holds (?t @ [ListTables]) = Some ruleset"
    using Inr assms(1) by (simp add: tables_tell_def)
  have after: "hf_trace after = ?t @ [ListTables]"
    "hf_applied after = map_option (\<lambda>printed. \<lparr>ap_ruleset = ruleset,
       ap_tables = parse_kernel_tables (nc_json nft printed)\<rparr>) (nc_list nft ?t)"
    using Inr assms(3) by (auto simp: load_ruleset_def kernel_tables_def Let_def option.map_comp comp_def)
  show ?thesis
  proof (cases "nc_list nft ?t")
    case (Some printed)
    then have "applied_holds nft holds after"
      using after held unfolding applied_holds_def after(2) Some
      by (simp, intro exI [of _ ?t] exI [of _ "[ListTables]"]) (simp add: Some)
    with after held show ?thesis by simp
  qed (use after held in \<open>simp add: applied_holds_def\<close>)
qed

lemma apply_firewall_holds:
  assumes "tables_tell nft holds" "applied_holds nft holds fw" "apply_firewall nft state fw = (answer, after)"
  shows "applied_holds nft holds after \<and> (answer = Inr () \<longrightarrow> holds (hf_trace after) = Some (render_ruleset state))"
proof -
  let ?listed = "fw\<lparr>hf_trace := hf_trace fw @ [ListTables]\<rparr>"
  have listed: "applied_holds nft holds ?listed"
    using assms(2) by (auto simp: applied_holds_def split: option.splits) (metis append.assoc)
  show ?thesis
  proof (cases "\<exists>held. hf_applied fw = Some held \<and> ap_ruleset held = render_ruleset state \<and>
      map_option (\<lambda>printed. parse_kernel_tables (nc_json nft printed)) (nc_list nft (hf_trace fw)) = Some (ap_tables held)")
    case True
    then obtain held printed where held: "hf_applied fw = Some held" "ap_ruleset held = render_ruleset state"
      "nc_list nft (hf_trace fw) = Some printed" "parse_kernel_tables (nc_json nft printed) = ap_tables held" by auto
    then have same: "answer = Inr ()" "after = ?listed"
      using assms(3) by (auto simp: apply_firewall_def kernel_tables_def Let_def)
    obtain t u earlier where "hf_trace fw = t @ u" "nc_list nft t = Some earlier"
      "ap_tables held = parse_kernel_tables (nc_json nft earlier)" "holds (t @ [ListTables]) = Some (ap_ruleset held)"
      using assms(2) held(1) by (auto simp: applied_holds_def)
    then have "holds (hf_trace fw @ [ListTables]) = Some (render_ruleset state)"
      using assms(1) held by (simp add: tables_tell_def)
    with same listed show ?thesis by simp
  next
    case False
    then have "load_ruleset nft (render_ruleset state) fw = (answer, after) \<or>
        load_ruleset nft (render_ruleset state) ?listed = (answer, after)"
      using assms(3) by (auto simp: apply_firewall_def kernel_tables_def Let_def split: option.splits if_splits)
    with load_ruleset_holds [OF assms(1)] assms(2) listed show ?thesis by blast
  qed
qed


text \<open>A kernel that takes the first ruleset it is given and no other, whose table has handle one.\<close>

definition first_load :: "nft_call list \<Rightarrow> string option" where
  "first_load t = (case filter (\<lambda>c. c \<noteq> ListTables) t of LoadRuleset r # _ \<Rightarrow> Some r | _ \<Rightarrow> None)"

definition sample_nft :: nft_command where
  "sample_nft = \<lparr>nc_list = (\<lambda>t. Some (if first_load t = None then [] else ''1'')),
     nc_load = (\<lambda>t _. if first_load t = None then Inr () else Inl ''taken''),
     nc_json = (\<lambda>printed. if printed = [] then None else Some (JObject [(''nftables'', JArray [JObject [(''table'', JObject
       [(''family'', JString ''ip''), (''handle'', JNumber 1), (''name'', JString ''nibrun'')])]])]))\<rparr>"

definition sample_state :: firewall_state where
  "sample_state = \<lparr>fw_instances = [], fw_denied_v4 = [''1.2.3.4/32''], fw_denied_v6 = []\<rparr>"

lemma first_load_append:
  "first_load (t @ u) = (case first_load t of None \<Rightarrow> first_load u | Some r \<Rightarrow> Some r)"
proof -
  have "ListTables \<notin> set (filter (\<lambda>c. c \<noteq> ListTables) t)" by simp
  then show ?thesis
    by (cases "filter (\<lambda>c. c \<noteq> ListTables) t") (auto simp: first_load_def split: nft_call.splits simp del: set_filter)
qed

lemma sample_nft_tells: "tables_tell sample_nft first_load"
proof -
  have one: "parse_kernel_tables (nc_json sample_nft printed) = (if printed = [] then [] else ''ip:'' @ show_nat 1)" for printed
    by (simp add: parse_kernel_tables_def sample_nft_def note_table_def NFTABLES_TABLE_def NFTABLES_FAMILIES_def
        List.map_filter_def)
  show ?thesis
    unfolding tables_tell_def one
    by (auto simp: sample_nft_def first_load_append first_load_def [of "[_]"] first_load_def [of "[_, _]"]
        split: if_splits option.splits)
qed


text \<open>
  A listing that is not JSON counts as a listing of no tables, and two of them as unchanged: after
  one, an unchanged ruleset is never loaded again while the listings stay unreadable, whatever
  became of the tables.
\<close>

lemma unreadable_listings_count_as_unchanged:
  assumes "hf_applied fw = Some \<lparr>ap_ruleset = render_ruleset state, ap_tables = []\<rparr>"
    and "nc_list nft (hf_trace fw) = Some printed" and "nc_json nft printed = None"
  shows "apply_firewall nft state fw = (Inr (), fw\<lparr>hf_trace := hf_trace fw @ [ListTables]\<rparr>)"
  using assms by (simp add: apply_firewall_def kernel_tables_def parse_kernel_tables_def Let_def)

end
