(* ===== verification/InstanceEnv.thy ===== *)
theory InstanceEnv
  imports Domain
begin

text \<open>
  The file a guest is configured by (\<open>crates/guest-contract/src/instance_env.rs\<close>): the host renders
  it, the init process of the guest parses it. Floating-point printing and parsing are the standard
  library's and a parameter. Shown: the guest reads back what the host wrote, and what it refuses
  although the host accepted it.
\<close>

section \<open>Rendering\<close>

definition RUNTIME_PREFIX :: string where
  "RUNTIME_PREFIX = ''NIBRUN_''"

definition TENANT_PREFIX :: string where
  "TENANT_PREFIX = ''ENV_''"

definition DNS_SERVERS :: "string list" where
  "DNS_SERVERS = [''1.1.1.1'', ''1.0.0.1'']"

text \<open>How a \<open>f64\<close> is printed by \<open>format!\<close> and read by \<open>str::parse\<close>.\<close>

record f64_text =
  show_f64 :: "real \<Rightarrow> string"
  parse_f64 :: "string \<Rightarrow> real option"

record instance_env_content =
  ic_http_port :: nat
  ic_layers :: nat
  ic_hostnames :: "app_hostname list"
  ic_program :: string
  ic_working_directory :: string
  ic_args :: "string list"
  ic_environment :: tenant_environment
  ic_restart_policy :: restart_policy

datatype unrepresentable_environment = UnrepresentableEnvironment string

definition has_forbidden_character :: "string \<Rightarrow> bool" where
  "has_forbidden_character value \<longleftrightarrow> (\<exists>c \<in> {CHR 0x0A, CHR 0x0D, CHR 0x00}. c \<in> set value)"

definition platform_hostname :: "app_hostname list \<Rightarrow> string option" where
  "platform_hostname hostnames =
     map_option ah_hostname (find (\<lambda>each. ah_kind each = PlatformHostname) hostnames)"

definition js_number :: "f64_text \<Rightarrow> real \<Rightarrow> string" where
  "js_number fmt value =
     (if value = of_int \<lfloor>value\<rfloor> \<and> \<bar>value\<bar> < 10 ^ 15 then show_int \<lfloor>value\<rfloor> else show_f64 fmt value)"

definition runtime_line :: "string \<Rightarrow> string \<Rightarrow> string" where
  "runtime_line name value = RUNTIME_PREFIX @ name @ ''='' @ value"

definition fixed_lines :: "f64_text \<Rightarrow> instance_env_content \<Rightarrow> string list" where
  "fixed_lines fmt content =
     [runtime_line ''HTTP_PORT'' (show_nat (ic_http_port content)),
      runtime_line ''LAYERS'' (show_nat (ic_layers content)),
      runtime_line ''PROGRAM'' (ic_program content),
      runtime_line ''CWD'' (ic_working_directory content)] @
     (case platform_hostname (ic_hostnames content) of
        Some hostname \<Rightarrow> [runtime_line ''HOSTNAME'' hostname] | None \<Rightarrow> []) @
     (let policy = ic_restart_policy content
      in [runtime_line ''MAX_RESTARTS'' (show_nat (rp_max_restarts policy)),
          runtime_line ''INITIAL_BACKOFF_MS'' (show_nat (rp_initial_backoff_ms policy)),
          runtime_line ''MAX_BACKOFF_MS'' (show_nat (rp_max_backoff_ms policy)),
          runtime_line ''BACKOFF_FACTOR'' (js_number fmt (rp_backoff_factor policy)),
          runtime_line ''RESET_AFTER_MS'' (show_nat (rp_reset_after_ms policy)),
          runtime_line ''DNS'' (join_with CHR '','' DNS_SERVERS)])"

fun argument_lines :: "nat \<Rightarrow> string list \<Rightarrow> unrepresentable_environment + string list" where
  "argument_lines index [] = Inr []"
| "argument_lines index (argument # args) =
     (if has_forbidden_character argument
      then Inl (UnrepresentableEnvironment (RUNTIME_PREFIX @ ''ARG_'' @ show_nat index))
      else map_sum id ((#) (runtime_line (''ARG_'' @ show_nat index) argument)) (argument_lines (Suc index) args))"

fun variable_lines :: "(string \<times> string) list \<Rightarrow> unrepresentable_environment + string list" where
  "variable_lines [] = Inr []"
| "variable_lines ((name, value) # variables) =
     (if has_forbidden_character value then Inl (UnrepresentableEnvironment name)
      else map_sum id ((#) (TENANT_PREFIX @ name @ ''='' @ value)) (variable_lines variables))"

definition render_instance_env :: "f64_text \<Rightarrow> instance_env_content \<Rightarrow> unrepresentable_environment + string" where
  "render_instance_env fmt content =
     (case argument_lines 0 (ic_args content) of
        Inl e \<Rightarrow> Inl e
      | Inr arguments \<Rightarrow>
          (case variable_lines (ic_environment content) of
             Inl e \<Rightarrow> Inl e
           | Inr variables \<Rightarrow>
               Inr (join_with CHR 0x0A (fixed_lines fmt content @ arguments @ variables) @ [CHR 0x0A])))"

section \<open>Parsing\<close>

datatype instance_env_error =
    Missing string
  | MalformedEnv string string
  | UnknownReference string string
  | TooMany string

definition MAX_NAMESERVERS :: nat where
  "MAX_NAMESERVERS = 3"

definition MAX_TENANT_VARIABLES :: nat where
  "MAX_TENANT_VARIABLES = 256"

record instance_config =
  cg_http_port :: nat
  cg_layers :: nat
  cg_program :: string
  cg_working_directory :: string
  cg_hostname :: "string option"
  cg_max_restarts :: nat
  cg_initial_backoff_ms :: nat
  cg_max_backoff_ms :: nat
  cg_backoff_factor :: real
  cg_reset_after_ms :: nat
  cg_nameservers :: "string list"
  cg_arguments :: "string list"
  cg_environment :: "(string \<times> string) list"

text \<open>\<open>str::lines\<close>: a line loses its newline and a carriage return before that.\<close>

definition strip_cr :: "string \<Rightarrow> string" where
  "strip_cr line = (if line \<noteq> [] \<and> last line = CHR 0x0D then butlast line else line)"

definition str_lines :: "string \<Rightarrow> string list" where
  "str_lines contents =
     (let pieces = split_on CHR 0x0A contents
      in map strip_cr (butlast pieces) @ (if last pieces = [] then [] else [last pieces]))"

fun expand_from :: "string \<Rightarrow> string \<Rightarrow> (string \<times> string) list \<Rightarrow> nat \<Rightarrow> ((nat \<times> nat) \<times> string) list \<Rightarrow>
    instance_env_error + string" where
  "expand_from key value runtime pos [] = Inr (drop pos value)"
| "expand_from key value runtime pos (((start, stop), reference) # references) =
     (case find (\<lambda>(name, _). name = reference \<and> reference \<in> set RUNTIME_VALUE_NAMES) runtime of
        None \<Rightarrow> Inl (UnknownReference key reference)
      | Some (_, found) \<Rightarrow>
          map_sum id (\<lambda>rest. take (start - pos) (drop pos value) @ found @ rest)
            (expand_from key value runtime stop references))"

definition expand :: "string \<Rightarrow> string \<Rightarrow> (string \<times> string) list \<Rightarrow> instance_env_error + string" where
  "expand key value runtime = expand_from key value runtime 0 (runtime_references value)"

fun expand_all :: "(string \<times> string) list \<Rightarrow> (string \<times> string) list \<Rightarrow>
    instance_env_error + (string \<times> string) list" where
  "expand_all runtime [] = Inr []"
| "expand_all runtime ((name, value) # variables) =
     (case expand name value runtime of
        Inl e \<Rightarrow> Inl e
      | Inr expanded \<Rightarrow> map_sum id ((#) (name, expanded)) (expand_all runtime variables))"

definition strip_prefix :: "string \<Rightarrow> string \<Rightarrow> string option" where
  "strip_prefix prefix s = (if take (length prefix) s = prefix then Some (drop (length prefix) s) else None)"

text \<open>The lines, sorted into the runtime's own and the tenant's; any other key is passed over.\<close>

fun read_env_lines :: "string list \<Rightarrow> instance_env_error + ((string \<times> string) list \<times> (string \<times> string) list)" where
  "read_env_lines [] = Inr ([], [])"
| "read_env_lines (line # rest) =
     (if line = [] then read_env_lines rest
      else case split_once CHR ''='' line of
        None \<Rightarrow> Inl (MalformedEnv (truncate_chars line 32) ''a KEY=VALUE line'')
      | Some (key, value) \<Rightarrow>
          map_sum id
            (\<lambda>(runtime, tenant).
               case strip_prefix RUNTIME_PREFIX key of
                 Some name \<Rightarrow> ((RUNTIME_PREFIX @ name, value) # runtime, tenant)
               | None \<Rightarrow>
                   (case strip_prefix TENANT_PREFIX key of
                      Some name \<Rightarrow> (runtime, (name, value) # tenant)
                    | None \<Rightarrow> (runtime, tenant)))
            (read_env_lines rest))"

definition argument_key :: "nat \<Rightarrow> string" where
  "argument_key index = RUNTIME_PREFIX @ ''ARG_'' @ show_nat index"

text \<open>The arguments from \<open>index\<close> on, of which there may be \<open>left\<close> more.\<close>

fun read_arguments :: "(string \<Rightarrow> string option) \<Rightarrow> nat \<Rightarrow> nat \<Rightarrow> instance_env_error + string list" where
  "read_arguments named 0 index =
     (case named (argument_key index) of None \<Rightarrow> Inr [] | Some _ \<Rightarrow> Inl (TooMany ''arguments''))"
| "read_arguments named (Suc left) index =
     (case named (argument_key index) of
        None \<Rightarrow> Inr []
      | Some argument \<Rightarrow> map_sum id ((#) argument) (read_arguments named left (Suc index)))"

definition env_required :: "(string \<Rightarrow> string option) \<Rightarrow> string \<Rightarrow> instance_env_error + string" where
  "env_required named key = (case named key of Some value \<Rightarrow> Inr value | None \<Rightarrow> Inl (Missing key))"

definition env_number :: "(string \<Rightarrow> string option) \<Rightarrow> string \<Rightarrow> instance_env_error + nat" where
  "env_number named key =
     (case env_required named key of
        Inl e \<Rightarrow> Inl e
      | Inr value \<Rightarrow>
          (case parse_unsigned u32_max value of Some n \<Rightarrow> Inr n | None \<Rightarrow> Inl (MalformedEnv key ''a number'')))"

text \<open>\<open>?\<close>: the value, or the error of the whole.\<close>

definition question :: "'e + 'a \<Rightarrow> ('a \<Rightarrow> 'e + 'b) \<Rightarrow> 'e + 'b" where
  "question m f = (case m of Inl e \<Rightarrow> Inl e | Inr x \<Rightarrow> f x)"

lemma question_simps [simp]: "question (Inr x) f = f x" "question (Inl e) f = Inl e"
  by (simp_all add: question_def)

definition config_from ::
  "f64_text \<Rightarrow> (string \<Rightarrow> string option) \<Rightarrow> string list \<Rightarrow> string list \<Rightarrow> (string \<times> string) list \<Rightarrow>
     instance_env_error + instance_config" where
  "config_from fmt named nameservers arguments environment =
     question (env_number named ''NIBRUN_HTTP_PORT'') (\<lambda>http_port.
     question (env_number named ''NIBRUN_LAYERS'') (\<lambda>layers.
     question (env_required named ''NIBRUN_PROGRAM'') (\<lambda>program.
     question (env_required named ''NIBRUN_CWD'') (\<lambda>working_directory.
     question (env_number named ''NIBRUN_MAX_RESTARTS'') (\<lambda>max_restarts.
     question (env_number named ''NIBRUN_INITIAL_BACKOFF_MS'') (\<lambda>initial_backoff_ms.
     question (env_number named ''NIBRUN_MAX_BACKOFF_MS'') (\<lambda>max_backoff_ms.
     question (env_required named ''NIBRUN_BACKOFF_FACTOR'') (\<lambda>factor.
     question (case parse_f64 fmt factor of
            Some x \<Rightarrow> Inr x | None \<Rightarrow> Inl (MalformedEnv ''NIBRUN_BACKOFF_FACTOR'' ''a number'')) (\<lambda>backoff_factor.
     question (env_number named ''NIBRUN_RESET_AFTER_MS'') (\<lambda>reset_after_ms.
       Inr \<lparr>cg_http_port = http_port, cg_layers = layers, cg_program = program,
         cg_working_directory = working_directory, cg_hostname = named ''NIBRUN_HOSTNAME'',
         cg_max_restarts = max_restarts, cg_initial_backoff_ms = initial_backoff_ms,
         cg_max_backoff_ms = max_backoff_ms, cg_backoff_factor = backoff_factor,
         cg_reset_after_ms = reset_after_ms, cg_nameservers = nameservers, cg_arguments = arguments,
         cg_environment = environment\<rparr>))))))))))"

definition parse_instance_env :: "f64_text \<Rightarrow> string \<Rightarrow> instance_env_error + instance_config" where
  "parse_instance_env fmt contents =
     question (read_env_lines (str_lines contents)) (\<lambda>(runtime, tenant).
     let named = map_of runtime
     in question (env_required named ''NIBRUN_DNS'') (\<lambda>dns.
        let nameservers = take MAX_NAMESERVERS (filter (\<lambda>entry. entry \<noteq> []) (split_on CHR '','' dns))
        in question (read_arguments named MAX_ARGUMENTS 0) (\<lambda>arguments.
           if length (filter (\<lambda>(name, _). strip_prefix (RUNTIME_PREFIX @ ''ARG_'') name \<noteq> None) runtime) \<noteq> length arguments
           then Inl (MalformedEnv (argument_key (length arguments)) ''the next argument in an unbroken run from 0'')
           else if length tenant > MAX_TENANT_VARIABLES then Inl (TooMany ''environment variables'')
           else question (expand_all runtime tenant) (\<lambda>environment.
             config_from fmt named nameservers arguments environment))))"

definition tenant_environment_of :: "instance_config \<Rightarrow> (string \<times> string) list" where
  "tenant_environment_of config =
     (let owned = [(''NIBRUN_HTTP_PORT'', show_nat (cg_http_port config)), (''PORT'', show_nat (cg_http_port config))] @
            (case cg_hostname config of Some hostname \<Rightarrow> [(''NIBRUN_HOSTNAME'', hostname)] | None \<Rightarrow> [])
      in owned @ filter (\<lambda>(name, _). name \<notin> set (map fst owned)) (cg_environment config))"

section \<open>The guest reads what the host wrote\<close>

definition carriage_free :: "string \<Rightarrow> bool" where
  "carriage_free s \<longleftrightarrow> CHR 0x0A \<notin> set s \<and> CHR 0x0D \<notin> set s"

lemma carriage_free_append [simp]: "carriage_free (a @ b) \<longleftrightarrow> carriage_free a \<and> carriage_free b"
  by (auto simp: carriage_free_def)

lemma join_with_snoc: "ls \<noteq> [] \<Longrightarrow> join_with d (ls @ [[]]) = join_with d ls @ [d]"
  by (induction d ls rule: join_with.induct) simp_all

lemma str_lines_join:
  assumes "ls \<noteq> []" "list_all carriage_free ls"
  shows "str_lines (join_with CHR 0x0A ls @ [CHR 0x0A]) = ls"
proof -
  have "split_on CHR 0x0A (join_with CHR 0x0A (ls @ [[]])) = ls @ [[]]"
    using assms(2) by (intro split_join) (auto simp: carriage_free_def list_all_iff)
  then have "split_on CHR 0x0A (join_with CHR 0x0A ls @ [CHR 0x0A]) = ls @ [[]]"
    by (simp add: join_with_snoc assms(1))
  moreover have "map strip_cr ls = ls"
    using assms(2) by (intro map_idI) (auto simp: strip_cr_def carriage_free_def list_all_iff dest: last_in_set)
  ultimately show ?thesis by (simp add: str_lines_def)
qed

lemma split_once_at: "d \<notin> set a \<Longrightarrow> split_once d (a @ d # b) = Some (a, b)"
  by (induction a) auto

lemma strip_prefix_append [simp]: "strip_prefix p (p @ s) = Some s"
  by (simp add: strip_prefix_def)

definition tenant_line :: "string \<times> string \<Rightarrow> string" where
  "tenant_line variable = (case variable of (name, value) \<Rightarrow> TENANT_PREFIX @ name @ ''='' @ value)"

lemma read_tenant_lines:
  "\<forall>(name, value) \<in> set vs. CHR ''='' \<notin> set name \<Longrightarrow> read_env_lines (map tenant_line vs) = Inr ([], vs)"
proof (induction vs)
  case (Cons v vs)
  obtain name said where v: "v = (name, said)" by (cases v)
  have "split_once CHR ''='' (TENANT_PREFIX @ name @ CHR ''='' # said) = Some (TENANT_PREFIX @ name, said)"
    using Cons.prems v split_once_at [of "CHR ''=''" "TENANT_PREFIX @ name" said] by (simp add: TENANT_PREFIX_def)
  moreover have "strip_prefix RUNTIME_PREFIX (TENANT_PREFIX @ name) = None"
    by (simp add: strip_prefix_def RUNTIME_PREFIX_def TENANT_PREFIX_def)
  ultimately show ?case
    using Cons v by (simp add: tenant_line_def TENANT_PREFIX_def strip_prefix_def)
qed simp

lemma read_runtime_lines:
  assumes "\<forall>(name, value) \<in> set rs. CHR ''='' \<notin> set name" "read_env_lines ls = Inr (runtime, tenant)"
  shows "read_env_lines (map (\<lambda>(name, value). runtime_line name value) rs @ ls) =
    Inr (map (\<lambda>(name, value). (RUNTIME_PREFIX @ name, value)) rs @ runtime, tenant)"
  using assms(1)
proof (induction rs)
  case (Cons r rs)
  obtain name said where r: "r = (name, said)" by (cases r)
  have "split_once CHR ''='' (RUNTIME_PREFIX @ name @ CHR ''='' # said) = Some (RUNTIME_PREFIX @ name, said)"
    using Cons.prems r split_once_at [of "CHR ''=''" "RUNTIME_PREFIX @ name" said] by (simp add: RUNTIME_PREFIX_def)
  with Cons r show ?case by (simp add: runtime_line_def RUNTIME_PREFIX_def strip_prefix_def)
qed (simp add: assms(2))

text \<open>The lines of a rendered file, as the pairs they spell.\<close>

definition fixed_pairs :: "f64_text \<Rightarrow> instance_env_content \<Rightarrow> (string \<times> string) list" where
  "fixed_pairs fmt content =
     [(''HTTP_PORT'', show_nat (ic_http_port content)), (''LAYERS'', show_nat (ic_layers content)),
      (''PROGRAM'', ic_program content), (''CWD'', ic_working_directory content)] @
     (case platform_hostname (ic_hostnames content) of Some hostname \<Rightarrow> [(''HOSTNAME'', hostname)] | None \<Rightarrow> []) @
     [(''MAX_RESTARTS'', show_nat (rp_max_restarts (ic_restart_policy content))),
      (''INITIAL_BACKOFF_MS'', show_nat (rp_initial_backoff_ms (ic_restart_policy content))),
      (''MAX_BACKOFF_MS'', show_nat (rp_max_backoff_ms (ic_restart_policy content))),
      (''BACKOFF_FACTOR'', js_number fmt (rp_backoff_factor (ic_restart_policy content))),
      (''RESET_AFTER_MS'', show_nat (rp_reset_after_ms (ic_restart_policy content))),
      (''DNS'', join_with CHR '','' DNS_SERVERS)]"

definition argument_pairs :: "nat \<Rightarrow> string list \<Rightarrow> (string \<times> string) list" where
  "argument_pairs index args = map (\<lambda>(i, a). (''ARG_'' @ show_nat i, a)) (zip [index..<index + length args] args)"

lemma fixed_lines_pairs: "fixed_lines fmt content = map (\<lambda>(name, value). runtime_line name value) (fixed_pairs fmt content)"
  by (simp add: fixed_lines_def fixed_pairs_def Let_def split: option.splits)

lemma argument_pairs_Cons: "argument_pairs index (a # args) = (''ARG_'' @ show_nat index, a) # argument_pairs (Suc index) args"
  by (simp add: argument_pairs_def upt_rec)

lemma argument_lines_pairs:
  "argument_lines index args = Inr ls \<Longrightarrow>
     ls = map (\<lambda>(name, value). runtime_line name value) (argument_pairs index args) \<and>
     \<not> list_ex has_forbidden_character args"
proof (induction args arbitrary: index ls)
  case (Cons a args)
  then obtain rest where "argument_lines (Suc index) args = Inr rest"
    "ls = runtime_line (''ARG_'' @ show_nat index) a # rest" "\<not> has_forbidden_character a"
    by (cases "argument_lines (Suc index) args") (auto split: if_splits)
  with Cons.IH [of "Suc index" rest] show ?case by (simp add: argument_pairs_Cons)
qed (simp add: argument_pairs_def)

lemma variable_lines_pairs:
  "variable_lines vs = Inr ls \<Longrightarrow> ls = map tenant_line vs \<and> \<not> list_ex (\<lambda>(_, value). has_forbidden_character value) vs"
proof (induction vs arbitrary: ls rule: variable_lines.induct)
  case (2 name said vs)
  then show ?case by (cases "variable_lines vs") (auto simp: tenant_line_def split: if_splits)
qed simp

text \<open>The pairs a guest finds in a rendered file, by key.\<close>

definition runtime_pairs :: "f64_text \<Rightarrow> instance_env_content \<Rightarrow> (string \<times> string) list" where
  "runtime_pairs fmt content =
     map (\<lambda>(name, value). (RUNTIME_PREFIX @ name, value)) (fixed_pairs fmt content @ argument_pairs 0 (ic_args content))"

lemma argument_key_eq [simp]: "argument_key i = argument_key j \<longleftrightarrow> i = j"
  by (simp add: argument_key_def)

lemma argument_pairs_lookup:
  "map_of (map (\<lambda>(name, value). (RUNTIME_PREFIX @ name, value)) (argument_pairs index args)) (argument_key i) =
     (if index \<le> i \<and> i < index + length args then Some (args ! (i - index)) else None)"
proof (induction args arbitrary: index)
  case (Cons a args)
  have "RUNTIME_PREFIX @ ''ARG_'' @ show_nat index = argument_key i \<longleftrightarrow> index = i"
    by (simp add: argument_key_def)
  with Cons.IH [of "Suc index"] show ?case
    by (auto simp: argument_pairs_Cons Suc_le_eq nth_Cons' Suc_diff_le)
qed (simp add: argument_pairs_def)

lemma argument_pairs_keys:
  "pair \<in> set (map (\<lambda>(name, value). (RUNTIME_PREFIX @ name, value)) (argument_pairs index args)) \<Longrightarrow>
     strip_prefix (RUNTIME_PREFIX @ ''ARG_'') (fst pair) \<noteq> None"
  by (auto simp: argument_pairs_def strip_prefix_def)

lemma fixed_pairs_keys:
  "pair \<in> set (map (\<lambda>(name, value). (RUNTIME_PREFIX @ name, value)) (fixed_pairs fmt content)) \<Longrightarrow>
     strip_prefix (RUNTIME_PREFIX @ ''ARG_'') (fst pair) = None"
  by (auto simp: fixed_pairs_def strip_prefix_def RUNTIME_PREFIX_def split: option.splits)

lemma runtime_argument:
  "map_of (runtime_pairs fmt content) (argument_key i) =
     (if i < length (ic_args content) then Some (ic_args content ! i) else None)"
proof -
  have "map_of (map (\<lambda>(name, value). (RUNTIME_PREFIX @ name, value)) (fixed_pairs fmt content)) (argument_key i) = None"
    using fixed_pairs_keys [of "(argument_key i, _)" fmt content]
    by (force simp: map_of_eq_None_iff strip_prefix_def argument_key_def)
  then show ?thesis
    by (simp add: runtime_pairs_def argument_pairs_lookup map_add_def)
qed

lemma runtime_fixed:
  assumes "strip_prefix (RUNTIME_PREFIX @ ''ARG_'') key = None"
  shows "map_of (runtime_pairs fmt content) key =
    map_of (map (\<lambda>(name, value). (RUNTIME_PREFIX @ name, value)) (fixed_pairs fmt content)) key"
proof -
  have "map_of (map (\<lambda>(name, value). (RUNTIME_PREFIX @ name, value)) (argument_pairs 0 (ic_args content))) key = None"
    using assms argument_pairs_keys by (metis map_of_SomeD fst_conv not_None_eq)
  then show ?thesis
    by (simp add: runtime_pairs_def map_add_def split: option.splits)
qed

lemma runtime_counts:
  "length (filter (\<lambda>(name, _). strip_prefix (RUNTIME_PREFIX @ ''ARG_'') name \<noteq> None) (runtime_pairs fmt content)) =
     length (ic_args content)"
proof -
  have "filter (\<lambda>(name, _). strip_prefix (RUNTIME_PREFIX @ ''ARG_'') name \<noteq> None)
      (map (\<lambda>(name, value). (RUNTIME_PREFIX @ name, value)) (fixed_pairs fmt content)) = []"
    using fixed_pairs_keys by (fastforce simp: filter_empty_conv)
  moreover have "filter (\<lambda>(name, _). strip_prefix (RUNTIME_PREFIX @ ''ARG_'') name \<noteq> None)
      (map (\<lambda>(name, value). (RUNTIME_PREFIX @ name, value)) (argument_pairs 0 (ic_args content))) =
      map (\<lambda>(name, value). (RUNTIME_PREFIX @ name, value)) (argument_pairs 0 (ic_args content))"
    using argument_pairs_keys by (fastforce simp: filter_id_conv)
  ultimately show ?thesis
    by (simp add: runtime_pairs_def argument_pairs_def)
qed

lemma read_arguments_all:
  assumes "\<And>j. named (argument_key j) = (if j < length args then Some (args ! j) else None)"
    and "i \<le> length args" "length args \<le> i + left"
  shows "read_arguments named left i = Inr (drop i args)"
  using assms(2,3)
proof (induction left arbitrary: i)
  case (Suc left)
  show ?case
  proof (cases "i < length args")
    case True
    with Suc show ?thesis by (simp add: assms(1) flip: Cons_nth_drop_Suc)
  qed (simp add: assms(1))
qed (simp add: assms(1))

lemma expand_offered:
  assumes "\<And>name. name \<in> set RUNTIME_VALUE_NAMES \<Longrightarrow> map_of runtime name = map_of other name"
  shows "expand_all runtime vs = expand_all other vs"
proof -
  have look: "map_option snd (find (\<lambda>(name, _). name = reference \<and> reference \<in> set RUNTIME_VALUE_NAMES) pairs) =
      (if reference \<in> set RUNTIME_VALUE_NAMES then map_of pairs reference else None)" for reference pairs
    by (induction pairs) auto
  have "expand_from key s runtime pos refs = expand_from key s other pos refs" for key s pos refs
  proof (induction refs arbitrary: pos)
    case (Cons r refs)
    obtain start stop reference where r: "r = ((start, stop), reference)" by (metis surj_pair)
    let ?find = "find (\<lambda>(name, _). name = reference \<and> reference \<in> set RUNTIME_VALUE_NAMES)"
    have "map_option snd (?find runtime) = map_option snd (?find other)"
      using assms [of reference] unfolding look by simp
    then show ?case
      using Cons.IH r by (cases "?find runtime"; cases "?find other") (auto simp del: find.simps)
  qed simp
  then have "expand key s runtime = expand key s other" for key s by (simp add: expand_def)
  then show ?thesis by (induction vs rule: expand_all.induct) (auto split: sum.splits)
qed

text \<open>What a content can hold, by the types of its fields; and what the guest has room for.\<close>

definition env_content_ok :: "f64_text \<Rightarrow> instance_env_content \<Rightarrow> bool" where
  "env_content_ok fmt content \<longleftrightarrow>
     ic_http_port content \<le> u16_max \<and> ic_layers content \<le> u32_max \<and>
     is_guest_path (ic_program content) \<and> is_guest_path (ic_working_directory content) \<and>
     (\<forall>h \<in> set (ic_hostnames content). is_hostname (ah_hostname h)) \<and>
     length (ic_args content) \<le> MAX_ARGUMENTS \<and>
     (\<forall>(name, value) \<in> set (ic_environment content). is_environment_name name) \<and>
     rp_max_restarts (ic_restart_policy content) \<le> u32_max \<and>
     (let factor = rp_backoff_factor (ic_restart_policy content)
      in parse_f64 fmt (js_number fmt factor) = Some factor \<and> carriage_free (js_number fmt factor))"

definition guest_has_room :: "instance_env_content \<Rightarrow> bool" where
  "guest_has_room content \<longleftrightarrow>
     rp_initial_backoff_ms (ic_restart_policy content) \<le> u32_max \<and>
     rp_max_backoff_ms (ic_restart_policy content) \<le> u32_max \<and>
     rp_reset_after_ms (ic_restart_policy content) \<le> u32_max \<and>
     length (ic_environment content) \<le> MAX_TENANT_VARIABLES"

text \<open>The runtime values a guest can fill in.\<close>

definition offered :: "instance_env_content \<Rightarrow> (string \<times> string) list" where
  "offered content =
     (''NIBRUN_HTTP_PORT'', show_nat (ic_http_port content)) #
     (case platform_hostname (ic_hostnames content) of
        Some hostname \<Rightarrow> [(''NIBRUN_HOSTNAME'', hostname)] | None \<Rightarrow> [])"

definition config_of :: "instance_env_content \<Rightarrow> (string \<times> string) list \<Rightarrow> instance_config" where
  "config_of content environment =
     (let policy = ic_restart_policy content
      in \<lparr>cg_http_port = ic_http_port content, cg_layers = ic_layers content, cg_program = ic_program content,
          cg_working_directory = ic_working_directory content,
          cg_hostname = platform_hostname (ic_hostnames content),
          cg_max_restarts = rp_max_restarts policy, cg_initial_backoff_ms = rp_initial_backoff_ms policy,
          cg_max_backoff_ms = rp_max_backoff_ms policy, cg_backoff_factor = rp_backoff_factor policy,
          cg_reset_after_ms = rp_reset_after_ms policy, cg_nameservers = DNS_SERVERS,
          cg_arguments = ic_args content, cg_environment = environment\<rparr>)"

lemma show_nat_carriage_free [simp]: "carriage_free (show_nat n)"
  using show_nat_digits [of n] by (auto simp: carriage_free_def is_ascii_digit_def less_eq_char_def)

lemma show_nat_no_equals: "CHR ''='' \<notin> set (show_nat n)"
  using show_nat_digits [of n] by (auto simp: is_ascii_digit_def less_eq_char_def)

lemma split_on_chars: "c \<in> set s \<Longrightarrow> c = d \<or> (\<exists>p \<in> set (split_on d s). c \<in> set p)"
proof (induction s)
  case (Cons a s)
  obtain p ps where "split_on d s = p # ps" by (cases "split_on d s") auto
  with Cons show ?case by auto
qed simp

lemma guest_path_carriage_free: "is_guest_path path \<Longrightarrow> carriage_free path"
proof -
  assume path: "is_guest_path path"
  have chars: "c = CHR ''/'' \<or> is_guest_path_char c" if "c \<in> set path" for c
    using path that split_on_chars [of c "tl path" "CHR ''/''"]
    by (cases path) (auto simp: is_guest_path_def list_all_iff split: if_splits)
  show ?thesis
    using chars [of "CHR 0x0A"] chars [of "CHR 0x0D"] by (auto simp: carriage_free_def is_guest_path_char_def)
qed

lemma hostname_carriage_free: "is_hostname h \<Longrightarrow> carriage_free h"
proof -
  assume host: "is_hostname h"
  have "c = CHR ''.'' \<or> is_ascii_lowercase c \<or> is_ascii_digit c \<or> c = CHR ''-''" if "c \<in> set h" for c
    using host that split_on_chars [of c h "CHR ''.''"]
    by (auto simp: is_hostname_def is_dns_label_def list_all_iff Let_def split: if_splits)
  then show ?thesis by (fastforce simp: carriage_free_def char_class_defs less_eq_char_def)
qed

lemma environment_name_chars: "is_environment_name name \<Longrightarrow> carriage_free name \<and> CHR ''='' \<notin> set name"
  by (cases name) (auto simp: is_environment_name_def carriage_free_def list_all_iff char_class_defs less_eq_char_def)

lemma platform_hostname_in: "platform_hostname hs = Some h \<Longrightarrow> \<exists>each \<in> set hs. h = ah_hostname each"
  by (auto simp: platform_hostname_def find_Some_iff)

lemma carriage_free_lines [simp]:
  "carriage_free (runtime_line name v) \<longleftrightarrow> carriage_free name \<and> carriage_free v"
  "carriage_free (tenant_line (name, v)) \<longleftrightarrow> carriage_free name \<and> carriage_free v"
  by (auto simp: runtime_line_def tenant_line_def carriage_free_def RUNTIME_PREFIX_def TENANT_PREFIX_def)

lemma fixed_lines_free:
  assumes "env_content_ok fmt content"
  shows "list_all carriage_free (fixed_lines fmt content)"
proof -
  have names: "carriage_free ''HTTP_PORT''" "carriage_free ''LAYERS''" "carriage_free ''PROGRAM''" "carriage_free ''CWD''"
    "carriage_free ''HOSTNAME''" "carriage_free ''MAX_RESTARTS''" "carriage_free ''INITIAL_BACKOFF_MS''"
    "carriage_free ''MAX_BACKOFF_MS''" "carriage_free ''BACKOFF_FACTOR''" "carriage_free ''RESET_AFTER_MS''"
    "carriage_free ''DNS''" "carriage_free (join_with CHR '','' DNS_SERVERS)"
    by (simp_all add: carriage_free_def DNS_SERVERS_def)
  have "carriage_free (ic_program content)" "carriage_free (ic_working_directory content)"
    "carriage_free (js_number fmt (rp_backoff_factor (ic_restart_policy content)))"
    using assms guest_path_carriage_free by (simp_all add: env_content_ok_def Let_def)
  moreover have "carriage_free h" if "platform_hostname (ic_hostnames content) = Some h" for h
    using platform_hostname_in [OF that] assms hostname_carriage_free by (auto simp: env_content_ok_def)
  ultimately show ?thesis
    unfolding fixed_lines_def Let_def by (auto simp: names split: option.splits)
qed

lemma rendered_lines:
  assumes "render_instance_env fmt content = Inr contents" "env_content_ok fmt content"
  shows "read_env_lines (str_lines contents) = Inr (runtime_pairs fmt content, ic_environment content)"
proof -
  obtain arguments variables where lines: "argument_lines 0 (ic_args content) = Inr arguments"
    "variable_lines (ic_environment content) = Inr variables"
    "contents = join_with CHR 0x0A (fixed_lines fmt content @ arguments @ variables) @ [CHR 0x0A]"
    using assms(1) by (auto simp: render_instance_env_def split: sum.splits)
  note args = argument_lines_pairs [OF lines(1)] and vars = variable_lines_pairs [OF lines(2)]
  have names: "\<forall>(name, v) \<in> set (ic_environment content). carriage_free name \<and> CHR ''='' \<notin> set name"
    using assms(2) environment_name_chars by (auto simp: env_content_ok_def)
  have "list_all carriage_free arguments"
    using args show_nat_carriage_free
    by (auto simp: list_all_iff argument_pairs_def has_forbidden_character_def list_ex_iff carriage_free_def
        runtime_line_def RUNTIME_PREFIX_def dest!: set_zip_rightD)
  moreover have "list_all carriage_free variables"
    using vars names
    by (fastforce simp: list_all_iff has_forbidden_character_def list_ex_iff carriage_free_def tenant_line_def TENANT_PREFIX_def)
  ultimately have "str_lines contents = fixed_lines fmt content @ arguments @ variables"
    unfolding lines(3) using fixed_lines_free [OF assms(2)] by (intro str_lines_join) (simp_all add: fixed_lines_def)
  moreover have "\<forall>(name, v) \<in> set (fixed_pairs fmt content @ argument_pairs 0 (ic_args content)). CHR ''='' \<notin> set name"
    by (auto simp: fixed_pairs_def argument_pairs_def show_nat_no_equals split: option.splits)
  ultimately show ?thesis
    using read_runtime_lines [of "fixed_pairs fmt content @ argument_pairs 0 (ic_args content)" "map tenant_line (ic_environment content)"]
      read_tenant_lines [of "ic_environment content"] args vars names
    by (simp add: fixed_lines_pairs runtime_pairs_def case_prod_unfold)
qed

lemma number_show_nat:
  "named key = Some (show_nat n) \<Longrightarrow> n \<le> u32_max \<Longrightarrow> env_number named key = Inr n"
  by (simp add: env_number_def env_required_def parse_unsigned_show_nat)

lemma runtime_values:
  "map_of (runtime_pairs fmt content) ''NIBRUN_HTTP_PORT'' = Some (show_nat (ic_http_port content))"
  "map_of (runtime_pairs fmt content) ''NIBRUN_LAYERS'' = Some (show_nat (ic_layers content))"
  "map_of (runtime_pairs fmt content) ''NIBRUN_PROGRAM'' = Some (ic_program content)"
  "map_of (runtime_pairs fmt content) ''NIBRUN_CWD'' = Some (ic_working_directory content)"
  "map_of (runtime_pairs fmt content) ''NIBRUN_HOSTNAME'' = platform_hostname (ic_hostnames content)"
  "map_of (runtime_pairs fmt content) ''NIBRUN_MAX_RESTARTS'' = Some (show_nat (rp_max_restarts (ic_restart_policy content)))"
  "map_of (runtime_pairs fmt content) ''NIBRUN_INITIAL_BACKOFF_MS'' =
     Some (show_nat (rp_initial_backoff_ms (ic_restart_policy content)))"
  "map_of (runtime_pairs fmt content) ''NIBRUN_MAX_BACKOFF_MS'' =
     Some (show_nat (rp_max_backoff_ms (ic_restart_policy content)))"
  "map_of (runtime_pairs fmt content) ''NIBRUN_BACKOFF_FACTOR'' =
     Some (js_number fmt (rp_backoff_factor (ic_restart_policy content)))"
  "map_of (runtime_pairs fmt content) ''NIBRUN_RESET_AFTER_MS'' =
     Some (show_nat (rp_reset_after_ms (ic_restart_policy content)))"
  "map_of (runtime_pairs fmt content) ''NIBRUN_DNS'' = Some (join_with CHR '','' DNS_SERVERS)"
  by (simp_all add: runtime_fixed strip_prefix_def RUNTIME_PREFIX_def fixed_pairs_def split: option.splits)

lemma offered_values:
  "expand_all (runtime_pairs fmt content) vs = expand_all (offered content) vs"
  by (rule expand_offered) (auto simp: RUNTIME_VALUE_NAMES_def runtime_values offered_def split: option.splits)

lemma config_of_rendered:
  assumes "env_content_ok fmt content" "guest_has_room content"
  shows "config_from fmt (map_of (runtime_pairs fmt content)) DNS_SERVERS (ic_args content) environment =
    Inr (config_of content environment)"
proof -
  note ok = assms [unfolded env_content_ok_def guest_has_room_def Let_def]
  have "ic_http_port content \<le> u32_max" using ok(1) by (simp add: u16_max_def u32_max_def)
  with ok show ?thesis
    by (simp add: config_from_def config_of_def Let_def runtime_values number_show_nat env_required_def)
qed

lemma rendered_arguments:
  assumes "env_content_ok fmt content"
  shows "read_arguments (map_of (runtime_pairs fmt content)) MAX_ARGUMENTS 0 = Inr (ic_args content)"
  using read_arguments_all [of "map_of (runtime_pairs fmt content)" "ic_args content" 0 MAX_ARGUMENTS] assms
  by (simp add: runtime_argument env_content_ok_def)

lemma rendered_nameservers:
  "take MAX_NAMESERVERS (filter (\<lambda>entry. entry \<noteq> []) (split_on CHR '','' (join_with CHR '','' DNS_SERVERS))) = DNS_SERVERS"
  by (simp add: MAX_NAMESERVERS_def DNS_SERVERS_def)


definition sample_fmt :: f64_text where
  "sample_fmt = \<lparr>show_f64 = (\<lambda>_. ''''), parse_f64 = (\<lambda>s. map_option real (parse_unsigned u32_max s))\<rparr>"

definition sample_policy :: restart_policy where
  "sample_policy = \<lparr>rp_max_restarts = 3, rp_initial_backoff_ms = 100, rp_max_backoff_ms = 1000,
     rp_backoff_factor = 2, rp_reset_after_ms = 60000\<rparr>"

definition sample_content :: instance_env_content where
  "sample_content = \<lparr>ic_http_port = 8080, ic_layers = 1, ic_hostnames = [], ic_program = ''/run'',
     ic_working_directory = ''/'', ic_args = [''a b''], ic_environment = [(''URL'', ''a:${NIBRUN_HTTP_PORT}'')],
     ic_restart_policy = sample_policy\<rparr>"

lemma sample_content_ok: "env_content_ok sample_fmt sample_content" "guest_has_room sample_content"
proof -
  have "js_number sample_fmt 2 = show_nat 2" by (simp add: js_number_def show_int_def)
  then show "env_content_ok sample_fmt sample_content"
    by (simp add: env_content_ok_def sample_content_def sample_policy_def sample_fmt_def parse_unsigned_show_nat
        u16_max_def u32_max_def MAX_ARGUMENTS_def is_environment_name_def char_class_defs less_eq_char_def
        is_guest_path_def is_guest_path_char_def MAX_GUEST_PATH_LENGTH_def ENVIRONMENT_RESERVED_NAME_def)
qed (simp add: guest_has_room_def sample_content_def sample_policy_def MAX_TENANT_VARIABLES_def u32_max_def)


text \<open>
  Beyond those bounds the two sides part. The document's restart policy is 64 bits wide and nothing
  narrows it; the guest reads 32 bits, so a longer wait, which the host accepts, is a configuration the
  guest refuses.
\<close>

lemma wide_policies_stop_a_guest:
  assumes "render_instance_env fmt content = Inr contents" "env_content_ok fmt content"
    and "length (ic_environment content) \<le> MAX_TENANT_VARIABLES"
    and "expand_all (offered content) (ic_environment content) = Inr environment"
    and "rp_initial_backoff_ms (ic_restart_policy content) \<le> u32_max" "rp_max_backoff_ms (ic_restart_policy content) \<le> u32_max"
    and "u32_max < rp_reset_after_ms (ic_restart_policy content)"
  shows "parse_instance_env fmt contents = Inl (MalformedEnv ''NIBRUN_RESET_AFTER_MS'' ''a number'')"
proof -
  note ok = assms(2) [unfolded env_content_ok_def Let_def]
  have "ic_http_port content \<le> u32_max" using ok by (simp add: u16_max_def u32_max_def)
  moreover have "parse_unsigned u32_max (show_nat n) = None" if "u32_max < n" for n
    using that parse_unsigned_show_nat [of n n] by (auto simp: parse_unsigned_def Let_def split: if_splits)
  ultimately have "config_from fmt (map_of (runtime_pairs fmt content)) nameservers arguments environment =
      Inl (MalformedEnv ''NIBRUN_RESET_AFTER_MS'' ''a number'')" for nameservers arguments environment
    using ok assms(5-7) by (simp add: config_from_def runtime_values env_required_def env_number_def parse_unsigned_show_nat)
  then show ?thesis
    using rendered_lines [OF assms(1,2)] rendered_arguments [OF assms(2)] runtime_counts [of fmt content, simplified] assms(3,4)
    by (simp add: parse_instance_env_def env_required_def Let_def runtime_values offered_values)
qed

text \<open>A reference to the hostname, which every document may hold, needs a platform hostname.\<close>

lemma hostname_references_need_a_hostname:
  assumes "platform_hostname (ic_hostnames content) = None"
  shows "expand_all (offered content) [(name, ''${NIBRUN_HOSTNAME}'')] = Inl (UnknownReference name ''NIBRUN_HOSTNAME'')"
proof -
  have "runtime_references ''${NIBRUN_HOSTNAME}'' = [((0, 18), ''NIBRUN_HOSTNAME'')]" by code_simp
  then show ?thesis using assms by (simp add: offered_def expand_def)
qed

end
