(* ===== verification/CronSchedule.thy ===== *)
theory CronSchedule
  imports Frames Text
begin

text \<open>
  Cron schedules: the checked values of \<open>crates/protocol/src/cron.rs\<close> and the parser and the search of
  \<open>domain/cron/schedule.rs\<close>. The calendar and the time zones are those of the libraries chrono and
  chrono-tz and a parameter: a date is a day number, an instant and a local time are nanoseconds.
  Shown: a parsed schedule holds only values of its fields, and the search finds the first
  occurrence after an instant.
\<close>

section \<open>Texts\<close>

text \<open>\<open>split_whitespace\<close> on a text whose only white space is blanks and tabs.\<close>

definition blank_words :: "string \<Rightarrow> string list" where
  "blank_words s = filter (\<lambda>word. word \<noteq> []) (concat (map (split_on CHR 0x09) (split_on CHR '' '' s)))"

text \<open>\<open>str::parse::<i8>\<close>.\<close>

definition parse_i8 :: "string \<Rightarrow> int option" where
  "parse_i8 s =
     (case s of
        [] \<Rightarrow> None
      | c # digits \<Rightarrow>
          if c = CHR ''-''
          then if digits \<noteq> [] \<and> list_all is_ascii_digit digits \<and> digits_value digits \<le> 128
               then Some (- int (digits_value digits)) else None
          else map_option int (parse_unsigned 127 s))"

section \<open>Checked values\<close>

definition MAX_CRON_SCHEDULE_LENGTH :: nat where
  "MAX_CRON_SCHEDULE_LENGTH = 256"

definition is_nonempty_line :: "string \<Rightarrow> bool" where
  "is_nonempty_line value \<longleftrightarrow>
     trim_blank value \<noteq> [] \<and> list_all (\<lambda>c. c \<noteq> byte 0 \<and> c \<noteq> CHR 0x0D \<and> c \<noteq> CHR 0x0A) value"

definition cron_schedule_parse :: "string \<Rightarrow> invalid_value + string" where
  "cron_schedule_parse value =
     (if char_count value > MAX_CRON_SCHEDULE_LENGTH \<or> \<not> is_nonempty_line value
      then Inl (InvalidValue ''a cron schedule must be a nonempty line within the length limit'')
      else Inr value)"

definition cron_command_try_from :: "string \<Rightarrow> invalid_value + string" where
  "cron_command_try_from value =
     (if length value > MAX_CRON_COMMAND_LENGTH \<or> \<not> is_nonempty_line value
      then Inl (InvalidValue ''a cron command must be a nonempty line within the length limit'')
      else Inr value)"

definition cron_command_parse :: "string \<Rightarrow> invalid_value + string" where
  "cron_command_parse value =
     (case secret_parse value of Inl e \<Rightarrow> Inl e | Inr secret \<Rightarrow> cron_command_try_from secret)"

record cron_job_definition =
  cj_schedule :: string
  cj_command :: string
  cj_environment :: "tenant_environment option"

definition cron_job_try_from :: "cron_job_definition \<Rightarrow> invalid_value + cron_job_definition" where
  "cron_job_try_from job =
     (case cj_environment job of
        Some environment \<Rightarrow>
          if length environment > MAX_CRON_ENVIRONMENT_VARIABLES
          then Inl (InvalidValue ''a cron job names too many environment variables'')
          else Inr job
      | None \<Rightarrow> Inr job)"

definition validate_job_limit :: "nat \<Rightarrow> cron_job_definition list \<Rightarrow> invalid_value + unit" where
  "validate_job_limit maximum jobs =
     (if length jobs > maximum then Inl (InvalidValue ''an app names too many cron jobs'') else Inr ())"

record cron_table =
  ct_app_id :: app_id
  ct_deployment_id :: deployment_id
  ct_jobs :: "cron_job_definition list"
  ct_crontab :: "string option"

section \<open>Fields\<close>

definition SEARCH_DAYS :: nat where
  "SEARCH_DAYS = 366 * 8"

definition MAX_OFFSET_GAP_MINUTES :: nat where
  "MAX_OFFSET_GAP_MINUTES = 24 * 60"

definition MONTH_NAMES :: "string list" where
  "MONTH_NAMES = [''JANUARY'', ''FEBRUARY'', ''MARCH'', ''APRIL'', ''MAY'', ''JUNE'', ''JULY'', ''AUGUST'',
     ''SEPTEMBER'', ''OCTOBER'', ''NOVEMBER'', ''DECEMBER'']"

definition WEEKDAY_NAMES :: "string list" where
  "WEEKDAY_NAMES = [''SUNDAY'', ''MONDAY'', ''TUESDAY'', ''WEDNESDAY'', ''THURSDAY'', ''FRIDAY'', ''SATURDAY'']"

datatype invalid_cron_schedule = Expression | NoOccurrence

record cron_field =
  cf_values :: "nat list"
  cf_wildcard :: bool

fun position :: "('a \<Rightarrow> bool) \<Rightarrow> 'a list \<Rightarrow> nat option" where
  "position P [] = None"
| "position P (x # xs) = (if P x then Some 0 else map_option Suc (position P xs))"

definition field_number :: "nat \<Rightarrow> nat \<Rightarrow> string list \<Rightarrow> string \<Rightarrow> invalid_cron_schedule + nat" where
  "field_number minimum maximum names value =
     (let found = position (\<lambda>name. eq_ignore_ascii_case value name \<or> eq_ignore_ascii_case value (take 3 name)) names;
          parsed = (case found of
              Some index \<Rightarrow> Some (index + minimum)
            | None \<Rightarrow> map_option (\<lambda>number. nat (number mod 2 ^ 32)) (parse_i8 value))
      in case parsed of
           None \<Rightarrow> Inl Expression
         | Some number \<Rightarrow> if \<not> (minimum \<le> number \<and> number \<le> maximum) then Inl Expression else Inr number)"

text \<open>\<open>(lo..=hi).step_by(step)\<close>.\<close>

definition stepped :: "nat \<Rightarrow> nat \<Rightarrow> nat \<Rightarrow> nat list" where
  "stepped lo hi step = (if lo > hi then [] else map (\<lambda>k. lo + k * step) [0..<Suc ((hi - lo) div step)])"

text \<open>The bounds of one part of a field, from what stands before its slash.\<close>

definition field_bounds ::
  "nat \<Rightarrow> nat \<Rightarrow> string list \<Rightarrow> bool \<Rightarrow> string \<Rightarrow> invalid_cron_schedule + (nat \<times> nat)" where
  "field_bounds minimum maximum names has_step bounds =
     (let single = (case field_number minimum maximum names bounds of
            Inl e \<Rightarrow> Inl e
          | Inr first \<Rightarrow> Inr (first, if has_step then maximum else first))
      in if bounds = ''*'' then Inr (minimum, maximum)
         else if starts_with ''-'' bounds \<and> CHR ''-'' \<notin> set (drop 1 bounds) then single
         else case split_once CHR ''-'' bounds of
           Some (low, high) \<Rightarrow>
             (case field_number minimum maximum names low of
                Inl e \<Rightarrow> Inl e
              | Inr a \<Rightarrow>
                  (case field_number minimum maximum names high of Inl e \<Rightarrow> Inl e | Inr b \<Rightarrow> Inr (a, b)))
         | None \<Rightarrow> single)"

definition field_part :: "nat \<Rightarrow> nat \<Rightarrow> string list \<Rightarrow> string \<Rightarrow> invalid_cron_schedule + nat list" where
  "field_part minimum maximum names part =
     (let (bounds, step, has_step) =
            (case split_once CHR ''/'' part of
               Some (bounds, step) \<Rightarrow> (bounds, parse_i8 step, True)
             | None \<Rightarrow> (part, Some 1, False))
      in case step of
           None \<Rightarrow> Inl Expression
         | Some step \<Rightarrow>
             if step \<le> 0 then Inl Expression
             else case field_bounds minimum maximum names has_step bounds of
                    Inl e \<Rightarrow> Inl e
                  | Inr (lo, hi) \<Rightarrow>
                      if lo > hi then Inl Expression else Inr (stepped lo hi (nat step)))"

fun field_parts :: "nat \<Rightarrow> nat \<Rightarrow> string list \<Rightarrow> string list \<Rightarrow> invalid_cron_schedule + nat list" where
  "field_parts minimum maximum names [] = Inr []"
| "field_parts minimum maximum names (part # parts) =
     (case field_part minimum maximum names part of
        Inl e \<Rightarrow> Inl e
      | Inr values \<Rightarrow> map_sum id ((@) values) (field_parts minimum maximum names parts))"

definition sorted_once :: "nat list \<Rightarrow> nat list" where
  "sorted_once values = remdups_adj (sort values)"

definition field_parse :: "nat \<Rightarrow> nat \<Rightarrow> string list \<Rightarrow> string \<Rightarrow> invalid_cron_schedule + cron_field" where
  "field_parse minimum maximum names said =
     map_sum id (\<lambda>values. \<lparr>cf_values = sorted_once values, cf_wildcard = (said = ''*'')\<rparr>)
       (field_parts minimum maximum names (split_on CHR '','' said))"

definition field_contains :: "cron_field \<Rightarrow> nat \<Rightarrow> bool" where
  "field_contains field n \<longleftrightarrow> n \<in> set (cf_values field)"

record parsed_schedule =
  ps_minute :: cron_field
  ps_hour :: cron_field
  ps_day :: cron_field
  ps_month :: cron_field
  ps_weekday :: cron_field

definition schedule_alias :: "string \<Rightarrow> string" where
  "schedule_alias normalized =
     (if normalized = ''@yearly'' \<or> normalized = ''@annually'' then ''0 0 1 1 *''
      else if normalized = ''@monthly'' then ''0 0 1 * *''
      else if normalized = ''@weekly'' then ''0 0 * * 0''
      else if normalized = ''@daily'' \<or> normalized = ''@midnight'' then ''0 0 * * *''
      else if normalized = ''@hourly'' then ''0 * * * *''
      else normalized)"

text \<open>Sunday is also the seventh day.\<close>

definition fold_sunday :: "cron_field \<Rightarrow> cron_field" where
  "fold_sunday field = field\<lparr>cf_values := sorted_once (map (\<lambda>n. if n = 7 then 0 else n) (cf_values field))\<rparr>"

definition schedule_parse :: "string \<Rightarrow> invalid_cron_schedule + parsed_schedule" where
  "schedule_parse expression =
     (if list_ex (\<lambda>w. contains_str w expression) OTHER_WHITESPACE then Inl Expression
      else case blank_words (schedule_alias (map to_ascii_lower (trim_blank expression))) of
        [minute, hour, day, month, weekday] \<Rightarrow>
          (case field_parse 0 7 WEEKDAY_NAMES weekday of
             Inl e \<Rightarrow> Inl e
           | Inr weekday \<Rightarrow>
               (case (field_parse 0 59 [] minute, field_parse 0 23 [] hour, field_parse 1 31 [] day,
                      field_parse 1 12 MONTH_NAMES month) of
                  (Inr minute, Inr hour, Inr day, Inr month) \<Rightarrow>
                    Inr \<lparr>ps_minute = minute, ps_hour = hour, ps_day = day, ps_month = month,
                         ps_weekday = fold_sunday weekday\<rparr>
                | _ \<Rightarrow> Inl Expression))
      | _ \<Rightarrow> Inl Expression)"

section \<open>Calendar and time zones\<close>

text \<open>
  What the code uses of chrono: the day of the month, the month and the weekday of a date, the last
  date there is, and which local times can be represented.
\<close>

record chrono =
  ch_day :: "int \<Rightarrow> nat"
  ch_month :: "int \<Rightarrow> nat"
  ch_weekday :: "int \<Rightarrow> nat"
  ch_last_date :: int
  ch_local_ok :: "int \<Rightarrow> bool"

text \<open>A local time names no instant, one, or two (the earlier of a repeated hour first).\<close>

datatype local_result = LocalNone | Single int | Ambiguous int int

record time_zone =
  tz_name :: string
  tz_local :: "int \<Rightarrow> int"
  tz_from_local :: "int \<Rightarrow> local_result"

definition MINUTE_NS :: int where
  "MINUTE_NS = 60 * 10 ^ 9"

definition DAY_NS :: int where
  "DAY_NS = 24 * 60 * MINUTE_NS"

definition date_of :: "int \<Rightarrow> int" where
  "date_of local = local div DAY_NS"

definition at_hms :: "int \<Rightarrow> nat \<Rightarrow> nat \<Rightarrow> int" where
  "at_hms date hour minute = date * DAY_NS + (int hour * 60 + int minute) * MINUTE_NS"

definition and_hms_opt :: "int \<Rightarrow> nat \<Rightarrow> nat \<Rightarrow> int option" where
  "and_hms_opt date hour minute =
     (if hour < 24 \<and> minute < 60 then Some (at_hms date hour minute) else None)"

fun earliest :: "local_result \<Rightarrow> int option" where
  "earliest LocalNone = None"
| "earliest (Single t) = Some t"
| "earliest (Ambiguous t u) = Some t"

section \<open>Occurrences\<close>

text \<open>One side of a gap: its offset, once a local time outside the gap is found.\<close>

definition search_side :: "chrono \<Rightarrow> time_zone \<Rightarrow> int option \<Rightarrow> int \<Rightarrow> int option option" where
  "search_side ch tz held local =
     (case held of
        Some offset \<Rightarrow> Some held
      | None \<Rightarrow>
          if ch_local_ok ch local then Some (map_option (\<lambda>t. local - t) (earliest (tz_from_local tz local)))
          else None)"

fun gap_search :: "chrono \<Rightarrow> time_zone \<Rightarrow> int \<Rightarrow> int option \<Rightarrow> int option \<Rightarrow> nat list \<Rightarrow> int option" where
  "gap_search ch tz local before after [] = None"
| "gap_search ch tz local before after (minutes # rest) =
     Option.bind (search_side ch tz before (local - int minutes * MINUTE_NS)) (\<lambda>before.
     Option.bind (search_side ch tz after (local + int minutes * MINUTE_NS)) (\<lambda>after.
       case (before, after) of
         (Some offset_before, Some offset_after) \<Rightarrow>
           (let shifted = local + (offset_after - offset_before)
            in if ch_local_ok ch shifted then earliest (tz_from_local tz shifted) else None)
       | _ \<Rightarrow> gap_search ch tz local before after rest))"

definition local_occurrence :: "chrono \<Rightarrow> time_zone \<Rightarrow> int \<Rightarrow> int option" where
  "local_occurrence ch tz local =
     (case tz_from_local tz local of
        Single t \<Rightarrow> Some t
      | Ambiguous t u \<Rightarrow> Some (min t u)
      | LocalNone \<Rightarrow> gap_search ch tz local None None [1..<Suc MAX_OFFSET_GAP_MINUTES])"

definition day_matches :: "chrono \<Rightarrow> parsed_schedule \<Rightarrow> int \<Rightarrow> bool" where
  "day_matches ch schedule date \<longleftrightarrow>
     (let day_matches = field_contains (ps_day schedule) (ch_day ch date);
          weekday_matches = field_contains (ps_weekday schedule) (ch_weekday ch date);
          matches = (if cf_wildcard (ps_day schedule) \<or> cf_wildcard (ps_weekday schedule)
                     then day_matches \<and> weekday_matches else day_matches \<or> weekday_matches)
      in field_contains (ps_month schedule) (ch_month ch date) \<and> matches)"

text \<open>The two inner loops of a day, over every hour and minute of the schedule.\<close>

fun scan_day :: "chrono \<Rightarrow> time_zone \<Rightarrow> int \<Rightarrow> int \<Rightarrow> (nat \<times> nat) list \<Rightarrow> int option \<Rightarrow>
    invalid_cron_schedule + int option" where
  "scan_day ch tz after date [] found = Inr found"
| "scan_day ch tz after date ((hour, minute) # rest) found =
     (case and_hms_opt date hour minute of
        None \<Rightarrow> Inl Expression
      | Some local \<Rightarrow>
          scan_day ch tz after date rest
            (case local_occurrence ch tz local of
               Some candidate \<Rightarrow>
                 if candidate > after \<and> (case found of None \<Rightarrow> True | Some held \<Rightarrow> candidate < held)
                 then Some candidate else found
             | None \<Rightarrow> found))"

fun next_loop :: "nat \<Rightarrow> chrono \<Rightarrow> time_zone \<Rightarrow> parsed_schedule \<Rightarrow> int \<Rightarrow> int \<Rightarrow> invalid_cron_schedule + int" where
  "next_loop 0 ch tz schedule after date = Inl NoOccurrence"
| "next_loop (Suc days) ch tz schedule after date =
     (let later = (if date = ch_last_date ch then Inl NoOccurrence
                   else next_loop days ch tz schedule after (date + 1))
      in if \<not> day_matches ch schedule date then later
         else case scan_day ch tz after date
                (List.product (cf_values (ps_hour schedule)) (cf_values (ps_minute schedule))) None of
                Inl e \<Rightarrow> Inl e
              | Inr (Some found) \<Rightarrow> Inr found
              | Inr None \<Rightarrow> later)"

definition next_after :: "chrono \<Rightarrow> time_zone \<Rightarrow> parsed_schedule \<Rightarrow> int \<Rightarrow> invalid_cron_schedule + int" where
  "next_after ch tz schedule after = next_loop SEARCH_DAYS ch tz schedule after (date_of (tz_local tz after))"

section \<open>What a parsed schedule holds\<close>

definition field_ok :: "nat \<Rightarrow> nat \<Rightarrow> cron_field \<Rightarrow> bool" where
  "field_ok minimum maximum field \<longleftrightarrow>
     cf_values field \<noteq> [] \<and> sorted (cf_values field) \<and> distinct (cf_values field) \<and>
     list_all (\<lambda>n. minimum \<le> n \<and> n \<le> maximum) (cf_values field) \<and>
     (cf_wildcard field \<longrightarrow> cf_values field = [minimum..<Suc maximum])"

lemma distinct_remdups_adj_sorted: "sorted (xs :: nat list) \<Longrightarrow> distinct (remdups_adj xs)"
  by (induction xs rule: remdups_adj.induct) (auto simp: less_le)

lemma sorted_once [simp]:
  "sorted (sorted_once vs)" "distinct (sorted_once vs)" "set (sorted_once vs) = set vs"
  "sorted_once vs = [] \<longleftrightarrow> vs = []"
proof -
  show "sorted (sorted_once vs)" by (simp add: sorted_once_def sorted_remdups_adj)
  show "distinct (sorted_once vs)" by (simp add: sorted_once_def distinct_remdups_adj_sorted)
  show "set (sorted_once vs) = set vs" by (simp add: sorted_once_def)
  then show "sorted_once vs = [] \<longleftrightarrow> vs = []" by (metis set_empty)
qed

lemma field_number_bounds: "field_number lo hi names s = Inr n \<Longrightarrow> lo \<le> n \<and> n \<le> hi"
  by (auto simp: field_number_def Let_def split: option.splits if_splits)

lemma field_bounds_within:
  "field_bounds lo hi names has_step s = Inr (a, b) \<Longrightarrow> lo \<le> hi \<Longrightarrow> lo \<le> a \<and> b \<le> hi"
  by (auto simp: field_bounds_def Let_def dest!: field_number_bounds split: sum.splits if_splits option.splits)

lemma stepped_set: "0 < k \<Longrightarrow> n \<in> set (stepped lo hi k) \<longleftrightarrow> lo \<le> n \<and> n \<le> hi \<and> k dvd (n - lo)"
proof -
  assume k: "0 < k"
  have "(\<exists>j \<le> (hi - lo) div k. n = lo + j * k) \<longleftrightarrow> lo \<le> n \<and> n \<le> hi \<and> k dvd (n - lo)" if "lo \<le> hi"
  proof
    assume "\<exists>j \<le> (hi - lo) div k. n = lo + j * k"
    then obtain j where j: "j \<le> (hi - lo) div k" "n = lo + j * k" by blast
    then have "j * k \<le> hi - lo" using k by (simp add: less_eq_div_iff_mult_less_eq)
    then show "lo \<le> n \<and> n \<le> hi \<and> k dvd (n - lo)" using j that by simp
  next
    assume n: "lo \<le> n \<and> n \<le> hi \<and> k dvd (n - lo)"
    then obtain j where "n - lo = k * j" by blast
    then have j: "n = lo + j * k" using n by (metis le_add_diff_inverse mult.commute)
    then have "j \<le> (hi - lo) div k" using n k by (simp add: less_eq_div_iff_mult_less_eq)
    with j show "\<exists>j \<le> (hi - lo) div k. n = lo + j * k" by blast
  qed
  moreover have "n \<in> set (stepped lo hi k) \<longleftrightarrow> lo \<le> hi \<and> (\<exists>j \<le> (hi - lo) div k. n = lo + j * k)"
    by (auto simp: stepped_def less_Suc_eq_le image_iff simp del: upt_Suc)
  ultimately show ?thesis by auto
qed

lemma field_part_values:
  assumes "field_part lo hi names s = Inr vs" "lo \<le> hi"
  shows "vs \<noteq> [] \<and> (\<forall>n \<in> set vs. lo \<le> n \<and> n \<le> hi)"
proof -
  from assms(1) obtain a b k has_step said where
    "field_bounds lo hi names has_step said = Inr (a, b)" "a \<le> b" "vs = stepped a b k" "0 < k"
    by (auto simp: field_part_def Let_def split: sum.splits if_splits option.splits prod.splits)
  moreover from this(1) have "lo \<le> a" "b \<le> hi" using field_bounds_within [OF _ assms(2)] by blast+
  ultimately show ?thesis by (auto simp: stepped_set) (simp add: stepped_def)
qed

lemma field_parts_values:
  "field_parts lo hi names parts = Inr vs \<Longrightarrow> lo \<le> hi \<Longrightarrow>
     (vs = [] \<longleftrightarrow> parts = []) \<and> (\<forall>n \<in> set vs. lo \<le> n \<and> n \<le> hi)"
proof (induction parts arbitrary: vs)
  case (Cons part parts)
  from Cons.prems(1) obtain here rest where split: "field_part lo hi names part = Inr here"
    "field_parts lo hi names parts = Inr rest" "vs = here @ rest"
    by (cases "field_parts lo hi names parts") (auto split: sum.splits)
  show ?case
    using Cons.IH [OF split(2) Cons.prems(2)] field_part_values [OF split(1) Cons.prems(2)] split(3) by auto
qed simp

lemma sorted_once_upt [simp]: "sorted_once [lo..<hi] = [lo..<hi]"
proof -
  have "remdups_adj [lo..<hi] = [lo..<hi]" by (simp add: remdups_adj_distinct)
  then show ?thesis by (simp add: sorted_once_def)
qed

lemma field_wildcard: "lo \<le> hi \<Longrightarrow> field_parts lo hi names [''*''] = Inr [lo..<Suc hi]"
proof -
  assume "lo \<le> hi"
  then have "stepped lo hi (Suc 0) = [lo..<Suc hi]"
    using map_add_upt [of lo "Suc hi - lo"] by (simp add: stepped_def Suc_diff_le add.commute del: upt_Suc)
  with \<open>lo \<le> hi\<close> show ?thesis by (simp add: field_part_def field_bounds_def)
qed

lemma field_parse_ok:
  assumes "field_parse lo hi names said = Inr field" "lo \<le> hi"
  shows "field_ok lo hi field"
proof -
  obtain vs where vs: "field_parts lo hi names (split_on CHR '','' said) = Inr vs"
    "field = \<lparr>cf_values = sorted_once vs, cf_wildcard = (said = ''*'')\<rparr>"
    using assms(1) by (cases "field_parts lo hi names (split_on CHR '','' said)") (auto simp: field_parse_def)
  have "cf_values field = [lo..<Suc hi]" if "cf_wildcard field"
    using that vs field_wildcard [OF assms(2)] sorted_once_upt [of lo "Suc hi"]
    by (auto simp del: upt_Suc field_parts.simps)
  with vs field_parts_values [OF vs(1) assms(2)] show ?thesis
    by (auto simp: field_ok_def list_all_iff simp del: upt_Suc)
qed

lemma fold_sunday_ok:
  assumes "field_ok 0 7 field"
  shows "field_ok 0 6 (fold_sunday field)"
proof -
  have "sorted_once (map (\<lambda>n. if n = 7 then 0 else n) [0..<8]) = [0..<7]" by code_simp
  then have "cf_values (fold_sunday field) = [0..<Suc 6]" if "cf_wildcard field"
    using that assms by (simp add: field_ok_def fold_sunday_def)
  with assms show ?thesis
    by (fastforce simp: field_ok_def fold_sunday_def list_all_iff simp del: upt_Suc)
qed

definition schedule_ok :: "parsed_schedule \<Rightarrow> bool" where
  "schedule_ok s \<longleftrightarrow>
     field_ok 0 59 (ps_minute s) \<and> field_ok 0 23 (ps_hour s) \<and> field_ok 1 31 (ps_day s) \<and>
     field_ok 1 12 (ps_month s) \<and> field_ok 0 6 (ps_weekday s)"

lemma schedule_parse_ok: "schedule_parse expression = Inr s \<Longrightarrow> schedule_ok s"
proof -
  assume "schedule_parse expression = Inr s"
  then obtain minute hour day month weekday w where
    fields: "field_parse 0 59 [] minute = Inr (ps_minute s)" "field_parse 0 23 [] hour = Inr (ps_hour s)"
    "field_parse 1 31 [] day = Inr (ps_day s)" "field_parse 1 12 MONTH_NAMES month = Inr (ps_month s)"
    and weekday: "field_parse 0 7 WEEKDAY_NAMES weekday = Inr w" "ps_weekday s = fold_sunday w"
    by (auto simp: schedule_parse_def split: list.splits sum.splits prod.splits if_splits)
  from fold_sunday_ok [OF field_parse_ok [OF weekday(1)]] show ?thesis
    unfolding schedule_ok_def weekday(2) using fields by (simp add: field_parse_ok)
qed

section \<open>The first occurrence\<close>

text \<open>The reference: an instant is an occurrence of a date when one of the schedule's times falls on it.\<close>

definition occurs_on :: "chrono \<Rightarrow> time_zone \<Rightarrow> parsed_schedule \<Rightarrow> int \<Rightarrow> int \<Rightarrow> bool" where
  "occurs_on ch tz s date t \<longleftrightarrow>
     day_matches ch s date \<and>
     (\<exists>hour \<in> set (cf_values (ps_hour s)). \<exists>minute \<in> set (cf_values (ps_minute s)).
        local_occurrence ch tz (at_hms date hour minute) = Some t)"

definition is_first :: "(int \<Rightarrow> bool) \<Rightarrow> int option \<Rightarrow> bool" where
  "is_first P found \<longleftrightarrow> (case found of None \<Rightarrow> \<forall>t. \<not> P t | Some t \<Rightarrow> P t \<and> (\<forall>u. P u \<longrightarrow> t \<le> u))"

lemma is_first_cong: "(\<And>t. P t \<longleftrightarrow> Q t) \<Longrightarrow> is_first P found = is_first Q found"
proof -
  assume "\<And>t. P t \<longleftrightarrow> Q t"
  then have "P = Q" by blast
  then show ?thesis by simp
qed

lemma is_first_step:
  assumes "is_first P found"
  shows "is_first (\<lambda>t. P t \<or> after < t \<and> candidate = Some t)
    (case candidate of
       Some c \<Rightarrow> if c > after \<and> (case found of None \<Rightarrow> True | Some held \<Rightarrow> c < held) then Some c else found
     | None \<Rightarrow> found)"
  using assms by (auto simp: is_first_def split: option.splits)

lemma scan_day_first:
  assumes "\<forall>(hour, minute) \<in> set hms. hour < 24 \<and> minute < 60" "is_first P found"
  shows "\<exists>r. scan_day ch tz after date hms found = Inr r \<and>
    is_first (\<lambda>t. P t \<or> after < t \<and> (\<exists>(hour, minute) \<in> set hms.
       local_occurrence ch tz (at_hms date hour minute) = Some t)) r"
  using assms
proof (induction hms arbitrary: P found)
  case (Cons time rest)
  obtain hour minute where time: "time = (hour, minute)" by (cases time)
  let ?candidate = "local_occurrence ch tz (at_hms date hour minute)"
  let ?Q = "\<lambda>t. P t \<or> after < t \<and> ?candidate = Some t"
  let ?found = "case ?candidate of
      Some c \<Rightarrow> if c > after \<and> (case found of None \<Rightarrow> True | Some held \<Rightarrow> c < held) then Some c else found
    | None \<Rightarrow> found"
  have "is_first ?Q ?found" using Cons.prems(2) by (rule is_first_step)
  with Cons.IH [of ?Q ?found] Cons.prems(1) obtain r where r: "scan_day ch tz after date rest ?found = Inr r"
    "is_first (\<lambda>t. ?Q t \<or> after < t \<and> (\<exists>(hour, minute) \<in> set rest.
       local_occurrence ch tz (at_hms date hour minute) = Some t)) r" by auto
  have "scan_day ch tz after date (time # rest) found = Inr r"
    using r(1) Cons.prems(1) by (simp add: time and_hms_opt_def)
  moreover have "is_first (\<lambda>t. P t \<or> after < t \<and> (\<exists>(hour, minute) \<in> set (time # rest).
       local_occurrence ch tz (at_hms date hour minute) = Some t)) r"
    using r(2) by (rule is_first_cong [THEN iffD1, rotated]) (auto simp: time)
  ultimately show ?case by blast
qed simp

text \<open>One day of the search: nothing but the first occurrence of the day after the instant.\<close>

lemma scan_day_occurs:
  assumes "schedule_ok s" "day_matches ch s date"
  shows "\<exists>r. scan_day ch tz after date (List.product (cf_values (ps_hour s)) (cf_values (ps_minute s))) None = Inr r \<and>
    is_first (\<lambda>t. after < t \<and> occurs_on ch tz s date t) r"
proof -
  have "\<forall>(hour, minute) \<in> set (List.product (cf_values (ps_hour s)) (cf_values (ps_minute s))). hour < 24 \<and> minute < 60"
    using assms(1) by (auto simp: schedule_ok_def field_ok_def list_all_iff less_Suc_eq_le [symmetric])
  from scan_day_first [OF this, of "\<lambda>_. False" None ch tz after date] obtain r where
    "scan_day ch tz after date (List.product (cf_values (ps_hour s)) (cf_values (ps_minute s))) None = Inr r"
    "is_first (\<lambda>t. after < t \<and> (\<exists>(hour, minute) \<in> set (List.product (cf_values (ps_hour s)) (cf_values (ps_minute s))).
       local_occurrence ch tz (at_hms date hour minute) = Some t)) r"
    by (auto simp: is_first_def)
  moreover have "(\<exists>(hour, minute) \<in> set (List.product (cf_values (ps_hour s)) (cf_values (ps_minute s))).
       local_occurrence ch tz (at_hms date hour minute) = Some t) \<longleftrightarrow> occurs_on ch tz s date t" for t
    using assms(2) by (auto simp: occurs_on_def)
  ultimately show ?thesis by simp
qed

definition no_occurrence_on :: "chrono \<Rightarrow> time_zone \<Rightarrow> parsed_schedule \<Rightarrow> int \<Rightarrow> int \<Rightarrow> bool" where
  "no_occurrence_on ch tz s after date \<longleftrightarrow> (\<forall>t. occurs_on ch tz s date t \<longrightarrow> t \<le> after)"

lemma next_loop_step:
  assumes "schedule_ok s"
  shows "(\<exists>t. next_loop (Suc days) ch tz s after date = Inr t \<and> is_first (\<lambda>t. after < t \<and> occurs_on ch tz s date t) (Some t)) \<or>
    no_occurrence_on ch tz s after date \<and>
    next_loop (Suc days) ch tz s after date =
      (if date = ch_last_date ch then Inl NoOccurrence else next_loop days ch tz s after (date + 1))"
proof (cases "day_matches ch s date")
  case True
  from scan_day_occurs [OF assms True] obtain r where r:
    "scan_day ch tz after date (List.product (cf_values (ps_hour s)) (cf_values (ps_minute s))) None = Inr r"
    "is_first (\<lambda>t. after < t \<and> occurs_on ch tz s date t) r" by blast
  show ?thesis
  proof (cases r)
    case None
    with r(2) have "no_occurrence_on ch tz s after date" by (auto simp: is_first_def no_occurrence_on_def not_less)
    with r(1) None True show ?thesis by simp
  next
    case (Some t)
    with r True show ?thesis by simp
  qed
qed (simp add: no_occurrence_on_def occurs_on_def)

text \<open>The days of the search: those from a date on that exist.\<close>

definition search_window :: "chrono \<Rightarrow> nat \<Rightarrow> int \<Rightarrow> int set" where
  "search_window ch days date = {d. date \<le> d \<and> d < date + int days \<and> d \<le> ch_last_date ch}"

lemma next_loop_finds:
  assumes "schedule_ok s" "date \<le> ch_last_date ch"
  shows "(\<exists>t. \<exists>d \<in> search_window ch days date. next_loop days ch tz s after date = Inr t \<and>
       is_first (\<lambda>t. after < t \<and> occurs_on ch tz s d t) (Some t) \<and>
       (\<forall>e. date \<le> e \<and> e < d \<longrightarrow> no_occurrence_on ch tz s after e)) \<or>
     next_loop days ch tz s after date = Inl NoOccurrence \<and>
       (\<forall>e \<in> search_window ch days date. no_occurrence_on ch tz s after e)"
  using assms(2)
proof (induction days arbitrary: date)
  case 0
  then show ?case by (auto simp: search_window_def)
next
  case (Suc days)
  consider (found) t where "next_loop (Suc days) ch tz s after date = Inr t"
      "is_first (\<lambda>t. after < t \<and> occurs_on ch tz s date t) (Some t)"
    | (last) "no_occurrence_on ch tz s after date" "date = ch_last_date ch"
      "next_loop (Suc days) ch tz s after date = Inl NoOccurrence"
    | (on) "no_occurrence_on ch tz s after date" "date < ch_last_date ch"
      "next_loop (Suc days) ch tz s after date = next_loop days ch tz s after (date + 1)"
    using next_loop_step [OF assms(1), of days ch tz after date] Suc.prems
    by (cases "date = ch_last_date ch") auto
  then show ?case
  proof cases
    case found
    moreover have "date \<in> search_window ch (Suc days) date" using Suc.prems by (simp add: search_window_def)
    moreover have "\<forall>e. date \<le> e \<and> e < date \<longrightarrow> no_occurrence_on ch tz s after e" by auto
    ultimately show ?thesis by blast
  next
    case last
    then have "search_window ch (Suc days) date = {date}" by (auto simp: search_window_def)
    with last show ?thesis by simp
  next
    case on
    have window: "search_window ch (Suc days) date = insert date (search_window ch days (date + 1))"
      using on(2) by (auto simp: search_window_def)
    have before: "date \<le> e \<longleftrightarrow> e = date \<or> date + 1 \<le> e" for e by linarith
    from Suc.IH [of "date + 1"] on(2) show ?thesis
      unfolding window on(3) before using on(1) by auto
  qed
qed

text \<open>
  What is asked of a time zone: local times of a later date are not earlier instants, and what
  falls on a date before an instant's local date is not after it.
\<close>

definition zone_in_order :: "chrono \<Rightarrow> time_zone \<Rightarrow> bool" where
  "zone_in_order ch tz \<longleftrightarrow>
     (\<forall>d hour minute t after. hour < 24 \<and> minute < 60 \<and> d < date_of (tz_local tz after) \<and>
        local_occurrence ch tz (at_hms d hour minute) = Some t \<longrightarrow> t \<le> after) \<and>
     (\<forall>d hour minute t e hour' minute' u. hour < 24 \<and> minute < 60 \<and> hour' < 24 \<and> minute' < 60 \<and> d < e \<and>
        local_occurrence ch tz (at_hms d hour minute) = Some t \<and>
        local_occurrence ch tz (at_hms e hour' minute') = Some u \<longrightarrow> t \<le> u)"

lemma occurs_on_time:
  assumes "schedule_ok s" "occurs_on ch tz s d t"
  shows "\<exists>hour minute. hour < 24 \<and> minute < 60 \<and> local_occurrence ch tz (at_hms d hour minute) = Some t"
proof -
  from assms(2) obtain hour minute where at: "hour \<in> set (cf_values (ps_hour s))"
    "minute \<in> set (cf_values (ps_minute s))" "local_occurrence ch tz (at_hms d hour minute) = Some t"
    by (auto simp: occurs_on_def)
  with assms(1) have "hour < 24" "minute < 60"
    by (auto simp: schedule_ok_def field_ok_def list_all_iff less_Suc_eq_le [symmetric])
  with at(3) show ?thesis by blast
qed

lemma zone_in_order_past:
  assumes "zone_in_order ch tz" "schedule_ok s" "occurs_on ch tz s d t" "d < date_of (tz_local tz after)"
  shows "t \<le> after"
  using occurs_on_time [OF assms(2,3)] assms(1,4) unfolding zone_in_order_def by blast

lemma zone_in_order_later:
  assumes "zone_in_order ch tz" "schedule_ok s" "occurs_on ch tz s d t" "occurs_on ch tz s e u" "d < e"
  shows "t \<le> u"
  using occurs_on_time [OF assms(2,3)] occurs_on_time [OF assms(2,4)] assms(1,5) unfolding zone_in_order_def by blast

text \<open>
  (C18) A schedule's next run is its first occurrence after the given instant, among all the days up
  to eight years on: the search by days, hours and minutes computes what the reference says, and
  says that there is none only when there is none. It never takes a parsed schedule for a malformed one.
\<close>

theorem next_run_is_the_first_occurrence:
  assumes "schedule_parse expression = Inr s" "zone_in_order ch tz"
    and "date_of (tz_local tz after) \<le> ch_last_date ch"
  shows "\<exists>found. next_after ch tz s after = (case found of Some t \<Rightarrow> Inr t | None \<Rightarrow> Inl NoOccurrence) \<and>
    is_first (\<lambda>t. after < t \<and> (\<exists>d \<le> ch_last_date ch. d < date_of (tz_local tz after) + int SEARCH_DAYS \<and>
      occurs_on ch tz s d t)) found"
proof -
  let ?today = "date_of (tz_local tz after)"
  let ?occurs = "\<lambda>t. after < t \<and> (\<exists>d \<le> ch_last_date ch. d < ?today + int SEARCH_DAYS \<and> occurs_on ch tz s d t)"
  have ok: "schedule_ok s" using schedule_parse_ok [OF assms(1)] .
  note past = zone_in_order_past [OF assms(2) ok] and later = zone_in_order_later [OF assms(2) ok]
  from next_loop_finds [OF ok assms(3), of SEARCH_DAYS tz after] show ?thesis
  proof (elim disjE exE bexE conjE)
    fix t d
    assume d: "d \<in> search_window ch SEARCH_DAYS ?today" and found: "next_loop SEARCH_DAYS ch tz s after ?today = Inr t"
      and here: "is_first (\<lambda>t. after < t \<and> occurs_on ch tz s d t) (Some t)"
      and before: "\<forall>e. ?today \<le> e \<and> e < d \<longrightarrow> no_occurrence_on ch tz s after e"
    have "t \<le> u" if u: "after < u" "occurs_on ch tz s e u" for e u
    proof (cases e d rule: linorder_cases)
      case less
      then show ?thesis using u before past [OF u(2)] by (force simp: no_occurrence_on_def not_less)
    next
      case equal
      then show ?thesis using here u by (auto simp: is_first_def)
    next
      case greater
      then show ?thesis using here later [OF _ u(2)] by (auto simp: is_first_def)
    qed
    then have "is_first ?occurs (Some t)" using here d by (auto simp: is_first_def search_window_def)
    with found show ?thesis by (intro exI [of _ "Some t"]) (simp add: next_after_def)
  next
    assume none: "next_loop SEARCH_DAYS ch tz s after ?today = Inl NoOccurrence"
      "\<forall>e \<in> search_window ch SEARCH_DAYS ?today. no_occurrence_on ch tz s after e"
    have "u \<le> after" if "occurs_on ch tz s e u" "e \<le> ch_last_date ch" "e < ?today + int SEARCH_DAYS" for e u
      using none(2) that past [OF that(1), of after]
      by (cases "e < ?today") (auto simp: not_less search_window_def no_occurrence_on_def)
    then have "is_first ?occurs None" by (force simp: is_first_def)
    with none(1) show ?thesis by (intro exI [of _ None]) (simp add: next_after_def)
  qed
qed

definition sample_chrono :: chrono where
  "sample_chrono = \<lparr>ch_day = (\<lambda>d. nat (d mod 28) + 1), ch_month = (\<lambda>d. nat (d div 28 mod 12) + 1),
     ch_weekday = (\<lambda>d. nat ((d + 4) mod 7)), ch_last_date = 10 ^ 8, ch_local_ok = (\<lambda>_. True)\<rparr>"

definition sample_zone :: time_zone where
  "sample_zone = \<lparr>tz_name = ''UTC'', tz_local = (\<lambda>t. t), tz_from_local = Single\<rparr>"

lemma at_hms_date: "hour < 24 \<Longrightarrow> minute < 60 \<Longrightarrow> date_of (at_hms d hour minute) = d"
proof -
  assume "hour < 24" "minute < 60"
  then have "0 \<le> (int hour * 60 + int minute) * MINUTE_NS" "(int hour * 60 + int minute) * MINUTE_NS < DAY_NS"
    by (simp_all add: MINUTE_NS_def DAY_NS_def)
  then show ?thesis by (simp add: date_of_def at_hms_def DAY_NS_def div_pos_pos_trivial)
qed

lemma sample_zone_in_order: "zone_in_order ch sample_zone"
proof -
  have mono: "t \<le> u" if "date_of t < date_of u" for t u
    using that zdiv_mono1 [of u t DAY_NS] by (force simp: date_of_def DAY_NS_def MINUTE_NS_def)
  show ?thesis
    unfolding zone_in_order_def local_occurrence_def sample_zone_def by (auto intro!: mono simp: at_hms_date)
qed

definition sample_schedule :: parsed_schedule where
  "sample_schedule =
     \<lparr>ps_minute = \<lparr>cf_values = [30], cf_wildcard = False\<rparr>, ps_hour = \<lparr>cf_values = [2], cf_wildcard = False\<rparr>,
      ps_day = \<lparr>cf_values = [1..<32], cf_wildcard = True\<rparr>, ps_month = \<lparr>cf_values = [1..<13], cf_wildcard = True\<rparr>,
      ps_weekday = \<lparr>cf_values = [0..<7], cf_wildcard = True\<rparr>\<rparr>"

lemma sample_schedule_parsed: "schedule_parse ''30 2 * * *'' = Inr sample_schedule"
proof -
  have words: "list_ex (\<lambda>w. contains_str w ''30 2 * * *'') OTHER_WHITESPACE = False"
    "blank_words (schedule_alias (map to_ascii_lower (trim_blank ''30 2 * * *''))) = [''30'', ''2'', ''*'', ''*'', ''*'']"
    by code_simp+
  have fields: "field_parse 0 59 [] ''30'' = Inr \<lparr>cf_values = [30], cf_wildcard = False\<rparr>"
    "field_parse 0 23 [] ''2'' = Inr \<lparr>cf_values = [2], cf_wildcard = False\<rparr>"
    by code_simp+
  have "field_parse lo hi names ''*'' = Inr \<lparr>cf_values = [lo..<Suc hi], cf_wildcard = True\<rparr>" if "lo \<le> hi" for lo hi names
    using field_wildcard [OF that] by (simp add: field_parse_def del: field_parts.simps upt_Suc)
  then have stars: "field_parse 1 31 [] ''*'' = Inr \<lparr>cf_values = [1..<32], cf_wildcard = True\<rparr>"
    "field_parse 1 12 MONTH_NAMES ''*'' = Inr \<lparr>cf_values = [1..<13], cf_wildcard = True\<rparr>"
    "field_parse 0 7 WEEKDAY_NAMES ''*'' = Inr \<lparr>cf_values = [0..<8], cf_wildcard = True\<rparr>"
    by (simp_all del: upt_Suc)
  have "sorted_once (map (\<lambda>n. if n = 7 then 0 else n) [0..<8]) = [0..<7]" by code_simp
  with stars fields words show ?thesis
    unfolding schedule_parse_def sample_schedule_def by (simp add: fold_sunday_def)
qed

lemma sample_next: "next_after sample_chrono sample_zone sample_schedule 0 = Inr (150 * MINUTE_NS)"
proof -
  have "next_loop (Suc days) sample_chrono sample_zone sample_schedule 0 0 = Inr (150 * MINUTE_NS)" for days
    by (simp add: day_matches_def sample_schedule_def sample_chrono_def sample_zone_def field_contains_def
        and_hms_opt_def local_occurrence_def at_hms_def MINUTE_NS_def)
  from this [of 2927] show ?thesis by (simp add: next_after_def SEARCH_DAYS_def date_of_def sample_zone_def)
qed

theorem next_run_is_the_first_occurrence_witness:
  "schedule_parse ''30 2 * * *'' = Inr sample_schedule \<and>
   is_first (\<lambda>t. 0 < t \<and> (\<exists>d \<le> ch_last_date sample_chrono. d < date_of (tz_local sample_zone 0) + int SEARCH_DAYS \<and>
     occurs_on sample_chrono sample_zone sample_schedule d t)) (Some (150 * MINUTE_NS))"
proof -
  have "date_of (tz_local sample_zone 0) \<le> ch_last_date sample_chrono"
    by (simp add: date_of_def sample_zone_def sample_chrono_def)
  from next_run_is_the_first_occurrence [OF sample_schedule_parsed sample_zone_in_order this] show ?thesis
    using sample_schedule_parsed sample_next by (auto split: option.splits)
qed

lemma next_loop_typed: "schedule_ok s \<Longrightarrow> next_loop days ch tz s after date \<noteq> Inl Expression"
proof (induction days arbitrary: date)
  case (Suc days)
  with next_loop_step [OF Suc.prems, of days ch tz after date] show ?case by (auto split: if_splits)
qed simp

text \<open>
  (C29) Every schedule that is accepted is well typed: each field holds at least one value, in
  ascending order, once each and in the range of the field, and a star holds the whole range. So the
  search for the next run never meets a time of day that does not exist: the only error it can
  answer is that nothing is to come.
\<close>

theorem accepted_schedules_are_well_typed:
  assumes "schedule_parse expression = Inr s"
  shows "field_ok 0 59 (ps_minute s) \<and> field_ok 0 23 (ps_hour s) \<and> field_ok 1 31 (ps_day s) \<and>
    field_ok 1 12 (ps_month s) \<and> field_ok 0 6 (ps_weekday s) \<and>
    (\<forall>ch tz after. next_after ch tz s after \<noteq> Inl Expression)"
  using schedule_parse_ok [OF assms] by (simp add: next_after_def next_loop_typed) (simp add: schedule_ok_def)

theorem accepted_schedules_are_well_typed_witness:
  "schedule_parse ''30 2 * * *'' = Inr sample_schedule \<and> field_ok 1 31 (ps_day sample_schedule) \<and>
   next_after sample_chrono sample_zone sample_schedule 7 \<noteq> Inl Expression"
  using accepted_schedules_are_well_typed [OF sample_schedule_parsed] sample_schedule_parsed by simp

end
