(* ===== verification/Crontab.thy ===== *)
theory Crontab
  imports CronSchedule InstanceEnv
begin

text \<open>
  Crontabs, as a guest registers them (\<open>domain/cron/crontab.rs\<close>), and the request by which a job of
  one is executed (\<open>adapters/cron_execution.rs\<close>). Shown: every job of an accepted crontab has a next
  run, and its command and environment always fit the request that carries them to the guest.
\<close>

section \<open>White space\<close>

text \<open>The characters the parser trims, as the bytes that encode them.\<close>

definition CRONTAB_WHITESPACE :: "string list" where
  "CRONTAB_WHITESPACE =
     [[CHR 0x09], [CHR 0x0A], [CHR 0x0B], [CHR 0x0C], [CHR 0x0D], [CHR 0x20], [CHR 0xC2, CHR 0xA0],
      [CHR 0xE1, CHR 0x9A, CHR 0x80], [CHR 0xE2, CHR 0x80, CHR 0x80], [CHR 0xE2, CHR 0x80, CHR 0x81],
      [CHR 0xE2, CHR 0x80, CHR 0x82], [CHR 0xE2, CHR 0x80, CHR 0x83], [CHR 0xE2, CHR 0x80, CHR 0x84],
      [CHR 0xE2, CHR 0x80, CHR 0x85], [CHR 0xE2, CHR 0x80, CHR 0x86], [CHR 0xE2, CHR 0x80, CHR 0x87],
      [CHR 0xE2, CHR 0x80, CHR 0x88], [CHR 0xE2, CHR 0x80, CHR 0x89], [CHR 0xE2, CHR 0x80, CHR 0x8A],
      [CHR 0xE2, CHR 0x80, CHR 0xA8], [CHR 0xE2, CHR 0x80, CHR 0xA9], [CHR 0xE2, CHR 0x80, CHR 0xAF],
      [CHR 0xE2, CHR 0x81, CHR 0x9F], [CHR 0xE3, CHR 0x80, CHR 0x80], [CHR 0xEF, CHR 0xBB, CHR 0xBF]]"

definition LINE_SEPARATOR :: string where
  "LINE_SEPARATOR = [CHR 0xE2, CHR 0x80, CHR 0xA8]"

definition PARAGRAPH_SEPARATOR :: string where
  "PARAGRAPH_SEPARATOR = [CHR 0xE2, CHR 0x80, CHR 0xA9]"

definition trim_start_crontab :: "string \<Rightarrow> string" where
  "trim_start_crontab = trim_with CRONTAB_WHITESPACE"

definition trim_crontab :: "string \<Rightarrow> string" where
  "trim_crontab s = rev (trim_with (map rev CRONTAB_WHITESPACE) (rev (trim_start_crontab s)))"

section \<open>Lines\<close>

datatype invalid_crontab =
    TextError
  | LineError nat
  | QuoteError nat
  | TimeZoneError nat
  | EnvironmentError nat
  | ScheduleError nat
  | CommandError nat
  | JobLimit

record parsed_crontab =
  pc_jobs :: "cron_job_definition list"
  pc_crontab :: string

definition environment_assignment :: "string \<Rightarrow> (string \<times> string) option" where
  "environment_assignment line =
     (case split_once CHR ''='' line of
        None \<Rightarrow> None
      | Some (name, value) \<Rightarrow>
          (let name = trim_end_blank name
           in case name of
                [] \<Rightarrow> None
              | c # cs \<Rightarrow>
                  if (is_ascii_alphabetic c \<or> c = CHR ''_'') \<and> list_all (\<lambda>c. is_ascii_alphanumeric c \<or> c = CHR ''_'') cs
                  then Some (name, trim_start_blank value) else None))"

definition environment_value :: "string \<Rightarrow> nat \<Rightarrow> invalid_crontab + string" where
  "environment_value said line =
     (let value = trim_crontab said
      in case value of
           [] \<Rightarrow> Inr value
         | quote # rest \<Rightarrow>
             if quote = CHR 0x27 \<or> quote = CHR 0x22
             then if length value > 1 \<and> last value = quote then Inr (butlast rest) else Inl (QuoteError line)
             else Inr value)"

fun skip_fields :: "nat \<Rightarrow> string \<Rightarrow> string option" where
  "skip_fields 0 remaining = Some remaining"
| "skip_fields (Suc n) remaining =
     (let word = takeWhile (\<lambda>c. \<not> is_blank c) remaining; rest = dropWhile (\<lambda>c. \<not> is_blank c) remaining
      in if rest = [] \<or> word = [] then None else skip_fields n (trim_start_blank rest))"

definition job_line :: "string \<Rightarrow> nat \<Rightarrow> invalid_crontab + (string \<times> string)" where
  "job_line line number =
     (case skip_fields (if starts_with ''@'' line then 1 else 5) line of
        None \<Rightarrow> Inl (LineError number)
      | Some remaining \<Rightarrow>
          if remaining = [] then Inl (LineError number)
          else Inr (trim_end_blank (take (length line - length remaining) line), remaining))"

text \<open>What a job's line registers, under the environment at that line.\<close>

definition parse_job ::
  "chrono \<Rightarrow> time_zone \<Rightarrow> int \<Rightarrow> nat \<Rightarrow> (string, tenant_value) btree \<Rightarrow> string \<Rightarrow> invalid_crontab + cron_job_definition" where
  "parse_job ch tz after number environment line =
     question (job_line line number) (\<lambda>(schedule, command).
       case schedule_parse schedule of
         Inl _ \<Rightarrow> Inl (ScheduleError number)
       | Inr parsed \<Rightarrow>
           (case next_after ch tz parsed after of
              Inl _ \<Rightarrow> Inl (ScheduleError number)
            | Inr _ \<Rightarrow>
                (case cron_schedule_parse schedule of
                   Inl _ \<Rightarrow> Inl (ScheduleError number)
                 | Inr schedule \<Rightarrow>
                     (case cron_command_parse command of
                        Inl _ \<Rightarrow> Inl (CommandError number)
                      | Inr command \<Rightarrow>
                          (case tenant_environment_try_from environment of
                             Inl _ \<Rightarrow> Inl (EnvironmentError number)
                           | Inr environment \<Rightarrow>
                               Inr \<lparr>cj_schedule = schedule, cj_command = command,
                                    cj_environment = Some environment\<rparr>)))))"

text \<open>What an assignment leaves of the environment.\<close>

definition parse_assignment ::
  "time_zone \<Rightarrow> nat \<Rightarrow> (string, tenant_value) btree \<Rightarrow> string \<Rightarrow> string \<Rightarrow> invalid_crontab + (string, tenant_value) btree" where
  "parse_assignment tz number environment name said =
     (if \<not> is_environment_name name then Inl (EnvironmentError number)
      else question (environment_value said number) (\<lambda>value.
        if name = ''CRON_TZ'' \<and> value \<noteq> tz_name tz then Inl (TimeZoneError number)
        else case tenant_value_parse value of
          Inl _ \<Rightarrow> Inl (EnvironmentError number)
        | Inr value \<Rightarrow>
            (let environment = bt_insert name value environment
             in if length environment > MAX_CRON_ENVIRONMENT_VARIABLES then Inl (EnvironmentError number)
                else Inr environment)))"

fun parse_crontab_lines ::
  "chrono \<Rightarrow> time_zone \<Rightarrow> int \<Rightarrow> nat \<Rightarrow> nat \<Rightarrow> string list \<Rightarrow> (string, tenant_value) btree \<Rightarrow> cron_job_definition list \<Rightarrow>
     invalid_crontab + cron_job_definition list" where
  "parse_crontab_lines ch tz after max_jobs number [] environment jobs = Inr jobs"
| "parse_crontab_lines ch tz after max_jobs number (raw_line # lines) environment jobs =
     (let line = trim_start_crontab raw_line
      in if trim_crontab line = [] \<or> starts_with ''#'' line
         then parse_crontab_lines ch tz after max_jobs (Suc number) lines environment jobs
         else if CHR 0x0D \<in> set line \<or> contains_str LINE_SEPARATOR line \<or>
           contains_str PARAGRAPH_SEPARATOR line
         then Inl (LineError number)
         else case environment_assignment line of
           Some (name, said) \<Rightarrow>
             question (parse_assignment tz number environment name said) (\<lambda>environment.
               parse_crontab_lines ch tz after max_jobs (Suc number) lines environment jobs)
         | None \<Rightarrow>
             if length jobs = max_jobs then Inl JobLimit
             else question (parse_job ch tz after number environment line) (\<lambda>job.
               parse_crontab_lines ch tz after max_jobs (Suc number) lines environment (jobs @ [job])))"

definition parse_crontab :: "string \<Rightarrow> nat \<Rightarrow> chrono \<Rightarrow> time_zone \<Rightarrow> int \<Rightarrow> invalid_crontab + parsed_crontab" where
  "parse_crontab said max_jobs ch tz after =
     (case crontab_parse said of
        Inl _ \<Rightarrow> Inl TextError
      | Inr crontab \<Rightarrow>
          question (parse_crontab_lines ch tz after max_jobs 1 (str_lines said) [] []) (\<lambda>jobs.
            Inr \<lparr>pc_jobs = jobs, pc_crontab = crontab\<rparr>))"

section \<open>Executing a job\<close>

definition run_request :: "cron_job_definition \<Rightarrow> execution_request" where
  "run_request job =
     \<lparr>er_command = cj_command job,
      er_environment =
        (case cj_environment job of
           None \<Rightarrow> []
         | Some environment \<Rightarrow> map (\<lambda>(name, value). name @ ''='' @ value) environment)\<rparr>"

section \<open>What an accepted crontab can carry\<close>

text \<open>A text got from another by cutting at both ends: no longer, and of the same characters.\<close>

definition part_of :: "string \<Rightarrow> string \<Rightarrow> bool" where
  "part_of piece whole \<longleftrightarrow> (\<exists>before after. whole = before @ piece @ after)"

lemma part_of_refl [simp]: "part_of s s"
  unfolding part_of_def by (metis append_Nil append_Nil2)

lemma part_of_trans [trans]: "part_of a b \<Longrightarrow> part_of b c \<Longrightarrow> part_of a c"
  unfolding part_of_def by (metis append.assoc)

lemma part_of_bound: "part_of piece whole \<Longrightarrow> length piece \<le> length whole \<and> set piece \<subseteq> set whole"
  unfolding part_of_def by auto

lemma part_of_rev: "part_of (rev a) (rev b) \<longleftrightarrow> part_of a b"
  unfolding part_of_def by (metis append.assoc rev_append rev_rev_ident)

lemma part_of_drop [simp]: "part_of (drop n s) s"
  unfolding part_of_def by (metis append_Nil2 append_take_drop_id)

lemma part_of_take [simp]: "part_of (take n s) s"
  unfolding part_of_def by (metis append_Nil append_take_drop_id)

lemma part_of_dropWhile [simp]: "part_of (dropWhile P s) s"
  by (metis dropWhile_eq_drop part_of_drop)

lemma part_of_trim_with: "part_of (trim_with patterns s) s"
proof (induction patterns s rule: trim_with.induct)
  case (1 patterns s)
  then show ?case
    by (subst trim_with.simps) (auto split: option.split intro: part_of_trans [OF _ part_of_drop])
qed

lemma part_of_trims [simp]:
  "part_of (trim_start_blank s) s" "part_of (trim_end_blank s) s" "part_of (trim_start_crontab s) s" "part_of (trim_crontab s) s"
proof -
  show "part_of (trim_start_blank s) s" by (simp add: trim_start_blank_def)
  show "part_of (trim_end_blank s) s"
    using part_of_rev [of "dropWhile is_blank (rev s)" "rev s"] by (simp add: trim_end_blank_def)
  show start: "part_of (trim_start_crontab s) s" by (simp add: trim_start_crontab_def part_of_trim_with)
  have "part_of (rev (trim_with p (rev t))) t" for p t
    using part_of_rev [of "trim_with p (rev t)" "rev t"] by (simp add: part_of_trim_with)
  from part_of_trans [OF this start] show "part_of (trim_crontab s) s" by (simp add: trim_crontab_def)
qed

lemma skip_fields_part: "skip_fields n s = Some rest \<Longrightarrow> part_of rest s"
proof (induction n arbitrary: s)
  case (Suc n)
  then have "part_of rest (trim_start_blank (dropWhile (\<lambda>c. \<not> is_blank c) s))"
    by (auto simp: Let_def split: if_splits)
  also have "part_of \<dots> (dropWhile (\<lambda>c. \<not> is_blank c) s)" by simp
  also have "part_of \<dots> s" by simp
  finally show ?case .
qed simp

lemma job_line_part: "job_line line number = Inr (schedule, command) \<Longrightarrow> part_of command line"
  using skip_fields_part [of _ line] by (auto simp: job_line_def simp del: skip_fields.simps split: option.splits if_splits)

lemma environment_value_part: "environment_value said line = Inr v \<Longrightarrow> part_of v said"
proof -
  assume v: "environment_value said line = Inr v"
  have "part_of (butlast w) (c # w)" for c :: char and w
    using part_of_trans [OF part_of_take [of "length w - 1" w], of "c # w"] part_of_drop [of 1 "c # w"]
    by (simp add: butlast_conv_take)
  then have "part_of v (trim_crontab said)"
    using v by (auto simp: environment_value_def Let_def split: list.splits if_splits)
  then show ?thesis using part_of_trans part_of_trims(4) by blast
qed

lemma environment_assignment_bound:
  assumes "environment_assignment line = Some (name, said)"
  shows "length name + 1 + length said \<le> length line \<and> set said \<subseteq> set line"
proof -
  from assms obtain a b where "split_once CHR ''='' line = Some (a, b)" "part_of name a" "part_of said b"
    by (auto simp: environment_assignment_def Let_def split: option.splits list.splits if_splits)
  with split_once_Some [of "CHR ''=''" line a b] part_of_bound [of name a] part_of_bound [of said b] show ?thesis by auto
qed

text \<open>The bytes an environment takes in a request, beside the length of each entry.\<close>

definition entry_bytes :: "(string \<times> string) list \<Rightarrow> nat" where
  "entry_bytes environment = sum_list (map (\<lambda>(name, v). length name + 1 + length v) environment)"

lemma entry_bytes_insert:
  "entry_bytes (bt_insert name v environment) \<le> entry_bytes environment + (length name + 1 + length v)"
  by (induction environment rule: bt_insert.induct) (auto simp: entry_bytes_def)

definition environment_ok :: "char set \<Rightarrow> (string \<times> string) list \<Rightarrow> bool" where
  "environment_ok chars environment \<longleftrightarrow>
     length environment \<le> MAX_CRON_ENVIRONMENT_VARIABLES \<and>
     (\<forall>(name, v) \<in> set environment. is_environment_name name \<and> set v \<subseteq> chars)"

definition job_fits :: "chrono \<Rightarrow> time_zone \<Rightarrow> int \<Rightarrow> nat \<Rightarrow> char set \<Rightarrow> cron_job_definition \<Rightarrow> bool" where
  "job_fits ch tz after room chars job \<longleftrightarrow>
     (\<exists>s t. schedule_parse (cj_schedule job) = Inr s \<and> next_after ch tz s after = Inr t) \<and>
     cron_command_try_from (cj_command job) = Inr (cj_command job) \<and>
     (\<exists>environment. cj_environment job = Some environment \<and> environment_ok chars environment \<and>
        entry_bytes environment + length (cj_command job) \<le> room)"

lemma parse_assignment_ok:
  assumes "parse_assignment tz number environment name said = Inr environment'"
    and "environment_ok chars environment" "set said \<subseteq> chars"
  shows "environment_ok chars environment' \<and>
    entry_bytes environment' \<le> entry_bytes environment + (length name + 1 + length said)"
proof -
  from assms(1) obtain v where v: "environment_value said number = Inr v" "tenant_value_parse v = Inr v"
    "is_environment_name name" "environment' = bt_insert name v environment"
    "length environment' \<le> MAX_CRON_ENVIRONMENT_VARIABLES"
    by (auto simp: parse_assignment_def Let_def question_def tenant_value_parse_Inr split: sum.splits if_splits)
  have "length v \<le> length said" "set v \<subseteq> chars"
    using part_of_bound [OF environment_value_part [OF v(1)]] assms(3) by auto
  with v assms(2) entry_bytes_insert [of name v environment] set_bt_insert_subset [of name v environment] show ?thesis
    by (fastforce simp: environment_ok_def)
qed

lemma parse_job_fits:
  assumes "parse_job ch tz after number environment line = Inr job"
    and "environment_ok chars environment" "entry_bytes environment + length line \<le> room"
  shows "job_fits ch tz after room chars job"
proof -
  from assms(1) obtain schedule command s t where job: "job_line line number = Inr (schedule, command)"
    "schedule_parse schedule = Inr s" "next_after ch tz s after = Inr t" "cron_command_parse command = Inr command"
    "job = \<lparr>cj_schedule = schedule, cj_command = command, cj_environment = Some environment\<rparr>"
    by (auto simp: parse_job_def question_def cron_schedule_parse_def cron_command_parse_def cron_command_try_from_def
        secret_parse_def tenant_environment_try_from_def split: sum.splits if_splits option.splits)
  with assms(2,3) part_of_bound [OF job_line_part [OF job(1)]] show ?thesis
    by (auto simp: job_fits_def cron_command_parse_def cron_command_try_from_def secret_parse_def split: if_splits)
qed

lemma parse_crontab_lines_fit:
  assumes "parse_crontab_lines ch tz after max_jobs number ls environment jobs = Inr parsed"
    and "environment_ok chars environment" "entry_bytes environment + sum_list (map length ls) \<le> room"
    and "\<forall>l \<in> set ls. set l \<subseteq> chars" "list_all (job_fits ch tz after room chars) jobs" "length jobs \<le> max_jobs"
  shows "list_all (job_fits ch tz after room chars) parsed \<and> length parsed \<le> max_jobs"
  using assms
proof (induction ls arbitrary: number environment jobs)
  case (Cons raw ls)
  let ?line = "trim_start_crontab raw"
  have line: "length ?line \<le> length raw" "set ?line \<subseteq> chars"
    using part_of_bound [OF part_of_trims(3) [of raw]] Cons.prems(4) by auto
  note next_lines = Cons.IH [OF _ _ _ _ Cons.prems(5,6)]
  consider (pass) "parse_crontab_lines ch tz after max_jobs (Suc number) ls environment jobs = Inr parsed"
    | (assign) name said environment' where "environment_assignment ?line = Some (name, said)"
      "parse_assignment tz number environment name said = Inr environment'"
      "parse_crontab_lines ch tz after max_jobs (Suc number) ls environment' jobs = Inr parsed"
    | (add) job where "length jobs < max_jobs" "parse_job ch tz after number environment ?line = Inr job"
      "parse_crontab_lines ch tz after max_jobs (Suc number) ls environment (jobs @ [job]) = Inr parsed"
    using Cons.prems(1,6) by (auto simp: Let_def question_def split: if_splits option.splits sum.splits)
  then show ?case
  proof cases
    case pass
    with next_lines Cons.prems show ?thesis by auto
  next
    case assign
    note bound = environment_assignment_bound [OF assign(1)]
    from bound line(2) have "set said \<subseteq> chars" by auto
    note left = parse_assignment_ok [OF assign(2) Cons.prems(2) this]
    with next_lines [OF assign(3)] bound line Cons.prems show ?thesis by auto
  next
    case add
    have "job_fits ch tz after room chars job"
      using parse_job_fits [OF add(2) Cons.prems(2), of room] line Cons.prems(3) by simp
    with Cons.IH [OF add(3)] add(1) Cons.prems show ?thesis by auto
  qed
qed simp

lemma sum_split_on: "sum_list (map length (split_on d s)) \<le> length s"
  by (induction d s rule: split_on.induct) (auto split: list.splits)

lemma join_with_chars: "l \<in> set ls \<Longrightarrow> set l \<subseteq> set (join_with d ls)"
  by (induction d ls rule: join_with.induct) auto

lemma sum_butlast_last: "xs \<noteq> [] \<Longrightarrow> sum_list (map length xs) = sum_list (map length (butlast xs)) + length (last xs)"
  by (induction xs rule: rev_induct) auto

lemma str_lines_bound:
  "sum_list (map length (str_lines s)) \<le> length s" "\<forall>l \<in> set (str_lines s). set l \<subseteq> set s"
proof -
  let ?pieces = "split_on CHR 0x0A s"
  have cut: "length (strip_cr l) \<le> length l" "set (strip_cr l) \<subseteq> set l" for l
    by (auto simp: strip_cr_def dest: in_set_butlastD)
  have "sum_list (map length (map strip_cr (butlast ?pieces))) \<le> sum_list (map length (butlast ?pieces))"
    unfolding map_map by (intro sum_list_mono) (simp add: cut)
  moreover have "sum_list (map length ?pieces) = sum_list (map length (butlast ?pieces)) + length (last ?pieces)"
    by (rule sum_butlast_last) simp
  ultimately show "sum_list (map length (str_lines s)) \<le> length s"
    using sum_split_on [of "CHR 0x0A" s] by (auto simp: str_lines_def Let_def)
  have "set l \<subseteq> set s" if "l \<in> set ?pieces" for l
    using that join_with_chars [of l ?pieces "CHR 0x0A"] by simp
  moreover have "last ?pieces \<in> set ?pieces" by simp
  moreover have "(\<exists>p \<in> set ?pieces. l = strip_cr p) \<or> l = last ?pieces" if "l \<in> set (str_lines s)" for l
    using that by (auto simp: str_lines_def Let_def split: if_splits dest: in_set_butlastD)
  ultimately show "\<forall>l \<in> set (str_lines s). set l \<subseteq> set s" using cut(2) by (metis subset_trans)
qed

lemma environment_entry_named:
  assumes "is_environment_name name" "byte 0 \<notin> set v"
  shows "environment_entry (name @ ''='' @ v)"
proof -
  have chars: "carriage_free name \<and> CHR ''='' \<notin> set name" using environment_name_chars [OF assms(1)] .
  have letters: "name \<noteq> []" "is_ascii_alphabetic (name ! 0) \<or> name ! 0 = CHR ''_''"
    "\<forall>i < length name. is_ascii_alphanumeric (name ! i) \<or> name ! i = CHR ''_''"
    using assms(1) by (cases name; auto simp: is_environment_name_def is_ascii_alphanumeric_def list_all_iff nth_Cons' less_Suc_eq_0_disj)+
  then have "byte 0 \<notin> set name"
    by (auto simp: in_set_conv_nth nul_byte char_class_defs less_eq_char_def)
  moreover have "list_all (\<lambda>(index, c). is_ascii_alphabetic c \<or> c = CHR ''_'' \<or> (index > 0 \<and> is_ascii_digit c))
      (zip [0..<length name] name)"
    using letters(2,3) by (auto simp: list_all_length is_ascii_alphanumeric_def) (metis gr0I)+
  moreover have "split_once CHR ''='' (name @ CHR ''='' # v) = Some (name, v)" using chars split_once_at [of "CHR ''=''" name v] by simp
  ultimately show ?thesis
    using letters(1) assms(2) by (simp add: environment_entry_def nul_byte)
qed

lemma nonempty_line_text: "is_nonempty_line s \<Longrightarrow> s \<noteq> [] \<and> byte 0 \<notin> set s"
proof -
  assume "is_nonempty_line s"
  then have "trim_blank s \<noteq> []" "\<forall>c \<in> set s. c \<noteq> byte 0" unfolding is_nonempty_line_def list_all_iff by blast+
  then show ?thesis by (auto simp only: trim_blank_def trim_start_blank_def trim_end_blank_def dropWhile.simps rev.simps)
qed

lemma fitting_jobs_encode:
  assumes "job_fits ch tz after room chars job" "byte 0 \<notin> chars" "room \<le> MAX_CRONTAB_BYTES"
  shows "\<exists>bytes. execution_encode_request (run_request job) = Inr bytes"
proof -
  from assms(1) obtain environment where environment: "cj_environment job = Some environment"
    "environment_ok chars environment" "entry_bytes environment + length (cj_command job) \<le> room"
    by (auto simp: job_fits_def)
  have command: "is_nonempty_line (cj_command job)" "length (cj_command job) \<le> MAX_CRON_COMMAND_LENGTH"
    using assms(1) by (auto simp: job_fits_def cron_command_try_from_def split: if_splits)
  have "cj_command job \<noteq> []" "byte 0 \<notin> set (cj_command job)" using nonempty_line_text [OF command(1)] by blast+
  moreover have "list_all environment_entry (er_environment (run_request job))"
    unfolding list_all_iff
  proof
    fix entry assume "entry \<in> set (er_environment (run_request job))"
    then obtain name v where entry: "(name, v) \<in> set environment" "entry = name @ ''='' @ v"
      using environment(1) by (auto simp: run_request_def)
    with environment(2) assms(2) have "is_environment_name name" "byte 0 \<notin> set v" by (auto simp: environment_ok_def)
    then show "environment_entry entry" unfolding entry(2) by (rule environment_entry_named)
  qed
  moreover have "length (er_environment (run_request job)) \<le> MAX_CRON_ENVIRONMENT_VARIABLES"
    using environment by (simp add: run_request_def environment_ok_def)
  ultimately have valid: "valid_request (run_request job)"
    using command(2) environment(1) by (simp add: valid_request_def run_request_def)
  have "sum_list (map (\<lambda>entry. 4 + length entry) (map (\<lambda>(name, v). name @ ''='' @ v) vs)) = 4 * length vs + entry_bytes vs" for vs
    by (induction vs) (auto simp: entry_bytes_def)
  then have "sum_list (map (\<lambda>entry. 4 + length entry) (er_environment (run_request job))) =
      4 * length environment + entry_bytes environment"
    using environment(1) by (simp add: run_request_def)
  with environment(2,3) assms(3) have "8 + length (er_command (run_request job)) +
      sum_list (map (\<lambda>entry. 4 + length entry) (er_environment (run_request job))) \<le> MAX_REQUEST_BYTES"
    by (simp add: run_request_def MAX_REQUEST_BYTES_def environment_ok_def MAX_CRON_ENVIRONMENT_VARIABLES_def)
  with valid show ?thesis by (simp add: execution_encode_request_def Let_def)
qed

text \<open>
  A crontab that is accepted can be carried out: its text is kept as it is, it has no more jobs
  than the host permits, every one of them has a schedule with a next run, and the command of every
  one, with the variables at its line, fits the request by which the guest is asked to run it.
\<close>

lemma accepted_crontabs_can_be_run:
  assumes "parse_crontab said max_jobs ch tz after = Inr parsed"
  shows "pc_crontab parsed = said \<and> length (pc_jobs parsed) \<le> max_jobs \<and>
    list_all (\<lambda>job.
      (\<exists>s t. schedule_parse (cj_schedule job) = Inr s \<and> next_after ch tz s after = Inr t) \<and>
      (\<exists>bytes. execution_encode_request (run_request job) = Inr bytes)) (pc_jobs parsed)"
proof -
  from assms obtain jobs where parsed: "parsed = \<lparr>pc_jobs = jobs, pc_crontab = said\<rparr>" and
    crontab: "length said \<le> MAX_CRONTAB_BYTES" "byte 0 \<notin> set said" and
    ls: "parse_crontab_lines ch tz after max_jobs 1 (str_lines said) [] [] = Inr jobs"
    by (auto simp: parse_crontab_def crontab_parse_def question_def split: if_splits sum.splits)
  have "list_all (job_fits ch tz after (length said) (set said)) jobs \<and> length jobs \<le> max_jobs"
    using parse_crontab_lines_fit [OF ls] str_lines_bound [of said]
    by (simp add: environment_ok_def entry_bytes_def)
  with fitting_jobs_encode crontab parsed show ?thesis
    by (fastforce simp: list_all_iff job_fits_def)
qed

definition sample_crontab :: string where
  "sample_crontab = ''A=b'' @ [CHR 0x0A] @ ''30 2 * * * echo ok''"

definition sample_job :: cron_job_definition where
  "sample_job = \<lparr>cj_schedule = ''30 2 * * *'', cj_command = ''echo ok'', cj_environment = Some [(''A'', ''b'')]\<rparr>"

lemma sample_crontab_parsed:
  "parse_crontab sample_crontab 1 sample_chrono sample_zone 0 = Inr \<lparr>pc_jobs = [sample_job], pc_crontab = sample_crontab\<rparr>"
proof -
  have said: "str_lines sample_crontab = [''A=b'', ''30 2 * * * echo ok'']" by code_simp
  have limits: "crontab_parse sample_crontab = Inr sample_crontab" "tenant_value_parse ''b'' = Inr ''b''"
    "cron_command_parse ''echo ok'' = Inr ''echo ok''"
    by (simp_all add: crontab_parse_def sample_crontab_def MAX_CRONTAB_BYTES_def nul_byte tenant_value_parse_def secret_parse_def
        MAX_SECRET_LENGTH_def names_offered_runtime_values_def runtime_references_def cron_command_parse_def
        cron_command_try_from_def MAX_CRON_COMMAND_LENGTH_def is_nonempty_line_def trim_blank_def trim_start_blank_def
        trim_end_blank_def is_blank_def map_filter_def RUNTIME_VALUE_PREFIX_def)
  have first: "trim_start_crontab ''A=b'' = ''A=b''" "trim_crontab ''A=b'' = ''A=b''"
    "environment_assignment ''A=b'' = Some (''A'', ''b'')" "environment_value ''b'' (Suc 0) = Inr ''b''"
    "is_environment_name ''A''"
    "contains_str LINE_SEPARATOR ''A=b'' = False" "contains_str PARAGRAPH_SEPARATOR ''A=b'' = False"
    by code_simp+
  have second: "trim_start_crontab ''30 2 * * * echo ok'' = ''30 2 * * * echo ok''"
    "trim_crontab ''30 2 * * * echo ok'' = ''30 2 * * * echo ok''" "environment_assignment ''30 2 * * * echo ok'' = None"
    "job_line ''30 2 * * * echo ok'' 2 = Inr (''30 2 * * *'', ''echo ok'')"
    "contains_str LINE_SEPARATOR ''30 2 * * * echo ok'' = False"
    "contains_str PARAGRAPH_SEPARATOR ''30 2 * * * echo ok'' = False"
    "cron_schedule_parse ''30 2 * * *'' = Inr ''30 2 * * *''"
    "tenant_environment_try_from [(''A'', ''b'')] = Inr [(''A'', ''b'')]"
    by code_simp+
  have "parse_assignment sample_zone (Suc 0) [] ''A'' ''b'' = Inr [(''A'', ''b'')]"
    by (simp add: parse_assignment_def first limits MAX_CRON_ENVIRONMENT_VARIABLES_def)
  moreover have "parse_job sample_chrono sample_zone 0 2 [(''A'', ''b'')] ''30 2 * * * echo ok'' = Inr sample_job"
    by (simp add: parse_job_def second limits sample_schedule_parsed sample_next sample_job_def)
  ultimately show ?thesis
    by (simp add: parse_crontab_def said limits first second starts_with_def Let_def numeral_2_eq_2 del: contains_str.simps)
qed

end
