(* ===== verification/CronJobs.thy ===== *)
theory CronJobs
  imports Crontab "HOL-Library.Product_Lexorder"
begin

text \<open>
  What is scheduled and what is registered: the scheduler (\<open>domain/cron/scheduler.rs\<close>), the registry
  of the apps' crontabs (\<open>domain/cron/registry.rs\<close>) and the answer a guest gets
  (\<open>domain/cron/registration.rs\<close>). The repository behind the registry may refuse any read and any
  write. Shown: an occurrence is run at most once, however passes and registrations fall; and the
  registry is a table of one crontab per app, in which a change is made whole or not at all.
\<close>

section \<open>The scheduler\<close>

text \<open>A job is known by its app, its deployment and its place in the table, ordered in this order.\<close>

type_synonym job_key = "app_id \<times> deployment_id \<times> nat"

record scheduled_run =
  sr_key :: job_key
  sr_job :: cron_job_definition
  sr_scheduled_at :: int

record scheduled_job =
  sj_job :: cron_job_definition
  sj_schedule :: parsed_schedule
  sj_next :: int

record cron_scheduler =
  cs_jobs :: "(job_key, scheduled_job) btree"
  cs_tables :: "(app_id, cron_table) btree"

definition new_scheduler :: cron_scheduler where
  "new_scheduler = \<lparr>cs_jobs = [], cs_tables = []\<rparr>"

definition schedule_anew ::
  "chrono \<Rightarrow> time_zone \<Rightarrow> int \<Rightarrow> cron_job_definition \<Rightarrow> invalid_cron_schedule + scheduled_job" where
  "schedule_anew ch tz now job =
     (case schedule_parse (cj_schedule job) of
        Inl e \<Rightarrow> Inl e
      | Inr schedule \<Rightarrow>
          (case next_after ch tz schedule now of
             Inl e \<Rightarrow> Inl e
           | Inr t \<Rightarrow> Inr \<lparr>sj_job = job, sj_schedule = schedule, sj_next = t\<rparr>))"

fun synchronize_jobs ::
  "chrono \<Rightarrow> time_zone \<Rightarrow> int \<Rightarrow> (job_key \<Rightarrow> scheduled_job option) \<Rightarrow> app_id \<Rightarrow> deployment_id \<Rightarrow> nat \<Rightarrow>
     cron_job_definition list \<Rightarrow> (job_key, scheduled_job) btree \<Rightarrow> invalid_cron_schedule + (job_key, scheduled_job) btree" where
  "synchronize_jobs ch tz now held app_id deployment_id index [] jobs = Inr jobs"
| "synchronize_jobs ch tz now held app_id deployment_id index (job # rest) jobs =
     (case (case held (app_id, deployment_id, index) of
              Some kept \<Rightarrow> Inr kept | None \<Rightarrow> schedule_anew ch tz now job) of
        Inl e \<Rightarrow> Inl e
      | Inr kept \<Rightarrow>
          synchronize_jobs ch tz now held app_id deployment_id (Suc index) rest
            (bt_insert (app_id, deployment_id, index) kept jobs))"

fun synchronize_tables ::
  "chrono \<Rightarrow> time_zone \<Rightarrow> int \<Rightarrow> cron_scheduler \<Rightarrow> cron_table list \<Rightarrow> (job_key, scheduled_job) btree \<Rightarrow>
     (app_id, cron_table) btree \<Rightarrow> invalid_cron_schedule + ((job_key, scheduled_job) btree \<times> (app_id, cron_table) btree)" where
  "synchronize_tables ch tz now scheduler [] jobs next_tables = Inr (jobs, next_tables)"
| "synchronize_tables ch tz now scheduler (table # tables) jobs next_tables =
     (let unchanged = (map_of (cs_tables scheduler) (ct_app_id table) = Some table);
          held = (\<lambda>key. if unchanged then map_of (cs_jobs scheduler) key else None)
      in case synchronize_jobs ch tz now held (ct_app_id table) (ct_deployment_id table) 0 (ct_jobs table) jobs of
           Inl e \<Rightarrow> Inl e
         | Inr jobs \<Rightarrow>
             synchronize_tables ch tz now scheduler tables jobs (bt_insert (ct_app_id table) table next_tables))"

definition scheduler_synchronize ::
  "chrono \<Rightarrow> time_zone \<Rightarrow> cron_table list \<Rightarrow> int \<Rightarrow> cron_scheduler \<Rightarrow> (invalid_cron_schedule + unit) \<times> cron_scheduler" where
  "scheduler_synchronize ch tz tables now scheduler =
     (case synchronize_tables ch tz now scheduler tables [] [] of
        Inl e \<Rightarrow> (Inl e, scheduler)
      | Inr (jobs, next_tables) \<Rightarrow> (Inr (), scheduler\<lparr>cs_jobs := jobs, cs_tables := next_tables\<rparr>))"

definition next_run :: "cron_scheduler \<Rightarrow> int option" where
  "next_run scheduler =
     (case map sj_next (bt_values (cs_jobs scheduler)) of [] \<Rightarrow> None | t # ts \<Rightarrow> Some (fold min ts t))"

fun due_loop ::
  "chrono \<Rightarrow> time_zone \<Rightarrow> int \<Rightarrow> (job_key \<times> scheduled_job) list \<Rightarrow> scheduled_run list \<times> (job_key \<times> scheduled_job) list" where
  "due_loop ch tz now [] = ([], [])"
| "due_loop ch tz now ((key, held) # rest) =
     (let (runs, kept) = due_loop ch tz now rest
      in if sj_next held > now then (runs, (key, held) # kept)
         else case next_after ch tz (sj_schedule held) now of
           Inl _ \<Rightarrow> (runs, kept)
         | Inr t \<Rightarrow>
             (\<lparr>sr_key = key, sr_job = sj_job held, sr_scheduled_at = sj_next held\<rparr> # runs,
              (key, held\<lparr>sj_next := t\<rparr>) # kept))"

definition scheduler_due :: "chrono \<Rightarrow> time_zone \<Rightarrow> int \<Rightarrow> cron_scheduler \<Rightarrow> scheduled_run list \<times> cron_scheduler" where
  "scheduler_due ch tz now scheduler =
     (let (runs, kept) = due_loop ch tz now (cs_jobs scheduler) in (runs, scheduler\<lparr>cs_jobs := kept\<rparr>))"

subsection \<open>An occurrence is run once\<close>

lemma scan_day_after:
  "scan_day ch tz after date hms found = Inr (Some t) \<Longrightarrow> (\<And>u. found = Some u \<Longrightarrow> after < u) \<Longrightarrow> after < t"
proof (induction ch tz after date hms found rule: scan_day.induct)
  case (2 ch tz after date hour minute rest found)
  from 2(2) obtain local where local: "and_hms_opt date hour minute = Some local"
    by (auto split: option.splits)
  show ?case
    by (rule 2(1) [OF local]) (use 2(2,3) local in \<open>auto split: option.splits if_splits\<close>)
qed auto

lemma next_loop_after: "next_loop days ch tz s after date = Inr t \<Longrightarrow> after < t"
proof (induction days arbitrary: date)
  case (Suc days)
  then show ?case
    by (auto simp: Let_def dest: scan_day_after split: if_splits sum.splits option.splits)
qed simp

lemma next_after_later: "next_after ch tz s now = Inr t \<Longrightarrow> now < t"
  by (simp add: next_after_def next_loop_after)

text \<open>What one job adds to the runs and what is kept of it.\<close>

definition due_run :: "chrono \<Rightarrow> time_zone \<Rightarrow> int \<Rightarrow> job_key \<times> scheduled_job \<Rightarrow> scheduled_run option" where
  "due_run ch tz now entry =
     (if sj_next (snd entry) > now \<or> isl (next_after ch tz (sj_schedule (snd entry)) now) then None
      else Some \<lparr>sr_key = fst entry, sr_job = sj_job (snd entry), sr_scheduled_at = sj_next (snd entry)\<rparr>)"

definition due_kept :: "chrono \<Rightarrow> time_zone \<Rightarrow> int \<Rightarrow> job_key \<times> scheduled_job \<Rightarrow> (job_key \<times> scheduled_job) option" where
  "due_kept ch tz now entry =
     (if sj_next (snd entry) > now then Some entry
      else case next_after ch tz (sj_schedule (snd entry)) now of
             Inl _ \<Rightarrow> None
           | Inr t \<Rightarrow> Some (fst entry, (snd entry)\<lparr>sj_next := t\<rparr>))"

lemma due_loop_filter:
  "due_loop ch tz now jobs = (List.map_filter (due_run ch tz now) jobs, List.map_filter (due_kept ch tz now) jobs)"
proof (induction jobs)
  case (Cons entry jobs)
  obtain key held where "entry = (key, held)" by (cases entry)
  with Cons show ?case
    by (cases "next_after ch tz (sj_schedule held) now")
      (simp_all add: due_run_def due_kept_def map_filter_simps)
qed (simp add: map_filter_simps)

lemma set_map_filter: "set (List.map_filter f xs) = {y. \<exists>x \<in> set xs. f x = Some y}"
  by (induction xs) (auto simp: map_filter_simps split: option.splits)

lemma bt_wf_map_filter:
  assumes "\<And>x y. f x = Some y \<Longrightarrow> key y = fst x" "bt_wf xs"
  shows "sorted_wrt (<) (map key (List.map_filter f xs))"
  using assms(2)
proof (induction xs)
  case (Cons x xs)
  have "key y = fst z" if "z \<in> set xs" "f z = Some y" for z y using assms(1) that by blast
  moreover have "\<forall>z \<in> set xs. fst x < fst z" "bt_wf xs"
    using Cons.prems bt_wf_Cons [of "fst x" "snd x" xs] by auto
  ultimately show ?case
    using Cons.IH assms(1) [of x] by (fastforce simp: map_filter_simps set_map_filter split: option.splits)
qed (simp add: map_filter_simps)

lemma due_kept_later: "due_kept ch tz now entry = Some (key, held) \<Longrightarrow> now < sj_next held"
  by (auto simp: due_kept_def dest: next_after_later split: if_splits sum.splits)

lemma due_scheduler:
  assumes "scheduler_due ch tz now scheduler = (runs, scheduler')" "bt_wf (cs_jobs scheduler)"
  shows "distinct (map sr_key runs)" "bt_wf (cs_jobs scheduler')"
    "\<forall>held \<in> snd ` set (cs_jobs scheduler'). now < sj_next held"
    "\<forall>run \<in> set runs. sr_scheduled_at run \<in> sj_next ` snd ` set (cs_jobs scheduler) \<and> sr_scheduled_at run \<le> now"
proof -
  have parts: "runs = List.map_filter (due_run ch tz now) (cs_jobs scheduler)"
    "cs_jobs scheduler' = List.map_filter (due_kept ch tz now) (cs_jobs scheduler)"
    using assms(1) by (auto simp: scheduler_due_def due_loop_filter)
  have "sorted_wrt (<) (map sr_key runs)"
    unfolding parts by (rule bt_wf_map_filter [OF _ assms(2)]) (auto simp: due_run_def split: if_splits)
  then show "distinct (map sr_key runs)" by (simp add: strict_sorted_iff)
  have "sorted_wrt (<) (map fst (cs_jobs scheduler'))"
    unfolding parts by (rule bt_wf_map_filter [OF _ assms(2)]) (auto simp: due_kept_def split: if_splits sum.splits)
  then show "bt_wf (cs_jobs scheduler')" by (simp add: bt_wf_def)
  show "\<forall>held \<in> snd ` set (cs_jobs scheduler'). now < sj_next held"
    by (auto simp: parts set_map_filter dest: due_kept_later)
  show "\<forall>run \<in> set runs. sr_scheduled_at run \<in> sj_next ` snd ` set (cs_jobs scheduler) \<and> sr_scheduled_at run \<le> now"
    by (force simp: parts set_map_filter due_run_def split: if_splits)
qed

lemma schedule_anew_later: "schedule_anew ch tz now job = Inr held \<Longrightarrow> now < sj_next held"
  by (auto simp: schedule_anew_def dest: next_after_later split: sum.splits)

lemma synchronize_jobs_times:
  assumes "synchronize_jobs ch tz now held a d index todo jobs = Inr jobs'" "bt_wf jobs"
    and "\<And>key kept. held key = Some kept \<Longrightarrow> since < sj_next kept" "since \<le> now"
    and "\<forall>kept \<in> snd ` set jobs. since < sj_next kept"
  shows "bt_wf jobs' \<and> (\<forall>kept \<in> snd ` set jobs'. since < sj_next kept)"
  using assms(1,2,5)
proof (induction todo arbitrary: index jobs)
  case (Cons job todo)
  from Cons.prems(1) obtain kept where kept:
    "(case held (a, d, index) of Some kept \<Rightarrow> Inr kept | None \<Rightarrow> schedule_anew ch tz now job) = Inr kept"
    "synchronize_jobs ch tz now held a d (Suc index) todo (bt_insert (a, d, index) kept jobs) = Inr jobs'"
    by (auto split: sum.splits)
  have "since < sj_next kept"
    using kept(1) assms(3,4) schedule_anew_later [of ch tz now job kept] by (auto split: option.splits)
  moreover have "snd ` set (bt_insert (a, d, index) kept jobs) \<subseteq> insert kept (snd ` set jobs)"
    using set_bt_insert_subset [of "(a, d, index)" kept jobs] by force
  ultimately have "\<forall>kept \<in> snd ` set (bt_insert (a, d, index) kept jobs). since < sj_next kept"
    using Cons.prems(3) by blast
  with Cons.IH [OF kept(2)] Cons.prems(2) show ?case by simp
qed simp

lemma synchronize_tables_times:
  assumes "synchronize_tables ch tz now scheduler tables jobs next_tables = Inr (jobs', tables')" "bt_wf jobs"
    and "\<forall>kept \<in> snd ` set (cs_jobs scheduler). since < sj_next kept" "since \<le> now"
    and "\<forall>kept \<in> snd ` set jobs. since < sj_next kept"
  shows "bt_wf jobs' \<and> (\<forall>kept \<in> snd ` set jobs'. since < sj_next kept)"
  using assms(1,2,5)
proof (induction tables arbitrary: jobs next_tables)
  case (Cons table tables)
  let ?held = "\<lambda>key. if map_of (cs_tables scheduler) (ct_app_id table) = Some table then map_of (cs_jobs scheduler) key else None"
  from Cons.prems(1) obtain mid where mid:
    "synchronize_jobs ch tz now ?held (ct_app_id table) (ct_deployment_id table) 0 (ct_jobs table) jobs = Inr mid"
    "synchronize_tables ch tz now scheduler tables mid (bt_insert (ct_app_id table) table next_tables) = Inr (jobs', tables')"
    by (auto simp: Let_def split: sum.splits)
  have "since < sj_next kept" if "?held key = Some kept" for key kept
    using that assms(3) by (force split: if_splits dest: map_of_SomeD)
  with synchronize_jobs_times [OF mid(1) Cons.prems(2) _ assms(4) Cons.prems(3)]
  have "bt_wf mid \<and> (\<forall>kept \<in> snd ` set mid. since < sj_next kept)" by blast
  with Cons.IH [OF mid(2)] show ?case by blast
qed simp

text \<open>Since the last pass that ran: every job's next run is later than it.\<close>

definition scheduled_since :: "int \<Rightarrow> cron_scheduler \<Rightarrow> bool" where
  "scheduled_since since scheduler \<longleftrightarrow>
     bt_wf (cs_jobs scheduler) \<and> (\<forall>kept \<in> snd ` set (cs_jobs scheduler). since < sj_next kept)"

lemma scheduler_synchronize_since:
  assumes "scheduled_since since scheduler" "since \<le> now"
  shows "scheduled_since since (snd (scheduler_synchronize ch tz tables now scheduler))"
  using assms synchronize_tables_times [of ch tz now scheduler tables "[]" "[]" _ _ since]
  by (auto simp: scheduler_synchronize_def scheduled_since_def split: sum.splits)

section \<open>Passes\<close>

datatype cron_registry_error =
    DeploymentMismatch
  | Invalid invalid_crontab
  | StoreFailed string
  | Restore
  | DuplicateTable

datatype cron_synchronization_error = RegistryFailed cron_registry_error | ScheduleFailed invalid_cron_schedule

definition wanted_table :: "host_desired_state option \<Rightarrow> cron_table \<Rightarrow> bool" where
  "wanted_table desired table \<longleftrightarrow>
     (case desired of
        None \<Rightarrow> False
      | Some desired \<Rightarrow>
          list_ex (\<lambda>instance. di_app_id instance = ct_app_id table \<and> di_deployment_id instance = ct_deployment_id table \<and>
            di_desired_state instance \<noteq> DesiredStopped) (hd_instances desired))"

text \<open>
  A pass of the cron controller up to the runs it asks leases for: the scheduler follows the tables
  of the apps that are wanted, and each run that is due goes with its table.
\<close>

definition run_table :: "cron_table list \<Rightarrow> scheduled_run \<Rightarrow> (scheduled_run \<times> cron_table) option" where
  "run_table tables run =
     map_option (Pair run) (find (\<lambda>table. ct_app_id table = fst (sr_key run) \<and>
       ct_deployment_id table = fst (snd (sr_key run))) tables)"

definition try_cron_once ::
  "chrono \<Rightarrow> time_zone \<Rightarrow> int \<Rightarrow> cron_registry_error + cron_table list \<Rightarrow> host_desired_state option \<Rightarrow> cron_scheduler \<Rightarrow>
     (cron_synchronization_error + (scheduled_run \<times> cron_table) list) \<times> cron_scheduler" where
  "try_cron_once ch tz now registered desired scheduler =
     (case registered of
        Inl e \<Rightarrow> (Inl (RegistryFailed e), scheduler)
      | Inr tables \<Rightarrow>
          (let tables = filter (wanted_table desired) tables
           in case scheduler_synchronize ch tz tables now scheduler of
                (Inl e, scheduler) \<Rightarrow> (Inl (ScheduleFailed e), scheduler)
              | (Inr _, scheduler) \<Rightarrow>
                  (let (runs, scheduler) = scheduler_due ch tz now scheduler
                   in (Inr (List.map_filter (run_table tables) runs), scheduler))))"

type_synonym cron_pass = "int \<times> (cron_registry_error + cron_table list) \<times> host_desired_state option"

fun cron_passes :: "chrono \<Rightarrow> time_zone \<Rightarrow> cron_pass list \<Rightarrow> cron_scheduler \<Rightarrow> scheduled_run list" where
  "cron_passes ch tz [] scheduler = []"
| "cron_passes ch tz ((now, registered, desired) # passes) scheduler =
     (case try_cron_once ch tz now registered desired scheduler of
        (Inl _, scheduler) \<Rightarrow> cron_passes ch tz passes scheduler
      | (Inr runs, scheduler) \<Rightarrow> map fst runs @ cron_passes ch tz passes scheduler)"

definition occurrence_of :: "scheduled_run \<Rightarrow> job_key \<times> int" where
  "occurrence_of run = (sr_key run, sr_scheduled_at run)"

lemma map_filter_runs: "distinct (map f runs) \<Longrightarrow> distinct (map f (map fst (List.map_filter (run_table tables) runs)))"
  "set (map fst (List.map_filter (run_table tables) runs)) \<subseteq> set runs"
  by (induction runs) (auto simp: map_filter_simps run_table_def set_map_filter split: option.splits)

lemma try_cron_once_since:
  assumes "scheduled_since since scheduler" "since \<le> now"
  shows "case try_cron_once ch tz now registered desired scheduler of
      (Inl _, scheduler') \<Rightarrow> scheduled_since since scheduler'
    | (Inr runs, scheduler') \<Rightarrow> scheduled_since now scheduler' \<and> distinct (map occurrence_of (map fst runs)) \<and>
        (\<forall>run \<in> set (map fst runs). since < sr_scheduled_at run \<and> sr_scheduled_at run \<le> now)"
proof (cases registered)
  case (Inr tables)
  let ?tables = "filter (wanted_table desired) tables"
  obtain answer mid where sync: "scheduler_synchronize ch tz ?tables now scheduler = (answer, mid)" by force
  have mid: "scheduled_since since mid"
    using scheduler_synchronize_since [OF assms, of ch tz ?tables] sync by simp
  obtain runs after where ran: "scheduler_due ch tz now mid = (runs, after)" by force
  note ran_parts = due_scheduler [OF ran mid [unfolded scheduled_since_def, THEN conjunct1]]
  have "distinct (map occurrence_of runs)"
    using ran_parts(1) by (simp add: distinct_map inj_on_def occurrence_of_def)
  moreover have "\<forall>run \<in> set runs. since < sr_scheduled_at run \<and> sr_scheduled_at run \<le> now"
    using ran_parts(4) mid [unfolded scheduled_since_def, THEN conjunct2] by (metis imageE)
  ultimately show ?thesis
    using Inr sync ran mid ran_parts(2,3) map_filter_runs(1) [of occurrence_of runs ?tables] map_filter_runs(2) [of ?tables runs]
    by (cases answer) (auto simp: try_cron_once_def scheduled_since_def Let_def)
qed (use assms in \<open>simp add: try_cron_once_def\<close>)

lemma cron_passes_once:
  assumes "scheduled_since since scheduler" "sorted (since # map fst passes)"
  shows "distinct (map occurrence_of (cron_passes ch tz passes scheduler)) \<and>
    (\<forall>run \<in> set (cron_passes ch tz passes scheduler). since < sr_scheduled_at run)"
  using assms
proof (induction passes arbitrary: since scheduler)
  case (Cons pass passes)
  obtain now registered desired where pass: "pass = (now, registered, desired)" by (metis surj_pair)
  obtain answer after where ran: "try_cron_once ch tz now registered desired scheduler = (answer, after)" by force
  have le: "since \<le> now" and rest: "sorted (now # map fst passes)" "sorted (since # map fst passes)"
    using Cons.prems(2) pass by auto
  note step = try_cron_once_since [OF Cons.prems(1) le, of ch tz registered desired, unfolded ran]
  show ?case
  proof (cases answer)
    case (Inl e)
    with step Cons.IH [of since after] rest pass ran show ?thesis by simp
  next
    case (Inr runs)
    let ?later = "cron_passes ch tz passes after"
    have step: "scheduled_since now after" "distinct (map occurrence_of (map fst runs))"
      "\<forall>run \<in> set (map fst runs). since < sr_scheduled_at run \<and> sr_scheduled_at run \<le> now"
      using step Inr by simp_all
    have later: "distinct (map occurrence_of ?later)" "\<forall>run \<in> set ?later. now < sr_scheduled_at run"
      using Cons.IH [OF step(1) rest(1)] by blast+
    have "snd x \<le> now" if "x \<in> occurrence_of ` set (map fst runs)" for x
      using that step(3) by (auto simp: occurrence_of_def)
    moreover have "now < snd x" if "x \<in> occurrence_of ` set ?later" for x
      using that later(2) by (auto simp: occurrence_of_def)
    ultimately have "occurrence_of ` set (map fst runs) \<inter> occurrence_of ` set ?later = {}"
      using linorder_not_le by blast
    moreover have "\<forall>run \<in> set ?later. since < sr_scheduled_at run" using later(2) le by force
    ultimately show ?thesis using step(2,3) later(1) Inr pass ran by (simp add: ball_Un image_image)
  qed
qed simp

text \<open>
  (C16) No occurrence of a job is run twice. However often the controller passes, whatever is
  registered, dropped or refused in between, and however late it comes, as long as its clock does not
  go back every run it starts is of another job or of another instant of that job.
\<close>

theorem occurrences_run_once:
  assumes "sorted (map fst passes)"
  shows "distinct (map (\<lambda>run. (sr_key run, sr_scheduled_at run)) (cron_passes ch tz passes new_scheduler))"
proof (cases passes)
  case (Cons pass rest)
  have "scheduled_since (fst pass) new_scheduler" by (simp add: scheduled_since_def new_scheduler_def)
  from cron_passes_once [OF this, of passes ch tz] assms Cons show ?thesis
    by (simp add: occurrence_of_def [abs_def])
qed simp

definition sample_table :: cron_table where
  "sample_table = \<lparr>ct_app_id = ''app-1'', ct_deployment_id = ''dep-1'', ct_jobs = [sample_job], ct_crontab = Some sample_crontab\<rparr>"

definition sample_document :: host_desired_state where
  "sample_document = \<lparr>hd_host_id = ''host-1'', hd_revision = ''r1'', hd_volumes = [], hd_instances = [sample_instance],
     hd_checkpoints = [], hd_exports = []\<rparr>"

definition sample_passes :: "cron_pass list" where
  "sample_passes = [(0, Inr [sample_table], Some sample_document),
     (150 * MINUTE_NS, Inr [sample_table], Some sample_document),
     (150 * MINUTE_NS, Inr [sample_table], Some sample_document)]"

lemma sample_next_day: "next_after sample_chrono sample_zone sample_schedule (150 * MINUTE_NS) = Inr (DAY_NS + 150 * MINUTE_NS)"
proof -
  have "next_loop (Suc (Suc days)) sample_chrono sample_zone sample_schedule (150 * MINUTE_NS) 0 = Inr (DAY_NS + 150 * MINUTE_NS)" for days
    by (simp add: day_matches_def sample_schedule_def sample_chrono_def sample_zone_def field_contains_def
        and_hms_opt_def local_occurrence_def at_hms_def MINUTE_NS_def DAY_NS_def)
  from this [of 2926] show ?thesis
    by (simp add: next_after_def SEARCH_DAYS_def date_of_def sample_zone_def MINUTE_NS_def DAY_NS_def)
qed

lemma sample_wanted: "wanted_table (Some sample_document) sample_table"
  by (simp add: wanted_table_def sample_document_def sample_table_def sample_instance_def)

lemma sample_runs:
  "cron_passes sample_chrono sample_zone sample_passes new_scheduler =
     [\<lparr>sr_key = (''app-1'', ''dep-1'', 0), sr_job = sample_job, sr_scheduled_at = 150 * MINUTE_NS\<rparr>]"
proof -
  have job: "cj_schedule sample_job = ''30 2 * * *''" by (simp add: sample_job_def)
  have hours: "(0 :: int) < 150 * MINUTE_NS" "0 < MINUTE_NS" "0 < DAY_NS"
    by (simp_all add: MINUTE_NS_def DAY_NS_def)
  have table: "ct_app_id sample_table = ''app-1''" "ct_deployment_id sample_table = ''dep-1''" "ct_jobs sample_table = [sample_job]"
    by (simp_all add: sample_table_def)
  show ?thesis
    by (simp add: sample_passes_def try_cron_once_def sample_wanted scheduler_synchronize_def new_scheduler_def Let_def
        schedule_anew_def job sample_schedule_parsed sample_next sample_next_day scheduler_due_def hours map_filter_simps run_table_def table)
qed

theorem occurrences_run_once_witness:
  "distinct (map (\<lambda>run. (sr_key run, sr_scheduled_at run)) (cron_passes sample_chrono sample_zone sample_passes new_scheduler)) \<and>
   length (cron_passes sample_chrono sample_zone sample_passes new_scheduler) = 1"
proof -
  have "sorted (map fst sample_passes)" by (simp add: sample_passes_def MINUTE_NS_def)
  from occurrences_run_once [OF this, of sample_chrono sample_zone] show ?thesis by (simp add: sample_runs)
qed

section \<open>The registry\<close>

text \<open>
  What the repository holds and the revision its watchers see. The repository answers a read or a
  write with an error or does it; both answers are arguments of the operation.
\<close>

record cron_registry =
  cr_tables :: "cron_table list"
  cr_revision :: nat

record store_answers =
  sa_read :: "string option"
  sa_write :: "string option"

fun registry_tables :: "cron_table list \<Rightarrow> (app_id, cron_table) btree \<Rightarrow> cron_registry_error + (app_id, cron_table) btree" where
  "registry_tables [] tables = Inr tables"
| "registry_tables (table # rest) tables =
     (case map_of tables (ct_app_id table) of
        Some _ \<Rightarrow> Inl DuplicateTable
      | None \<Rightarrow> registry_tables rest (bt_insert (ct_app_id table) table tables))"

definition registry_read :: "store_answers \<Rightarrow> cron_registry \<Rightarrow> cron_registry_error + (app_id, cron_table) btree" where
  "registry_read store registry =
     (case sa_read store of Some e \<Rightarrow> Inl (StoreFailed e) | None \<Rightarrow> registry_tables (cr_tables registry) [])"

definition registry_persist ::
  "store_answers \<Rightarrow> (app_id, cron_table) btree \<Rightarrow> cron_registry \<Rightarrow> (cron_registry_error + unit) \<times> cron_registry" where
  "registry_persist store tables registry =
     (case sa_write store of
        Some e \<Rightarrow> (Inl (StoreFailed e), registry)
      | None \<Rightarrow> (Inr (), registry\<lparr>cr_tables := bt_values tables, cr_revision := (cr_revision registry + 1) mod 2 ^ 64\<rparr>))"

definition registry_list_all :: "store_answers \<Rightarrow> cron_registry \<Rightarrow> cron_registry_error + cron_table list" where
  "registry_list_all store registry = map_sum id bt_values (registry_read store registry)"

definition validate_restored :: "chrono \<Rightarrow> time_zone \<Rightarrow> int \<Rightarrow> store_answers \<Rightarrow> cron_registry \<Rightarrow> cron_registry_error + unit" where
  "validate_restored ch tz after store registry =
     question (registry_list_all store registry) (\<lambda>tables.
       if list_all (\<lambda>job. \<not> isl (schedule_anew ch tz after job)) (concat (map ct_jobs tables)) then Inr () else Inl Restore)"

definition empty_table :: "app_id \<Rightarrow> deployment_id \<Rightarrow> cron_table" where
  "empty_table app_id deployment_id =
     \<lparr>ct_app_id = app_id, ct_deployment_id = deployment_id, ct_jobs = [], ct_crontab = None\<rparr>"

definition kept_or_empty :: "(app_id, cron_table) btree \<Rightarrow> app_id \<Rightarrow> deployment_id \<Rightarrow> cron_table" where
  "kept_or_empty held app_id deployment_id =
     (case map_of held app_id of
        Some table \<Rightarrow> if ct_deployment_id table = deployment_id then table else empty_table app_id deployment_id
      | None \<Rightarrow> empty_table app_id deployment_id)"

fun wanted_tables ::
  "(app_id, cron_table) btree \<Rightarrow> (app_id \<times> deployment_id) list \<Rightarrow> (app_id, cron_table) btree \<Rightarrow>
     cron_registry_error + (app_id, cron_table) btree" where
  "wanted_tables held [] wanted = Inr wanted"
| "wanted_tables held ((app_id, deployment_id) # deployments) wanted =
     (case map_of wanted app_id of
        Some _ \<Rightarrow> Inl DuplicateTable
      | None \<Rightarrow> wanted_tables held deployments (bt_insert app_id (kept_or_empty held app_id deployment_id) wanted))"

definition registry_synchronize ::
  "store_answers \<Rightarrow> (app_id \<times> deployment_id) list \<Rightarrow> cron_registry \<Rightarrow> (cron_registry_error + unit) \<times> cron_registry" where
  "registry_synchronize store deployments registry =
     (case registry_read store registry of
        Inl e \<Rightarrow> (Inl e, registry)
      | Inr held \<Rightarrow>
          (case wanted_tables held deployments [] of
             Inl e \<Rightarrow> (Inl e, registry)
           | Inr wanted \<Rightarrow>
               if wanted \<noteq> held then registry_persist store wanted registry else (Inr (), registry)))"

definition holds_deployment :: "(app_id \<Rightarrow> cron_table option) \<Rightarrow> app_id \<Rightarrow> deployment_id \<Rightarrow> bool" where
  "holds_deployment tables app_id deployment_id \<longleftrightarrow>
     (case tables app_id of Some table \<Rightarrow> ct_deployment_id table = deployment_id | None \<Rightarrow> False)"

definition begin_deployment ::
  "store_answers \<Rightarrow> app_id \<Rightarrow> deployment_id \<Rightarrow> cron_registry \<Rightarrow> (cron_registry_error + unit) \<times> cron_registry" where
  "begin_deployment store app_id deployment_id registry =
     (case registry_read store registry of
        Inl e \<Rightarrow> (Inl e, registry)
      | Inr tables \<Rightarrow>
          if holds_deployment (map_of tables) app_id deployment_id then (Inr (), registry)
          else registry_persist store (bt_insert app_id (empty_table app_id deployment_id) tables) registry)"

definition registered_table :: "app_id \<Rightarrow> deployment_id \<Rightarrow> parsed_crontab \<Rightarrow> cron_table" where
  "registered_table app_id deployment_id parsed =
     \<lparr>ct_app_id = app_id, ct_deployment_id = deployment_id, ct_jobs = pc_jobs parsed, ct_crontab = Some (pc_crontab parsed)\<rparr>"

definition registry_replace ::
  "chrono \<Rightarrow> time_zone \<Rightarrow> nat \<Rightarrow> store_answers \<Rightarrow> app_id \<Rightarrow> deployment_id \<Rightarrow> string \<Rightarrow> int \<Rightarrow> cron_registry \<Rightarrow>
     (cron_registry_error + unit) \<times> cron_registry" where
  "registry_replace ch tz max_jobs store app_id deployment_id said after registry =
     (case registry_read store registry of
        Inl e \<Rightarrow> (Inl e, registry)
      | Inr tables \<Rightarrow>
          if \<not> holds_deployment (map_of tables) app_id deployment_id then (Inl DeploymentMismatch, registry)
          else case parse_crontab said max_jobs ch tz after of
            Inl e \<Rightarrow> (Inl (Invalid e), registry)
          | Inr parsed \<Rightarrow>
              (let replacement = registered_table app_id deployment_id parsed
               in if map_of tables app_id = Some replacement then (Inr (), registry)
                  else registry_persist store (bt_insert app_id replacement tables) registry))"

definition registry_list ::
  "store_answers \<Rightarrow> app_id \<Rightarrow> deployment_id \<Rightarrow> cron_registry \<Rightarrow> cron_registry_error + string" where
  "registry_list store app_id deployment_id registry =
     question (registry_read store registry) (\<lambda>tables.
       case map_of tables app_id of
         Some table \<Rightarrow>
           if ct_deployment_id table = deployment_id
           then Inr (case ct_crontab table of Some crontab \<Rightarrow> crontab | None \<Rightarrow> []) else Inl DeploymentMismatch
       | None \<Rightarrow> Inl DeploymentMismatch)"

section \<open>A change is made whole or not at all\<close>

text \<open>
  An operation on something stored, against what it means for the abstract state: it keeps the
  stored form sound, and it either fails as the store failed, leaving everything as it was, or
  answers and changes what its specification says.
\<close>

locale stored_change =
  fixes wf :: "'s \<Rightarrow> bool" and abs :: "'s \<Rightarrow> 'm" and failed :: "'x \<Rightarrow> 'e"
    and op :: "'s \<Rightarrow> ('e + unit) \<times> 's" and spec :: "'m \<Rightarrow> ('e + unit) \<times> 'm"
  assumes keeps: "wf s \<Longrightarrow> wf (snd (op s))"
    and refines: "wf s \<Longrightarrow> (\<exists>e. op s = (Inl (failed e), s)) \<or>
      (fst (op s) = fst (spec (abs s)) \<and> abs (snd (op s)) = snd (spec (abs s)))"
    and refusals: "fst (spec m) = Inl e \<Longrightarrow> snd (spec m) = m"
begin

lemma errors_change_nothing: "wf s \<Longrightarrow> fst (op s) = Inl e \<Longrightarrow> abs (snd (op s)) = abs s"
  using refines [of s] refusals [of "abs s" e] by auto

lemma successes_are_specified:
  "wf s \<Longrightarrow> fst (op s) = Inr () \<Longrightarrow> fst (spec (abs s)) = Inr () \<and> abs (snd (op s)) = snd (spec (abs s))"
  using refines [of s] by auto

end

definition registry_wf :: "cron_registry \<Rightarrow> bool" where
  "registry_wf registry \<longleftrightarrow> distinct (map ct_app_id (cr_tables registry))"

definition registry_abs :: "cron_registry \<Rightarrow> app_id \<Rightarrow> cron_table option" where
  "registry_abs registry app_id = find (\<lambda>table. ct_app_id table = app_id) (cr_tables registry)"

definition keyed :: "(app_id, cron_table) btree \<Rightarrow> bool" where
  "keyed tables \<longleftrightarrow> bt_wf tables \<and> (\<forall>(app_id, table) \<in> set tables. ct_app_id table = app_id)"

lemma keyed_insert: "keyed tables \<Longrightarrow> ct_app_id table = app_id \<Longrightarrow> keyed (bt_insert app_id table tables)"
  using set_bt_insert_subset [of app_id table tables] by (fastforce simp: keyed_def)

lemma registry_tables_read:
  assumes "keyed tables" "distinct (map ct_app_id todo)" "\<forall>table \<in> set todo. map_of tables (ct_app_id table) = None"
  shows "\<exists>read. registry_tables todo tables = Inr read \<and> keyed read \<and>
    map_of read = map_of tables ++ (\<lambda>app_id. find (\<lambda>table. ct_app_id table = app_id) todo)"
  using assms
proof (induction todo arbitrary: tables)
  case Nil
  then show ?case by (simp add: map_add_def)
next
  case (Cons table todo)
  let ?mid = "bt_insert (ct_app_id table) table tables"
  have "\<exists>read. registry_tables todo ?mid = Inr read \<and> keyed read \<and>
      map_of read = map_of ?mid ++ (\<lambda>app_id. find (\<lambda>table. ct_app_id table = app_id) todo)"
    using Cons.prems by (intro Cons.IH) (auto simp: keyed_insert intro: rev_image_eqI)
  then obtain read where read: "registry_tables todo ?mid = Inr read" "keyed read"
    "map_of read = map_of ?mid ++ (\<lambda>app_id. find (\<lambda>table. ct_app_id table = app_id) todo)" by blast
  have "find (\<lambda>t. ct_app_id t = ct_app_id table) todo = None"
    using Cons.prems(2) unfolding find_None_iff by (auto intro: rev_image_eqI)
  then have "map_of read = map_of tables ++ (\<lambda>app_id. find (\<lambda>table. ct_app_id table = app_id) (table # todo))"
    unfolding read(3) by (auto simp: map_add_def fun_eq_iff split: option.split)
  with read(1,2) Cons.prems(3) show ?case by simp
qed

lemma registry_reads:
  assumes "registry_wf registry"
  shows "(\<exists>e. registry_read store registry = Inl (StoreFailed e)) \<or>
    (\<exists>read. registry_read store registry = Inr read \<and> keyed read \<and> map_of read = registry_abs registry)"
  using registry_tables_read [of "[]" "cr_tables registry"] assms
  by (auto simp: registry_read_def registry_wf_def keyed_def registry_abs_def [abs_def] split: option.splits)

lemma keyed_values:
  assumes "keyed tables"
  shows "distinct (map ct_app_id (bt_values tables))"
    "find (\<lambda>table. ct_app_id table = app_id) (bt_values tables) = map_of tables app_id"
proof -
  have keys: "map ct_app_id (bt_values tables) = map fst tables"
    using assms by (auto simp: keyed_def bt_values_def)
  then show "distinct (map ct_app_id (bt_values tables))"
    using assms bt_wf_distinct [of tables] by (simp add: keyed_def)
  have "\<forall>(a, table) \<in> set tables. ct_app_id table = a" using assms by (simp add: keyed_def)
  then show "find (\<lambda>table. ct_app_id table = app_id) (bt_values tables) = map_of tables app_id"
    by (induction tables) (auto simp: bt_values_def)
qed

lemma registry_persists:
  assumes "keyed tables"
  shows "(\<exists>e. registry_persist store tables registry = (Inl (StoreFailed e), registry)) \<or>
    (fst (registry_persist store tables registry) = Inr () \<and>
     registry_abs (snd (registry_persist store tables registry)) = map_of tables)"
    "registry_wf registry \<Longrightarrow> registry_wf (snd (registry_persist store tables registry))"
  using keyed_values [OF assms]
  by (auto simp: registry_persist_def registry_abs_def [abs_def] registry_wf_def split: option.splits)

subsection \<open>What the operations mean\<close>

datatype registry_call =
    Synchronize "(app_id \<times> deployment_id) list"
  | BeginDeployment app_id deployment_id
  | ReplaceCrontab app_id deployment_id string int

definition kept_table :: "(app_id \<Rightarrow> cron_table option) \<Rightarrow> app_id \<Rightarrow> deployment_id \<Rightarrow> cron_table" where
  "kept_table m app_id deployment_id =
     (if holds_deployment m app_id deployment_id then the (m app_id) else empty_table app_id deployment_id)"

fun registry_spec ::
  "chrono \<Rightarrow> time_zone \<Rightarrow> nat \<Rightarrow> registry_call \<Rightarrow> (app_id \<Rightarrow> cron_table option) \<Rightarrow>
     (cron_registry_error + unit) \<times> (app_id \<Rightarrow> cron_table option)" where
  "registry_spec ch tz max_jobs (Synchronize deployments) m =
     (if distinct (map fst deployments)
      then (Inr (), \<lambda>a. map_option (kept_table m a) (map_of deployments a))
      else (Inl DuplicateTable, m))"
| "registry_spec ch tz max_jobs (BeginDeployment a d) m = (Inr (), m(a \<mapsto> kept_table m a d))"
| "registry_spec ch tz max_jobs (ReplaceCrontab a d said after) m =
     (if \<not> holds_deployment m a d then (Inl DeploymentMismatch, m)
      else case parse_crontab said max_jobs ch tz after of
             Inl e \<Rightarrow> (Inl (Invalid e), m)
           | Inr parsed \<Rightarrow> (Inr (), m(a \<mapsto> registered_table a d parsed)))"

fun registry_op ::
  "chrono \<Rightarrow> time_zone \<Rightarrow> nat \<Rightarrow> store_answers \<Rightarrow> registry_call \<Rightarrow> cron_registry \<Rightarrow> (cron_registry_error + unit) \<times> cron_registry" where
  "registry_op ch tz max_jobs store (Synchronize deployments) registry = registry_synchronize store deployments registry"
| "registry_op ch tz max_jobs store (BeginDeployment a d) registry = begin_deployment store a d registry"
| "registry_op ch tz max_jobs store (ReplaceCrontab a d said after) registry =
     registry_replace ch tz max_jobs store a d said after registry"

lemma kept_or_empty_eq: "kept_or_empty held a d = kept_table (map_of held) a d"
  by (auto simp: kept_or_empty_def kept_table_def holds_deployment_def split: option.splits)

lemma kept_table_app: "keyed held \<Longrightarrow> ct_app_id (kept_table (map_of held) a d) = a"
  by (auto simp: kept_table_def holds_deployment_def empty_table_def keyed_def dest!: map_of_SomeD split: option.splits)

lemma wanted_tables_read:
  assumes "keyed held" "keyed wanted"
  shows "if distinct (map fst ds) \<and> (\<forall>a \<in> fst ` set ds. map_of wanted a = None)
    then \<exists>tables. wanted_tables held ds wanted = Inr tables \<and> keyed tables \<and>
      map_of tables = map_of wanted ++ (\<lambda>a. map_option (kept_table (map_of held) a) (map_of ds a))
    else wanted_tables held ds wanted = Inl DuplicateTable"
  using assms(2)
proof (induction ds arbitrary: wanted)
  case (Cons entry ds)
  obtain a d where entry: "entry = (a, d)" by (cases entry)
  let ?mid = "bt_insert a (kept_or_empty held a d) wanted"
  have mid: "keyed ?mid" using Cons.prems kept_table_app [OF assms(1)] by (simp add: keyed_insert kept_or_empty_eq)
  show ?case
  proof (cases "map_of wanted a")
    case None
    have "map_of ?mid ++ (\<lambda>b. map_option (kept_table (map_of held) b) (map_of ds b)) =
        map_of wanted ++ (\<lambda>b. map_option (kept_table (map_of held) b) (map_of (entry # ds) b))" if "a \<notin> fst ` set ds"
      using that map_of_eq_None_iff [of ds a] by (auto simp: entry map_add_def fun_eq_iff kept_or_empty_eq split: option.split)
    moreover have "(\<forall>b \<in> fst ` set ds. map_of ?mid b = None) \<longleftrightarrow> a \<notin> fst ` set ds \<and> (\<forall>b \<in> fst ` set ds. map_of wanted b = None)"
      by auto
    ultimately show ?thesis using Cons.IH [OF mid] None by (auto simp: entry)
  qed (simp add: entry)
qed (auto simp: map_add_def)

lemma registry_synchronize_refines:
  assumes "registry_wf registry"
  shows "registry_wf (snd (registry_synchronize store ds registry)) \<and>
    ((\<exists>e. registry_synchronize store ds registry = (Inl (StoreFailed e), registry)) \<or>
     (fst (registry_synchronize store ds registry) = fst (registry_spec ch tz max_jobs (Synchronize ds) (registry_abs registry)) \<and>
      registry_abs (snd (registry_synchronize store ds registry)) =
        snd (registry_spec ch tz max_jobs (Synchronize ds) (registry_abs registry))))"
  using registry_reads [OF assms, of store]
proof (elim disjE exE conjE)
  fix held
  assume held: "registry_read store registry = Inr held" "keyed held" "map_of held = registry_abs registry"
  show ?thesis
  proof (cases "distinct (map fst ds)")
    case True
    with wanted_tables_read [OF held(2), of "[]" ds] obtain tables where tables:
      "wanted_tables held ds [] = Inr tables" "keyed tables"
      "map_of tables = (\<lambda>a. map_option (kept_table (map_of held) a) (map_of ds a))"
      by (auto simp: keyed_def map_add_def)
    show ?thesis
      using registry_persists [OF tables(2), where store = store and registry = registry] assms True held tables
      by (auto simp: registry_synchronize_def)
  next
    case False
    with wanted_tables_read [OF held(2), of "[]" ds] have "wanted_tables held ds [] = Inl DuplicateTable"
      by (simp add: keyed_def)
    with held assms False show ?thesis by (simp add: registry_synchronize_def)
  qed
qed (use assms in \<open>simp add: registry_synchronize_def\<close>)

lemma map_upd_same: "m a = Some v \<Longrightarrow> m(a \<mapsto> v) = m"
  by auto

lemma begin_deployment_refines:
  assumes "registry_wf registry"
  shows "registry_wf (snd (begin_deployment store a d registry)) \<and>
    ((\<exists>e. begin_deployment store a d registry = (Inl (StoreFailed e), registry)) \<or>
     (fst (begin_deployment store a d registry) = fst (registry_spec ch tz max_jobs (BeginDeployment a d) (registry_abs registry)) \<and>
      registry_abs (snd (begin_deployment store a d registry)) =
        snd (registry_spec ch tz max_jobs (BeginDeployment a d) (registry_abs registry))))"
  using registry_reads [OF assms, of store]
proof (elim disjE exE conjE)
  fix held
  assume held: "registry_read store registry = Inr held" "keyed held" "map_of held = registry_abs registry"
  show ?thesis
  proof (cases "holds_deployment (registry_abs registry) a d")
    case True
    then have "registry_abs registry a = Some (kept_table (registry_abs registry) a d)"
      by (auto simp: kept_table_def holds_deployment_def split: option.splits)
    with True held assms show ?thesis by (simp add: begin_deployment_def map_upd_same)
  next
    case False
    have "keyed (bt_insert a (empty_table a d) held)" using held(2) by (simp add: keyed_insert empty_table_def)
    from registry_persists [OF this, where store = store and registry = registry] False held assms show ?thesis
      by (auto simp: begin_deployment_def kept_table_def)
  qed
qed (use assms in \<open>simp add: begin_deployment_def\<close>)

lemma registry_replace_refines:
  assumes "registry_wf registry"
  shows "registry_wf (snd (registry_replace ch tz max_jobs store a d said after registry)) \<and>
    ((\<exists>e. registry_replace ch tz max_jobs store a d said after registry = (Inl (StoreFailed e), registry)) \<or>
     (fst (registry_replace ch tz max_jobs store a d said after registry) =
        fst (registry_spec ch tz max_jobs (ReplaceCrontab a d said after) (registry_abs registry)) \<and>
      registry_abs (snd (registry_replace ch tz max_jobs store a d said after registry)) =
        snd (registry_spec ch tz max_jobs (ReplaceCrontab a d said after) (registry_abs registry))))"
  using registry_reads [OF assms, of store]
proof (elim disjE exE conjE)
  fix held
  assume held: "registry_read store registry = Inr held" "keyed held" "map_of held = registry_abs registry"
  show ?thesis
  proof (cases "parse_crontab said max_jobs ch tz after")
    case (Inr parsed)
    have "keyed (bt_insert a (registered_table a d parsed) held)" using held(2) by (simp add: keyed_insert registered_table_def)
    from registry_persists [OF this, where store = store and registry = registry] Inr held assms show ?thesis
      by (auto simp: registry_replace_def Let_def map_upd_same)
  qed (use held assms in \<open>simp add: registry_replace_def\<close>)
qed (use assms in \<open>simp add: registry_replace_def\<close>)

interpretation registered: stored_change registry_wf registry_abs StoreFailed
  "registry_op ch tz max_jobs store call" "registry_spec ch tz max_jobs call" for ch tz max_jobs store call
proof unfold_locales
  fix registry
  assume "registry_wf registry"
  note refines = registry_synchronize_refines [OF this, where ch = ch and tz = tz and max_jobs = max_jobs]
    begin_deployment_refines [OF this, where ch = ch and tz = tz and max_jobs = max_jobs] registry_replace_refines [OF this]
  show "registry_wf (snd (registry_op ch tz max_jobs store call registry))"
    using refines by (cases call) (simp_all del: registry_spec.simps)
  show "(\<exists>e. registry_op ch tz max_jobs store call registry = (Inl (StoreFailed e), registry)) \<or>
      (fst (registry_op ch tz max_jobs store call registry) = fst (registry_spec ch tz max_jobs call (registry_abs registry)) \<and>
       registry_abs (snd (registry_op ch tz max_jobs store call registry)) =
         snd (registry_spec ch tz max_jobs call (registry_abs registry)))"
    using refines by (cases call) (simp_all del: registry_spec.simps)
next
  fix m e
  assume "fst (registry_spec ch tz max_jobs call m) = Inl e"
  then show "snd (registry_spec ch tz max_jobs call m) = m"
    by (cases call) (auto split: if_splits sum.splits)
qed

text \<open>The calls made of a registry, one after another, each with how the store answered it.\<close>

fun registry_run ::
  "chrono \<Rightarrow> time_zone \<Rightarrow> nat \<Rightarrow> (store_answers \<times> registry_call) list \<Rightarrow> cron_registry \<Rightarrow>
     (cron_registry_error + unit) list \<times> cron_registry" where
  "registry_run ch tz max_jobs [] registry = ([], registry)"
| "registry_run ch tz max_jobs ((store, call) # calls) registry =
     (let (answer, after) = registry_op ch tz max_jobs store call registry;
          (answers, last) = registry_run ch tz max_jobs calls after
      in (answer # answers, last))"

text \<open>What the calls that succeeded mean, one after another.\<close>

fun registry_meaning ::
  "chrono \<Rightarrow> time_zone \<Rightarrow> nat \<Rightarrow> (registry_call \<times> (cron_registry_error + unit)) list \<Rightarrow>
     (app_id \<Rightarrow> cron_table option) \<Rightarrow> (app_id \<Rightarrow> cron_table option)" where
  "registry_meaning ch tz max_jobs [] m = m"
| "registry_meaning ch tz max_jobs ((call, answer) # calls) m =
     registry_meaning ch tz max_jobs calls (if answer = Inr () then snd (registry_spec ch tz max_jobs call m) else m)"

definition empty_registry :: cron_registry where
  "empty_registry = \<lparr>cr_tables = [], cr_revision = 0\<rparr>"


text \<open>What was registered is what is listed.\<close>

lemma registered_text_is_listed:
  assumes "registry_wf registry" "registry_replace ch tz max_jobs store a d said after registry = (Inr (), registry')"
    and "sa_read again = None"
  shows "registry_list again a d registry' = Inr said"
proof -
  have op: "registry_op ch tz max_jobs store (ReplaceCrontab a d said after) registry = (Inr (), registry')"
    using assms(2) by simp
  then have wf: "registry_wf registry'" using registered.keeps [OF assms(1)] by (metis snd_conv)
  from registered.successes_are_specified [OF assms(1), of ch tz max_jobs store "ReplaceCrontab a d said after"] op
  obtain parsed where parsed: "parse_crontab said max_jobs ch tz after = Inr parsed"
    "registry_abs registry' = (registry_abs registry)(a \<mapsto> registered_table a d parsed)"
    by (auto split: if_splits sum.splits)
  moreover obtain read where "registry_read again registry' = Inr read" "map_of read = registry_abs registry'"
    using registry_reads [OF wf, of again] assms(3) registry_tables_read [of "[]" "cr_tables registry'"] wf
    by (fastforce simp: registry_read_def registry_wf_def keyed_def)
  moreover have "pc_crontab parsed = said"
    using parsed(1) by (auto simp: parse_crontab_def crontab_parse_def question_def split: sum.splits if_splits)
  ultimately show ?thesis by (simp add: registry_list_def registered_table_def)
qed

section \<open>What a guest and the report are told\<close>

fun invalid_crontab_message :: "invalid_crontab \<Rightarrow> string" where
  "invalid_crontab_message TextError = ''the crontab exceeds its byte limit or contains a nul byte''"
| "invalid_crontab_message (LineError line) = ''crontab line '' @ show_nat line @ '' needs a schedule and a command''"
| "invalid_crontab_message (QuoteError line) = ''crontab line '' @ show_nat line @ '' has an unmatched environment quote''"
| "invalid_crontab_message (TimeZoneError line) =
     ''crontab line '' @ show_nat line @ '' names a time zone different from the host'' @ [CHR 0x27] @ ''s cron time zone''"
| "invalid_crontab_message (EnvironmentError line) =
     ''crontab line '' @ show_nat line @ '' has an invalid environment assignment''"
| "invalid_crontab_message (ScheduleError line) =
     ''crontab line '' @ show_nat line @ '' has an invalid schedule or no future occurrence''"
| "invalid_crontab_message (CommandError line) = ''crontab line '' @ show_nat line @ '' has an invalid command''"
| "invalid_crontab_message JobLimit = ''the crontab names more jobs than the host permits for an app''"

fun registry_error_message :: "cron_registry_error \<Rightarrow> string" where
  "registry_error_message DeploymentMismatch = ''cron registrations must belong to the current deployment''"
| "registry_error_message (Invalid e) = invalid_crontab_message e"
| "registry_error_message (StoreFailed e) = e"
| "registry_error_message Restore = ''a stored cron schedule is invalid or has no future occurrence''"
| "registry_error_message DuplicateTable = ''the cron registry contains more than one table for an app''"

definition registration_answer ::
  "chrono \<Rightarrow> time_zone \<Rightarrow> nat \<Rightarrow> store_answers \<Rightarrow> app_id \<Rightarrow> deployment_id \<Rightarrow> registration_request \<Rightarrow> int \<Rightarrow> cron_registry \<Rightarrow>
     registration_reply \<times> cron_registry" where
  "registration_answer ch tz max_jobs store app_id deployment_id request after registry =
     (let (outcome, registry') =
            (case request of
               Replace said \<Rightarrow>
                 map_prod (map_sum id (\<lambda>_. [])) id (registry_replace ch tz max_jobs store app_id deployment_id said after registry)
             | ListRegistered \<Rightarrow> (registry_list store app_id deployment_id registry, registry))
      in case outcome of
           Inr said \<Rightarrow> (\<lparr>rg_status = STATUS_OK, rg_text = said\<rparr>, registry')
         | Inl e \<Rightarrow> (\<lparr>rg_status = STATUS_REJECTED, rg_text = registry_error_message e\<rparr>, registry'))"

record registered_cron_job =
  rj_job_id :: string
  rj_definition :: cron_job_definition
  rj_next_run_at :: "timestamp option"

record cron_listing =
  cl_app_id :: app_id
  cl_deployment_id :: deployment_id
  cl_enabled :: bool
  cl_time_zone :: string
  cl_jobs :: "registered_cron_job list"

text \<open>The id of a job is a digest of it, and an instant is printed by the host's clock: both parameters.\<close>

fun listed_jobs ::
  "chrono \<Rightarrow> time_zone \<Rightarrow> (job_key \<Rightarrow> cron_job_definition \<Rightarrow> string) \<Rightarrow> (int \<Rightarrow> timestamp) \<Rightarrow> bool \<Rightarrow> int \<Rightarrow> app_id \<Rightarrow> deployment_id \<Rightarrow>
     nat \<Rightarrow> cron_job_definition list \<Rightarrow> cron_registry_error + registered_cron_job list" where
  "listed_jobs ch tz job_id from_epoch_ms enabled after app_id deployment_id index [] = Inr []"
| "listed_jobs ch tz job_id from_epoch_ms enabled after app_id deployment_id index (job # jobs) =
     question
       (if enabled
        then case schedule_anew ch tz after job of
               Inl _ \<Rightarrow> Inl Restore
             | Inr held \<Rightarrow> Inr (Some (from_epoch_ms (sj_next held div 10 ^ 6)))
        else Inr None)
       (\<lambda>next_run_at.
          map_sum id ((#) \<lparr>rj_job_id = job_id (app_id, deployment_id, index) job, rj_definition = job, rj_next_run_at = next_run_at\<rparr>)
            (listed_jobs ch tz job_id from_epoch_ms enabled after app_id deployment_id (Suc index) jobs))"

fun cron_listings ::
  "chrono \<Rightarrow> time_zone \<Rightarrow> (job_key \<Rightarrow> cron_job_definition \<Rightarrow> string) \<Rightarrow> (int \<Rightarrow> timestamp) \<Rightarrow> int \<Rightarrow> cron_table list \<Rightarrow>
     desired_instance list \<Rightarrow> cron_registry_error + cron_listing list" where
  "cron_listings ch tz job_id from_epoch_ms after tables [] = Inr []"
| "cron_listings ch tz job_id from_epoch_ms after tables (instance # instances) =
     (case find (\<lambda>table. ct_app_id table = di_app_id instance \<and> ct_deployment_id table = di_deployment_id instance) tables of
        None \<Rightarrow> cron_listings ch tz job_id from_epoch_ms after tables instances
      | Some table \<Rightarrow>
          (let enabled = (di_desired_state instance \<noteq> DesiredStopped)
           in question (listed_jobs ch tz job_id from_epoch_ms enabled after (di_app_id instance) (di_deployment_id instance) 0 (ct_jobs table))
                (\<lambda>jobs. map_sum id
                   ((#) \<lparr>cl_app_id = di_app_id instance, cl_deployment_id = di_deployment_id instance, cl_enabled = enabled,
                         cl_time_zone = tz_name tz, cl_jobs = jobs\<rparr>)
                   (cron_listings ch tz job_id from_epoch_ms after tables instances))))"

definition read_listings ::
  "chrono \<Rightarrow> time_zone \<Rightarrow> (job_key \<Rightarrow> cron_job_definition \<Rightarrow> string) \<Rightarrow> (int \<Rightarrow> timestamp) \<Rightarrow> int \<Rightarrow> store_answers \<Rightarrow>
     host_desired_state option \<Rightarrow> cron_registry \<Rightarrow> cron_registry_error + cron_listing list" where
  "read_listings ch tz job_id from_epoch_ms after store desired registry =
     (case desired of
        None \<Rightarrow> Inr []
      | Some desired \<Rightarrow>
          question (registry_list_all store registry) (\<lambda>tables.
            cron_listings ch tz job_id from_epoch_ms after tables (hd_instances desired)))"

text \<open>A listing shows a next run for every job of an app that is wanted, and for none of one that is stopped.\<close>

lemma listed_jobs_next_run:
  "listed_jobs ch tz job_id from_epoch_ms enabled after a d index jobs = Inr listed \<Longrightarrow>
     map rj_definition listed = jobs \<and> list_all (\<lambda>job. (rj_next_run_at job \<noteq> None) = enabled) listed"
proof (induction jobs arbitrary: index listed)
  case (Cons job jobs)
  then show ?case
    by (cases "listed_jobs ch tz job_id from_epoch_ms enabled after a d (Suc index) jobs")
      (auto simp: question_def split: sum.splits if_splits)
qed simp

end
