(* ===== verification/CronRuns.thy ===== *)
theory CronRuns
  imports Domain
begin

text \<open>
  The cron runs under way (\<open>domain/cron/runs.rs\<close>): which deployment of an app may start runs, the
  leases of those that run, and how a new document, a stop and a shutdown cancel them and wait for
  them to end. The tasks of the host interleave: a waiting operation holds the lock \<open>mutation\<close> while
  runs start and end, and may be abandoned. Shown: runs of two deployments of an app never overlap;
  whoever waits for a run has told it to stop; and what has waited finds nothing running.
\<close>

section \<open>Runs of a deployment\<close>

text \<open>
  The cancellation of a run is the value of its watch channel; the leases that are held are the
  entries of the map. An owner is shared by its leases, so it lives in a store of its own, and
  \<open>dr_app_id\<close> remembers the app it was made for.
\<close>

record active_runs =
  ar_accepting :: bool
  ar_next_id :: nat
  ar_cancellations :: "(nat, bool) btree"

record deployment_runs =
  dr_app_id :: app_id
  dr_deployment_id :: deployment_id
  dr_active :: active_runs

definition new_runs :: "app_id \<Rightarrow> deployment_id \<Rightarrow> deployment_runs" where
  "new_runs app_id deployment_id =
     \<lparr>dr_app_id = app_id, dr_deployment_id = deployment_id,
      dr_active = \<lparr>ar_accepting = True, ar_next_id = 0, ar_cancellations = []\<rparr>\<rparr>"

definition start_lease :: "deployment_runs \<Rightarrow> (nat \<times> deployment_runs) option" where
  "start_lease owner =
     (let active = dr_active owner
      in if \<not> ar_accepting active then None
         else let id = ar_next_id active
              in Some (id, owner\<lparr>dr_active := active\<lparr>ar_next_id := ar_next_id active + 1,
                   ar_cancellations := bt_insert id False (ar_cancellations active)\<rparr>\<rparr>))"

definition cancel_runs :: "deployment_runs \<Rightarrow> deployment_runs" where
  "cancel_runs owner =
     owner\<lparr>dr_active := (dr_active owner)\<lparr>ar_accepting := False,
       ar_cancellations := map (\<lambda>(id, _). (id, True)) (ar_cancellations (dr_active owner))\<rparr>\<rparr>"

definition drained :: "deployment_runs \<Rightarrow> bool" where
  "drained owner \<longleftrightarrow> ar_cancellations (dr_active owner) = []"

definition end_lease :: "nat \<Rightarrow> deployment_runs \<Rightarrow> deployment_runs" where
  "end_lease run owner =
     owner\<lparr>dr_active := (dr_active owner)\<lparr>ar_cancellations := bt_remove run (ar_cancellations (dr_active owner))\<rparr>\<rparr>"

section \<open>Runs of a host\<close>

text \<open>What waits with the lock held, and for which owners.\<close>

datatype waiting =
    Synchronizing "(app_id \<times> nat) list" "(app_id \<times> deployment_id) list"
  | Stopping app_id "nat option"
  | ShuttingDown "nat list"

record cron_runs =
  ru_store :: "(nat, deployment_runs) btree"
  ru_owners :: "(app_id, nat) btree"
  ru_stopping :: bool
  ru_mutation :: "waiting option"
  ru_next :: nat

definition no_runs :: cron_runs where
  "no_runs = \<lparr>ru_store = [], ru_owners = [], ru_stopping = False, ru_mutation = None, ru_next = 0\<rparr>"

definition runs_start :: "app_id \<Rightarrow> deployment_id \<Rightarrow> cron_runs \<Rightarrow> (nat \<times> nat) option \<times> cron_runs" where
  "runs_start app_id deployment_id runs =
     (if ru_stopping runs then (None, runs)
      else case map_of (ru_owners runs) app_id of
        None \<Rightarrow> (None, runs)
      | Some ref \<Rightarrow>
          (case map_of (ru_store runs) ref of
             None \<Rightarrow> (None, runs)
           | Some owner \<Rightarrow>
               if dr_deployment_id owner \<noteq> deployment_id then (None, runs)
               else (case start_lease owner of
                  None \<Rightarrow> (None, runs)
                | Some (run, owner) \<Rightarrow> (Some (ref, run), runs\<lparr>ru_store := bt_insert ref owner (ru_store runs)\<rparr>))))"

definition drop_lease :: "nat \<times> nat \<Rightarrow> cron_runs \<Rightarrow> cron_runs" where
  "drop_lease lease runs = runs\<lparr>ru_store := bt_modify (fst lease) (end_lease (snd lease)) (ru_store runs)\<rparr>"

definition cancel_owners :: "nat list \<Rightarrow> cron_runs \<Rightarrow> cron_runs" where
  "cancel_owners refs runs = runs\<lparr>ru_store := fold (\<lambda>ref. bt_modify ref cancel_runs) refs (ru_store runs)\<rparr>"

definition retires :: "(app_id \<times> deployment_id) list \<Rightarrow> cron_runs \<Rightarrow> app_id \<times> nat \<Rightarrow> bool" where
  "retires deployments runs entry \<longleftrightarrow>
     (case map_of (ru_store runs) (snd entry) of
        None \<Rightarrow> False
      | Some owner \<Rightarrow>
          \<not> ar_accepting (dr_active owner) \<or>
          \<not> list_ex (\<lambda>(wanted_app, wanted_deployment).
              wanted_app = fst entry \<and> wanted_deployment = dr_deployment_id owner) deployments)"

definition synchronize_begin :: "(app_id \<times> deployment_id) list \<Rightarrow> cron_runs \<Rightarrow> cron_runs" where
  "synchronize_begin deployments runs =
     (if ru_stopping runs then runs
      else let retiring = filter (retires deployments runs) (ru_owners runs)
           in (cancel_owners (map snd retiring) runs)\<lparr>ru_mutation := Some (Synchronizing retiring deployments)\<rparr>)"

definition drained_ref :: "cron_runs \<Rightarrow> nat \<Rightarrow> bool" where
  "drained_ref runs ref \<longleftrightarrow> (case map_of (ru_store runs) ref of Some owner \<Rightarrow> drained owner | None \<Rightarrow> True)"

definition insert_owner :: "app_id \<times> deployment_id \<Rightarrow> cron_runs \<Rightarrow> cron_runs" where
  "insert_owner entry runs =
     (case map_of (ru_owners runs) (fst entry) of
        Some _ \<Rightarrow> runs
      | None \<Rightarrow>
          runs\<lparr>ru_store := bt_insert (ru_next runs) (new_runs (fst entry) (snd entry)) (ru_store runs),
            ru_owners := bt_insert (fst entry) (ru_next runs) (ru_owners runs), ru_next := ru_next runs + 1\<rparr>)"

definition synchronize_end :: "(app_id \<times> nat) list \<Rightarrow> (app_id \<times> deployment_id) list \<Rightarrow> cron_runs \<Rightarrow> cron_runs" where
  "synchronize_end retiring deployments runs =
     (let left = runs\<lparr>ru_owners := fold bt_remove (map fst retiring) (ru_owners runs), ru_mutation := None\<rparr>
      in if ru_stopping runs then left else fold insert_owner deployments left)"

definition stop_begin :: "app_id \<Rightarrow> cron_runs \<Rightarrow> cron_runs" where
  "stop_begin app_id runs =
     (let owner = map_of (ru_owners runs) app_id
      in (cancel_owners (case owner of Some ref \<Rightarrow> [ref] | None \<Rightarrow> []) runs)\<lparr>ru_mutation := Some (Stopping app_id owner)\<rparr>)"

definition shutdown_begin :: "cron_runs \<Rightarrow> cron_runs" where
  "shutdown_begin runs =
     (let owners = bt_values (ru_owners runs)
      in (cancel_owners owners runs)\<lparr>ru_mutation := Some (ShuttingDown owners)\<rparr>)"

text \<open>Whom a waiting operation waits for.\<close>

fun awaited :: "waiting \<Rightarrow> nat list" where
  "awaited (Synchronizing retiring deployments) = map snd retiring"
| "awaited (Stopping app_id owner) = (case owner of Some ref \<Rightarrow> [ref] | None \<Rightarrow> [])"
| "awaited (ShuttingDown owners) = owners"

section \<open>Everything that happens to them\<close>

inductive runs_step :: "cron_runs \<Rightarrow> cron_runs \<Rightarrow> bool" where
  Start: "runs_start a d runs = (Some lease, after) \<Longrightarrow> runs_step runs after"
| End: "runs_step runs (drop_lease lease runs)"
| SynchronizeBegin: "ru_mutation runs = None \<Longrightarrow> runs_step runs (synchronize_begin deployments runs)"
| SynchronizeEnd: "ru_mutation runs = Some (Synchronizing retiring deployments) \<Longrightarrow>
    list_all (drained_ref runs) (map snd retiring) \<Longrightarrow> runs_step runs (synchronize_end retiring deployments runs)"
| StopBegin: "ru_mutation runs = None \<Longrightarrow> runs_step runs (stop_begin a runs)"
| StopEnd: "ru_mutation runs = Some (Stopping a owner) \<Longrightarrow> list_all (drained_ref runs) (awaited (Stopping a owner)) \<Longrightarrow>
    runs_step runs (runs\<lparr>ru_mutation := None\<rparr>)"
| ShutdownAsked: "runs_step runs (runs\<lparr>ru_stopping := True\<rparr>)"
| ShutdownBegin: "ru_mutation runs = None \<Longrightarrow> ru_stopping runs \<Longrightarrow> runs_step runs (shutdown_begin runs)"
| ShutdownEnd: "ru_mutation runs = Some (ShuttingDown owners) \<Longrightarrow> list_all (drained_ref runs) owners \<Longrightarrow>
    runs_step runs (runs\<lparr>ru_mutation := None\<rparr>)"
| Abandon: "runs_step runs (runs\<lparr>ru_mutation := None\<rparr>)"

inductive reachable_runs :: "cron_runs \<Rightarrow> bool" where
  initially: "reachable_runs no_runs"
| step: "reachable_runs runs \<Longrightarrow> runs_step runs after \<Longrightarrow> reachable_runs after"

text \<open>A lease that is held, and the app and deployment it runs for.\<close>

definition holds_lease :: "cron_runs \<Rightarrow> nat \<times> nat \<Rightarrow> app_id \<times> deployment_id \<Rightarrow> bool" where
  "holds_lease runs lease source \<longleftrightarrow>
     (case map_of (ru_store runs) (fst lease) of
        Some owner \<Rightarrow> source = (dr_app_id owner, dr_deployment_id owner) \<and>
          snd lease \<in> fst ` set (ar_cancellations (dr_active owner))
      | None \<Rightarrow> False)"

definition is_told :: "cron_runs \<Rightarrow> nat \<times> nat \<Rightarrow> bool" where
  "is_told runs lease \<longleftrightarrow>
     (case map_of (ru_store runs) (fst lease) of
        Some owner \<Rightarrow> map_of (ar_cancellations (dr_active owner)) (snd lease) = Some True
      | None \<Rightarrow> False)"

section \<open>The invariant\<close>

lemma cancel_runs_simps [simp]:
  "dr_app_id (cancel_runs owner) = dr_app_id owner" "dr_deployment_id (cancel_runs owner) = dr_deployment_id owner"
  "ar_accepting (dr_active (cancel_runs owner)) = False" "drained (cancel_runs owner) = drained owner"
  by (auto simp: cancel_runs_def drained_def)

lemma cancel_runs_told [dest!]: "(run, told) \<in> set (ar_cancellations (dr_active (cancel_runs owner))) \<Longrightarrow> told"
  by (auto simp: cancel_runs_def)

lemma cancel_runs_twice [simp]: "cancel_runs (cancel_runs owner) = cancel_runs owner"
  by (simp add: cancel_runs_def comp_def case_prod_unfold)

lemma cancel_owners_simps [simp]:
  "ru_owners (cancel_owners refs runs) = ru_owners runs" "ru_stopping (cancel_owners refs runs) = ru_stopping runs"
  "ru_mutation (cancel_owners refs runs) = ru_mutation runs" "ru_next (cancel_owners refs runs) = ru_next runs"
  by (simp_all add: cancel_owners_def)

lemma cancel_owners_store:
  "map_of (ru_store (cancel_owners refs runs)) ref =
     (if ref \<in> set refs then map_option cancel_runs (map_of (ru_store runs) ref) else map_of (ru_store runs) ref)"
proof -
  have "map_of (fold (\<lambda>ref. bt_modify ref cancel_runs) refs store) ref =
      (if ref \<in> set refs then map_option cancel_runs (map_of store ref) else map_of store ref)" for store
    by (induction refs arbitrary: store) (auto simp: option.map_comp comp_def)
  then show ?thesis by (simp add: cancel_owners_def)
qed

definition owner_ok :: "cron_runs \<Rightarrow> nat \<Rightarrow> deployment_runs \<Rightarrow> bool" where
  "owner_ok runs ref owner \<longleftrightarrow>
     ref < ru_next runs \<and>
     (\<not> drained owner \<longrightarrow> map_of (ru_owners runs) (dr_app_id owner) = Some ref) \<and>
     (\<not> ar_accepting (dr_active owner) \<longrightarrow> (\<forall>(run, told) \<in> set (ar_cancellations (dr_active owner)). told))"

definition retired :: "cron_runs \<Rightarrow> nat \<Rightarrow> bool" where
  "retired runs ref \<longleftrightarrow> (\<exists>owner. map_of (ru_store runs) ref = Some owner \<and> \<not> ar_accepting (dr_active owner))"

fun waiting_ok :: "cron_runs \<Rightarrow> waiting \<Rightarrow> bool" where
  "waiting_ok runs (Synchronizing retiring deployments) \<longleftrightarrow>
     (\<forall>(a, ref) \<in> set retiring. map_of (ru_owners runs) a = Some ref) \<and>
     (\<forall>a ref owner. map_of (ru_owners runs) a = Some ref \<and> map_of (ru_store runs) ref = Some owner \<longrightarrow>
        (a, ref) \<in> set retiring \<or> (a, dr_deployment_id owner) \<in> set deployments)"
| "waiting_ok runs (Stopping a owner) \<longleftrightarrow> map_of (ru_owners runs) a = owner"
| "waiting_ok runs (ShuttingDown owners) \<longleftrightarrow> ru_stopping runs \<and> (\<forall>a ref. map_of (ru_owners runs) a = Some ref \<longrightarrow> ref \<in> set owners)"

definition runs_inv :: "cron_runs \<Rightarrow> bool" where
  "runs_inv runs \<longleftrightarrow> bt_wf (ru_owners runs) \<and>
     (\<forall>a ref. map_of (ru_owners runs) a = Some ref \<longrightarrow> (\<exists>owner. map_of (ru_store runs) ref = Some owner \<and> dr_app_id owner = a)) \<and>
     (\<forall>ref owner. map_of (ru_store runs) ref = Some owner \<longrightarrow> owner_ok runs ref owner) \<and>
     (\<forall>w. ru_mutation runs = Some w \<longrightarrow> (\<forall>ref \<in> set (awaited w). retired runs ref) \<and> waiting_ok runs w)"

lemma runs_invI:
  assumes "bt_wf (ru_owners runs)" and "\<And>a ref. map_of (ru_owners runs) a = Some ref \<Longrightarrow> \<exists>owner. map_of (ru_store runs) ref = Some owner \<and> dr_app_id owner = a"
    and "\<And>ref owner. map_of (ru_store runs) ref = Some owner \<Longrightarrow> owner_ok runs ref owner"
    and "\<And>w ref. ru_mutation runs = Some w \<Longrightarrow> ref \<in> set (awaited w) \<Longrightarrow> retired runs ref"
    and "\<And>w. ru_mutation runs = Some w \<Longrightarrow> waiting_ok runs w"
  shows "runs_inv runs"
  using assms by (simp add: runs_inv_def)

lemma runs_invD:
  assumes "runs_inv runs"
  shows "map_of (ru_owners runs) a = Some ref \<Longrightarrow> \<exists>owner. map_of (ru_store runs) ref = Some owner \<and> dr_app_id owner = a"
    and "map_of (ru_store runs) ref = Some owner \<Longrightarrow> owner_ok runs ref owner"
    and "ru_mutation runs = Some w \<Longrightarrow> ref \<in> set (awaited w) \<Longrightarrow> retired runs ref"
    and "ru_mutation runs = Some w \<Longrightarrow> waiting_ok runs w"
    and "bt_wf (ru_owners runs)"
  using assms by (simp_all add: runs_inv_def)

text \<open>An owner that is changed in place: same app and deployment, still not accepting if it was not.\<close>

lemma runs_inv_owner:
  assumes "runs_inv runs" "map_of (ru_store runs) ref = Some owner"
    and "dr_app_id owner' = dr_app_id owner" "dr_deployment_id owner' = dr_deployment_id owner"
    and "\<not> ar_accepting (dr_active owner) \<Longrightarrow> \<not> ar_accepting (dr_active owner')"
    and "owner_ok runs ref owner'" "map_of store = (map_of (ru_store runs))(ref \<mapsto> owner')"
  shows "runs_inv (runs\<lparr>ru_store := store\<rparr>)"
proof (rule runs_invI)
  show "bt_wf (ru_owners (runs\<lparr>ru_store := store\<rparr>))" using runs_invD(5) [OF assms(1)] by simp
next
  fix a r
  assume "map_of (ru_owners (runs\<lparr>ru_store := store\<rparr>)) a = Some r"
  with runs_invD(1) [OF assms(1), of a r] assms(2,3,7)
  show "\<exists>owner. map_of (ru_store (runs\<lparr>ru_store := store\<rparr>)) r = Some owner \<and> dr_app_id owner = a" by auto
next
  fix r o'
  assume "map_of (ru_store (runs\<lparr>ru_store := store\<rparr>)) r = Some o'"
  with runs_invD(2) [OF assms(1)] assms(6,7) show "owner_ok (runs\<lparr>ru_store := store\<rparr>) r o'"
    by (auto simp: owner_ok_def split: if_splits)
next
  fix w r
  assume "ru_mutation (runs\<lparr>ru_store := store\<rparr>) = Some w" "r \<in> set (awaited w)"
  with runs_invD(3) [OF assms(1), of w r] assms(2,5,7) show "retired (runs\<lparr>ru_store := store\<rparr>) r"
    by (auto simp: retired_def)
next
  fix w
  assume "ru_mutation (runs\<lparr>ru_store := store\<rparr>) = Some w"
  with runs_invD(4) [OF assms(1), of w] assms(2,4,7) show "waiting_ok (runs\<lparr>ru_store := store\<rparr>) w"
    by (cases w) (auto split: if_splits)
qed

lemma runs_inv_start:
  assumes "runs_inv runs" "runs_start a d runs = (Some lease, after)"
  shows "runs_inv after"
proof -
  from assms(2) obtain ref owner run owner' where step: "map_of (ru_owners runs) a = Some ref"
    "map_of (ru_store runs) ref = Some owner" "start_lease owner = Some (run, owner')"
    "after = runs\<lparr>ru_store := bt_insert ref owner' (ru_store runs)\<rparr>"
    by (auto simp: runs_start_def split: if_splits option.splits)
  from runs_invD(1) [OF assms(1) step(1)] step(2) have app: "dr_app_id owner = a" by simp
  have owner': "dr_app_id owner' = dr_app_id owner" "dr_deployment_id owner' = dr_deployment_id owner"
    "ar_accepting (dr_active owner)" "ar_accepting (dr_active owner')"
    using step(3) by (auto simp: start_lease_def Let_def split: if_splits)
  have "owner_ok runs ref owner'"
    using runs_invD(2) [OF assms(1) step(2)] step(1) owner' app by (simp add: owner_ok_def)
  then show ?thesis
    unfolding step(4) using owner' by (intro runs_inv_owner [OF assms(1) step(2)]) simp_all
qed

lemma runs_inv_same:
  assumes "map_of store = map_of (ru_store runs)"
  shows "runs_inv (runs\<lparr>ru_store := store\<rparr>) \<longleftrightarrow> runs_inv runs"
proof -
  have "waiting_ok (runs\<lparr>ru_store := store\<rparr>) w \<longleftrightarrow> waiting_ok runs w" for w
    using assms by (cases w) simp_all
  with assms show ?thesis by (simp add: runs_inv_def owner_ok_def retired_def)
qed

lemma runs_inv_drop:
  assumes "runs_inv runs"
  shows "runs_inv (drop_lease lease runs)"
proof (cases "map_of (ru_store runs) (fst lease)")
  case None
  then have "map_of (bt_modify (fst lease) (end_lease (snd lease)) (ru_store runs)) = map_of (ru_store runs)"
    by (auto simp: fun_eq_iff)
  with assms show ?thesis unfolding drop_lease_def by (simp add: runs_inv_same)
next
  case (Some owner)
  have "owner_ok runs (fst lease) (end_lease (snd lease) owner)"
    using runs_invD(2) [OF assms Some] by (auto simp: owner_ok_def end_lease_def drained_def bt_remove_def)
  then show ?thesis
    unfolding drop_lease_def using Some
    by (intro runs_inv_owner [OF assms Some]) (auto simp: end_lease_def fun_eq_iff)
qed

lemma runs_inv_free: "runs_inv runs \<Longrightarrow> runs_inv (runs\<lparr>ru_mutation := None\<rparr>)"
  by (simp add: runs_inv_def owner_ok_def)

lemma runs_inv_stopping: "runs_inv runs \<Longrightarrow> runs_inv (runs\<lparr>ru_stopping := True\<rparr>)"
proof -
  assume inv: "runs_inv runs"
  have "waiting_ok runs w \<Longrightarrow> waiting_ok (runs\<lparr>ru_stopping := True\<rparr>) w" for w by (cases w) simp_all
  with inv show ?thesis by (simp add: runs_inv_def owner_ok_def retired_def)
qed

lemma owners_stored: "runs_inv runs \<Longrightarrow> (a, ref) \<in> set (ru_owners runs) \<Longrightarrow> \<exists>owner. map_of (ru_store runs) ref = Some owner \<and> dr_app_id owner = a"
  using runs_invD(1,5) bt_wf_map_of by metis

text \<open>Cancelling the owners an operation then waits for.\<close>

lemma runs_inv_cancel:
  assumes "runs_inv runs" "set (awaited w) \<subseteq> set refs" "\<forall>ref \<in> set refs. map_of (ru_store runs) ref \<noteq> None"
    and "waiting_ok (cancel_owners refs runs) w"
  shows "runs_inv ((cancel_owners refs runs)\<lparr>ru_mutation := Some w\<rparr>)" (is "runs_inv ?after")
proof (rule runs_invI)
  show "bt_wf (ru_owners ?after)" using runs_invD(5) [OF assms(1)] by simp
next
  fix a ref assume "map_of (ru_owners ?after) a = Some ref"
  with runs_invD(1) [OF assms(1), of a ref] show "\<exists>owner. map_of (ru_store ?after) ref = Some owner \<and> dr_app_id owner = a"
    by (auto simp: cancel_owners_store)
next
  fix ref owner assume "map_of (ru_store ?after) ref = Some owner"
  then obtain before where "map_of (ru_store runs) ref = Some before" "owner = before \<or> owner = cancel_runs before"
    by (auto simp: cancel_owners_store split: if_splits)
  with runs_invD(2) [OF assms(1), of ref before] show "owner_ok ?after ref owner"
    by (auto simp: owner_ok_def)
next
  fix u ref assume "ru_mutation ?after = Some u" "ref \<in> set (awaited u)"
  then have "ref \<in> set refs" using assms(2) by auto
  moreover from this obtain owner where "map_of (ru_store runs) ref = Some owner" using assms(3) by auto
  ultimately show "retired ?after ref" by (simp add: retired_def cancel_owners_store)
next
  fix u assume "ru_mutation ?after = Some u"
  moreover have "waiting_ok ?after w = waiting_ok (cancel_owners refs runs) w" by (cases w) simp_all
  ultimately show "waiting_ok ?after u" using assms(4) by simp
qed

lemma runs_inv_synchronize_begin:
  assumes "runs_inv runs"
  shows "ru_stopping runs \<or> runs_inv (synchronize_begin deployments runs)"
proof -
  let ?retiring = "filter (retires deployments runs) (ru_owners runs)"
  have "waiting_ok (cancel_owners (map snd ?retiring) runs) (Synchronizing ?retiring deployments)"
  proof -
    have "(a, dr_deployment_id owner) \<in> set deployments"
      if "map_of (ru_owners runs) a = Some ref" "map_of (ru_store runs) ref = Some owner" "\<not> retires deployments runs (a, ref)"
      for a ref owner
      using that by (auto simp: retires_def list_ex_iff)
    moreover have "map_of (ru_owners runs) a = Some ref" if "(a, ref) \<in> set (ru_owners runs)" for a ref
      using that runs_invD(5) [OF assms] by (simp add: bt_wf_map_of)
    ultimately show ?thesis
      by (auto simp: cancel_owners_store split: if_splits dest: map_of_SomeD) (metis map_of_SomeD)+
  qed
  moreover have "\<forall>ref \<in> set (map snd ?retiring). map_of (ru_store runs) ref \<noteq> None"
    using owners_stored [OF assms] by force
  ultimately have "runs_inv ((cancel_owners (map snd ?retiring) runs)\<lparr>ru_mutation := Some (Synchronizing ?retiring deployments)\<rparr>)"
    by (intro runs_inv_cancel [OF assms]) simp_all
  then show ?thesis by (simp add: synchronize_begin_def Let_def)
qed

lemma map_of_removes: "map_of (fold bt_remove keys m) = (\<lambda>a. if a \<in> set keys then None else map_of m a)"
  by (induction keys arbitrary: m) (auto simp: fun_eq_iff)

lemma bt_wf_removes: "bt_wf m \<Longrightarrow> bt_wf (fold bt_remove keys m)"
  by (induction keys arbitrary: m) auto

lemma runs_inv_insert:
  assumes "runs_inv runs" "ru_mutation runs = None"
  shows "runs_inv (insert_owner entry runs) \<and> ru_mutation (insert_owner entry runs) = None"
proof (cases "map_of (ru_owners runs) (fst entry)")
  case None
  let ?after = "insert_owner entry runs"
  have after: "map_of (ru_store ?after) = (map_of (ru_store runs))(ru_next runs \<mapsto> new_runs (fst entry) (snd entry))"
    "map_of (ru_owners ?after) = (map_of (ru_owners runs))(fst entry \<mapsto> ru_next runs)" "ru_next ?after = ru_next runs + 1"
    "ru_mutation ?after = None" "bt_wf (ru_owners ?after)"
    using None assms(2) runs_invD(5) [OF assms(1)] by (simp_all add: insert_owner_def)
  have fresh: "ref < ru_next runs" if "map_of (ru_store runs) ref = Some owner" for ref owner
    using runs_invD(2) [OF assms(1) that] by (simp add: owner_ok_def)
  have "runs_inv ?after"
  proof (rule runs_invI)
    fix a ref assume "map_of (ru_owners ?after) a = Some ref"
    then show "\<exists>owner. map_of (ru_store ?after) ref = Some owner \<and> dr_app_id owner = a"
      using runs_invD(1) [OF assms(1), of a ref] fresh by (fastforce simp: after new_runs_def split: if_splits)
  next
    fix ref owner assume owner: "map_of (ru_store ?after) ref = Some owner"
    show "owner_ok ?after ref owner"
    proof (cases "ref = ru_next runs")
      case True
      with owner show ?thesis by (auto simp: after owner_ok_def new_runs_def drained_def)
    next
      case False
      with owner have "owner_ok runs ref owner" using runs_invD(2) [OF assms(1)] by (simp add: after)
      with None show ?thesis by (auto simp: after owner_ok_def)
    qed
  qed (simp_all add: after)
  with after show ?thesis by simp
qed (use assms in \<open>simp add: insert_owner_def\<close>)

lemma runs_inv_removed:
  assumes "runs_inv runs" "ru_mutation runs = Some (Synchronizing retiring deployments)"
    and "list_all (drained_ref runs) (map snd retiring)"
  shows "runs_inv (runs\<lparr>ru_owners := fold bt_remove (map fst retiring) (ru_owners runs), ru_mutation := None\<rparr>)"
    (is "runs_inv ?left")
proof (rule runs_invI)
  show "bt_wf (ru_owners ?left)" using runs_invD(5) [OF assms(1)] by (simp add: bt_wf_removes)
next
  fix a ref assume "map_of (ru_owners ?left) a = Some ref"
  then show "\<exists>owner. map_of (ru_store ?left) ref = Some owner \<and> dr_app_id owner = a"
    using runs_invD(1) [OF assms(1)] by (auto simp: map_of_removes split: if_splits)
next
  fix ref owner assume owner: "map_of (ru_store ?left) ref = Some owner"
  have held: "\<forall>(a, ref) \<in> set retiring. map_of (ru_owners runs) a = Some ref"
    using runs_invD(4) [OF assms(1,2)] by simp
  have "dr_app_id owner \<notin> fst ` set retiring" if "\<not> drained owner"
  proof
    assume "dr_app_id owner \<in> fst ` set retiring"
    then obtain r where r: "(dr_app_id owner, r) \<in> set retiring" by auto
    moreover have "map_of (ru_owners runs) (dr_app_id owner) = Some ref"
      using that runs_invD(2) [OF assms(1)] owner by (simp add: owner_ok_def)
    ultimately have "r = ref" using held by auto
    with r assms(3) owner have "drained owner" by (auto simp: list_all_iff drained_ref_def)
    with that show False by simp
  qed
  with runs_invD(2) [OF assms(1), of ref owner] owner show "owner_ok ?left ref owner"
    by (auto simp: owner_ok_def map_of_removes)
qed simp_all

lemma runs_inv_synchronize_end:
  assumes "runs_inv runs" "ru_mutation runs = Some (Synchronizing retiring deployments)"
    and "list_all (drained_ref runs) (map snd retiring)"
  shows "runs_inv (synchronize_end retiring deployments runs)"
proof -
  have "runs_inv (fold insert_owner deployments s) \<and> ru_mutation (fold insert_owner deployments s) = None"
    if "runs_inv s" "ru_mutation s = None" for s
    using that by (induction deployments arbitrary: s) (simp_all add: runs_inv_insert)
  with runs_inv_removed [OF assms] show ?thesis by (simp add: synchronize_end_def Let_def)
qed

lemma reachable_runs_inv: "reachable_runs runs \<Longrightarrow> runs_inv runs"
proof (induction rule: reachable_runs.induct)
  case initially
  show ?case by (simp add: runs_inv_def no_runs_def)
next
  case (step runs after)
  from step.hyps(2) step.IH show ?case
  proof (cases rule: runs_step.cases)
    case (SynchronizeBegin deployments)
    with runs_inv_synchronize_begin [OF step.IH, of deployments] step.IH show ?thesis by (auto simp: synchronize_begin_def)
  next
    case (StopBegin a)
    have "map_of (ru_store runs) ref \<noteq> None" if "map_of (ru_owners runs) a = Some ref" for ref
      using runs_invD(1) [OF step.IH that] by auto
    then show ?thesis
      unfolding StopBegin(1) stop_begin_def Let_def by (intro runs_inv_cancel [OF step.IH]) (auto split: option.splits)
  next
    case ShutdownBegin
    have "map_of (ru_store runs) ref \<noteq> None" if "ref \<in> set (bt_values (ru_owners runs))" for ref
      using owners_stored [OF step.IH] that by (fastforce simp: bt_values_def)
    then show ?thesis
      unfolding ShutdownBegin(1) shutdown_begin_def Let_def using ShutdownBegin
      by (intro runs_inv_cancel [OF step.IH]) (force simp: bt_values_def dest: map_of_SomeD)+
  qed (auto intro: runs_inv_start runs_inv_drop runs_inv_synchronize_end runs_inv_free runs_inv_stopping)
qed

section \<open>What holds of the runs under way\<close>

lemma holds_lease_owner:
  assumes "runs_inv runs" "holds_lease runs lease (a, d)"
  shows "\<exists>owner. map_of (ru_owners runs) a = Some (fst lease) \<and> map_of (ru_store runs) (fst lease) = Some owner \<and>
    dr_app_id owner = a \<and> dr_deployment_id owner = d \<and> \<not> drained owner"
proof -
  from assms(2) obtain owner where owner: "map_of (ru_store runs) (fst lease) = Some owner" "dr_app_id owner = a"
    "dr_deployment_id owner = d" "\<not> drained owner"
    by (cases "map_of (ru_store runs) (fst lease)") (force simp: holds_lease_def drained_def)+
  with runs_invD(2) [OF assms(1) owner(1)] show ?thesis by (auto simp: owner_ok_def)
qed

lemma retired_leases_are_told:
  assumes "runs_inv runs" "retired runs (fst lease)" "holds_lease runs lease source"
  shows "is_told runs lease"
proof -
  from assms(2) obtain owner where owner: "map_of (ru_store runs) (fst lease) = Some owner" "\<not> ar_accepting (dr_active owner)"
    by (auto simp: retired_def)
  with assms(3) have "map_of (ar_cancellations (dr_active owner)) (snd lease) \<noteq> None"
    by (simp add: holds_lease_def map_of_eq_None_iff)
  then obtain told where told: "map_of (ar_cancellations (dr_active owner)) (snd lease) = Some told" by auto
  with runs_invD(2) [OF assms(1) owner(1)] owner(2) have told by (auto simp: owner_ok_def dest: map_of_SomeD)
  with told owner(1) show ?thesis by (simp add: is_told_def)
qed

text \<open>
  (C15) Runs of two deployments of an app never overlap. Whatever starts, ends, is stopped, replaced,
  shut down or abandoned half way, all the runs under way of an app are of one deployment; and every
  run that a change waits for has been told to stop.
\<close>

theorem deployments_never_run_side_by_side:
  assumes "reachable_runs runs"
  shows "(\<forall>lease other a d e. holds_lease runs lease (a, d) \<and> holds_lease runs other (a, e) \<longrightarrow> d = e) \<and>
    (\<forall>w lease source. ru_mutation runs = Some w \<and> fst lease \<in> set (awaited w) \<and> holds_lease runs lease source \<longrightarrow>
       is_told runs lease)"
proof (intro conjI allI impI)
  note inv = reachable_runs_inv [OF assms]
  show "d = e" if "holds_lease runs lease (a, d) \<and> holds_lease runs other (a, e)" for lease other a d e
    using holds_lease_owner [OF inv, of lease a d] holds_lease_owner [OF inv, of other a e] that by auto
  show "is_told runs lease" if "ru_mutation runs = Some w \<and> fst lease \<in> set (awaited w) \<and> holds_lease runs lease source"
    for w lease source
    using that runs_invD(3) [OF inv] retired_leases_are_told [OF inv] by blast
qed

definition sample_started :: cron_runs where
  "sample_started = synchronize_end [] [(''app-1'', ''dep-1'')] (synchronize_begin [(''app-1'', ''dep-1'')] no_runs)"

definition sample_stopping :: cron_runs where
  "sample_stopping = stop_begin ''app-1'' (snd (runs_start ''app-1'' ''dep-1'' sample_started))"

lemmas sample_runs_defs = sample_started_def no_runs_def synchronize_begin_def synchronize_end_def cancel_owners_def Let_def
  insert_owner_def new_runs_def runs_start_def start_lease_def

lemma sample_stopping_reachable: "reachable_runs sample_stopping"
proof -
  have "reachable_runs (synchronize_begin [(''app-1'', ''dep-1'')] no_runs)"
    by (intro reachable_runs.step [OF reachable_runs.initially] SynchronizeBegin) (simp add: no_runs_def)
  then have "reachable_runs sample_started"
    unfolding sample_started_def
    by (rule reachable_runs.step [OF _ SynchronizeEnd]) (simp_all add: no_runs_def synchronize_begin_def cancel_owners_def)
  moreover have "runs_start ''app-1'' ''dep-1'' sample_started = (Some (0, 0), snd (runs_start ''app-1'' ''dep-1'' sample_started))"
    by (simp add: sample_runs_defs)
  ultimately have "reachable_runs (snd (runs_start ''app-1'' ''dep-1'' sample_started))"
    by (metis reachable_runs.step Start)
  then show ?thesis
    unfolding sample_stopping_def
    by (rule reachable_runs.step [OF _ StopBegin]) (simp add: sample_runs_defs)
qed

theorem deployments_never_run_side_by_side_witness:
  "reachable_runs sample_stopping \<and> holds_lease sample_stopping (0, 0) (''app-1'', ''dep-1'') \<and> is_told sample_stopping (0, 0)"
proof -
  have held: "holds_lease sample_stopping (0, 0) (''app-1'', ''dep-1'')"
    by (simp add: holds_lease_def sample_stopping_def stop_begin_def cancel_runs_def bt_modify_def sample_runs_defs)
  have waits: "ru_mutation sample_stopping = Some (Stopping ''app-1'' (Some 0))"
    by (simp add: sample_stopping_def stop_begin_def sample_runs_defs)
  have "is_told sample_stopping (0, 0)"
    using conjunct2 [OF deployments_never_run_side_by_side [OF sample_stopping_reachable], rule_format,
        of "Stopping ''app-1'' (Some 0)" "(0, 0)" "(''app-1'', ''dep-1'')"] held waits by simp
  with held sample_stopping_reachable show ?thesis by simp
qed

lemma insert_owner_leases: "runs_inv runs \<Longrightarrow> ru_mutation runs = None \<Longrightarrow>
    holds_lease (fold insert_owner deployments runs) lease source \<Longrightarrow> holds_lease runs lease source"
proof (induction deployments arbitrary: runs)
  case (Cons entry deployments)
  have "holds_lease (insert_owner entry runs) lease source"
    using Cons.IH [of "insert_owner entry runs"] Cons.prems runs_inv_insert [OF Cons.prems(1,2)] by simp
  then show ?case
    by (auto simp: holds_lease_def insert_owner_def new_runs_def split: option.splits if_splits)
qed simp

text \<open>
  What has waited finds nothing running. When a change of the document is through, every run
  under way is of a deployment the document wants; when a stop is through, nothing runs for the app
  and nothing starts for it; and when a shutdown is through, nothing runs and nothing starts at all.
\<close>

lemma nothing_runs_after_the_wait:
  assumes "reachable_runs runs" "ru_mutation runs = Some w" "list_all (drained_ref runs) (awaited w)"
  shows "case w of
      Synchronizing retiring deployments \<Rightarrow>
        (\<forall>lease source. holds_lease (synchronize_end retiring deployments runs) lease source \<longrightarrow> source \<in> set deployments)
    | Stopping a owner \<Rightarrow>
        (\<forall>lease d. \<not> holds_lease runs lease (a, d)) \<and> (\<forall>d. runs_start a d runs = (None, runs))
    | ShuttingDown owners \<Rightarrow>
        (\<forall>lease source. \<not> holds_lease runs lease source) \<and> (\<forall>a d. runs_start a d runs = (None, runs))"
proof -
  note inv = reachable_runs_inv [OF assms(1)]
  note waits = runs_invD(4) [OF inv assms(2)]
  have gone: "\<not> holds_lease runs lease source" if "fst lease \<in> set (awaited w)" for lease source
    using assms(3) that
    by (auto simp: list_all_iff drained_ref_def holds_lease_def drained_def split: option.splits)
  show ?thesis
  proof (cases w)
    case (Synchronizing retiring deployments)
    let ?left = "runs\<lparr>ru_owners := fold bt_remove (map fst retiring) (ru_owners runs), ru_mutation := None\<rparr>"
    have "source \<in> set deployments" if "holds_lease (synchronize_end retiring deployments runs) lease source" for lease source
    proof -
      have "runs_inv ?left"
        using runs_inv_removed [OF inv] assms(2,3) Synchronizing by simp
      with that have "holds_lease ?left lease source"
        using insert_owner_leases [of ?left deployments lease source]
        by (simp add: synchronize_end_def Let_def split: if_splits)
      then have held: "holds_lease runs lease source" by (simp add: holds_lease_def)
      obtain a d where source: "source = (a, d)" by (cases source)
      from holds_lease_owner [OF inv held [unfolded source]] obtain owner where
        owner: "map_of (ru_owners runs) a = Some (fst lease)" "map_of (ru_store runs) (fst lease) = Some owner"
        "dr_deployment_id owner = d" by auto
      have "(a, fst lease) \<notin> set retiring"
      proof
        assume "(a, fst lease) \<in> set retiring"
        then have "fst lease \<in> set (awaited w)" using Synchronizing by force
        with gone held show False by blast
      qed
      with waits owner Synchronizing source show ?thesis by auto
    qed
    with Synchronizing show ?thesis by simp
  next
    case (Stopping a owner)
    have "\<not> holds_lease runs lease (a, d)" for lease d
      using holds_lease_owner [OF inv, of lease a d] waits gone [of lease "(a, d)"] Stopping by auto
    moreover have "runs_start a d runs = (None, runs)" for d
      using runs_invD(3) [OF inv assms(2)] waits Stopping
      by (auto simp: runs_start_def retired_def start_lease_def Let_def split: option.splits)
    ultimately show ?thesis using Stopping by simp
  next
    case (ShuttingDown owners)
    have "\<not> holds_lease runs lease source" for lease source
      using holds_lease_owner [OF inv, of lease "fst source" "snd source"] waits gone [of lease source] ShuttingDown by auto
    moreover have "runs_start a d runs = (None, runs)" for a d
      using waits ShuttingDown by (simp add: runs_start_def)
    ultimately show ?thesis using ShuttingDown by simp
  qed
qed

end
