(* ===== verification/Forwarder.thy ===== *)
theory Forwarder
  imports Logs
begin

text \<open>
  The forwarder in a guest (\<open>init/src/guest/logs.rs\<close>): it sends what the tenant prints, and the
  restarts of the tenant, to the host over a connection that comes and goes, and declares what it
  could not deliver as a gap. Dialling, writing and the clock are a parameter. Shown, together with
  the decoder of the host: however connections fail, and wherever a write breaks off, the host reads
  what was sent with every frame that was lost replaced by a gap of its size.
\<close>

section \<open>The connection to the host\<close>

text \<open>
  What the outside answers to the calls of a forwarder, by their number: the moment, in nanoseconds;
  whether the host takes the connection; and whether a write goes through or breaks off after some
  of its bytes. The host holds what arrived on every connection it took, the oldest first.
\<close>

record log_host =
  lh_now :: "nat \<Rightarrow> nat"
  lh_dial :: "nat \<Rightarrow> bool"
  lh_write :: "nat \<Rightarrow> string \<Rightarrow> nat option"

definition RETRY_FLOOR :: nat where
  "RETRY_FLOOR = 200 * 10 ^ 6"

definition RETRY_CEILING :: nat where
  "RETRY_CEILING = 5 * 10 ^ 9"

record forwarder =
  fw_connection :: "nat option"
  fw_retry_after :: nat
  fw_backoff :: nat
  fw_dropped_bytes :: nat
  fw_calls :: nat
  fw_wires :: "string list"

definition fw_now :: "log_host \<Rightarrow> forwarder \<Rightarrow> nat \<times> forwarder" where
  "fw_now h fw = (lh_now h (fw_calls fw), fw\<lparr>fw_calls := fw_calls fw + 1\<rparr>)"

definition dialing :: "log_host \<Rightarrow> forwarder" where
  "dialing h =
     \<lparr>fw_connection = None, fw_retry_after = lh_now h 0, fw_backoff = RETRY_FLOOR, fw_dropped_bytes = 0,
      fw_calls = 1, fw_wires = []\<rparr>"

definition reconnect_due_in :: "log_host \<Rightarrow> forwarder \<Rightarrow> nat option \<times> forwarder" where
  "reconnect_due_in h fw =
     (if fw_connection fw \<noteq> None \<or> fw_dropped_bytes fw = 0 then (None, fw)
      else let (now, fw) = fw_now h fw in (Some (fw_retry_after fw - now), fw))"

definition fw_deliver :: "log_host \<Rightarrow> string \<Rightarrow> forwarder \<Rightarrow> bool \<times> forwarder" where
  "fw_deliver h bytes fw =
     (case fw_connection fw of
        None \<Rightarrow> (False, fw)
      | Some wire \<Rightarrow>
          let answer = lh_write h (fw_calls fw) bytes;
              arrived = (case answer of None \<Rightarrow> bytes | Some n \<Rightarrow> take (min n (length bytes - 1)) bytes);
              written = fw\<lparr>fw_calls := fw_calls fw + 1, fw_wires := (fw_wires fw)[wire := fw_wires fw ! wire @ arrived]\<rparr>
          in if answer = None then (True, written) else (False, written\<lparr>fw_connection := None\<rparr>))"

definition declare_gap :: "log_host \<Rightarrow> forwarder \<Rightarrow> bool \<times> forwarder" where
  "declare_gap h fw =
     (if fw_dropped_bytes fw = 0 then (True, fw)
      else let (delivered, fw) = fw_deliver h (encode_gap (fw_dropped_bytes fw)) fw
           in if \<not> delivered then (False, fw) else (True, fw\<lparr>fw_dropped_bytes := 0\<rparr>))"

definition redial :: "log_host \<Rightarrow> forwarder \<Rightarrow> bool \<times> forwarder" where
  "redial h fw =
     (let dialed = (if lh_dial h (fw_calls fw)
            then fw\<lparr>fw_calls := fw_calls fw + 1, fw_connection := Some (length (fw_wires fw)), fw_wires := fw_wires fw @ [[]]\<rparr>
            else fw\<lparr>fw_calls := fw_calls fw + 1, fw_connection := None\<rparr>);
          (declared, fw) = (if fw_connection dialed = None then (False, dialed) else declare_gap h dialed);
          (now, fw) = fw_now h fw
      in if declared then (True, fw\<lparr>fw_backoff := RETRY_FLOOR, fw_retry_after := now + RETRY_FLOOR\<rparr>)
         else (False, fw\<lparr>fw_retry_after := now + fw_backoff fw, fw_backoff := min (fw_backoff fw * 2) RETRY_CEILING\<rparr>))"

text \<open>A fresh connection, and on it the frame.\<close>

definition redial_and_deliver :: "log_host \<Rightarrow> string \<Rightarrow> forwarder \<Rightarrow> bool \<times> forwarder" where
  "redial_and_deliver h bytes fw =
     (let (fresh, fw) = redial h fw in if fresh then fw_deliver h bytes fw else (False, fw))"

definition fw_send :: "log_host \<Rightarrow> string \<Rightarrow> forwarder \<Rightarrow> forwarder" where
  "fw_send h bytes fw =
     (let (delivered, fw) =
            (if fw_connection fw \<noteq> None
             then let (delivered, fw) = fw_deliver h bytes fw
                  in if delivered then (True, fw) else redial_and_deliver h bytes fw
             else let (now, fw) = fw_now h fw
                  in if now \<ge> fw_retry_after fw then redial_and_deliver h bytes fw else (False, fw))
      in if delivered then fw
         else fw\<lparr>fw_dropped_bytes := (fw_dropped_bytes fw + (length bytes - FRAME_HEADER_BYTES)) mod 2 ^ 64\<rparr>)"

definition fw_write :: "log_host \<Rightarrow> tenant_log_stream \<Rightarrow> string \<Rightarrow> forwarder \<Rightarrow> forwarder" where
  "fw_write h stream bytes fw = fw_send h (encode_frame (kind_of stream) bytes) fw"

definition fw_restarted :: "log_host \<Rightarrow> tenant_restart \<Rightarrow> forwarder \<Rightarrow> forwarder" where
  "fw_restarted h restart fw = fw_send h (encode_restart restart) fw"

definition reconnect_if_due :: "log_host \<Rightarrow> forwarder \<Rightarrow> forwarder" where
  "reconnect_if_due h fw =
     (let (due, fw) = reconnect_due_in h fw in if due = Some 0 then snd (redial h fw) else fw)"

section \<open>What the host reads\<close>

text \<open>Everything the rest of the guest asks of a forwarder.\<close>

datatype forwarder_call = CallWrite tenant_log_stream string | CallRestarted tenant_restart | CallReconnect | CallDueIn

fun forwarder_step :: "log_host \<Rightarrow> forwarder_call \<Rightarrow> forwarder \<Rightarrow> forwarder" where
  "forwarder_step h (CallWrite stream bytes) fw = fw_write h stream bytes fw"
| "forwarder_step h (CallRestarted restart) fw = fw_restarted h restart fw"
| "forwarder_step h CallReconnect fw = reconnect_if_due h fw"
| "forwarder_step h CallDueIn fw = snd (reconnect_due_in h fw)"

fun sent_frames :: "forwarder_call list \<Rightarrow> guest_log_frame list" where
  "sent_frames [] = []"
| "sent_frames (CallWrite stream bytes # calls) = LogData stream bytes # sent_frames calls"
| "sent_frames (CallRestarted restart # calls) = LogRestart restart # sent_frames calls"
| "sent_frames (CallReconnect # calls) = sent_frames calls"
| "sent_frames (CallDueIn # calls) = sent_frames calls"

definition read_whole :: "string \<Rightarrow> guest_log_frame list" where
  "read_whole bytes = (case decode_frames [] bytes of Inr (frames, kept) \<Rightarrow> frames | Inl e \<Rightarrow> [])"

definition heard :: "forwarder \<Rightarrow> guest_log_frame list" where
  "heard fw = concat (map read_whole (fw_wires fw))"

definition frame_bytes :: "guest_log_frame \<Rightarrow> nat" where
  "frame_bytes f = length (encode_log_frame f) - FRAME_HEADER_BYTES"

text \<open>A sequence of frames as output and losses: every frame with the bytes lost before it, and those lost at the end.\<close>

fun with_losses :: "nat \<Rightarrow> guest_log_frame list \<Rightarrow> (nat \<times> guest_log_frame) list \<times> nat" where
  "with_losses lost [] = ([], lost)"
| "with_losses lost (LogGap n # frames) = with_losses (lost + n) frames"
| "with_losses lost (f # frames) = (let (rest, left) = with_losses 0 frames in ((lost, f) # rest, left))"

definition arriving :: "bool list \<Rightarrow> guest_log_frame list \<Rightarrow> guest_log_frame list" where
  "arriving oks frames = map2 (\<lambda>ok f. if ok then f else LogGap (frame_bytes f)) oks frames"

lemma with_losses_append:
  "with_losses lost (xs @ ys) =
     (let (a, mid) = with_losses lost xs; (b, left) = with_losses mid ys in (a @ b, left))"
  by (induction lost xs rule: with_losses.induct) (auto simp: Let_def case_prod_unfold)

lemma arriving_append: "length oks = length xs \<Longrightarrow> arriving (oks @ others) (xs @ ys) = arriving oks xs @ arriving others ys"
  by (simp add: arriving_def)

lemma with_losses_cong: "with_losses 0 xs = with_losses 0 ys \<Longrightarrow> with_losses 0 (xs @ zs) = with_losses 0 (ys @ zs)"
  by (simp add: with_losses_append)

text \<open>What the host has been told so far, with the gap that is still to be declared.\<close>

definition told :: "forwarder \<Rightarrow> (nat \<times> guest_log_frame) list \<times> nat" where
  "told fw = with_losses 0 (heard fw @ [LogGap (fw_dropped_bytes fw)])"

section \<open>The bytes on the wires\<close>

lemma decode_nothing: "decode_loop bytes = Inr ([], kept) \<Longrightarrow> kept = bytes"
  by (simp add: decode_loop.simps [of bytes] Let_def split: if_splits sum.splits prod.splits)

lemma decode_whole: "log_frame_ok f \<Longrightarrow> decode_loop (encode_log_frame f) = Inr ([f], [])"
  using log_frames_survive_any_cut [of "[f]" "[encode_log_frame f]"]
  by (auto simp: decode_frames_def split: sum.splits prod.splits)

lemma decode_broken_off:
  assumes "log_frame_ok f" "encode_log_frame f = p @ q" "q \<noteq> []"
  shows "decode_loop p = Inr ([], p)"
proof (cases "decode_loop p")
  case (Inl e)
  with decode_loop_append [of p q] decode_whole [OF assms(1)] assms(2) show ?thesis by simp
next
  case (Inr r)
  obtain frames kept where r: "r = (frames, kept)" by (cases r)
  from decode_loop_append [of p q] decode_whole [OF assms(1)] assms(2) Inr r obtain others where
    rest: "decode_loop (kept @ q) = Inr (others, [])" "frames @ others = [f]"
    by (auto split: sum.splits prod.splits)
  have "frames = []"
  proof (rule ccontr)
    assume "frames \<noteq> []"
    with rest(2) have "others = []" by (cases frames) auto
    with rest(1) decode_nothing have "kept @ q = []" by fastforce
    with assms(3) show False by simp
  qed
  with Inr r decode_nothing show ?thesis by auto
qed

lemma encode_log_frame_length: "length (encode_log_frame f) = FRAME_HEADER_BYTES + frame_bytes f"
proof -
  have "FRAME_HEADER_BYTES \<le> length (encode_log_frame f)"
    by (cases f) (simp_all add: encode_gap_def encode_restart_def encode_frame_def FRAME_MAGIC_def FRAME_HEADER_BYTES_def
        Let_def case_prod_unfold)
  then show ?thesis by (simp add: frame_bytes_def)
qed

definition readable :: "string \<Rightarrow> bool" where
  "readable bytes \<longleftrightarrow> (\<exists>frames kept. decode_loop bytes = Inr (frames, kept))"

definition wires_ok :: "forwarder \<Rightarrow> bool" where
  "wires_ok fw \<longleftrightarrow> list_all readable (fw_wires fw) \<and>
     (\<forall>wire. fw_connection fw = Some wire \<longrightarrow>
        Suc wire = length (fw_wires fw) \<and> (\<exists>frames. decode_loop (fw_wires fw ! wire) = Inr (frames, [])))"

lemma fw_deliver_None: "fw_connection fw = None \<Longrightarrow> fw_deliver h bytes fw = (False, fw)"
  by (simp add: fw_deliver_def)

lemma fw_deliver_frame:
  assumes "wires_ok fw" "fw_connection fw \<noteq> None" "log_frame_ok f" "fw_deliver h (encode_log_frame f) fw = (delivered, fw')"
  shows "wires_ok fw' \<and> fw_dropped_bytes fw' = fw_dropped_bytes fw \<and> (fw_connection fw' \<noteq> None \<longleftrightarrow> delivered) \<and>
    heard fw' = heard fw @ (if delivered then [f] else [])"
proof -
  from assms(2) obtain k where k: "fw_connection fw = Some k" by auto
  with assms(1) obtain frames where last_wire: "Suc k = length (fw_wires fw)" "decode_loop (fw_wires fw ! k) = Inr (frames, [])"
    by (auto simp: wires_ok_def)
  then obtain wires wire where wires: "fw_wires fw = wires @ [wire]" by (metis length_Suc_conv_rev)
  with k last_wire have conn: "fw_connection fw = Some (length wires)" and wire: "decode_loop wire = Inr (frames, [])" by simp_all
  let ?bytes = "encode_log_frame f"
  have ok: "list_all readable wires" using assms(1) wires by (simp add: wires_ok_def)
  show ?thesis
  proof (cases "lh_write h (fw_calls fw) ?bytes")
    case None
    have "decode_loop (wire @ ?bytes) = Inr (frames @ [f], [])"
      using decode_loop_append [of wire ?bytes] by (simp add: wire decode_whole [OF assms(3)])
    with None conn wires wire ok assms(4) show ?thesis
      by (auto simp: fw_deliver_def wires_ok_def heard_def read_whole_def decode_frames_def readable_def list_update_append)
  next
    case (Some n)
    let ?k = "min n (length ?bytes - 1)"
    have "?k < length ?bytes" using encode_log_frame_length [of f] by (simp add: FRAME_HEADER_BYTES_def)
    then have "decode_loop (take ?k ?bytes) = Inr ([], take ?k ?bytes)"
      by (intro decode_broken_off [OF assms(3), of _ "drop ?k ?bytes"]) (simp_all only: append_take_drop_id drop_eq_Nil not_le)
    then have "decode_loop (wire @ take ?k ?bytes) = Inr (frames, take ?k ?bytes)"
      using decode_loop_append [of wire "take ?k ?bytes"] by (simp add: wire)
    with Some conn wires wire ok assms(4) show ?thesis
      by (auto simp: fw_deliver_def wires_ok_def heard_def read_whole_def decode_frames_def readable_def list_update_append)
  qed
qed

section \<open>Nothing is lost unnoticed\<close>

text \<open>A gap is pending only while no connection is held.\<close>

definition forwarder_inv :: "forwarder \<Rightarrow> bool" where
  "forwarder_inv fw \<longleftrightarrow> wires_ok fw \<and> (fw_connection fw \<noteq> None \<longrightarrow> fw_dropped_bytes fw = 0)"

lemma fw_now_simps [simp]:
  "heard (snd (fw_now h fw)) = heard fw" "fw_dropped_bytes (snd (fw_now h fw)) = fw_dropped_bytes fw"
  "fw_connection (snd (fw_now h fw)) = fw_connection fw" "wires_ok (snd (fw_now h fw)) = wires_ok fw"
  by (simp_all add: fw_now_def heard_def wires_ok_def)

lemma told_gap_declared: "heard fw' = heard fw @ [LogGap (fw_dropped_bytes fw)] \<Longrightarrow> fw_dropped_bytes fw' = 0 \<Longrightarrow> told fw' = told fw"
  by (simp add: told_def with_losses_append Let_def case_prod_unfold)

lemma declare_gap_told:
  assumes "wires_ok fw" "fw_connection fw \<noteq> None" "fw_dropped_bytes fw < 2 ^ 64" "declare_gap h fw = (declared, fw')"
  shows "wires_ok fw' \<and> (declared \<longleftrightarrow> fw_connection fw' \<noteq> None) \<and> (declared \<longrightarrow> fw_dropped_bytes fw' = 0) \<and>
    told fw' = told fw \<and> fw_dropped_bytes fw' \<le> fw_dropped_bytes fw"
proof (cases "fw_dropped_bytes fw = 0")
  case True
  with assms show ?thesis by (auto simp: declare_gap_def)
next
  case False
  obtain delivered mid where mid: "fw_deliver h (encode_log_frame (LogGap (fw_dropped_bytes fw))) fw = (delivered, mid)" by force
  note step = fw_deliver_frame [OF assms(1,2) _ mid]
  have fw': "declared = delivered" "fw' = (if delivered then mid\<lparr>fw_dropped_bytes := 0\<rparr> else mid)"
    using assms(4) False mid by (auto simp: declare_gap_def split: if_splits)
  have same: "heard (mid\<lparr>fw_dropped_bytes := 0\<rparr>) = heard mid" "wires_ok (mid\<lparr>fw_dropped_bytes := 0\<rparr>) = wires_ok mid"
    by (simp_all add: heard_def wires_ok_def)
  show ?thesis
    using step assms(3) fw' same told_gap_declared [of fw' fw] by (auto simp: told_def)
qed

lemma redial_told:
  assumes "wires_ok fw" "fw_dropped_bytes fw < 2 ^ 64" "redial h fw = (fresh, fw')"
  shows "wires_ok fw' \<and> (fresh \<longleftrightarrow> fw_connection fw' \<noteq> None) \<and> (fresh \<longrightarrow> fw_dropped_bytes fw' = 0) \<and>
    told fw' = told fw \<and> fw_dropped_bytes fw' \<le> fw_dropped_bytes fw"
proof (cases "lh_dial h (fw_calls fw)")
  case False
  with assms show ?thesis
    by (auto simp: redial_def fw_now_def wires_ok_def told_def heard_def)
next
  case True
  let ?dialed = "fw\<lparr>fw_calls := fw_calls fw + 1, fw_connection := Some (length (fw_wires fw)), fw_wires := fw_wires fw @ [[]]\<rparr>"
  have dialed: "wires_ok ?dialed" "told ?dialed = told fw"
    using assms(1) by (auto simp: wires_ok_def readable_def told_def heard_def read_whole_def decode_frames_def)
  obtain declared mid where mid: "declare_gap h ?dialed = (declared, mid)" by force
  have "fresh = declared" "told fw' = told mid" "wires_ok fw' = wires_ok mid" "fw_connection fw' = fw_connection mid"
    "fw_dropped_bytes fw' = fw_dropped_bytes mid"
    using assms(3) True mid
    by (auto simp: redial_def fw_now_def told_def heard_def wires_ok_def split: if_splits)
  with declare_gap_told [OF dialed(1) _ _ mid] dialed(2) assms(2) show ?thesis by simp
qed

text \<open>One more frame, that arrived or was lost.\<close>

definition told_more :: "forwarder \<Rightarrow> guest_log_frame list \<Rightarrow> (nat \<times> guest_log_frame) list \<times> nat" where
  "told_more fw frames = with_losses 0 ((heard fw @ [LogGap (fw_dropped_bytes fw)]) @ frames)"

lemma told_more_cong: "told fw = told fw' \<Longrightarrow> told_more fw frames = told_more fw' frames"
  unfolding told_def told_more_def by (rule with_losses_cong)

lemma told_more_append: "told fw' = told_more fw xs \<Longrightarrow> told_more fw' ys = told_more fw (xs @ ys)"
  unfolding told_def told_more_def append_assoc [symmetric] by (rule with_losses_cong)

lemma told_arrived:
  assumes "fw_dropped_bytes fw = 0" "fw_dropped_bytes fw' = 0" "heard fw' = heard fw @ [f]"
  shows "told fw' = told_more fw [f]"
  using assms by (cases f) (simp_all add: told_def told_more_def with_losses_append Let_def case_prod_unfold)

lemma redial_and_deliver_told:
  assumes "wires_ok fw" "fw_dropped_bytes fw < 2 ^ 64" "log_frame_ok f"
    and "redial_and_deliver h (encode_log_frame f) fw = (delivered, fw')"
  shows "wires_ok fw' \<and> (delivered \<longleftrightarrow> fw_connection fw' \<noteq> None) \<and> (delivered \<longrightarrow> fw_dropped_bytes fw' = 0) \<and>
    told fw' = (if delivered then told_more fw [f] else told fw) \<and> fw_dropped_bytes fw' \<le> fw_dropped_bytes fw"
proof -
  obtain fresh mid where mid: "redial h fw = (fresh, mid)" by force
  note dialled = redial_told [OF assms(1,2) mid]
  show ?thesis
  proof (cases fresh)
    case False
    with dialled mid assms(4) show ?thesis by (auto simp: redial_and_deliver_def)
  next
    case True
    with mid assms(4) have "fw_deliver h (encode_log_frame f) mid = (delivered, fw')" by (simp add: redial_and_deliver_def)
    from fw_deliver_frame [OF _ _ assms(3) this] dialled True have sent: "wires_ok fw'" "fw_dropped_bytes fw' = 0"
      "fw_dropped_bytes mid = 0" "fw_connection fw' \<noteq> None \<longleftrightarrow> delivered" "heard fw' = heard mid @ (if delivered then [f] else [])"
      by auto
    then have "told fw' = (if delivered then told_more mid [f] else told mid)"
      using told_arrived [of mid fw' f] by (auto simp: told_def)
    with sent dialled told_more_cong [of mid fw "[f]"] show ?thesis by simp
  qed
qed

lemma fw_send_told:
  assumes "forwarder_inv fw" "log_frame_ok f" "fw_dropped_bytes fw + frame_bytes f < 2 ^ 64"
  shows "forwarder_inv (fw_send h (encode_log_frame f) fw) \<and>
    (\<exists>ok. told (fw_send h (encode_log_frame f) fw) = told_more fw (arriving [ok] [f])) \<and>
    fw_dropped_bytes (fw_send h (encode_log_frame f) fw) \<le> fw_dropped_bytes fw + frame_bytes f"
proof -
  let ?bytes = "encode_log_frame f"
  define tried where "tried = (if fw_connection fw \<noteq> None
     then let (delivered, fw) = fw_deliver h ?bytes fw in if delivered then (True, fw) else redial_and_deliver h ?bytes fw
     else let (now, fw) = fw_now h fw in if now \<ge> fw_retry_after fw then redial_and_deliver h ?bytes fw else (False, fw))"
  obtain delivered mid where mid: "tried = (delivered, mid)" by force
  have ok: "wires_ok fw" and room: "fw_dropped_bytes fw < 2 ^ 64" using assms by (simp_all add: forwarder_inv_def)
  have step: "wires_ok mid \<and> (delivered \<longleftrightarrow> fw_connection mid \<noteq> None) \<and> (delivered \<longrightarrow> fw_dropped_bytes mid = 0) \<and>
    told mid = (if delivered then told_more fw [f] else told fw) \<and> fw_dropped_bytes mid \<le> fw_dropped_bytes fw"
  proof (cases "fw_connection fw")
    case None
    let ?asked = "snd (fw_now h fw)"
    have "told ?asked = told fw" by (simp add: told_def)
    note told_more_cong [OF this, of "[f]"] this
    moreover have "wires_ok ?asked" "fw_dropped_bytes ?asked < 2 ^ 64" using ok room by simp_all
    note redial_and_deliver_told [OF this assms(2), of h delivered mid]
    ultimately show ?thesis
      using mid None ok by (auto simp: tried_def case_prod_unfold Let_def split: if_splits)
  next
    case (Some wire)
    obtain first next' where sent: "fw_deliver h ?bytes fw = (first, next')" by force
    have none: "fw_dropped_bytes fw = 0" using assms(1) Some by (simp add: forwarder_inv_def)
    from fw_deliver_frame [OF ok _ assms(2) sent] Some have first: "wires_ok next'" "fw_dropped_bytes next' = 0"
      "fw_connection next' \<noteq> None \<longleftrightarrow> first" "heard next' = heard fw @ (if first then [f] else [])"
      by (auto simp: none)
    show ?thesis
    proof (cases first)
      case True
      with mid sent Some first told_arrived [OF none first(2)] none show ?thesis by (auto simp: tried_def)
    next
      case False
      then have "told next' = told fw" using first none by (simp add: told_def)
      with False mid sent Some redial_and_deliver_told [OF first(1) _ assms(2), of h delivered mid] first
        told_more_cong [OF this, of "[f]"] none show ?thesis by (auto simp: tried_def split: if_splits)
    qed
  qed
  have send: "fw_send h ?bytes fw = (if delivered then mid
      else mid\<lparr>fw_dropped_bytes := (fw_dropped_bytes mid + (length ?bytes - FRAME_HEADER_BYTES)) mod 2 ^ 64\<rparr>)"
    unfolding fw_send_def tried_def [symmetric] mid by simp
  show ?thesis
  proof (cases delivered)
    case True
    with step send assms show ?thesis
      by (auto simp: forwarder_inv_def arriving_def intro!: exI [of _ True])
  next
    case False
    let ?lost = "mid\<lparr>fw_dropped_bytes := fw_dropped_bytes mid + frame_bytes f\<rparr>"
    have after: "fw_send h ?bytes fw = ?lost"
      using False send step assms(3) by (simp add: encode_log_frame_length)
    have "told ?lost = told_more mid [LogGap (frame_bytes f)]"
      by (simp add: told_def told_more_def heard_def with_losses_append Let_def case_prod_unfold)
    with step False have "told ?lost = told_more fw (arriving [False] [f])"
      using told_more_cong [of mid fw "[LogGap (frame_bytes f)]"] by (simp add: arriving_def)
    moreover have "forwarder_inv ?lost" using step False by (simp add: forwarder_inv_def wires_ok_def)
    ultimately show ?thesis unfolding after using step by auto
  qed
qed

definition forwarder_run :: "log_host \<Rightarrow> forwarder_call list \<Rightarrow> forwarder \<Rightarrow> forwarder" where
  "forwarder_run h calls = fold (forwarder_step h) calls"

lemma reconnect_if_due_told:
  assumes "forwarder_inv fw" "fw_dropped_bytes fw < 2 ^ 64"
  shows "forwarder_inv (reconnect_if_due h fw) \<and> told (reconnect_if_due h fw) = told fw \<and>
    fw_dropped_bytes (reconnect_if_due h fw) \<le> fw_dropped_bytes fw"
proof (cases "fw_connection fw \<noteq> None \<or> fw_dropped_bytes fw = 0")
  case True
  with assms show ?thesis by (simp add: reconnect_if_due_def reconnect_due_in_def)
next
  case False
  let ?asked = "snd (fw_now h fw)"
  have asked: "wires_ok ?asked" "fw_dropped_bytes ?asked < 2 ^ 64" "told ?asked = told fw"
    using assms by (simp_all add: forwarder_inv_def told_def)
  obtain fresh mid where mid: "redial h ?asked = (fresh, mid)" by force
  have "reconnect_if_due h fw = (if fw_retry_after ?asked - fst (fw_now h fw) = 0 then mid else ?asked)"
    using False mid by (simp add: reconnect_if_due_def reconnect_due_in_def case_prod_unfold Let_def)
  with redial_told [OF asked(1,2) mid] asked assms(1) False show ?thesis by (auto simp: forwarder_inv_def)
qed

lemma reconnect_due_in_told:
  "forwarder_inv (snd (reconnect_due_in h fw)) = forwarder_inv fw" "told (snd (reconnect_due_in h fw)) = told fw"
  "fw_dropped_bytes (snd (reconnect_due_in h fw)) = fw_dropped_bytes fw"
  by (simp_all add: reconnect_due_in_def case_prod_unfold Let_def forwarder_inv_def told_def)

lemma forwarder_run_told:
  assumes "forwarder_inv fw" "list_all log_frame_ok (sent_frames calls)"
    and "fw_dropped_bytes fw + sum_list (map frame_bytes (sent_frames calls)) < 2 ^ 64"
  shows "\<exists>oks. length oks = length (sent_frames calls) \<and> forwarder_inv (forwarder_run h calls fw) \<and>
    told (forwarder_run h calls fw) = told_more fw (arriving oks (sent_frames calls))"
  using assms
proof (induction calls arbitrary: fw)
  case Nil
  then show ?case by (auto simp: forwarder_run_def told_def told_more_def arriving_def)
next
  case (Cons call calls)
  let ?after = "forwarder_step h call fw"
  consider (frame) f where "sent_frames (call # calls) = f # sent_frames calls" "?after = fw_send h (encode_log_frame f) fw"
    | (quiet) "sent_frames (call # calls) = sent_frames calls" "?after = reconnect_if_due h fw \<or> ?after = snd (reconnect_due_in h fw)"
    by (cases call) (auto simp: fw_write_def fw_restarted_def)
  then show ?case
  proof cases
    case frame
    with fw_send_told [of fw f h] Cons.prems obtain ok where step: "forwarder_inv ?after"
      "told ?after = told_more fw (arriving [ok] [f])" "fw_dropped_bytes ?after \<le> fw_dropped_bytes fw + frame_bytes f"
      by auto
    with Cons.IH [of ?after] Cons.prems frame obtain oks where "length oks = length (sent_frames calls)"
      "forwarder_inv (forwarder_run h calls ?after)"
      "told (forwarder_run h calls ?after) = told_more ?after (arriving oks (sent_frames calls))"
      by auto
    with told_more_append [OF step(2)] arriving_append [of "[ok]" "[f]" oks "sent_frames calls"] frame show ?thesis
      by (intro exI [of _ "ok # oks"]) (simp add: forwarder_run_def)
  next
    case quiet
    have step: "forwarder_inv ?after" "told ?after = told fw" "fw_dropped_bytes ?after \<le> fw_dropped_bytes fw"
      using quiet(2) reconnect_if_due_told [of fw h] Cons.prems by (auto simp: reconnect_due_in_told)
    with Cons.IH [of ?after] Cons.prems quiet(1) obtain oks where "length oks = length (sent_frames calls)"
      "forwarder_inv (forwarder_run h calls ?after)"
      "told (forwarder_run h calls ?after) = told_more ?after (arriving oks (sent_frames calls))"
      by auto
    with told_more_cong [of ?after fw] step quiet(1) show ?thesis
      by (intro exI [of _ oks]) (simp add: forwarder_run_def)
  qed
qed

lemma dialing_inv: "forwarder_inv (dialing h)"
  by (simp add: forwarder_inv_def wires_ok_def dialing_def)

lemma forwarder_losses:
  assumes "list_all log_frame_ok (sent_frames calls)" "sum_list (map frame_bytes (sent_frames calls)) < 2 ^ 64"
  shows "list_all (\<lambda>bytes. \<exists>frames kept. decode_frames [] bytes = Inr (frames, kept)) (fw_wires (forwarder_run h calls (dialing h))) \<and>
    (\<exists>oks. length oks = length (sent_frames calls) \<and>
       with_losses 0 (heard (forwarder_run h calls (dialing h)) @ [LogGap (fw_dropped_bytes (forwarder_run h calls (dialing h)))]) =
       with_losses 0 (arriving oks (sent_frames calls)))"
proof -
  have "heard (dialing h) = []" "fw_dropped_bytes (dialing h) = 0" by (simp_all add: heard_def dialing_def)
  with forwarder_run_told [OF dialing_inv assms(1), of h h] assms(2) obtain oks where
    "length oks = length (sent_frames calls)" "forwarder_inv (forwarder_run h calls (dialing h))"
    "told (forwarder_run h calls (dialing h)) = with_losses 0 (arriving oks (sent_frames calls))"
    by (auto simp: told_more_def)
  then show ?thesis
    by (auto simp: told_def forwarder_inv_def wires_ok_def readable_def [abs_def] decode_frames_def)
qed

text \<open>
  (C25) The output of a guest is never lost unnoticed. Whatever a tenant prints and however often it
  is restarted, whichever dials the host takes and wherever a write breaks off, the host can read
  every connection, and what it reads on all of them, with the gap still to be declared, is what was
  sent in its order, each frame that did not arrive replaced by a gap of just its bytes: every frame
  that did arrive has in front of it exactly the bytes that were lost there.
\<close>

theorem losses_are_declared:
  assumes "list_all log_frame_ok (sent_frames calls)" "sum_list (map frame_bytes (sent_frames calls)) < 2 ^ 64"
  shows "list_all (\<lambda>bytes. \<exists>frames kept. decode_frames [] bytes = Inr (frames, kept)) (fw_wires (forwarder_run h calls (dialing h))) \<and>
    (\<exists>oks. length oks = length (sent_frames calls) \<and>
       with_losses 0 (heard (forwarder_run h calls (dialing h)) @ [LogGap (fw_dropped_bytes (forwarder_run h calls (dialing h)))]) =
       with_losses 0 (arriving oks (sent_frames calls)))"
  using assms by (rule forwarder_losses)

text \<open>A host that goes away while the second line is written and is back for the third.\<close>

definition sample_log_host :: log_host where
  "sample_log_host = \<lparr>lh_now = (\<lambda>n. n * 10 ^ 9), lh_dial = (\<lambda>n. n \<noteq> 6),
     lh_write = (\<lambda>n bytes. if n = 5 then Some 3 else None)\<rparr>"

definition sample_calls :: "forwarder_call list" where
  "sample_calls = [CallWrite Stdout ''a'', CallWrite Stdout ''bc'', CallReconnect, CallWrite Stderr ''d'']"

theorem losses_are_declared_witness:
  "sent_frames sample_calls = [LogData Stdout ''a'', LogData Stdout ''bc'', LogData Stderr ''d''] \<and>
   list_all (\<lambda>bytes. \<exists>frames kept. decode_frames [] bytes = Inr (frames, kept))
     (fw_wires (forwarder_run sample_log_host sample_calls (dialing sample_log_host))) \<and>
   length (fw_wires (forwarder_run sample_log_host sample_calls (dialing sample_log_host))) = 2"
proof -
  have "list_all log_frame_ok (sent_frames sample_calls)" "sum_list (map frame_bytes (sent_frames sample_calls)) < 2 ^ 64"
    by (simp_all add: sample_calls_def MAX_FRAME_PAYLOAD_BYTES_def frame_bytes_def encode_frame_def FRAME_MAGIC_def
        FRAME_HEADER_BYTES_def)
  note losses_are_declared [OF this, of sample_log_host]
  moreover have "length (fw_wires (forwarder_run sample_log_host sample_calls (dialing sample_log_host))) = 2"
    by (simp add: forwarder_run_def sample_calls_def sample_log_host_def dialing_def fw_write_def fw_send_def fw_now_def
        redial_and_deliver_def redial_def declare_gap_def fw_deliver_def reconnect_if_due_def reconnect_due_in_def
        Let_def encode_frame_def FRAME_MAGIC_def FRAME_HEADER_BYTES_def RETRY_FLOOR_def RETRY_CEILING_def)
  ultimately show ?thesis by (simp add: sample_calls_def)
qed

end
