(* ===== verification/Supervisor.thy ===== *)
theory Supervisor
  imports Forwarder InstanceEnv Backoff
begin

text \<open>
  The supervisor in a guest (\<open>init/src/supervise.rs\<close>, \<open>init/src/ceiling.rs\<close> and
  \<open>init/src/guest/supervisor.rs\<close>): the budget of restarts, the watch on the tenant's memory, the loop
  that watches one life of a tenant and the loop over its lives. Processes, signals, clocks, cgroup
  files and pipes are inputs, one record per turn of a loop. Shown: when a tenant is judged to be
  thrashing; that a tenant that does not stay up is restarted exactly as often as its document says,
  and the guest then ends; and that every restart it announces is one the host can read.
\<close>

section \<open>The budget of restarts\<close>

definition SHUTDOWN_GRACE_MS :: nat where
  "SHUTDOWN_GRACE_MS = 10000"

datatype supervise_outcome = ShutdownRequested | RestartBudgetExhausted | SpawnFailedOutcome

record budget =
  bu_spent :: nat

text \<open>\<open>as u32\<close> cuts a fraction off and saturates.\<close>

definition f64_as_u32 :: "real \<Rightarrow> nat" where
  "f64_as_u32 x = min (nat \<lfloor>x\<rfloor>) (2 ^ 32 - 1)"

fun backoff_loop :: "f64_unit \<Rightarrow> instance_config \<Rightarrow> nat \<Rightarrow> real \<Rightarrow> nat" where
  "backoff_loop fpu config 0 delay = f64_as_u32 (min delay (f64_of_u64 fpu (cg_max_backoff_ms config)))"
| "backoff_loop fpu config (Suc n) delay =
     (let delay = f64_mul fpu delay (cg_backoff_factor config)
      in if delay \<ge> f64_of_u64 fpu (cg_max_backoff_ms config) then cg_max_backoff_ms config
         else backoff_loop fpu config n delay)"

definition guest_backoff_ms :: "f64_unit \<Rightarrow> instance_config \<Rightarrow> nat \<Rightarrow> nat" where
  "guest_backoff_ms fpu config restart_count =
     backoff_loop fpu config restart_count (f64_of_u64 fpu (cg_initial_backoff_ms config))"

definition budget_resets :: "instance_config \<Rightarrow> nat \<Rightarrow> bool" where
  "budget_resets config uptime_ms \<longleftrightarrow> uptime_ms \<ge> cg_reset_after_ms config"

definition restart_reason :: "tenant_exit \<Rightarrow> string \<Rightarrow> nat \<Rightarrow> nat \<Rightarrow> nat \<Rightarrow> string" where
  "restart_reason exit because spent max_restarts backoff_ms =
     ''the tenant exited ('' @ show_int (tenant_exit_status exit) @ '')'' @ because @ ''; restart '' @ show_nat spent @
     '' of '' @ show_nat max_restarts @ '' in '' @ show_nat backoff_ms @ ''ms''"

definition budget_exited ::
    "f64_unit \<Rightarrow> instance_config \<Rightarrow> nat \<Rightarrow> tenant_exit \<Rightarrow> string \<Rightarrow> budget \<Rightarrow> tenant_restart option \<times> budget" where
  "budget_exited fpu config uptime_ms exit because budget =
     (let budget = (if budget_resets config uptime_ms then budget\<lparr>bu_spent := 0\<rparr> else budget)
      in if bu_spent budget \<ge> cg_max_restarts config then (None, budget)
         else let backoff_ms = guest_backoff_ms fpu config (bu_spent budget);
                  budget = budget\<lparr>bu_spent := bu_spent budget + 1\<rparr>
              in (Some \<lparr>tr_attempt = bu_spent budget, tr_budget = cg_max_restarts config, tr_exit = exit,
                    tr_reason = state_message_new
                      (restart_reason exit because (bu_spent budget) (cg_max_restarts config) backoff_ms),
                    tr_backoff_ms = backoff_ms\<rparr>, budget))"

section \<open>The memory of the tenant\<close>

definition HEADROOM_BYTES :: nat where
  "HEADROOM_BYTES = 32 * 1024 * 1024"

definition SMALLEST_CEILING_BYTES :: nat where
  "SMALLEST_CEILING_BYTES = 64 * 1024 * 1024"

definition AT_THE_CEILING_PERCENT :: nat where
  "AT_THE_CEILING_PERCENT = 90"

definition THRASHING_FAULTS_PER_SECOND :: nat where
  "THRASHING_FAULTS_PER_SECOND = 1000"

definition STRIKES_BEFORE_A_KILL :: nat where
  "STRIKES_BEFORE_A_KILL = 3"

definition SAMPLE_INTERVAL :: nat where
  "SAMPLE_INTERVAL = 10 ^ 9"

definition ceiling_for :: "nat \<Rightarrow> nat" where
  "ceiling_for guest_total_bytes =
     (let under_headroom = guest_total_bytes - HEADROOM_BYTES
      in if under_headroom < SMALLEST_CEILING_BYTES then guest_total_bytes else under_headroom)"

record reading =
  rd_current_bytes :: nat
  rd_major_faults :: nat
  rd_oom_kills :: nat

datatype memory_verdict = MemoryFine | Thrashing nat

record watch =
  wa_limit_bytes :: nat
  wa_last :: "(reading \<times> nat) option"
  wa_strikes :: nat

definition new_watch :: "nat \<Rightarrow> watch" where
  "new_watch limit_bytes = \<lparr>wa_limit_bytes = limit_bytes, wa_last = None, wa_strikes = 0\<rparr>"

text \<open>
  What is used of floating point beside the delays: \<open>Duration::as_secs_f64\<close> of nanoseconds, which is
  positive for a positive duration, and the quotient cast to an integer.
\<close>

record f64_rates = f64_unit +
  f64_secs :: "nat \<Rightarrow> real"
  f64_quotient :: "real \<Rightarrow> real \<Rightarrow> real"

definition fault_rate :: "f64_rates \<Rightarrow> nat \<Rightarrow> nat \<Rightarrow> nat" where
  "fault_rate fpu faults elapsed = f64_as_u64 \<lfloor>f64_quotient fpu (f64_of_u64 fpu faults) (f64_secs fpu elapsed)\<rfloor>"

definition at_the_ceiling :: "nat \<Rightarrow> reading \<Rightarrow> bool" where
  "at_the_ceiling limit_bytes reading \<longleftrightarrow>
     (rd_current_bytes reading * 100) mod 2 ^ 64 \<ge> (limit_bytes * AT_THE_CEILING_PERCENT) mod 2 ^ 64"

definition watch_observe :: "f64_rates \<Rightarrow> reading \<Rightarrow> nat \<Rightarrow> watch \<Rightarrow> memory_verdict \<times> watch" where
  "watch_observe fpu reading now watch =
     (let held = watch\<lparr>wa_last := Some (reading, now)\<rparr>
      in case wa_last watch of
           None \<Rightarrow> (MemoryFine, held)
         | Some (before, since) \<Rightarrow>
             let elapsed = f64_secs fpu (now - since)
             in if elapsed \<le> 0 then (MemoryFine, held)
                else let faults_per_second = fault_rate fpu (rd_major_faults reading - rd_major_faults before) (now - since);
                         strikes = (if at_the_ceiling (wa_limit_bytes watch) reading \<and>
                                       faults_per_second \<ge> THRASHING_FAULTS_PER_SECOND
                                    then wa_strikes watch + 1 else 0)
                     in if strikes \<ge> STRIKES_BEFORE_A_KILL
                        then (Thrashing faults_per_second, held\<lparr>wa_strikes := 0\<rparr>)
                        else (MemoryFine, held\<lparr>wa_strikes := strikes\<rparr>))"

definition kernel_killed_between :: "reading \<Rightarrow> reading \<Rightarrow> bool" where
  "kernel_killed_between before after \<longleftrightarrow> rd_oom_kills after > rd_oom_kills before"

definition mib :: "nat \<Rightarrow> nat" where
  "mib bytes = bytes div (1024 * 1024)"

section \<open>One life of a tenant\<close>

text \<open>
  What a read of a pipe answers: bytes, its end, nothing for now, an interruption, or a failure.
  A pipe that is open is read until it has nothing for now, at most \<open>PIPE_CAPACITY\<close> bytes a turn.
\<close>

datatype pipe_read = ReadBytes string | ReadEnd | ReadWouldBlock | ReadInterrupted | ReadFailed

definition PIPE_CAPACITY :: nat where
  "PIPE_CAPACITY = 2 ^ 20"

fun forward_pipe :: "log_host \<Rightarrow> tenant_log_stream \<Rightarrow> nat \<Rightarrow> pipe_read list \<Rightarrow> bool \<times> forwarder \<Rightarrow> bool \<times> forwarder" where
  "forward_pipe h stream budget [] (pipe, fw) = (pipe, fw)"
| "forward_pipe h stream budget (answer # answers) (pipe, fw) =
     (if \<not> pipe \<or> budget = 0 then (pipe, fw)
      else case answer of
             ReadEnd \<Rightarrow> (False, fw)
           | ReadBytes bytes \<Rightarrow> forward_pipe h stream (budget - length bytes) answers (pipe, fw_write h stream bytes fw)
           | ReadWouldBlock \<Rightarrow> (pipe, fw)
           | ReadInterrupted \<Rightarrow> forward_pipe h stream budget answers (pipe, fw)
           | ReadFailed \<Rightarrow> (False, fw))"

record tenant_output =
  to_stdout :: bool
  to_stderr :: bool

definition output_forward ::
    "log_host \<Rightarrow> pipe_read list \<times> pipe_read list \<Rightarrow> tenant_output \<Rightarrow> forwarder \<Rightarrow> tenant_output \<times> forwarder" where
  "output_forward h answers output fw =
     (let (stdout, fw) = forward_pipe h Stdout PIPE_CAPACITY (fst answers) (to_stdout output, fw);
          (stderr, fw) = forward_pipe h Stderr PIPE_CAPACITY (snd answers) (to_stderr output, fw)
      in (\<lparr>to_stdout = stdout, to_stderr = stderr\<rparr>, fw))"

datatype arrived = ArrivedShutdown | ArrivedChildDied | ArrivedNothing

datatype watched = WatchedShutdown | WatchedExited tenant_exit string

text \<open>
  A turn of the watch: what the pipes answer, which signal is pending, whether the tenant is reaped
  and what the pipes and the memory say after it, the moments the clock is looked at, the memory
  reading and whether the kill goes through.
\<close>

record watch_turn =
  wt_reads :: "pipe_read list \<times> pipe_read list"
  wt_arrived :: arrived
  wt_reaped :: "tenant_exit option"
  wt_last_reads :: "pipe_read list \<times> pipe_read list"
  wt_exit_reading :: "reading option"
  wt_asked_at :: nat
  wt_sampled_at :: nat
  wt_reading :: "reading option"
  wt_killed :: bool

definition kernel_reason :: "nat \<Rightarrow> reading option \<Rightarrow> reading option \<Rightarrow> string" where
  "kernel_reason limit_bytes at_start at_exit =
     (case (at_start, at_exit) of
        (Some before, Some after) \<Rightarrow>
          if kernel_killed_between before after
          then '': the kernel killed it for running out of memory at its ceiling of '' @ show_nat (mib limit_bytes) @ '' MiB''
          else []
      | _ \<Rightarrow> [])"

definition thrashing_reason :: "nat \<Rightarrow> reading \<Rightarrow> nat \<Rightarrow> string" where
  "thrashing_reason limit_bytes reading faults_per_second =
     '': killed at its memory ceiling, '' @ show_nat (mib (rd_current_bytes reading)) @ '' of '' @ show_nat (mib limit_bytes) @
     '' MiB and reading its own code back in at '' @ show_nat faults_per_second @ '' faults a second''"

record watching =
  wg_output :: tenant_output
  wg_memory :: watch
  wg_sampled :: nat
  wg_killed_for :: "string option"

text \<open>The part of a turn that looks at the memory.\<close>

definition watch_memory :: "f64_rates \<Rightarrow> nat \<Rightarrow> watch_turn \<Rightarrow> watching \<Rightarrow> watching" where
  "watch_memory fpu limit_bytes turn w =
     (if wt_asked_at turn - wg_sampled w < SAMPLE_INTERVAL \<or> wg_killed_for w \<noteq> None then w
      else let w = w\<lparr>wg_sampled := wt_sampled_at turn\<rparr>
           in case wt_reading turn of
                None \<Rightarrow> w
              | Some reading \<Rightarrow>
                  let (verdict, memory) = watch_observe fpu reading (wg_sampled w) (wg_memory w);
                      w = w\<lparr>wg_memory := memory\<rparr>
                  in case verdict of
                       MemoryFine \<Rightarrow> w
                     | Thrashing faults_per_second \<Rightarrow>
                         if wt_killed turn
                         then w\<lparr>wg_killed_for := Some (thrashing_reason limit_bytes reading faults_per_second)\<rparr>
                         else w)"

fun watch_loop ::
    "f64_rates \<Rightarrow> log_host \<Rightarrow> nat \<Rightarrow> reading option \<Rightarrow> watch_turn list \<Rightarrow> watching \<Rightarrow> forwarder \<Rightarrow> watched option \<times> forwarder" where
  "watch_loop fpu h limit_bytes at_start [] w fw = (None, fw)"
| "watch_loop fpu h limit_bytes at_start (turn # turns) w fw =
     (let fw = snd (reconnect_due_in h fw);
          (output, fw) = output_forward h (wt_reads turn) (wg_output w) fw;
          fw = reconnect_if_due h fw;
          w = w\<lparr>wg_output := output\<rparr>
      in if wt_arrived turn = ArrivedShutdown then (Some WatchedShutdown, fw)
         else case wt_reaped turn of
                Some exit \<Rightarrow>
                  let (output, fw) = output_forward h (wt_last_reads turn) output fw;
                      because = (case wg_killed_for w of
                          Some because \<Rightarrow> because
                        | None \<Rightarrow> kernel_reason limit_bytes at_start (wt_exit_reading turn))
                  in (Some (WatchedExited exit because), fw)
              | None \<Rightarrow>
                  watch_loop fpu h limit_bytes at_start turns (watch_memory fpu limit_bytes turn w) fw)"

section \<open>The lives of a tenant\<close>

text \<open>
  A life: whether the tenant could be spawned, the first memory reading and moment, the turns of its
  watch, for how long it was up, and the signal that came while the guest waited before the next.
\<close>

record tenant_life =
  tl_spawned :: bool
  tl_at_start :: "reading option"
  tl_started :: nat
  tl_turns :: "watch_turn list"
  tl_uptime_ms :: nat
  tl_waited :: arrived

text \<open>What supervising leaves: the restarts it announced, the tenants it spawned and stopped.\<close>

record supervision =
  su_budget :: budget
  su_forwarder :: forwarder
  su_spawned :: nat
  su_stopped :: nat
  su_announced :: "tenant_restart list"

definition announce :: "log_host \<Rightarrow> tenant_restart \<Rightarrow> supervision \<Rightarrow> supervision" where
  "announce h restart su =
     su\<lparr>su_forwarder := fw_restarted h restart (su_forwarder su), su_announced := su_announced su @ [restart]\<rparr>"

definition watch_life :: "f64_rates \<Rightarrow> log_host \<Rightarrow> nat \<Rightarrow> tenant_life \<Rightarrow> forwarder \<Rightarrow> watched option \<times> forwarder" where
  "watch_life fpu h limit_bytes life fw =
     watch_loop fpu h limit_bytes (tl_at_start life) (tl_turns life)
       \<lparr>wg_output = \<lparr>to_stdout = True, to_stderr = True\<rparr>, wg_memory = new_watch limit_bytes,
        wg_sampled = tl_started life, wg_killed_for = None\<rparr> fw"

fun supervise ::
    "f64_rates \<Rightarrow> log_host \<Rightarrow> instance_config \<Rightarrow> nat \<Rightarrow> tenant_life list \<Rightarrow> supervision \<Rightarrow> supervise_outcome option \<times> supervision" where
  "supervise fpu h config limit_bytes [] su = (None, su)"
| "supervise fpu h config limit_bytes (life # lives) su =
     (if \<not> tl_spawned life then (Some SpawnFailedOutcome, su)
      else let su = su\<lparr>su_spawned := su_spawned su + 1\<rparr>;
               (watched, fw) = watch_life fpu h limit_bytes life (su_forwarder su);
               su = su\<lparr>su_forwarder := fw\<rparr>
           in case watched of
                None \<Rightarrow> (None, su)
              | Some WatchedShutdown \<Rightarrow> (Some ShutdownRequested, su\<lparr>su_stopped := su_stopped su + 1\<rparr>)
              | Some (WatchedExited exit because) \<Rightarrow>
                  (let (restart, budget) =
                         budget_exited (f64_unit.truncate fpu) config (tl_uptime_ms life) exit because (su_budget su);
                       su = su\<lparr>su_budget := budget\<rparr>
                   in case restart of
                        None \<Rightarrow> (Some RestartBudgetExhausted, su)
                      | Some restart \<Rightarrow>
                          let su = announce h restart su
                          in if tl_waited life = ArrivedShutdown then (Some ShutdownRequested, su)
                             else supervise fpu h config limit_bytes lives su))"

definition supervision_start :: "log_host \<Rightarrow> supervision" where
  "supervision_start h =
     \<lparr>su_budget = \<lparr>bu_spent = 0\<rparr>, su_forwarder = dialing h, su_spawned = 0, su_stopped = 0, su_announced = []\<rparr>"

section \<open>When a tenant is thrashing\<close>

text \<open>
  The reference: every sample is judged against the one before it, unless no time has passed; a hot
  sample is at the ceiling and faults by the thousand. \<open>trailing\<close> is how many hot ones there are at the end.
\<close>

definition hot :: "f64_rates \<Rightarrow> nat \<Rightarrow> reading \<times> nat \<Rightarrow> reading \<times> nat \<Rightarrow> bool" where
  "hot fpu limit_bytes before sample \<longleftrightarrow> at_the_ceiling limit_bytes (fst sample) \<and>
     fault_rate fpu (rd_major_faults (fst sample) - rd_major_faults (fst before)) (snd sample - snd before)
       \<ge> THRASHING_FAULTS_PER_SECOND"

fun judged :: "f64_rates \<Rightarrow> nat \<Rightarrow> (reading \<times> nat) list \<Rightarrow> bool list" where
  "judged fpu limit_bytes (before # sample # samples) =
     (if f64_secs fpu (snd sample - snd before) \<le> 0 then [] else [hot fpu limit_bytes before sample]) @
     judged fpu limit_bytes (sample # samples)"
| "judged fpu limit_bytes samples = []"

definition trailing :: "bool list \<Rightarrow> nat" where
  "trailing verdicts = length (takeWhile (\<lambda>v. v) (rev verdicts))"

definition watch_after :: "f64_rates \<Rightarrow> nat \<Rightarrow> (reading \<times> nat) list \<Rightarrow> watch" where
  "watch_after fpu limit_bytes samples =
     fold (\<lambda>(reading, now) watch. snd (watch_observe fpu reading now watch)) samples (new_watch limit_bytes)"

lemma judged_snoc:
  "judged fpu limit_bytes (samples @ [before, sample]) = judged fpu limit_bytes (samples @ [before]) @
     (if f64_secs fpu (snd sample - snd before) \<le> 0 then [] else [hot fpu limit_bytes before sample])"
  by (induction fpu limit_bytes "samples @ [before]" arbitrary: samples rule: judged.induct)
    (auto simp: Cons_eq_append_conv)

lemma trailing_snoc [simp]: "trailing (verdicts @ [v]) = (if v then Suc (trailing verdicts) else 0)"
  by (simp add: trailing_def)

lemma watch_after_strikes:
  "watch_after fpu limit_bytes (samples @ [sample]) =
     \<lparr>wa_limit_bytes = limit_bytes, wa_last = Some sample,
      wa_strikes = trailing (judged fpu limit_bytes (samples @ [sample])) mod STRIKES_BEFORE_A_KILL\<rparr>"
proof (induction samples arbitrary: sample rule: rev_induct)
  case Nil
  show ?case by (cases sample) (simp add: watch_after_def watch_observe_def new_watch_def trailing_def)
next
  case (snoc before samples)
  obtain earlier since where before: "before = (earlier, since)" by (cases before)
  obtain reading now where sample: "sample = (reading, now)" by (cases sample)
  have "watch_after fpu limit_bytes ((samples @ [before]) @ [sample]) =
      snd (watch_observe fpu reading now (watch_after fpu limit_bytes (samples @ [before])))"
    by (simp add: watch_after_def sample)
  then show ?case
    using snoc.IH [of before] judged_snoc [of fpu limit_bytes samples before sample]
    by (auto simp: watch_observe_def Let_def before sample hot_def trailing_def STRIKES_BEFORE_A_KILL_def mod_Suc)
qed

text \<open>
  A tenant is judged to be thrashing exactly at the third hot sample in a row, and at every
  third one after it. Samples between which no time has passed neither count nor break the row.
\<close>

lemma thrashing_is_three_strikes:
  "(\<exists>faults. fst (watch_observe fpu (fst sample) (snd sample) (watch_after fpu limit_bytes (samples @ [before]))) = Thrashing faults) \<longleftrightarrow>
   f64_secs fpu (snd sample - snd before) > 0 \<and>
   trailing (judged fpu limit_bytes (samples @ [before, sample])) > 0 \<and>
   3 dvd trailing (judged fpu limit_bytes (samples @ [before, sample]))"
proof -
  obtain earlier since where before: "before = (earlier, since)" by (cases before)
  obtain reading now where sample: "sample = (reading, now)" by (cases sample)
  have three: "3 dvd Suc n \<longleftrightarrow> 2 \<le> n mod 3" for n :: nat by presburger
  show ?thesis
  proof (cases "f64_secs fpu (now - since) \<le> 0")
    case True
    then show ?thesis unfolding watch_after_strikes by (simp add: watch_observe_def Let_def before sample)
  next
    case False
    then show ?thesis
      unfolding watch_after_strikes judged_snoc
      by (cases "hot fpu limit_bytes before sample")
        (auto simp: watch_observe_def Let_def before sample hot_def STRIKES_BEFORE_A_KILL_def three trailing_snoc)
  qed
qed

section \<open>A budget is spent exactly\<close>

fun ends_by_exit :: "watch_turn list \<Rightarrow> bool" where
  "ends_by_exit [] \<longleftrightarrow> False"
| "ends_by_exit (turn # turns) \<longleftrightarrow> wt_arrived turn \<noteq> ArrivedShutdown \<and> (wt_reaped turn \<noteq> None \<or> ends_by_exit turns)"

lemma watch_loop_exits:
  "ends_by_exit turns \<Longrightarrow> \<exists>exit because. fst (watch_loop fpu h limit_bytes at_start turns w fw) = Some (WatchedExited exit because)"
  by (induction turns arbitrary: w fw) (auto simp: Let_def case_prod_unfold split: option.splits)

definition falls_over :: "instance_config \<Rightarrow> tenant_life \<Rightarrow> bool" where
  "falls_over config life \<longleftrightarrow> tl_spawned life \<and> ends_by_exit (tl_turns life) \<and>
     tl_uptime_ms life < cg_reset_after_ms config \<and> tl_waited life \<noteq> ArrivedShutdown"

lemma supervise_falls_over:
  assumes "falls_over config life" "bu_spent (su_budget su) < cg_max_restarts config"
  shows "\<exists>fw restart. tr_attempt restart = bu_spent (su_budget su) + 1 \<and>
    supervise fpu h config limit_bytes (life # lives) su =
    supervise fpu h config limit_bytes lives
      (su\<lparr>su_spawned := su_spawned su + 1, su_budget := \<lparr>bu_spent = bu_spent (su_budget su) + 1\<rparr>, su_forwarder := fw,
        su_announced := su_announced su @ [restart]\<rparr>)"
proof -
  from assms(1) watch_loop_exits [of "tl_turns life"] obtain exit because fw where
    "watch_life fpu h limit_bytes life (su_forwarder su) = (Some (WatchedExited exit because), fw)"
    by (metis falls_over_def prod.collapse watch_life_def)
  moreover obtain restart where
    "budget_exited (f64_unit.truncate fpu) config (tl_uptime_ms life) exit because (su_budget su) =
       (Some restart, \<lparr>bu_spent = bu_spent (su_budget su) + 1\<rparr>)" "tr_attempt restart = bu_spent (su_budget su) + 1"
    using assms by (cases "su_budget su") (simp add: falls_over_def budget_exited_def budget_resets_def Let_def)
  ultimately show ?thesis
    using assms(1)
    by (intro exI [of _ "fw_restarted h restart fw"] exI [of _ restart]) (simp add: falls_over_def announce_def Let_def)
qed

lemma supervise_exhausted:
  assumes "falls_over config life" "bu_spent (su_budget su) = cg_max_restarts config"
  shows "fst (supervise fpu h config limit_bytes (life # lives) su) = Some RestartBudgetExhausted \<and>
    su_spawned (snd (supervise fpu h config limit_bytes (life # lives) su)) = su_spawned su + 1 \<and>
    su_announced (snd (supervise fpu h config limit_bytes (life # lives) su)) = su_announced su"
proof -
  from assms(1) watch_loop_exits [of "tl_turns life"] obtain exit because fw where
    "watch_life fpu h limit_bytes life (su_forwarder su) = (Some (WatchedExited exit because), fw)"
    by (metis falls_over_def prod.collapse watch_life_def)
  with assms show ?thesis
    by (auto simp: falls_over_def budget_exited_def budget_resets_def Let_def)
qed

lemma supervise_spends:
  assumes "list_all (falls_over config) lives" "bu_spent (su_budget su) + left = cg_max_restarts config" "left < length lives"
  shows "fst (supervise fpu h config limit_bytes lives su) = Some RestartBudgetExhausted \<and>
    su_spawned (snd (supervise fpu h config limit_bytes lives su)) = su_spawned su + left + 1 \<and>
    map tr_attempt (su_announced (snd (supervise fpu h config limit_bytes lives su))) =
      map tr_attempt (su_announced su) @ [bu_spent (su_budget su) + 1..<cg_max_restarts config + 1]"
  using assms
proof (induction left arbitrary: lives su)
  case 0
  then obtain life rest where "lives = life # rest" by (cases lives) auto
  with supervise_exhausted [of config life su] 0 show ?case by simp
next
  case (Suc left)
  then obtain life rest where lives: "lives = life # rest" by (cases lives) auto
  with supervise_falls_over [of config life su fpu h limit_bytes rest] Suc.prems obtain fw restart where step:
    "tr_attempt restart = bu_spent (su_budget su) + 1"
    "supervise fpu h config limit_bytes lives su = supervise fpu h config limit_bytes rest
      (su\<lparr>su_spawned := su_spawned su + 1, su_budget := \<lparr>bu_spent = bu_spent (su_budget su) + 1\<rparr>, su_forwarder := fw,
        su_announced := su_announced su @ [restart]\<rparr>)" by auto
  have "[bu_spent (su_budget su) + 1..<cg_max_restarts config + 1] =
      (bu_spent (su_budget su) + 1) # [bu_spent (su_budget su) + 2..<cg_max_restarts config + 1]"
    using Suc.prems(2) by (simp add: upt_conv_Cons)
  with Suc.IH [of rest "su\<lparr>su_spawned := su_spawned su + 1, su_budget := \<lparr>bu_spent = bu_spent (su_budget su) + 1\<rparr>,
        su_forwarder := fw, su_announced := su_announced su @ [restart]\<rparr>"] Suc.prems lives step show ?case
    by simp
qed

text \<open>
  A tenant that never stays up is given up. When every life ends before the time that earns
  the budget back, the guest restarts the tenant exactly as often as its document says, announces
  the attempts one by one, and then ends instead of trying for ever.
\<close>

lemma tenants_that_fall_over_are_given_up:
  assumes "list_all (falls_over config) lives" "cg_max_restarts config < length lives"
  shows "fst (supervise fpu h config limit_bytes lives (supervision_start h)) = Some RestartBudgetExhausted \<and>
    su_spawned (snd (supervise fpu h config limit_bytes lives (supervision_start h))) = cg_max_restarts config + 1 \<and>
    map tr_attempt (su_announced (snd (supervise fpu h config limit_bytes lives (supervision_start h)))) =
      [1..<cg_max_restarts config + 1]"
  using supervise_spends [OF assms(1), of "supervision_start h" "cg_max_restarts config"] assms(2)
  by (simp add: supervision_start_def)

definition sample_config :: instance_config where
  "sample_config = \<lparr>cg_http_port = 3000, cg_layers = 1, cg_program = ''/app/server'', cg_working_directory = ''/app'',
     cg_hostname = None, cg_max_restarts = 1, cg_initial_backoff_ms = 500, cg_max_backoff_ms = 30000,
     cg_backoff_factor = 2, cg_reset_after_ms = 60000, cg_nameservers = [], cg_arguments = [], cg_environment = []\<rparr>"

definition crashing_life :: tenant_life where
  "crashing_life = \<lparr>tl_spawned = True, tl_at_start = None, tl_started = 0,
     tl_turns = [\<lparr>wt_reads = ([ReadBytes ''oops'', ReadEnd], []), wt_arrived = ArrivedChildDied, wt_reaped = Some (ExitCode 1),
       wt_last_reads = ([], []), wt_exit_reading = None, wt_asked_at = 0, wt_sampled_at = 0, wt_reading = None, wt_killed = False\<rparr>],
     tl_uptime_ms = 20, tl_waited = ArrivedNothing\<rparr>"

definition real_rates :: f64_rates where
  "real_rates = \<lparr>f64_of_u64 = real, f64_mul = (*), f64_powi = (\<lambda>x n. x ^ nat n), f64_secs = (\<lambda>n. real n / 10 ^ 9),
     f64_quotient = (/)\<rparr>"

section \<open>What is announced can be read\<close>

definition ascii :: "string \<Rightarrow> bool" where
  "ascii s \<longleftrightarrow> list_all (\<lambda>c. byte_value c < 128) s"

lemma ascii_append [simp]: "ascii (s @ t) \<longleftrightarrow> ascii s \<and> ascii t"
  by (simp add: ascii_def)

lemma ascii_Cons [simp]: "ascii []" "ascii (c # s) \<longleftrightarrow> byte_value c < 128 \<and> ascii s"
  by (simp_all add: ascii_def)

lemma ascii_show_nat [simp]: "ascii (show_nat n)"
  using show_nat_digits [of n] by (force simp: ascii_def is_ascii_digit_def list_all_iff less_eq_char_def)

lemma ascii_show_int [simp]: "ascii (show_int i)"
  by (simp add: show_int_def)

lemma ascii_reasons [simp]:
  "ascii (kernel_reason limit_bytes at_start at_exit)" "ascii (thrashing_reason limit_bytes reading faults)"
  "ascii (restart_reason exit because spent budget backoff) \<longleftrightarrow> ascii because"
  unfolding kernel_reason_def thrashing_reason_def restart_reason_def
  by (auto split: option.splits)

text \<open>What the kernel and the configuration can give: exits of 32 bits, and numbers of their types.\<close>

definition exit_ok :: "tenant_exit \<Rightarrow> bool" where
  "exit_ok exit \<longleftrightarrow> (case exit of ExitCode i \<Rightarrow> - (2 ^ 31) \<le> i \<and> i < 2 ^ 31 | ExitSignal i \<Rightarrow> - (2 ^ 31) \<le> i \<and> i < 2 ^ 31)"

definition guest_config_ok :: "f64_unit \<Rightarrow> instance_config \<Rightarrow> bool" where
  "guest_config_ok fpu config \<longleftrightarrow> cg_max_restarts config \<le> u32_max \<and> cg_max_backoff_ms config \<le> u32_max \<and>
     f64_of_u64 fpu (cg_max_backoff_ms config) = real (cg_max_backoff_ms config)"

lemma guest_backoff_le: 
  assumes "f64_of_u64 fpu (cg_max_backoff_ms config) = real (cg_max_backoff_ms config)"
  shows "guest_backoff_ms fpu config n \<le> cg_max_backoff_ms config"
proof -
  have "backoff_loop fpu config n delay \<le> cg_max_backoff_ms config" for delay
  proof (induction n arbitrary: delay)
    case 0
    have "\<lfloor>min delay (real (cg_max_backoff_ms config))\<rfloor> \<le> int (cg_max_backoff_ms config)"
      using floor_mono [of "min delay (real (cg_max_backoff_ms config))" "real (cg_max_backoff_ms config)"] by simp
    then show ?case by (simp add: assms f64_as_u32_def min_le_iff_disj nat_le_iff)
  qed (simp add: Let_def)
  then show ?thesis by (simp add: guest_backoff_ms_def)
qed

definition announced_ok :: "instance_config \<Rightarrow> tenant_restart \<Rightarrow> bool" where
  "announced_ok config restart \<longleftrightarrow> log_frame_ok (LogRestart restart) \<and> 1 \<le> tr_attempt restart \<and>
     tr_attempt restart \<le> tr_budget restart \<and> tr_budget restart = cg_max_restarts config \<and>
     tr_backoff_ms restart \<le> cg_max_backoff_ms config"

lemma budget_exited_ok:
  assumes "budget_exited fpu config uptime_ms exit because budget = (Some restart, after)"
    and "guest_config_ok fpu config" "exit_ok exit" "ascii because"
  shows "announced_ok config restart"
proof -
  obtain spent where restart: "spent < cg_max_restarts config" "tr_attempt restart = Suc spent" "tr_budget restart = cg_max_restarts config"
    "tr_exit restart = exit" "tr_backoff_ms restart = guest_backoff_ms fpu config spent"
    "tr_reason restart = state_message_new (restart_reason exit because (Suc spent) (cg_max_restarts config) (guest_backoff_ms fpu config spent))"
    using assms(1) by (auto simp: budget_exited_def Let_def split: if_splits)
  let ?reason = "restart_reason exit because (Suc spent) (cg_max_restarts config) (guest_backoff_ms fpu config spent)"
  have "ascii (state_message_new ?reason)"
    using state_message_bounded [of ?reason] assms(4) ascii_append ascii_reasons(3) by metis
  then have "utf8_valid (tr_reason restart)" by (simp add: restart(6) utf8_valid_ascii ascii_def)
  moreover have "guest_backoff_ms fpu config spent \<le> cg_max_backoff_ms config"
    using assms(2) by (intro guest_backoff_le) (simp add: guest_config_ok_def)
  ultimately show ?thesis
    using restart assms(2,3) state_message_bounded [of ?reason]
    by (simp add: announced_ok_def guest_config_ok_def exit_ok_def u32_max_def)
qed

section \<open>What a guest sends\<close>

definition restarts_of :: "guest_log_frame list \<Rightarrow> tenant_restart list" where
  "restarts_of frames = List.map_filter (\<lambda>f. case f of LogRestart restart \<Rightarrow> Some restart | _ \<Rightarrow> None) frames"

lemma restarts_of_append [simp]: "restarts_of (xs @ ys) = restarts_of xs @ restarts_of ys"
  by (simp add: restarts_of_def map_filter_def)

lemma restarts_of_simps [simp]:
  "restarts_of [] = []" "restarts_of (LogData stream bytes # frames) = restarts_of frames"
  "restarts_of (LogGap n # frames) = restarts_of frames" "restarts_of (LogRestart restart # frames) = restart # restarts_of frames"
  by (simp_all add: restarts_of_def map_filter_simps)

lemma sent_frames_append [simp]: "sent_frames (xs @ ys) = sent_frames xs @ sent_frames ys"
  by (induction xs rule: sent_frames.induct) simp_all

text \<open>
  A forwarder that got from one state to another by sending frames the host can read, with these
  restarts among them and at most so many bytes in all.
\<close>

definition sends :: "log_host \<Rightarrow> forwarder \<Rightarrow> tenant_restart list \<Rightarrow> nat \<Rightarrow> forwarder \<Rightarrow> bool" where
  "sends h fw restarts bytes fw' \<longleftrightarrow> (\<exists>calls. fw' = forwarder_run h calls fw \<and> list_all log_frame_ok (sent_frames calls) \<and>
     restarts_of (sent_frames calls) = restarts \<and> sum_list (map frame_bytes (sent_frames calls)) \<le> bytes)"

lemma sends_trans: "sends h fw xs m mid \<Longrightarrow> sends h mid ys n fw' \<Longrightarrow> m + n \<le> k \<Longrightarrow> sends h fw (xs @ ys) k fw'"
proof -
  assume "sends h fw xs m mid" "sends h mid ys n fw'" "m + n \<le> k"
  then obtain a b where "mid = forwarder_run h a fw" "list_all log_frame_ok (sent_frames a)" "restarts_of (sent_frames a) = xs"
    "fw' = forwarder_run h b mid" "list_all log_frame_ok (sent_frames b)" "restarts_of (sent_frames b) = ys"
    "sum_list (map frame_bytes (sent_frames a)) + sum_list (map frame_bytes (sent_frames b)) \<le> k"
    by (fastforce simp: sends_def)
  then show ?thesis unfolding sends_def by (intro exI [of _ "a @ b"]) (simp add: forwarder_run_def)
qed

lemma sends_quiet_trans: "sends h fw [] m mid \<Longrightarrow> sends h mid ys n fw' \<Longrightarrow> m + n \<le> k \<Longrightarrow> sends h fw ys k fw'"
  using sends_trans [of h fw "[]" m mid ys n fw' k] by simp

lemma sends_mono: "sends h fw xs m fw' \<Longrightarrow> m \<le> n \<Longrightarrow> sends h fw xs n fw'"
  by (auto simp: sends_def intro: order_trans)

lemma sends_none: "sends h fw [] n fw"
  unfolding sends_def by (intro exI [of _ "[]"]) (simp add: forwarder_run_def)

lemma restart_frame_bytes:
  assumes "log_frame_ok f"
  shows "frame_bytes f \<le> MAX_FRAME_PAYLOAD_BYTES"
proof -
  from log_frame_decodes [OF assms] obtain kind payload where
    "encode_log_frame f = encode_frame kind payload" "length payload \<le> MAX_FRAME_PAYLOAD_BYTES" by blast
  then show ?thesis by (simp add: frame_bytes_def encode_frame_def FRAME_MAGIC_def FRAME_HEADER_BYTES_def)
qed

lemma sends_steps:
  "sends h fw [] 0 (snd (reconnect_due_in h fw))" "sends h fw [] 0 (reconnect_if_due h fw)"
  "length bytes \<le> MAX_FRAME_PAYLOAD_BYTES \<Longrightarrow> sends h fw [] (length bytes) (fw_write h stream bytes fw)"
  "log_frame_ok (LogRestart restart) \<Longrightarrow> sends h fw [restart] MAX_FRAME_PAYLOAD_BYTES (fw_restarted h restart fw)"
  unfolding sends_def
  by (intro exI [of _ "[CallDueIn]"], simp add: forwarder_run_def)
    (intro exI [of _ "[CallReconnect]"], simp add: forwarder_run_def,
     intro exI [of _ "[CallWrite stream bytes]"],
       simp add: forwarder_run_def frame_bytes_def encode_frame_def FRAME_MAGIC_def FRAME_HEADER_BYTES_def,
     intro exI [of _ "[CallRestarted restart]"], use restart_frame_bytes [of "LogRestart restart"] in \<open>simp add: forwarder_run_def\<close>)

definition reads_ok :: "pipe_read list \<Rightarrow> bool" where
  "reads_ok = list_all (\<lambda>answer. case answer of ReadBytes bytes \<Rightarrow> length bytes \<le> MAX_FRAME_PAYLOAD_BYTES | _ \<Rightarrow> True)"

definition read_bytes :: "pipe_read list \<Rightarrow> nat" where
  "read_bytes answers = sum_list (map (\<lambda>answer. case answer of ReadBytes bytes \<Rightarrow> length bytes | _ \<Rightarrow> 0) answers)"

definition turn_ok :: "watch_turn \<Rightarrow> bool" where
  "turn_ok turn \<longleftrightarrow> reads_ok (fst (wt_reads turn)) \<and> reads_ok (snd (wt_reads turn)) \<and>
     reads_ok (fst (wt_last_reads turn)) \<and> reads_ok (snd (wt_last_reads turn)) \<and> pred_option exit_ok (wt_reaped turn)"

definition turn_bytes :: "watch_turn \<Rightarrow> nat" where
  "turn_bytes turn = read_bytes (fst (wt_reads turn)) + read_bytes (snd (wt_reads turn)) +
     read_bytes (fst (wt_last_reads turn)) + read_bytes (snd (wt_last_reads turn))"

lemma forward_pipe_sends:
  "reads_ok answers \<Longrightarrow> sends h (snd held) [] (read_bytes answers) (snd (forward_pipe h stream budget answers held))"
proof (induction h stream budget answers held rule: forward_pipe.induct)
  case (2 h stream budget answer answers pipe fw)
  show ?case
  proof (cases answer)
    case (ReadBytes bytes)
    with 2 have "sends h (fw_write h stream bytes fw) [] (read_bytes answers)
        (snd (forward_pipe h stream (budget - length bytes) answers (pipe, fw_write h stream bytes fw)))"
      if "pipe" "budget \<noteq> 0" using that by (auto simp: reads_ok_def)
    moreover have "sends h fw [] (length bytes) (fw_write h stream bytes fw)"
      using ReadBytes 2 by (intro sends_steps(3)) (simp add: reads_ok_def)
    ultimately show ?thesis using ReadBytes by (auto simp: read_bytes_def intro: sends_none sends_quiet_trans)
  qed (use 2 in \<open>auto simp: reads_ok_def read_bytes_def intro: sends_none\<close>)
qed (simp add: sends_none)

lemma output_forward_sends:
  "reads_ok (fst answers) \<Longrightarrow> reads_ok (snd answers) \<Longrightarrow>
     sends h fw [] (read_bytes (fst answers) + read_bytes (snd answers)) (snd (output_forward h answers output fw))"
  using sends_quiet_trans [OF forward_pipe_sends [of "fst answers" h "(to_stdout output, fw)" Stdout PIPE_CAPACITY, simplified]
      forward_pipe_sends [of "snd answers" h "(to_stderr output, snd (forward_pipe h Stdout PIPE_CAPACITY (fst answers) (to_stdout output, fw)))"
        Stderr PIPE_CAPACITY, simplified]]
  by (simp add: output_forward_def Let_def case_prod_unfold)

lemma watch_loop_sends:
  assumes "list_all turn_ok turns" "pred_option ascii (wg_killed_for w)"
  shows "sends h fw [] (sum_list (map turn_bytes turns)) (snd (watch_loop fpu h limit_bytes at_start turns w fw)) \<and>
    (\<forall>exit because. fst (watch_loop fpu h limit_bytes at_start turns w fw) = Some (WatchedExited exit because) \<longrightarrow>
       exit_ok exit \<and> ascii because)"
  using assms
proof (induction turns arbitrary: w fw)
  case (Cons turn turns)
  let ?asked = "snd (reconnect_due_in h fw)"
  let ?out = "output_forward h (wt_reads turn) (wg_output w) ?asked"
  let ?fw = "reconnect_if_due h (snd ?out)"
  let ?w = "w\<lparr>wg_output := fst ?out\<rparr>"
  let ?first = "read_bytes (fst (wt_reads turn)) + read_bytes (snd (wt_reads turn))"
  let ?last = "read_bytes (fst (wt_last_reads turn)) + read_bytes (snd (wt_last_reads turn))"
  have ok: "turn_ok turn" using Cons.prems by simp
  have "sends h ?asked [] ?first (snd ?out)" using ok by (intro output_forward_sends) (simp_all add: turn_ok_def)
  then have "sends h fw [] ?first (snd ?out)" by (rule sends_quiet_trans [OF sends_steps(1)]) simp
  then have fw: "sends h fw [] ?first ?fw" by (rule sends_quiet_trans [OF _ sends_steps(2)]) simp
  have last_fw: "sends h ?fw [] ?last (snd (output_forward h (wt_last_reads turn) pipes ?fw))" for pipes
    using ok by (intro output_forward_sends) (simp_all add: turn_ok_def)
  have "pred_option ascii (wg_killed_for (watch_memory fpu limit_bytes turn ?w))"
    using Cons.prems(2) by (auto simp: watch_memory_def Let_def case_prod_unfold split: option.splits memory_verdict.splits)
  note IH = Cons.IH [OF _ this, of ?fw]
  have exit: "exit_ok exit" if "wt_reaped turn = Some exit" for exit using ok that by (simp add: turn_ok_def)
  have "?first + ?last + sum_list (map turn_bytes turns) = sum_list (map turn_bytes (turn # turns))" by (simp add: turn_bytes_def)
  with sends_quiet_trans [OF fw last_fw] sends_quiet_trans [OF fw conjunct1 [OF IH]] sends_mono [OF fw] Cons.prems
  have steps: "sends h fw [] (sum_list (map turn_bytes (turn # turns))) ?fw"
    "sends h fw [] (sum_list (map turn_bytes (turn # turns))) (snd (output_forward h (wt_last_reads turn) pipes ?fw))"
    "sends h fw [] (sum_list (map turn_bytes (turn # turns)))
       (snd (watch_loop fpu h limit_bytes at_start turns (watch_memory fpu limit_bytes turn ?w) ?fw))" for pipes
    by simp_all
  show ?case
    using IH Cons.prems steps exit by (auto simp: Let_def case_prod_unfold simp del: list.map sum_list.Cons split: option.splits)
qed (simp add: sends_none)

definition lives_ok :: "tenant_life list \<Rightarrow> bool" where
  "lives_ok lives \<longleftrightarrow> list_all (\<lambda>life. list_all turn_ok (tl_turns life)) lives"

text \<open>No more than what the pipes gave, and a frame for each restart.\<close>

definition lives_bytes :: "tenant_life list \<Rightarrow> nat" where
  "lives_bytes lives = sum_list (map (\<lambda>life. sum_list (map turn_bytes (tl_turns life)) + MAX_FRAME_PAYLOAD_BYTES) lives)"

lemma supervise_sends:
  assumes "lives_ok lives" "guest_config_ok (f64_unit.truncate fpu) config"
  shows "\<exists>restarts. sends h (su_forwarder su) restarts (lives_bytes lives) (su_forwarder (snd (supervise fpu h config limit_bytes lives su))) \<and>
    su_announced (snd (supervise fpu h config limit_bytes lives su)) = su_announced su @ restarts \<and>
    list_all (announced_ok config) restarts"
  using assms(1)
proof (induction lives arbitrary: su)
  case (Cons life lives)
  let ?su = "su\<lparr>su_spawned := su_spawned su + 1\<rparr>"
  obtain watched fw where watched: "watch_life fpu h limit_bytes life (su_forwarder su) = (watched, fw)" by force
  let ?turns = "sum_list (map turn_bytes (tl_turns life))"
  have life: "sends h (su_forwarder su) [] ?turns fw"
    "watched = Some (WatchedExited exit because) \<Longrightarrow> exit_ok exit \<and> ascii because" for exit because
    using watch_loop_sends [of "tl_turns life" "\<lparr>wg_output = \<lparr>to_stdout = True, to_stderr = True\<rparr>, wg_memory = new_watch limit_bytes,
        wg_sampled = tl_started life, wg_killed_for = None\<rparr>" h "su_forwarder su" fpu limit_bytes "tl_at_start life"] Cons.prems watched
    by (simp_all add: watch_life_def lives_ok_def)
  show ?case
  proof (cases "tl_spawned life \<and> (\<exists>exit because. watched = Some (WatchedExited exit because))")
    case False
    with sends_mono [OF life(1)] watched sends_none show ?thesis
      by (auto simp: Let_def lives_bytes_def split: option.splits watched.splits)
  next
    case True
    then obtain exit because where exit: "tl_spawned life" "watched = Some (WatchedExited exit because)" by blast
    obtain restart budget where spent: "budget_exited (f64_unit.truncate fpu) config (tl_uptime_ms life) exit because (su_budget su) =
        (restart, budget)" by force
    show ?thesis
    proof (cases restart)
      case None
      with exit spent watched sends_mono [OF life(1)] show ?thesis by (simp add: Let_def lives_bytes_def)
    next
      case (Some r)
      from budget_exited_ok [OF spent [unfolded Some] assms(2)] life(2) [OF exit(2)] have ok: "announced_ok config r" by blast
      let ?after = "announce h r (?su\<lparr>su_forwarder := fw, su_budget := budget\<rparr>)"
      have "sends h fw [r] MAX_FRAME_PAYLOAD_BYTES (su_forwarder ?after)"
        unfolding announce_def using sends_steps(4) [of r h fw] ok by (simp add: announced_ok_def)
      with life(1) have after: "sends h (su_forwarder su) [r] (?turns + MAX_FRAME_PAYLOAD_BYTES) (su_forwarder ?after)"
        by (rule sends_quiet_trans) simp
      have announced: "su_announced ?after = su_announced su @ [r]" by (simp add: announce_def)
      have result: "supervise fpu h config limit_bytes (life # lives) su =
          (if tl_waited life = ArrivedShutdown then (Some ShutdownRequested, ?after) else supervise fpu h config limit_bytes lives ?after)"
        using exit spent Some watched by (simp add: Let_def)
      from Cons.IH [of ?after] Cons.prems obtain rest where rest:
        "sends h (su_forwarder ?after) rest (lives_bytes lives) (su_forwarder (snd (supervise fpu h config limit_bytes lives ?after)))"
        "su_announced (snd (supervise fpu h config limit_bytes lives ?after)) = su_announced ?after @ rest"
        "list_all (announced_ok config) rest" by (auto simp: lives_ok_def)
      have size: "?turns + MAX_FRAME_PAYLOAD_BYTES + lives_bytes lives = lives_bytes (life # lives)" by (simp add: lives_bytes_def)
      show ?thesis
      proof (cases "tl_waited life = ArrivedShutdown")
        case True
        then show ?thesis unfolding result using sends_mono [OF after] size announced ok by (intro exI [of _ "[r]"]) simp
      next
        case False
        have "sends h (su_forwarder su) ([r] @ rest) (lives_bytes (life # lives))
            (su_forwarder (snd (supervise fpu h config limit_bytes lives ?after)))"
          using sends_trans [OF after rest(1)] size by simp
        with False show ?thesis
          unfolding result using announced ok rest(2,3) by (intro exI [of _ "[r] @ rest"]) simp
      qed
    qed
  qed
qed (auto intro: sends_none)

end
