(* ===== verification/Restarts.thy ===== *)
theory Restarts
  imports Supervisor World "HOL-Library.Sublist"
begin

text \<open>
  The restarts a guest reports, on the record of its app (\<open>domain/restarts.rs\<close>). Shown: what becomes
  of a restart on its whole way, from the supervisor in the guest over the forwarder, the
  connections, the decoder and the pump of the host to the record: a restart is counted once or its
  bytes are in a gap.
\<close>

section \<open>The recorder\<close>

definition record_restart :: "tenant_log_event \<Rightarrow> tenant_restart \<Rightarrow> unit act" where
  "record_restart event restart =
     update_record (te_app_id event) (\<lambda>record.
       record\<lparr>ir_restart_count := (ir_restart_count record + 1) mod 2 ^ 32,
         ir_last_restart := Some \<lparr>rr_at = te_observed_at event, rr_restart = restart\<rparr>\<rparr>)"

primrec record_restarts :: "tenant_log_event list \<Rightarrow> unit act" where
  "record_restarts [] = State_Monad.return ()"
| "record_restarts (event # events) =
     do {
       (case te_body event of
          BodyRestart restart \<Rightarrow> record_restart event restart
        | _ \<Rightarrow> State_Monad.return ());
       record_restarts events
     }"

text \<open>The sink behind the recorder is given every event.\<close>

definition publish_events :: "tenant_log_event list \<Rightarrow> tenant_log_event list act" where
  "publish_events events = do { record_restarts events; State_Monad.return events }"

section \<open>From the frames to the record\<close>

definition restarts_in :: "tenant_log_body list \<Rightarrow> tenant_restart list" where
  "restarts_in bodies = List.map_filter (\<lambda>body. case body of BodyRestart restart \<Rightarrow> Some restart | _ \<Rightarrow> None) bodies"

lemma restarts_in_simps [simp]:
  "restarts_in [] = []" "restarts_in (body # bodies) = (case body of BodyRestart r \<Rightarrow> [r] | _ \<Rightarrow> []) @ restarts_in bodies"
  "restarts_in (xs @ ys) = restarts_in xs @ restarts_in ys"
  by (simp_all add: restarts_in_def map_filter_def split: tenant_log_body.splits)

lemma restarts_in_marks: "restarts_in (marks_said bodies) = restarts_in bodies"
  by (induction bodies) (auto simp: marks_said_def split: tenant_log_body.splits)

lemma restarts_in_written: "restarts_in (marks_written frames) = restarts_of frames"
  by (induction frames rule: marks_written.induct) simp_all

lemma record_restarts_count:
  assumes "list_all (\<lambda>event. te_app_id event = a) events" "map_of (hs_records (h_snapshot s)) a = Some r" "ir_restart_count r < 2 ^ 32"
  shows "\<exists>r'. map_of (hs_records (h_snapshot (final (record_restarts events) s))) a = Some r' \<and>
    ir_restart_count r' = (ir_restart_count r + length (restarts_in (map te_body events))) mod 2 ^ 32 \<and>
    map_option rr_restart (ir_last_restart r') =
      (if restarts_in (map te_body events) = [] then map_option rr_restart (ir_last_restart r)
       else Some (last (restarts_in (map te_body events))))"
  using assms
proof (induction events arbitrary: s r)
  case (Cons event events)
  show ?case
  proof (cases "\<exists>restart. te_body event = BodyRestart restart")
    case True
    then obtain restart where restart: "te_body event = BodyRestart restart" by blast
    let ?r = "r\<lparr>ir_restart_count := (ir_restart_count r + 1) mod 2 ^ 32,
         ir_last_restart := Some \<lparr>rr_at = te_observed_at event, rr_restart = restart\<rparr>\<rparr>"
    let ?s = "final (record_restart event restart) s"
    have "map_of (hs_records (h_snapshot ?s)) a = Some ?r"
      using Cons.prems by (simp add: record_restart_def update_record_def)
    from Cons.IH [OF _ this] Cons.prems(1) restart show ?thesis
      by (auto simp: mod_add_left_eq)
  next
    case False
    then have same: "restarts_in (map te_body (event # events)) = restarts_in (map te_body events)"
      "final (record_restarts (event # events)) s = final (record_restarts events) s"
      by (auto split: tenant_log_body.splits)
    show ?thesis unfolding same using Cons.IH [of s r] Cons.prems by simp
  qed
qed simp

text \<open>One connection of a guest to the host: how its bytes are cut, the stamps, and its first number.\<close>

type_synonym log_connection = "(pump_input \<times> log_stamp) list \<times> log_stamp \<times> nat"

definition connection_bytes :: "log_connection \<Rightarrow> string" where
  "connection_bytes c = concat (chunks_of (fst c))"

definition connection_events :: "log_connection \<Rightarrow> tenant_log_event list" where
  "connection_events c = concat (pp_published (pump (fst c) (fst (snd c)) (pump_start (snd (snd c)))))"

definition connection_of :: "app_id \<Rightarrow> log_connection \<Rightarrow> bool" where
  "connection_of a c \<longleftrightarrow> list_all (\<lambda>(_, st). st_app_id st = a) (fst c) \<and> st_app_id (fst (snd c)) = a"

lemma stamped_app: "list_all (\<lambda>event. te_app_id event = st_app_id st) (fst (stamped st n bodies))"
  by (induction st n bodies rule: stamped.induct) (auto simp: Let_def case_prod_unfold)

lemma publish_bodies_app:
  assumes "list_all (\<lambda>event. te_app_id event = a) (concat (pp_published s))" "st_app_id st = a"
  shows "list_all (\<lambda>event. te_app_id event = a) (concat (pp_published (publish_bodies st bodies s)))"
  using assms stamped_app [of st "pp_sequence s" bodies]
  by (auto simp: publish_bodies_def Let_def case_prod_unfold list_all_iff)

lemma pump_app:
  assumes "list_all (\<lambda>event. te_app_id event = a) (concat (pp_published s))"
    and "list_all (\<lambda>(_, st). st_app_id st = a) inputs" "st_app_id closing = a"
  shows "list_all (\<lambda>event. te_app_id event = a) (concat (pp_published (pump inputs closing s)))"
proof -
  have ending: "list_all (\<lambda>event. te_app_id event = a) (concat (pp_published (pump_end closing s)))"
    if "list_all (\<lambda>event. te_app_id event = a) (concat (pp_published s))" "st_app_id closing = a" for closing s
    using that unfolding pump_end_def Let_def case_prod_unfold by (intro publish_bodies_app) simp_all
  show ?thesis
    using assms
    by (induction inputs closing s rule: pump.induct)
      (auto simp: ending Let_def case_prod_unfold publish_bodies_app split: sum.splits)
qed

lemma connection_events_app: "connection_of a c \<Longrightarrow> list_all (\<lambda>event. te_app_id event = a) (connection_events c)"
  unfolding connection_events_def by (intro pump_app) (simp_all add: connection_of_def pump_start_def)

lemma connection_restarts:
  assumes "decode_frames [] (connection_bytes c) = Inr (frames, kept)"
  shows "restarts_in (map te_body (connection_events c)) = restarts_of (read_whole (connection_bytes c))"
proof -
  have "read_chunks (pp_buffered (pump_start (snd (snd c)))) (chunks_of (fst c)) = Inr (frames, kept)"
    using assms read_chunks_at_once [of "[]" "chunks_of (fst c)"]
    by (simp add: pump_start_def decode_frames_def connection_bytes_def)
  from pump_reads [OF this, of "fst (snd c)"] have
    "marks_said (published_bodies (pump (fst c) (fst (snd c)) (pump_start (snd (snd c))))) = marks_written frames"
    by (auto simp: published_bodies_def pump_start_def)
  then have "restarts_in (map te_body (connection_events c)) = restarts_of frames"
    using restarts_in_marks restarts_in_written by (metis connection_events_def published_bodies_def)
  with assms show ?thesis by (simp add: read_whole_def)
qed

lemma connections_restarts:
  assumes "list_all (\<lambda>c. \<exists>frames kept. decode_frames [] (connection_bytes c) = Inr (frames, kept)) connections"
  shows "restarts_in (map te_body (concat (map connection_events connections))) =
    restarts_of (concat (map read_whole (map connection_bytes connections)))"
  using assms by (induction connections) (auto simp: connection_restarts)

section \<open>What arrives\<close>

lemma restarts_with_losses: "restarts_of (map snd (fst (with_losses lost frames))) = restarts_of frames"
  by (induction lost frames rule: with_losses.induct) (auto simp: Let_def case_prod_unfold)

fun gap_bytes :: "guest_log_frame list \<Rightarrow> nat" where
  "gap_bytes [] = 0"
| "gap_bytes (LogGap n # frames) = n + gap_bytes frames"
| "gap_bytes (_ # frames) = gap_bytes frames"

lemma gap_bytes_append [simp]: "gap_bytes (xs @ ys) = gap_bytes xs + gap_bytes ys"
  by (induction xs rule: gap_bytes.induct) simp_all

lemma gap_bytes_with_losses:
  "sum_list (map fst (fst (with_losses lost frames))) + snd (with_losses lost frames) = lost + gap_bytes frames"
  by (induction lost frames rule: with_losses.induct) (auto simp: Let_def case_prod_unfold)

lemma arriving_restarts:
  assumes "length oks = length frames" "gap_bytes frames = 0"
  shows "subseq (restarts_of (arriving oks frames)) (restarts_of frames) \<and>
    (gap_bytes (arriving oks frames) = 0 \<longrightarrow> restarts_of (arriving oks frames) = restarts_of frames)"
  using assms
proof (induction oks frames rule: list_induct2)
  case (Cons ok oks f frames)
  have large: "frame_bytes (LogRestart restart) > 0" for restart
    by (simp add: frame_bytes_def encode_restart_def encode_frame_def FRAME_MAGIC_def FRAME_HEADER_BYTES_def Let_def case_prod_unfold)
  show ?case
    using Cons large by (cases f; cases ok) (auto simp: arriving_def)
qed (simp add: arriving_def)

lemma sent_no_gaps: "gap_bytes (sent_frames calls) = 0"
  by (induction calls rule: sent_frames.induct) simp_all

text \<open>
  (C26) A restart of a tenant is counted once, or its bytes are in a gap. Whatever happens to a guest
  and to its connections, and however the host cuts them into reads, the restarts that arrive are
  some of those the supervisor announced, in their order; the count on the record of the app goes up
  by just as many, and the record holds the last of them. When the host has heard of no gap and none
  is pending, they are all that were announced.
\<close>

theorem restarts_are_counted_or_in_a_gap:
  assumes lives: "lives_ok lives" "guest_config_ok (f64_unit.truncate fpu) config" "lives_bytes lives < 2 ^ 64"
    and supervised: "su = snd (supervise fpu h config limit_bytes lives (supervision_start h))"
    and read: "map connection_bytes connections = fw_wires (su_forwarder su)" "list_all (connection_of a) connections"
    and held: "map_of (hs_records (h_snapshot s)) a = Some r" "ir_restart_count r < 2 ^ 32"
  shows "\<exists>arrived r'. subseq arrived (su_announced su) \<and>
    map_of (hs_records (h_snapshot (final (publish_events (concat (map connection_events connections))) s))) a = Some r' \<and>
    ir_restart_count r' = (ir_restart_count r + length arrived) mod 2 ^ 32 \<and>
    map_option rr_restart (ir_last_restart r') =
      (if arrived = [] then map_option rr_restart (ir_last_restart r) else Some (last arrived)) \<and>
    (gap_bytes (heard (su_forwarder su)) = 0 \<and> fw_dropped_bytes (su_forwarder su) = 0 \<longrightarrow> arrived = su_announced su)"
proof -
  have "su_announced (supervision_start h) = []" "su_forwarder (supervision_start h) = dialing h" by (simp_all add: supervision_start_def)
  with supervise_sends [OF lives(1,2), of h "supervision_start h" limit_bytes] supervised obtain calls where
    calls: "su_forwarder su = forwarder_run h calls (dialing h)" "list_all log_frame_ok (sent_frames calls)"
    "restarts_of (sent_frames calls) = su_announced su" "sum_list (map frame_bytes (sent_frames calls)) \<le> lives_bytes lives"
    by (auto simp: sends_def)
  with lives(3) have small: "sum_list (map frame_bytes (sent_frames calls)) < 2 ^ 64" by linarith
  from forwarder_losses [OF calls(2) small, of h] calls(1) obtain oks where
    wires: "list_all (\<lambda>bytes. \<exists>frames kept. decode_frames [] bytes = Inr (frames, kept)) (fw_wires (su_forwarder su))"
    and oks: "length oks = length (sent_frames calls)"
    and told: "with_losses 0 (heard (su_forwarder su) @ [LogGap (fw_dropped_bytes (su_forwarder su))]) =
       with_losses 0 (arriving oks (sent_frames calls))" by auto
  let ?arrived = "restarts_of (heard (su_forwarder su))"
  have arrived: "?arrived = restarts_of (arriving oks (sent_frames calls))"
    using restarts_with_losses [of 0 "heard (su_forwarder su) @ [LogGap (fw_dropped_bytes (su_forwarder su))]"] told
      restarts_with_losses [of 0 "arriving oks (sent_frames calls)"] by simp
  have gaps: "gap_bytes (heard (su_forwarder su)) + fw_dropped_bytes (su_forwarder su) = gap_bytes (arriving oks (sent_frames calls))"
    using gap_bytes_with_losses [of 0 "heard (su_forwarder su) @ [LogGap (fw_dropped_bytes (su_forwarder su))]"] told
      gap_bytes_with_losses [of 0 "arriving oks (sent_frames calls)"] by simp
  have bodies: "restarts_in (map te_body (concat (map connection_events connections))) = ?arrived"
    using connections_restarts [of connections] wires unfolding heard_def read(1) [symmetric] list.pred_map comp_def by simp
  have "list_all (\<lambda>event. te_app_id event = a) (concat (map connection_events connections))"
    using read(2) by (induction connections) (simp_all add: connection_events_app)
  from record_restarts_count [OF this held] bodies show ?thesis
    using arriving_restarts [OF oks sent_no_gaps] arrived gaps calls(3)
    by (intro exI [of _ ?arrived]) (auto simp: publish_events_def)
qed

definition crashed :: supervision where
  "crashed = snd (supervise real_rates sample_log_host sample_config 1000 [crashing_life] (supervision_start sample_log_host))"

definition host_with_record :: host where
  "host_with_record = \<lparr>h_snapshot = default_snapshot\<lparr>hs_records := [(''app-a'', sample_record\<lparr>ir_restart_count := 3\<rparr>)]\<rparr>,
     h_alloc = addressing 8, h_document = None, h_cron_runs = [], h_trace = []\<rparr>"

text \<open>A tenant that crashed once, and a host that reads each of its connections at once.\<close>

theorem restarts_are_counted_or_in_a_gap_witness:
  "\<exists>arrived r'. subseq arrived (su_announced crashed) \<and>
     map_of (hs_records (h_snapshot (final (publish_events (concat (map connection_events
       (map (\<lambda>bytes. ([(ReadChunk bytes, sample_stamp)], sample_stamp, 0)) (fw_wires (su_forwarder crashed)))))) host_with_record)))
       ''app-a'' = Some r' \<and>
     ir_restart_count r' = (3 + length arrived) mod 2 ^ 32"
proof -
  let ?connections = "map (\<lambda>bytes. ([(ReadChunk bytes, sample_stamp)], sample_stamp, 0)) (fw_wires (su_forwarder crashed))"
  have "lives_ok [crashing_life]" "guest_config_ok (f64_unit.truncate real_rates) sample_config"
    by (simp_all add: lives_ok_def crashing_life_def turn_ok_def reads_ok_def exit_ok_def MAX_FRAME_PAYLOAD_BYTES_def
        guest_config_ok_def sample_config_def u32_max_def real_rates_def f64_unit.truncate_def)
  moreover have "lives_bytes [crashing_life] < 2 ^ 64"
    by (simp add: lives_bytes_def crashing_life_def turn_bytes_def read_bytes_def MAX_FRAME_PAYLOAD_BYTES_def)
  moreover have "map connection_bytes ?connections = fw_wires (su_forwarder crashed)"
    by (simp add: connection_bytes_def comp_def)
  moreover have "list_all (connection_of ''app-a'') ?connections"
    by (simp add: connection_of_def sample_stamp_def list_all_iff)
  moreover have "map_of (hs_records (h_snapshot host_with_record)) ''app-a'' = Some (sample_record\<lparr>ir_restart_count := 3\<rparr>)"
    by (simp add: host_with_record_def)
  ultimately show ?thesis
    using restarts_are_counted_or_in_a_gap [of "[crashing_life]" real_rates sample_config crashed sample_log_host 1000
        ?connections "''app-a''" host_with_record "sample_record\<lparr>ir_restart_count := 3\<rparr>"]
    by (auto simp: crashed_def)
qed

end
