(* ===== verification/Snapshots.thy ===== *)
theory Snapshots
  imports World
begin

text \<open>
  The saved state of a guest that sleeps (\<open>adapters/vm/snapshot.rs\<close>): who may be put to sleep, the room
  its memory is written to, what a snapshot is stamped with, how it is sealed, published, checked
  before it is loaded, and reaped. The digest and the printing of sizes are parameters. Shown:
  snapshots that are written side by side fit the disk together; what was published is taken back
  unless something about it changed; and what is reaped could not have been loaded.
\<close>

section \<open>Stamps\<close>

record snapshot_stamp =
  st_deployment_id :: deployment_id
  st_guest_image_version :: "string option"
  st_host_boot_id :: string
  st_slot :: nat

definition drift_reason :: "snapshot_stamp \<Rightarrow> snapshot_stamp \<Rightarrow> string option" where
  "drift_reason stored expected =
     (if st_deployment_id stored \<noteq> st_deployment_id expected then Some ''the app has been deployed again since''
      else if st_guest_image_version stored = None then Some ''the snapshot's guest image is unknown''
      else if st_guest_image_version stored \<noteq> st_guest_image_version expected then Some ''the guest image has changed''
      else if st_host_boot_id stored \<noteq> st_host_boot_id expected then Some ''the host has rebooted''
      else if st_slot stored \<noteq> st_slot expected then Some ''the app has moved to another slot''
      else None)"

section \<open>Who may sleep\<close>

record sleep_subject =
  ss_stop_requested :: bool
  ss_desired_running :: bool
  ss_ever_healthy :: bool

definition refusal_to_sleep :: "sleep_subject option \<Rightarrow> string option" where
  "refusal_to_sleep subject =
     (case subject of
        None \<Rightarrow> Some ''this host holds no record of it''
      | Some s \<Rightarrow>
          if ss_stop_requested s \<or> \<not> ss_desired_running s then Some ''it has already been asked to stop''
          else if \<not> ss_ever_healthy s then Some ''it has never answered, so it may not have finished booting''
          else None)"

section \<open>Room on the disk\<close>

definition SNAPSHOT_BYTES_PER_MIB :: nat where
  "SNAPSHOT_BYTES_PER_MIB = 1048576"

definition DISK_RESERVE_BYTES :: nat where
  "DISK_RESERVE_BYTES = 8 * 1073741824"

record snapshot_disk =
  sd_total_bytes :: nat
  sd_available_bytes :: nat
  sd_cache_bytes :: nat
  sd_snapshot_bytes :: nat

definition snapshot_bytes_for :: "nat \<Rightarrow> nat" where
  "snapshot_bytes_for memory_mib = memory_mib * SNAPSHOT_BYTES_PER_MIB"

definition snapshot_budget :: "snapshot_disk \<Rightarrow> nat" where
  "snapshot_budget disk = sd_total_bytes disk - sd_cache_bytes disk - DISK_RESERVE_BYTES"

definition refusal_for_disk :: "(nat \<Rightarrow> string) \<Rightarrow> snapshot_disk \<Rightarrow> nat \<Rightarrow> string option" where
  "refusal_for_disk gibibytes disk wanted_bytes =
     (let budget = snapshot_budget disk
      in if budget < (sd_snapshot_bytes disk + wanted_bytes) mod 2 ^ 64
         then Some (''snapshots on this host may hold '' @ gibibytes budget @ '' and already hold '' @ gibibytes (sd_snapshot_bytes disk))
         else if sd_available_bytes disk - wanted_bytes < DISK_RESERVE_BYTES
         then Some (''the disk it would be written to has '' @ gibibytes (sd_available_bytes disk) @
                    '' left, which the filesystem every app runs from needs more than it does'')
         else None)"

text \<open>The bytes held by the snapshots under way; an admitted one holds its share until it is dropped.\<close>

definition in_flight_admit :: "(nat \<Rightarrow> string) \<Rightarrow> snapshot_disk \<Rightarrow> nat \<Rightarrow> nat \<Rightarrow> string + nat" where
  "in_flight_admit gibibytes disk wanted_bytes held =
     (let spoken_for = disk\<lparr>sd_available_bytes := sd_available_bytes disk - held,
                            sd_snapshot_bytes := min u64_max (sd_snapshot_bytes disk + held)\<rparr>
      in case refusal_for_disk gibibytes spoken_for wanted_bytes of
           Some refusal \<Rightarrow> Inl refusal
         | None \<Rightarrow> Inr ((held + wanted_bytes) mod 2 ^ 64))"

definition reserved_drop :: "nat \<Rightarrow> nat \<Rightarrow> nat" where
  "reserved_drop bytes held = held - bytes"

text \<open>
  The shares of the snapshots under way, whatever was admitted, on whatever disk, and dropped, as long as
  they are less than what a \<open>u64\<close> counts.
\<close>

inductive in_flight :: "(nat \<Rightarrow> string) \<Rightarrow> nat list \<Rightarrow> nat \<Rightarrow> bool" for gibibytes where
  none: "in_flight gibibytes [] 0"
| admitted: "in_flight gibibytes shares held \<Longrightarrow> in_flight_admit gibibytes disk wanted held = Inr held' \<Longrightarrow>
    sum_list (wanted # shares) \<le> u64_max \<Longrightarrow> in_flight gibibytes (wanted # shares) held'"
| dropped: "in_flight gibibytes (before @ bytes # others) held \<Longrightarrow> in_flight gibibytes (before @ others) (reserved_drop bytes held)"

lemma u64_max_below: "n \<le> u64_max \<longleftrightarrow> n < 2 ^ 64"
  by (auto simp: u64_max_def)

lemma in_flight_sum: "in_flight gibibytes shares held \<Longrightarrow> held = sum_list shares"
  by (induction rule: in_flight.induct)
    (auto simp: in_flight_admit_def reserved_drop_def u64_max_below Let_def add.commute split: option.splits)

text \<open>
  (C31) Snapshots under way fit the disk together. When one is admitted, what the disk holds of
  snapshots and the shares of all that are under way, its own with them, stay within what snapshots
  may hold, and leave the reserve of the file system free.
\<close>

theorem snapshots_under_way_fit_the_disk:
  assumes "in_flight gibibytes shares held" "in_flight_admit gibibytes disk wanted held = Inr held'"
    and "sd_snapshot_bytes disk + sum_list (wanted # shares) \<le> u64_max"
  shows "sd_snapshot_bytes disk + sum_list (wanted # shares) \<le> snapshot_budget disk \<and>
    sum_list (wanted # shares) + DISK_RESERVE_BYTES \<le> sd_available_bytes disk"
proof -
  have held: "held = sum_list shares" using in_flight_sum [OF assms(1)] .
  have small: "sd_snapshot_bytes disk + held + wanted < 2 ^ 64" "sd_snapshot_bytes disk + held \<le> u64_max"
    using assms(3) by (simp_all add: held u64_max_below)
  have "sd_snapshot_bytes disk + held + wanted \<le> snapshot_budget disk"
    "DISK_RESERVE_BYTES \<le> sd_available_bytes disk - held - wanted"
    using assms(2) small
    by (auto simp: in_flight_admit_def refusal_for_disk_def snapshot_budget_def Let_def not_less min_def
        split: option.splits if_splits)
  moreover have "0 < DISK_RESERVE_BYTES" by (simp add: DISK_RESERVE_BYTES_def)
  ultimately show ?thesis by (simp add: held)
qed

definition sample_disk :: snapshot_disk where
  "sample_disk = \<lparr>sd_total_bytes = 100 * 1073741824, sd_available_bytes = 50 * 1073741824, sd_cache_bytes = 0, sd_snapshot_bytes = 1073741824\<rparr>"

theorem snapshots_under_way_fit_the_disk_witness:
  "in_flight show_nat [1073741824] 1073741824 \<and> in_flight_admit show_nat sample_disk 1073741824 1073741824 = Inr 2147483648 \<and>
   sd_snapshot_bytes sample_disk + sum_list [1073741824, 1073741824] \<le> snapshot_budget sample_disk"
proof -
  have admits: "in_flight_admit show_nat sample_disk 1073741824 0 = Inr 1073741824"
    "in_flight_admit show_nat sample_disk 1073741824 1073741824 = Inr 2147483648"
    by (simp_all add: in_flight_admit_def refusal_for_disk_def snapshot_budget_def sample_disk_def DISK_RESERVE_BYTES_def u64_max_def)
  from admitted [OF none admits(1)] have first: "in_flight show_nat [1073741824] 1073741824"
    by (simp add: u64_max_def)
  with snapshots_under_way_fit_the_disk [OF first admits(2)] admits show ?thesis
    by (simp add: sample_disk_def u64_max_def)
qed

section \<open>Sealing and checking\<close>

record snapshot_file =
  sf_bytes :: nat
  sf_sha256 :: string

record snapshot_manifest =
  sm_stamp :: snapshot_stamp
  sm_state :: snapshot_file
  sm_memory :: snapshot_file

text \<open>The digest of a file that is not empty.\<close>

definition hash_file :: "(string \<Rightarrow> string) \<Rightarrow> string \<Rightarrow> snapshot_file option" where
  "hash_file sha256 content = (if content = [] then None else Some \<lparr>sf_bytes = length content, sf_sha256 = sha256 content\<rparr>)"

text \<open>
  A published directory: its files, or why one cannot be read, and its stamp file as it is read, as a stamp alone
  and as a manifest.
\<close>

record published_snapshot =
  ps_state :: "string + string"
  ps_memory :: "string + string"
  ps_stamp :: "snapshot_stamp option"
  ps_manifest :: "snapshot_manifest option"

text \<open>What the file system answers while a staged snapshot is published.\<close>

record publish_answers =
  pa_sealed :: bool
  pa_stamped :: bool
  pa_renamed :: bool
  pa_synced :: bool

definition publish :: "(string \<Rightarrow> string) \<Rightarrow> publish_answers \<Rightarrow> string \<Rightarrow> string \<Rightarrow> snapshot_stamp \<Rightarrow> (nat option \<times> published_snapshot option)" where
  "publish sha256 answers state memory mark =
     (case (hash_file sha256 state, hash_file sha256 memory) of
        (Some sealed_state, Some sealed_memory) \<Rightarrow>
          if \<not> pa_sealed answers \<or> \<not> pa_stamped answers \<or> \<not> pa_renamed answers then (None, None)
          else (if pa_synced answers then Some (sf_bytes sealed_memory) else None,
                Some \<lparr>ps_state = Inr state, ps_memory = Inr memory, ps_stamp = Some mark,
                      ps_manifest = Some \<lparr>sm_stamp = mark, sm_state = sealed_state, sm_memory = sealed_memory\<rparr>\<rparr>)
      | _ \<Rightarrow> (None, None))"

definition verify_file :: "(string \<Rightarrow> string) \<Rightarrow> string \<Rightarrow> string + string \<Rightarrow> snapshot_file \<Rightarrow> vm_error + unit" where
  "verify_file sha256 path content expected =
     (case content of
        Inl reason \<Rightarrow> Inl (SnapshotUnusable (path @ '' could not be verified: '' @ reason))
      | Inr bytes \<Rightarrow>
          if length bytes \<noteq> sf_bytes expected then Inl (SnapshotUnusable (path @ '' no longer matches its recorded size or SHA-256''))
          else case hash_file sha256 bytes of
                 None \<Rightarrow> Inl (SnapshotUnusable (path @ '' could not be verified: the file is empty''))
               | Some found \<Rightarrow>
                   if found = expected then Inr ()
                   else Inl (SnapshotUnusable (path @ '' no longer matches its recorded size or SHA-256'')))"

definition ensure_loadable :: "(string \<Rightarrow> string) \<Rightarrow> string \<Rightarrow> published_snapshot option \<Rightarrow> snapshot_stamp \<Rightarrow> vm_error + unit" where
  "ensure_loadable sha256 directory published expected =
     (case published of
        None \<Rightarrow> Inl (SnapshotUnusable ''this host kept none'')
      | Some found \<Rightarrow>
          (case ps_stamp found of
             None \<Rightarrow> Inl (SnapshotUnusable ''this host kept none'')
           | Some stored \<Rightarrow>
               (case drift_reason stored expected of
                  Some reason \<Rightarrow> Inl (SnapshotUnusable reason)
                | None \<Rightarrow>
                    (case ps_manifest found of
                       None \<Rightarrow> Inl (SnapshotUnusable ''its stamp has no readable integrity record'')
                     | Some manifest \<Rightarrow>
                         (case verify_file sha256 (directory @ ''/vmstate'') (ps_state found) (sm_state manifest) of
                            Inl e \<Rightarrow> Inl e
                          | Inr _ \<Rightarrow> verify_file sha256 (directory @ ''/memory'') (ps_memory found) (sm_memory manifest))))))"

lemma publish_found:
  assumes "publish sha256 answers state memory mark = (done_bytes, Some found)"
  shows "state \<noteq> [] \<and> memory \<noteq> [] \<and>
    found = \<lparr>ps_state = Inr state, ps_memory = Inr memory, ps_stamp = Some mark,
      ps_manifest = Some \<lparr>sm_stamp = mark, sm_state = \<lparr>sf_bytes = length state, sf_sha256 = sha256 state\<rparr>,
        sm_memory = \<lparr>sf_bytes = length memory, sf_sha256 = sha256 memory\<rparr>\<rparr>\<rparr>"
  using assms by (auto simp: publish_def hash_file_def split: if_splits option.splits)

text \<open>
  What was published loads again exactly under a stamp that names the same deployment, image, boot and
  slot, and as long as both files still have their sizes and digests.
\<close>

lemma published_snapshots_load:
  assumes "publish sha256 answers state memory mark = (done_bytes, Some found)"
  shows "ensure_loadable sha256 directory (Some found) expected = Inr () \<longleftrightarrow> drift_reason mark expected = None"
  using publish_found [OF assms] by (auto simp: ensure_loadable_def verify_file_def hash_file_def split: option.splits)

lemma changed_snapshots_are_refused:
  assumes "publish sha256 answers state memory mark = (done_bytes, Some found)"
    and "hash_file sha256 memory' \<noteq> hash_file sha256 memory"
  shows "ensure_loadable sha256 directory (Some (found\<lparr>ps_memory := Inr memory'\<rparr>)) expected \<noteq> Inr ()"
  using publish_found [OF assms(1)] assms(2)
  by (auto simp: ensure_loadable_def verify_file_def hash_file_def split: option.splits sum.splits if_splits)

lemma drift_reason_None:
  "drift_reason stored expected = None \<longleftrightarrow> stored = expected \<and> st_guest_image_version stored \<noteq> None"
  by (cases stored; cases expected) (auto simp: drift_reason_def)

section \<open>Reaping\<close>

text \<open>An entry of the snapshot directory, with what its removal would come to.\<close>

record snapshot_entry =
  se_name :: string
  se_is_dir :: bool
  se_exchange_boot_id :: "string option"
  se_content :: published_snapshot
  se_bytes :: nat
  se_removable :: bool

definition STAGING_PREFIX :: string where
  "STAGING_PREFIX = ''.pending-''"

definition is_kept :: "string \<Rightarrow> snapshot_entry \<Rightarrow> bool" where
  "is_kept host_boot_id entry \<longleftrightarrow>
     \<not> se_is_dir entry \<or>
     (se_name entry = ''.jailer'' \<and> se_exchange_boot_id entry = Some host_boot_id) \<or>
     (take (length STAGING_PREFIX) (se_name entry) \<noteq> STAGING_PREFIX \<and>
      (case ps_stamp (se_content entry) of None \<Rightarrow> False | Some mark \<Rightarrow> st_host_boot_id mark = host_boot_id))"

definition reap_stale_snapshots :: "string \<Rightarrow> snapshot_entry list \<Rightarrow> (nat \<times> nat) \<times> snapshot_entry list" where
  "reap_stale_snapshots host_boot_id entries =
     (let reaped = filter (\<lambda>entry. \<not> is_kept host_boot_id entry \<and> se_removable entry) entries
      in ((length reaped, sum_list (map se_bytes reaped)),
          filter (\<lambda>entry. is_kept host_boot_id entry \<or> \<not> se_removable entry) entries))"

text \<open>A snapshot that is reaped could not have been loaded, and one that could is kept.\<close>

lemma reaped_snapshots_could_not_load:
  assumes "entry \<in> set entries" "entry \<notin> set (snd (reap_stale_snapshots host_boot_id entries))"
    and "take (length STAGING_PREFIX) (se_name entry) \<noteq> STAGING_PREFIX" "st_host_boot_id expected = host_boot_id"
  shows "ensure_loadable sha256 directory (Some (se_content entry)) expected \<noteq> Inr ()"
  using assms
  by (auto simp: reap_stale_snapshots_def is_kept_def ensure_loadable_def drift_reason_None Let_def split: option.splits)

end
