(* ===== verification/MicroVm.thy ===== *)
theory MicroVm
  imports Snapshots
begin

text \<open>
  The microVM of an app (\<open>adapters/vm/manager.rs\<close> and \<open>process.rs\<close>): booting, sleeping, waking, stopping
  and discarding it, with its process, its record and its snapshot. An operation is a program of
  effects on what the host keeps of the microVM, calls to everything else, and looks at what is kept;
  between any two steps of it the guest may run or exit, the daemon may be killed and the host may
  reboot. Operations on one app follow one another, as its lock makes them; files the code removes are
  taken to be removed, a process that is stopped to end, and a process id not to be given out again
  while a record names it. Shown: a guest is never taken back in time. Whatever fails or stops
  wherever, a snapshot that is loaded holds the guest as it last was, and is loaded once.
\<close>

section \<open>A microVM\<close>

datatype guest_state = NoGuest | GuestRunning | GuestPaused

record vm_record_file =
  vr_host_boot_id :: string
  vr_guest_image_version :: "string option"
  vr_exit :: "vm_exit option"
  vr_stop_requested :: bool
  vr_jailed :: bool

text \<open>
  A snapshot on the disk: its stamp, if it still has one, and for the statements below which one it is
  and how much the guest had run when it was taken.
\<close>

record saved_snapshot =
  sv_stamp :: "snapshot_stamp option"
  sv_id :: nat
  sv_taken :: nat

text \<open>
  The process the record names, if it is alive, and what its guest does; a child that is not recorded
  yet, and the processes nothing names any more; the record; the published and the staged snapshot;
  and, to speak of them, how much the guest has run, how many snapshots were made, and those loaded:
  which, how much its guest had run when it was taken, and how much it had when it was loaded.
\<close>

record vm_app =
  vm_boot_id :: string
  vm_process :: "guest_state option"
  vm_child :: "guest_state option"
  vm_orphans :: "guest_state list"
  vm_record :: "vm_record_file option"
  vm_snapshot :: "saved_snapshot option"
  vm_staged :: "saved_snapshot option"
  vm_ran :: nat
  vm_made :: nat
  vm_loads :: "(nat \<times> nat \<times> nat) list"

definition process_status :: "vm_app \<Rightarrow> vm_status" where
  "process_status vm =
     (case vm_record vm of
        None \<Rightarrow> UNKNOWN_VM
      | Some r \<Rightarrow>
          (let started_this_boot = vr_host_boot_id r = vm_boot_id vm;
               active = (started_this_boot \<and> vr_exit r = None \<and> vm_process vm \<noteq> None)
           in \<lparr>vs_loaded = True, vs_active = active,
               vs_failed = (\<not> active \<and> \<not> vr_stop_requested r \<and>
                 (case vr_exit r of None \<Rightarrow> False | Some exit \<Rightarrow> exit \<noteq> VmCode 0)),
               vs_started_this_boot = started_this_boot, vs_exit = vr_exit r\<rparr>))"

definition vm_jailed :: "vm_app \<Rightarrow> bool" where
  "vm_jailed vm \<longleftrightarrow> (case vm_record vm of None \<Rightarrow> False | Some r \<Rightarrow> vr_jailed r)"

section \<open>Effects\<close>

datatype vm_effect =
    DiscardSnapshot
  | RemoveStamp
  | StageSnapshot
  | TakeSnapshot
  | PublishSnapshot snapshot_stamp
  | DropStaged
  | SpawnVmm bool
  | RecordVmm string
  | LoseChild
  | LoadSnapshot
  | PauseVm
  | ResumeVm
  | StopVmm
  | ForgetVm

definition named :: "guest_state option \<Rightarrow> guest_state list" where
  "named process = (case process of None \<Rightarrow> [] | Some g \<Rightarrow> [g])"

definition discard_snapshot :: "vm_app \<Rightarrow> vm_app" where
  [simp]: "discard_snapshot vm = vm\<lparr>vm_snapshot := None\<rparr>"

definition launch_record :: "string \<Rightarrow> vm_app \<Rightarrow> vm_record_file" where
  [simp]: "launch_record version vm =
     \<lparr>vr_host_boot_id = vm_boot_id vm, vr_guest_image_version = Some version, vr_exit = None, vr_stop_requested = False, vr_jailed = True\<rparr>"

definition processes_stop :: "vm_app \<Rightarrow> vm_app" where
  [simp]: "processes_stop vm =
     (case vm_record vm of
        None \<Rightarrow> vm
      | Some r \<Rightarrow> vm\<lparr>vm_process := None, vm_record := Some (r\<lparr>vr_stop_requested := True\<rparr>)\<rparr>)"

definition processes_forget :: "vm_app \<Rightarrow> vm_app" where
  [simp]: "processes_forget vm = vm\<lparr>vm_process := None, vm_orphans := named (vm_process vm) @ vm_orphans vm, vm_record := None\<rparr>"

text \<open>
  The VMM writes a snapshot of a paused guest only, and loads one only before it has a guest. A process
  whose record is written over or removed is named by nothing; so is a child whose record was never
  written, which is not killed when its handle is dropped.
\<close>

fun apply_effect :: "vm_effect \<Rightarrow> vm_app \<Rightarrow> vm_app" where
  "apply_effect DiscardSnapshot vm = discard_snapshot vm"
| "apply_effect RemoveStamp vm = vm\<lparr>vm_snapshot := map_option (sv_stamp_update (\<lambda>_. None)) (vm_snapshot vm)\<rparr>"
| "apply_effect StageSnapshot vm = vm\<lparr>vm_staged := None\<rparr>"
| "apply_effect TakeSnapshot vm =
     (if vm_process vm = Some GuestPaused
      then vm\<lparr>vm_staged := Some \<lparr>sv_stamp = None, sv_id = vm_made vm, sv_taken = vm_ran vm\<rparr>, vm_made := vm_made vm + 1\<rparr>
      else vm)"
| "apply_effect (PublishSnapshot mark) vm =
     vm\<lparr>vm_snapshot := map_option (sv_stamp_update (\<lambda>_. Some mark)) (vm_staged vm), vm_staged := None\<rparr>"
| "apply_effect DropStaged vm = vm\<lparr>vm_staged := None\<rparr>"
| "apply_effect (SpawnVmm boots) vm = vm\<lparr>vm_child := Some (if boots then GuestRunning else NoGuest)\<rparr>"
| "apply_effect (RecordVmm version) vm =
     vm\<lparr>vm_process := vm_child vm, vm_child := None, vm_orphans := named (vm_process vm) @ vm_orphans vm,
        vm_record := Some (launch_record version vm)\<rparr>"
| "apply_effect LoseChild vm = vm\<lparr>vm_child := None, vm_orphans := named (vm_child vm) @ vm_orphans vm\<rparr>"
| "apply_effect LoadSnapshot vm =
     (case (vm_process vm, vm_snapshot vm) of
        (Some NoGuest, Some snapshot) \<Rightarrow>
          vm\<lparr>vm_process := Some GuestPaused, vm_loads := (sv_id snapshot, sv_taken snapshot, vm_ran vm) # vm_loads vm\<rparr>
      | _ \<Rightarrow> vm)"
| "apply_effect PauseVm vm = (if vm_process vm = Some GuestRunning then vm\<lparr>vm_process := Some GuestPaused\<rparr> else vm)"
| "apply_effect ResumeVm vm = (if vm_process vm = Some GuestPaused then vm\<lparr>vm_process := Some GuestRunning\<rparr> else vm)"
| "apply_effect StopVmm vm = processes_stop vm"
| "apply_effect ForgetVm vm = processes_forget vm"

section \<open>Programs\<close>

text \<open>What is called outside, each answering with an error or with what was read.\<close>

datatype (plugins only: code) vm_call =
    AcquireStartPermit | EnsureTap | RefreshNeighbour | MakeWorkingDir | RenderInstanceEnv | BuildConfigImage
  | WriteFirecrackerConfig | StageJailInputs | AttachLogs | AttachCron | DetachLogs | DetachCron | GrantLogSocket
  | GrantCronSocket | SetTapOwner | PrepareJail | MakeRuntimeDir | LinkApiSocket | ConfigureCommand | CreateConsole
  | SpawnChild | WriteRecord | GuestInitialized | ReadConsole | FlushVolumes | FreezeTenant | WakeTenant | RequestPause
  | RequestResume | RequestSnapshot | RequestLoad | TookEffect | ReadMachineConfig | ReserveMemory | RestoreMemory
  | MakeStagingDir | MakeExchangeParent | WriteExchangeBootId | MakeExchange | TakeStateFile | TakeMemoryFile
  | SealState | SealMemory | WriteStamp | SyncStamp | SyncStaging | RenameStaging | SyncSnapshotDir | ReleaseCgroup
  | VerifySnapshot | ReadInstanceRecord | StatJail | OwnLogSocket | OwnCronSocket | LinkStateFile | LinkMemoryFile
  | RemoveWorkingDir | RemoveJail | RemoveExchange

datatype vm_program =
    Finish "vm_error + unit"
  | Act vm_effect vm_program
  | Ask vm_call "vm_error + string \<Rightarrow> vm_program"
  | Look "vm_app \<Rightarrow> vm_program"

definition call :: "vm_call \<Rightarrow> (vm_error \<Rightarrow> vm_program) \<Rightarrow> vm_program \<Rightarrow> vm_program" where
  "call c failed proceed = Ask c (\<lambda>answer. case answer of Inl e \<Rightarrow> failed e | Inr _ \<Rightarrow> proceed)"

definition tell :: "vm_call \<Rightarrow> vm_program \<Rightarrow> vm_program" where
  "tell c proceed = Ask c (\<lambda>_. proceed)"

primrec calls :: "vm_call list \<Rightarrow> (vm_error \<Rightarrow> vm_program) \<Rightarrow> vm_program \<Rightarrow> vm_program" where
  "calls [] failed proceed = proceed"
| "calls (c # cs) failed proceed = call c failed (calls cs failed proceed)"

definition fails :: "vm_error \<Rightarrow> vm_program" where
  "fails e = Finish (Inl e)"

definition host_failure :: "vm_error \<Rightarrow> vm_program" where
  "host_failure e = fails (VmHost (vm_error_message e))"

text \<open>A request to the VMM may have taken effect although its answer was an error or came too late.\<close>

definition request :: "vm_call \<Rightarrow> vm_effect \<Rightarrow> (vm_error \<Rightarrow> vm_program) \<Rightarrow> vm_program \<Rightarrow> vm_program" where
  "request c effect failed proceed =
     call c (\<lambda>e. Ask TookEffect (\<lambda>took. case took of Inl _ \<Rightarrow> failed e | Inr _ \<Rightarrow> Act effect (failed e))) (Act effect proceed)"

section \<open>Booting\<close>

record vm_request =
  rq_deployment_id :: deployment_id
  rq_slot :: nat
  rq_image :: string

definition current_stamp :: "vm_request \<Rightarrow> vm_app \<Rightarrow> snapshot_stamp" where
  "current_stamp rq vm =
     \<lparr>st_deployment_id = rq_deployment_id rq, st_guest_image_version = Some (rq_image rq),
      st_host_boot_id = vm_boot_id vm, st_slot = rq_slot rq\<rparr>"

definition sleep_stamp :: "vm_request \<Rightarrow> vm_app \<Rightarrow> snapshot_stamp" where
  "sleep_stamp rq vm =
     (current_stamp rq vm)\<lparr>st_guest_image_version := Option.bind (vm_record vm) vr_guest_image_version\<rparr>"

definition startup_failure :: "name_tables \<Rightarrow> vm_app \<Rightarrow> vm_error + string \<Rightarrow> vm_error \<Rightarrow> vm_error" where
  "startup_failure names vm console e =
     (let status = process_status vm;
          process = (case vs_exit status of
                       Some exit \<Rightarrow> vm_exit_describe names exit
                     | None \<Rightarrow> ''has active='' @ (if vs_active status then ''true'' else ''false''));
          tail = (case console of Inl error \<Rightarrow> ''could not read the console: '' @ vm_error_message error | Inr read \<Rightarrow> read)
      in VmHost (vm_error_message e @ ''; VMM '' @ process @ ''; console tail:'' @ [CHR 0x0A] @ tail))"

definition stage_inputs :: "(vm_error \<Rightarrow> vm_program) \<Rightarrow> vm_program \<Rightarrow> vm_program" where
  "stage_inputs failed proceed =
     calls [EnsureTap, RefreshNeighbour, MakeWorkingDir, RenderInstanceEnv, BuildConfigImage, WriteFirecrackerConfig, StageJailInputs]
       failed proceed"

definition attach_channels :: "(vm_error \<Rightarrow> vm_program) \<Rightarrow> vm_program \<Rightarrow> vm_program" where
  "attach_channels failed proceed = call AttachLogs failed (call AttachCron (\<lambda>e. tell DetachLogs (failed e)) proceed)"

definition prepare_jail :: "(vm_error \<Rightarrow> vm_program) \<Rightarrow> vm_program \<Rightarrow> vm_program" where
  "prepare_jail failed proceed =
     Look (\<lambda>vm.
       if vs_active (process_status vm) then failed (VmHost ''a running microVM cannot have its jail rebuilt'')
       else tell DetachLogs (tell DetachCron (call PrepareJail failed proceed)))"

definition stage :: "vm_program \<Rightarrow> vm_program" where
  "stage proceed =
     stage_inputs host_failure
       (prepare_jail host_failure
         (attach_channels host_failure
           (calls [GrantLogSocket, GrantCronSocket, SetTapOwner]
             (\<lambda>e. tell DetachCron (tell DetachLogs (host_failure e))) proceed)))"

definition spawn :: "bool \<Rightarrow> string \<Rightarrow> (vm_error \<Rightarrow> vm_program) \<Rightarrow> vm_program \<Rightarrow> vm_program" where
  "spawn boots version failed proceed =
     calls [MakeRuntimeDir, LinkApiSocket, ConfigureCommand, CreateConsole, SpawnChild] failed
       (Act (SpawnVmm boots)
         (call WriteRecord (\<lambda>e. Act LoseChild (failed e)) (Act (RecordVmm version) proceed)))"

definition boot :: "name_tables \<Rightarrow> vm_request \<Rightarrow> vm_program" where
  "boot names rq =
     call AcquireStartPermit (\<lambda>_. fails StartBusy)
       (Act DiscardSnapshot
         (stage
           (spawn True (rq_image rq) (\<lambda>e. tell DetachCron (tell DetachLogs (host_failure e)))
             (call GuestInitialized
               (\<lambda>e. Look (\<lambda>vm. Ask ReadConsole (\<lambda>console.
                  Act StopVmm (tell DetachCron (tell DetachLogs (fails (startup_failure names vm console e)))))))
               (Finish (Inr ()))))))"

section \<open>Sleeping\<close>

text \<open>
  Whether a guest may be snapshotted now: what the record says of it, the disk as it was measured, and the
  bytes of the snapshots under way. It returns those bytes with its own share.
\<close>

definition admit_snapshot ::
  "(nat \<Rightarrow> string) \<Rightarrow> instance_record option \<Rightarrow> vm_error + snapshot_disk \<Rightarrow> nat \<Rightarrow> string + nat" where
  "admit_snapshot gibibytes record measured held =
     (let subject = map_option (\<lambda>r. \<lparr>ss_stop_requested = ir_stop_requested r, ss_desired_running = ir_desired_running r,
                                     ss_ever_healthy = ht_ever_healthy (ir_health r)\<rparr>) record
      in case refusal_to_sleep subject of
           Some refusal \<Rightarrow> Inl refusal
         | None \<Rightarrow>
             (let wanted_bytes = (case record of None \<Rightarrow> 0 | Some r \<Rightarrow> snapshot_bytes_for (res_memory_mib (ir_resources r)))
              in case measured of
                   Inl _ \<Rightarrow> Inl ''the disk it would be written to cannot be measured''
                 | Inr disk \<Rightarrow> in_flight_admit gibibytes disk wanted_bytes held))"

definition resume_frozen_tenant :: "vm_program \<Rightarrow> vm_program" where
  "resume_frozen_tenant proceed =
     request RequestResume ResumeVm (\<lambda>_. Act StopVmm proceed) (call WakeTenant (\<lambda>_. Act StopVmm proceed) proceed)"

text \<open>The files the VMM wrote are moved to the staging directory; whatever fails discards the snapshot.\<close>

definition create_snapshot :: "(vm_error \<Rightarrow> vm_program) \<Rightarrow> vm_program \<Rightarrow> vm_program" where
  "create_snapshot failed proceed =
     calls [MakeExchangeParent, WriteExchangeBootId, MakeExchange] failed
       (request RequestSnapshot TakeSnapshot (\<lambda>e. Act DiscardSnapshot (failed e))
         (calls [TakeStateFile, TakeMemoryFile] (\<lambda>e. Act DiscardSnapshot (failed e)) proceed))"

text \<open>Publishing renames the staging directory, stamp and all; only the directory above can fail to be synced after that.\<close>

definition publish_sleep_snapshot :: "snapshot_stamp \<Rightarrow> (vm_error \<Rightarrow> vm_program) \<Rightarrow> vm_program \<Rightarrow> vm_program" where
  "publish_sleep_snapshot mark failed proceed =
     calls [SealState, SealMemory, WriteStamp, SyncStamp, SyncStaging, RenameStaging] failed
       (Act (PublishSnapshot mark) (call SyncSnapshotDir failed proceed))"

definition reserve_snapshot_memory :: "(vm_error \<Rightarrow> vm_program) \<Rightarrow> (bool \<Rightarrow> vm_program) \<Rightarrow> vm_program" where
  "reserve_snapshot_memory failed proceed =
     Look (\<lambda>vm. if vm_jailed vm then calls [ReadMachineConfig, ReserveMemory] failed (proceed True) else proceed False)"

text \<open>What follows the snapshot, whether or not it was published: the memory ceiling and the cgroup.\<close>

definition give_memory_back :: "bool \<Rightarrow> vm_error + unit \<Rightarrow> (vm_error \<Rightarrow> vm_program) \<Rightarrow> vm_program \<Rightarrow> vm_program" where
  "give_memory_back reserved outcome failed proceed =
     (let release = Look (\<lambda>vm.
        case outcome of
          Inl e \<Rightarrow> failed e
        | Inr _ \<Rightarrow>
            if vm_jailed vm
            then call ReleaseCgroup
                   (\<lambda>e. failed (VmHost (''the sleeping VM's cgroup could not be released: '' @ vm_error_message e))) proceed
            else proceed)
      in if reserved
         then call RestoreMemory
                (\<lambda>e. Act StopVmm (failed (VmHost (''the VM's memory ceiling could not be restored: '' @ vm_error_message e))))
                release
         else release)"

definition snapshot_paused_vm :: "snapshot_stamp \<Rightarrow> (vm_error \<Rightarrow> vm_program) \<Rightarrow> vm_program \<Rightarrow> vm_program" where
  "snapshot_paused_vm mark failed proceed =
     reserve_snapshot_memory failed (\<lambda>reserved.
       let unpublished = (\<lambda>e. Act DropStaged (Act DiscardSnapshot (give_memory_back reserved (Inl e) failed proceed)))
       in call MakeStagingDir unpublished
            (Act StageSnapshot
              (create_snapshot unpublished
                (publish_sleep_snapshot mark unpublished
                  (Act StopVmm (give_memory_back reserved (Inr ()) failed proceed))))))"

definition sleep :: "(string + nat) \<Rightarrow> vm_request \<Rightarrow> vm_program" where
  "sleep admission rq =
     (case admission of
        Inl reason \<Rightarrow> fails (SleepRefused reason)
      | Inr _ \<Rightarrow>
          Look (\<lambda>vm.
            let mark = sleep_stamp rq vm
            in Act DiscardSnapshot
                 (tell FlushVolumes
                   (call FreezeTenant (\<lambda>e. tell WakeTenant (fails e))
                     (request RequestPause PauseVm (\<lambda>e. resume_frozen_tenant (fails e))
                       (snapshot_paused_vm mark (\<lambda>e. resume_frozen_tenant (fails e)) (Finish (Inr ()))))))))"

section \<open>Waking, stopping and discarding\<close>

definition readopt :: "(vm_error \<Rightarrow> vm_program) \<Rightarrow> vm_program \<Rightarrow> vm_program" where
  "readopt failed proceed =
     (let own_sockets = (\<lambda>rest. Look (\<lambda>vm.
            if vm_jailed vm then calls [StatJail, OwnLogSocket, OwnCronSocket] failed rest else rest))
      in Ask ReadInstanceRecord (\<lambda>known. case known of
           Inl _ \<Rightarrow> proceed
         | Inr _ \<Rightarrow> attach_channels failed (own_sockets (own_sockets proceed))))"

definition resume_restored_tenant :: "(vm_error \<Rightarrow> vm_program) \<Rightarrow> vm_program \<Rightarrow> vm_program" where
  "resume_restored_tenant failed proceed =
     request RequestResume ResumeVm failed
       (call WakeTenant (\<lambda>e. failed (SnapshotUnusable (vm_error_message e)))
         (call RefreshNeighbour (\<lambda>e. failed (VmHost (vm_error_message e))) proceed))"

text \<open>
  Whether the published snapshot loads: its stamp is read and compared, its files are checked against the
  manifest (a call that may refuse them).
\<close>

definition verify_snapshot :: "vm_request \<Rightarrow> (vm_error \<Rightarrow> vm_program) \<Rightarrow> vm_program \<Rightarrow> vm_program" where
  "verify_snapshot rq failed proceed =
     Look (\<lambda>vm.
       case Option.bind (vm_snapshot vm) sv_stamp of
         None \<Rightarrow> failed (SnapshotUnusable ''this host kept none'')
       | Some stored \<Rightarrow>
           (case drift_reason stored (current_stamp rq vm) of
              Some reason \<Rightarrow> failed (SnapshotUnusable reason)
            | None \<Rightarrow> call VerifySnapshot failed proceed))"

definition wake_restore :: "vm_request \<Rightarrow> vm_program" where
  "wake_restore rq =
     prepare_jail fails
       (readopt fails
         (calls [GrantLogSocket, GrantCronSocket, SetTapOwner, LinkStateFile, LinkMemoryFile] host_failure
           (let failed = (\<lambda>e. Act StopVmm (Act DiscardSnapshot (fails e)))
            in spawn False (rq_image rq) (\<lambda>e. failed (VmHost (vm_error_message e)))
                 (request RequestLoad LoadSnapshot failed
                   (resume_restored_tenant failed (Act DiscardSnapshot (Finish (Inr ()))))))))"

definition wake :: "vm_request \<Rightarrow> vm_program" where
  "wake rq =
     call AcquireStartPermit (\<lambda>_. fails StartBusy)
       (verify_snapshot rq (\<lambda>e. Act DiscardSnapshot (fails e))
         (Look (\<lambda>vm.
           if \<not> vm_jailed vm
           then Act DiscardSnapshot (fails (SnapshotUnusable ''the snapshot was created by a legacy VMM without a jail''))
           else case drift_reason (sleep_stamp rq vm) (current_stamp rq vm) of
                  Some reason \<Rightarrow> Act DiscardSnapshot (fails (SnapshotUnusable reason))
                | None \<Rightarrow> Act RemoveStamp (wake_restore rq))))"

definition stop :: vm_program where
  "stop = Act DiscardSnapshot (Act StopVmm (Finish (Inr ())))"

definition discard :: vm_program where
  "discard =
     Act DiscardSnapshot (Act ForgetVm (tell DetachLogs (tell DetachCron
       (tell RemoveWorkingDir (tell RemoveJail (tell RemoveExchange (Finish (Inr ()))))))))"
section \<open>Runs\<close>

datatype vm_operation =
    Boot name_tables vm_request
  | Sleep "string + nat" vm_request
  | Wake vm_request
  | Stop
  | Discard

fun operation_program :: "vm_operation \<Rightarrow> vm_program" where
  "operation_program (Boot names rq) = boot names rq"
| "operation_program (Sleep admission rq) = sleep admission rq"
| "operation_program (Wake rq) = wake rq"
| "operation_program Stop = stop"
| "operation_program Discard = discard"

text \<open>What happens beside the daemon: the guest runs, its process ends, and its end is noted in the record.\<close>

inductive beside :: "vm_app \<Rightarrow> vm_app \<Rightarrow> bool" where
  runs: "vm_process vm = Some GuestRunning \<Longrightarrow> beside vm (vm\<lparr>vm_ran := vm_ran vm + 1\<rparr>)"
| ends: "beside vm (vm\<lparr>vm_process := None\<rparr>)"
| noted: "vm_process vm = None \<Longrightarrow> vm_record vm = Some r \<Longrightarrow> beside vm (vm\<lparr>vm_record := Some (r\<lparr>vr_exit := Some exit\<rparr>)\<rparr>)"

definition daemon_killed :: "vm_app \<Rightarrow> vm_app" where
  "daemon_killed vm = vm\<lparr>vm_child := None, vm_orphans := named (vm_child vm) @ vm_orphans vm, vm_staged := None\<rparr>"

definition rebooted :: "string \<Rightarrow> vm_app \<Rightarrow> vm_app" where
  "rebooted boot_id vm =
     vm\<lparr>vm_boot_id := boot_id, vm_process := None, vm_child := None, vm_orphans := [], vm_staged := None\<rparr>"

inductive vm_step :: "vm_program option \<times> vm_app \<Rightarrow> vm_program option \<times> vm_app \<Rightarrow> bool" where
  beside: "beside vm vm' \<Longrightarrow> vm_step (at_work, vm) (at_work, vm')"
| begins: "vm_step (None, vm) (Some (operation_program operation), vm)"
| acts: "vm_step (Some (Act effect p), vm) (Some p, apply_effect effect vm)"
| asks: "vm_step (Some (Ask c k), vm) (Some (k answer), vm)"
| looks: "vm_step (Some (Look k), vm) (Some (k vm), vm)"
| finishes: "vm_step (Some (Finish outcome), vm) (None, vm)"
| killed: "vm_step (Some p, vm) (None, daemon_killed vm)"
| reboots: "vm_step (at_work, vm) (None, rebooted boot_id vm)"

definition vm_fresh :: "string \<Rightarrow> vm_app" where
  "vm_fresh boot_id = \<lparr>vm_boot_id = boot_id, vm_process = None, vm_child = None, vm_orphans = [], vm_record = None,
     vm_snapshot = None, vm_staged = None, vm_ran = 0, vm_made = 0, vm_loads = []\<rparr>"

section \<open>Facts that stay\<close>

text \<open>
  What a program may know of its microVM at a point. Each holds until an effect of the program changes it:
  nothing that happens beside the daemon can.
\<close>

datatype vm_fact = Unstamped | Halted | Stopped | ChildIdle | StagedCurrent | Current

definition holds_current :: "saved_snapshot option \<Rightarrow> vm_app \<Rightarrow> bool" where
  "holds_current saved vm \<longleftrightarrow>
     vm_process vm \<noteq> Some GuestRunning \<and>
     pred_option (\<lambda>s. sv_taken s = vm_ran vm \<and> sv_id s \<notin> fst ` set (vm_loads vm)) saved"

definition has_stamp :: "saved_snapshot option \<Rightarrow> bool" where
  "has_stamp saved \<longleftrightarrow> Option.bind saved sv_stamp \<noteq> None"

lemma has_stamp_simps [simp]:
  "\<not> has_stamp None" "has_stamp (Some s) \<longleftrightarrow> sv_stamp s \<noteq> None"
  "\<not> has_stamp (map_option (sv_stamp_update (\<lambda>_. None)) saved)"
  "has_stamp (map_option (sv_stamp_update (\<lambda>_. Some mark)) saved) \<longleftrightarrow> saved \<noteq> None"
  by (cases saved; simp add: has_stamp_def)+

fun vm_fact_holds :: "vm_fact \<Rightarrow> vm_app \<Rightarrow> bool" where
  "vm_fact_holds Unstamped vm = (\<not> has_stamp (vm_snapshot vm))"
| "vm_fact_holds Halted vm = (vm_process vm \<noteq> Some GuestRunning)"
| "vm_fact_holds Stopped vm = (vm_process vm = None)"
| "vm_fact_holds ChildIdle vm = (vm_child vm \<noteq> Some GuestRunning)"
| "vm_fact_holds StagedCurrent vm = holds_current (vm_staged vm) vm"
| "vm_fact_holds Current vm = holds_current (vm_snapshot vm) vm"

text \<open>The invariant: a live process is one its record knows, and a stamped snapshot holds its guest as it last was.\<close>

definition live_known :: "vm_app \<Rightarrow> bool" where
  "live_known vm \<longleftrightarrow> (vm_process vm \<noteq> None \<longrightarrow> vs_active (process_status vm))"

definition stamped_current :: "vm_app \<Rightarrow> bool" where
  "stamped_current vm \<longleftrightarrow> (has_stamp (vm_snapshot vm) \<longrightarrow> holds_current (vm_snapshot vm) vm)"

definition snapshots_made :: "vm_app \<Rightarrow> bool" where
  "snapshots_made vm \<longleftrightarrow>
     pred_option (\<lambda>s. sv_id s < vm_made vm) (vm_staged vm) \<and> pred_option (\<lambda>s. sv_id s < vm_made vm) (vm_snapshot vm) \<and>
     list_all (\<lambda>(made, taken, ran). made < vm_made vm) (vm_loads vm)"

definition loads_current :: "vm_app \<Rightarrow> bool" where
  "loads_current vm \<longleftrightarrow> list_all (\<lambda>(made, taken, ran). taken = ran) (vm_loads vm) \<and> distinct (map fst (vm_loads vm))"

definition vm_sound :: "vm_app \<Rightarrow> bool" where
  "vm_sound vm \<longleftrightarrow> live_known vm \<and> stamped_current vm \<and> snapshots_made vm \<and> loads_current vm"

lemma live_known_iff:
  "live_known vm \<longleftrightarrow>
     vm_process vm = None \<or> (\<exists>r. vm_record vm = Some r \<and> vr_host_boot_id r = vm_boot_id vm \<and> vr_exit r = None)"
  by (auto simp: live_known_def process_status_def UNKNOWN_VM_def Let_def split: option.splits)

definition vm_knows :: "vm_fact set \<Rightarrow> vm_app \<Rightarrow> bool" where
  "vm_knows F vm \<longleftrightarrow> vm_sound vm \<and> (\<forall>f\<in>F. vm_fact_holds f vm)"

lemma beside_sound: "beside vm vm' \<Longrightarrow> vm_sound vm \<Longrightarrow> vm_sound vm'"
  by (induction rule: beside.induct)
    (auto simp: vm_sound_def live_known_iff stamped_current_def snapshots_made_def loads_current_def holds_current_def)

lemma beside_fact: "beside vm vm' \<Longrightarrow> vm_fact_holds f vm \<Longrightarrow> vm_fact_holds f vm'"
  by (induction rule: beside.induct; cases f) (auto simp: holds_current_def)

lemma beside_knows: "beside vm vm' \<Longrightarrow> vm_knows F vm \<Longrightarrow> vm_knows F vm'"
  using beside_sound beside_fact by (auto simp: vm_knows_def)

text \<open>What an effect needs to keep the invariant, and what is known after it.\<close>

fun effect_needs :: "vm_effect \<Rightarrow> vm_fact set \<Rightarrow> bool" where
  "effect_needs (PublishSnapshot mark) F = (StagedCurrent \<in> F)"
| "effect_needs (RecordVmm version) F = (Unstamped \<in> F)"
| "effect_needs LoadSnapshot F = (Current \<in> F \<and> Unstamped \<in> F)"
| "effect_needs ResumeVm F = (Unstamped \<in> F \<or> Stopped \<in> F)"
| "effect_needs _ F = True"

fun known_after :: "vm_effect \<Rightarrow> vm_fact set \<Rightarrow> vm_fact set" where
  "known_after DiscardSnapshot F = insert Unstamped F"
| "known_after RemoveStamp F = insert Unstamped F"
| "known_after StageSnapshot F = (if Halted \<in> F then insert StagedCurrent F else F)"
| "known_after TakeSnapshot F = F"
| "known_after (PublishSnapshot mark) F = insert Current (F - {Unstamped})"
| "known_after DropStaged F = F"
| "known_after (SpawnVmm boots) F = (if boots then F - {ChildIdle} else insert ChildIdle F)"
| "known_after (RecordVmm version) F = F - (if ChildIdle \<in> F then {Stopped} else {Stopped, Halted, StagedCurrent, Current})"
| "known_after LoseChild F = F"
| "known_after LoadSnapshot F = F - {Current, StagedCurrent}"
| "known_after PauseVm F = insert Halted F"
| "known_after ResumeVm F = (if Stopped \<in> F then F else F - {Halted, StagedCurrent, Current})"
| "known_after StopVmm F = F \<union> {Stopped, Halted}"
| "known_after ForgetVm F = F \<union> {Stopped, Halted}"

lemma effect_live_known: "live_known vm \<Longrightarrow> live_known (apply_effect e vm)"
  by (cases e) (auto simp: live_known_iff split: option.splits guest_state.splits)

lemma effect_snapshots_made: "snapshots_made vm \<Longrightarrow> snapshots_made (apply_effect e vm)"
  by (cases e) (auto simp: snapshots_made_def option.pred_map comp_def list_all_iff elim!: option.pred_mono_strong
      split: option.splits guest_state.splits)

lemma made_not_loaded: "snapshots_made vm \<Longrightarrow> vm_made vm \<notin> fst ` set (vm_loads vm)"
  by (auto simp: snapshots_made_def list_all_iff)

lemma knows_fact: "vm_knows F vm \<Longrightarrow> f \<in> F \<Longrightarrow> vm_fact_holds f vm"
  by (simp add: vm_knows_def)

lemmas knows_facts =
  knows_fact [where f = Unstamped, simplified] knows_fact [where f = Halted, simplified]
  knows_fact [where f = Stopped, simplified] knows_fact [where f = ChildIdle, simplified]
  knows_fact [where f = StagedCurrent, simplified] knows_fact [where f = Current, simplified]

lemma in_fst_image: "(x, y) \<in> A \<Longrightarrow> x \<in> fst ` A"
  by force

lemma effect_loads_current:
  assumes "effect_needs e F" "vm_knows F vm"
  shows "loads_current (apply_effect e vm)"
proof -
  have "loads_current vm" using assms(2) by (simp add: vm_knows_def vm_sound_def)
  with assms show ?thesis
    by (cases e) (auto simp: loads_current_def holds_current_def dest!: knows_facts(6) dest: in_fst_image
        split: option.splits guest_state.splits)
qed

lemma effect_stamped_current:
  assumes "effect_needs e F" "vm_knows F vm"
  shows "stamped_current (apply_effect e vm)"
proof -
  have "stamped_current vm" "snapshots_made vm" "live_known vm"
    using assms(2) by (simp_all add: vm_knows_def vm_sound_def)
  with assms show ?thesis
    by (cases e) (auto simp: stamped_current_def holds_current_def option.pred_map comp_def live_known_iff dest: knows_facts
        split: option.splits guest_state.splits)
qed

lemma effect_facts:
  assumes "effect_needs e F" "vm_knows F vm" "f \<in> known_after e F"
  shows "vm_fact_holds f (apply_effect e vm)"
proof -
  have "live_known vm" "vm_made vm \<notin> fst ` set (vm_loads vm)"
    using assms(2) by (simp_all add: vm_knows_def vm_sound_def made_not_loaded)
  with assms show ?thesis
    by (cases e; cases f) (auto simp: holds_current_def option.pred_map comp_def live_known_iff dest: knows_facts
        split: option.splits guest_state.splits if_splits)
qed

lemma effect_knows:
  assumes "effect_needs e F" "vm_knows F vm"
  shows "vm_knows (known_after e F) (apply_effect e vm)"
  using assms effect_facts [OF assms] effect_stamped_current [OF assms] effect_loads_current [OF assms]
  by (simp add: vm_knows_def vm_sound_def effect_live_known effect_snapshots_made)

section \<open>Programs that keep the invariant\<close>

inductive keeps_sound :: "vm_fact set \<Rightarrow> vm_program \<Rightarrow> bool" where
  finish: "keeps_sound F (Finish outcome)"
| act: "effect_needs e F \<Longrightarrow> keeps_sound (known_after e F) p \<Longrightarrow> keeps_sound F (Act e p)"
| ask: "(\<And>answer. keeps_sound F (k answer)) \<Longrightarrow> keeps_sound F (Ask c k)"
| look: "(\<And>vm. vm_knows F vm \<Longrightarrow> keeps_sound {f. vm_fact_holds f vm} (k vm)) \<Longrightarrow> keeps_sound F (Look k)"

inductive_cases keeps_soundE:
  "keeps_sound F (Act e p)" "keeps_sound F (Ask c k)" "keeps_sound F (Look k)"

lemma needs_mono: "effect_needs e F \<Longrightarrow> F \<subseteq> G \<Longrightarrow> effect_needs e G"
  by (cases e) auto

lemma known_after_mono: "F \<subseteq> G \<Longrightarrow> known_after e F \<subseteq> known_after e G"
  by (cases e) auto

lemma keeps_sound_mono: "keeps_sound F p \<Longrightarrow> F \<subseteq> G \<Longrightarrow> keeps_sound G p"
proof (induction arbitrary: G rule: keeps_sound.induct)
  case (act e F p)
  then show ?case by (meson keeps_sound.act needs_mono known_after_mono)
next
  case (look F k)
  have "keeps_sound {f. vm_fact_holds f vm} (k vm)" if "vm_knows G vm" for vm
    using that look.prems look.hyps [of vm] by (auto simp: vm_knows_def)
  then show ?case by (rule keeps_sound.look)
qed (auto intro: keeps_sound.intros)

text \<open>One rule for each way programs are put together; a part is shown for what any program after it needs.\<close>

lemma keeps_sound_fails [intro, simp]: "keeps_sound F (fails e)" "keeps_sound F (host_failure e)"
  by (simp_all add: fails_def host_failure_def finish)

lemma keeps_sound_call [intro]:
  "(\<And>e. keeps_sound F (failed e)) \<Longrightarrow> keeps_sound F proceed \<Longrightarrow> keeps_sound F (call c failed proceed)"
  unfolding call_def by (rule ask) (simp split: sum.splits)

lemma keeps_sound_tell [intro]: "keeps_sound F proceed \<Longrightarrow> keeps_sound F (tell c proceed)"
  unfolding tell_def by (rule ask)

lemma keeps_sound_calls [intro]:
  "(\<And>e. keeps_sound F (failed e)) \<Longrightarrow> keeps_sound F proceed \<Longrightarrow> keeps_sound F (calls cs failed proceed)"
  by (induction cs) auto

lemma keeps_sound_request [intro]:
  assumes "effect_needs e F" "\<And>err. keeps_sound F (failed err)" "\<And>err. keeps_sound (known_after e F) (failed err)"
    and "keeps_sound (known_after e F) proceed"
  shows "keeps_sound F (request c e failed proceed)"
  unfolding request_def using assms by (intro keeps_sound_call ask) (auto intro: act split: sum.splits)

lemma keeps_sound_look_known:
  assumes "\<And>vm. vm_knows F vm \<Longrightarrow> keeps_sound F (k vm)"
  shows "keeps_sound F (Look k)"
  by (rule look) (auto intro: keeps_sound_mono [OF assms] simp: vm_knows_def)

lemma keeps_sound_attach_channels [intro]:
  "(\<And>e. keeps_sound F (failed e)) \<Longrightarrow> keeps_sound F proceed \<Longrightarrow> keeps_sound F (attach_channels failed proceed)"
  unfolding attach_channels_def by auto

lemma keeps_sound_prepare_jail [intro]:
  assumes "\<And>e. keeps_sound F (failed e)" "keeps_sound (F \<union> {Stopped, Halted}) proceed"
  shows "keeps_sound F (prepare_jail failed proceed)"
  unfolding prepare_jail_def
proof (rule look)
  fix vm assume knows: "vm_knows F vm"
  let ?G = "{f. vm_fact_holds f vm}"
  from knows have F: "F \<subseteq> ?G" by (auto simp: vm_knows_def)
  show "keeps_sound ?G (if vs_active (process_status vm) then failed (VmHost ''a running microVM cannot have its jail rebuilt'')
       else tell DetachLogs (tell DetachCron (call PrepareJail failed proceed)))"
  proof (cases "vs_active (process_status vm)")
    case True
    then show ?thesis using keeps_sound_mono [OF assms(1) F] by simp
  next
    case False
    with knows have "vm_process vm = None" by (auto simp: vm_knows_def vm_sound_def live_known_def)
    with F have "F \<union> {Stopped, Halted} \<subseteq> ?G" by auto
    from keeps_sound_mono [OF assms(2) this] keeps_sound_mono [OF assms(1) F] False show ?thesis by auto
  qed
qed

lemma keeps_sound_spawn [intro]:
  assumes "Unstamped \<in> F" "\<And>e G. Unstamped \<in> G \<Longrightarrow> keeps_sound G (failed e)"
    and "keeps_sound (known_after (RecordVmm version) (known_after (SpawnVmm boots) F)) proceed"
  shows "keeps_sound F (spawn boots version failed proceed)"
  unfolding spawn_def using assms by (intro keeps_sound_calls act keeps_sound_call) (auto intro!: act)

lemma keeps_sound_readopt [intro]:
  assumes "\<And>e. keeps_sound F (failed e)" "keeps_sound F proceed"
  shows "keeps_sound F (readopt failed proceed)"
proof -
  have own: "keeps_sound F (Look (\<lambda>vm. if vm_jailed vm then calls [StatJail, OwnLogSocket, OwnCronSocket] failed rest else rest))"
    if "keeps_sound F rest" for rest
    using assms(1) that by (intro keeps_sound_look_known) auto
  show ?thesis unfolding readopt_def Let_def using assms
    by (intro ask) (auto intro!: own split: sum.splits)
qed

lemma keeps_sound_resume_frozen [intro]:
  assumes "Unstamped \<in> F \<or> Stopped \<in> F" "\<And>G. keeps_sound G proceed"
  shows "keeps_sound F (resume_frozen_tenant proceed)"
  unfolding resume_frozen_tenant_def using assms by (intro keeps_sound_request keeps_sound_call act) auto

lemma keeps_sound_give_memory_back [intro]:
  assumes "Stopped \<in> F \<or> (Unstamped \<in> F \<and> outcome \<noteq> Inr ())"
    and "\<And>e G. Unstamped \<in> G \<or> Stopped \<in> G \<Longrightarrow> keeps_sound G (failed e)" "\<And>G. keeps_sound G proceed"
  shows "keeps_sound F (give_memory_back reserved outcome failed proceed)"
  unfolding give_memory_back_def Let_def using assms
  by (cases reserved) (auto intro!: keeps_sound_call act keeps_sound_look_known split: sum.splits)

lemma keeps_sound_create_snapshot [intro]:
  assumes "\<And>e G. keeps_sound G (failed e)" "keeps_sound F proceed"
  shows "keeps_sound F (create_snapshot failed proceed)"
  unfolding create_snapshot_def using assms by (intro keeps_sound_calls keeps_sound_request act) auto

lemma keeps_sound_publish [intro]:
  assumes "StagedCurrent \<in> F" "\<And>e G. keeps_sound G (failed e)" "keeps_sound (insert Current (F - {Unstamped})) proceed"
  shows "keeps_sound F (publish_sleep_snapshot mark failed proceed)"
  unfolding publish_sleep_snapshot_def using assms by (intro keeps_sound_calls keeps_sound_call act) auto

lemma keeps_sound_reserve [intro]:
  assumes "\<And>e. keeps_sound F (failed e)" "\<And>reserved. keeps_sound F (proceed reserved)"
  shows "keeps_sound F (reserve_snapshot_memory failed proceed)"
proof -
  have "keeps_sound F (calls [ReadMachineConfig, ReserveMemory] failed (proceed True))"
    using assms by (rule keeps_sound_calls)
  with assms(2) show ?thesis unfolding reserve_snapshot_memory_def
    by (intro keeps_sound_look_known) (simp split: if_split)
qed

lemma keeps_sound_snapshot_paused [intro]:
  assumes "Halted \<in> F" "Unstamped \<in> F"
    and "\<And>e G. Unstamped \<in> G \<or> Stopped \<in> G \<Longrightarrow> keeps_sound G (failed e)" "\<And>G. keeps_sound G proceed"
  shows "keeps_sound F (snapshot_paused_vm mark failed proceed)"
proof -
  have unpublished: "keeps_sound G (Act DropStaged (Act DiscardSnapshot (give_memory_back reserved (Inl e) failed proceed)))" for reserved e G
    using assms(3,4) by (intro act keeps_sound_give_memory_back) auto
  have published: "keeps_sound G (Act StopVmm (give_memory_back reserved (Inr ()) failed proceed))" for reserved G
    using assms(3,4) by (intro act keeps_sound_give_memory_back) auto
  show ?thesis unfolding snapshot_paused_vm_def Let_def using assms(1-3)
    by (intro keeps_sound_reserve keeps_sound_call unpublished keeps_sound_create_snapshot keeps_sound_publish published keeps_sound.act) auto
qed

lemma keeps_sound_boot: "keeps_sound F (boot names rq)"
  unfolding boot_def stage_def stage_inputs_def
  by (intro keeps_sound_call keeps_sound_calls keeps_sound_prepare_jail keeps_sound_attach_channels keeps_sound_spawn
      keeps_sound_tell keeps_sound_fails keeps_sound_look_known ask act finish) auto

lemma keeps_sound_sleep: "keeps_sound F (sleep admission rq)"
  unfolding sleep_def Let_def
  by (auto intro!: keeps_sound_look_known act keeps_sound_tell keeps_sound_call keeps_sound_request finish
      keeps_sound_snapshot_paused keeps_sound_resume_frozen split: sum.splits)

lemma keeps_sound_resume_restored [intro]:
  assumes "Unstamped \<in> F" "\<And>e G. keeps_sound G (failed e)" "\<And>G. keeps_sound G proceed"
  shows "keeps_sound F (resume_restored_tenant failed proceed)"
  unfolding resume_restored_tenant_def using assms by (intro keeps_sound_request keeps_sound_call) auto

lemma keeps_sound_wake_restore:
  assumes "Unstamped \<in> F" "Current \<in> F"
  shows "keeps_sound F (wake_restore rq)"
  unfolding wake_restore_def Let_def using assms
  by (intro keeps_sound_prepare_jail keeps_sound_readopt keeps_sound_calls keeps_sound_spawn keeps_sound_request
      keeps_sound_resume_restored keeps_sound_fails act finish) auto

lemma keeps_sound_wake: "keeps_sound F (wake rq)"
proof -
  have restore: "keeps_sound G (Act RemoveStamp (wake_restore rq))" if "Current \<in> G" for G
    using that by (intro act keeps_sound_wake_restore) auto
  have rest: "keeps_sound G (Look (\<lambda>vm.
      if \<not> vm_jailed vm then Act DiscardSnapshot (fails (SnapshotUnusable ''the snapshot was created by a legacy VMM without a jail''))
      else case drift_reason (sleep_stamp rq vm) (current_stamp rq vm) of
             Some reason \<Rightarrow> Act DiscardSnapshot (fails (SnapshotUnusable reason))
           | None \<Rightarrow> Act RemoveStamp (wake_restore rq)))" if "Current \<in> G" for G
    using that by (intro keeps_sound_look_known) (auto intro!: act restore split: option.splits)
  have "keeps_sound G (verify_snapshot rq (\<lambda>e. Act DiscardSnapshot (fails e)) p)"
    if "\<And>H. Current \<in> H \<Longrightarrow> keeps_sound H p" for G p
    unfolding verify_snapshot_def
    by (rule look) (auto intro!: act that keeps_sound_call simp: vm_knows_def vm_sound_def stamped_current_def has_stamp_def
        split: option.splits)
  with rest show ?thesis unfolding wake_def by (intro keeps_sound_call) auto
qed

lemma operations_keep_sound: "keeps_sound F (operation_program operation)"
  by (cases operation) (auto simp: keeps_sound_boot keeps_sound_sleep keeps_sound_wake stop_def discard_def
      intro!: act keeps_sound_tell finish)

section \<open>A guest is never taken back\<close>

definition configuration_sound :: "vm_program option \<times> vm_app \<Rightarrow> bool" where
  "configuration_sound configuration \<longleftrightarrow>
     (case fst configuration of
        None \<Rightarrow> vm_sound (snd configuration)
      | Some p \<Rightarrow> \<exists>F. vm_knows F (snd configuration) \<and> keeps_sound F p)"

lemma interrupted_sound: "vm_sound vm \<Longrightarrow> vm_sound (daemon_killed vm)" "vm_sound vm \<Longrightarrow> vm_sound (rebooted boot_id vm)"
  by (auto simp: vm_sound_def live_known_iff stamped_current_def snapshots_made_def loads_current_def holds_current_def
      daemon_killed_def rebooted_def)

lemma configuration_vm_sound: "configuration_sound (at_work, vm) \<Longrightarrow> vm_sound vm"
  by (auto simp: configuration_sound_def vm_knows_def split: option.splits)

lemma vm_step_sound: "vm_step a b \<Longrightarrow> configuration_sound a \<Longrightarrow> configuration_sound b"
proof (induction rule: vm_step.induct)
  case (beside vm vm' at_work)
  then show ?case using beside_knows beside_sound by (fastforce simp: configuration_sound_def split: option.splits)
next
  case (begins vm operation)
  then show ?case using operations_keep_sound [of "{}"] by (auto simp: configuration_sound_def vm_knows_def)
next
  case (acts effect p vm)
  then show ?case using effect_knows by (auto simp: configuration_sound_def elim!: keeps_soundE)
next
  case (looks k vm)
  then show ?case by (force simp: configuration_sound_def vm_knows_def elim!: keeps_soundE)
next
  case (killed p vm)
  then show ?case by (auto simp: configuration_sound_def vm_knows_def interrupted_sound)
next
  case (reboots at_work vm boot_id)
  from configuration_vm_sound [OF this] show ?case by (simp add: configuration_sound_def interrupted_sound)
qed (auto simp: configuration_sound_def vm_knows_def elim!: keeps_soundE)

lemma reached_sound:
  assumes "vm_step\<^sup>*\<^sup>* (None, vm_fresh boot_id) configuration"
  shows "configuration_sound configuration"
  using assms
proof (induction rule: rtranclp_induct)
  case base
  show ?case by (simp add: configuration_sound_def vm_sound_def vm_fresh_def live_known_iff stamped_current_def
      snapshots_made_def loads_current_def)
qed (rule vm_step_sound)


definition sample_request :: vm_request where
  "sample_request = \<lparr>rq_deployment_id = ''dep-1'', rq_slot = 7, rq_image = ''6.1.180''\<rparr>"

text \<open>A run in which each call is answered in its own way, and nothing happens beside it.\<close>

primrec perform :: "(vm_call \<Rightarrow> vm_error + string) \<Rightarrow> vm_program \<Rightarrow> vm_app \<Rightarrow> (vm_error + unit) \<times> vm_app" where
  "perform answers (Finish outcome) vm = (outcome, vm)"
| "perform answers (Act e p) vm = perform answers p (apply_effect e vm)"
| "perform answers (Ask c k) vm = perform answers (k (answers c)) vm"
| "perform answers (Look k) vm = perform answers (k vm) vm"

definition all_well :: "vm_call \<Rightarrow> vm_error + string" where
  "all_well c = Inr []"

lemma perform_steps: "vm_step\<^sup>*\<^sup>* (Some p, vm) (None, snd (perform answers p vm))"
proof (induction p arbitrary: vm)
  case (Finish outcome)
  then show ?case by (auto intro: finishes)
next
  case (Act e p)
  from converse_rtranclp_into_rtranclp [OF acts this] show ?case by simp
next
  case (Ask c k)
  from converse_rtranclp_into_rtranclp [OF asks [of c k vm "answers c"] Ask [OF rangeI]] show ?case by simp
next
  case (Look k)
  from converse_rtranclp_into_rtranclp [OF looks [of k vm] Look [OF rangeI]] show ?case by simp
qed

lemma operation_steps: "vm_step\<^sup>*\<^sup>* (None, vm) (None, snd (perform answers (operation_program operation) vm))"
  using converse_rtranclp_into_rtranclp [OF begins perform_steps] .

lemma perform_parts [simp]:
  "perform answers (call c failed p) vm = (case answers c of Inl e \<Rightarrow> perform answers (failed e) vm | Inr _ \<Rightarrow> perform answers p vm)"
  "perform answers (tell c p) vm = perform answers p vm"
  "perform all_well (request c e failed p) vm = perform all_well p (apply_effect e vm)"
  by (simp_all add: call_def tell_def request_def all_well_def split: sum.splits)

lemmas perform_operations =
  boot_def stage_def stage_inputs_def prepare_jail_def attach_channels_def spawn_def sleep_def snapshot_paused_vm_def
  reserve_snapshot_memory_def create_snapshot_def publish_sleep_snapshot_def give_memory_back_def wake_def
  verify_snapshot_def wake_restore_def readopt_def resume_restored_tenant_def fails_def host_failure_def Let_def

text \<open>
  (C11) What sleeps wakes. A running guest that this image booted is put to sleep and woken with the same
  request, when nothing fails and nothing happens in between: it is loaded from the snapshot taken then, runs on from
  where it was, and leaves no snapshot behind.
\<close>

theorem a_sleeping_guest_wakes_as_it_was:
  assumes "vm_process vm = Some GuestRunning" "vm_record vm = Some r" "vr_host_boot_id r = vm_boot_id vm" "vr_exit r = None"
    and "vr_guest_image_version r = Some (rq_image rq)" "vr_jailed r"
    and "perform all_well (sleep (Inr held) rq) vm = (slept, asleep)" "perform all_well (wake rq) asleep = (woke, awake)"
  shows "slept = Inr () \<and> vm_process asleep = None \<and> has_stamp (vm_snapshot asleep) \<and>
    woke = Inr () \<and> vm_process awake = Some GuestRunning \<and> vm_snapshot awake = None \<and> vm_ran awake = vm_ran vm \<and>
    vm_loads awake = (vm_made vm, vm_ran vm, vm_ran vm) # vm_loads vm"
proof -
  let ?saved = "\<lparr>sv_stamp = Some (sleep_stamp rq vm), sv_id = vm_made vm, sv_taken = vm_ran vm\<rparr>"
  have asleep: "slept = Inr ()" "asleep = vm\<lparr>vm_process := None, vm_snapshot := Some ?saved, vm_staged := None,
      vm_made := vm_made vm + 1, vm_record := Some (r\<lparr>vr_stop_requested := True\<rparr>)\<rparr>"
    using assms(1-7) by (auto simp: perform_operations all_well_def vm_jailed_def)
  have "drift_reason (sleep_stamp rq vm) (current_stamp rq asleep) = None" "sleep_stamp rq asleep = sleep_stamp rq vm"
    using assms(2,5) by (simp_all add: drift_reason_None sleep_stamp_def current_stamp_def asleep(2))
  with assms(2,5,6,8) asleep(2) have "woke = Inr ()" "vm_process awake = Some GuestRunning" "vm_snapshot awake = None"
    "vm_ran awake = vm_ran vm" "vm_loads awake = (vm_made vm, vm_ran vm, vm_ran vm) # vm_loads vm"
    by (auto simp: perform_operations all_well_def vm_jailed_def process_status_def)
  with asleep show ?thesis by simp
qed

definition booted_vm :: vm_app where
  "booted_vm = (vm_fresh ''boot-1'')\<lparr>vm_process := Some GuestRunning, vm_ran := 1,
     vm_record := Some \<lparr>vr_host_boot_id = ''boot-1'', vr_guest_image_version = Some ''6.1.180'', vr_exit = None,
       vr_stop_requested = False, vr_jailed = True\<rparr>\<rparr>"

definition woken_vm :: vm_app where
  "woken_vm = booted_vm\<lparr>vm_made := 1, vm_loads := [(0, 1, 1)]\<rparr>"

lemma boots: "snd (perform all_well (operation_program (Boot names sample_request)) (vm_fresh ''boot-1'')) = booted_vm\<lparr>vm_ran := 0\<rparr>"
  by (simp add: perform_operations all_well_def process_status_def UNKNOWN_VM_def vm_fresh_def booted_vm_def sample_request_def named_def)

lemma sleeps_and_wakes:
  "snd (perform all_well (wake sample_request) (snd (perform all_well (sleep (Inr 0) sample_request) booted_vm))) = woken_vm"
  by (simp add: perform_operations all_well_def process_status_def vm_fresh_def booted_vm_def woken_vm_def sample_request_def
      sleep_stamp_def current_stamp_def drift_reason_def vm_jailed_def named_def)

lemma woken_reached: "vm_step\<^sup>*\<^sup>* (None, vm_fresh ''boot-1'') (None, woken_vm)"
proof -
  have "vm_step\<^sup>*\<^sup>* (None, vm_fresh ''boot-1'') (None, booted_vm\<lparr>vm_ran := 0\<rparr>)"
    using operation_steps [of "vm_fresh ''boot-1''" all_well "Boot names sample_request"] by (simp only: boots)
  also have "vm_step (None, booted_vm\<lparr>vm_ran := 0\<rparr>) (None, booted_vm)"
    using beside [OF runs [of "booted_vm\<lparr>vm_ran := 0\<rparr>"], of None] by (simp add: booted_vm_def vm_fresh_def)
  also have "vm_step\<^sup>*\<^sup>* (None, booted_vm) (None, snd (perform all_well (sleep (Inr 0) sample_request) booted_vm))"
    using operation_steps [of booted_vm all_well "Sleep (Inr 0) sample_request"] by simp
  also have "vm_step\<^sup>*\<^sup>* (None, snd (perform all_well (sleep (Inr 0) sample_request) booted_vm)) (None, woken_vm)"
    using operation_steps [of "snd (perform all_well (sleep (Inr 0) sample_request) booted_vm)" all_well "Wake sample_request"]
    by (simp add: sleeps_and_wakes)
  finally show ?thesis .
qed


theorem a_sleeping_guest_wakes_as_it_was_witness:
  "vm_process booted_vm = Some GuestRunning \<and>
   vm_loads (snd (perform all_well (wake sample_request) (snd (perform all_well (sleep (Inr 0) sample_request) booted_vm)))) = [(0, 1, 1)]"
proof -
  let ?asleep = "perform all_well (sleep (Inr 0) sample_request) booted_vm"
  have "vm_process booted_vm = Some GuestRunning" by (simp add: booted_vm_def)
  moreover note a_sleeping_guest_wakes_as_it_was
    [of booted_vm "the (vm_record booted_vm)" sample_request 0 "fst ?asleep" "snd ?asleep"
      "fst (perform all_well (wake sample_request) (snd ?asleep))" "snd (perform all_well (wake sample_request) (snd ?asleep))"]
  ultimately show ?thesis by (simp add: booted_vm_def vm_fresh_def sample_request_def)
qed

section \<open>A guest nothing names\<close>

definition record_unwritten :: "vm_call \<Rightarrow> vm_error + string" where
  "record_unwritten c = (if c = WriteRecord then Inl (VmHost ''no space left on device'') else Inr [])"

end
