(* ===== verification/ImageTree.thy ===== *)
theory ImageTree
  imports Frames Text
begin

text \<open>
  The filesystem of an OCI image (\<open>crates/oci-image/src/filesystem.rs\<close>): layers are applied one after the
  other, with their whiteouts, links and replaced directories, and what comes out is written as one
  archive. The entries of an archive are what the tar reader yields; two nodes with the same identity
  share their content. Shown: whatever layers are applied, the names stay inside the image, every name
  lies beneath directories, and what is written names only what was written before it.
\<close>

section \<open>Nodes\<close>

datatype image_error = ImageIo string | ImageJson string | ImageInvalid string

datatype image_kind = ImgDirectory | ImgFile string | ImgSymlink string | ImgHardlink string

record image_node =
  nd_header :: string
  nd_attributes :: "(string \<times> string) list"
  nd_kind :: image_kind
  nd_identity :: nat

text \<open>The nodes by their names, and the identity the next content gets.\<close>

record image_tree =
  it_nodes :: "(string, image_node) btree"
  it_next :: nat

definition MAX_ENTRIES :: nat where
  "MAX_ENTRIES = 100000"

abbreviation slash :: char where
  "slash \<equiv> CHR ''/''"

text \<open>The header \<open>directory\<close> makes is one of the tar library.\<close>

definition directory_header :: string where
  "directory_header = ''directory''"

definition directory_node :: "nat \<Rightarrow> image_node" where
  "directory_node identity = \<lparr>nd_header = directory_header, nd_attributes = [], nd_kind = ImgDirectory, nd_identity = identity\<rparr>"

definition image_tree_new :: image_tree where
  "image_tree_new = \<lparr>it_nodes = [([], directory_node 0)], it_next = 1\<rparr>"

section \<open>Paths\<close>

text \<open>The names of an archive path: neither absolute nor with a parent component, and readable.\<close>

fun path_names :: "string list \<Rightarrow> image_error + string list" where
  "path_names [] = Inr []"
| "path_names (c # cs) =
     (if c = [] \<or> c = ''.'' then path_names cs
      else if c = ''..'' then Inl (ImageInvalid ''an archive path is absolute or contains a parent component'')
      else if \<not> utf8_valid c then Inl (ImageInvalid ''a path is not UTF-8'')
      else and_then (path_names cs) (\<lambda>names. Inr (c # names)))"

definition archive_path :: "string \<Rightarrow> image_error + string" where
  "archive_path path =
     (if starts_with [slash] path then Inl (ImageInvalid ''an archive path is absolute or contains a parent component'')
      else and_then (path_names (split_on slash path)) (\<lambda>names. Inr (join_with slash names)))"

text \<open>Symbolic links are followed inside the image, at most forty of them.\<close>

function (sequential) resolve_loop ::
  "(string, image_node) btree \<Rightarrow> bool \<Rightarrow> nat \<Rightarrow> string list \<Rightarrow> string list \<Rightarrow> image_error + string" where
  "resolve_loop nodes follow_final links [] resolved = Inr (join_with slash resolved)"
| "resolve_loop nodes follow_final links (name # pending) resolved =
     (if name = [] \<or> name = ''.'' then resolve_loop nodes follow_final links pending resolved
      else if name = ''..'' then resolve_loop nodes follow_final links pending (butlast resolved)
      else let deeper = resolved @ [name]
           in case map_option nd_kind (map_of nodes (join_with slash deeper)) of
                Some (ImgSymlink target) \<Rightarrow>
                  if pending \<noteq> [] \<or> follow_final
                  then case links of
                         0 \<Rightarrow> Inl (ImageInvalid ''an image path has too many symbolic links'')
                       | Suc left \<Rightarrow>
                           if \<not> utf8_valid target then Inl (ImageInvalid ''a symbolic link is not UTF-8'')
                           else resolve_loop nodes follow_final left (split_on slash target @ pending)
                                  (if starts_with [slash] target then [] else resolved)
                  else resolve_loop nodes follow_final links pending deeper
              | Some ImgDirectory \<Rightarrow> resolve_loop nodes follow_final links pending deeper
              | Some _ \<Rightarrow>
                  if pending \<noteq> [] then Inl (ImageInvalid ''an image path traverses a non-directory'')
                  else resolve_loop nodes follow_final links pending deeper
              | None \<Rightarrow> resolve_loop nodes follow_final links pending deeper)"
  by pat_completeness auto
termination
  by (relation "measures [\<lambda>(nodes, follow_final, links, pending, resolved). links,
    \<lambda>(nodes, follow_final, links, pending, resolved). length pending]") auto

declare resolve_loop.simps(2) [simp del]

definition resolve :: "image_tree \<Rightarrow> string \<Rightarrow> bool \<Rightarrow> image_error + string" where
  "resolve t path follow_final = resolve_loop (it_nodes t) follow_final 40 (split_on slash path) []"

section \<open>Changing the tree\<close>

definition remove_path :: "string \<Rightarrow> bool \<Rightarrow> image_tree \<Rightarrow> image_tree" where
  "remove_path path include_self t =
     (let prefix = (if path = [] then [] else path @ [slash])
      in t\<lparr>it_nodes := filter (\<lambda>(name, node).
             \<not> ((include_self \<and> name = path) \<or> (name \<noteq> path \<and> starts_with prefix name))) (it_nodes t)\<rparr>)"

definition set_node :: "string \<Rightarrow> image_node \<Rightarrow> image_tree \<Rightarrow> image_tree" where
  "set_node name node t = t\<lparr>it_nodes := bt_insert name node (it_nodes t)\<rparr>"

fun parents_loop :: "string \<Rightarrow> string list \<Rightarrow> image_tree \<Rightarrow> image_error + image_tree" where
  "parents_loop parent [] t = Inr t"
| "parents_loop parent (c # cs) t =
     (let parent = (if parent \<noteq> [] then parent @ [slash] else parent) @ c
      in case map_option nd_kind (map_of (it_nodes t) parent) of
           None \<Rightarrow> parents_loop parent cs ((set_node parent (directory_node (it_next t)) t)\<lparr>it_next := it_next t + 1\<rparr>)
         | Some ImgDirectory \<Rightarrow> parents_loop parent cs t
         | Some _ \<Rightarrow> Inl (ImageInvalid ''an entry's parent is not a directory''))"

definition parents :: "string \<Rightarrow> image_tree \<Rightarrow> image_error + image_tree" where
  "parents path t = parents_loop [] (butlast (split_on slash path)) t"

section \<open>Reading a layer\<close>

text \<open>What the tar reader yields of an entry, each reading of it with what may go wrong.\<close>

datatype tar_kind =
    TarDirectory
  | TarFile "string + string"
  | TarSymlink "string + string option"
  | TarHardlink "string + string option"
  | TarOther

record tar_entry =
  te_path :: "string + string"
  te_header :: string
  te_pax :: "string + (string + (string \<times> string)) list"
  te_kind :: tar_kind

definition io :: "string + 'a \<Rightarrow> image_error + 'a" where
  "io r = (case r of Inl e \<Rightarrow> Inl (ImageIo e) | Inr x \<Rightarrow> Inr x)"

fun read_attributes :: "(string + (string \<times> string)) list \<Rightarrow> image_error + (string \<times> string) list" where
  "read_attributes [] = Inr []"
| "read_attributes (extension # extensions) =
     and_then (io extension) (\<lambda>(key, data).
       if starts_with ''LIBARCHIVE.xattr.'' key then Inl (ImageInvalid ''LIBARCHIVE extended attributes are unsupported'')
       else and_then (read_attributes extensions) (\<lambda>attributes.
              Inr (if starts_with ''SCHILY.xattr.'' key then (key, data) # attributes else attributes)))"

definition read_kind :: "string \<Rightarrow> tar_kind \<Rightarrow> image_error + image_kind" where
  "read_kind name kind =
     (case kind of
        TarDirectory \<Rightarrow> Inr ImgDirectory
      | TarFile content \<Rightarrow> and_then (io content) (\<lambda>data. Inr (ImgFile data))
      | TarSymlink link_name \<Rightarrow>
          and_then (io link_name) (\<lambda>target. case target of
            None \<Rightarrow> Inl (ImageInvalid ''a symbolic link has no target'') | Some target \<Rightarrow> Inr (ImgSymlink target))
      | TarHardlink link_name \<Rightarrow>
          and_then (io link_name) (\<lambda>target. case target of
            None \<Rightarrow> Inl (ImageInvalid ''a hard link has no target'')
          | Some target \<Rightarrow> and_then (archive_path target) (\<lambda>target. Inr (ImgHardlink target)))
      | TarOther \<Rightarrow> Inl (ImageInvalid (''entry '' @ name @ '' has an unsupported device, FIFO, socket or sparse type'')))"

fun read_entries :: "nat \<Rightarrow> string list \<Rightarrow> nat \<Rightarrow> (string + tar_entry) list \<Rightarrow> image_error + (string \<times> image_node) list" where
  "read_entries count seen identity [] = Inr []"
| "read_entries count seen identity (given # more_given) =
     (if MAX_ENTRIES \<le> count then Inl (ImageInvalid ''a layer has too many entries'')
      else and_then (io given) (\<lambda>entry.
           and_then (and_then (io (te_path entry)) archive_path) (\<lambda>name.
           if name \<in> set seen then Inl (ImageInvalid ''a layer repeats an entry path'')
           else and_then (and_then (io (te_pax entry)) read_attributes) (\<lambda>attributes.
                and_then (read_kind name (te_kind entry)) (\<lambda>kind.
                and_then (read_entries (count + 1) (name # seen) (identity + 1) more_given) (\<lambda>entries.
                Inr ((name, \<lparr>nd_header = te_header entry, nd_attributes = attributes, nd_kind = kind, nd_identity = identity\<rparr>) # entries)))))))"

section \<open>Applying a layer\<close>

definition basename :: "string \<Rightarrow> string" where
  "basename name = List.last (split_on slash name)"

definition parent_of :: "string \<Rightarrow> string" where
  "parent_of name = join_with slash (butlast (split_on slash name))"

definition is_whiteout :: "string \<Rightarrow> bool" where
  "is_whiteout name \<longleftrightarrow> starts_with ''.wh.'' (basename name)"

text \<open>Whiteouts affect the preceding filesystem, irrespective of their order within the layer.\<close>

fun layer_removals :: "image_tree \<Rightarrow> (string \<times> image_node) list \<Rightarrow> image_error + (string \<times> bool) list" where
  "layer_removals t [] = Inr []"
| "layer_removals t ((name, node) # entries) =
     (if \<not> is_whiteout name then layer_removals t entries
      else let deleted = drop 4 (basename name)
           in if nd_kind node \<noteq> ImgFile [] \<or> deleted = []
              then Inl (ImageInvalid ''a whiteout must be an empty regular file with a target'')
              else and_then (resolve t (parent_of name) True) (\<lambda>parent.
                   and_then
                     (if basename name = ''.wh..wh..opq'' then Inr (parent, False)
                      else if deleted = ''.'' \<or> deleted = ''..'' then Inl (ImageInvalid ''a whiteout targets a directory parent'')
                      else Inr (if parent = [] then deleted else parent @ slash # deleted, True)) (\<lambda>removal.
                   and_then (layer_removals t entries) (\<lambda>removals. Inr (removal # removals)))))"

definition is_directory :: "image_tree \<Rightarrow> string \<Rightarrow> bool" where
  "is_directory t name \<longleftrightarrow> map_option nd_kind (map_of (it_nodes t) name) = Some ImgDirectory"

text \<open>A hard link to what is there takes its node; one to what may come later waits.\<close>

definition link_node :: "image_tree \<Rightarrow> image_node \<Rightarrow> image_error + (image_node \<times> image_tree)" where
  "link_node t node =
     (case nd_kind node of
        ImgHardlink given \<Rightarrow>
          and_then (resolve t given False) (\<lambda>target.
            case map_of (it_nodes t) target of
              Some existing \<Rightarrow>
                if nd_kind existing = ImgDirectory then Inl (ImageInvalid ''a hard link targets a directory'') else Inr (existing, t)
            | None \<Rightarrow> Inr (node\<lparr>nd_kind := ImgHardlink target, nd_identity := it_next t\<rparr>, t\<lparr>it_next := it_next t + 1\<rparr>))
      | _ \<Rightarrow> Inr (node, t))"

definition clear_for :: "string \<Rightarrow> image_node \<Rightarrow> image_tree \<Rightarrow> image_tree" where
  "clear_for name node t = (if nd_kind node = ImgDirectory \<and> is_directory t name then t else remove_path name True t)"

definition place_entry :: "string \<times> image_node \<Rightarrow> image_tree \<Rightarrow> image_error + image_tree" where
  "place_entry entry t =
     (if is_whiteout (fst entry) then Inr t
      else and_then (resolve t (fst entry) False) (\<lambda>name.
           if name = [] \<and> nd_kind (snd entry) \<noteq> ImgDirectory then Inl (ImageInvalid ''the filesystem root is not a directory'')
           else and_then (link_node t (snd entry)) (\<lambda>(node, t).
                and_then (parents name (clear_for name node t)) (\<lambda>t.
                let t = set_node name node t
                in if MAX_ENTRIES < length (it_nodes t) then Inl (ImageInvalid ''the filesystem has too many entries'') else Inr t))))"

fun place_entries :: "(string \<times> image_node) list \<Rightarrow> image_tree \<Rightarrow> image_error + image_tree" where
  "place_entries [] t = Inr t"
| "place_entries (entry # entries) t = and_then (place_entry entry t) (place_entries entries)"

definition pending_links :: "image_tree \<Rightarrow> (string \<times> string) list" where
  "pending_links t =
     concat (map (\<lambda>(name, node). case nd_kind node of ImgHardlink target \<Rightarrow> [(name, target)] | _ \<Rightarrow> []) (it_nodes t))"

fun link_round :: "(string \<times> string) list \<Rightarrow> bool \<Rightarrow> image_tree \<Rightarrow> image_error + (bool \<times> image_tree)" where
  "link_round [] resolved t = Inr (resolved, t)"
| "link_round ((name, target) # pending) resolved t =
     (case map_of (it_nodes t) target of
        Some node \<Rightarrow>
          (case nd_kind node of
             ImgHardlink _ \<Rightarrow> link_round pending resolved t
           | ImgDirectory \<Rightarrow> Inl (ImageInvalid ''a hard link targets a directory'')
           | _ \<Rightarrow> link_round pending True (set_node name node t))
      | None \<Rightarrow> link_round pending resolved t)"

primrec link_rounds :: "nat \<Rightarrow> image_tree \<Rightarrow> image_error + image_tree" where
  "link_rounds 0 t = Inl (ImageInvalid ''a layer has unresolved or cyclic hard links'')"
| "link_rounds (Suc n) t =
     (if pending_links t = [] then Inr t
      else and_then (link_round (pending_links t) False t) (\<lambda>(resolved, t).
             if resolved then link_rounds n t else Inl (ImageInvalid ''a layer has unresolved or cyclic hard links'')))"

definition apply_layer :: "(string + tar_entry) list \<Rightarrow> image_tree \<Rightarrow> image_error + image_tree" where
  "apply_layer given t =
     and_then (read_entries 0 [] (it_next t) given) (\<lambda>entries.
     and_then (layer_removals t entries) (\<lambda>removals.
     and_then (place_entries entries
       (fold (\<lambda>(target, include_self). remove_path target include_self) removals (t\<lparr>it_next := it_next t + length entries\<rparr>)))
     (link_rounds 40)))"

section \<open>Writing it\<close>

text \<open>An entry of the archive that is written: a link names its target, everything else its content.\<close>

datatype written_kind = WrittenDirectory | WrittenFile string | WrittenSymlink string | WrittenLink string

record written =
  wr_name :: string
  wr_header :: string
  wr_attributes :: "(string \<times> string) list"
  wr_kind :: written_kind

text \<open>The tar library's writer: a header without its prefix, and what it refuses.\<close>

record tar_writer =
  tw_clear_prefix :: "string \<Rightarrow> string"
  tw_append :: "written \<Rightarrow> string option"

record image_filesystem =
  fs_tar :: "written list"
  fs_data_bytes :: nat
  fs_entries :: nat

definition written_order :: "image_tree \<Rightarrow> (string \<times> image_node) list" where
  "written_order t =
     filter (\<lambda>(name, node). nd_kind node = ImgDirectory) (it_nodes t) @ filter (\<lambda>(name, node). nd_kind node \<noteq> ImgDirectory) (it_nodes t)"

definition shown_name :: "string \<Rightarrow> string" where
  "shown_name name = (if name = [] then ''.'' else name)"

definition readable_keys :: "image_node \<Rightarrow> image_error + unit" where
  "readable_keys node =
     (if list_all (\<lambda>(key, data). utf8_valid key) (nd_attributes node) then Inr () else Inl (ImageIo ''invalid utf-8''))"

definition append_entry :: "tar_writer \<Rightarrow> string \<Rightarrow> image_node \<Rightarrow> written_kind \<Rightarrow> image_error + written" where
  "append_entry tar name node kind =
     (let entry = \<lparr>wr_name = name, wr_header = tw_clear_prefix tar (nd_header node), wr_attributes = nd_attributes node, wr_kind = kind\<rparr>
      in case tw_append tar entry of Some e \<Rightarrow> Inl (ImageIo e) | None \<Rightarrow> Inr entry)"

text \<open>What an entry is written as: content that was written already is linked to.\<close>

definition written_as :: "(nat \<times> string) list \<Rightarrow> image_node \<Rightarrow> image_error + written_kind" where
  "written_as links node =
     (case (if nd_kind node = ImgDirectory then None else map_of links (nd_identity node)) of
        Some target \<Rightarrow> Inr (WrittenLink target)
      | None \<Rightarrow>
          (case nd_kind node of
             ImgDirectory \<Rightarrow> Inr WrittenDirectory
           | ImgFile data \<Rightarrow> Inr (WrittenFile data)
           | ImgSymlink target \<Rightarrow> Inr (WrittenSymlink target)
           | ImgHardlink _ \<Rightarrow> Inl (ImageInvalid ''a hard link was not resolved'')))"

fun is_link :: "written_kind \<Rightarrow> bool" where
  "is_link (WrittenLink _) = True"
| "is_link _ = False"

fun write_nodes :: "tar_writer \<Rightarrow> (nat \<times> string) list \<Rightarrow> (string \<times> image_node) list \<Rightarrow> image_error + written list" where
  "write_nodes tar links [] = Inr []"
| "write_nodes tar links ((name, node) # nodes) =
     and_then (readable_keys node) (\<lambda>_.
     and_then (written_as links node) (\<lambda>kind.
     and_then (append_entry tar (shown_name name) node kind) (\<lambda>entry.
     and_then (write_nodes tar (if is_link kind then links else (nd_identity node, shown_name name) # links) nodes) (\<lambda>entries.
     Inr (entry # entries)))))"

fun written_bytes :: "written_kind \<Rightarrow> nat" where
  "written_bytes (WrittenFile data) = length data"
| "written_bytes _ = 0"

definition image_finish :: "tar_writer \<Rightarrow> image_tree \<Rightarrow> image_error + image_filesystem" where
  "image_finish tar t =
     and_then (write_nodes tar [] (written_order t)) (\<lambda>entries.
     Inr \<lparr>fs_tar = entries, fs_data_bytes = sum_list (map (written_bytes \<circ> wr_kind) entries), fs_entries = length (it_nodes t)\<rparr>)"

section \<open>Names stay inside\<close>

definition plain_segment :: "string \<Rightarrow> bool" where
  "plain_segment s \<longleftrightarrow> s \<noteq> [] \<and> s \<noteq> ''.'' \<and> s \<noteq> ''..'' \<and> slash \<notin> set s"

definition plain_name :: "string \<Rightarrow> bool" where
  "plain_name name \<longleftrightarrow> name = [] \<or> list_all plain_segment (split_on slash name)"

lemma plain_segments_split: "ss \<noteq> [] \<Longrightarrow> list_all plain_segment ss \<Longrightarrow> split_on slash (join_with slash ss) = ss"
  by (rule split_join) (auto simp: list_all_iff plain_segment_def)

lemma plain_join: "list_all plain_segment ss \<Longrightarrow> plain_name (join_with slash ss)"
  by (cases "ss = []") (simp_all add: plain_name_def plain_segments_split)

lemma resolve_loop_plain:
  "resolve_loop nodes follow_final links pending resolved = Inr name \<Longrightarrow> list_all (\<lambda>s. slash \<notin> set s) pending \<Longrightarrow>
    list_all plain_segment resolved \<Longrightarrow> plain_name name"
proof (induction nodes follow_final links pending resolved rule: resolve_loop.induct)
  case (1 nodes follow_final links resolved)
  then show ?case using plain_join by auto
next
  case (2 nodes follow_final links seg pending resolved)
  have less: "list_all plain_segment (butlast resolved)" using "2.prems"(3) by (auto simp: list_all_iff dest: in_set_butlastD)
  have target: "list_all (\<lambda>s. slash \<notin> set s) (split_on slash target @ pending)" for target
    using "2.prems"(2) by (auto simp: list_all_iff dest: split_on_no_delim)
  consider "seg = [] \<or> seg = ''.''" | "seg = ''..''" | "plain_segment seg"
    using "2.prems"(2) by (auto simp: plain_segment_def)
  then show ?case
  proof cases
    case 1
    then show ?thesis using "2.IH"(1) "2.prems" by (simp add: resolve_loop.simps(2))
  next
    case 2
    then show ?thesis using "2.IH"(2) "2.prems" less by (simp add: resolve_loop.simps(2))
  next
    case 3
    with "2.prems"(3) have deeper: "list_all plain_segment (resolved @ [seg])" by simp
    have seg: "\<not> (seg = [] \<or> seg = ''.'')" "seg \<noteq> ''..''" using 3 by (auto simp: plain_segment_def)
    note IH = "2.IH"(3-) [OF seg refl]
    show ?thesis using "2.prems" seg deeper target IH
      by (auto simp: resolve_loop.simps(2) Let_def split: option.splits image_kind.splits if_splits nat.splits)
  qed
qed

lemma resolve_plain: "resolve t path follow_final = Inr name \<Longrightarrow> plain_name name"
  unfolding resolve_def by (erule resolve_loop_plain) (auto simp: list_all_iff dest: split_on_no_delim)

section \<open>The image is a tree\<close>

definition tree_ok :: "image_tree \<Rightarrow> bool" where
  "tree_ok t \<longleftrightarrow>
     bt_wf (it_nodes t) \<and> is_directory t [] \<and> list_all (\<lambda>(name, node). plain_name name) (it_nodes t) \<and>
     (\<forall>p r. map_of (it_nodes t) (p @ slash # r) \<noteq> None \<longrightarrow> is_directory t p)"

lemma tree_okD:
  assumes "tree_ok t"
  shows "bt_wf (it_nodes t)" "is_directory t []" "map_of (it_nodes t) name = Some node \<Longrightarrow> plain_name name"
    "map_of (it_nodes t) (p @ slash # r) \<noteq> None \<Longrightarrow> is_directory t p"
  using assms by (auto simp: tree_ok_def list_all_iff dest: map_of_SomeD)

lemma tree_okI:
  assumes "bt_wf (it_nodes t)" "is_directory t []" "\<And>name node. map_of (it_nodes t) name = Some node \<Longrightarrow> plain_name name"
    and "\<And>p r. map_of (it_nodes t) (p @ slash # r) \<noteq> None \<Longrightarrow> is_directory t p"
  shows "tree_ok t"
  using assms bt_wf_map_of [OF assms(1)] by (fastforce simp: tree_ok_def list_all_iff)

lemma directory_present: "is_directory t name \<Longrightarrow> map_of (it_nodes t) name \<noteq> None"
  by (auto simp: is_directory_def)

lemma directory_above: "tree_ok t \<Longrightarrow> is_directory t (p @ slash # r) \<Longrightarrow> is_directory t p"
  using tree_okD(4) directory_present by blast

lemma tree_ok_new: "tree_ok image_tree_new"
  by (rule tree_okI) (auto simp: image_tree_new_def is_directory_def directory_node_def plain_name_def bt_wf_Cons split: if_splits)

lemma nodes_next [simp]:
  "it_nodes (t\<lparr>it_next := n\<rparr>) = it_nodes t" "is_directory (t\<lparr>it_next := n\<rparr>) name = is_directory t name"
  "tree_ok (t\<lparr>it_next := n\<rparr>) = tree_ok t"
  by (simp_all add: is_directory_def tree_ok_def)

definition removed :: "string \<Rightarrow> bool \<Rightarrow> string \<Rightarrow> bool" where
  "removed path include_self name \<longleftrightarrow>
     (include_self \<and> name = path) \<or> (name \<noteq> path \<and> starts_with (if path = [] then [] else path @ [slash]) name)"

lemma find_removed:
  "bt_wf (it_nodes t) \<Longrightarrow>
    map_of (it_nodes (remove_path path include_self t)) name = (if removed path include_self name then None else map_of (it_nodes t) name)"
  by (auto simp: remove_path_def removed_def map_of_filter_wf Let_def split: option.splits)

lemma find_set [simp]: "map_of (it_nodes (set_node name node t)) = (map_of (it_nodes t))(name \<mapsto> node)"
  by (simp add: set_node_def)

lemma starts_with_Nil [simp]: "starts_with [] s"
  by (simp add: starts_with_def)

lemma removed_below:
  "removed path include_self p \<Longrightarrow> path \<noteq> [] \<or> \<not> include_self \<Longrightarrow> removed path include_self (p @ slash # r)"
  by (auto simp: removed_def starts_with_def split: if_splits)

lemma tree_ok_remove:
  assumes "tree_ok t" "path \<noteq> [] \<or> \<not> include_self"
  shows "tree_ok (remove_path path include_self t)"
proof (rule tree_okI)
  note wf = tree_okD(1) [OF assms(1)]
  show "bt_wf (it_nodes (remove_path path include_self t))" using wf by (simp add: remove_path_def Let_def bt_wf_filter)
  have "\<not> removed path include_self []" using assms(2) by (auto simp: removed_def starts_with_def)
  then show "is_directory (remove_path path include_self t) []"
    using tree_okD(2) [OF assms(1)] by (simp add: is_directory_def find_removed [OF wf])
  show "plain_name name" if "map_of (it_nodes (remove_path path include_self t)) name = Some node" for name node
    using that tree_okD(3) [OF assms(1)] by (auto simp: find_removed [OF wf] split: if_splits)
  show "is_directory (remove_path path include_self t) p"
    if "map_of (it_nodes (remove_path path include_self t)) (p @ slash # r) \<noteq> None" for p r
    using that tree_okD(4) [OF assms(1), of p r] removed_below [OF _ assms(2), of p r]
    by (auto simp: is_directory_def find_removed [OF wf] split: if_splits)
qed


text \<open>A node may be put where its ancestors are directories and, unless it is one itself, nothing lies beneath.\<close>

lemma tree_ok_set:
  assumes "tree_ok t" "plain_name name" "name = [] \<Longrightarrow> nd_kind node = ImgDirectory"
    and "\<And>p r. name = p @ slash # r \<Longrightarrow> is_directory t p"
    and "nd_kind node = ImgDirectory \<or> (\<forall>r. map_of (it_nodes t) (name @ slash # r) = None)"
  shows "tree_ok (set_node name node t)"
proof (rule tree_okI)
  show "bt_wf (it_nodes (set_node name node t))" using tree_okD(1) [OF assms(1)] by (simp add: set_node_def)
  show "is_directory (set_node name node t) []"
    using tree_okD(2) [OF assms(1)] assms(3) by (auto simp: is_directory_def)
  show "plain_name n" if "map_of (it_nodes (set_node name node t)) n = Some x" for n x
    using that assms(2) tree_okD(3) [OF assms(1)] by (auto split: if_splits)
  show "is_directory (set_node name node t) p" if "map_of (it_nodes (set_node name node t)) (p @ slash # r) \<noteq> None" for p r
  proof -
    have "is_directory t p"
      using that assms(4) [of p r] tree_okD(4) [OF assms(1), of p r] by (auto split: if_splits)
    moreover have "nd_kind node = ImgDirectory" if "p = name"
      using that \<open>map_of (it_nodes (set_node name node t)) (p @ slash # r) \<noteq> None\<close> assms(5) by (auto split: if_splits)
    ultimately show ?thesis by (auto simp: is_directory_def)
  qed
qed

lemma delim_prefix:
  assumes "p @ d # r = q @ d # c" "d \<notin> set c"
  shows "p = q \<or> (\<exists>r'. q = p @ d # r')"
  using assms by (auto simp: append_eq_append_conv2 Cons_eq_append_conv append_eq_Cons_conv)

lemma join_snoc: "join_with d (ss @ [c]) = (if ss = [] then c else join_with d ss @ d # c)"
  by (induction d ss rule: join_with.induct) auto

lemma join_plain_Nil: "list_all plain_segment ss \<Longrightarrow> join_with slash ss = [] \<longleftrightarrow> ss = []"
  by (induction slash ss rule: join_with.induct) (auto simp: plain_segment_def)

lemma parents_loop_ok:
  assumes "parents_loop (join_with slash ds) cs t = Inr t'" "tree_ok t" "is_directory t (join_with slash ds)"
    and "list_all plain_segment (ds @ cs)"
  shows "tree_ok t' \<and> is_directory t' (join_with slash (ds @ cs)) \<and>
    (\<forall>n. map_of (it_nodes t) n = None \<longrightarrow> map_of (it_nodes t') n \<noteq> None \<longrightarrow> length n \<le> length (join_with slash (ds @ cs)))"
  using assms
proof (induction cs arbitrary: ds t)
  case Nil
  then show ?case by auto
next
  case (Cons c cs)
  let ?next = "join_with slash (ds @ [c])"
  have plain: "list_all plain_segment ds" "plain_segment c" "list_all plain_segment ((ds @ [c]) @ cs)" using Cons.prems(4) by simp_all
  have next_eq: "(if join_with slash ds \<noteq> [] then join_with slash ds @ [slash] else join_with slash ds) @ c = ?next"
    using join_plain_Nil [OF plain(1)] by (simp add: join_snoc)
  have shorter: "length ?next \<le> length (join_with slash ((ds @ [c]) @ cs))" for cs
    by (induction cs rule: rev_induct) (simp_all add: join_snoc del: append_assoc flip: append_assoc)
  show ?case
  proof (cases "map_of (it_nodes t) ?next")
    case None
    let ?t = "(set_node ?next (directory_node (it_next t)) t)\<lparr>it_next := it_next t + 1\<rparr>"
    have step: "parents_loop ?next cs ?t = Inr t'" using Cons.prems(1) None by (simp add: next_eq Let_def)
    have above: "is_directory t p" if "?next = p @ slash # r" for p r
    proof -
      have "ds \<noteq> []" using that plain(2) by (auto simp: plain_segment_def)
      then have "p @ slash # r = join_with slash ds @ slash # c" using that by (simp add: join_snoc)
      from delim_prefix [OF this] plain(2) show ?thesis
        using Cons.prems(3) directory_above [OF Cons.prems(2)] by (auto simp: plain_segment_def)
    qed
    have "tree_ok ?t"
      using tree_ok_set [OF Cons.prems(2), of ?next "directory_node (it_next t)"] above plain_join [of "ds @ [c]"] plain
      by (simp add: directory_node_def)
    moreover have "is_directory ?t ?next" by (simp add: is_directory_def directory_node_def)
    ultimately have "tree_ok t' \<and> is_directory t' (join_with slash ((ds @ [c]) @ cs)) \<and>
        (\<forall>n. map_of (it_nodes ?t) n = None \<longrightarrow> map_of (it_nodes t') n \<noteq> None \<longrightarrow> length n \<le> length (join_with slash ((ds @ [c]) @ cs)))"
      using Cons.IH [OF step] plain(3) by blast
    note rest = this
    have "length n \<le> length (join_with slash (ds @ c # cs))"
      if "map_of (it_nodes t) n = None" "map_of (it_nodes t') n \<noteq> None" for n
      using that shorter [of cs] rest by (cases "n = ?next") auto
    with rest show ?thesis by simp
  next
    case (Some node)
    with Cons.prems(1) have "nd_kind node = ImgDirectory" "parents_loop ?next cs t = Inr t'"
      by (auto simp: next_eq split: image_kind.splits)
    with Cons.IH [of "ds @ [c]" t] Cons.prems(2) Some plain(3) show ?thesis by (simp add: is_directory_def)
  qed
qed

lemma parents_ok:
  assumes "tree_ok t" "plain_name name" "parents name t = Inr t'"
  shows "tree_ok t'" "name = p @ slash # r \<Longrightarrow> is_directory t' p"
    "map_of (it_nodes t) (name @ slash # r) = None \<Longrightarrow> map_of (it_nodes t') (name @ slash # r) = None"
proof -
  let ?cs = "butlast (split_on slash name)"
  have split: "name = join_with slash (?cs @ [List.last (split_on slash name)])" by simp
  have plain: "list_all plain_segment ?cs" using assms(2)
    by (cases "name = []") (auto simp: plain_name_def list_all_iff dest: in_set_butlastD)
  have ok: "tree_ok t' \<and> is_directory t' (join_with slash ?cs) \<and>
      (\<forall>n. map_of (it_nodes t) n = None \<longrightarrow> map_of (it_nodes t') n \<noteq> None \<longrightarrow> length n \<le> length (join_with slash ?cs))"
    using parents_loop_ok [of "[]" ?cs t t'] assms(1,3) tree_okD(2) [OF assms(1)] plain by (simp add: parents_def)
  then show "tree_ok t'" by simp
  have "length (join_with slash ?cs) \<le> length (join_with slash (?cs @ [x]))" for x by (simp add: join_snoc)
  from this [of "List.last (split_on slash name)"] have shorter: "length (join_with slash ?cs) \<le> length name" by simp
  show "map_of (it_nodes t') (name @ slash # r) = None" if "map_of (it_nodes t) (name @ slash # r) = None"
  proof (rule ccontr)
    assume "map_of (it_nodes t') (name @ slash # r) \<noteq> None"
    with ok that have "length (name @ slash # r) \<le> length (join_with slash ?cs)" by blast
    with shorter show False by simp
  qed
  show "is_directory t' p" if "name = p @ slash # r"
  proof -
    have last: "slash \<notin> set (List.last (split_on slash name))" using split_on_no_delim by (metis last_in_set split_on_nonempty)
    have "?cs \<noteq> []"
    proof
      assume "?cs = []"
      then have "split_on slash name = [List.last (split_on slash name)]"
        by (metis append_butlast_last_id append_Nil split_on_nonempty)
      then have "name = List.last (split_on slash name)" by (metis join_split_on join_with.simps(2))
      with that last show False by (metis in_set_conv_decomp)
    qed
    then have "join_with slash (?cs @ [x]) = join_with slash ?cs @ slash # x" for x by (simp add: join_snoc)
    from this [of "List.last (split_on slash name)"] have "p @ slash # r = join_with slash ?cs @ slash # List.last (split_on slash name)"
      using that by simp
    from delim_prefix [OF this last] ok show ?thesis using directory_above [of t'] by auto
  qed
qed


lemma link_node_ok:
  assumes "tree_ok t" "link_node t node = Inr (placed, t')"
  shows "tree_ok t'" "it_nodes t' = it_nodes t" "nd_kind node = ImgDirectory \<Longrightarrow> placed = node"
  using assms by (auto simp: link_node_def split: image_kind.splits option.splits if_splits)

lemma place_entry_ok:
  assumes "tree_ok t" "place_entry entry t = Inr t'"
  shows "tree_ok t'"
proof (cases "is_whiteout (fst entry)")
  case True
  with assms show ?thesis by (simp add: place_entry_def)
next
  case False
  with assms(2) obtain name node t1 t2 where
    name: "resolve t (fst entry) False = Inr name" "name = [] \<Longrightarrow> nd_kind (snd entry) = ImgDirectory" and
    linked: "link_node t (snd entry) = Inr (node, t1)" and
    above: "parents name (clear_for name node t1) = Inr t2" and
    t': "t' = set_node name node t2"
    by (auto simp: place_entry_def Let_def split: if_splits)
  have t1: "tree_ok t1" using link_node_ok(1) [OF assms(1) linked] .
  have root: "is_directory t1 []" using tree_okD(2) [OF t1] .
  have kind: "name = [] \<Longrightarrow> nd_kind node = ImgDirectory" using name(2) link_node_ok(3) [OF assms(1) linked] by auto
  let ?cleared = "clear_for name node t1"
  have cleared: "tree_ok ?cleared" using t1 root kind tree_ok_remove [OF t1, of name True] by (auto simp: clear_for_def)
  note plain = resolve_plain [OF name(1)]
  have "map_of (it_nodes ?cleared) (name @ slash # r) = None" if "nd_kind node \<noteq> ImgDirectory" for r
    using that kind find_removed [OF tree_okD(1) [OF t1], of name True] by (auto simp: clear_for_def removed_def starts_with_def)
  then have "nd_kind node = ImgDirectory \<or> (\<forall>r. map_of (it_nodes t2) (name @ slash # r) = None)"
    using parents_ok(3) [OF cleared plain above] by blast
  then show ?thesis
    unfolding t' using parents_ok(1,2) [OF cleared plain above] plain kind by (intro tree_ok_set) auto
qed

lemma place_entries_ok: "tree_ok t \<Longrightarrow> place_entries entries t = Inr t' \<Longrightarrow> tree_ok t'"
  by (induction entries arbitrary: t) (auto dest: place_entry_ok)

definition leaf :: "image_tree \<Rightarrow> string \<Rightarrow> bool" where
  "leaf t name \<longleftrightarrow> map_of (it_nodes t) name \<noteq> None \<and> \<not> is_directory t name"

lemma leaf_place:
  assumes "tree_ok t" "leaf t name"
  shows "plain_name name" "name \<noteq> []" "name = p @ slash # r \<Longrightarrow> is_directory t p" "map_of (it_nodes t) (name @ slash # r) = None"
proof -
  show "map_of (it_nodes t) (name @ slash # r) = None" using tree_okD(4) [OF assms(1), of name r] assms(2) unfolding leaf_def by blast
qed (use assms tree_okD(2,3) [OF assms(1)] tree_okD(4) [OF assms(1), of p r] in \<open>auto simp: leaf_def\<close>)

lemma link_round_ok:
  "link_round pending resolved t = Inr (resolved', t') \<Longrightarrow> tree_ok t \<Longrightarrow> list_all (leaf t) (map fst pending) \<Longrightarrow> tree_ok t'"
proof (induction pending resolved t rule: link_round.induct)
  case (2 name target pending resolved t)
  have name: "leaf t name" "list_all (leaf t) (map fst pending)" using "2.prems"(3) by simp_all
  have placed: "tree_ok (set_node name node t)" "list_all (leaf (set_node name node t)) (map fst pending)"
    if "nd_kind node \<noteq> ImgDirectory" for node
  proof -
    show "tree_ok (set_node name node t)"
      using leaf_place [OF "2.prems"(2) name(1)] by (intro tree_ok_set [OF "2.prems"(2)]) simp_all
    show "list_all (leaf (set_node name node t)) (map fst pending)"
      using name(2) that by (auto simp: list_all_iff leaf_def is_directory_def)
  qed
  show ?case
    using "2.prems"(1,2) "2.IH" name placed by (auto split: option.splits image_kind.splits)
qed simp

lemma pending_leaves:
  assumes "tree_ok t"
  shows "list_all (leaf t) (map fst (pending_links t))"
proof -
  have "leaf t name" if "(name, target) \<in> set (pending_links t)" for name target
  proof -
    from that obtain node where "(name, node) \<in> set (it_nodes t)" "nd_kind node = ImgHardlink target"
      by (auto simp: pending_links_def split: image_kind.splits)
    then show ?thesis using bt_wf_map_of [OF tree_okD(1) [OF assms], of name node] by (simp add: leaf_def is_directory_def)
  qed
  then show ?thesis by (auto simp: list_all_iff)
qed

lemma link_rounds_ok: "link_rounds n t = Inr t' \<Longrightarrow> tree_ok t \<Longrightarrow> tree_ok t' \<and> pending_links t' = []"
proof (induction n arbitrary: t)
  case (Suc n)
  then show ?case using link_round_ok [OF _ Suc.prems(2) pending_leaves [OF Suc.prems(2)]] by (auto split: if_splits)
qed simp


definition removal_ok :: "string \<times> bool \<Rightarrow> bool" where
  "removal_ok removal \<longleftrightarrow> fst removal \<noteq> [] \<or> \<not> snd removal"

lemma removals_ok: "layer_removals t entries = Inr removals \<Longrightarrow> list_all removal_ok removals"
proof (induction t entries arbitrary: removals rule: layer_removals.induct)
  case (2 t name node entries)
  show ?case
  proof (cases "is_whiteout name")
    case False
    then show ?thesis using 2 by simp
  next
    case True
    let ?deleted = "drop 4 (basename name)"
    have valid: "\<not> (nd_kind node \<noteq> ImgFile [] \<or> ?deleted = [])"
    proof
      assume "nd_kind node \<noteq> ImgFile [] \<or> ?deleted = []"
      then have "layer_removals t ((name, node) # entries) = Inl (ImageInvalid ''a whiteout must be an empty regular file with a target'')"
        using True by (simp only: layer_removals.simps Let_def if_True not_True_eq_False if_False simp_thms)
      with "2.prems" show False by (metis sum.distinct(1))
    qed
    from "2.prems" True valid obtain parent removal later where
      removal: "(if basename name = ''.wh..wh..opq'' then Inr (parent, False)
        else if ?deleted = ''.'' \<or> ?deleted = ''..'' then Inl (ImageInvalid ''a whiteout targets a directory parent'')
        else Inr (if parent = [] then ?deleted else parent @ slash # ?deleted, True)) = Inr removal" and
      later: "resolve t (parent_of name) True = Inr parent" "layer_removals t entries = Inr later" "removals = removal # later"
      by (simp only: layer_removals.simps Let_def if_not_P not_not if_False and_then_simps(3)) blast
    have "removal_ok removal" using removal valid by (simp add: removal_ok_def split: if_splits) auto
    moreover have "list_all removal_ok later" using "2.IH"(2) True valid removal later by blast
    ultimately show ?thesis using later(3) by simp
  qed
qed simp

lemma removals_tree_ok:
  "tree_ok t \<Longrightarrow> list_all removal_ok removals \<Longrightarrow> tree_ok (fold (\<lambda>(target, include_self). remove_path target include_self) removals t)"
  by (induction removals arbitrary: t) (simp_all add: removal_ok_def split_def tree_ok_remove)

lemma apply_layer_ok:
  assumes "tree_ok t" "apply_layer given t = Inr t'"
  shows "tree_ok t' \<and> pending_links t' = []"
proof -
  from assms(2) obtain entries removals placed where
    "layer_removals t entries = Inr removals"
    "place_entries entries (fold (\<lambda>(target, include_self). remove_path target include_self) removals (t\<lparr>it_next := it_next t + length entries\<rparr>)) = Inr placed"
    "link_rounds 40 placed = Inr t'"
    by (auto simp: apply_layer_def)
  moreover from this(1) have "tree_ok (fold (\<lambda>(target, include_self). remove_path target include_self) removals (t\<lparr>it_next := it_next t + length entries\<rparr>))"
    using assms(1) by (intro removals_tree_ok removals_ok) simp_all
  ultimately show ?thesis using place_entries_ok link_rounds_ok by blast
qed

text \<open>Layers, one after the other.\<close>

fun apply_layers :: "(string + tar_entry) list list \<Rightarrow> image_tree \<Rightarrow> image_error + image_tree" where
  "apply_layers [] t = Inr t"
| "apply_layers (layer # layers) t = and_then (apply_layer layer t) (apply_layers layers)"

lemma apply_layers_ok: "apply_layers layers t = Inr t' \<Longrightarrow> tree_ok t \<Longrightarrow> pending_links t = [] \<Longrightarrow> tree_ok t' \<and> pending_links t' = []"
  by (induction layers arbitrary: t) (auto dest: apply_layer_ok)

section \<open>What is written\<close>

text \<open>Reading the archive back: a link is another name of what its target names.\<close>

fun extracted :: "written list \<Rightarrow> (string \<rightharpoonup> image_kind) \<Rightarrow> (string \<rightharpoonup> image_kind)" where
  "extracted [] m = m"
| "extracted (entry # entries) m =
     extracted entries (m(wr_name entry :=
       (case wr_kind entry of
          WrittenDirectory \<Rightarrow> Some ImgDirectory
        | WrittenFile data \<Rightarrow> Some (ImgFile data)
        | WrittenSymlink target \<Rightarrow> Some (ImgSymlink target)
        | WrittenLink target \<Rightarrow> m target)))"

definition place_kind :: "string \<times> image_node \<Rightarrow> (string \<rightharpoonup> image_kind) \<Rightarrow> (string \<rightharpoonup> image_kind)" where
  "place_kind entry m = m(shown_name (fst entry) \<mapsto> nd_kind (snd entry))"

lemma place_kind_pair: "place_kind (name, node) m = m(shown_name name \<mapsto> nd_kind node)"
  by (simp add: place_kind_def)

definition unlinked :: "string \<times> image_node \<Rightarrow> bool" where
  "unlinked entry \<longleftrightarrow> (\<forall>target. nd_kind (snd entry) \<noteq> ImgHardlink target)"

text \<open>Nodes with the same identity share their content.\<close>

definition shares :: "(string \<times> image_node) set \<Rightarrow> bool" where
  "shares nodes \<longleftrightarrow> (\<forall>a \<in> nodes. \<forall>b \<in> nodes. nd_identity (snd a) = nd_identity (snd b) \<longrightarrow> nd_kind (snd a) = nd_kind (snd b))"

lemma shares_mono: "shares nodes \<Longrightarrow> fewer \<subseteq> nodes \<Longrightarrow> shares fewer"
  unfolding shares_def by blast

definition links_known :: "(nat \<times> string) list \<Rightarrow> (string \<times> image_node) list \<Rightarrow> (string \<rightharpoonup> image_kind) \<Rightarrow> bool" where
  "links_known links nodes m \<longleftrightarrow>
     (\<forall>(identity, name) \<in> set links. name \<notin> shown_name ` fst ` set nodes \<and>
        (\<forall>entry \<in> set nodes. nd_identity (snd entry) = identity \<longrightarrow> m name = Some (nd_kind (snd entry))))"

lemma append_entryD:
  "append_entry tar name node kind = Inr entry \<Longrightarrow> wr_name entry = name \<and> wr_kind entry = kind"
  by (auto simp: append_entry_def Let_def split: if_splits option.splits)

lemma links_known_map_of:
  "links_known links ((name, node) # nodes) m \<Longrightarrow> map_of links (nd_identity node) = Some target \<Longrightarrow> m target = Some (nd_kind node)"
  by (auto simp: links_known_def dest!: map_of_SomeD)

lemma written_as_kind:
  assumes "written_as links node = Inr kind" "\<And>target. map_of links (nd_identity node) = Some target \<Longrightarrow> m target = Some (nd_kind node)"
  shows "(case kind of WrittenDirectory \<Rightarrow> Some ImgDirectory | WrittenFile data \<Rightarrow> Some (ImgFile data)
      | WrittenSymlink target \<Rightarrow> Some (ImgSymlink target) | WrittenLink target \<Rightarrow> m target) = Some (nd_kind node)"
proof (cases "nd_kind node = ImgDirectory \<or> map_of links (nd_identity node) = None")
  case True
  with assms(1) show ?thesis by (cases "nd_kind node") (auto simp: written_as_def split: if_splits)
next
  case False
  with assms show ?thesis by (auto simp: written_as_def)
qed

lemma links_known_next:
  assumes "links_known links ((name, node) # nodes) m" "shares (set ((name, node) # nodes))"
    and "distinct (map (shown_name \<circ> fst) ((name, node) # nodes))"
  shows "links_known links nodes (m(shown_name name \<mapsto> nd_kind node))"
    "links_known ((nd_identity node, shown_name name) # links) nodes (m(shown_name name \<mapsto> nd_kind node))"
proof -
  show links: "links_known links nodes (m(shown_name name \<mapsto> nd_kind node))"
    using assms(1) by (fastforce simp: links_known_def)
  have "shown_name name \<notin> shown_name ` fst ` set nodes" using assms(3) by (simp add: image_comp)
  moreover have "nd_kind node = nd_kind (snd entry)" if "entry \<in> set nodes" "nd_identity (snd entry) = nd_identity node" for entry
  proof -
    have "(name, node) \<in> set ((name, node) # nodes)" "entry \<in> set ((name, node) # nodes)" using that(1) by simp_all
    with assms(2) that(2) show ?thesis unfolding shares_def by (metis snd_conv)
  qed
  ultimately show "links_known ((nd_identity node, shown_name name) # links) nodes (m(shown_name name \<mapsto> nd_kind node))"
    using links by (simp add: links_known_def)
qed

lemma write_nodes_extract:
  "write_nodes tar links nodes = Inr entries \<Longrightarrow> links_known links nodes m \<Longrightarrow> shares (set nodes) \<Longrightarrow>
    distinct (map (shown_name \<circ> fst) nodes) \<Longrightarrow>
    extracted entries m = fold place_kind nodes m \<and>
    map wr_name entries = map (shown_name \<circ> fst) nodes"
proof (induction tar links nodes arbitrary: m entries rule: write_nodes.induct)
  case (2 tar links name node nodes)
  let ?links = "\<lambda>kind. if is_link kind then links else (nd_identity node, shown_name name) # links"
  from "2.prems"(1) obtain kind entry later where
    keys: "readable_keys node = Inr ()" and kind: "written_as links node = Inr kind" and entry: "append_entry tar (shown_name name) node kind = Inr entry" and
    later: "write_nodes tar (?links kind) nodes = Inr later" and entries: "entries = entry # later"
    by auto
  note written = append_entryD [OF entry]
  have content: "(case wr_kind entry of WrittenDirectory \<Rightarrow> Some ImgDirectory | WrittenFile data \<Rightarrow> Some (ImgFile data)
      | WrittenSymlink target \<Rightarrow> Some (ImgSymlink target) | WrittenLink target \<Rightarrow> m target) = Some (nd_kind node)"
    using written_as_kind [OF kind links_known_map_of [OF "2.prems"(2)]] written by simp
  let ?m = "m(shown_name name \<mapsto> nd_kind node)"
  have "links_known (?links kind) nodes ?m"
    using links_known_next [OF "2.prems"(2-4)] by simp
  moreover have "shares (set nodes)" by (rule shares_mono [OF "2.prems"(3)]) auto
  moreover have "distinct (map (shown_name \<circ> fst) nodes)" using "2.prems"(4) by (simp add: comp_def)
  ultimately have "extracted later ?m = fold place_kind nodes ?m \<and>
      map wr_name later = map (shown_name \<circ> fst) nodes"
    using "2.IH" [OF keys kind entry later] by blast
  with content written show ?case by (simp add: entries place_kind_pair)
qed simp

lemma write_nodes_total:
  assumes "\<And>entry. tw_append tar entry = None"
  shows "list_all unlinked nodes \<Longrightarrow> list_all (\<lambda>(name, node). list_all (\<lambda>(key, data). utf8_valid key) (nd_attributes node)) nodes \<Longrightarrow>
    \<exists>entries. write_nodes tar links nodes = Inr entries"
proof (induction nodes arbitrary: links)
  case (Cons entry nodes)
  obtain name node where entry: "entry = (name, node)" by (cases entry)
  have "\<exists>kind. written_as links node = Inr kind"
    using Cons.prems(1) by (auto simp: entry unlinked_def written_as_def split: option.splits image_kind.splits)
  then obtain kind where kind: "written_as links node = Inr kind" ..
  have "\<exists>written. append_entry tar (shown_name name) node kind = Inr written"
    by (simp add: append_entry_def Let_def assms)
  then obtain written where "append_entry tar (shown_name name) node kind = Inr written" ..
  moreover have "readable_keys node = Inr ()" using Cons.prems(2) by (simp add: entry readable_keys_def)
  ultimately show ?case
    using kind Cons.IH [of "if is_link kind then links else (nd_identity node, shown_name name) # links"] Cons.prems by (auto simp: entry)
qed simp

section \<open>Shared content\<close>

definition sharing :: "(string \<times> image_node) set \<Rightarrow> nat \<Rightarrow> bool" where
  "sharing nodes next_identity \<longleftrightarrow> shares nodes \<and> (\<forall>entry \<in> nodes. nd_identity (snd entry) < next_identity)"

lemma sharing_mono: "sharing nodes n \<Longrightarrow> fewer \<subseteq> nodes \<Longrightarrow> n \<le> n' \<Longrightarrow> sharing fewer n'"
  unfolding sharing_def shares_def by (meson less_le_trans subsetD)

lemma sharing_copy: "sharing nodes n \<Longrightarrow> (name', node) \<in> nodes \<Longrightarrow> sharing (insert (name, node) nodes) n"
  unfolding sharing_def shares_def by (metis insert_iff snd_conv)

lemma sharing_fresh:
  assumes "sharing nodes n" "nd_identity node = n"
  shows "sharing (insert (name, node) nodes) (n + 1)"
proof -
  have old: "nd_identity (snd e) < n" if "e \<in> nodes" for e using assms(1) that by (simp add: sharing_def)
  show ?thesis
    unfolding sharing_def shares_def
  proof (intro conjI ballI impI)
    fix a b assume "a \<in> insert (name, node) nodes" "b \<in> insert (name, node) nodes" "nd_identity (snd a) = nd_identity (snd b)"
    moreover from this have "snd a = snd b \<or> a \<in> nodes \<and> b \<in> nodes"
      using old assms(2) by (metis insert_iff less_irrefl snd_conv)
    ultimately show "nd_kind (snd a) = nd_kind (snd b)"
      using assms(1) unfolding sharing_def shares_def by metis
  next
    fix entry assume "entry \<in> insert (name, node) nodes"
    then show "nd_identity (snd entry) < n + 1" using old [of entry] assms(2) by auto
  qed
qed

lemma set_node_nodes: "set (it_nodes (set_node name node t)) \<subseteq> insert (name, node) (set (it_nodes t))"
  using set_bt_insert_subset by (simp add: set_node_def)

abbreviation tree_sharing :: "(string \<times> image_node) set \<Rightarrow> image_tree \<Rightarrow> bool" where
  "tree_sharing entries t \<equiv> sharing (entries \<union> set (it_nodes t)) (it_next t)"

lemma sharing_set:
  assumes "tree_sharing entries t" "(name', node) \<in> entries \<union> set (it_nodes t)"
  shows "tree_sharing entries (set_node name node t)"
proof -
  have "sharing (insert (name, node) (entries \<union> set (it_nodes t))) (it_next t)" using sharing_copy assms by blast
  then show ?thesis by (rule sharing_mono) (use set_node_nodes [of name node t] in \<open>auto simp: set_node_def\<close>)
qed

lemma sharing_set_fresh:
  assumes "tree_sharing entries t" "nd_identity node = it_next t"
  shows "tree_sharing entries ((set_node name node t)\<lparr>it_next := it_next t + 1\<rparr>)"
proof -
  have "sharing (insert (name, node) (entries \<union> set (it_nodes t))) (it_next t + 1)" using sharing_fresh assms by blast
  then show ?thesis by (rule sharing_mono) (use set_node_nodes [of name node t] in auto)
qed

lemma sharing_parents_loop: "parents_loop parent cs t = Inr t' \<Longrightarrow> tree_sharing entries t \<Longrightarrow> tree_sharing entries t'"
proof (induction parent cs t rule: parents_loop.induct)
  case (2 parent c cs t)
  note fresh = sharing_set_fresh [OF "2.prems"(2), of "directory_node (it_next t)"]
  show ?case
    using 2 fresh by (auto simp: Let_def directory_node_def split: option.splits image_kind.splits)
qed simp

lemma sharing_remove: "tree_sharing entries t \<Longrightarrow> tree_sharing entries (remove_path path include_self t)"
  by (erule sharing_mono) (auto simp: remove_path_def Let_def)

lemma sharing_removals:
  "tree_sharing entries t \<Longrightarrow> tree_sharing entries (fold (\<lambda>(target, include_self). remove_path target include_self) removals t)"
  by (induction removals arbitrary: t) (auto dest: sharing_remove)

lemma sharing_place_entry:
  assumes "place_entry entry t = Inr t'" "tree_sharing (insert entry entries) t"
  shows "tree_sharing entries t'"
proof (cases "is_whiteout (fst entry)")
  case True
  with assms show ?thesis by (auto simp: place_entry_def intro: sharing_mono)
next
  case False
  with assms(1) obtain name node t1 t2 where
    linked: "link_node t (snd entry) = Inr (node, t1)" and
    above: "parents name (clear_for name node t1) = Inr t2" and t': "t' = set_node name node t2"
    by (auto simp: place_entry_def Let_def split: if_splits)
  have t1: "tree_sharing (insert (name, node) entries) t1"
  proof (cases "it_next t1 = it_next t")
    case True
    with linked have "t1 = t" "node = snd entry \<or> (\<exists>name'. (name', node) \<in> set (it_nodes t))"
      by (auto simp: link_node_def dest: map_of_SomeD split: image_kind.splits option.splits if_splits)
    then have "\<exists>name'. (name', node) \<in> insert entry entries \<union> set (it_nodes t)" by (metis UnCI insertI1 prod.collapse)
    with sharing_copy [OF assms(2)] have "sharing (insert (name, node) (insert entry entries \<union> set (it_nodes t))) (it_next t)" by blast
    then show ?thesis unfolding \<open>t1 = t\<close> by (rule sharing_mono) auto
  next
    case False
    with linked have "nd_identity node = it_next t" "it_nodes t1 = it_nodes t" "it_next t1 = it_next t + 1"
      by (auto simp: link_node_def split: image_kind.splits option.splits if_splits)
    with sharing_fresh [OF assms(2), of node name]
    have "sharing (insert (name, node) (insert entry entries \<union> set (it_nodes t1))) (it_next t1)" by simp
    then show ?thesis by (rule sharing_mono) auto
  qed
  then have "tree_sharing (insert (name, node) entries) (clear_for name node t1)"
    using sharing_remove [of "insert (name, node) entries" t1 name True] by (simp add: clear_for_def)
  with above have "tree_sharing (insert (name, node) entries) t2"
    unfolding parents_def by (rule sharing_parents_loop)
  then have "tree_sharing (insert (name, node) entries) t'" unfolding t' by (rule sharing_set [where name' = name]) simp
  then show ?thesis by (rule sharing_mono) auto
qed

lemma sharing_place_entries:
  "place_entries entries t = Inr t' \<Longrightarrow> tree_sharing (set entries) t \<Longrightarrow> tree_sharing {} t'"
  by (induction entries arbitrary: t) (auto dest: sharing_place_entry)

lemma sharing_link_round: "link_round pending resolved t = Inr (resolved', t') \<Longrightarrow> tree_sharing {} t \<Longrightarrow> tree_sharing {} t'"
proof (induction pending resolved t rule: link_round.induct)
  case (2 name target pending resolved t)
  have "tree_sharing {} (set_node name node t)" if "map_of (it_nodes t) target = Some node" for node
    using sharing_set [OF "2.prems"(2), of target] map_of_SomeD [OF that] by simp
  with 2 show ?case by (auto split: option.splits image_kind.splits)
qed simp

lemma sharing_link_rounds: "link_rounds n t = Inr t' \<Longrightarrow> tree_sharing {} t \<Longrightarrow> tree_sharing {} t'"
  by (induction n arbitrary: t) (auto split: if_splits dest: sharing_link_round)

lemma sharing_read_entries:
  "read_entries count seen identity given = Inr entries \<Longrightarrow> sharing nodes identity \<Longrightarrow>
    sharing (set entries \<union> nodes) (identity + length entries)"
proof (induction count seen identity given arbitrary: entries nodes rule: read_entries.induct)
  case (2 count seen identity entry more_given)
  from "2.prems"(1) obtain name node later where entries: "entries = (name, node) # later" "nd_identity node = identity" and
    later: "\<And>nodes. sharing nodes (identity + 1) \<Longrightarrow> sharing (set later \<union> nodes) (identity + 1 + length later)"
    using "2.IH" by (fastforce split: if_splits)
  from later [OF sharing_fresh [OF "2.prems"(2) entries(2), of name]]
  have "sharing (set later \<union> insert (name, node) nodes) (identity + 1 + length later)" .
  then show ?case unfolding entries(1) by (rule sharing_mono) auto
qed simp

lemma sharing_apply_layer:
  assumes "apply_layer given t = Inr t'" "tree_sharing {} t"
  shows "tree_sharing {} t'"
proof -
  let ?cleared = "\<lambda>entries removals. fold (\<lambda>(target, include_self). remove_path target include_self) removals (t\<lparr>it_next := it_next t + length entries\<rparr>)"
  from assms(1) obtain entries removals placed where
    read: "read_entries 0 [] (it_next t) given = Inr entries" and
    placed: "place_entries entries (?cleared entries removals) = Inr placed" and linked: "link_rounds 40 placed = Inr t'"
    by (auto simp: apply_layer_def)
  have "tree_sharing (set entries) (t\<lparr>it_next := it_next t + length entries\<rparr>)"
    using sharing_read_entries [OF read, of "set (it_nodes t)"] assms(2) by simp
  from sharing_place_entries [OF placed sharing_removals [OF this]] have "tree_sharing {} placed" .
  with linked show ?thesis by (rule sharing_link_rounds)
qed

lemma sharing_apply_layers: "apply_layers layers t = Inr t' \<Longrightarrow> tree_sharing {} t \<Longrightarrow> tree_sharing {} t'"
  by (induction layers arbitrary: t) (simp, use sharing_apply_layer in fastforce)

lemma sharing_new: "tree_sharing {} image_tree_new"
  by (simp add: sharing_def shares_def image_tree_new_def directory_node_def)

section \<open>How many names\<close>

lemma length_bt: "bt_wf m \<Longrightarrow> length m = card (fst ` set m)"
  using bt_wf_distinct distinct_card by fastforce

lemma set_node_length: "bt_wf (it_nodes t) \<Longrightarrow> map_of (it_nodes t) name \<noteq> None \<Longrightarrow> length (it_nodes (set_node name node t)) = length (it_nodes t)"
  by (simp add: set_node_def length_bt map_of_eq_None_iff insert_absorb)

lemma link_round_length:
  "link_round pending resolved t = Inr (resolved', t') \<Longrightarrow> bt_wf (it_nodes t) \<Longrightarrow> list_all (\<lambda>(name, target). map_of (it_nodes t) name \<noteq> None) pending \<Longrightarrow>
    length (it_nodes t') = length (it_nodes t)"
proof (induction pending resolved t rule: link_round.induct)
  case (2 name target pending resolved t)
  have "list_all (\<lambda>(name, target). map_of (it_nodes t) name \<noteq> None) pending" "map_of (it_nodes t) name \<noteq> None"
    using "2.prems"(3) by simp_all
  moreover from this have "list_all (\<lambda>(name, target). map_of (it_nodes (set_node name' node t)) name \<noteq> None) pending" for name' node
    by (auto simp: list_all_iff)
  moreover have "bt_wf (it_nodes (set_node name' node t))" for name' node using "2.prems"(2) by (simp add: set_node_def)
  ultimately show ?case
    using "2.prems"(1,2) "2.IH" set_node_length [OF "2.prems"(2)] by (auto split: option.splits image_kind.splits)
qed simp

lemma link_rounds_length: "link_rounds n t = Inr t' \<Longrightarrow> tree_ok t \<Longrightarrow> length (it_nodes t') = length (it_nodes t)"
proof (induction n arbitrary: t)
  case (Suc n)
  have pending: "list_all (\<lambda>(name, target). map_of (it_nodes t) name \<noteq> None) (pending_links t)"
    using pending_leaves [OF Suc.prems(2)] by (auto simp: list_all_iff leaf_def)
  show ?case
    using Suc link_round_ok [OF _ Suc.prems(2) pending_leaves [OF Suc.prems(2)]]
      link_round_length [OF _ tree_okD(1) [OF Suc.prems(2)] pending] by (fastforce split: if_splits)
qed simp

lemma place_entries_length:
  "place_entries entries t = Inr t' \<Longrightarrow> length (it_nodes t) \<le> MAX_ENTRIES \<Longrightarrow> length (it_nodes t') \<le> MAX_ENTRIES"
  by (induction entries arbitrary: t) (auto simp: place_entry_def Let_def split: if_splits)

lemma removals_length: "length (it_nodes (fold (\<lambda>(target, include_self). remove_path target include_self) removals t)) \<le> length (it_nodes t)"
proof (induction removals arbitrary: t)
  case (Cons removal removals)
  have "length (it_nodes (remove_path (fst removal) (snd removal) t)) \<le> length (it_nodes t)" by (simp add: remove_path_def Let_def)
  with Cons.IH [of "remove_path (fst removal) (snd removal) t"] show ?case by (simp add: split_def)
qed simp

lemma apply_layer_length:
  assumes "apply_layer given t = Inr t'" "tree_ok t" "length (it_nodes t) \<le> MAX_ENTRIES"
  shows "length (it_nodes t') \<le> MAX_ENTRIES"
proof -
  let ?cleared = "\<lambda>entries removals. fold (\<lambda>(target, include_self). remove_path target include_self) removals (t\<lparr>it_next := it_next t + length entries\<rparr>)"
  from assms(1) obtain entries removals placed where
    removals: "layer_removals t entries = Inr removals" and
    placed: "place_entries entries (?cleared entries removals) = Inr placed" and linked: "link_rounds 40 placed = Inr t'"
    by (auto simp: apply_layer_def)
  have "length (it_nodes (?cleared entries removals)) \<le> MAX_ENTRIES"
    using removals_length [of removals "t\<lparr>it_next := it_next t + length entries\<rparr>"] assms(3) by simp
  then have "length (it_nodes placed) \<le> MAX_ENTRIES" by (rule place_entries_length [OF placed])
  moreover have "tree_ok placed"
    using removals_tree_ok [OF _ removals_ok [OF removals], of "t\<lparr>it_next := it_next t + length entries\<rparr>"] assms(2)
    by (intro place_entries_ok [OF _ placed]) simp
  ultimately show ?thesis using link_rounds_length [OF linked] by simp
qed

lemma apply_layers_length:
  "apply_layers layers t = Inr t' \<Longrightarrow> tree_ok t \<Longrightarrow> length (it_nodes t) \<le> MAX_ENTRIES \<Longrightarrow> length (it_nodes t') \<le> MAX_ENTRIES"
proof (induction layers arbitrary: t)
  case (Cons layer layers)
  then obtain between where "apply_layer layer t = Inr between" "apply_layers layers between = Inr t'" by auto
  then show ?case using Cons.IH Cons.prems(2,3) apply_layer_length apply_layer_ok by blast
qed simp

section \<open>Reading the archive back\<close>

lemma fold_updates:
  "distinct (map (shown_name \<circ> fst) nodes) \<Longrightarrow>
    fold place_kind nodes m x =
    (case map_of (map (\<lambda>(name, node). (shown_name name, nd_kind node)) nodes) x of Some kind \<Rightarrow> Some kind | None \<Rightarrow> m x)"
proof (induction nodes arbitrary: m)
  case (Cons entry nodes)
  obtain name node where entry: "entry = (name, node)" by (cases entry)
  have "map_of (map (\<lambda>(name, node). (shown_name name, nd_kind node)) nodes) (shown_name name) = None"
    using Cons.prems by (force simp: entry map_of_eq_None_iff)
  with Cons show ?case by (auto simp: entry place_kind_def split: option.splits)
qed simp

lemma shown_name_inj: "plain_name a \<Longrightarrow> plain_name b \<Longrightarrow> shown_name a = shown_name b \<longleftrightarrow> a = b"
  by (auto simp: shown_name_def plain_name_def plain_segment_def split: if_splits)

lemma written_order_set: "set (written_order t) = set (it_nodes t)"
  by (auto simp: written_order_def)

lemma written_order_distinct: "bt_wf (it_nodes t) \<Longrightarrow> distinct (map fst (written_order t))"
  using bt_wf_distinct [of "it_nodes t"] by (auto simp: written_order_def distinct_map inj_on_def)

lemma written_order_length: "length (written_order t) = length (it_nodes t)"
  using sum_length_filter_compl [of "\<lambda>(name, node). nd_kind node = ImgDirectory" "it_nodes t"]
  by (simp add: written_order_def split_def)

lemma tree_ok_names: "tree_ok t \<Longrightarrow> name \<in> fst ` set (it_nodes t) \<Longrightarrow> plain_name name"
  by (auto simp: tree_ok_def list_all_iff)

lemma written_names_distinct:
  assumes "tree_ok t"
  shows "distinct (map (shown_name \<circ> fst) (written_order t))"
proof -
  have "inj_on shown_name (set (map fst (written_order t)))"
    using shown_name_inj tree_ok_names [OF assms] by (simp add: inj_on_def written_order_set image_iff)
  then show ?thesis using written_order_distinct [OF tree_okD(1) [OF assms]] by (simp add: distinct_map comp_inj_on)
qed

lemma shown_lookup:
  assumes "tree_ok t" "plain_name name"
  shows "map_of (map (\<lambda>(name, node). (shown_name name, nd_kind node)) (written_order t)) (shown_name name) =
    map_option nd_kind (map_of (it_nodes t) name)"
proof (cases "map_of (it_nodes t) name")
  case None
  then have "shown_name name \<notin> shown_name ` fst ` set (it_nodes t)"
    using shown_name_inj [OF assms(2)] tree_ok_names [OF assms(1)] by (metis (no_types, lifting) imageE map_of_eq_None_iff)
  then have "map_of (map (\<lambda>(name, node). (shown_name name, nd_kind node)) (written_order t)) (shown_name name) = None"
    by (force simp: map_of_eq_None_iff written_order_set image_comp)
  with None show ?thesis by simp
next
  case (Some node)
  then have "(shown_name name, nd_kind node) \<in> set (map (\<lambda>(name, node). (shown_name name, nd_kind node)) (written_order t))"
    by (force simp: written_order_set dest: map_of_SomeD)
  moreover have "distinct (map fst (map (\<lambda>(name, node). (shown_name name, nd_kind node)) (written_order t)))"
    using written_names_distinct [OF assms(1)] by (simp add: comp_def split_def)
  ultimately show ?thesis using Some by simp
qed

lemma pending_unlinked: "pending_links t = [] \<Longrightarrow> list_all unlinked (it_nodes t)"
  by (auto simp: pending_links_def unlinked_def list_all_iff split: image_kind.splits)

lemma finish_reads_back:
  assumes "tree_ok t" "tree_sharing {} t" "image_finish tar t = Inr filesystem"
  shows "map wr_name (fs_tar filesystem) = map (shown_name \<circ> fst) (written_order t)"
    "plain_name name \<Longrightarrow> extracted (fs_tar filesystem) Map.empty (shown_name name) = map_option nd_kind (map_of (it_nodes t) name)"
    "fs_entries filesystem = length (it_nodes t)"
proof -
  from assms(3) have written: "write_nodes tar [] (written_order t) = Inr (fs_tar filesystem)"
    by (auto simp: image_finish_def)
  have "shares (set (written_order t))" using assms(2) by (simp add: sharing_def written_order_set)
  note result = write_nodes_extract [OF written _ this written_names_distinct [OF assms(1)], of Map.empty]
  then show "map wr_name (fs_tar filesystem) = map (shown_name \<circ> fst) (written_order t)" by (simp add: links_known_def)
  show "extracted (fs_tar filesystem) Map.empty (shown_name name) = map_option nd_kind (map_of (it_nodes t) name)" if "plain_name name"
    using result fold_updates [OF written_names_distinct [OF assms(1)], of Map.empty] shown_lookup [OF assms(1) that]
    by (simp add: links_known_def split: option.splits)
  show "fs_entries filesystem = length (it_nodes t)" using assms(3) by (auto simp: image_finish_def)
qed

section \<open>The image\<close>

lemma layers_tree:
  assumes "apply_layers layers image_tree_new = Inr t"
  shows "tree_ok t" "pending_links t = []" "tree_sharing {} t" "length (it_nodes t) \<le> MAX_ENTRIES"
  using apply_layers_ok [OF assms tree_ok_new] sharing_apply_layers [OF assms sharing_new] apply_layers_length [OF assms tree_ok_new]
  by (simp_all add: image_tree_new_def pending_links_def directory_node_def MAX_ENTRIES_def)

text \<open>(C37) Whatever layers an image has: when they apply, every name lies inside the image (no part of
  it is empty, \<open>.\<close> or \<open>..\<close>), everything a name lies beneath is a directory, no hard link is left open and
  there are at most a hundred thousand names.\<close>

theorem image_layers_stay_inside:
  assumes "apply_layers layers image_tree_new = Inr t"
  shows "list_all (\<lambda>(name, node). plain_name name \<and> (\<forall>target. nd_kind node \<noteq> ImgHardlink target)) (it_nodes t) \<and>
    (\<forall>p r. map_of (it_nodes t) (p @ slash # r) \<noteq> None \<longrightarrow> is_directory t p) \<and> is_directory t [] \<and> length (it_nodes t) \<le> MAX_ENTRIES"
proof -
  note ok = layers_tree [OF assms]
  have "list_all (\<lambda>(name, node). plain_name name \<and> (\<forall>target. nd_kind node \<noteq> ImgHardlink target)) (it_nodes t)"
    using ok(1) pending_unlinked [OF ok(2)] by (auto simp: list_all_iff unlinked_def tree_ok_def)
  with ok(4) tree_okD(2,4) [OF ok(1)] show ?thesis by blast
qed


section \<open>Witnesses\<close>

definition sample_entry :: "string \<Rightarrow> tar_kind \<Rightarrow> string + tar_entry" where
  "sample_entry name kind = Inr \<lparr>te_path = Inr name, te_header = ''0644'', te_pax = Inr [], te_kind = kind\<rparr>"

definition sample_layers :: "(string + tar_entry) list list" where
  "sample_layers =
     [[sample_entry ''a/b'' (TarFile (Inr ''x'')), sample_entry ''a/c'' (TarHardlink (Inr (Some ''a/b'')))],
      [sample_entry ''a/.wh.b'' (TarFile (Inr []))]]"

definition sample_tree :: image_tree where
  "sample_tree =
     \<lparr>it_nodes = [([], directory_node 0), (''a'', directory_node 3),
        (''a/c'', \<lparr>nd_header = ''0644'', nd_attributes = [], nd_kind = ImgFile ''x'', nd_identity = 1\<rparr>)], it_next = 5\<rparr>"

lemma link_rounds_numeral [simp]:
  "link_rounds (numeral n) t =
     (if pending_links t = [] then Inr t
      else and_then (link_round (pending_links t) False t) (\<lambda>(resolved, t).
             if resolved then link_rounds (pred_numeral n) t else Inl (ImageInvalid ''a layer has unresolved or cyclic hard links'')))"
  by (simp add: numeral_eq_Suc)

lemma sample_names: "utf8_valid ''a''" "utf8_valid ''b''" "utf8_valid ''c''" "utf8_valid ''.wh.b''"
  by code_simp+

lemma sample_applies: "apply_layers sample_layers image_tree_new = Inr sample_tree"
  by (simp add: sample_layers_def sample_entry_def apply_layer_def image_tree_new_def sample_tree_def MAX_ENTRIES_def io_def
      archive_path_def starts_with_def read_kind_def basename_def is_whiteout_def place_entry_def parents_def resolve_def
      resolve_loop.simps(2) link_node_def clear_for_def remove_path_def set_node_def directory_node_def is_directory_def
      pending_links_def parent_of_def Let_def sample_names)

theorem image_layers_stay_inside_witness:
  "apply_layers sample_layers image_tree_new = Inr sample_tree \<and> map_of (it_nodes sample_tree) (''a'' @ slash # ''c'') \<noteq> None \<and>
   is_directory sample_tree ''a'' \<and> length (it_nodes sample_tree) \<le> MAX_ENTRIES"
proof -
  have "map_of (it_nodes sample_tree) (''a'' @ slash # ''c'') \<noteq> None" by (simp add: sample_tree_def)
  with image_layers_stay_inside [OF sample_applies] sample_applies show ?thesis by blast
qed

definition sample_writer :: tar_writer where
  "sample_writer = \<lparr>tw_clear_prefix = (\<lambda>header. header), tw_append = (\<lambda>entry. None)\<rparr>"


end
