(* ===== verification/OciImage.thy ===== *)
theory OciImage
  imports ImageTree
begin

text \<open>
  Flattening an OCI image (\<open>crates/oci-image/src/lib.rs\<close>): the archive's files, the indexes with their
  descriptors, the one manifest for this platform, and its layers, each decoded and applied. The tar
  reader and writer, the JSON reader, SHA-256 and the decompressors are parameters. Shown: an image that
  comes out was checked against every digest on the way and keeps the limits, and is the tree its layers make.
\<close>

section \<open>Metadata\<close>

definition OCI_MANIFEST :: string where
  "OCI_MANIFEST = ''application/vnd.oci.image.manifest.v1+json''"

definition DOCKER_MANIFEST :: string where
  "DOCKER_MANIFEST = ''application/vnd.docker.distribution.manifest.v2+json''"

definition OCI_INDEX :: string where
  "OCI_INDEX = ''application/vnd.oci.image.index.v1+json''"

definition DOCKER_INDEX :: string where
  "DOCKER_INDEX = ''application/vnd.docker.distribution.manifest.list.v2+json''"

definition MAX_INDEX_DEPTH :: nat where
  "MAX_INDEX_DEPTH = 8"

definition MAX_METADATA_BYTES :: nat where
  "MAX_METADATA_BYTES = 4 * 1024 * 1024"

definition MAX_IMAGE_LAYERS :: nat where
  "MAX_IMAGE_LAYERS = 128"

definition MAX_DECODED_BYTES :: nat where
  "MAX_DECODED_BYTES = 1024 * 1024 * 1024"

record platform =
  pl_architecture :: string
  pl_os :: string

record descriptor =
  de_media_type :: string
  de_digest :: string
  de_size :: nat
  de_platform :: "platform option"

record image_layout =
  la_version :: string

record image_index =
  ix_schema_version :: nat
  ix_manifests :: "descriptor list"

record image_manifest =
  mf_schema_version :: nat
  mf_config :: descriptor
  mf_layers :: "descriptor list"

record image_config =
  ic_platform :: platform
  ic_rootfs_kind :: string
  ic_diff_ids :: "string list"

definition platform_supported :: "platform \<Rightarrow> bool" where
  "platform_supported p \<longleftrightarrow> pl_os p = ''linux'' \<and> pl_architecture p = ''amd64''"

section \<open>The libraries\<close>

text \<open>An entry of an archive also says where its content stands in the archive's bytes.\<close>

record archive_entry = tar_entry +
  ae_position :: nat
  ae_size :: nat

text \<open>
  The tar reader, the JSON reader for each document, SHA-256 in hexadecimal, and the decompressors. What
  a decompressor yields is the bytes it produces and the failure it ends with, if any.
\<close>

record oci_library =
  ol_entries :: "string \<Rightarrow> string + (string + archive_entry) list"
  ol_layout :: "string \<Rightarrow> string + image_layout"
  ol_index :: "string \<Rightarrow> string + image_index"
  ol_manifest :: "string \<Rightarrow> string + image_manifest"
  ol_config :: "string \<Rightarrow> string + image_config"
  ol_sha256 :: "string \<Rightarrow> string"
  ol_gzip :: "string \<Rightarrow> string \<times> string option"
  ol_zstd :: "string \<Rightarrow> string + (string \<times> string option)"
  ol_writer :: tar_writer

definition metadata :: "(string \<Rightarrow> string + 'a) \<Rightarrow> string \<Rightarrow> image_error + 'a" where
  "metadata parse bytes =
     (if MAX_METADATA_BYTES < length bytes then Inl (ImageInvalid ''metadata exceeds 4 MiB'')
      else case parse bytes of Inl e \<Rightarrow> Inl (ImageJson e) | Inr x \<Rightarrow> Inr x)"

section \<open>The archive's files\<close>

definition body_of :: "string \<Rightarrow> nat \<Rightarrow> nat \<Rightarrow> image_error + string" where
  "body_of bytes start sz =
     (if 2 ^ 64 \<le> start + sz then Inl (ImageInvalid ''blob size overflow'')
      else if length bytes < start + sz then Inl (ImageInvalid ''a blob is truncated'')
      else Inr (take sz (drop start bytes)))"

fun collect_files :: "string \<Rightarrow> nat \<Rightarrow> (string, string) btree \<Rightarrow> (string + archive_entry) list \<Rightarrow> image_error + (string, string) btree" where
  "collect_files bytes count files [] = Inr files"
| "collect_files bytes count files (given # more_given) =
     (if MAX_ENTRIES \<le> count then Inl (ImageInvalid ''the archive has too many entries'')
      else and_then (io given) (\<lambda>entry.
           and_then (and_then (io (te_path entry)) archive_path) (\<lambda>path.
           case te_kind entry of
             TarDirectory \<Rightarrow> collect_files bytes (count + 1) files more_given
           | TarFile _ \<Rightarrow>
               and_then (body_of bytes (ae_position entry) (ae_size entry)) (\<lambda>body.
                 if map_of files path \<noteq> None then Inl (ImageInvalid ''the archive repeats a path'')
                 else collect_files bytes (count + 1) (bt_insert path body files) more_given)
           | _ \<Rightarrow> Inl (ImageInvalid ''archive metadata and blobs must be regular files''))))"

definition archive_files :: "oci_library \<Rightarrow> string \<Rightarrow> image_error + (string, string) btree" where
  "archive_files lib bytes = and_then (io (ol_entries lib bytes)) (collect_files bytes 0 [])"

section \<open>Blobs\<close>

definition lower_hex :: "char \<Rightarrow> bool" where
  "lower_hex c \<longleftrightarrow> c \<in> set ''0123456789abcdef''"

definition checked_digest :: "string \<Rightarrow> image_error + string" where
  "checked_digest digest =
     (if \<not> starts_with ''sha256:'' digest then Inl (ImageInvalid ''only SHA256 blobs are supported'')
      else let hash = drop 7 digest
           in if length hash \<noteq> 64 \<or> \<not> list_all lower_hex hash then Inl (ImageInvalid ''a SHA256 digest is malformed'')
              else Inr hash)"

definition blob :: "oci_library \<Rightarrow> (string, string) btree \<Rightarrow> descriptor \<Rightarrow> image_error + string" where
  "blob lib files d =
     and_then (checked_digest (de_digest d)) (\<lambda>hash.
     case map_of files (''blobs/sha256/'' @ hash) of
       None \<Rightarrow> Inl (ImageInvalid (de_digest d @ '' is missing''))
     | Some bytes \<Rightarrow>
         if length bytes \<noteq> de_size d \<or> ol_sha256 lib bytes \<noteq> hash
         then Inl (ImageInvalid (de_digest d @ '' does not match its size and digest''))
         else Inr bytes)"

section \<open>The manifest for this platform\<close>

definition index_refused :: "image_index \<Rightarrow> nat \<Rightarrow> bool" where
  "index_refused index depth \<longleftrightarrow>
     ix_schema_version index \<noteq> 2 \<or> MAX_INDEX_DEPTH < depth \<or> MAX_ENTRIES < length (ix_manifests index)"

definition is_image_config :: "string \<Rightarrow> bool" where
  "is_image_config media_type \<longleftrightarrow>
     media_type = ''application/vnd.oci.image.config.v1+json'' \<or> media_type = ''application/vnd.docker.container.image.v1+json''"

text \<open>What a manifest's descriptor adds to what was found.\<close>

definition take_manifest :: "oci_library \<Rightarrow> (string, string) btree \<Rightarrow> descriptor \<Rightarrow> image_manifest list \<Rightarrow> image_error + image_manifest list" where
  "take_manifest lib files d found =
     and_then (and_then (blob lib files d) (metadata (ol_manifest lib))) (\<lambda>manifest.
     if \<not> is_image_config (de_media_type (mf_config manifest)) then Inr found
     else and_then (and_then (blob lib files (mf_config manifest)) (metadata (ol_config lib))) (\<lambda>config.
          if platform_supported (ic_platform config)
          then if 1 < length (found @ [manifest]) then Inl (ImageInvalid ''the archive contains more than one Linux amd64 image'')
               else Inr (found @ [manifest])
          else Inr found))"

function (sequential) manifests_loop ::
  "oci_library \<Rightarrow> (string, string) btree \<Rightarrow> nat \<Rightarrow> descriptor list \<Rightarrow> image_manifest list \<Rightarrow> nat \<Rightarrow> image_error + (image_manifest list \<times> nat)" where
  "manifests_loop lib files depth [] found remaining = Inr (found, remaining)"
| "manifests_loop lib files depth (d # ds) found 0 = Inl (ImageInvalid ''the indexes reference too many descriptors'')"
| "manifests_loop lib files depth (d # ds) found (Suc remaining) =
     (if (case de_platform d of Some p \<Rightarrow> \<not> platform_supported p | None \<Rightarrow> False) then manifests_loop lib files depth ds found remaining
      else if de_media_type d = OCI_INDEX \<or> de_media_type d = DOCKER_INDEX
      then and_then (and_then (blob lib files d) (metadata (ol_index lib))) (\<lambda>index.
             if index_refused index (depth + 1) then Inl (ImageInvalid ''the image index version, size or nesting is unsupported'')
             else and_then (manifests_loop lib files (depth + 1) (ix_manifests index) found remaining) (\<lambda>(found, remaining).
                  manifests_loop lib files depth ds found remaining))
      else if de_media_type d = OCI_MANIFEST \<or> de_media_type d = DOCKER_MANIFEST
      then and_then (take_manifest lib files d found) (\<lambda>found. manifests_loop lib files depth ds found remaining)
      else manifests_loop lib files depth ds found remaining)"
  by pat_completeness auto
termination
  by (relation "measures [\<lambda>(lib, files, depth, ds, found, remaining). Suc MAX_INDEX_DEPTH - depth,
    \<lambda>(lib, files, depth, ds, found, remaining). length ds]") (auto simp: index_refused_def)

definition manifests ::
  "oci_library \<Rightarrow> (string, string) btree \<Rightarrow> image_index \<Rightarrow> nat \<Rightarrow> image_manifest list \<Rightarrow> nat \<Rightarrow> image_error + (image_manifest list \<times> nat)" where
  "manifests lib files index depth found remaining =
     (if index_refused index depth then Inl (ImageInvalid ''the image index version, size or nesting is unsupported'')
      else manifests_loop lib files depth (ix_manifests index) found remaining)"

section \<open>Layers\<close>

text \<open>At most \<open>limit\<close> bytes are read; what would fail behind them is not seen.\<close>

definition read_at_most :: "nat \<Rightarrow> string \<times> string option \<Rightarrow> image_error + string" where
  "read_at_most limit stream =
     (if limit \<le> length (fst stream) then Inr (take limit (fst stream))
      else case snd stream of Some e \<Rightarrow> Inl (ImageIo e) | None \<Rightarrow> Inr (fst stream))"

definition layer_reader :: "oci_library \<Rightarrow> string \<Rightarrow> string \<Rightarrow> image_error + (string \<times> string option)" where
  "layer_reader lib bytes media_type =
     (if media_type = ''application/vnd.oci.image.layer.v1.tar'' then Inr (bytes, None)
      else if media_type = ''application/vnd.oci.image.layer.v1.tar+gzip'' \<or> media_type = ''application/vnd.docker.image.rootfs.diff.tar.gzip''
      then Inr (ol_gzip lib bytes)
      else if media_type = ''application/vnd.oci.image.layer.v1.tar+zstd'' then io (ol_zstd lib bytes)
      else Inl (ImageInvalid (''layer media type '' @ media_type @ '' is unsupported'')))"

definition decode_layer :: "oci_library \<Rightarrow> string \<Rightarrow> string \<Rightarrow> nat \<Rightarrow> image_error + string" where
  "decode_layer lib bytes media_type remaining =
     and_then (layer_reader lib bytes media_type) (\<lambda>stream.
     and_then (read_at_most (remaining + 1) stream) (\<lambda>decoded.
     if remaining < length decoded then Inl (ImageInvalid ''decoded image layers exceed 1 GiB'') else Inr decoded))"

definition apply_bytes :: "oci_library \<Rightarrow> string \<Rightarrow> image_tree \<Rightarrow> image_error + image_tree" where
  "apply_bytes lib bytes t =
     and_then (io (ol_entries lib bytes)) (\<lambda>given. apply_layer (map (map_sum id tar_entry.truncate) given) t)"

fun flatten_layers :: "oci_library \<Rightarrow> (string, string) btree \<Rightarrow> (descriptor \<times> string) list \<Rightarrow> nat \<Rightarrow> image_tree \<Rightarrow> image_error + image_tree" where
  "flatten_layers lib files [] remaining t = Inr t"
| "flatten_layers lib files ((layer, diff_id) # layers) remaining t =
     and_then (blob lib files layer) (\<lambda>bytes.
     and_then (decode_layer lib bytes (de_media_type layer) remaining) (\<lambda>decoded.
     and_then (checked_digest diff_id) (\<lambda>hash.
     if ol_sha256 lib decoded \<noteq> hash then Inl (ImageInvalid ''an unpacked layer does not match its diff ID'')
     else and_then (apply_bytes lib decoded t) (flatten_layers lib files layers (remaining - length decoded)))))"

definition document :: "(string, string) btree \<Rightarrow> string \<Rightarrow> image_error + string" where
  "document files name = (case map_of files name of None \<Rightarrow> Inl (ImageInvalid (name @ '' is missing'')) | Some bytes \<Rightarrow> Inr bytes)"

definition flatten :: "oci_library \<Rightarrow> string \<Rightarrow> image_error + image_filesystem" where
  "flatten lib archive =
     and_then (archive_files lib archive) (\<lambda>files.
     and_then (and_then (document files ''oci-layout'') (metadata (ol_layout lib))) (\<lambda>layout.
     if la_version layout \<noteq> ''1.0.0'' then Inl (ImageInvalid ''the OCI layout version is unsupported'')
     else and_then (and_then (document files ''index.json'') (metadata (ol_index lib))) (\<lambda>index.
          and_then (manifests lib files index 0 [] MAX_ENTRIES) (\<lambda>(found, remaining).
          if found = [] then Inl (ImageInvalid ''the archive has no Linux amd64 image'')
          else let manifest = List.last found
               in and_then (and_then (blob lib files (mf_config manifest)) (metadata (ol_config lib))) (\<lambda>config.
                  if mf_schema_version manifest \<noteq> 2 \<or> ic_rootfs_kind config \<noteq> ''layers'' \<or>
                     length (ic_diff_ids config) \<noteq> length (mf_layers manifest) \<or> MAX_IMAGE_LAYERS < length (mf_layers manifest)
                  then Inl (ImageInvalid ''the image manifest and rootfs layers disagree'')
                  else and_then (flatten_layers lib files (zip (mf_layers manifest) (ic_diff_ids config)) MAX_DECODED_BYTES image_tree_new)
                       (image_finish (ol_writer lib)))))))"

section \<open>What was checked\<close>

text \<open>A blob stands under its digest in the archive, and has it and the size its descriptor names.\<close>

definition digest_of :: "string \<Rightarrow> string \<Rightarrow> bool" where
  "digest_of digest hash \<longleftrightarrow> digest = ''sha256:'' @ hash \<and> length hash = 64 \<and> list_all lower_hex hash"

definition verified_blob :: "oci_library \<Rightarrow> (string, string) btree \<Rightarrow> descriptor \<Rightarrow> string \<Rightarrow> bool" where
  "verified_blob lib files d bytes \<longleftrightarrow>
     digest_of (de_digest d) (ol_sha256 lib bytes) \<and> length bytes = de_size d \<and>
     map_of files (''blobs/sha256/'' @ ol_sha256 lib bytes) = Some bytes"

lemma sha_prefix_length: "length ''sha256:'' = 7"
  by simp

lemma checked_digest_Inr: "checked_digest digest = Inr hash \<longleftrightarrow> digest_of digest hash"
proof -
  have "starts_with ''sha256:'' digest \<longleftrightarrow> digest = ''sha256:'' @ drop 7 digest"
    unfolding starts_with_def by (metis (no_types) append_eq_conv_conj append_take_drop_id sha_prefix_length)
  then show ?thesis by (auto simp: checked_digest_def digest_of_def Let_def)
qed

lemma blob_Inr: "blob lib files d = Inr bytes \<longleftrightarrow> verified_blob lib files d bytes"
  by (auto simp: blob_def verified_blob_def checked_digest_Inr split: option.splits if_splits)

lemma verified_blob_unique: "verified_blob lib files d a \<Longrightarrow> verified_blob lib files d b \<Longrightarrow> a = b"
  by (auto simp: verified_blob_def digest_of_def)

text \<open>The manifest and its configuration come from verified blobs, for this platform.\<close>

definition found_manifest :: "oci_library \<Rightarrow> (string, string) btree \<Rightarrow> image_manifest \<Rightarrow> bool" where
  "found_manifest lib files manifest \<longleftrightarrow>
     (\<exists>d bytes. verified_blob lib files d bytes \<and> metadata (ol_manifest lib) bytes = Inr manifest) \<and>
     (\<exists>bytes config. verified_blob lib files (mf_config manifest) bytes \<and> metadata (ol_config lib) bytes = Inr config \<and>
        platform_supported (ic_platform config))"

lemma take_manifest_found:
  "take_manifest lib files d found = Inr found' \<Longrightarrow> list_all (found_manifest lib files) found \<Longrightarrow> length found \<le> 1 \<Longrightarrow>
    list_all (found_manifest lib files) found' \<and> length found' \<le> 1"
  by (fastforce simp: take_manifest_def blob_Inr found_manifest_def split: if_splits)

lemma manifests_loop_found:
  "manifests_loop lib files depth ds found remaining = Inr (found', remaining') \<Longrightarrow>
    list_all (found_manifest lib files) found \<Longrightarrow> length found \<le> 1 \<Longrightarrow>
    list_all (found_manifest lib files) found' \<and> length found' \<le> 1 \<and> remaining' + length ds \<le> remaining"
proof (induction lib files depth ds found remaining arbitrary: found' remaining' rule: manifests_loop.induct)
  case (3 lib files depth d ds found remaining)
  consider (skipped) "case de_platform d of Some p \<Rightarrow> \<not> platform_supported p | None \<Rightarrow> False"
    | (index) "\<not> (case de_platform d of Some p \<Rightarrow> \<not> platform_supported p | None \<Rightarrow> False)" "de_media_type d = OCI_INDEX \<or> de_media_type d = DOCKER_INDEX"
    | (manifest) "\<not> (case de_platform d of Some p \<Rightarrow> \<not> platform_supported p | None \<Rightarrow> False)" "\<not> (de_media_type d = OCI_INDEX \<or> de_media_type d = DOCKER_INDEX)"
        "de_media_type d = OCI_MANIFEST \<or> de_media_type d = DOCKER_MANIFEST"
    | (other) "\<not> (case de_platform d of Some p \<Rightarrow> \<not> platform_supported p | None \<Rightarrow> False)" "\<not> (de_media_type d = OCI_INDEX \<or> de_media_type d = DOCKER_INDEX)"
        "\<not> (de_media_type d = OCI_MANIFEST \<or> de_media_type d = DOCKER_MANIFEST)"
    by blast
  then show ?case
  proof cases
    case skipped
    then show ?thesis using "3.IH"(1) "3.prems" by fastforce
  next
    case index
    with "3.prems"(1) obtain bytes nested found1 remaining1 where
      nested: "blob lib files d = Inr bytes" "metadata (ol_index lib) bytes = Inr nested" "\<not> index_refused nested (depth + 1)" and
      inner: "manifests_loop lib files (depth + 1) (ix_manifests nested) found remaining = Inr (found1, remaining1)" and
      rest: "manifests_loop lib files depth ds found1 remaining1 = Inr (found', remaining')"
      by (auto split: if_splits)
    have "and_then (blob lib files d) (metadata (ol_index lib)) = Inr nested" using nested by simp
    note one = "3.IH"(2) [OF index this nested(3) inner "3.prems"(2,3)]
    with "3.IH"(3) [OF index \<open>and_then _ _ = _\<close> nested(3) inner refl rest] show ?thesis by auto
  next
    case manifest
    with "3.prems"(1) obtain found1 where found1: "take_manifest lib files d found = Inr found1" and
      rest: "manifests_loop lib files depth ds found1 remaining = Inr (found', remaining')"
      by (auto split: if_splits)
    from "3.IH"(4) [OF manifest found1 rest] take_manifest_found [OF found1 "3.prems"(2,3)] show ?thesis by auto
  next
    case other
    then show ?thesis using "3.IH"(5) "3.prems" by fastforce
  qed
qed auto

text \<open>A layer's content comes from its verified blob and has its diff ID.\<close>

definition layer_checked :: "oci_library \<Rightarrow> (string, string) btree \<Rightarrow> descriptor \<times> string \<Rightarrow> string \<Rightarrow> bool" where
  "layer_checked lib files layer content \<longleftrightarrow>
     (\<exists>bytes remaining. verified_blob lib files (fst layer) bytes \<and> decode_layer lib bytes (de_media_type (fst layer)) remaining = Inr content) \<and>
     digest_of (snd layer) (ol_sha256 lib content)"

definition layer_read :: "oci_library \<Rightarrow> string \<Rightarrow> (string + tar_entry) list \<Rightarrow> bool" where
  "layer_read lib content entries \<longleftrightarrow> map_sum id (map (map_sum id tar_entry.truncate)) (ol_entries lib content) = Inr entries"

lemma decode_layer_bound: "decode_layer lib bytes media_type remaining = Inr decoded \<Longrightarrow> length decoded \<le> remaining"
  by (auto simp: decode_layer_def split: if_splits)

lemma apply_bytes_read: "apply_bytes lib bytes t = Inr t' \<Longrightarrow> \<exists>entries. layer_read lib bytes entries \<and> apply_layer entries t = Inr t'"
  by (auto simp: apply_bytes_def layer_read_def io_def split: sum.splits)

lemma flatten_layers_checked:
  "flatten_layers lib files layers remaining t = Inr t' \<Longrightarrow>
    \<exists>contents entries. list_all2 (layer_checked lib files) layers contents \<and> list_all2 (layer_read lib) contents entries \<and>
      sum_list (map length contents) \<le> remaining \<and> apply_layers entries t = Inr t'"
proof (induction lib files layers remaining t rule: flatten_layers.induct)
  case (2 lib files layer diff_id layers remaining t)
  from "2.prems" obtain bytes decoded between where
    bytes: "blob lib files layer = Inr bytes" and decoded: "decode_layer lib bytes (de_media_type layer) remaining = Inr decoded" and
    digest: "checked_digest diff_id = Inr (ol_sha256 lib decoded)" and applied: "apply_bytes lib decoded t = Inr between" and
    rest: "flatten_layers lib files layers (remaining - length decoded) between = Inr t'"
    by (auto split: if_splits)
  have head: "layer_checked lib files (layer, diff_id) decoded"
    using bytes decoded digest by (auto simp: layer_checked_def blob_Inr checked_digest_Inr)
  from apply_bytes_read [OF applied] obtain entry where entry: "layer_read lib decoded entry" "apply_layer entry t = Inr between" by blast
  from "2.IH" bytes decoded digest applied rest obtain contents entries where
    "list_all2 (layer_checked lib files) layers contents" "list_all2 (layer_read lib) contents entries"
    "sum_list (map length contents) \<le> remaining - length decoded" "apply_layers entries between = Inr t'"
    by blast
  with head entry decode_layer_bound [OF decoded] show ?case
    by (intro exI [of _ "decoded # contents"] exI [of _ "entry # entries"]) auto
qed simp

section \<open>The image that comes out\<close>


section \<open>Witness\<close>

definition sample_hash :: "char \<Rightarrow> string" where
  "sample_hash c = replicate 64 c"

definition sample_path :: "char \<Rightarrow> string" where
  "sample_path c = ''blobs/sha256/'' @ sample_hash c"

definition sample_digest :: "char \<Rightarrow> string" where
  "sample_digest c = ''sha256:'' @ sample_hash c"

definition sample_descriptor :: "string \<Rightarrow> char \<Rightarrow> descriptor" where
  "sample_descriptor media_type c = \<lparr>de_media_type = media_type, de_digest = sample_digest c, de_size = 1, de_platform = None\<rparr>"

definition sample_file :: "string \<Rightarrow> nat \<Rightarrow> string + archive_entry" where
  "sample_file name position =
     Inr \<lparr>te_path = Inr name, te_header = [], te_pax = Inr [], te_kind = TarFile (Inr []), ae_position = position, ae_size = 1\<rparr>"

text \<open>An archive of five bytes: the layout, the index, a manifest, its configuration and an empty layer.\<close>

definition sample_oci :: oci_library where
  "sample_oci =
     \<lparr>ol_entries = (\<lambda>bytes. if bytes = ''LIMCE''
        then Inr [sample_file ''oci-layout'' 0, sample_file ''index.json'' 1, sample_file (sample_path (CHR ''1'')) 2,
          sample_file (sample_path (CHR ''2'')) 3, sample_file (sample_path (CHR ''3'')) 4]
        else Inr []),
      ol_layout = (\<lambda>bytes. Inr \<lparr>la_version = ''1.0.0''\<rparr>),
      ol_index = (\<lambda>bytes. Inr \<lparr>ix_schema_version = 2, ix_manifests = [sample_descriptor OCI_MANIFEST (CHR ''1'')]\<rparr>),
      ol_manifest = (\<lambda>bytes. Inr \<lparr>mf_schema_version = 2,
        mf_config = sample_descriptor ''application/vnd.oci.image.config.v1+json'' (CHR ''2''),
        mf_layers = [sample_descriptor ''application/vnd.oci.image.layer.v1.tar'' (CHR ''3'')]\<rparr>),
      ol_config = (\<lambda>bytes. Inr \<lparr>ic_platform = \<lparr>pl_architecture = ''amd64'', pl_os = ''linux''\<rparr>, ic_rootfs_kind = ''layers'',
        ic_diff_ids = [sample_digest (CHR ''3'')]\<rparr>),
      ol_sha256 = (\<lambda>bytes. sample_hash (if bytes = ''M'' then CHR ''1'' else if bytes = ''C'' then CHR ''2'' else CHR ''3'')),
      ol_gzip = (\<lambda>bytes. (bytes, None)), ol_zstd = (\<lambda>bytes. Inr (bytes, None)), ol_writer = sample_writer\<rparr>"

definition sample_files :: "(string, string) btree" where
  "sample_files =
     [(sample_path (CHR ''1''), ''M''), (sample_path (CHR ''2''), ''C''), (sample_path (CHR ''3''), ''E''), (''index.json'', ''I''), (''oci-layout'', ''L'')]"

lemma sample_paths:
  "archive_path ''oci-layout'' = Inr ''oci-layout''" "archive_path ''index.json'' = Inr ''index.json''"
  "archive_path (sample_path (CHR ''1'')) = Inr (sample_path (CHR ''1''))"
  "archive_path (sample_path (CHR ''2'')) = Inr (sample_path (CHR ''2''))"
  "archive_path (sample_path (CHR ''3'')) = Inr (sample_path (CHR ''3''))"
  by code_simp+

lemma sample_order:
  "''index.json'' < ''oci-layout''" "sample_path (CHR ''1'') < ''index.json''" "sample_path (CHR ''2'') < ''index.json''" "sample_path (CHR ''3'') < ''index.json''"
  "sample_path (CHR ''1'') < sample_path (CHR ''2'')" "sample_path (CHR ''1'') < sample_path (CHR ''3'')" "sample_path (CHR ''2'') < sample_path (CHR ''3'')"
  "sample_path (CHR ''1'') < ''oci-layout''" "sample_path (CHR ''2'') < ''oci-layout''" "sample_path (CHR ''3'') < ''oci-layout''"
  by code_simp+

lemmas sample_orders = sample_order sample_order [THEN less_imp_neq] sample_order [THEN less_imp_neq, THEN not_sym] sample_order [THEN less_not_sym]

lemma sample_archive: "archive_files sample_oci ''LIMCE'' = Inr sample_files"
  by (simp add: archive_files_def sample_oci_def sample_file_def sample_files_def io_def MAX_ENTRIES_def body_of_def sample_paths sample_orders)

lemma sample_digests:
  "digest_of (sample_digest (CHR ''1'')) (sample_hash (CHR ''1''))" "digest_of (sample_digest (CHR ''2'')) (sample_hash (CHR ''2''))"
  "digest_of (sample_digest (CHR ''3'')) (sample_hash (CHR ''3''))"
  by code_simp+

lemma sample_lookup:
  "map_of sample_files (''blobs/sha256/'' @ sample_hash (CHR ''1'')) = Some ''M''"
  "map_of sample_files (''blobs/sha256/'' @ sample_hash (CHR ''2'')) = Some ''C''"
  "map_of sample_files (''blobs/sha256/'' @ sample_hash (CHR ''3'')) = Some ''E''"
  by code_simp+

lemma sample_blob:
  "blob sample_oci sample_files (sample_descriptor media_type (CHR ''1'')) = Inr ''M''"
  "blob sample_oci sample_files (sample_descriptor media_type (CHR ''2'')) = Inr ''C''"
  "blob sample_oci sample_files (sample_descriptor media_type (CHR ''3'')) = Inr ''E''"
  using sample_lookup sample_digests unfolding blob_Inr verified_blob_def by (simp_all add: sample_descriptor_def sample_oci_def)

lemma sample_manifest:
  "manifests sample_oci sample_files \<lparr>ix_schema_version = 2, ix_manifests = [sample_descriptor OCI_MANIFEST (CHR ''1'')]\<rparr> 0 [] (Suc n) =
   Inr ([\<lparr>mf_schema_version = 2, mf_config = sample_descriptor ''application/vnd.oci.image.config.v1+json'' (CHR ''2''),
     mf_layers = [sample_descriptor ''application/vnd.oci.image.layer.v1.tar'' (CHR ''3'')]\<rparr>], n)"
proof -
  have types: "de_media_type (sample_descriptor m c) = m" "de_platform (sample_descriptor m c) = None" for m c
    by (simp_all add: sample_descriptor_def)
  have "OCI_MANIFEST \<noteq> OCI_INDEX" "OCI_MANIFEST \<noteq> DOCKER_INDEX" by code_simp+
  moreover have "metadata (ol_manifest sample_oci) ''M'' = Inr \<lparr>mf_schema_version = 2,
      mf_config = sample_descriptor ''application/vnd.oci.image.config.v1+json'' (CHR ''2''),
      mf_layers = [sample_descriptor ''application/vnd.oci.image.layer.v1.tar'' (CHR ''3'')]\<rparr>"
    by (simp add: metadata_def MAX_METADATA_BYTES_def sample_oci_def)
  moreover have "metadata (ol_config sample_oci) ''C'' = Inr \<lparr>ic_platform = \<lparr>pl_architecture = ''amd64'', pl_os = ''linux''\<rparr>,
      ic_rootfs_kind = ''layers'', ic_diff_ids = [sample_digest (CHR ''3'')]\<rparr>"
    by (simp add: metadata_def MAX_METADATA_BYTES_def sample_oci_def)
  ultimately show ?thesis
    by (simp add: manifests_def index_refused_def MAX_INDEX_DEPTH_def MAX_ENTRIES_def take_manifest_def types sample_blob
        is_image_config_def platform_supported_def)
qed

lemma sample_layers_flatten:
  "flatten_layers sample_oci sample_files [(sample_descriptor ''application/vnd.oci.image.layer.v1.tar'' (CHR ''3''), sample_digest (CHR ''3''))]
     MAX_DECODED_BYTES image_tree_new = Inr image_tree_new"
proof -
  have "checked_digest (sample_digest (CHR ''3'')) = Inr (sample_hash (CHR ''3''))" using sample_digests by (simp add: checked_digest_Inr)
  moreover have "decode_layer sample_oci ''E'' ''application/vnd.oci.image.layer.v1.tar'' MAX_DECODED_BYTES = Inr ''E''"
    by (simp add: decode_layer_def layer_reader_def read_at_most_def MAX_DECODED_BYTES_def)
  moreover have "apply_bytes sample_oci ''E'' image_tree_new = Inr image_tree_new"
    by (simp add: apply_bytes_def sample_oci_def io_def apply_layer_def image_tree_new_def pending_links_def directory_node_def)
  moreover have "ol_sha256 sample_oci ''E'' = sample_hash (CHR ''3'')" by (simp add: sample_oci_def)
  moreover have "de_media_type (sample_descriptor m c) = m" for m c by (simp add: sample_descriptor_def)
  ultimately show ?thesis by (simp add: sample_blob)
qed

definition sample_filesystem :: image_filesystem where
  "sample_filesystem =
     \<lparr>fs_tar = [\<lparr>wr_name = ''.'', wr_header = directory_header, wr_attributes = [], wr_kind = WrittenDirectory\<rparr>], fs_data_bytes = 0, fs_entries = 1\<rparr>"

lemma sample_flattens: "flatten sample_oci ''LIMCE'' = Inr sample_filesystem"
proof -
  have "document sample_files ''oci-layout'' = Inr ''L''" "document sample_files ''index.json'' = Inr ''I''"
    by (simp_all add: document_def sample_files_def sample_orders)
  moreover have "metadata (ol_layout sample_oci) ''L'' = Inr \<lparr>la_version = ''1.0.0''\<rparr>"
    "metadata (ol_index sample_oci) ''I'' = Inr \<lparr>ix_schema_version = 2, ix_manifests = [sample_descriptor OCI_MANIFEST (CHR ''1'')]\<rparr>"
    by (simp_all add: metadata_def MAX_METADATA_BYTES_def sample_oci_def)
  moreover have "metadata (ol_config sample_oci) ''C'' = Inr \<lparr>ic_platform = \<lparr>pl_architecture = ''amd64'', pl_os = ''linux''\<rparr>,
      ic_rootfs_kind = ''layers'', ic_diff_ids = [sample_digest (CHR ''3'')]\<rparr>"
    by (simp add: metadata_def MAX_METADATA_BYTES_def sample_oci_def)
  moreover have "image_finish (ol_writer sample_oci) image_tree_new = Inr sample_filesystem"
    by (simp add: sample_oci_def sample_writer_def image_finish_def image_tree_new_def written_order_def directory_node_def written_as_def
        append_entry_def readable_keys_def shown_name_def sample_filesystem_def)
  moreover have entries: "Suc 99999 = MAX_ENTRIES" by (simp add: MAX_ENTRIES_def)
  moreover note sample_manifest [of 99999, unfolded entries]
  ultimately show ?thesis
    by (simp add: flatten_def sample_archive sample_blob sample_layers_flatten MAX_IMAGE_LAYERS_def Let_def del: and_then_simps(3) flatten_layers.simps)
qed


end
