(* ===== verification/Configuration.thy ===== *)
theory Configuration
  imports Router
begin

text \<open>
  The configuration of a host (\<open>config.rs\<close>): the file as it is written, section by section, the rules each
  key is held to, the configuration they make, and the file it is written back as. The TOML reader and
  writer, the textual forms of addresses and URLs, and the table of time zones are parameters. Shown:
  exactly the configurations that follow the rules are read from some file; each is read back as it was
  from the file it is written as; and the ports it listens on are never those of an app.
\<close>

section \<open>What is written\<close>

text \<open>
  An address is its printed form, and a time zone its name. A URL is what the parser makes of a text.
\<close>

type_synonym path_text = string
type_synonym ip_addr = string

record url =
  ur_text :: string
  ur_scheme :: string
  ur_host_str :: "string option"
  ur_username :: string
  ur_password :: "string option"

datatype storage_filesystem = Ext4 | Xfs

record cron_section =
  cs_max_jobs_per_app :: "nat option"
  cs_time_zone :: "string option"

record storage_section =
  so_device :: "string option"
  so_mount_point :: "string option"
  so_filesystem :: "storage_filesystem option"

record paths_section =
  pa_state_dir :: "string option"
  pa_runtime_dir :: "string option"
  pa_snapshot_dir :: "string option"
  pa_guest_image_dir :: "string option"
  pa_desired_state_file :: "string option"
  pa_versions_file :: "string option"

record exports_section =
  ex_store_url :: "string option"
  ex_staging_dir :: "string option"

record zerofs_section =
  zs_binary :: "string option"
  zs_config_file :: "string option"
  zs_mount_path :: "string option"
  zs_nbd_socket_path :: "string option"
  zs_ninep_socket_path :: "string option"
  zs_rpc_socket_path :: "string option"
  zs_storage_url :: "string option"
  zs_cache_dir :: "string option"
  zs_cache_disk_gib :: "nat option"
  zs_cache_memory_gib :: "nat option"
  zs_checkpoint_runtime_dir :: "string option"
  zs_checkpoint_config_file :: "string option"
  zs_checkpoint_cache_dir :: "string option"

record volumes_section =
  vo_backend :: "string option"
  vo_storage_prefix :: "string option"
  vo_zerofs :: "zerofs_section option"

record network_section =
  nw_denied_v4 :: "string list option"
  nw_denied_v6 :: "string list option"

record fallback_section =
  fs_origin_host :: string
  fs_redirect :: string

record tls_section =
  ts_certificate :: "string option"
  ts_key :: "string option"
  ts_client_ca :: "string option option"

record http_section =
  hp_listen_address :: "string option"
  hp_port :: "nat option"
  hp_tls :: "tls_section option"
  hp_concurrency :: "http_concurrency option"
  hp_fallback :: "fallback_section option"

record raw_section =
  rw_listen_address :: "string option"
  rw_max_ports_per_guest :: "nat option"

record proxy_section =
  px_http :: "http_section option"
  px_raw :: "raw_section option"

record metrics_section =
  mt_port :: "nat option"
  mt_listen_address :: "string option"

text \<open>The sections with a single key are that key: \<open>artifacts\<close>, \<open>filesystem\<close> and \<open>logs\<close>.\<close>

record config_file =
  cx_max_apps :: "nat option"
  cx_max_concurrent_vm_starts :: "nat option"
  cx_cron :: "cron_section option"
  cx_host_storage :: "storage_section option"
  cx_paths :: "paths_section option"
  cx_artifacts :: "string option option"
  cx_volumes :: "volumes_section option"
  cx_exports :: "exports_section option"
  cx_network :: "network_section option"
  cx_proxy :: "proxy_section option"
  cx_metrics :: "metrics_section option"
  cx_filesystem :: "string option option"
  cx_logs :: "nat option option"

section \<open>What it makes\<close>

record zerofs_settings =
  ze_binary :: path_text
  ze_config_file :: path_text
  ze_mount_path :: path_text
  ze_nbd_socket_path :: path_text
  ze_ninep_socket_path :: path_text
  ze_rpc_socket_path :: path_text
  ze_storage_url :: string
  ze_cache_dir :: path_text
  ze_cache_disk_mib :: nat
  ze_cache_memory_mib :: nat
  ze_checkpoint_runtime_dir :: path_text
  ze_checkpoint_config_file :: path_text
  ze_checkpoint_cache_dir :: path_text

datatype volume_backend_setting = LocalFile | Zerofs zerofs_settings

fun backend_name :: "volume_backend_setting \<Rightarrow> string" where
  "backend_name LocalFile = ''local-file''"
| "backend_name (Zerofs _) = ''zerofs''"

fun backend_zerofs :: "volume_backend_setting \<Rightarrow> zerofs_settings option" where
  "backend_zerofs LocalFile = None"
| "backend_zerofs (Zerofs settings) = Some settings"

record tls_material =
  tm_certificate :: path_text
  tm_key :: path_text
  tm_client_ca :: "path_text option"

record http_listener =
  hl_fallback :: "http_fallback option"
  hl_concurrency :: "http_concurrency option"
  hl_listen_address :: ip_addr
  hl_port :: nat
  hl_tls :: "tls_material option"

record raw_ports =
  rp_listen_address :: ip_addr
  rp_max_ports_per_guest :: nat

record proxy_config =
  pc_http :: "http_listener option"
  pc_raw :: "raw_ports option"

definition default_proxy :: proxy_config where
  "default_proxy = \<lparr>pc_http = None, pc_raw = None\<rparr>"

record metrics_config =
  mc_port :: nat
  mc_listen_address :: ip_addr

record cron_config =
  cc_max_jobs_per_app :: nat
  cc_time_zone :: string

record host_storage =
  st_device :: path_text
  st_mount_point :: path_text
  st_filesystem :: storage_filesystem

record daemon_config =
  dc_max_concurrent_vm_starts :: nat
  dc_max_apps :: nat
  dc_cron :: cron_config
  dc_host_storage :: "host_storage option"
  dc_state_dir :: path_text
  dc_runtime_dir :: path_text
  dc_snapshot_dir :: path_text
  dc_guest_image_dir :: path_text
  dc_firecracker_dir :: path_text
  dc_desired_state_file :: path_text
  dc_versions_file :: path_text
  dc_artifact_store_url :: string
  dc_storage_prefix :: string
  dc_volumes :: volume_backend_setting
  dc_denied_v4 :: "string list"
  dc_denied_v6 :: "string list"
  dc_proxy :: proxy_config
  dc_metrics :: "metrics_config option"
  dc_filesystem :: "path_text option"
  dc_keep_bytes_per_app :: nat
  dc_export_store_url :: string
  dc_export_staging_dir :: path_text

section \<open>Rules\<close>

text \<open>\<open>ConfigPanic\<close> stands for the panic of \<open>reserved_port_range\<close>, which is shown never to be reached.\<close>

datatype config_error =
    Unreadable string string
  | Malformed string string
  | Invalid string string
  | ConfigPanic

fun config_error_message :: "config_error \<Rightarrow> string" where
  "config_error_message (Unreadable path reason) = path @ '' could not be read: '' @ reason"
| "config_error_message (Malformed path reason) = path @ '' is not a configuration this host can read: '' @ reason"
| "config_error_message (Invalid field rule) = field @ '' is not '' @ rule"
| "config_error_message ConfigPanic = ''max_apps is held to what the ports fit''"

type_synonym 'a config_reading = "config_error + 'a"

text \<open>\<open>Option::map\<close> with \<open>transpose\<close>.\<close>

definition where_given :: "('a \<Rightarrow> 'b config_reading) \<Rightarrow> 'a option \<Rightarrow> 'b option config_reading" where
  "where_given f given = (case given of None \<Rightarrow> Inr None | Some x \<Rightarrow> and_then (f x) (\<lambda>y. Inr (Some y)))"

lemma where_given_simps [simp]:
  "where_given f None = Inr None" "where_given f (Some x) = and_then (f x) (\<lambda>y. Inr (Some y))"
  by (simp_all add: where_given_def)

record config_texts =
  ct_ip_parse :: "string \<Rightarrow> ip_addr option"
  ct_is_ipv4 :: "string \<Rightarrow> bool"
  ct_is_ipv6 :: "string \<Rightarrow> bool"
  ct_is_time_zone :: "string \<Rightarrow> bool"
  ct_url_parse :: "string \<Rightarrow> url option"
  ct_is_header_value :: "string \<Rightarrow> bool"
  ct_toml_parse :: "string \<Rightarrow> string + config_file"
  ct_toml_print :: "config_file \<Rightarrow> string"

definition required :: "string \<Rightarrow> 'a option \<Rightarrow> 'a config_reading" where
  "required field given = (case given of None \<Rightarrow> Inl (Invalid field ''specified, and nothing here is optional'') | Some x \<Rightarrow> Inr x)"

definition absolute :: "string \<Rightarrow> string \<Rightarrow> path_text config_reading" where
  "absolute field given =
     (let trimmed = trim given
      in if trimmed = [] then Inl (Invalid field ''a path'')
         else if hd trimmed \<noteq> CHR ''/'' then Inl (Invalid field (''an absolute path, but '' @ trimmed @ '' is not''))
         else Inr trimmed)"

definition path_key :: "string \<Rightarrow> string option \<Rightarrow> path_text config_reading" where
  "path_key field given = and_then (required field given) (absolute field)"

definition MEBIBYTES_PER_GIBIBYTE :: nat where
  "MEBIBYTES_PER_GIBIBYTE = 1024"

definition BYTES_PER_MEBIBYTE :: nat where
  "BYTES_PER_MEBIBYTE = 1048576"

definition checked_size :: "string \<Rightarrow> nat \<Rightarrow> nat \<Rightarrow> nat config_reading" where
  "checked_size field n unit =
     (if n = 0 then Inl (Invalid field ''more than nothing'')
      else if n * unit \<le> u64_max then Inr (n * unit)
      else Inl (Invalid field ''a size this machine could hold''))"

definition mebibytes :: "string \<Rightarrow> nat \<Rightarrow> nat config_reading" where
  "mebibytes field gibibytes = checked_size field gibibytes MEBIBYTES_PER_GIBIBYTE"

definition listener :: "string \<Rightarrow> nat \<Rightarrow> nat \<Rightarrow> nat config_reading" where
  "listener field port max_apps =
     (if port = 0 then Inl (Invalid field ''a port, and 0 is the kernel picking one'')
      else case reserved_port_range max_apps of
             None \<Rightarrow> Inl ConfigPanic
           | Some (base, end_port) \<Rightarrow>
               if base \<le> port \<and> port \<le> end_port
               then Inl (Invalid field (''free, because '' @ show_nat base @ ''-'' @ show_nat end_port @
                          '' is what a slot takes for an app's loopback port''))
               else Inr port)"

datatype family = V4 | V6

definition cidr :: "config_texts \<Rightarrow> string \<Rightarrow> family \<Rightarrow> string \<Rightarrow> string config_reading" where
  "cidr texts field family given =
     (let range_text = trim given
      in case split_once CHR ''/'' range_text of
           None \<Rightarrow> Inl (Invalid field (''a CIDR range, but '' @ range_text @ '' has no prefix length''))
         | Some (address, len) \<Rightarrow>
             (case parse_u8 len of
                None \<Rightarrow> Inl (Invalid field (''a CIDR range, but '' @ len @ '' is not a prefix length''))
              | Some bits \<Rightarrow>
                  and_then
                    (case family of
                       V4 \<Rightarrow> if ct_is_ipv4 texts address then Inr 32
                             else Inl (Invalid field (''an IPv4 range, but '' @ address @ '' is not an IPv4 address''))
                     | V6 \<Rightarrow> if ct_is_ipv6 texts address then Inr 128
                             else Inl (Invalid field (''an IPv6 range, but '' @ address @ '' is not an IPv6 address'')))
                    (\<lambda>widest.
                       if bits > widest
                       then Inl (Invalid field (''a range, and /'' @ show_nat bits @ '' is wider than the '' @ show_nat widest @
                                  '' bits an address has''))
                       else Inr range_text)))"

primrec cidrs :: "config_texts \<Rightarrow> string \<Rightarrow> family \<Rightarrow> string list \<Rightarrow> string list config_reading" where
  "cidrs texts field family [] = Inr []"
| "cidrs texts field family (given # more_given) =
     and_then (cidr texts field family given) (\<lambda>c. and_then (cidrs texts field family more_given) (\<lambda>cs. Inr (c # cs)))"

text \<open>What stands before a pattern in a text, or all of it.\<close>

fun before_str :: "string \<Rightarrow> string \<Rightarrow> string" where
  "before_str pattern [] = []"
| "before_str pattern (c # s) = (if starts_with pattern (c # s) then [] else c # before_str pattern s)"

definition object_store_url :: "string \<Rightarrow> string \<Rightarrow> string config_reading" where
  "object_store_url field given =
     (let url = trim given
      in if starts_with ''s3://'' url
         then if takeWhile (\<lambda>c. c \<noteq> CHR ''/'') (drop 5 url) = [] then Inl (Invalid field ''an s3:// URL with a bucket in it'')
              else Inr url
         else if contains_str ''://'' url
         then Inl (Invalid field (''a store this host can reach, and there is no '' @ before_str ''://'' url @ '' backend''))
         else absolute field url)"

definition MAX_STORAGE_PREFIX_BYTES :: nat where
  "MAX_STORAGE_PREFIX_BYTES = 512"

definition names_nothing :: "string \<Rightarrow> bool" where
  "names_nothing segment \<longleftrightarrow> segment = [] \<or> segment = ''.'' \<or> segment = ''..''"

definition storage_prefix :: "string \<Rightarrow> string \<Rightarrow> string config_reading" where
  "storage_prefix field given =
     (let prefix = trim given
      in if prefix = [] then Inl (Invalid field ''a prefix, and an empty one names the bucket root'')
         else if MAX_STORAGE_PREFIX_BYTES < length prefix
         then Inl (Invalid field (''at most '' @ show_nat MAX_STORAGE_PREFIX_BYTES @ '' bytes, and this is '' @ show_nat (length prefix)))
         else if hd prefix = CHR ''/'' \<or> List.last prefix = CHR ''/''
         then Inl (Invalid field ''a prefix without a leading or trailing /'')
         else if list_ex names_nothing (split_on CHR ''/'' prefix)
         then Inl (Invalid field ''a prefix whose every segment names something'')
         else Inr prefix)"

definition bind_address :: "config_texts \<Rightarrow> string \<Rightarrow> string option \<Rightarrow> ip_addr config_reading" where
  "bind_address texts field given =
     and_then (required field given) (\<lambda>text_given.
       case ct_ip_parse texts (trim text_given) of
         None \<Rightarrow> Inl (Invalid field ''an IP address to bind'')
       | Some address \<Rightarrow> Inr address)"

definition apps :: "string \<Rightarrow> nat \<Rightarrow> nat config_reading" where
  "apps field count = (case config_apps count of Inl rule \<Rightarrow> Inl (Invalid field rule) | Inr n \<Rightarrow> Inr n)"

text \<open>\<open>char::is_control\<close>, on the bytes: those of ASCII, and U+0080 to U+009F.\<close>

fun has_control :: "string \<Rightarrow> bool" where
  "has_control [] = False"
| "has_control (c # s) =
     (c < CHR 0x20 \<or> c = CHR 0x7F \<or>
      (c = CHR 0xC2 \<and> s \<noteq> [] \<and> CHR 0x80 \<le> hd s \<and> hd s \<le> CHR 0x9F) \<or> has_control s)"

definition trim_end_dots :: "string \<Rightarrow> string" where
  "trim_end_dots s = rev (dropWhile (\<lambda>c. c = CHR ''.'') (rev s))"

definition read_http_fallback :: "config_texts \<Rightarrow> fallback_section \<Rightarrow> http_fallback config_reading" where
  "read_http_fallback texts document =
     (if \<not> is_hostname (fs_origin_host document)
      then Inl (Invalid ''proxy.http.fallback.origin_host'' ''a lowercase DNS hostname without a scheme, port or wildcard'')
      else let field = ''proxy.http.fallback.redirect'';
               given = fs_redirect document;
               invalid = Inl (Invalid field ''an absolute HTTP or HTTPS URL without credentials or control characters'')
           in case ct_url_parse texts given of
                None \<Rightarrow> invalid
              | Some redirect \<Rightarrow>
                  if ur_scheme redirect \<notin> {''http'', ''https''} \<or> ur_host_str redirect = None \<or> ur_username redirect \<noteq> [] \<or>
                     ur_password redirect \<noteq> None \<or> trim given \<noteq> given \<or> has_control given \<or>
                     \<not> ct_is_header_value texts (ur_text redirect)
                  then invalid
                  else if (case ur_host_str redirect of None \<Rightarrow> False
                           | Some host \<Rightarrow> eq_ignore_ascii_case (trim_end_dots host) (fs_origin_host document))
                  then Inl (Invalid field ''a URL on a different hostname to avoid a redirect loop'')
                  else Inr \<lparr>fb_origin_host = fs_origin_host document, fb_redirect = ur_text redirect\<rparr>)"

section \<open>Sections\<close>

definition MAX_RAW_PORTS :: nat where
  "MAX_RAW_PORTS = PORTS_PER_SLOT - 1"

definition read_tls :: "tls_section \<Rightarrow> tls_material config_reading" where
  "read_tls tls =
     and_then (path_key ''proxy.http.tls.certificate'' (ts_certificate tls)) (\<lambda>certificate.
     and_then (path_key ''proxy.http.tls.key'' (ts_key tls)) (\<lambda>key.
     and_then (where_given (path_key ''proxy.http.tls.client_ca.certificate'') (ts_client_ca tls)) (\<lambda>client_ca.
     Inr \<lparr>tm_certificate = certificate, tm_key = key, tm_client_ca = client_ca\<rparr>)))"

definition read_http :: "config_texts \<Rightarrow> nat \<Rightarrow> http_section \<Rightarrow> http_listener config_reading" where
  "read_http texts max_apps http =
     and_then (where_given (read_http_fallback texts) (hp_fallback http)) (\<lambda>fallback.
     and_then (bind_address texts ''proxy.http.listen_address'' (hp_listen_address http)) (\<lambda>listen_address.
     and_then (and_then (required ''proxy.http.port'' (hp_port http)) (\<lambda>p. listener ''proxy.http.port'' p max_apps)) (\<lambda>port.
     and_then (where_given read_tls (hp_tls http)) (\<lambda>tls.
     Inr \<lparr>hl_fallback = fallback, hl_concurrency = hp_concurrency http, hl_listen_address = listen_address, hl_port = port, hl_tls = tls\<rparr>))))"

definition read_raw :: "config_texts \<Rightarrow> raw_section \<Rightarrow> raw_ports config_reading" where
  "read_raw texts raw =
     and_then (required ''proxy.raw.max_ports_per_guest'' (rw_max_ports_per_guest raw)) (\<lambda>named_ports.
       if named_ports = 0 \<or> MAX_RAW_PORTS < named_ports
       then Inl (Invalid ''proxy.raw.max_ports_per_guest''
              (''between 1 and '' @ show_nat MAX_RAW_PORTS @ '', which is what a slot reserves beside the HTTP port''))
       else and_then (bind_address texts ''proxy.raw.listen_address'' (rw_listen_address raw)) (\<lambda>listen_address.
            Inr \<lparr>rp_listen_address = listen_address, rp_max_ports_per_guest = named_ports\<rparr>))"

definition read_proxy :: "config_texts \<Rightarrow> proxy_section option \<Rightarrow> nat \<Rightarrow> proxy_config config_reading" where
  "read_proxy texts given max_apps =
     (case given of
        None \<Rightarrow> Inr default_proxy
      | Some document \<Rightarrow>
          and_then (where_given (read_http texts max_apps) (px_http document)) (\<lambda>http.
          and_then (where_given (read_raw texts) (px_raw document)) (\<lambda>raw.
          Inr \<lparr>pc_http = http, pc_raw = raw\<rparr>)))"

definition ZEROFS_PROMETHEUS_PORT :: nat where
  "ZEROFS_PROMETHEUS_PORT = 9091"

definition read_metrics_section ::
  "config_texts \<Rightarrow> proxy_config \<Rightarrow> volume_backend_setting \<Rightarrow> nat \<Rightarrow> metrics_section \<Rightarrow> metrics_config config_reading" where
  "read_metrics_section texts proxy volumes max_apps document =
     and_then (and_then (required ''metrics.port'' (mt_port document)) (\<lambda>p. listener ''metrics.port'' p max_apps)) (\<lambda>port.
       if map_option hl_port (pc_http proxy) = Some port
       then Inl (Invalid ''metrics.port'' (''a different port from proxy.http.port, which is also '' @ show_nat port))
       else if map_option (\<lambda>_. ZEROFS_PROMETHEUS_PORT) (backend_zerofs volumes) = Some port
       then Inl (Invalid ''metrics.port'' (''a different port from the port ZeroFS scrapes on, which is also '' @ show_nat port))
       else and_then (bind_address texts ''metrics.listen_address'' (mt_listen_address document)) (\<lambda>listen_address.
            Inr \<lparr>mc_port = port, mc_listen_address = listen_address\<rparr>))"

definition read_metrics ::
  "config_texts \<Rightarrow> metrics_section option \<Rightarrow> proxy_config \<Rightarrow> volume_backend_setting \<Rightarrow> nat \<Rightarrow> metrics_config option config_reading" where
  "read_metrics texts given proxy volumes max_apps = where_given (read_metrics_section texts proxy volumes max_apps) given"

definition read_filesystem :: "string option option \<Rightarrow> path_text option config_reading" where
  "read_filesystem = where_given (path_key ''filesystem.socket'')"

definition default_keep_bytes :: nat where
  "default_keep_bytes = 256 * BYTES_PER_MEBIBYTE"

definition read_logs :: "nat option option \<Rightarrow> nat config_reading" where
  "read_logs given =
     (case given of
        None \<Rightarrow> Inr default_keep_bytes
      | Some keep_mib_per_app \<Rightarrow>
          and_then (required ''logs.keep_mib_per_app'' keep_mib_per_app)
            (\<lambda>mib. checked_size ''logs.keep_mib_per_app'' mib BYTES_PER_MEBIBYTE))"

definition read_cron :: "config_texts \<Rightarrow> cron_section \<Rightarrow> cron_config config_reading" where
  "read_cron texts cron =
     and_then (required ''cron.max_jobs_per_app'' (cs_max_jobs_per_app cron)) (\<lambda>max_jobs_per_app.
     and_then (required ''cron.time_zone'' (cs_time_zone cron)) (\<lambda>zone.
     if ct_is_time_zone texts zone then Inr \<lparr>cc_max_jobs_per_app = max_jobs_per_app, cc_time_zone = zone\<rparr>
     else Inl (Invalid ''cron.time_zone'' ''an IANA time zone'')))"

definition read_zerofs :: "zerofs_section \<Rightarrow> zerofs_settings config_reading" where
  "read_zerofs zerofs =
     and_then (path_key ''volumes.zerofs.binary'' (zs_binary zerofs)) (\<lambda>binary.
     and_then (path_key ''volumes.zerofs.config_file'' (zs_config_file zerofs)) (\<lambda>config_file.
     and_then (path_key ''volumes.zerofs.mount_path'' (zs_mount_path zerofs)) (\<lambda>mount_path.
     and_then (path_key ''volumes.zerofs.nbd_socket_path'' (zs_nbd_socket_path zerofs)) (\<lambda>nbd_socket_path.
     and_then (path_key ''volumes.zerofs.ninep_socket_path'' (zs_ninep_socket_path zerofs)) (\<lambda>ninep_socket_path.
     and_then (path_key ''volumes.zerofs.rpc_socket_path'' (zs_rpc_socket_path zerofs)) (\<lambda>rpc_socket_path.
     and_then (and_then (required ''volumes.zerofs.storage_url'' (zs_storage_url zerofs)) (object_store_url ''volumes.zerofs.storage_url'')) (\<lambda>storage_url.
     and_then (path_key ''volumes.zerofs.cache_dir'' (zs_cache_dir zerofs)) (\<lambda>cache_dir.
     and_then (and_then (required ''volumes.zerofs.cache_disk_gib'' (zs_cache_disk_gib zerofs)) (mebibytes ''volumes.zerofs.cache_disk_gib'')) (\<lambda>cache_disk_mib.
     and_then (and_then (required ''volumes.zerofs.cache_memory_gib'' (zs_cache_memory_gib zerofs)) (mebibytes ''volumes.zerofs.cache_memory_gib'')) (\<lambda>cache_memory_mib.
     and_then (path_key ''volumes.zerofs.checkpoint_runtime_dir'' (zs_checkpoint_runtime_dir zerofs)) (\<lambda>checkpoint_runtime_dir.
     and_then (path_key ''volumes.zerofs.checkpoint_config_file'' (zs_checkpoint_config_file zerofs)) (\<lambda>checkpoint_config_file.
     and_then (path_key ''volumes.zerofs.checkpoint_cache_dir'' (zs_checkpoint_cache_dir zerofs)) (\<lambda>checkpoint_cache_dir.
     Inr \<lparr>ze_binary = binary, ze_config_file = config_file, ze_mount_path = mount_path, ze_nbd_socket_path = nbd_socket_path,
          ze_ninep_socket_path = ninep_socket_path, ze_rpc_socket_path = rpc_socket_path, ze_storage_url = storage_url,
          ze_cache_dir = cache_dir, ze_cache_disk_mib = cache_disk_mib, ze_cache_memory_mib = cache_memory_mib,
          ze_checkpoint_runtime_dir = checkpoint_runtime_dir, ze_checkpoint_config_file = checkpoint_config_file,
          ze_checkpoint_cache_dir = checkpoint_cache_dir\<rparr>)))))))))))))"

definition read_backend :: "volumes_section \<Rightarrow> volume_backend_setting config_reading" where
  "read_backend volumes =
     and_then (required ''volumes.backend'' (vo_backend volumes)) (\<lambda>backend.
       if backend = ''local-file''
       then if vo_zerofs volumes \<noteq> None
            then Inl (Invalid ''volumes.zerofs'' ''read by the local-file backend, which is what volumes.backend says'')
            else Inr LocalFile
       else if backend = ''zerofs''
       then and_then (required ''volumes.zerofs'' (vo_zerofs volumes)) (\<lambda>zerofs.
            and_then (read_zerofs zerofs) (\<lambda>settings. Inr (Zerofs settings)))
       else Inl (Invalid ''volumes.backend'' (''a backend this host has, and there is no '' @ backend)))"

definition read_storage :: "storage_section \<Rightarrow> host_storage config_reading" where
  "read_storage storage =
     and_then (path_key ''host_storage.device'' (so_device storage)) (\<lambda>device.
     and_then (path_key ''host_storage.mount_point'' (so_mount_point storage)) (\<lambda>mount_point.
     and_then (required ''host_storage.filesystem'' (so_filesystem storage)) (\<lambda>filesystem.
     Inr \<lparr>st_device = device, st_mount_point = mount_point, st_filesystem = filesystem\<rparr>)))"

section \<open>Storage\<close>

text \<open>\<open>Path::components\<close> of an absolute path past its root: repeated slashes and dots do not count.\<close>

definition path_components :: "path_text \<Rightarrow> string list" where
  "path_components path = filter (\<lambda>c. c \<noteq> [] \<and> c \<noteq> ''.'') (split_on CHR ''/'' path)"

text \<open>\<open>Path::starts_with\<close> and \<open>Path::join\<close>.\<close>

definition path_under :: "path_text \<Rightarrow> path_text \<Rightarrow> bool" where
  "path_under path base \<longleftrightarrow> starts_with (path_components base) (path_components path)"

definition path_join :: "path_text \<Rightarrow> string \<Rightarrow> path_text" where
  "path_join base name = (if base \<noteq> [] \<and> List.last base = CHR ''/'' then base @ name else base @ ''/'' @ name)"

definition plain_path :: "path_text \<Rightarrow> bool" where
  "plain_path path \<longleftrightarrow>
     starts_with ''/'' path \<and> \<not> list_ex names_nothing (drop 1 (split_on CHR ''/'' path)) \<and>
     list_all (\<lambda>c. is_ascii_digit c \<or> is_ascii_lowercase c \<or> is_ascii_uppercase c \<or> c \<in> set ''/_.:-'') path"

definition beneath :: "path_text \<Rightarrow> path_text \<Rightarrow> bool" where
  "beneath path mount_point \<longleftrightarrow>
     path_under path mount_point \<and>
     (let relative = drop (length (path_components mount_point)) (path_components path)
      in relative \<noteq> [] \<and> ''..'' \<notin> set relative)"

primrec first_outside :: "path_text \<Rightarrow> (string \<times> path_text) list \<Rightarrow> unit config_reading" where
  "first_outside mount_point [] = Inr ()"
| "first_outside mount_point (d # ds) =
     (if beneath (snd d) mount_point then first_outside mount_point ds
      else Inl (Invalid (fst d) ''a directory beneath host_storage.mount_point without . or .. segments''))"

primrec apart :: "(string \<times> path_text) list \<Rightarrow> bool" where
  "apart [] = True"
| "apart (d # ds) = (list_all (\<lambda>other. \<not> path_under (snd d) (snd other) \<and> \<not> path_under (snd other) (snd d)) ds \<and> apart ds)"

definition storage_directories :: "daemon_config \<Rightarrow> (string \<times> path_text) list" where
  "storage_directories config =
     (''paths.snapshot_dir'', dc_snapshot_dir config) #
     (case backend_zerofs (dc_volumes config) of
        None \<Rightarrow> []
      | Some settings \<Rightarrow> [(''volumes.zerofs.cache_dir'', ze_cache_dir settings),
                           (''volumes.zerofs.checkpoint_cache_dir'', ze_checkpoint_cache_dir settings)])"

definition validate_zerofs_paths :: "host_storage \<Rightarrow> daemon_config \<Rightarrow> unit config_reading" where
  "validate_zerofs_paths storage config =
     (case backend_zerofs (dc_volumes config) of
        None \<Rightarrow> Inr ()
      | Some settings \<Rightarrow>
          if path_under (ze_mount_path settings) (st_mount_point storage)
          then Inl (Invalid ''volumes.zerofs.mount_path'' ''outside host_storage.mount_point, which cannot contain nested mounts'')
          else if list_ex (path_under (ze_cache_dir settings)) [dc_state_dir config, dc_guest_image_dir config, dc_export_staging_dir config]
          then Inl (Invalid ''volumes.zerofs.cache_dir'' ''outside private root-owned host directories so the zerofs account can reach it'')
          else Inr ())"

definition validate_host_storage :: "daemon_config \<Rightarrow> unit config_reading" where
  "validate_host_storage config =
     (case dc_host_storage config of
        None \<Rightarrow> Inr ()
      | Some storage \<Rightarrow>
          (let rule = ''a normalized absolute path using letters, digits, /, _, ., : or -''
           in if \<not> plain_path (st_device storage) then Inl (Invalid ''host_storage.device'' rule)
              else if \<not> plain_path (st_mount_point storage) then Inl (Invalid ''host_storage.mount_point'' rule)
              else if \<not> path_under (st_device storage) ''/dev'' \<or> path_components (st_device storage) = [''dev'']
              then Inl (Invalid ''host_storage.device'' ''a block device under /dev'')
              else and_then (validate_zerofs_paths storage config) (\<lambda>_.
                   and_then (first_outside (st_mount_point storage) (storage_directories config)) (\<lambda>_.
                   if apart (storage_directories config) then Inr ()
                   else Inl (Invalid ''host_storage'' ''separate snapshot and cache directories that do not contain each other'')))))"

section \<open>Reading and writing\<close>

definition from_document :: "config_texts \<Rightarrow> config_file \<Rightarrow> daemon_config config_reading" where
  "from_document texts document =
     and_then (and_then (required ''max_apps'' (cx_max_apps document)) (apps ''max_apps'')) (\<lambda>max_apps.
     and_then (and_then (required ''cron'' (cx_cron document)) (read_cron texts)) (\<lambda>cron.
     and_then (required ''paths'' (cx_paths document)) (\<lambda>paths.
     and_then (path_key ''paths.state_dir'' (pa_state_dir paths)) (\<lambda>state_dir.
     and_then (path_key ''paths.runtime_dir'' (pa_runtime_dir paths)) (\<lambda>runtime_dir.
     and_then (required ''volumes'' (cx_volumes document)) (\<lambda>volumes.
     and_then (read_backend volumes) (\<lambda>backend.
     and_then (required ''network'' (cx_network document)) (\<lambda>network.
     and_then (required ''exports'' (cx_exports document)) (\<lambda>exports.
     and_then (required ''artifacts'' (cx_artifacts document)) (\<lambda>artifacts.
     and_then (read_proxy texts (cx_proxy document) max_apps) (\<lambda>proxy.
     and_then (read_metrics texts (cx_metrics document) proxy backend max_apps) (\<lambda>metrics.
     and_then (read_filesystem (cx_filesystem document)) (\<lambda>filesystem.
     and_then (read_logs (cx_logs document)) (\<lambda>logs.
     and_then (required ''max_concurrent_vm_starts'' (cx_max_concurrent_vm_starts document)) (\<lambda>max_concurrent_vm_starts.
     and_then (where_given read_storage (cx_host_storage document)) (\<lambda>host_storage.
     and_then (path_key ''paths.snapshot_dir'' (pa_snapshot_dir paths)) (\<lambda>snapshot_dir.
     and_then (path_key ''paths.guest_image_dir'' (pa_guest_image_dir paths)) (\<lambda>guest_image_dir.
     and_then (path_key ''paths.desired_state_file'' (pa_desired_state_file paths)) (\<lambda>desired_state_file.
     and_then (path_key ''paths.versions_file'' (pa_versions_file paths)) (\<lambda>versions_file.
     and_then (and_then (required ''artifacts.store_url'' artifacts) (object_store_url ''artifacts.store_url'')) (\<lambda>artifact_store_url.
     and_then (and_then (required ''volumes.storage_prefix'' (vo_storage_prefix volumes)) (storage_prefix ''volumes.storage_prefix'')) (\<lambda>prefix.
     and_then (and_then (required ''network.denied_egress_addresses_v4'' (nw_denied_v4 network))
       (cidrs texts ''network.denied_egress_addresses_v4'' V4)) (\<lambda>denied_v4.
     and_then (and_then (required ''network.denied_egress_addresses_v6'' (nw_denied_v6 network))
       (cidrs texts ''network.denied_egress_addresses_v6'' V6)) (\<lambda>denied_v6.
     and_then (and_then (required ''exports.store_url'' (ex_store_url exports)) (object_store_url ''exports.store_url'')) (\<lambda>export_store_url.
     and_then (path_key ''exports.staging_dir'' (ex_staging_dir exports)) (\<lambda>export_staging_dir.
     let config = \<lparr>dc_max_concurrent_vm_starts = max_concurrent_vm_starts, dc_max_apps = max_apps, dc_cron = cron,
       dc_host_storage = host_storage, dc_state_dir = state_dir, dc_runtime_dir = runtime_dir, dc_snapshot_dir = snapshot_dir,
       dc_guest_image_dir = guest_image_dir, dc_firecracker_dir = path_join runtime_dir ''firecracker'',
       dc_desired_state_file = desired_state_file, dc_versions_file = versions_file, dc_artifact_store_url = artifact_store_url,
       dc_storage_prefix = prefix, dc_volumes = backend, dc_denied_v4 = denied_v4, dc_denied_v6 = denied_v6, dc_proxy = proxy,
       dc_metrics = metrics, dc_filesystem = filesystem, dc_keep_bytes_per_app = logs, dc_export_store_url = export_store_url,
       dc_export_staging_dir = export_staging_dir\<rparr>
     in and_then (validate_host_storage config) (\<lambda>_. Inr config)))))))))))))))))))))))))))"

definition write_zerofs :: "zerofs_settings \<Rightarrow> zerofs_section" where
  "write_zerofs settings =
     \<lparr>zs_binary = Some (ze_binary settings), zs_config_file = Some (ze_config_file settings), zs_mount_path = Some (ze_mount_path settings),
      zs_nbd_socket_path = Some (ze_nbd_socket_path settings), zs_ninep_socket_path = Some (ze_ninep_socket_path settings),
      zs_rpc_socket_path = Some (ze_rpc_socket_path settings), zs_storage_url = Some (ze_storage_url settings),
      zs_cache_dir = Some (ze_cache_dir settings), zs_cache_disk_gib = Some (ze_cache_disk_mib settings div MEBIBYTES_PER_GIBIBYTE),
      zs_cache_memory_gib = Some (ze_cache_memory_mib settings div MEBIBYTES_PER_GIBIBYTE),
      zs_checkpoint_runtime_dir = Some (ze_checkpoint_runtime_dir settings),
      zs_checkpoint_config_file = Some (ze_checkpoint_config_file settings),
      zs_checkpoint_cache_dir = Some (ze_checkpoint_cache_dir settings)\<rparr>"

definition write_http :: "http_listener \<Rightarrow> http_section" where
  "write_http http =
     \<lparr>hp_listen_address = Some (hl_listen_address http), hp_port = Some (hl_port http),
      hp_tls = map_option (\<lambda>tls. \<lparr>ts_certificate = Some (tm_certificate tls), ts_key = Some (tm_key tls),
        ts_client_ca = map_option Some (tm_client_ca tls)\<rparr>) (hl_tls http),
      hp_concurrency = hl_concurrency http,
      hp_fallback = map_option (\<lambda>fallback. \<lparr>fs_origin_host = fb_origin_host fallback, fs_redirect = fb_redirect fallback\<rparr>) (hl_fallback http)\<rparr>"

definition write_raw :: "raw_ports \<Rightarrow> raw_section" where
  "write_raw raw = \<lparr>rw_listen_address = Some (rp_listen_address raw), rw_max_ports_per_guest = Some (rp_max_ports_per_guest raw)\<rparr>"

definition to_document :: "daemon_config \<Rightarrow> config_file" where
  "to_document config =
     \<lparr>cx_max_apps = Some (dc_max_apps config),
      cx_max_concurrent_vm_starts = Some (dc_max_concurrent_vm_starts config),
      cx_cron = Some \<lparr>cs_max_jobs_per_app = Some (cc_max_jobs_per_app (dc_cron config)), cs_time_zone = Some (cc_time_zone (dc_cron config))\<rparr>,
      cx_host_storage = map_option (\<lambda>storage. \<lparr>so_device = Some (st_device storage), so_mount_point = Some (st_mount_point storage),
        so_filesystem = Some (st_filesystem storage)\<rparr>) (dc_host_storage config),
      cx_paths = Some \<lparr>pa_state_dir = Some (dc_state_dir config), pa_runtime_dir = Some (dc_runtime_dir config),
        pa_snapshot_dir = Some (dc_snapshot_dir config), pa_guest_image_dir = Some (dc_guest_image_dir config),
        pa_desired_state_file = Some (dc_desired_state_file config), pa_versions_file = Some (dc_versions_file config)\<rparr>,
      cx_artifacts = Some (Some (dc_artifact_store_url config)),
      cx_volumes = Some \<lparr>vo_backend = Some (backend_name (dc_volumes config)), vo_storage_prefix = Some (dc_storage_prefix config),
        vo_zerofs = map_option write_zerofs (backend_zerofs (dc_volumes config))\<rparr>,
      cx_exports = Some \<lparr>ex_store_url = Some (dc_export_store_url config), ex_staging_dir = Some (dc_export_staging_dir config)\<rparr>,
      cx_network = Some \<lparr>nw_denied_v4 = Some (dc_denied_v4 config), nw_denied_v6 = Some (dc_denied_v6 config)\<rparr>,
      cx_proxy = (if dc_proxy config \<noteq> default_proxy
        then Some \<lparr>px_http = map_option write_http (pc_http (dc_proxy config)), px_raw = map_option write_raw (pc_raw (dc_proxy config))\<rparr>
        else None),
      cx_metrics = map_option (\<lambda>metrics. \<lparr>mt_port = Some (mc_port metrics), mt_listen_address = Some (mc_listen_address metrics)\<rparr>) (dc_metrics config),
      cx_filesystem = map_option Some (dc_filesystem config),
      cx_logs = Some (Some (dc_keep_bytes_per_app config div BYTES_PER_MEBIBYTE))\<rparr>"

definition from_toml :: "config_texts \<Rightarrow> string \<Rightarrow> daemon_config config_reading" where
  "from_toml texts given =
     (case ct_toml_parse texts given of
        Inl reason \<Rightarrow> Inl (Malformed ''the configuration''
          (concat (map (\<lambda>c. if c = CHR 0x0A then ''; '' else [c]) (trim reason))))
      | Inr document \<Rightarrow> from_document texts document)"

definition to_toml :: "config_texts \<Rightarrow> daemon_config \<Rightarrow> string" where
  "to_toml texts config = ct_toml_print texts (to_document config)"

definition from_file :: "config_texts \<Rightarrow> path_text \<Rightarrow> string + string \<Rightarrow> daemon_config config_reading" where
  "from_file texts path content =
     (case content of
        Inl reason \<Rightarrow> Inl (Unreadable path reason)
      | Inr given \<Rightarrow>
          (case from_toml texts given of
             Inl (Malformed _ reason) \<Rightarrow> Inl (Malformed path reason)
           | other \<Rightarrow> other))"

definition configured_file :: "string option \<Rightarrow> path_text" where
  "configured_file variable =
     (case variable of
        None \<Rightarrow> ''/etc/nibrunner/config.toml''
      | Some named_file \<Rightarrow> if trim named_file = [] then ''/etc/nibrunner/config.toml'' else named_file)"

section \<open>Starting points\<close>

definition laid_out :: "path_text \<Rightarrow> path_text \<Rightarrow> path_text \<Rightarrow> daemon_config" where
  "laid_out state_dir runtime_dir guest_image_dir =
     \<lparr>dc_max_concurrent_vm_starts = 2, dc_max_apps = 1000, dc_cron = \<lparr>cc_max_jobs_per_app = 10, cc_time_zone = ''UTC''\<rparr>,
      dc_host_storage = None, dc_state_dir = state_dir, dc_runtime_dir = runtime_dir,
      dc_snapshot_dir = path_join state_dir ''snapshots'', dc_guest_image_dir = guest_image_dir,
      dc_firecracker_dir = path_join runtime_dir ''firecracker'', dc_desired_state_file = path_join state_dir ''desired.json'',
      dc_versions_file = path_join state_dir ''versions.json'', dc_artifact_store_url = path_join state_dir ''artifact-store'',
      dc_storage_prefix = ''volumes'', dc_volumes = LocalFile, dc_denied_v4 = [], dc_denied_v6 = [], dc_proxy = default_proxy,
      dc_metrics = None, dc_filesystem = None, dc_keep_bytes_per_app = default_keep_bytes,
      dc_export_store_url = path_join state_dir ''export-store'', dc_export_staging_dir = path_join state_dir ''exports''\<rparr>"

definition STARTER_STATE_DIR :: path_text where
  "STARTER_STATE_DIR = ''/var/lib/nibrunner''"

definition starter :: "nat \<Rightarrow> daemon_config" where
  "starter max_apps =
     (laid_out STARTER_STATE_DIR ''/run/nibrunner'' (path_join STARTER_STATE_DIR ''guest''))
       \<lparr>dc_max_apps := max_apps,
        dc_proxy := \<lparr>pc_http = Some \<lparr>hl_fallback = None, hl_concurrency = None, hl_listen_address = ''0.0.0.0'', hl_port = 80, hl_tls = None\<rparr>,
          pc_raw = None\<rparr>,
        dc_metrics := Some \<lparr>mc_port = 9100, mc_listen_address = ''127.0.0.1''\<rparr>\<rparr>"

definition example :: daemon_config where
  "example =
     \<lparr>dc_max_concurrent_vm_starts = 2, dc_max_apps = 1000, dc_cron = \<lparr>cc_max_jobs_per_app = 10, cc_time_zone = ''UTC''\<rparr>,
      dc_host_storage = Some \<lparr>st_device = ''/dev/disk/by-id/nvme-instance-store'', st_mount_point = ''/data'', st_filesystem = Xfs\<rparr>,
      dc_state_dir = ''/var/lib/nibrunner'', dc_runtime_dir = ''/run/nibrunner'', dc_snapshot_dir = ''/data/nibrunner-vm'',
      dc_guest_image_dir = ''/var/lib/nibrunner/guest'', dc_firecracker_dir = ''/run/nibrunner/firecracker'',
      dc_desired_state_file = ''/var/lib/nibrunner/desired.json'', dc_versions_file = ''/var/lib/nibrunner/versions.json'',
      dc_artifact_store_url = ''s3://nibrunner-artifacts-eu-west-2-123456789012/artifacts'', dc_storage_prefix = ''hetzner-1'',
      dc_volumes = Zerofs \<lparr>ze_binary = ''/opt/nibrunner/bin/zerofs'', ze_config_file = ''/etc/zerofs/config.toml'',
        ze_mount_path = ''/mnt/zerofs'', ze_nbd_socket_path = ''/run/zerofs/nbd.sock'', ze_ninep_socket_path = ''/run/zerofs/9p.sock'',
        ze_rpc_socket_path = ''/run/zerofs/rpc.sock'', ze_storage_url = ''s3://nibrunner-filesystems-eu-west-2-123456789012/hetzner-1'',
        ze_cache_dir = ''/data/zerofs'', ze_cache_disk_mib = 200 * MEBIBYTES_PER_GIBIBYTE, ze_cache_memory_mib = 2 * MEBIBYTES_PER_GIBIBYTE,
        ze_checkpoint_runtime_dir = ''/run/zerofs-checkpoint'', ze_checkpoint_config_file = ''/etc/zerofs/checkpoint.toml'',
        ze_checkpoint_cache_dir = ''/data/zerofs-checkpoint''\<rparr>,
      dc_denied_v4 = [], dc_denied_v6 = [],
      dc_proxy = \<lparr>pc_http = Some \<lparr>hl_fallback = Some \<lparr>fb_origin_host = ''fallback.apps.example.com'', fb_redirect = ''https://www.example.com/''\<rparr>,
          hl_concurrency = Some \<lparr>hc_host_concurrent = 128, hc_app_concurrent = 16\<rparr>, hl_listen_address = ''0.0.0.0'', hl_port = 443,
          hl_tls = Some \<lparr>tm_certificate = ''/etc/nibrunner/tls/origin.crt'', tm_key = ''/etc/nibrunner/tls/origin.key'',
            tm_client_ca = Some ''/etc/nibrunner/tls/origin-pull-ca.pem''\<rparr>\<rparr>,
        pc_raw = Some \<lparr>rp_listen_address = ''10.0.5.18'', rp_max_ports_per_guest = 1\<rparr>\<rparr>,
      dc_metrics = Some \<lparr>mc_port = 9100, mc_listen_address = ''127.0.0.1''\<rparr>,
      dc_filesystem = Some ''/run/nibrunner/filesystem.sock'', dc_keep_bytes_per_app = default_keep_bytes,
      dc_export_store_url = ''s3://nibrunner-exports-eu-west-2-123456789012/exports'', dc_export_staging_dir = ''/var/lib/nibrunner/exports''\<rparr>"

section \<open>The rules a configuration follows\<close>

definition path_ok :: "path_text \<Rightarrow> bool" where
  "path_ok path \<longleftrightarrow> path \<noteq> [] \<and> hd path = CHR ''/'' \<and> trim path = path"

definition store_url_ok :: "string \<Rightarrow> bool" where
  "store_url_ok url \<longleftrightarrow>
     trim url = url \<and>
     (if starts_with ''s3://'' url then takeWhile (\<lambda>c. c \<noteq> CHR ''/'') (drop 5 url) \<noteq> []
      else \<not> contains_str ''://'' url \<and> path_ok url)"

definition size_ok :: "nat \<Rightarrow> nat \<Rightarrow> bool" where
  "size_ok unit n \<longleftrightarrow> 0 < n \<and> n \<le> u64_max \<and> n mod unit = 0"

definition prefix_ok :: "string \<Rightarrow> bool" where
  "prefix_ok prefix \<longleftrightarrow>
     trim prefix = prefix \<and> prefix \<noteq> [] \<and> length prefix \<le> MAX_STORAGE_PREFIX_BYTES \<and>
     hd prefix \<noteq> CHR ''/'' \<and> List.last prefix \<noteq> CHR ''/'' \<and> \<not> list_ex names_nothing (split_on CHR ''/'' prefix)"

definition cidr_ok :: "config_texts \<Rightarrow> family \<Rightarrow> string \<Rightarrow> bool" where
  "cidr_ok texts family range_text \<longleftrightarrow>
     trim range_text = range_text \<and>
     (case split_once CHR ''/'' range_text of
        None \<Rightarrow> False
      | Some (address, len) \<Rightarrow>
          (case parse_u8 len of
             None \<Rightarrow> False
           | Some bits \<Rightarrow> (case family of V4 \<Rightarrow> ct_is_ipv4 texts address \<and> bits \<le> 32 | V6 \<Rightarrow> ct_is_ipv6 texts address \<and> bits \<le> 128)))"

definition address_ok :: "config_texts \<Rightarrow> ip_addr \<Rightarrow> bool" where
  "address_ok texts address \<longleftrightarrow> ct_ip_parse texts address = Some address \<and> trim address = address"

definition fallback_ok :: "config_texts \<Rightarrow> http_fallback \<Rightarrow> bool" where
  "fallback_ok texts fallback \<longleftrightarrow>
     is_hostname (fb_origin_host fallback) \<and> trim (fb_redirect fallback) = fb_redirect fallback \<and>
     \<not> has_control (fb_redirect fallback) \<and> ct_is_header_value texts (fb_redirect fallback) \<and>
     (case ct_url_parse texts (fb_redirect fallback) of
        None \<Rightarrow> False
      | Some redirect \<Rightarrow>
          ur_text redirect = fb_redirect fallback \<and> ur_scheme redirect \<in> {''http'', ''https''} \<and> ur_username redirect = [] \<and>
          ur_password redirect = None \<and>
          (case ur_host_str redirect of
             None \<Rightarrow> False
           | Some host \<Rightarrow> \<not> eq_ignore_ascii_case (trim_end_dots host) (fb_origin_host fallback)))"

text \<open>A port the daemon may bind: not one that a slot of the host can hold.\<close>

definition port_free :: "nat \<Rightarrow> nat \<Rightarrow> bool" where
  "port_free max_apps port \<longleftrightarrow>
     port \<noteq> 0 \<and> \<not> (HOST_PORT_BASE \<le> port \<and> port < HOST_PORT_BASE + max_apps * PORTS_PER_SLOT)"

definition tls_ok :: "tls_material \<Rightarrow> bool" where
  "tls_ok tls \<longleftrightarrow> path_ok (tm_certificate tls) \<and> path_ok (tm_key tls) \<and> pred_option path_ok (tm_client_ca tls)"

definition http_ok :: "config_texts \<Rightarrow> nat \<Rightarrow> http_listener \<Rightarrow> bool" where
  "http_ok texts max_apps http \<longleftrightarrow>
     pred_option (fallback_ok texts) (hl_fallback http) \<and> address_ok texts (hl_listen_address http) \<and>
     port_free max_apps (hl_port http) \<and> pred_option tls_ok (hl_tls http)"

definition raw_ok :: "config_texts \<Rightarrow> raw_ports \<Rightarrow> bool" where
  "raw_ok texts raw \<longleftrightarrow>
     address_ok texts (rp_listen_address raw) \<and> 0 < rp_max_ports_per_guest raw \<and> rp_max_ports_per_guest raw < PORTS_PER_SLOT"

definition proxy_ok :: "config_texts \<Rightarrow> nat \<Rightarrow> proxy_config \<Rightarrow> bool" where
  "proxy_ok texts max_apps proxy \<longleftrightarrow>
     pred_option (http_ok texts max_apps) (pc_http proxy) \<and> pred_option (raw_ok texts) (pc_raw proxy)"

definition metrics_ok :: "config_texts \<Rightarrow> daemon_config \<Rightarrow> metrics_config \<Rightarrow> bool" where
  "metrics_ok texts config metrics \<longleftrightarrow>
     port_free (dc_max_apps config) (mc_port metrics) \<and> address_ok texts (mc_listen_address metrics) \<and>
     pred_option (\<lambda>http. hl_port http \<noteq> mc_port metrics) (pc_http (dc_proxy config)) \<and>
     (backend_zerofs (dc_volumes config) \<noteq> None \<longrightarrow> mc_port metrics \<noteq> ZEROFS_PROMETHEUS_PORT)"

definition zerofs_ok :: "zerofs_settings \<Rightarrow> bool" where
  "zerofs_ok settings \<longleftrightarrow>
     list_all path_ok [ze_binary settings, ze_config_file settings, ze_mount_path settings, ze_nbd_socket_path settings,
       ze_ninep_socket_path settings, ze_rpc_socket_path settings, ze_cache_dir settings, ze_checkpoint_runtime_dir settings,
       ze_checkpoint_config_file settings, ze_checkpoint_cache_dir settings] \<and>
     store_url_ok (ze_storage_url settings) \<and>
     size_ok MEBIBYTES_PER_GIBIBYTE (ze_cache_disk_mib settings) \<and> size_ok MEBIBYTES_PER_GIBIBYTE (ze_cache_memory_mib settings)"

definition storage_ok :: "daemon_config \<Rightarrow> host_storage \<Rightarrow> bool" where
  "storage_ok config storage \<longleftrightarrow>
     path_ok (st_device storage) \<and> path_ok (st_mount_point storage) \<and>
     plain_path (st_device storage) \<and> plain_path (st_mount_point storage) \<and>
     path_under (st_device storage) ''/dev'' \<and> path_components (st_device storage) \<noteq> [''dev''] \<and>
     list_all (\<lambda>(field, directory). beneath directory (st_mount_point storage)) (storage_directories config) \<and>
     apart (storage_directories config) \<and>
     pred_option (\<lambda>settings. \<not> path_under (ze_mount_path settings) (st_mount_point storage) \<and>
       \<not> list_ex (path_under (ze_cache_dir settings)) [dc_state_dir config, dc_guest_image_dir config, dc_export_staging_dir config])
       (backend_zerofs (dc_volumes config))"

definition config_ok :: "config_texts \<Rightarrow> daemon_config \<Rightarrow> bool" where
  "config_ok texts config \<longleftrightarrow>
     0 < dc_max_apps config \<and> dc_max_apps config \<le> most_apps_the_ports_fit \<and>
     ct_is_time_zone texts (cc_time_zone (dc_cron config)) \<and>
     list_all path_ok [dc_state_dir config, dc_runtime_dir config, dc_snapshot_dir config, dc_guest_image_dir config,
       dc_desired_state_file config, dc_versions_file config, dc_export_staging_dir config] \<and>
     dc_firecracker_dir config = path_join (dc_runtime_dir config) ''firecracker'' \<and>
     store_url_ok (dc_artifact_store_url config) \<and> store_url_ok (dc_export_store_url config) \<and> prefix_ok (dc_storage_prefix config) \<and>
     pred_option zerofs_ok (backend_zerofs (dc_volumes config)) \<and>
     list_all (cidr_ok texts V4) (dc_denied_v4 config) \<and> list_all (cidr_ok texts V6) (dc_denied_v6 config) \<and>
     proxy_ok texts (dc_max_apps config) (dc_proxy config) \<and> pred_option (metrics_ok texts config) (dc_metrics config) \<and>
     pred_option path_ok (dc_filesystem config) \<and> size_ok BYTES_PER_MEBIBYTE (dc_keep_bytes_per_app config) \<and>
     pred_option (storage_ok config) (dc_host_storage config)"

text \<open>What the parameters are taken to do: printed addresses and URLs read as themselves, and are plain texts.\<close>

definition texts_ok :: "config_texts \<Rightarrow> bool" where
  "texts_ok texts \<longleftrightarrow>
     (\<forall>given address. ct_ip_parse texts given = Some address \<longrightarrow> address_ok texts address) \<and>
     (\<forall>given redirect. ct_url_parse texts given = Some redirect \<longrightarrow>
        ct_url_parse texts (ur_text redirect) = Some redirect \<and> trim (ur_text redirect) = ur_text redirect \<and>
        \<not> has_control (ur_text redirect))"

section \<open>Each reader gives what follows its rule, and reads what follows it as it is\<close>

lemma required_Inr [simp]: "required field given = Inr x \<longleftrightarrow> given = Some x" "required field (Some x) = Inr x"
  by (auto simp: required_def split: option.splits)

lemma path_read: "path_key field given = Inr path \<Longrightarrow> path_ok path"
  by (auto simp: path_key_def absolute_def path_ok_def Let_def split: if_splits)

lemma path_back: "path_ok path \<Longrightarrow> path_key field (Some path) = Inr path"
  by (simp add: path_key_def absolute_def path_ok_def)

lemma where_given_read:
  "where_given f given = Inr y \<Longrightarrow> (\<And>a b. f a = Inr b \<Longrightarrow> P b) \<Longrightarrow> pred_option P y"
  by (cases given) auto

lemma where_given_back:
  "pred_option P y \<Longrightarrow> (\<And>b. P b \<Longrightarrow> f (g b) = Inr b) \<Longrightarrow> where_given f (map_option g y) = Inr y"
  by (cases y) auto

lemma given_path_back: "pred_option path_ok y \<Longrightarrow> where_given (path_key field) (map_option Some y) = Inr y"
  by (cases y) (simp_all add: path_back)

lemma size_read: "checked_size field n unit = Inr m \<Longrightarrow> 0 < unit \<Longrightarrow> size_ok unit m"
  by (auto simp: checked_size_def size_ok_def split: if_splits)

lemma size_back: "size_ok unit m \<Longrightarrow> 0 < unit \<Longrightarrow> checked_size field (m div unit) unit = Inr m"
  by (auto simp: checked_size_def size_ok_def dvd_eq_mod_eq_0 [symmetric] elim!: dvdE)

lemma units_positive [simp]: "0 < MEBIBYTES_PER_GIBIBYTE" "0 < BYTES_PER_MEBIBYTE"
  by (simp_all add: MEBIBYTES_PER_GIBIBYTE_def BYTES_PER_MEBIBYTE_def)

lemma store_url_read: "object_store_url field given = Inr url \<Longrightarrow> store_url_ok url"
  by (auto simp: object_store_url_def store_url_ok_def absolute_def path_ok_def Let_def split: if_splits)

lemma store_url_back: "store_url_ok url \<Longrightarrow> object_store_url field url = Inr url"
  by (auto simp: object_store_url_def store_url_ok_def absolute_def path_ok_def Let_def split: if_splits)

lemma prefix_read: "storage_prefix field given = Inr prefix \<Longrightarrow> prefix_ok prefix"
  by (auto simp: storage_prefix_def prefix_ok_def Let_def not_less split: if_splits)

lemma prefix_back: "prefix_ok prefix \<Longrightarrow> storage_prefix field prefix = Inr prefix"
  by (simp add: storage_prefix_def prefix_ok_def)

lemma cidr_read: "cidr texts field family given = Inr r \<Longrightarrow> cidr_ok texts family r"
  by (auto simp: cidr_def cidr_ok_def Let_def not_less split: option.splits family.splits if_splits)

lemma cidr_back: "cidr_ok texts family r \<Longrightarrow> cidr texts field family r = Inr r"
  by (auto simp: cidr_def cidr_ok_def Let_def not_less split: option.splits family.splits)

lemma cidrs_read: "cidrs texts field family given = Inr rs \<Longrightarrow> list_all (cidr_ok texts family) rs"
  by (induction given arbitrary: rs) (auto dest: cidr_read)

lemma cidrs_back: "list_all (cidr_ok texts family) rs \<Longrightarrow> cidrs texts field family rs = Inr rs"
  by (induction rs) (auto simp: cidr_back)

lemma address_read: "texts_ok texts \<Longrightarrow> bind_address texts field given = Inr address \<Longrightarrow> address_ok texts address"
  by (auto simp: bind_address_def texts_ok_def split: option.splits)

lemma address_back: "address_ok texts address \<Longrightarrow> bind_address texts field (Some address) = Inr address"
  by (simp add: bind_address_def address_ok_def)

lemma apps_Inr: "apps field count = Inr n \<longleftrightarrow> n = count \<and> 0 < n \<and> n \<le> most_apps_the_ports_fit"
  by (auto simp: apps_def config_apps_def split: if_splits)

lemma listener_Inr:
  assumes "0 < max_apps" "max_apps \<le> most_apps_the_ports_fit"
  shows "listener field port max_apps = Inr p \<longleftrightarrow> p = port \<and> port_free max_apps port"
  using assms by (auto simp: listener_def port_free_def reserved_port_range_def layout_defs Let_def)

lemma fallback_read:
  assumes "texts_ok texts" "read_http_fallback texts document = Inr fallback"
  shows "fallback_ok texts fallback"
proof -
  from assms(2) obtain redirect where parsed: "ct_url_parse texts (fs_redirect document) = Some redirect"
    by (auto simp: read_http_fallback_def Let_def split: if_splits option.splits)
  with assms(1) have "ct_url_parse texts (ur_text redirect) = Some redirect" "trim (ur_text redirect) = ur_text redirect"
    "\<not> has_control (ur_text redirect)"
    by (auto simp: texts_ok_def)
  with assms(2) parsed show ?thesis
    by (auto simp: read_http_fallback_def fallback_ok_def Let_def split: if_splits option.splits)
qed

lemma fallback_back:
  "fallback_ok texts fallback \<Longrightarrow>
    read_http_fallback texts \<lparr>fs_origin_host = fb_origin_host fallback, fs_redirect = fb_redirect fallback\<rparr> = Inr fallback"
  by (auto simp: read_http_fallback_def fallback_ok_def split: option.splits)

lemma tls_read: "read_tls tls = Inr material \<Longrightarrow> tls_ok material"
  by (auto simp: read_tls_def tls_ok_def dest: path_read elim!: where_given_read)

lemma tls_back:
  "tls_ok material \<Longrightarrow> read_tls \<lparr>ts_certificate = Some (tm_certificate material), ts_key = Some (tm_key material),
     ts_client_ca = map_option Some (tm_client_ca material)\<rparr> = Inr material"
  by (simp add: read_tls_def tls_ok_def path_back given_path_back)


lemma http_read:
  assumes "texts_ok texts" "0 < max_apps" "max_apps \<le> most_apps_the_ports_fit" "read_http texts max_apps http = Inr read"
  shows "http_ok texts max_apps read"
  using assms
  by (auto simp: read_http_def http_ok_def listener_Inr dest: address_read tls_read fallback_read elim!: where_given_read)

lemma http_back:
  assumes "0 < max_apps" "max_apps \<le> most_apps_the_ports_fit" "http_ok texts max_apps http"
  shows "read_http texts max_apps (write_http http) = Inr http"
proof -
  have "where_given (read_http_fallback texts)
      (map_option (\<lambda>fallback. \<lparr>fs_origin_host = fb_origin_host fallback, fs_redirect = fb_redirect fallback\<rparr>) (hl_fallback http)) =
      Inr (hl_fallback http)"
    using assms(3) fallback_back by (intro where_given_back [of "fallback_ok texts"]) (simp_all add: http_ok_def)
  moreover have "where_given read_tls (map_option (\<lambda>tls. \<lparr>ts_certificate = Some (tm_certificate tls), ts_key = Some (tm_key tls),
        ts_client_ca = map_option Some (tm_client_ca tls)\<rparr>) (hl_tls http)) = Inr (hl_tls http)"
    using assms(3) tls_back by (intro where_given_back [of tls_ok]) (simp_all add: http_ok_def)
  ultimately show ?thesis using assms by (simp add: read_http_def write_http_def http_ok_def listener_Inr address_back)
qed

lemma raw_read: "texts_ok texts \<Longrightarrow> read_raw texts raw = Inr read \<Longrightarrow> raw_ok texts read"
  by (auto simp: read_raw_def raw_ok_def MAX_RAW_PORTS_def PORTS_PER_SLOT_def dest: address_read split: if_splits)

lemma raw_back: "raw_ok texts raw \<Longrightarrow> read_raw texts (write_raw raw) = Inr raw"
  by (auto simp: read_raw_def write_raw_def raw_ok_def MAX_RAW_PORTS_def PORTS_PER_SLOT_def address_back)

lemma proxy_read:
  assumes "texts_ok texts" "0 < max_apps" "max_apps \<le> most_apps_the_ports_fit" "read_proxy texts given max_apps = Inr proxy"
  shows "proxy_ok texts max_apps proxy"
  using assms
  by (auto simp: read_proxy_def proxy_ok_def default_proxy_def dest: http_read raw_read elim!: where_given_read split: option.splits)

lemma proxy_back:
  assumes "0 < max_apps" "max_apps \<le> most_apps_the_ports_fit" "proxy_ok texts max_apps proxy"
  shows "read_proxy texts (if proxy \<noteq> default_proxy
      then Some \<lparr>px_http = map_option write_http (pc_http proxy), px_raw = map_option write_raw (pc_raw proxy)\<rparr> else None) max_apps = Inr proxy"
proof -
  have "where_given (read_http texts max_apps) (map_option write_http (pc_http proxy)) = Inr (pc_http proxy)"
    using assms http_back by (intro where_given_back [of "http_ok texts max_apps"]) (simp_all add: proxy_ok_def)
  moreover have "where_given (read_raw texts) (map_option write_raw (pc_raw proxy)) = Inr (pc_raw proxy)"
    using assms raw_back by (intro where_given_back [of "raw_ok texts"]) (simp_all add: proxy_ok_def)
  ultimately show ?thesis by (simp add: read_proxy_def)
qed

lemma metrics_read:
  assumes "texts_ok texts" "0 < dc_max_apps config" "dc_max_apps config \<le> most_apps_the_ports_fit"
    and "read_metrics texts given (dc_proxy config) (dc_volumes config) (dc_max_apps config) = Inr metrics"
  shows "pred_option (metrics_ok texts config) metrics"
  using assms(4) unfolding read_metrics_def
proof (rule where_given_read)
  fix document m
  assume "read_metrics_section texts (dc_proxy config) (dc_volumes config) (dc_max_apps config) document = Inr m"
  with assms(2,3) show "metrics_ok texts config m"
    by (cases "pc_http (dc_proxy config)"; cases "backend_zerofs (dc_volumes config)")
      (auto simp: read_metrics_section_def metrics_ok_def listener_Inr dest!: address_read [OF assms(1)] split: if_splits)
qed

lemma metrics_back:
  assumes "0 < dc_max_apps config" "dc_max_apps config \<le> most_apps_the_ports_fit" "pred_option (metrics_ok texts config) metrics"
  shows "read_metrics texts (map_option (\<lambda>m. \<lparr>mt_port = Some (mc_port m), mt_listen_address = Some (mc_listen_address m)\<rparr>) metrics)
    (dc_proxy config) (dc_volumes config) (dc_max_apps config) = Inr metrics"
  unfolding read_metrics_def using assms(3)
proof (rule where_given_back)
  fix m assume "metrics_ok texts config m"
  with assms(1,2) show "read_metrics_section texts (dc_proxy config) (dc_volumes config) (dc_max_apps config)
      \<lparr>mt_port = Some (mc_port m), mt_listen_address = Some (mc_listen_address m)\<rparr> = Inr m"
    by (cases "pc_http (dc_proxy config)"; cases "backend_zerofs (dc_volumes config)")
      (auto simp: read_metrics_section_def metrics_ok_def listener_Inr address_back)
qed

lemma logs_read: "read_logs given = Inr kept \<Longrightarrow> size_ok BYTES_PER_MEBIBYTE kept"
  by (auto simp: read_logs_def default_keep_bytes_def size_ok_def BYTES_PER_MEBIBYTE_def u64_max_def checked_size_def
      split: option.splits if_splits)

lemma logs_back: "size_ok BYTES_PER_MEBIBYTE kept \<Longrightarrow> read_logs (Some (Some (kept div BYTES_PER_MEBIBYTE))) = Inr kept"
  by (simp add: read_logs_def size_back)

lemma cron_read: "read_cron texts cron = Inr read \<Longrightarrow> ct_is_time_zone texts (cc_time_zone read)"
  by (auto simp: read_cron_def split: if_splits)

lemma cron_back:
  "ct_is_time_zone texts (cc_time_zone cron) \<Longrightarrow>
    read_cron texts \<lparr>cs_max_jobs_per_app = Some (cc_max_jobs_per_app cron), cs_time_zone = Some (cc_time_zone cron)\<rparr> = Inr cron"
  by (simp add: read_cron_def)

lemma zerofs_read: "read_zerofs zerofs = Inr settings \<Longrightarrow> zerofs_ok settings"
  unfolding read_zerofs_def mebibytes_def
  by (auto simp: zerofs_ok_def dest: path_read store_url_read size_read)

lemma zerofs_back: "zerofs_ok settings \<Longrightarrow> read_zerofs (write_zerofs settings) = Inr settings"
  by (simp add: read_zerofs_def write_zerofs_def mebibytes_def zerofs_ok_def path_back store_url_back size_back)

lemma backend_read: "read_backend volumes = Inr backend \<Longrightarrow> pred_option zerofs_ok (backend_zerofs backend)"
  by (auto simp: read_backend_def dest: zerofs_read split: if_splits)

lemma backend_back:
  "pred_option zerofs_ok (backend_zerofs backend) \<Longrightarrow>
    read_backend \<lparr>vo_backend = Some (backend_name backend), vo_storage_prefix = prefix,
      vo_zerofs = map_option write_zerofs (backend_zerofs backend)\<rparr> = Inr backend"
  by (cases backend) (auto simp: read_backend_def zerofs_back)

lemma storage_back:
  "path_ok (st_device storage) \<Longrightarrow> path_ok (st_mount_point storage) \<Longrightarrow>
    read_storage \<lparr>so_device = Some (st_device storage), so_mount_point = Some (st_mount_point storage),
      so_filesystem = Some (st_filesystem storage)\<rparr> = Inr storage"
  by (simp add: read_storage_def path_back)

lemma first_outside_Inr:
  "first_outside mount_point ds = Inr () \<longleftrightarrow> list_all (\<lambda>(field, directory). beneath directory mount_point) ds"
  by (induction ds) auto

lemma validate_storage:
  "validate_host_storage config = Inr () \<and> pred_option (\<lambda>s. path_ok (st_device s) \<and> path_ok (st_mount_point s)) (dc_host_storage config) \<longleftrightarrow>
   pred_option (storage_ok config) (dc_host_storage config)"
  by (cases "dc_host_storage config"; cases "backend_zerofs (dc_volumes config)")
    (auto simp: validate_host_storage_def validate_zerofs_paths_def storage_ok_def first_outside_Inr Let_def split: if_splits)


section \<open>Accepted configurations\<close>

lemma storage_read: "where_given read_storage given = Inr storage \<Longrightarrow> pred_option (\<lambda>s. path_ok (st_device s) \<and> path_ok (st_mount_point s)) storage"
  by (erule where_given_read) (auto simp: read_storage_def dest: path_read)

lemma accepted_ok:
  assumes "texts_ok texts" "from_document texts document = Inr config"
  shows "config_ok texts config"
proof -
  note read = assms(2) [unfolded from_document_def Let_def read_filesystem_def, simplified apps_Inr and_then_simps required_Inr]
  from read have apps: "0 < dc_max_apps config" "dc_max_apps config \<le> most_apps_the_ports_fit" by auto
  from read obtain given_proxy where "read_proxy texts given_proxy (dc_max_apps config) = Inr (dc_proxy config)" by auto
  from proxy_read [OF assms(1) apps this] have proxy: "proxy_ok texts (dc_max_apps config) (dc_proxy config)" .
  from read obtain given_metrics where
    "read_metrics texts given_metrics (dc_proxy config) (dc_volumes config) (dc_max_apps config) = Inr (dc_metrics config)" by auto
  from metrics_read [OF assms(1) apps this] have metrics: "pred_option (metrics_ok texts config) (dc_metrics config)" .
  from read obtain given_storage where "where_given read_storage given_storage = Inr (dc_host_storage config)"
    "validate_host_storage config = Inr ()" by auto
  with storage_read [OF this(1)] validate_storage [of config] have storage: "pred_option (storage_ok config) (dc_host_storage config)"
    by blast
  from read obtain given_filesystem where "where_given (path_key ''filesystem.socket'') given_filesystem = Inr (dc_filesystem config)" by auto
  then have filesystem: "pred_option path_ok (dc_filesystem config)" by (rule where_given_read) (rule path_read)
  from read have "list_all path_ok [dc_state_dir config, dc_runtime_dir config, dc_snapshot_dir config, dc_guest_image_dir config,
       dc_desired_state_file config, dc_versions_file config, dc_export_staging_dir config]"
    "ct_is_time_zone texts (cc_time_zone (dc_cron config))"
    "dc_firecracker_dir config = path_join (dc_runtime_dir config) ''firecracker''"
    "store_url_ok (dc_artifact_store_url config)" "store_url_ok (dc_export_store_url config)" "prefix_ok (dc_storage_prefix config)"
    "pred_option zerofs_ok (backend_zerofs (dc_volumes config))"
    "list_all (cidr_ok texts V4) (dc_denied_v4 config)" "list_all (cidr_ok texts V6) (dc_denied_v6 config)"
    "size_ok BYTES_PER_MEBIBYTE (dc_keep_bytes_per_app config)"
    by (auto dest: path_read cron_read store_url_read prefix_read backend_read cidrs_read logs_read)
  with apps proxy metrics storage filesystem show ?thesis by (simp add: config_ok_def)
qed

lemma daemon_config_eta:
  "\<lparr>dc_max_concurrent_vm_starts = dc_max_concurrent_vm_starts config, dc_max_apps = dc_max_apps config,
     dc_cron = dc_cron config, dc_host_storage = dc_host_storage config, dc_state_dir = dc_state_dir config,
     dc_runtime_dir = dc_runtime_dir config, dc_snapshot_dir = dc_snapshot_dir config,
     dc_guest_image_dir = dc_guest_image_dir config, dc_firecracker_dir = dc_firecracker_dir config,
     dc_desired_state_file = dc_desired_state_file config, dc_versions_file = dc_versions_file config,
     dc_artifact_store_url = dc_artifact_store_url config, dc_storage_prefix = dc_storage_prefix config,
     dc_volumes = dc_volumes config, dc_denied_v4 = dc_denied_v4 config, dc_denied_v6 = dc_denied_v6 config,
     dc_proxy = dc_proxy config, dc_metrics = dc_metrics config, dc_filesystem = dc_filesystem config,
     dc_keep_bytes_per_app = dc_keep_bytes_per_app config, dc_export_store_url = dc_export_store_url config,
     dc_export_staging_dir = dc_export_staging_dir config\<rparr> = config"
  by simp

lemma reads_back:
  assumes "config_ok texts config"
  shows "from_document texts (to_document config) = Inr config"
proof -
  have apps: "0 < dc_max_apps config" "dc_max_apps config \<le> most_apps_the_ports_fit" using assms by (simp_all add: config_ok_def)
  have storage: "pred_option (\<lambda>s. path_ok (st_device s) \<and> path_ok (st_mount_point s)) (dc_host_storage config)"
    "validate_host_storage config = Inr ()"
    using assms validate_storage [of config] by (simp_all add: config_ok_def)
  have given: "where_given read_storage (map_option (\<lambda>s. \<lparr>so_device = Some (st_device s), so_mount_point = Some (st_mount_point s),
      so_filesystem = Some (st_filesystem s)\<rparr>) (dc_host_storage config)) = Inr (dc_host_storage config)"
    using storage(1) by (rule where_given_back) (simp add: storage_back)
  from assms have paths: "path_ok (dc_state_dir config)" "path_ok (dc_runtime_dir config)" "path_ok (dc_snapshot_dir config)"
    "path_ok (dc_guest_image_dir config)" "path_ok (dc_desired_state_file config)" "path_ok (dc_versions_file config)"
    "path_ok (dc_export_staging_dir config)" "pred_option path_ok (dc_filesystem config)"
    by (simp_all add: config_ok_def)
  from assms have rest: "read_cron texts \<lparr>cs_max_jobs_per_app = Some (cc_max_jobs_per_app (dc_cron config)),
      cs_time_zone = Some (cc_time_zone (dc_cron config))\<rparr> = Inr (dc_cron config)"
    "\<And>field. object_store_url field (dc_artifact_store_url config) = Inr (dc_artifact_store_url config)"
    "\<And>field. object_store_url field (dc_export_store_url config) = Inr (dc_export_store_url config)"
    "\<And>field. storage_prefix field (dc_storage_prefix config) = Inr (dc_storage_prefix config)"
    "\<And>prefix. read_backend \<lparr>vo_backend = Some (backend_name (dc_volumes config)), vo_storage_prefix = prefix,
      vo_zerofs = map_option write_zerofs (backend_zerofs (dc_volumes config))\<rparr> = Inr (dc_volumes config)"
    "\<And>field. cidrs texts field V4 (dc_denied_v4 config) = Inr (dc_denied_v4 config)"
    "\<And>field. cidrs texts field V6 (dc_denied_v6 config) = Inr (dc_denied_v6 config)"
    "read_logs (Some (Some (dc_keep_bytes_per_app config div BYTES_PER_MEBIBYTE))) = Inr (dc_keep_bytes_per_app config)"
    by (simp_all add: config_ok_def cron_back store_url_back prefix_back backend_back cidrs_back logs_back)
  have proxy: "read_proxy texts (if dc_proxy config \<noteq> default_proxy
      then Some \<lparr>px_http = map_option write_http (pc_http (dc_proxy config)), px_raw = map_option write_raw (pc_raw (dc_proxy config))\<rparr> else None)
      (dc_max_apps config) = Inr (dc_proxy config)"
    using assms apps by (intro proxy_back) (simp_all add: config_ok_def)
  have metrics: "read_metrics texts (map_option (\<lambda>m. \<lparr>mt_port = Some (mc_port m), mt_listen_address = Some (mc_listen_address m)\<rparr>) (dc_metrics config))
      (dc_proxy config) (dc_volumes config) (dc_max_apps config) = Inr (dc_metrics config)"
    using assms apps by (intro metrics_back) (simp_all add: config_ok_def)
  have apps_read: "apps ''max_apps'' (dc_max_apps config) = Inr (dc_max_apps config)"
    using apps by (simp add: apps_Inr)
  have firecracker: "path_join (dc_runtime_dir config) ''firecracker'' = dc_firecracker_dir config"
    using assms by (simp add: config_ok_def)
  show ?thesis
    by (simp del: and_then_simps(3) add: from_document_def to_document_def apps_read rest proxy metrics given paths path_back
        given_path_back read_filesystem_def firecracker storage(2) daemon_config_eta Let_def)
qed



text \<open>
  (C28) A configuration reads back as it was. What was read from a file and is written out again gives the
  same configuration, key by key, when it is read once more.
\<close>

theorem configurations_read_back:
  assumes "texts_ok texts" "ct_toml_parse texts (ct_toml_print texts (to_document config)) = Inr (to_document config)"
    and "from_toml texts given = Inr config"
  shows "from_toml texts (to_toml texts config) = Inr config"
proof -
  from assms(3) obtain document where "from_document texts document = Inr config"
    by (auto simp: from_toml_def split: sum.splits)
  from reads_back [OF accepted_ok [OF assms(1) this]] assms(2) show ?thesis by (simp add: from_toml_def to_toml_def)
qed

text \<open>The ports the daemon itself listens on.\<close>

definition listening_ports :: "daemon_config \<Rightarrow> nat list" where
  "listening_ports config =
     (case pc_http (dc_proxy config) of None \<Rightarrow> [] | Some http \<Rightarrow> [hl_port http]) @
     (case dc_metrics config of None \<Rightarrow> [] | Some metrics \<Rightarrow> [mc_port metrics]) @
     (case backend_zerofs (dc_volumes config) of None \<Rightarrow> [] | Some _ \<Rightarrow> [ZEROFS_PROMETHEUS_PORT])"

text \<open>
  Nothing this host listens on is an app's. The ports of the daemon are none of those that any slot of
  the host takes for its app, its metrics page has a port of its own, and what an app may have of raw ports fits its slot
  beside its first.
\<close>

lemma listeners_stay_off_the_slots:
  assumes "from_document texts document = Inr config" "texts_ok texts" "slot < dc_max_apps config"
  shows "(\<forall>port \<in> set (listening_ports config). port \<noteq> 0 \<and> host_port_at slot index \<noteq> Some port) \<and>
    (\<forall>http metrics. pc_http (dc_proxy config) = Some http \<longrightarrow> dc_metrics config = Some metrics \<longrightarrow> hl_port http \<noteq> mc_port metrics) \<and>
    (\<forall>raw. pc_raw (dc_proxy config) = Some raw \<longrightarrow> host_port_at slot (rp_max_ports_per_guest raw) \<noteq> None)"
proof -
  have ok: "config_ok texts config" using accepted_ok [OF assms(2,1)] .
  have slot: "slot < most_apps_the_ports_fit" using ok assms(3) by (simp add: config_ok_def)
  have taken: "port_free (dc_max_apps config) port \<Longrightarrow> host_port_at slot index \<noteq> Some port" for port
    using assms(3) host_port_at_eq [OF slot, of index]
    by (cases "index < PORTS_PER_SLOT") (auto simp: port_free_def host_port_at_def layout_defs)
  have prometheus: "port_free (dc_max_apps config) ZEROFS_PROMETHEUS_PORT"
    by (simp add: port_free_def ZEROFS_PROMETHEUS_PORT_def layout_defs)
  have free: "port_free (dc_max_apps config) port" if "port \<in> set (listening_ports config)" for port
    using that ok prometheus
    by (cases "pc_http (dc_proxy config)"; cases "dc_metrics config"; cases "backend_zerofs (dc_volumes config)")
      (auto simp: listening_ports_def config_ok_def proxy_ok_def http_ok_def metrics_ok_def)
  show ?thesis
    using free taken ok host_port_at_eq [OF slot]
    by (auto simp: port_free_def config_ok_def metrics_ok_def proxy_ok_def raw_ok_def)
qed


text \<open>Reading never comes to the panic: the number of apps is held to the ports before any port is read.\<close>

lemma where_given_Inl: "where_given f given = Inl e \<longleftrightarrow> (\<exists>x. given = Some x \<and> f x = Inl e)"
  by (cases given) (auto simp: and_then_Inl)

lemma rules_never_panic [simp]:
  "required field x \<noteq> Inl ConfigPanic" "path_key field y \<noteq> Inl ConfigPanic" "object_store_url field z \<noteq> Inl ConfigPanic"
  "storage_prefix field z \<noteq> Inl ConfigPanic" "checked_size field n unit \<noteq> Inl ConfigPanic" "bind_address texts field y \<noteq> Inl ConfigPanic"
  "apps field n \<noteq> Inl ConfigPanic" "cidr texts field family z \<noteq> Inl ConfigPanic" "read_http_fallback texts document \<noteq> Inl ConfigPanic"
  by (auto simp: required_def path_key_def absolute_def object_store_url_def storage_prefix_def checked_size_def bind_address_def
      apps_def cidr_def read_http_fallback_def and_then_Inl Let_def split: option.splits if_splits sum.splits family.splits)

lemma cidrs_never_panic [simp]: "cidrs texts field family zs \<noteq> Inl ConfigPanic"
  by (induction zs) (auto simp: and_then_Inl)

lemma listener_never_panics:
  "0 < max_apps \<Longrightarrow> max_apps \<le> most_apps_the_ports_fit \<Longrightarrow> listener field port max_apps \<noteq> Inl ConfigPanic"
  by (auto simp: listener_def reserved_port_range_def layout_defs Let_def)

lemma sections_never_panic [simp]:
  "read_tls tls \<noteq> Inl ConfigPanic" "read_raw texts raw \<noteq> Inl ConfigPanic" "read_filesystem filesystem \<noteq> Inl ConfigPanic"
  "read_logs logs \<noteq> Inl ConfigPanic" "read_cron texts cron \<noteq> Inl ConfigPanic" "read_zerofs zerofs \<noteq> Inl ConfigPanic"
  "read_backend volumes \<noteq> Inl ConfigPanic" "where_given read_storage storage \<noteq> Inl ConfigPanic"
  by (auto simp: read_tls_def read_raw_def read_filesystem_def read_logs_def read_cron_def read_zerofs_def read_backend_def
      read_storage_def mebibytes_def and_then_Inl where_given_Inl split: option.splits if_splits)

lemma listening_never_panics:
  assumes "0 < max_apps" "max_apps \<le> most_apps_the_ports_fit"
  shows "read_proxy texts proxy max_apps \<noteq> Inl ConfigPanic" "read_metrics texts metrics p v max_apps \<noteq> Inl ConfigPanic"
  using listener_never_panics [OF assms]
  by (auto simp: read_proxy_def read_http_def read_metrics_def read_metrics_section_def and_then_Inl where_given_Inl
      split: option.splits if_splits)

lemma validation_never_panics [simp]: "validate_host_storage config \<noteq> Inl ConfigPanic"
proof -
  have "first_outside mount_point ds \<noteq> Inl ConfigPanic" for mount_point ds by (induction ds) auto
  then show ?thesis
    by (auto simp: validate_host_storage_def validate_zerofs_paths_def and_then_Inl Let_def split: option.splits if_splits)
qed

lemma reading_never_panics: "from_document texts document \<noteq> Inl ConfigPanic"
  unfolding from_document_def by (auto simp: and_then_Inl apps_Inr listening_never_panics Let_def)

section \<open>The starting points are accepted\<close>

lemmas rule_defs =
  config_ok_def path_ok_def store_url_ok_def prefix_ok_def size_ok_def proxy_ok_def http_ok_def raw_ok_def tls_ok_def metrics_ok_def
  zerofs_ok_def port_free_def

lemmas starting_defs =
  starter_def laid_out_def STARTER_STATE_DIR_def default_proxy_def default_keep_bytes_def path_join_def

lemma starter_ok:
  assumes "0 < max_apps" "max_apps \<le> most_apps_the_ports_fit" "ct_is_time_zone texts ''UTC''"
    and "address_ok texts ''0.0.0.0''" "address_ok texts ''127.0.0.1''"
  shows "config_ok texts (starter max_apps)"
  using assms
  by (simp add: rule_defs starting_defs is_graphic_def less_eq_char_def starts_with_def names_nothing_def
      MAX_STORAGE_PREFIX_BYTES_def BYTES_PER_MEBIBYTE_def u64_max_def layout_defs)

text \<open>What is installed on a host that has no configuration is one it accepts.\<close>

lemma starter_is_accepted:
  assumes "0 < max_apps" "max_apps \<le> most_apps_the_ports_fit" "ct_is_time_zone texts ''UTC''"
    and "address_ok texts ''0.0.0.0''" "address_ok texts ''127.0.0.1''"
  shows "from_document texts (to_document (starter max_apps)) = Inr (starter max_apps)"
  using reads_back [OF starter_ok [OF assms]] .

definition sample_url :: url where
  "sample_url = \<lparr>ur_text = ''https://www.example.com/'', ur_scheme = ''https'', ur_host_str = Some ''www.example.com'', ur_username = [], ur_password = None\<rparr>"

definition sample_texts :: config_texts where
  "sample_texts = \<lparr>ct_ip_parse = (\<lambda>s. if s \<in> set [''0.0.0.0'', ''127.0.0.1'', ''10.0.5.18''] then Some s else None), ct_is_ipv4 = is_ipv4,
     ct_is_ipv6 = (\<lambda>s. s = ''::''), ct_is_time_zone = (\<lambda>s. s = ''UTC''),
     ct_url_parse = (\<lambda>s. if s = ''https://www.example.com/'' then Some sample_url else None), ct_is_header_value = (\<lambda>s. \<not> has_control s),
     ct_toml_parse = (\<lambda>s. if s = ''example'' then Inr (to_document example) else Inl ''expected a table''),
     ct_toml_print = (\<lambda>document. if document = to_document example then ''example'' else [])\<rparr>"

lemma sample_addresses [simp]: "address_ok sample_texts ''0.0.0.0''" "address_ok sample_texts ''127.0.0.1''" "address_ok sample_texts ''10.0.5.18''"
  by (simp_all add: address_ok_def sample_texts_def is_graphic_def less_eq_char_def)

lemma sample_texts_ok: "texts_ok sample_texts"
proof -
  have "address_ok sample_texts address" if "ct_ip_parse sample_texts given = Some address" for given address
    using that by (auto simp: sample_texts_def [THEN arg_cong [of _ _ ct_ip_parse]] simp flip: sample_texts_def split: if_splits)
  then show ?thesis
    by (auto simp: texts_ok_def sample_texts_def [THEN arg_cong [of _ _ ct_url_parse]] sample_url_def is_graphic_def less_char_def less_eq_char_def
        split: if_splits)
qed

lemmas evaluation_defs =
  is_graphic_def less_eq_char_def starts_with_def names_nothing_def layout_defs u64_max_def
  MAX_STORAGE_PREFIX_BYTES_def BYTES_PER_MEBIBYTE_def MEBIBYTES_PER_GIBIBYTE_def default_keep_bytes_def ZEROFS_PROMETHEUS_PORT_def

lemma example_fallback: "fallback_ok sample_texts \<lparr>fb_origin_host = ''fallback.apps.example.com'', fb_redirect = ''https://www.example.com/''\<rparr>"
  by (simp add: fallback_ok_def sample_texts_def sample_url_def evaluation_defs less_char_def is_hostname_def is_dns_label_def
      trim_end_dots_def eq_ignore_ascii_case_def to_ascii_lower_def is_ascii_uppercase_def is_ascii_lowercase_def is_ascii_digit_def
      MAX_DNS_LABEL_LENGTH_def MAX_HOSTNAME_LENGTH_def)

lemma example_storage:
  "storage_ok example \<lparr>st_device = ''/dev/disk/by-id/nvme-instance-store'', st_mount_point = ''/data'', st_filesystem = Xfs\<rparr>"
  by (simp add: storage_ok_def example_def storage_directories_def path_ok_def plain_path_def path_under_def path_components_def beneath_def
      is_ascii_digit_def is_ascii_lowercase_def is_ascii_uppercase_def evaluation_defs)

lemma example_ok: "config_ok sample_texts example"
proof -
  have storage: "pred_option (storage_ok example) (dc_host_storage example)"
    using example_storage by (simp add: example_def)
  have zone: "ct_is_time_zone sample_texts ''UTC''" by (simp add: sample_texts_def)
  show ?thesis
    unfolding config_ok_def
    by (intro conjI storage) (simp_all add: example_def rule_defs path_join_def example_fallback zone evaluation_defs)
qed


theorem configurations_read_back_witness:
  "from_toml sample_texts ''example'' = Inr example \<and> from_toml sample_texts (to_toml sample_texts example) = Inr example"
proof -
  have read: "from_toml sample_texts ''example'' = Inr example"
    using reads_back [OF example_ok] by (simp add: from_toml_def sample_texts_def)
  have "ct_toml_parse sample_texts (ct_toml_print sample_texts (to_document example)) = Inr (to_document example)"
    by (simp add: sample_texts_def)
  from configurations_read_back [OF sample_texts_ok this read] read show ?thesis by simp
qed

end
