(* ===== verification/StorageDevice.thy ===== *)
theory StorageDevice
  imports Configuration Slots Frames
begin

text \<open>
  The disk the daemon may keep its data on (\<open>nibrunnerd/src/install/storage.rs\<close>): it is locked, looked at,
  formatted when it is empty, and mounted. What the commands and the file system answer is a parameter,
  a function of the calls made so far; an operation is those calls with its result, or nothing
  when its fuel was not enough for the lock. Shown: only a device that is empty, unmounted and without
  partitions is formatted, what is mounted in the end is that device and nothing else, waiting for
  the lock ends, and the names of units tell paths apart.
\<close>

section \<open>What is asked of the host\<close>

definition filesystem_name :: "storage_filesystem \<Rightarrow> string" where
  "filesystem_name fs = (case fs of Ext4 \<Rightarrow> ''ext4'' | Xfs \<Rightarrow> ''xfs'')"

datatype block_device = BlockDevice (bd_kind: string) (bd_ro: bool) (bd_children: "block_device list")

record mount_entry =
  mt_device :: string
  mt_target :: path_text
  mt_fstype :: string
  mt_options :: string
  mt_fsroot :: string

datatype path_metadata = PathMissing | PathFails string | PathSymlink | PathDirectory | PathOther

text \<open>Whether a lock that was not given would have blocked, and the text of the failure.\<close>

datatype lock_answer = Locked | NotLocked bool string

text \<open>An opened file: the major and minor number of a block device, or that it is none.\<close>

type_synonym device_file = "string + (nat \<times> nat) option"

datatype storage_call =
    TryLock path_text
  | ListBlocks path_text
  | ListMounts nat
  | ListSignatures path_text
  | MakeFilesystem storage_filesystem path_text
  | MakeDirectory path_text
  | MountDevice storage_filesystem path_text path_text

record storage_world =
  sw_metadata :: "storage_call list \<Rightarrow> path_text \<Rightarrow> path_metadata"
  sw_canonicalize :: "storage_call list \<Rightarrow> path_text \<Rightarrow> string + path_text"
  sw_open :: "storage_call list \<Rightarrow> path_text \<Rightarrow> string + device_file"
  sw_lock :: "storage_call list \<Rightarrow> lock_answer"
  sw_remaining :: "storage_call list \<Rightarrow> nat"
  sw_blocks :: "storage_call list \<Rightarrow> string + block_device list"
  sw_mounts :: "storage_call list \<Rightarrow> string + mount_entry list"
  sw_signatures :: "storage_call list \<Rightarrow> string + string list"
  sw_exists :: "storage_call list \<Rightarrow> path_text \<Rightarrow> bool"
  sw_holds_entries :: "storage_call list \<Rightarrow> path_text \<Rightarrow> string + bool"
  sw_done :: "storage_call list \<Rightarrow> string + unit"
  sw_process :: nat
  sw_number_text :: "nat \<Rightarrow> string"

type_synonym 'a storage_op = "storage_call list \<Rightarrow> ((string + 'a) \<times> storage_call list) option"

definition gives :: "string + 'a \<Rightarrow> 'a storage_op" where
  "gives r calls = Some (r, calls)"

definition looks :: "(storage_call list \<Rightarrow> string + 'a) \<Rightarrow> 'a storage_op" where
  "looks f calls = Some (f calls, calls)"

definition asks :: "(storage_call list \<Rightarrow> string + 'a) \<Rightarrow> storage_call \<Rightarrow> 'a storage_op" where
  "asks f call calls = Some (f (calls @ [call]), calls @ [call])"

definition and_next :: "'a storage_op \<Rightarrow> ('a \<Rightarrow> 'b storage_op) \<Rightarrow> 'b storage_op" where
  "and_next m k calls =
     (case m calls of
        None \<Rightarrow> None
      | Some (Inl e, calls') \<Rightarrow> Some (Inl e, calls')
      | Some (Inr x, calls') \<Rightarrow> k x calls')"

definition storage_refused :: "string \<Rightarrow> string" where
  "storage_refused reason = ''host storage is unavailable: '' @ reason"

definition refusing :: "string + 'a \<Rightarrow> string + 'a" where
  "refusing r = (case r of Inl e \<Rightarrow> Inl (storage_refused e) | Inr x \<Rightarrow> Inr x)"

section \<open>Looking at a device\<close>

definition check_layout :: "block_device list \<Rightarrow> string + unit" where
  "check_layout devices =
     (case devices of
        [device] \<Rightarrow>
          if bd_kind device \<in> {''disk'', ''loop''} \<and> \<not> bd_ro device \<and> bd_children device = [] then Inr ()
          else Inl (storage_refused ''the device must be a writable whole disk without partitions or holders'')
      | _ \<Rightarrow> Inl (storage_refused ''the device must be a writable whole disk without partitions or holders''))"

definition has_filesystem :: "string list \<Rightarrow> host_storage \<Rightarrow> string + bool" where
  "has_filesystem signatures storage =
     (if signatures = [] then Inr False
      else if list_all (\<lambda>kind. kind = filesystem_name (st_filesystem storage)) signatures then Inr True
      else Inl (storage_refused (st_device storage @ '' holds signatures other than '' @ filesystem_name (st_filesystem storage) @ ''; nothing was formatted'')))"

definition own_mount :: "host_storage \<Rightarrow> string \<Rightarrow> mount_entry \<Rightarrow> bool" where
  "own_mount storage device mount \<longleftrightarrow>
     path_components (mt_target mount) = path_components (st_mount_point storage) \<and> mt_device mount = device \<and>
     mt_fstype mount = filesystem_name (st_filesystem storage) \<and> mt_fsroot mount = ''/'' \<and>
     ''rw'' \<in> set (split_on CHR '','' (mt_options mount))"

definition concerns :: "host_storage \<Rightarrow> string \<Rightarrow> mount_entry \<Rightarrow> bool" where
  "concerns storage device mount \<longleftrightarrow> mt_device mount = device \<or> path_under (mt_target mount) (st_mount_point storage)"

fun mounted_loop :: "host_storage \<Rightarrow> string \<Rightarrow> bool \<Rightarrow> mount_entry list \<Rightarrow> string + bool" where
  "mounted_loop storage device found [] = Inr found"
| "mounted_loop storage device found (mount # mounts) =
     (if own_mount storage device mount \<and> \<not> found then mounted_loop storage device True mounts
      else if concerns storage device mount then Inl (storage_refused (''conflicting mount at '' @ mt_target mount))
      else mounted_loop storage device found mounts)"

definition mounted :: "mount_entry list \<Rightarrow> host_storage \<Rightarrow> string \<Rightarrow> string + bool" where
  "mounted mounts storage device = mounted_loop storage device False mounts"

text \<open>\<open>Path::ancestors\<close> of an absolute path: itself first and the root last.\<close>

definition ancestors :: "path_text \<Rightarrow> path_text list" where
  "ancestors path =
     (let names = path_components path
      in map (\<lambda>k. CHR ''/'' # join_with (CHR ''/'') (take k names)) (rev [0..<length names + 1]))"

fun no_symlinks_at :: "(path_text \<Rightarrow> path_metadata) \<Rightarrow> path_text list \<Rightarrow> string + unit" where
  "no_symlinks_at metadata [] = Inr ()"
| "no_symlinks_at metadata (ancestor # more_ancestors) =
     (case metadata ancestor of
        PathSymlink \<Rightarrow> Inl (storage_refused (ancestor @ '' must be a directory without symlinks''))
      | PathOther \<Rightarrow> Inl (storage_refused (ancestor @ '' must be a directory without symlinks''))
      | PathDirectory \<Rightarrow> no_symlinks_at metadata more_ancestors
      | PathMissing \<Rightarrow> no_symlinks_at metadata more_ancestors
      | PathFails e \<Rightarrow> Inl (storage_refused e))"

definition no_symlinks :: "storage_world \<Rightarrow> path_text \<Rightarrow> unit storage_op" where
  "no_symlinks w path = looks (\<lambda>calls. no_symlinks_at (sw_metadata w calls) (ancestors path))"

definition device_number :: "storage_world \<Rightarrow> device_file \<Rightarrow> string + string" where
  "device_number w file =
     (case file of
        Inl e \<Rightarrow> Inl (storage_refused e)
      | Inr None \<Rightarrow> Inl (storage_refused ''the configured device is not a block device'')
      | Inr (Some (major, minor)) \<Rightarrow> Inr (sw_number_text w major @ '':'' @ sw_number_text w minor))"

section \<open>Taking and preparing it\<close>

text \<open>In milliseconds.\<close>

definition DEVICE_LOCK_TIMEOUT :: nat where
  "DEVICE_LOCK_TIMEOUT = 10000"

definition DEVICE_LOCK_RETRY :: nat where
  "DEVICE_LOCK_RETRY = 25"

primrec lock_device :: "nat \<Rightarrow> storage_world \<Rightarrow> path_text \<Rightarrow> unit storage_op" where
  "lock_device 0 w device calls = None"
| "lock_device (Suc fuel) w device calls =
     (let calls' = calls @ [TryLock device]
      in case sw_lock w calls' of
           Locked \<Rightarrow> Some (Inr (), calls')
         | NotLocked would_block e \<Rightarrow>
             if \<not> would_block \<or> sw_remaining w calls' = 0
             then Some (Inl (storage_refused (device @ '' could not be locked: '' @ e)), calls')
             else lock_device fuel w device calls')"

record prepared =
  pr_path :: path_text
  pr_number :: string
  pr_mounted :: bool

definition own_mounts :: "storage_world \<Rightarrow> nat \<Rightarrow> mount_entry list storage_op" where
  "own_mounts w process = asks (refusing \<circ> sw_mounts w) (ListMounts process)"

definition mount_point_empty :: "storage_world \<Rightarrow> host_storage \<Rightarrow> bool \<Rightarrow> unit storage_op" where
  "mount_point_empty w storage is_mounted =
     looks (\<lambda>calls.
       if \<not> is_mounted \<and> sw_exists w calls (st_mount_point storage)
       then case sw_holds_entries w calls (st_mount_point storage) of
              Inl e \<Rightarrow> Inl (storage_refused e)
            | Inr holds \<Rightarrow> if holds then Inl (storage_refused (st_mount_point storage @ '' is not mounted and is not empty'')) else Inr ()
       else Inr ())"

definition make_filesystem :: "storage_world \<Rightarrow> host_storage \<Rightarrow> path_text \<Rightarrow> bool \<Rightarrow> bool \<Rightarrow> unit storage_op" where
  "make_filesystem w storage device is_mounted present =
     (if present then gives (Inr ())
      else if is_mounted then gives (Inl (storage_refused ''a mounted device has no filesystem signature''))
      else asks (refusing \<circ> sw_done w) (MakeFilesystem (st_filesystem storage) device))"

text \<open>What is done with a device that is locked.\<close>

definition prepare_locked :: "storage_world \<Rightarrow> host_storage \<Rightarrow> path_text \<Rightarrow> string \<Rightarrow> prepared storage_op" where
  "prepare_locked w storage device number =
     and_next (asks (refusing \<circ> sw_blocks w) (ListBlocks device)) (\<lambda>devices.
     and_next (gives (check_layout devices)) (\<lambda>_.
     and_next (own_mounts w (sw_process w)) (\<lambda>mounts.
     and_next (gives (mounted mounts storage number)) (\<lambda>is_mounted.
     and_next (mount_point_empty w storage is_mounted) (\<lambda>_.
     and_next (asks (refusing \<circ> sw_signatures w) (ListSignatures device)) (\<lambda>signatures.
     and_next (gives (has_filesystem signatures storage)) (\<lambda>present.
     and_next (make_filesystem w storage device is_mounted present) (\<lambda>_.
     and_next (asks (refusing \<circ> sw_done w) (MakeDirectory (st_mount_point storage))) (\<lambda>_.
     gives (Inr \<lparr>pr_path = device, pr_number = number, pr_mounted = is_mounted\<rparr>))))))))))"

definition prepare_device :: "nat \<Rightarrow> storage_world \<Rightarrow> host_storage \<Rightarrow> prepared storage_op" where
  "prepare_device fuel w storage =
     and_next (no_symlinks w (st_mount_point storage)) (\<lambda>_.
     and_next (looks (\<lambda>calls. case sw_canonicalize w calls (st_device storage) of
         Inl e \<Rightarrow> Inl (storage_refused (st_device storage @ '' could not be resolved: '' @ e)) | Inr device \<Rightarrow> Inr device)) (\<lambda>device.
     and_next (looks (\<lambda>calls. and_then (refusing (sw_open w calls device)) (device_number w))) (\<lambda>number.
     and_next (lock_device fuel w device) (\<lambda>_.
     prepare_locked w storage device number))))"

definition prepare :: "nat \<Rightarrow> storage_world \<Rightarrow> daemon_config \<Rightarrow> unit storage_op" where
  "prepare fuel w config =
     (case dc_host_storage config of
        None \<Rightarrow> gives (Inr ())
      | Some storage \<Rightarrow> and_next (prepare_device fuel w storage) (\<lambda>_. gives (Inr ())))"

definition ensure_mounted :: "nat \<Rightarrow> storage_world \<Rightarrow> daemon_config \<Rightarrow> unit storage_op" where
  "ensure_mounted fuel w config =
     (case dc_host_storage config of
        None \<Rightarrow> gives (Inr ())
      | Some storage \<Rightarrow>
          and_next (prepare_device fuel w storage) (\<lambda>prepared.
          and_next (if pr_mounted prepared then gives (Inr ())
                    else asks (refusing \<circ> sw_done w) (MountDevice (st_filesystem storage) (pr_path prepared) (st_mount_point storage))) (\<lambda>_.
          and_next (own_mounts w (sw_process w)) (\<lambda>mounts.
          and_next (gives (mounted mounts storage (pr_number prepared))) (\<lambda>is_mounted.
          gives (if is_mounted then Inr () else Inl (storage_refused (st_mount_point storage @ '' did not become mounted''))))))))"

text \<open>The directories the daemon keeps, and the check before it starts, which looks at the mounts of the host itself.\<close>

definition install_directories :: "daemon_config \<Rightarrow> path_text list" where
  "install_directories config =
     [dc_state_dir config, dc_snapshot_dir config, dc_guest_image_dir config, dc_export_staging_dir config] @
     (case backend_zerofs (dc_volumes config) of
        None \<Rightarrow> []
      | Some settings \<Rightarrow> [ze_cache_dir settings, ze_checkpoint_cache_dir settings, ze_mount_path settings])"

primrec check_directories :: "storage_world \<Rightarrow> host_storage \<Rightarrow> path_text list \<Rightarrow> unit storage_op" where
  "check_directories w storage [] = gives (Inr ())"
| "check_directories w storage (directory # directories) =
     and_next (if path_under directory (st_mount_point storage) then no_symlinks w directory else gives (Inr ()))
       (\<lambda>_. check_directories w storage directories)"

definition storage_check :: "storage_world \<Rightarrow> daemon_config \<Rightarrow> unit storage_op" where
  "storage_check w config =
     (case dc_host_storage config of
        None \<Rightarrow> gives (Inr ())
      | Some storage \<Rightarrow>
          and_next (no_symlinks w (st_mount_point storage)) (\<lambda>_.
          and_next (looks (\<lambda>calls. case sw_open w calls (st_device storage) of
              Inl e \<Rightarrow> Inl (storage_refused (st_device storage @ '' could not be opened: '' @ e)) | Inr file \<Rightarrow> Inr file)) (\<lambda>file.
          and_next (own_mounts w 1) (\<lambda>mounts.
          and_next (gives (and_then (device_number w file) (mounted mounts storage))) (\<lambda>is_mounted.
          if \<not> is_mounted
          then gives (Inl (storage_refused (st_mount_point storage @ '' is not mounted from '' @ st_device storage)))
          else check_directories w storage (install_directories config))))))"

section \<open>The names of units\<close>

definition unit_char :: "char \<Rightarrow> bool" where
  "unit_char c \<longleftrightarrow> is_ascii_lowercase c \<or> is_ascii_uppercase c \<or> is_ascii_digit c \<or> c \<in> set ''_:.''"

fun unit_name :: "string \<Rightarrow> string \<Rightarrow> string" where
  "unit_name name [] = name"
| "unit_name name (c # cs) =
     unit_name (name @
       (if c = CHR ''/'' then ''-''
        else if unit_char c \<and> (c \<noteq> CHR ''.'' \<or> name \<noteq> []) then [c]
        else [CHR 0x5C, CHR ''x''] @ hex_octet (byte_value c))) cs"

definition path_unit :: "path_text \<Rightarrow> string \<Rightarrow> string" where
  "path_unit path suffix = unit_name [] (drop 1 path) @ ''.'' @ suffix"

definition mount_unit_name :: "host_storage \<Rightarrow> string" where
  "mount_unit_name storage = path_unit (st_mount_point storage) ''mount''"

section \<open>What was found\<close>

lemma gives_Some [simp]: "gives r calls = Some (r', calls') \<longleftrightarrow> r = r' \<and> calls' = calls"
  by (auto simp: gives_def)

lemma and_next_Some:
  "and_next m k calls = Some (r, calls') \<longleftrightarrow>
     (\<exists>e. m calls = Some (Inl e, calls') \<and> r = Inl e) \<or> (\<exists>x between. m calls = Some (Inr x, between) \<and> k x between = Some (r, calls'))"
  by (cases "m calls") (auto simp: and_next_def split: sum.splits)

lemma refusing_Inr [simp]: "refusing r = Inr x \<longleftrightarrow> r = Inr x"
  by (cases r) (simp_all add: refusing_def)

lemma check_layout_Inr:
  "check_layout devices = Inr () \<longleftrightarrow> (\<exists>kind. devices = [BlockDevice kind False []] \<and> kind \<in> {''disk'', ''loop''})"
  by (cases devices rule: list.exhaust; cases "hd devices") (auto simp: check_layout_def split: list.splits)

text \<open>The loop over the mounts is a matter of those that concern the storage: none, or its own one.\<close>

lemma own_concerns: "own_mount storage device mount \<Longrightarrow> concerns storage device mount"
  by (simp add: own_mount_def concerns_def)

lemma mounted_loop_found: "mounted_loop storage device True mounts = Inr b \<longleftrightarrow> b \<and> filter (concerns storage device) mounts = []"
  by (induction mounts) (auto simp: own_concerns)

lemma mounted_Inr:
  "mounted mounts storage device = Inr b \<longleftrightarrow>
     (if b then \<exists>mount. filter (concerns storage device) mounts = [mount] \<and> own_mount storage device mount
      else filter (concerns storage device) mounts = [])"
  unfolding mounted_def
proof (induction mounts)
  case (Cons mount mounts)
  show ?case
  proof (cases "own_mount storage device mount")
    case True
    then show ?thesis using own_concerns [OF True] by (auto simp: mounted_loop_found)
  next
    case False
    with Cons show ?thesis by auto
  qed
qed auto

lemma has_filesystem_none: "has_filesystem signatures storage = Inr False \<longleftrightarrow> signatures = []"
  by (simp add: has_filesystem_def)

lemma lock_device_calls:
  "lock_device fuel w device calls = Some (r, calls') \<Longrightarrow>
     \<exists>n. calls' = calls @ replicate n (TryLock device) \<and> 0 < n \<and> (r = Inr () \<longrightarrow> sw_lock w calls' = Locked)"
proof (induction fuel arbitrary: calls)
  case (Suc fuel)
  show ?case
  proof (cases "sw_lock w (calls @ [TryLock device])")
    case Locked
    with Suc.prems show ?thesis by (auto intro: exI [of _ 1])
  next
    case (NotLocked would_block e)
    show ?thesis
    proof (cases "\<not> would_block \<or> sw_remaining w (calls @ [TryLock device]) = 0")
      case True
      with Suc.prems NotLocked show ?thesis by (auto intro: exI [of _ 1])
    next
      case False
      with Suc.prems NotLocked have "lock_device fuel w device (calls @ [TryLock device]) = Some (r, calls')" by auto
      from Suc.IH [OF this] obtain n where "calls' = (calls @ [TryLock device]) @ replicate n (TryLock device)" "r = Inr () \<longrightarrow> sw_lock w calls' = Locked"
        by blast
      then show ?thesis by (intro exI [of _ "Suc n"]) simp
    qed
  qed
qed simp

section \<open>What is formatted and mounted\<close>

text \<open>
  What was found of a device before it is formatted: it is locked, a writable disk of one piece, neither
  mounted nor in the way of a mount, without any signature, and nothing is at the place it is mounted to.
\<close>

definition device_known :: "storage_world \<Rightarrow> host_storage \<Rightarrow> path_text \<Rightarrow> string \<Rightarrow> bool" where
  "device_known w storage device number \<longleftrightarrow>
     sw_canonicalize w [] (st_device storage) = Inr device \<and>
     (\<exists>file. sw_open w [] device = Inr file \<and> device_number w file = Inr number)"

definition unused_device :: "storage_world \<Rightarrow> host_storage \<Rightarrow> path_text \<Rightarrow> storage_call list \<Rightarrow> bool" where
  "unused_device w storage device locks \<longleftrightarrow>
     (\<exists>number kind mounts.
        device_known w storage device number \<and> sw_lock w locks = Locked \<and> set locks = {TryLock device} \<and>
        sw_blocks w (locks @ [ListBlocks device]) = Inr [BlockDevice kind False []] \<and> kind \<in> {''disk'', ''loop''} \<and>
        sw_mounts w (locks @ [ListBlocks device, ListMounts (sw_process w)]) = Inr mounts \<and>
        filter (concerns storage number) mounts = [] \<and>
        (sw_exists w (locks @ [ListBlocks device, ListMounts (sw_process w)]) (st_mount_point storage) \<longrightarrow>
         sw_holds_entries w (locks @ [ListBlocks device, ListMounts (sw_process w)]) (st_mount_point storage) = Inr False) \<and>
        sw_signatures w (locks @ [ListBlocks device, ListMounts (sw_process w), ListSignatures device]) = Inr [])"

definition formats :: "storage_call list \<Rightarrow> bool" where
  "formats calls \<longleftrightarrow> (\<exists>fs device. MakeFilesystem fs device \<in> set calls)"

lemma formats_simps [simp]:
  "\<not> formats []" "formats (call # calls) \<longleftrightarrow> (\<exists>fs device. call = MakeFilesystem fs device) \<or> formats calls"
  "formats (a @ b) \<longleftrightarrow> formats a \<or> formats b" "\<not> formats (replicate n (TryLock device))"
  by (auto simp: formats_def)

lemma looks_Some [simp]: "looks f calls = Some (r, calls') \<longleftrightarrow> f calls = r \<and> calls' = calls"
  by (auto simp: looks_def)

lemma asks_Some [simp]: "asks f call calls = Some (r, calls') \<longleftrightarrow> f (calls @ [call]) = r \<and> calls' = calls @ [call]"
  by (auto simp: asks_def)

lemma make_filesystem_Some:
  "make_filesystem w storage device is_mounted present calls = Some (r, calls') \<Longrightarrow>
     if present \<or> is_mounted then calls' = calls else calls' = calls @ [MakeFilesystem (st_filesystem storage) device]"
  by (auto simp: make_filesystem_def split: if_splits)

lemma mount_point_empty_Inr:
  "mount_point_empty w storage False calls = Some (Inr (), calls') \<longleftrightarrow>
     calls' = calls \<and> (sw_exists w calls (st_mount_point storage) \<longrightarrow> sw_holds_entries w calls (st_mount_point storage) = Inr False)"
  by (auto simp: mount_point_empty_def split: sum.splits if_splits)

text \<open>An operation that formats or succeeds went past every step that does not format.\<close>

definition goes :: "string + 'a \<Rightarrow> storage_call list \<Rightarrow> bool" where
  "goes r calls \<longleftrightarrow> formats calls \<or> (\<exists>v. r = Inr v)"

lemma past_steps:
  assumes "goes r calls'" "\<not> formats calls"
  shows "and_next (looks f0) k0 calls = Some (r, calls') \<longleftrightarrow> (\<exists>x. f0 calls = Inr x \<and> k0 x calls = Some (r, calls'))"
    "and_next (gives g) k1 calls = Some (r, calls') \<longleftrightarrow> (\<exists>x. g = Inr x \<and> k1 x calls = Some (r, calls'))"
    "\<not> formats [call] \<Longrightarrow>
      and_next (asks f2 call) k2 calls = Some (r, calls') \<longleftrightarrow> (\<exists>x. f2 (calls @ [call]) = Inr x \<and> k2 x (calls @ [call]) = Some (r, calls'))"
    "and_next (no_symlinks w path) k3 calls = Some (r, calls') \<longleftrightarrow>
      no_symlinks_at (sw_metadata w calls) (ancestors path) = Inr () \<and> k3 () calls = Some (r, calls')"
    "and_next (mount_point_empty w storage is_mounted) k4 calls = Some (r, calls') \<longleftrightarrow>
      mount_point_empty w storage is_mounted calls = Some (Inr (), calls) \<and> k4 () calls = Some (r, calls')"
    "and_next (own_mounts w process) k5 calls = Some (r, calls') \<longleftrightarrow>
      (\<exists>mounts. sw_mounts w (calls @ [ListMounts process]) = Inr mounts \<and> k5 mounts (calls @ [ListMounts process]) = Some (r, calls'))"
  using assms by (auto simp: goes_def and_next_Some no_symlinks_def mount_point_empty_def own_mounts_def)

lemma past_lock:
  assumes "goes r calls" "and_next (lock_device fuel w device) k [] = Some (r, calls)"
  shows "\<exists>n. 0 < n \<and> sw_lock w (replicate n (TryLock device)) = Locked \<and> k () (replicate n (TryLock device)) = Some (r, calls)"
proof -
  from assms(2) consider (storage_refused) e where "lock_device fuel w device [] = Some (Inl e, calls)" "r = Inl e"
    | (locked) between where "lock_device fuel w device [] = Some (Inr (), between)" "k () between = Some (r, calls)"
    by (auto simp: and_next_Some)
  then show ?thesis
  proof cases
    case storage_refused
    with assms(1) lock_device_calls [OF storage_refused(1)] show ?thesis by (auto simp: goes_def)
  next
    case locked
    with lock_device_calls [OF locked(1)] show ?thesis by auto
  qed
qed

lemma prepare_device_goes:
  assumes "prepare_device fuel w storage [] = Some (r, calls)" "goes r calls"
  shows "\<exists>device number n. device_known w storage device number \<and> 0 < n \<and> sw_lock w (replicate n (TryLock device)) = Locked \<and>
      prepare_locked w storage device number (replicate n (TryLock device)) = Some (r, calls)"
  using assms(1) unfolding prepare_device_def device_known_def
  by (auto simp: past_steps [OF assms(2)] split: sum.splits dest!: past_lock [OF assms(2)])

lemma prepare_locked_goes:
  assumes "prepare_locked w storage device number locks = Some (r, calls)" "goes r calls" "\<not> formats locks"
  defines "seen \<equiv> locks @ [ListBlocks device, ListMounts (sw_process w)]"
  shows "\<exists>kind mounts is_mounted signatures present.
    sw_blocks w (locks @ [ListBlocks device]) = Inr [BlockDevice kind False []] \<and> kind \<in> {''disk'', ''loop''} \<and>
    sw_mounts w seen = Inr mounts \<and> mounted mounts storage number = Inr is_mounted \<and>
    mount_point_empty w storage is_mounted seen = Some (Inr (), seen) \<and>
    sw_signatures w (seen @ [ListSignatures device]) = Inr signatures \<and> has_filesystem signatures storage = Inr present \<and>
    and_next (make_filesystem w storage device is_mounted present) (\<lambda>_.
      and_next (asks (refusing \<circ> sw_done w) (MakeDirectory (st_mount_point storage))) (\<lambda>_.
      gives (Inr \<lparr>pr_path = device, pr_number = number, pr_mounted = is_mounted\<rparr>))) (seen @ [ListSignatures device]) = Some (r, calls)"
  using assms(1) unfolding prepare_locked_def seen_def
  by (simp add: past_steps [OF assms(2)] assms(3) check_layout_Inr) blast

lemma locks_known: "0 < n \<Longrightarrow> set (replicate n (TryLock device)) = {TryLock device}"
  by simp

lemma prepare_device_formats:
  assumes "prepare_device fuel w storage [] = Some (r, calls)" "formats calls"
  shows "\<exists>device locks after. calls = locks @ [ListBlocks device, ListMounts (sw_process w), ListSignatures device,
      MakeFilesystem (st_filesystem storage) device] @ after \<and> \<not> formats after \<and> \<not> formats locks \<and> unused_device w storage device locks"
proof -
  have goes: "goes r calls" using assms(2) by (simp add: goes_def)
  from prepare_device_goes [OF assms(1) goes] obtain device number n where
    device: "device_known w storage device number" "0 < n" "sw_lock w (replicate n (TryLock device)) = Locked" and
    locked: "prepare_locked w storage device number (replicate n (TryLock device)) = Some (r, calls)" by blast
  let ?locks = "replicate n (TryLock device)"
  let ?seen = "?locks @ [ListBlocks device, ListMounts (sw_process w)]"
  from prepare_locked_goes [OF locked goes] obtain kind mounts is_mounted signatures present where
    found: "sw_blocks w (?locks @ [ListBlocks device]) = Inr [BlockDevice kind False []]" "kind \<in> {''disk'', ''loop''}"
      "sw_mounts w ?seen = Inr mounts" "mounted mounts storage number = Inr is_mounted"
      "mount_point_empty w storage is_mounted ?seen = Some (Inr (), ?seen)"
      "sw_signatures w (?seen @ [ListSignatures device]) = Inr signatures" "has_filesystem signatures storage = Inr present" and
    rest: "and_next (make_filesystem w storage device is_mounted present) (\<lambda>_.
      and_next (asks (refusing \<circ> sw_done w) (MakeDirectory (st_mount_point storage))) (\<lambda>_.
      gives (Inr \<lparr>pr_path = device, pr_number = number, pr_mounted = is_mounted\<rparr>))) (?seen @ [ListSignatures device]) = Some (r, calls)"
    by auto
  have made: "\<not> present" "\<not> is_mounted"
    using rest assms(2) by (auto simp: make_filesystem_def and_next_Some split: if_splits)
  with found have "unused_device w storage device ?locks"
    unfolding unused_device_def using device locks_known [OF device(2)]
    by (auto simp: mounted_Inr has_filesystem_none mount_point_empty_Inr)
  moreover from rest made obtain after where "calls = ?locks @ [ListBlocks device, ListMounts (sw_process w), ListSignatures device,
      MakeFilesystem (st_filesystem storage) device] @ after" "\<not> formats after"
    by (auto simp: make_filesystem_def and_next_Some)
  moreover have "\<not> formats ?locks" by simp
  ultimately show ?thesis by metis
qed

text \<open>Mounting adds calls that do not format.\<close>

lemma ensure_mounted_calls:
  assumes "dc_host_storage config = Some storage" "ensure_mounted fuel w config [] = Some (r, calls)"
  shows "\<exists>r' before after. prepare_device fuel w storage [] = Some (r', before) \<and> calls = before @ after \<and> \<not> formats after"
  using assms by (auto simp: ensure_mounted_def and_next_Some own_mounts_def split: if_splits)

text \<open>(C33) Neither preparing nor mounting the storage formats a device but once, with the file system that is
  configured, and only one that is locked, a writable disk of one piece without partitions, that is mounted nowhere
  and has no signature, while nothing is mounted at or beneath the mount point, which is missing or empty.\<close>

theorem only_unused_devices_are_formatted:
  assumes "dc_host_storage config = Some storage" "op = prepare fuel w config \<or> op = ensure_mounted fuel w config"
    and "op [] = Some (r, calls)" "MakeFilesystem fs device \<in> set calls"
  shows "\<exists>locks after. calls = locks @ [ListBlocks device, ListMounts (sw_process w), ListSignatures device, MakeFilesystem fs device] @ after \<and>
    \<not> formats locks \<and> \<not> formats after \<and> fs = st_filesystem storage \<and> unused_device w storage device locks"
proof -
  have "\<exists>r' before after. prepare_device fuel w storage [] = Some (r', before) \<and> calls = before @ after \<and> \<not> formats after"
    using assms(2,3) ensure_mounted_calls [OF assms(1), of fuel w r calls] assms(1)
    by (auto simp: prepare_def and_next_Some)
  then obtain r' before after where prepared: "prepare_device fuel w storage [] = Some (r', before)" "calls = before @ after" "\<not> formats after"
    by blast
  then have "formats before" using assms(4) by (auto simp: formats_def)
  from prepare_device_formats [OF prepared(1) this] obtain d locks later where
    before: "before = locks @ [ListBlocks d, ListMounts (sw_process w), ListSignatures d, MakeFilesystem (st_filesystem storage) d] @ later"
      "\<not> formats later" "\<not> formats locks" "unused_device w storage d locks" by blast
  then have "fs = st_filesystem storage" "device = d" using assms(4) prepared(2,3) by (auto simp: formats_def)
  with before prepared(2,3) show ?thesis by (intro exI [of _ locks] exI [of _ "later @ after"]) simp
qed

text \<open>(C34) When the storage is mounted, the last look at the mounts shows the configured device, with the
  configured file system and writable, at the mount point, and no other mount of that device or at or
  beneath that place.\<close>

theorem mounted_storage_is_its_own:
  assumes "dc_host_storage config = Some storage" "ensure_mounted fuel w config [] = Some (Inr (), calls)"
  shows "\<exists>device number mounts mount. device_known w storage device number \<and> List.last calls = ListMounts (sw_process w) \<and>
    sw_mounts w calls = Inr mounts \<and> filter (concerns storage number) mounts = [mount] \<and> own_mount storage number mount"
proof -
  from assms obtain prepared before mounts where
    prepared: "prepare_device fuel w storage [] = Some (Inr prepared, before)" and
    mounts: "sw_mounts w calls = Inr mounts" "mounted mounts storage (pr_number prepared) = Inr True" "List.last calls = ListMounts (sw_process w)"
    by (auto simp: ensure_mounted_def and_next_Some own_mounts_def split: if_splits)
  have goes: "goes (Inr prepared) before" by (simp add: goes_def)
  from prepare_device_goes [OF prepared goes] obtain device number n where
    device: "device_known w storage device number" and
    locked: "prepare_locked w storage device number (replicate n (TryLock device)) = Some (Inr prepared, before)" by blast
  from prepare_locked_goes [OF locked goes] have "pr_number prepared = number" by (auto simp: and_next_Some)
  with device mounts show ?thesis by (auto simp: mounted_Inr)
qed

section \<open>Waiting for the lock ends\<close>

text \<open>After a pause the deadline is nearer by the pause, and it was ten seconds away at first.\<close>

definition lock_clock :: "storage_world \<Rightarrow> bool" where
  "lock_clock w \<longleftrightarrow>
     (\<forall>calls device. sw_remaining w (calls @ [TryLock device]) \<le> DEVICE_LOCK_TIMEOUT \<and>
        sw_remaining w (calls @ [TryLock device, TryLock device]) \<le>
          sw_remaining w (calls @ [TryLock device]) - min DEVICE_LOCK_RETRY (sw_remaining w (calls @ [TryLock device])))"

lemma lock_device_ends:
  assumes "lock_clock w"
  shows "sw_remaining w (calls @ [TryLock device]) \<le> DEVICE_LOCK_RETRY * n \<Longrightarrow> \<exists>result. lock_device (Suc n) w device calls = Some result"
proof (induction n arbitrary: calls)
  case 0
  then show ?case by (auto simp: Let_def split: lock_answer.splits)
next
  case (Suc n)
  have "sw_remaining w ((calls @ [TryLock device]) @ [TryLock device]) \<le> DEVICE_LOCK_RETRY * n"
    using assms Suc.prems unfolding lock_clock_def by (auto simp: min_def DEVICE_LOCK_RETRY_def split: if_splits dest!: spec [of _ calls] spec [of _ device])
  from Suc.IH [OF this] show ?case by (auto simp: Let_def split: lock_answer.splits)
qed

lemma and_next_total: "\<exists>result. m calls = Some result \<Longrightarrow> (\<And>x calls. \<exists>result. k x calls = Some result) \<Longrightarrow> \<exists>result. and_next m k calls = Some result"
  by (auto simp: and_next_def split: sum.splits prod.splits)

lemma steps_total: "\<exists>result. gives g calls = Some result" "\<exists>result. looks f calls = Some result" "\<exists>result. asks h call calls = Some result"
  by (simp_all add: gives_def looks_def asks_def)

lemma lock_total:
  assumes "lock_clock w" "401 \<le> fuel"
  shows "\<exists>result. lock_device fuel w device calls = Some result"
proof -
  obtain n where n: "fuel = Suc n" "400 \<le> n" using assms(2) by (cases fuel) auto
  have "sw_remaining w (calls @ [TryLock device]) \<le> DEVICE_LOCK_TIMEOUT" using assms(1) by (simp add: lock_clock_def)
  also have "\<dots> \<le> DEVICE_LOCK_RETRY * n" using n(2) by (simp add: DEVICE_LOCK_TIMEOUT_def DEVICE_LOCK_RETRY_def)
  finally show ?thesis unfolding n(1) by (rule lock_device_ends [OF assms(1)])
qed

lemma step_total_if: "\<exists>result. m calls = Some result \<Longrightarrow> \<exists>result. m' calls = Some result \<Longrightarrow> \<exists>result. (if b then m else m') calls = Some result"
  by simp

lemma prepare_device_total:
  assumes "lock_clock w" "401 \<le> fuel"
  shows "\<exists>result. prepare_device fuel w storage calls = Some result"
  unfolding prepare_device_def prepare_locked_def no_symlinks_def own_mounts_def mount_point_empty_def make_filesystem_def
  by (intro and_next_total steps_total step_total_if lock_total assms)


section \<open>Unit names tell paths apart\<close>

definition unit_word :: "bool \<Rightarrow> char \<Rightarrow> string" where
  "unit_word first c =
     (if c = CHR ''/'' then ''-''
      else if unit_char c \<and> (c \<noteq> CHR ''.'' \<or> \<not> first) then [c]
      else [CHR 0x5C, CHR ''x''] @ hex_octet (byte_value c))"

fun unit_words :: "bool \<Rightarrow> string \<Rightarrow> string" where
  "unit_words first [] = []"
| "unit_words first (c # cs) = unit_word first c @ unit_words False cs"

lemma unit_name_words: "unit_name name cs = name @ unit_words (name = []) cs"
proof (induction name cs rule: unit_name.induct)
  case (2 name c cs)
  have "unit_word (name = []) c \<noteq> []" by (simp add: unit_word_def)
  with 2 show ?case by (simp add: unit_word_def)
qed simp

text \<open>No word begins another, so that a name has one path only.\<close>

lemma unit_char_others: "\<not> unit_char (CHR ''-'')" "\<not> unit_char (CHR 0x5C)"
  by code_simp+

lemma unit_word_cases:
  obtains (slash) "c = CHR ''/''" "unit_word first c = ''-''"
  | (itself) "unit_word first c = [c]" "c \<noteq> CHR ''-''" "c \<noteq> CHR 0x5C"
  | (escaped) "unit_word first c = CHR 0x5C # CHR ''x'' # hex_octet (byte_value c)"
  using unit_char_others by (cases "c = CHR ''/''"; cases "unit_char c \<and> (c \<noteq> CHR ''.'' \<or> \<not> first)") (auto simp: unit_word_def)

lemma byte_value_inject: "byte_value a = byte_value b \<longleftrightarrow> a = b"
  by (metis char_of_char)

lemma unit_word_prefix:
  assumes "unit_word first a @ x = unit_word first b @ y"
  shows "a = b \<and> x = y"
proof (cases rule: unit_word_cases [of a first])
  case slash
  then show ?thesis using assms by (cases rule: unit_word_cases [of b first]) auto
next
  case itself
  then show ?thesis using assms by (cases rule: unit_word_cases [of b first]) auto
next
  case escaped
  then show ?thesis
  proof (cases rule: unit_word_cases [of b first])
    case escaped
    with \<open>unit_word first a = _\<close> assms have "hex_octet (byte_value a) @ x = hex_octet (byte_value b) @ y" by simp
    then have "hex_octet (byte_value a) = hex_octet (byte_value b)" "x = y" by (simp_all add: append_eq_append_conv)
    then show ?thesis using hex_octet_inject [of "byte_value a" "byte_value b"] byte_value_inject by simp
  qed (use assms in auto)
qed

lemma unit_words_inject: "unit_words first a = unit_words first b \<Longrightarrow> a = b"
proof (induction first a arbitrary: b rule: unit_words.induct)
  case (1 first)
  then show ?case by (cases b) (auto simp: unit_word_def split: if_splits)
next
  case (2 first c cs)
  then obtain d ds where b: "b = d # ds" by (cases b) (auto simp: unit_word_def split: if_splits)
  with "2.prems" unit_word_prefix [of first c "unit_words False cs" d "unit_words False ds"] "2.IH" [of ds] show ?case by simp
qed

text \<open>The units of two absolute paths with the same suffix have different names.\<close>

lemma unit_names_tell_paths_apart:
  assumes "starts_with ''/'' a" "starts_with ''/'' b" "path_unit a suffix = path_unit b suffix"
  shows "a = b"
proof -
  have "drop 1 a = drop 1 b" using assms(3) unit_words_inject [of True "drop 1 a" "drop 1 b"] by (simp add: path_unit_def unit_name_words)
  moreover have "a = ''/'' @ drop 1 a" "b = ''/'' @ drop 1 b" using assms(1,2) by (cases a; cases b; simp add: starts_with_def)+
  ultimately show ?thesis by metis
qed

section \<open>Witnesses\<close>

definition disk_sample :: host_storage where
  "disk_sample = \<lparr>st_device = ''/dev/sdb'', st_mount_point = ''/data'', st_filesystem = Xfs\<rparr>"

definition disk_mount :: mount_entry where
  "disk_mount = \<lparr>mt_device = ''8:16'', mt_target = ''/data'', mt_fstype = ''xfs'', mt_options = ''rw,nodev'', mt_fsroot = ''/''\<rparr>"

text \<open>A host with an empty disk, mounted once it was asked to be, whose lock is given at the second try.\<close>

definition disk_host :: storage_world where
  "disk_host =
     \<lparr>sw_metadata = (\<lambda>calls path. if path = ''/'' then PathDirectory else PathMissing),
      sw_canonicalize = (\<lambda>calls path. Inr path), sw_open = (\<lambda>calls path. Inr (Inr (Some (8, 16)))),
      sw_lock = (\<lambda>calls. if length calls < 2 then NotLocked True ''EAGAIN'' else Locked),
      sw_remaining = (\<lambda>calls. 10000 - 25 * length calls),
      sw_blocks = (\<lambda>calls. Inr [BlockDevice ''disk'' False []]),
      sw_mounts = (\<lambda>calls. Inr (if MountDevice Xfs ''/dev/sdb'' ''/data'' \<in> set calls then [disk_mount] else [])),
      sw_signatures = (\<lambda>calls. Inr []), sw_exists = (\<lambda>calls path. False), sw_holds_entries = (\<lambda>calls path. Inr False),
      sw_done = (\<lambda>calls. Inr ()), sw_process = 7,
      sw_number_text = (\<lambda>n. if n = 8 then ''8'' else ''16'')\<rparr>"

definition disk_config :: daemon_config where
  "disk_config = example\<lparr>dc_host_storage := Some disk_sample\<rparr>"

lemma disk_storage: "dc_host_storage disk_config = Some disk_sample"
  by (simp add: disk_config_def)

lemma disk_mounts:
  "ensure_mounted 401 disk_host disk_config [] =
     Some (Inr (), [TryLock ''/dev/sdb'', TryLock ''/dev/sdb'', ListBlocks ''/dev/sdb'', ListMounts 7, ListSignatures ''/dev/sdb'',
       MakeFilesystem Xfs ''/dev/sdb'', MakeDirectory ''/data'', MountDevice Xfs ''/dev/sdb'' ''/data'', ListMounts 7])"
  unfolding ensure_mounted_def disk_storage
  by code_simp

theorem only_unused_devices_are_formatted_witness:
  "\<exists>locks. unused_device disk_host disk_sample ''/dev/sdb'' locks"
proof -
  let ?op = "ensure_mounted 401 disk_host disk_config"
  have "?op = prepare 401 disk_host disk_config \<or> ?op = ensure_mounted 401 disk_host disk_config" by simp
  from only_unused_devices_are_formatted [OF disk_storage this disk_mounts, of Xfs "''/dev/sdb''"] show ?thesis by auto
qed

theorem mounted_storage_is_its_own_witness:
  "\<exists>device number mount. device_known disk_host disk_sample device number \<and> own_mount disk_sample number mount"
  using mounted_storage_is_its_own [OF disk_storage disk_mounts] by blast


end
