(* ===== verification/Spec2Isabelle.thy ===== *)
theory Spec2Isabelle
  imports Converge Idle Activator Router Logs Firewall InstanceEnv CronJobs CronRuns Restarts MicroVm OciImage StorageDevice
begin

text \<open>
  nibrunner is a daemon that runs apps in Firecracker microVMs on one host. A control plane writes
  a document naming the apps, volumes, checkpoints and exports it wants; the daemon accepts it,
  compares it with what it observes, and brings the host there in passes. Beside the passes, a
  status loop probes the guests, an activity loop meters them and lets quiet ones sleep, and the
  proxy wakes an app for a request that finds it asleep. This development models the daemon's own
  decisions and the handlers that carry them out, from the sources under
  \<^verbatim>\<open>src/crates\<close>.

  \<^bold>\<open>How the code is represented.\<close>
  \<^item> A Rust string is the list of its bytes. A \<^verbatim>\<open>BTreeMap\<close> is a sorted association list
    (\<open>btree\<close>); its laws are the locale \<open>ordered_map\<close>, interpreted on \<open>bt_insert\<close> and
    \<open>bt_remove\<close>. A struct is a record, an enum a datatype, a fallible constructor returns a sum
    whose left side is the error text. Integers are \<^typ>\<open>nat\<close> or \<^typ>\<open>int\<close> with the casts, saturations
    and bounds of the source written out (\<open>as_i64\<close>, \<open>u16_max\<close>); a panic is a \<^term>\<open>None\<close>.
    Floating point is a parameter (\<open>f64_unit\<close>) with the documented laws of exact small results as
    a named hypothesis.
  \<^item> A handler is a state transformer (\<open>act\<close>, over the library's state monad) on a \<open>host\<close>: the
    snapshot of \<^verbatim>\<open>state.rs\<close>, the slot allocator, the accepted document, the cron runs under way,
    and the trace of the calls made so far.
  \<^item> Everything behind the ports of \<^verbatim>\<open>ports.rs\<close> (Firecracker, the volume backend, nftables, the
    registry, the clock) is a \<open>world\<close>: one arbitrary function per call, of the trace so far and the
    arguments. A theorem over all worlds covers every failure and every answer that changes between
    two calls. Theorems about order speak of the trace.
  \<^item> What the other tasks do to the snapshot while a handler sleeps is the world's
    \<open>w_meanwhile\<close>; no step of the waiting loops assumes that the host stands still.

  \<^bold>\<open>Which theory models what.\<close>
  \<^descr>[Prelude] bytes, decimal numbers, sorted maps, the handler monad, and the locale \<open>frame\<close>: a
    preorder on states that primitive steps respect and every composition of handlers keeps. Each
    interpretation of it (\<open>base\<close>, \<open>keep\<close>, \<open>explain\<close>, \<open>sound\<close>, \<open>aside\<close>, \<open>only\<close>, \<open>asks\<close>,
    \<open>quiet\<close>, \<open>still\<close>, \<open>grow\<close>) gives one invariant or one kind of silence of the handlers, carried by the
    collection \<open>frame_rules\<close>.
  \<^descr>[Wire, Domain] \<^verbatim>\<open>protocol/src/{wire,domain,control,access}.rs\<close>: validators, constructors and the
    desired document with its validation. Shown: ports, guest paths and tenant values that are
    accepted are safe; what the address check takes.
  \<^descr>[Backoff, Health, Slots, Records, Meters, Plan] the pure files of \<^verbatim>\<open>nibrunnerd/src/domain\<close>, with
    \<^verbatim>\<open>nft-render/src/slot.rs\<close> and \<^verbatim>\<open>adapters/net/allocator.rs\<close>. Shown: delays and attempt
    counting; what a reported state says of a guest and its probes; slots that are handed out are
    free and share nothing; when an app may sleep; metering without loss or double count; a plan
    for each app, no stop or deletion that was not asked for, and convergence in two passes.
  \<^descr>[HostState, World] \<^verbatim>\<open>state.rs\<close>, \<^verbatim>\<open>domain/metrics/converge.rs\<close>, \<^verbatim>\<open>ports.rs\<close>,
    \<^verbatim>\<open>reconcile/{network,ingress}.rs\<close>: the shared state, the calls, what the firewall forwards.
  \<^descr>[Instances, InstanceProps] \<^verbatim>\<open>reconcile/instances.rs\<close>: starting, stopping, suspending, resuming,
    the status loop. Shown: what a boot presupposes, the order of a suspension, that the status
    loop never writes over a newer start.
  \<^descr>[Storage] \<^verbatim>\<open>reconcile/{volumes,checkpoints,exports}.rs\<close>. Shown: how an export treats its
    checkpoint; two behaviours a reader would not expect of teardown and of reaping.
  \<^descr>[Reconcile, Admission] \<^verbatim>\<open>reconcile/mod.rs\<close>: the pass. Shown: memory is never overcommitted by a
    wave of starts, and no guest boots before the isolation ruleset is in force.
  \<^descr>[Idle, Waker, Converge] \<^verbatim>\<open>reconcile/idle.rs\<close>, \<^verbatim>\<open>domain/waker.rs\<close>, \<^verbatim>\<open>desired.rs\<close>,
    \<^verbatim>\<open>controllers/converge_controller.rs\<close>, \<^verbatim>\<open>host.rs\<close>. Shown: a sleep is due, bounded and backed
    off; a wake is admitted, shared by its callers, and ends; the asks follow the document.
  \<^descr>[Frames, Logs] \<^verbatim>\<open>guest-contract/src/{cron_execution,cron_registration,logs}.rs\<close> and
    \<^verbatim>\<open>adapters/logs/receiver.rs\<close>: the byte frames between host and guest, over the locale \<open>framed\<close>, and
    the pump of a log connection. Shown: requests round trip; however a connection is cut into reads,
    no output is lost.
  \<^descr>[Firewall] \<^verbatim>\<open>nft-render/src/{firewall,tables}.rs\<close>, \<^verbatim>\<open>adapters/net/firewall.rs\<close>: the rules, their
    text and the firewall that loads it. The locale \<open>nft_kernel\<close> says what is relied on of \<^verbatim>\<open>nft\<close>.
    Shown: guests are isolated, and a ruleset said to be applied is in force.
  \<^descr>[InstanceEnv] \<^verbatim>\<open>guest-contract/src/instance_env.rs\<close>: the configuration file of a guest. Shown: the
    guest reads what the host rendered.
  \<^descr>[CronSchedule, Crontab, CronJobs, CronRuns] \<^verbatim>\<open>domain/cron\<close>, \<^verbatim>\<open>protocol/src/cron.rs\<close> and
    \<^verbatim>\<open>controllers/cron_controller.rs\<close>: schedules and crontabs, the registry, the scheduler and the runs
    under way. The calendar and the time zones are parameters (\<open>chrono\<close>, \<open>time_zone\<close>). Shown: the
    next run is the first occurrence, accepted crontabs can be run, the registry is a table (over the
    locale \<open>stored_change\<close>), no occurrence runs twice, and runs of two deployments never overlap.
  \<^descr>[Forwarder, Supervisor, Restarts] \<^verbatim>\<open>init/src/guest/{logs,supervisor}.rs\<close>, \<^verbatim>\<open>init/src/{supervise,ceiling}.rs\<close> and
    \<^verbatim>\<open>domain/restarts.rs\<close>: what runs in a guest beside the tenant, and the restarts on the record. Signals,
    pipes, clocks and connections are inputs, one per turn of a loop. Shown: losses of output are
    declared, a tenant that falls over is given up, and a restart is counted once or in a gap.
  \<^descr>[Text, Access, Concurrency, HttpLog, Forward, Router] \<^verbatim>\<open>adapters/proxy/{jwt,jwks,concurrency,http_log,forward,router}.rs\<close>:
    who may reach a protected app, how many requests are carried at once, the log of requests, what an
    app is sent, and a request from its arrival to its answer. Sockets, the HTTP library and the
    cryptography are parameters (\<open>jwt_library\<close>, \<open>upstream_world\<close>); flags shared between threads are an
    explicit store. Shown: a request goes out to the app whose hostname it names and with a valid token
    only, keys are fresh, limits hold, and nothing asked of an app outlives it in the log.
  \<^descr>[Activator] \<^verbatim>\<open>adapters/proxy/{activator,stream_activator,datagram_activator}.rs\<close>: the ways into an app that
    sleeps, over the locale \<open>waker\<close>, interpreted on the wake of Waker. Shown: traffic brings up admitted
    guests only, a request is handed to a guest that is up, and datagram sessions never end.
  \<^descr>[Snapshots, MicroVm] \<^verbatim>\<open>adapters/vm/{snapshot,manager,process}.rs\<close>: what a sleeping guest leaves on the disk, and
    booting, sleeping, waking, stopping and discarding a microVM as programs of effects, calls and looks
    (\<open>vm_program\<close>), between whose steps the guest may run or exit, the daemon may die and the host may reboot
    (\<open>vm_step\<close>). Shown, with facts that nothing beside the daemon can undo (\<open>vm_fact\<close>, \<open>keeps_sound\<close>): a guest
    is never taken back in time, what sleeps wakes, snapshots under way fit the disk together, and a guest whose
    record was not written is out of reach.
  \<^descr>[Configuration] \<^verbatim>\<open>nibrunnerd/src/config.rs\<close>: the file, its rules, reading and writing it. Shown: exactly the
    configurations that follow the rules are accepted, each reads back as it was, and the ports of the
    daemon are never those of an app.
  \<^descr>[StorageDevice] \<^verbatim>\<open>nibrunnerd/src/install/storage.rs\<close>: locking, inspecting, formatting and mounting the disk
    of the daemon, over what the commands answer after the calls made so far. Shown: only an unused device is
    formatted, what is mounted is the device that is configured and nothing else, and waiting for the lock ends.
  \<^descr>[ImageTree, OciImage] \<^verbatim>\<open>oci-image/src/{filesystem,lib}.rs\<close>: flattening an OCI image, from its archive over the
    indexes, the manifest and the layers to the tree they make and the archive it is written to. Two nodes share
    their content when they have the same identity, as the reference counts of the code do. Shown: what comes
    out was checked against every digest and keeps the limits, names stay inside the image, and the archive
    reads back as the tree.
  \<^descr>[Spec2Isabelle] the steps above as one relation \<open>host_step\<close> from what the store holds, its
    reachable states, and what holds in all of them.

  \<^bold>\<open>Bounds and fuel.\<close> The two waiting loops of the waker and the lock of the storage device are the
  only loops that no data structure bounds. The loops of the waker take fuel, one unit per probe, and answer \<^term>\<open>None\<close> without it. Their pauses
  last at least five milliseconds of a monotonic clock and the deadline is the grace period of the
  app's health check, so one unit more than its milliseconds is enough; the theorem that a wake ends
  says so under these two laws of the clock (\<open>clock_advances\<close>). The lock takes one unit per try; 401 tries at
  25 milliseconds fill its ten seconds (\<open>lock_clock\<close>).

  \<^bold>\<open>What is simplified.\<close> Tasks interleave at handler boundaries and inside the waking loops, not
  inside every other handler; work the code runs side by side (prefetches, the stops of a pass) is
  run one after the other. Log lines, spans and counters are left out, as is the serde and schema
  plumbing.

  \<^bold>\<open>What is not modelled.\<close> Adapters that only do I/O, the store's SQL, the command line and the
  rest of the installation, the proxy's TLS and its sockets, the volume adapter, which runs ZeroFS and NBD processes, the
  serving of metrics pages, and the test tenant; nor the interleaving of the controllers inside handlers.
\<close>

section \<open>Everything a host does\<close>

text \<open>What the other tasks do while one waits keeps the records as the handlers keep them.\<close>

definition meanwhile_sound :: "world \<Rightarrow> bool" where
  "meanwhile_sound w \<longleftrightarrow>
     (\<forall>t p. records_wf (hs_records p) \<longrightarrow> records_wf (hs_records (w_meanwhile w t p))) \<and>
     (\<forall>t p. (\<forall>a r. map_of (hs_records p) a = Some r \<longrightarrow> record_explained r) \<longrightarrow>
        (\<forall>a r. map_of (hs_records (w_meanwhile w t p)) a = Some r \<longrightarrow> record_explained r))"

lemma sound_pause:
  assumes "meanwhile_sound w"
  shows "sound.keeps (pause w)"
proof -
  have "sound.keeps (change (w_meanwhile w t))" for t
    using assms by (intro sound_records) (auto simp: meanwhile_sound_def)
  then show ?thesis unfolding pause_def by (intro sound.keeps_bind sound_leaves)
qed

lemma sound_answers [frame_rules]: "sound.keeps (answers w r)"
  unfolding answers_def by (intro frame_rules)

lemma sound_wake_loops:
  assumes "meanwhile_sound w"
  shows "sound.keeps (ready_loop fuel w r deadline)" "sound.keeps (hold_loop fuel w a grace arrived)"
  by (induction fuel) (simp_all, (intro frame_rules sound_pause assms; assumption?)+)

lemma sound_wake_reads [frame_rules]:
  "sound.keeps (desired_for a)" "sound.keeps (refusal_for_room config a res)"
  unfolding desired_for_def refusal_for_room_def by (intro frame_rules)+

lemma sound_wake_refusal [frame_rules]:
  "(\<And>n. e = NoRoom n \<Longrightarrow> sound.keeps (f n)) \<Longrightarrow> (\<And>k m. e = WakeFailed k m \<Longrightarrow> sound.keeps (g k m)) \<Longrightarrow>
     sound.keeps (case e of NoRoom n \<Rightarrow> f n | WakeFailed k m \<Rightarrow> g k m)"
  by (cases e) auto

lemma sound_wake_boot:
  assumes "meanwhile_sound w"
  shows "sound.keeps (wake_boot fuel w config a)"
  unfolding wake_boot_def hold_def await_ready_def
  by (intro frame_rules sound_wake_loops assms) (simp_all add: record_explained_def)

lemma sound_cron [frame_rules]: "sound.keeps (cron_activity a)" "sound.keeps (cron_activity_drop a)"
  by (rule sound.keepsI, simp add: cron_activity_def cron_activity_drop_def sound_host_def host_wf_def explained_def
      split: option.splits)+

lemma sound_taps [frame_rules]: "sound.keeps (reclaim_stranded_taps w)"
  unfolding reclaim_stranded_taps_def the_slots_def by (intro frame_rules)

definition started :: "nat \<Rightarrow> host" where
  "started max_apps = \<lparr>h_snapshot = default_snapshot, h_alloc = addressing max_apps, h_document = None,
     h_cron_runs = [], h_trace = []\<rparr>"

text \<open>What the store may hold: slots no two apps share, and failed instances that say why.\<close>

definition stored_ok :: "stored_host \<Rightarrow> bool" where
  "stored_ok st \<longleftrightarrow> bt_wf (st_assignments st) \<and> distinct (bt_values (st_assignments st)) \<and>
     (\<forall>r \<in> set (st_records st). record_explained r)"

inductive host_step :: "world \<Rightarrow> host_config \<Rightarrow> host \<Rightarrow> host \<Rightarrow> bool" for w config where
  reads: "host_step w config s (final (converge_once w config read) s)"
| resumes: "host_step w config s (final (converge_accepted w config accepted) s)"
| ticks: "host_step w config s (final (converge_on_tick w config) s)"
| refreshes: "host_step w config s (final (refresh w config) s)"
| measures: "host_step w config s (final (record_activity w) s)"
| sleeps: "host_step w config s (final (apply_sleep w config) s)"
| wakes: "host_step w config s (final (wake_boot fuel w config a) s)"
| cron_begins: "host_step w config s (final (cron_activity a) s)"
| cron_ends: "host_step w config s (final (cron_activity_drop a) s)"
| reclaims: "host_step w config s (final (reclaim_stranded_taps w) s)"

inductive host_reachable :: "world \<Rightarrow> host_config \<Rightarrow> nat \<Rightarrow> host \<Rightarrow> bool" for w config max_apps where
  loads: "config_apps max_apps = Inr max_apps \<Longrightarrow> stored_ok st \<Longrightarrow>
     host_reachable w config max_apps (final (load st) (started max_apps))"
| steps: "host_reachable w config max_apps s \<Longrightarrow> host_step w config s t \<Longrightarrow> host_reachable w config max_apps t"

inductive_cases host_stepE: "host_step w config s t"

lemma step_sound:
  assumes "host_step w config s t" "meanwhile_sound w" "sound_host s"
  shows "sound_host t"
  using assms(1,3)
  by (elim host_stepE)
     (auto intro: sound.keepsD [rule_format] intro!: frame_rules sound_wake_boot assms(2))

lemma reachable_sound:
  assumes "host_reachable w config max_apps s" "meanwhile_sound w"
  shows "sound_host s"
  using assms(1)
proof (induction rule: host_reachable.induct)
  case (loads st)
  then show ?case
    by (intro load_sound) (simp_all add: started_def stored_ok_def alloc_wf_addressing)
next
  case (steps s t)
  then show ?case by (blast intro: step_sound assms(2))
qed

text \<open>
  (C39) Whatever happens to a host, in any order and whatever everything outside it answers, its
  state holds together: every record is the one of the app it is filed under, a failed instance
  says why, and no two apps hold the same slot.
\<close>

theorem passes_keep_the_host_sound:
  assumes "host_reachable w config max_apps s" and "meanwhile_sound w"
  shows "(\<forall>a r. map_of (hs_records (h_snapshot s)) a = Some r \<longrightarrow>
            ir_app_id r = a \<and> (ir_state r = IsFailed \<longrightarrow> ir_message r \<noteq> None)) \<and>
         (\<forall>a b slot. map_of (sa_assignments (h_alloc s)) a = Some slot \<and>
            map_of (sa_assignments (h_alloc s)) b = Some slot \<longrightarrow> a = b)"
  using reachable_sound [OF assms] alloc_wf_injective
  by (auto simp: sound_host_def host_wf_def records_wf_def explained_def record_explained_def)

definition kept_store :: stored_host where
  "kept_store = \<lparr>st_records = [sample_record\<lparr>ir_state := IsFailed, ir_message := Some ''no room''\<rparr>],
     st_last_active = [], st_meters = [], st_deleted_volumes = [],
     st_assignments = [(''app-a'', 0), (''app-b'', 1)], st_cursor = 2, st_accepted = None\<rparr>"

text \<open>A host that starts with a failed app and then has a cron command begin in it.\<close>

theorem passes_keep_the_host_sound_witness:
  "\<exists>s r. host_reachable calm_world sample_host_config 8 s \<and> h_cron_runs s = [(''app-a'', 1)] \<and>
     map_of (hs_records (h_snapshot s)) ''app-a'' = Some r \<and> ir_app_id r = ''app-a'' \<and>
     ir_state r = IsFailed \<and> ir_message r \<noteq> None"
proof -
  let ?s = "final (load kept_store) (started 8)" and ?t = "final (cron_activity ''app-a'') (final (load kept_store) (started 8))"
  have "host_reachable calm_world sample_host_config 8 ?s"
    by (rule loads) (simp_all add: config_apps_Inr most_apps_value stored_ok_def kept_store_def bt_values_def
        record_explained_def bt_wf_def less_char_def)
  from steps [OF this cron_begins] have reach: "host_reachable calm_world sample_host_config 8 ?t" .
  have "meanwhile_sound calm_world" by (simp add: meanwhile_sound_def calm_world_def)
  note sound = passes_keep_the_host_sound [OF reach this]
  obtain r where r: "map_of (hs_records (h_snapshot ?t)) ''app-a'' = Some r" "ir_state r = IsFailed"
    by (simp add: load_def cron_activity_def kept_store_def loaded_records_def run_simps map_of_bt_collect)
  have "h_cron_runs ?t = [(''app-a'', 1)]"
    by (simp add: load_def cron_activity_def kept_store_def started_def run_simps)
  with reach r sound show ?thesis by blast
qed

section \<open>Who a port leads to\<close>

lemma forwarded_slot:
  assumes "f \<in> set (forwarded_from p alloc)"
  obtains x slot where "map_of (sa_assignments alloc) (fi_app_id f) = Some x"
    "describe_slot x (fi_app_id f) = Some slot" "fi_host_ipv4 f = sl_host_ipv4 slot"
    "fi_guest_ipv4 f = sl_guest_ipv4 slot" "fp_host_port (hd (fi_ports f)) = sl_host_port slot"
    "\<not> fp_raw (hd (fi_ports f))"
  using assms by (auto simp: forwarded_cases lookup_def bind_eq_Some_conv)

text \<open>
  A request never reaches the wrong app. On a well-formed host, which every reachable one is,
  the firewall forwards to each app at most once, and two apps it forwards to have different HTTP
  ports on the host and no address in common.
\<close>

lemma forwarded_ports_lead_to_one_app:
  assumes "host_wf s" and "f \<in> set (forwarded_from (h_snapshot s) (h_alloc s))"
    and "g \<in> set (forwarded_from (h_snapshot s) (h_alloc s))" and "fi_app_id f \<noteq> fi_app_id g"
  shows "fp_host_port (hd (fi_ports f)) \<noteq> fp_host_port (hd (fi_ports g)) \<and>
         {fi_host_ipv4 f, fi_guest_ipv4 f} \<inter> {fi_host_ipv4 g, fi_guest_ipv4 g} = {} \<and>
         distinct (map fi_app_id (forwarded_from (h_snapshot s) (h_alloc s)))"
proof -
  have wf: "alloc_wf (h_alloc s)" and records: "records_wf (hs_records (h_snapshot s))"
    using assms(1) by (simp_all add: host_wf_def)
  obtain x sx where x: "map_of (sa_assignments (h_alloc s)) (fi_app_id f) = Some x"
    "describe_slot x (fi_app_id f) = Some sx" "fi_host_ipv4 f = sl_host_ipv4 sx"
    "fi_guest_ipv4 f = sl_guest_ipv4 sx" "fp_host_port (hd (fi_ports f)) = sl_host_port sx"
    using forwarded_slot [OF assms(2)] by metis
  obtain y sy where y: "map_of (sa_assignments (h_alloc s)) (fi_app_id g) = Some y"
    "describe_slot y (fi_app_id g) = Some sy" "fi_host_ipv4 g = sl_host_ipv4 sy"
    "fi_guest_ipv4 g = sl_guest_ipv4 sy" "fp_host_port (hd (fi_ports g)) = sl_host_port sy"
    using forwarded_slot [OF assms(3)] by metis
  have ne: "x \<noteq> y" using alloc_wf_injective [OF wf] x(1) y(1) assms(4) by auto
  have most: "x < most_apps_the_ports_fit" "y < most_apps_the_ports_fit"
    using wf x(1) y(1) by (fastforce simp: alloc_wf_def bt_values_def dest: map_of_SomeD)+
  have ports: "sl_host_port sx \<noteq> sl_host_port sy"
    using x(2) y(2) ne by (auto simp: describe_slot_eq [OF most(1)] describe_slot_eq [OF most(2)])
  have subseq: "distinct (map fi_app_id (List.map_filter h rs))"
    if "distinct (map ir_app_id rs)" "\<And>r i. h r = Some i \<Longrightarrow> fi_app_id i = ir_app_id r" for h rs
    using that
  proof (induction rs)
    case (Cons r rs)
    have "fi_app_id i \<in> ir_app_id ` set rs" if "i \<in> set (List.map_filter h rs)" for i
      using that Cons.prems(2) by (force simp: List.map_filter_def)
    with Cons show ?case by (force simp: List.map_filter_def)
  qed (simp add: List.map_filter_def)
  have "distinct (map fi_app_id (forwarded_from (h_snapshot s) (h_alloc s)))"
    unfolding forwarded_from_def
    by (rule subseq [OF records_wf_distinct [OF records]]) (auto split: if_splits option.splits)
  with ports slot_addresses_disjoint [OF x(2) y(2) most ne] x(3-5) y(3-5) show ?thesis by simp
qed

definition shared_host :: host where
  "shared_host = fresh_host\<lparr>
     h_alloc := snd (allocate ''app-b'' (snd (allocate ''app-a'' (addressing 8)))),
     h_snapshot := default_snapshot\<lparr>hs_records :=
       [(''app-a'', sample_record), (''app-b'', sample_record\<lparr>ir_app_id := ''app-b''\<rparr>)]\<rparr>\<rparr>"

end
